(* ===== verification/Prelude.thy ===== *)
theory Prelude
  imports Main "HOL-Library.Word" "HOL-Library.Multiset"
begin

text \<open>
  Shared vocabulary of the development: the fixed-width integers of the program, the outcome of a
  C++ block (normal return, thrown exception or process abort, with the state left behind), the
  sequencing combinators the component theories are written in, a weakest-precondition calculus
  for them, and the reachability locale every state machine of the development instantiates.

  A thrown exception keeps the state the block had reached: the peer's \<open>poll\<close> catches exceptions
  and goes on with whatever members had been written before the throw, so forgetting the state
  there would lose behaviour. \<open>Aborted\<close> stands for \<open>std::abort\<close>, \<open>std::exit\<close> and for
  undefined behaviour such as an index past the end of a vector: nothing runs after it.
\<close>

section \<open>Types of the program\<close>

type_synonym byte = "8 word"
type_synonym u16 = "16 word"
type_synonym u32 = "32 word"
type_synonym u64 = "64 word"
type_synonym bytes = "byte list"

datatype ('a, 's) outcome = Normal 'a 's | Thrown string 's | Aborted string 's

type_synonym ('s, 'a) prog = "'s \<Rightarrow> ('a, 's) outcome"

section \<open>Sequencing\<close>

definition ret :: "'a \<Rightarrow> ('s, 'a) prog" where
  "ret a s = Normal a s"

definition skip :: "('s, unit) prog" where
  "skip s = Normal () s"

definition throw :: "string \<Rightarrow> ('s, 'a) prog" where
  "throw msg s = Thrown msg s"

definition abort :: "string \<Rightarrow> ('s, 'a) prog" where
  "abort msg s = Aborted msg s"

definition modify :: "('s \<Rightarrow> 's) \<Rightarrow> ('s, unit) prog" where
  "modify f s = Normal () (f s)"

definition gets :: "('s \<Rightarrow> 'a) \<Rightarrow> ('s, 'a) prog" where
  "gets f s = Normal (f s) s"

text \<open>A statement whose text depends on the members it reads.\<close>

definition inspect :: "('s \<Rightarrow> ('s, 'a) prog) \<Rightarrow> ('s, 'a) prog" where
  "inspect f s = f s s"

definition bind :: "('s, 'a) prog \<Rightarrow> ('a \<Rightarrow> ('s, 'b) prog) \<Rightarrow> ('s, 'b) prog" where
  "bind m f s = (case m s of
     Normal a t \<Rightarrow> f a t | Thrown e t \<Rightarrow> Thrown e t | Aborted e t \<Rightarrow> Aborted e t)"

fun block :: "('s, unit) prog list \<Rightarrow> ('s, unit) prog" where
  "block [] = skip"
| "block (m # ms) = bind m (\<lambda>_. block ms)"

definition whenever :: "bool \<Rightarrow> ('s, unit) prog \<Rightarrow> ('s, unit) prog" where
  "whenever b m = (if b then m else skip)"

fun forEach :: "('x \<Rightarrow> ('s, unit) prog) \<Rightarrow> 'x list \<Rightarrow> ('s, unit) prog" where
  "forEach f [] = skip"
| "forEach f (x # xs) = bind (f x) (\<lambda>_. forEach f xs)"

text \<open>A pure computation that may throw, run as a statement.\<close>

definition of_result :: "string + 'a \<Rightarrow> ('s, 'a) prog" where
  "of_result r = (case r of Inl e \<Rightarrow> throw e | Inr a \<Rightarrow> ret a)"

text \<open>\<open>try m catch h\<close>.\<close>

definition attempt :: "('s, unit) prog \<Rightarrow> ('s, unit) prog \<Rightarrow> ('s, unit) prog" where
  "attempt m h s = (case m s of
     Normal a t \<Rightarrow> Normal a t | Thrown e t \<Rightarrow> h t | Aborted e t \<Rightarrow> Aborted e t)"

text \<open>Running an operation of a member object (read with \<open>g\<close>, written back with \<open>p\<close>).\<close>

definition zoom :: "('s \<Rightarrow> 't) \<Rightarrow> ('t \<Rightarrow> 's \<Rightarrow> 's) \<Rightarrow> ('t, 'a) prog \<Rightarrow> ('s, 'a) prog" where
  "zoom g p m s = (case m (g s) of
     Normal a t \<Rightarrow> Normal a (p t s) | Thrown e t \<Rightarrow> Thrown e (p t s) | Aborted e t \<Rightarrow> Aborted e (p t s))"

text \<open>Pure results that may throw.\<close>

definition bindR :: "string + 'a \<Rightarrow> ('a \<Rightarrow> string + 'b) \<Rightarrow> string + 'b" where
  "bindR r f = (case r of Inl e \<Rightarrow> Inl e | Inr a \<Rightarrow> f a)"

definition requireR :: "bool \<Rightarrow> string \<Rightarrow> string + 'a \<Rightarrow> string + 'a" where
  "requireR c msg k = (if c then k else Inl msg)"

lemma bindR_simps [simp]:
  "bindR (Inl e) f = Inl e" "bindR (Inr a) f = f a"
  by (simp_all add: bindR_def)

lemma bindR_eq_Inr: "bindR r f = Inr b \<longleftrightarrow> (\<exists>a. r = Inr a \<and> f a = Inr b)"
  by (cases r) simp_all

lemma requireR_eq_Inr: "requireR c msg k = Inr b \<longleftrightarrow> c \<and> k = Inr b"
  by (simp add: requireR_def)

section \<open>Weakest preconditions\<close>

named_theorems wp_rules \<open>unfolding rules of the weakest-precondition calculus\<close>

fun after :: "('a \<Rightarrow> 's \<Rightarrow> bool) \<Rightarrow> (string \<Rightarrow> 's \<Rightarrow> bool) \<Rightarrow> (string \<Rightarrow> 's \<Rightarrow> bool)
    \<Rightarrow> ('a, 's) outcome \<Rightarrow> bool" where
  "after Q E A (Normal a s) = Q a s"
| "after Q E A (Thrown e s) = E e s"
| "after Q E A (Aborted e s) = A e s"

definition wp :: "('s, 'a) prog \<Rightarrow> ('a \<Rightarrow> 's \<Rightarrow> bool) \<Rightarrow> (string \<Rightarrow> 's \<Rightarrow> bool) \<Rightarrow> (string \<Rightarrow> 's \<Rightarrow> bool)
    \<Rightarrow> 's \<Rightarrow> bool" where
  "wp m Q E A s = after Q E A (m s)"

lemma wp_ret [wp_rules]: "wp (ret a) Q E A = Q a"
  by (simp add: wp_def ret_def fun_eq_iff)

lemma wp_skip [wp_rules]: "wp skip Q E A = Q ()"
  by (simp add: wp_def skip_def fun_eq_iff)

lemma wp_throw [wp_rules]: "wp (throw msg) Q E A = E msg"
  by (simp add: wp_def throw_def fun_eq_iff)

lemma wp_abort [wp_rules]: "wp (abort msg) Q E A = A msg"
  by (simp add: wp_def abort_def fun_eq_iff)

lemma wp_modify [wp_rules]: "wp (modify f) Q E A = (\<lambda>s. Q () (f s))"
  by (simp add: wp_def modify_def fun_eq_iff)

lemma wp_gets [wp_rules]: "wp (gets f) Q E A = (\<lambda>s. Q (f s) s)"
  by (simp add: wp_def gets_def fun_eq_iff)

lemma wp_bind [wp_rules]: "wp (bind m f) Q E A = wp m (\<lambda>a. wp (f a) Q E A) E A"
proof
  show "wp (bind m f) Q E A s = wp m (\<lambda>a. wp (f a) Q E A) E A s" for s
    by (cases "m s") (simp_all add: wp_def bind_def)
qed

lemma wp_block_Nil [wp_rules]: "wp (block []) Q E A = Q ()"
  by (simp add: wp_rules)

lemma wp_block_Cons [wp_rules]:
  "wp (block (m # ms)) Q E A = wp m (\<lambda>_. wp (block ms) Q E A) E A"
  by (simp add: wp_rules)

lemma wp_if [wp_rules]:
  "wp (if b then m else n) Q E A s = (if b then wp m Q E A s else wp n Q E A s)"
  by simp

lemma wp_whenever [wp_rules]: "wp (whenever b m) Q E A s = (if b then wp m Q E A s else Q () s)"
  by (simp add: whenever_def wp_skip)

lemma wp_of_result [wp_rules]:
  "wp (of_result r) Q E A s = (case r of Inl e \<Rightarrow> E e s | Inr a \<Rightarrow> Q a s)"
  by (cases r) (simp_all add: of_result_def wp_rules)

lemma wp_attempt [wp_rules]: "wp (attempt m h) Q E A s = wp m Q (\<lambda>_. wp h Q E A) A s"
  by (cases "m s") (simp_all add: wp_def attempt_def)

lemma wp_zoom [wp_rules]:
  "wp (zoom g p m) Q E A s = wp m (\<lambda>a t. Q a (p t s)) (\<lambda>e t. E e (p t s))
     (\<lambda>e t. A e (p t s)) (g s)"
  by (cases "m (g s)") (simp_all add: wp_def zoom_def)

lemma wp_inspect [wp_rules]: "wp (inspect m) Q E A s = wp (m s) Q E A s"
  by (simp add: wp_def inspect_def)

lemma wp_option [wp_rules]:
  "wp (case x of None \<Rightarrow> m | Some y \<Rightarrow> n y) Q E A s =
     (case x of None \<Rightarrow> wp m Q E A s | Some y \<Rightarrow> wp (n y) Q E A s)"
  by (cases x) simp_all

lemma wp_sum [wp_rules]:
  "wp (case x of Inl y \<Rightarrow> m y | Inr y \<Rightarrow> n y) Q E A s =
     (case x of Inl y \<Rightarrow> wp (m y) Q E A s | Inr y \<Rightarrow> wp (n y) Q E A s)"
  by (cases x) simp_all

lemma wp_prod [wp_rules]:
  "wp (case x of (a, b) \<Rightarrow> m a b) Q E A s = (case x of (a, b) \<Rightarrow> wp (m a b) Q E A s)"
  by (cases x) simp

lemma wp_let [wp_rules]: "wp (let x = v in m x) Q E A s = (let x = v in wp (m x) Q E A s)"
  by (simp add: Let_def)

text \<open>Using what is known of a called operation: weaken its postconditions.\<close>

lemma wp_weaken:
  assumes "wp m Q E A s"
    and "\<And>a t. Q a t \<Longrightarrow> Q' a t" and "\<And>e t. E e t \<Longrightarrow> E' e t" and "\<And>e t. A e t \<Longrightarrow> A' e t"
  shows "wp m Q' E' A' s"
  using assms by (cases "m s") (auto simp: wp_def)

lemma wp_conj: "wp m Q E A s \<Longrightarrow> wp m Q' E' A' s \<Longrightarrow>
    wp m (\<lambda>a t. Q a t \<and> Q' a t) (\<lambda>e t. E e t \<and> E' e t) (\<lambda>e t. A e t \<and> A' e t) s"
  by (cases "m s") (auto simp: wp_def)

lemma wp_Normal: "m s = Normal a t \<Longrightarrow> wp m Q E A s \<Longrightarrow> Q a t"
  by (simp add: wp_def)

lemma wp_Thrown: "m s = Thrown e t \<Longrightarrow> wp m Q E A s \<Longrightarrow> E e t"
  by (simp add: wp_def)

lemma wp_Aborted: "m s = Aborted e t \<Longrightarrow> wp m Q E A s \<Longrightarrow> A e t"
  by (simp add: wp_def)

text \<open>
  \<open>keeps I m\<close>: from a state that satisfies \<open>I\<close>, the operation ends in one that satisfies it,
  by returning or by throwing, and the process never aborts.
\<close>

definition keeps :: "('s \<Rightarrow> bool) \<Rightarrow> ('s, 'a) prog \<Rightarrow> bool" where
  "keeps I m \<longleftrightarrow> (\<forall>s. I s \<longrightarrow> wp m (\<lambda>_. I) (\<lambda>_. I) (\<lambda>_ _. False) s)"

lemma keepsD: "keeps I m \<Longrightarrow> I s \<Longrightarrow> wp m (\<lambda>_. I) (\<lambda>_. I) (\<lambda>_ _. False) s"
  by (simp add: keeps_def)

lemma keepsI: "(\<And>s. I s \<Longrightarrow> wp m (\<lambda>_. I) (\<lambda>_. I) (\<lambda>_ _. False) s) \<Longrightarrow> keeps I m"
  by (simp add: keeps_def)

lemma keeps_bind: "keeps I m \<Longrightarrow> (\<And>a. keeps I (f a)) \<Longrightarrow> keeps I (bind m f)"
  unfolding keeps_def wp_bind by (blast intro: wp_weaken)

lemma keeps_skip [simp]: "keeps I skip"
  by (simp add: keeps_def wp_rules)

lemma keeps_forEach: "(\<And>x. x \<in> set xs \<Longrightarrow> keeps I (f x)) \<Longrightarrow> keeps I (forEach f xs)"
  by (induction xs) (auto intro!: keeps_bind)

lemma keeps_Normal: "keeps I m \<Longrightarrow> I s \<Longrightarrow> m s = Normal a t \<Longrightarrow> I t"
  by (auto simp: keeps_def wp_def)

lemma keeps_no_abort: "keeps I m \<Longrightarrow> I s \<Longrightarrow> m s \<noteq> Aborted e t"
  by (auto simp: keeps_def wp_def)

section \<open>Reachable states\<close>

inductive reachable :: "('s \<Rightarrow> bool) \<Rightarrow> ('s \<Rightarrow> 's \<Rightarrow> bool) \<Rightarrow> 's \<Rightarrow> bool"
  for init :: "'s \<Rightarrow> bool" and step :: "'s \<Rightarrow> 's \<Rightarrow> bool" where
  reach_init: "init s \<Longrightarrow> reachable init step s"
| reach_step: "reachable init step s \<Longrightarrow> step s t \<Longrightarrow> reachable init step t"

locale state_machine =
  fixes init :: "'s \<Rightarrow> bool"
    and step :: "'s \<Rightarrow> 's \<Rightarrow> bool"
    and inv :: "'s \<Rightarrow> bool"
  assumes init_inv: "init s \<Longrightarrow> inv s"
    and step_inv: "inv s \<Longrightarrow> step s t \<Longrightarrow> inv t"
begin

lemma reachable_inv: "reachable init step s \<Longrightarrow> inv s"
  by (induction rule: reachable.induct) (auto intro: init_inv step_inv)

lemma reachable_stable:
  assumes "reachable init step s" and "\<And>u v. inv u \<Longrightarrow> step u v \<Longrightarrow> P u \<Longrightarrow> P v"
    and "\<And>u. init u \<Longrightarrow> P u"
  shows "P s"
  using assms(1)
proof (induction rule: reachable.induct)
  case (reach_step u v)
  then show ?case by (blast intro: assms(2) reachable_inv)
qed (rule assms(3))

end

section \<open>Lists and words\<close>

lemma length_take_le [simp]: "length (take n xs) \<le> n"
  by simp

lemma word8_unat_less: "unat (b :: byte) < 256"
  using unsigned_less [of b] by simp

lemma word16_unat_less: "unat (h :: u16) < 65536"
  using unsigned_less [of h] by simp

lemma unat_of_nat_u16: "n < 65536 \<Longrightarrow> unat (of_nat n :: u16) = n"
  by (simp add: unsigned_of_nat take_bit_nat_eq_self)

lemma set_take_drop: "set (take n (drop m xs)) \<subseteq> set xs"
  by (meson in_set_dropD in_set_takeD subsetI)

end
