(* ===== verification/BleBytes.thy ===== *)
theory BleBytes
  imports Prelude
begin

unbundle bit_operations_syntax

text \<open>
  The byte helpers both sides of the Bluetooth link use: \<open>src/bluetooth/BleBytes.hpp\<close> and
  \<open>BleBytes.cpp\<close> of the host process, \<open>qemu/esp32s3/bluetooth/BleBytes.hpp\<close> of the controller
  inside QEMU. Byte spans and vectors are lists; \<open>std::array<uint8_t, n>\<close> is a list that the
  invariants keep at length \<open>n\<close>. Little-endian integers round-trip, the constant-time key
  comparison is equality, and the UUID text determines the UUID bytes.
\<close>

section \<open>Little-endian integers\<close>

definition le16 :: "byte \<Rightarrow> byte \<Rightarrow> u16" where
  "le16 a b = ucast a OR push_bit 8 (ucast b)"

definition readLe16 :: "bytes \<Rightarrow> string + u16" where
  "readLe16 bs = requireR (2 \<le> length bs) ''truncated BLE integer'' (Inr (le16 (bs ! 0) (bs ! 1)))"

definition appendLe16 :: "bytes \<Rightarrow> u16 \<Rightarrow> bytes" where
  "appendLe16 bs v = bs @ [ucast v, ucast (drop_bit 8 v)]"

definition readLe32 :: "bytes \<Rightarrow> u32" where
  "readLe32 bs = ucast (le16 (bs ! 0) (bs ! 1)) OR push_bit 16 (ucast (le16 (bs ! 2) (bs ! 3)))"

definition readLe64 :: "bytes \<Rightarrow> u64" where
  "readLe64 bs = foldl (\<lambda>g i. g OR push_bit (8 * i) (ucast (bs ! i))) 0 [0, 1, 2, 3, 4, 5, 6, 7]"

definition le64Bytes :: "u64 \<Rightarrow> bytes" where
  "le64Bytes g = map (\<lambda>shift. ucast (drop_bit shift g)) [0, 8, 16, 24, 32, 40, 48, 56]"

lemma le16_low [simp]: "ucast (le16 a b) = a"
  by (rule bit_word_eqI) (simp add: le16_def bit_simps)

lemma le16_high [simp]: "ucast (drop_bit 8 (le16 a b)) = b"
  by (rule bit_word_eqI) (auto simp: le16_def bit_simps dest: bit_imp_le_length)

lemma le16_of_bytes [simp]: "le16 (ucast v) (ucast (drop_bit 8 v)) = v"
proof (rule bit_word_eqI)
  fix n assume "n < LENGTH(16)"
  then show "bit (le16 (ucast v) (ucast (drop_bit 8 v))) n = bit v n"
    by (cases "n < 8") (auto simp: le16_def bit_simps)
qed

lemma unat_le16: "unat (le16 a b) = unat a + 256 * unat b"
proof -
  have "le16 a b = ucast a + push_bit 8 (ucast b)"
    unfolding le16_def
    by (rule disjunctive_add [symmetric]) (auto simp: bit_simps dest: bit_imp_le_length)
  moreover have "unat (ucast c :: u16) = unat c" for c :: byte
    using word8_unat_less [of c] by (simp add: unsigned_ucast_eq take_bit_nat_eq_self)
  moreover have "unat a < 256" "unat b < 256" by (simp_all add: word8_unat_less)
  ultimately show ?thesis
    by (simp add: push_bit_eq_mult unat_word_ariths)
qed

lemma readLe16_Inr: "readLe16 bs = Inr v \<longleftrightarrow> 2 \<le> length bs \<and> v = le16 (bs ! 0) (bs ! 1)"
  by (auto simp: readLe16_def requireR_def)

lemma readLe16_append [simp]: "readLe16 (appendLe16 [] v @ rest) = Inr v"
  by (simp add: readLe16_def requireR_def appendLe16_def)

lemma readLe16_Cons [simp]: "readLe16 (ucast v # ucast (drop_bit 8 v) # rest) = Inr v"
  by (simp add: readLe16_def requireR_def)

lemma length_appendLe16 [simp]: "length (appendLe16 bs v) = length bs + 2"
  by (simp add: appendLe16_def)

lemma length_le64Bytes [simp]: "length (le64Bytes g) = 8"
  by (simp add: le64Bytes_def)

lemma ucast_byte_64: "ucast (ucast x :: byte) = take_bit 8 (x :: u64)"
  by (rule bit_word_eqI) (auto simp: bit_simps)

lemma take_bit_join: "take_bit n g OR push_bit n (take_bit 8 (drop_bit n g)) = take_bit (n + 8) (g :: u64)"
  by (rule bit_word_eqI) (auto simp: bit_simps)

lemma readLe64_le64Bytes [simp]: "readLe64 (le64Bytes g @ rest) = g"
proof -
  have "readLe64 (le64Bytes g @ rest) = take_bit 8 g
      OR push_bit 8 (take_bit 8 (drop_bit 8 g)) OR push_bit 16 (take_bit 8 (drop_bit 16 g))
      OR push_bit 24 (take_bit 8 (drop_bit 24 g)) OR push_bit 32 (take_bit 8 (drop_bit 32 g))
      OR push_bit 40 (take_bit 8 (drop_bit 40 g)) OR push_bit 48 (take_bit 8 (drop_bit 48 g))
      OR push_bit 56 (take_bit 8 (drop_bit 56 g))"
    by (simp add: le64Bytes_def readLe64_def ucast_byte_64 or.assoc)
  also have "\<dots> = take_bit 64 g"
    using take_bit_join [of 8 g] take_bit_join [of 16 g] take_bit_join [of 24 g]
      take_bit_join [of 32 g] take_bit_join [of 40 g] take_bit_join [of 48 g]
      take_bit_join [of 56 g]
    by (simp flip: or.assoc)
  also have "\<dots> = g" by (rule take_bit_word_eq_self) simp
  finally show ?thesis .
qed

section \<open>Fixed-size fields\<close>

definition appendReverse :: "bytes \<Rightarrow> bytes \<Rightarrow> bytes" where
  "appendReverse bs tail = bs @ rev tail"

definition fixedBytes :: "nat \<Rightarrow> bytes \<Rightarrow> string + bytes" where
  "fixedBytes n bs = requireR (length bs = n) ''invalid BLE field length'' (Inr bs)"

definition reversed :: "bytes \<Rightarrow> bytes" where
  "reversed bs = rev bs"

definition equalKey :: "bytes \<Rightarrow> bytes \<Rightarrow> bool" where
  "equalKey l r \<longleftrightarrow> foldl (\<lambda>d i. d OR (l ! i XOR r ! i)) 0 [0..<length l] = 0"

lemma fixedBytes_Inr: "fixedBytes n bs = Inr x \<longleftrightarrow> length bs = n \<and> x = bs"
  by (auto simp: fixedBytes_def requireR_def)

lemma or_eq_0_word: "(a :: 'a::len word) OR b = 0 \<longleftrightarrow> a = 0 \<and> b = 0"
  by (auto simp: bit_eq_iff bit_simps)

lemma foldl_or_eq_0: "foldl (\<lambda>d i. d OR f i) (c :: byte) is = 0 \<longleftrightarrow> c = 0 \<and> (\<forall>i \<in> set is. f i = 0)"
  by (induction "is" arbitrary: c) (auto simp: or_eq_0_word)

lemma xor_eq_0_word: "(a :: 'a::len word) XOR b = 0 \<longleftrightarrow> a = b"
proof
  assume "a XOR b = 0"
  then have "(a XOR b) XOR b = b" by simp
  then show "a = b" by (simp add: xor.assoc)
qed simp

lemma equalKey_iff: "length l = length r \<Longrightarrow> equalKey l r \<longleftrightarrow> l = r"
  unfolding equalKey_def foldl_or_eq_0 xor_eq_0_word list_eq_iff_nth_eq [of l r] by auto

section \<open>UUID text\<close>

definition HexDigits :: string where
  "HexDigits = ''0123456789ABCDEF''"

definition hexByte :: "byte \<Rightarrow> string" where
  "hexByte b = [HexDigits ! unat (drop_bit 4 b), HexDigits ! unat (b AND 15)]"

definition uuidString :: "bytes \<Rightarrow> string + string" where
  "uuidString le = requireR (length le = 2 \<or> length le = 16) ''invalid GATT UUID length''
     (Inr (concat (map (\<lambda>i.
        (if length le = 16 \<and> (i = 4 \<or> i = 6 \<or> i = 8 \<or> i = 10) then ''-'' else '''') @
        hexByte (le ! (length le - i - 1))) [0..<length le])))"

lemma and_15: "(b :: byte) AND 15 = take_bit 4 b"
  by (simp add: take_bit_eq_mask mask_eq_exp_minus_1)

lemma nibble_high: "unat (drop_bit 4 (b :: byte)) < 16"
  using word8_unat_less [of b] unat_drop_bit_eq [of 4 b] drop_bit_eq_div [of 4 "unat b"]
  by (simp del: drop_bit_numeral_minus_bit1)

lemma nibble_low: "unat ((b :: byte) AND 15) < 16"
  using take_bit_nat_less_exp [of 4 "unat b"]
  by (simp only: and_15 unsigned_take_bit_eq) simp

lemma nibbles: "b = push_bit 4 (drop_bit 4 b) OR (b AND 15)" for b :: byte
  unfolding and_15 by (rule bit_word_eqI) (auto simp: bit_simps)

lemma HexDigits_inj: "i < 16 \<Longrightarrow> j < 16 \<Longrightarrow> HexDigits ! i = HexDigits ! j \<longleftrightarrow> i = j"
  by (rule nth_eq_iff_index_eq) (simp_all add: HexDigits_def)

lemma hexByte_inj [simp]: "hexByte a = hexByte b \<longleftrightarrow> a = b"
proof
  assume "hexByte a = hexByte b"
  then have hi: "drop_bit 4 a = drop_bit 4 b" and lo: "a AND 15 = b AND 15"
    by (simp_all add: hexByte_def HexDigits_inj nibble_high nibble_low flip: word_unat_eq_iff)
  then show "a = b" using nibbles [of a] nibbles [of b] by simp
qed simp

lemma length_hexByte [simp]: "length (hexByte b) = 2"
  by (simp add: hexByte_def)

lemma uuidString_short: "length le = 2 \<Longrightarrow> uuidString le = Inr (hexByte (le ! 1) @ hexByte (le ! 0))"
  by (simp add: uuidString_def requireR_def numeral_2_eq_2)

lemma upt_16: "[0..<16] = [0, 1, 2, 3, 4, 5, 6, 7, 8, 9, 10, 11, 12, 13, 14, 15 :: nat]"
  by code_simp

lemma uuidString_long: "length le = 16 \<Longrightarrow> uuidString le = Inr (concat
    [hexByte (le ! 15), hexByte (le ! 14), hexByte (le ! 13), hexByte (le ! 12), ''-'',
     hexByte (le ! 11), hexByte (le ! 10), ''-'', hexByte (le ! 9), hexByte (le ! 8), ''-'',
     hexByte (le ! 7), hexByte (le ! 6), ''-'', hexByte (le ! 5), hexByte (le ! 4),
     hexByte (le ! 3), hexByte (le ! 2), hexByte (le ! 1), hexByte (le ! 0)])"
  by (simp add: uuidString_def requireR_def upt_16)

lemma uuidString_Inr: "uuidString le = Inr s \<Longrightarrow> length le = 2 \<or> length le = 16"
  by (simp add: uuidString_def requireR_def split: if_splits)

lemma length_uuidString:
  "uuidString le = Inr s \<Longrightarrow> length s = (if length le = 2 then 4 else 36)"
  using uuidString_Inr [of le s] by (auto simp: uuidString_short uuidString_long)

lemma uuidString_inj:
  assumes "uuidString a = Inr s" and "uuidString b = Inr s"
  shows "a = b"
proof -
  have len: "length a = length b"
    using length_uuidString [OF assms(1)] length_uuidString [OF assms(2)]
      uuidString_Inr [OF assms(1)] uuidString_Inr [OF assms(2)] by (auto split: if_splits)
  from uuidString_Inr [OF assms(1)] show ?thesis
  proof
    assume "length a = 2"
    with assms len have "a ! 0 = b ! 0 \<and> a ! 1 = b ! 1"
      by (auto simp: uuidString_short)
    with \<open>length a = 2\<close> len show ?thesis
      by (auto simp: list_eq_iff_nth_eq [of a b] less_2_cases_iff)
  next
    assume l: "length a = 16"
    then have eq: "a ! i = b ! i" if "i \<in> set [0..<16]" for i
      using assms len that unfolding upt_16 by (auto simp: uuidString_long)
    show ?thesis
      using l len eq by (intro nth_equalityI) auto
  qed
qed

end
