(* ===== verification/PeerSocket.thy ===== *)
theory PeerSocket
  imports BleBytes "HOL-Library.Sublist"
begin

text \<open>
  The private Unix transport between the host bridge and the controller inside QEMU:
  \<open>qemu/esp32s3/bluetooth/PeerMessage.hpp\<close>, \<open>PeerSocket.hpp\<close> and \<open>PeerSocket.cpp\<close>.

  The kernel is the environment: \<open>k_sends\<close> and \<open>k_recvs\<close> are the results the next \<open>::send\<close> and
  \<open>::recv\<close> calls give (an exhausted script answers \<open>EAGAIN\<close>), \<open>k_sent\<close> the bytes the kernel has
  accepted and \<open>k_stream\<close> the bytes the other end has written and this end has not read.
  \<open>sock_log\<close> is an observation: the messages accepted for transmission since the socket was
  adopted; the stream invariant ties it to the bytes.
\<close>

section \<open>Messages and frames\<close>

datatype peer_message = Connect | Disconnect | L2cap | Encrypt | Advertising | Connected
  | Disconnected | Data | Encryption | Rejected | Reset | GattDatabase

fun messageByte :: "peer_message \<Rightarrow> byte" where
  "messageByte Connect = 1"
| "messageByte Disconnect = 2"
| "messageByte L2cap = 3"
| "messageByte Encrypt = 4"
| "messageByte Advertising = 0x80"
| "messageByte Connected = 0x81"
| "messageByte Disconnected = 0x82"
| "messageByte Data = 0x83"
| "messageByte Encryption = 0x84"
| "messageByte Rejected = 0x85"
| "messageByte Reset = 0x86"
| "messageByte GattDatabase = 0x87"

definition allMessages :: "peer_message list" where
  "allMessages = [Connect, Disconnect, L2cap, Encrypt, Advertising, Connected, Disconnected, Data,
     Encryption, Rejected, Reset, GattDatabase]"

text \<open>\<open>static_cast<PeerMessage>\<close>: a byte outside the enumeration matches no named value.\<close>

definition peerMessage :: "byte \<Rightarrow> peer_message option" where
  "peerMessage b = find (\<lambda>m. messageByte m = b) allMessages"

lemma peerMessage_messageByte [simp]: "peerMessage (messageByte m) = Some m"
  by (cases m) (simp_all add: peerMessage_def allMessages_def)

type_synonym message = "peer_message \<times> u64 \<times> bytes"

text \<open>The message without its length prefix, as \<open>receive\<close> hands it out.\<close>

fun packet :: "message \<Rightarrow> bytes" where
  "packet (m, g, payload) = messageByte m # le64Bytes g @ payload"

fun frame :: "message \<Rightarrow> bytes" where
  "frame (m, g, payload) =
     appendLe16 [] (of_nat (length payload + 9)) @ packet (m, g, payload)"

section \<open>State\<close>

datatype send_result = SendBytes nat | SendAgain | SendInterrupted | SendError
datatype recv_result = RecvBytes nat | RecvAgain | RecvInterrupted | RecvEof | RecvError

record kernel =
  k_sent :: bytes
  k_stream :: bytes
  k_sends :: "send_result list"
  k_recvs :: "recv_result list"

record peer_socket =
  fd :: bool
  opened :: bool
  incoming :: bytes
  outgoing :: "bytes list"
  sentBytes :: nat
  sock_kernel :: kernel
  sock_log :: "message list"

definition no_kernel :: kernel where
  "no_kernel = \<lparr>k_sent = [], k_stream = [], k_sends = [], k_recvs = []\<rparr>"

definition new_socket :: peer_socket where
  "new_socket = \<lparr>fd = False, opened = False, incoming = [], outgoing = [], sentBytes = 0,
     sock_kernel = no_kernel, sock_log = []\<rparr>"

definition MaxMessageBytes :: nat where "MaxMessageBytes = 1033"
definition MaxQueuedMessages :: nat where "MaxQueuedMessages = 64"

lemmas socket_limits = MaxMessageBytes_def MaxQueuedMessages_def

section \<open>Operations\<close>

definition sock_close :: "peer_socket \<Rightarrow> peer_socket" where
  "sock_close s = s\<lparr>fd := False, incoming := [], outgoing := [], sentBytes := 0\<rparr>"

text \<open>\<open>fcntl\<close> may fail to configure the descriptor; the connection's kernel state comes with it.\<close>

definition sock_adopt :: "kernel \<Rightarrow> bool \<Rightarrow> peer_socket \<Rightarrow> peer_socket" where
  "sock_adopt k configured s =
     (let s1 = (sock_close s)\<lparr>fd := True, opened := True, sock_kernel := k, sock_log := []\<rparr>
      in if configured then s1 else sock_close s1)"

text \<open>What \<open>open\<close> finds outside: the environment variable, the size of \<open>sun_path\<close>, the outcome of
  \<open>socket\<close>/\<open>connect\<close> and of \<open>fcntl\<close>.\<close>

record open_env =
  env_path :: "string option"
  env_pathLimit :: nat
  env_connects :: bool
  env_configured :: bool
  env_kernel :: kernel

definition sock_open :: "open_env \<Rightarrow> peer_socket \<Rightarrow> peer_socket" where
  "sock_open env s =
     (if opened s then s
      else let s1 = s\<lparr>opened := True\<rparr> in
        case env_path env of
          None \<Rightarrow> s1
        | Some path \<Rightarrow>
            if env_pathLimit env \<le> length path then s1
            else if \<not> env_connects env then sock_close s1
            else sock_adopt (env_kernel env) (env_configured env) s1)"

text \<open>Move assignment: close the target, take over the source's members.\<close>

definition sock_assign :: "peer_socket \<Rightarrow> peer_socket \<Rightarrow> peer_socket" where
  "sock_assign other s = (sock_close s)\<lparr>fd := fd other, opened := opened other,
     incoming := incoming other, outgoing := outgoing other, sentBytes := sentBytes other,
     sock_kernel := sock_kernel other, sock_log := sock_log other\<rparr>"

text \<open>The loop of \<open>flush\<close>; every pass asks the kernel once, so it runs along the script.\<close>

fun flush_loop :: "send_result list \<Rightarrow> peer_socket \<Rightarrow> peer_socket" where
  "flush_loop script s =
     (if fd s \<and> outgoing s \<noteq> [] then
        (case script of
           [] \<Rightarrow> s
         | r # rs \<Rightarrow>
             let s = s\<lparr>sock_kernel := (sock_kernel s)\<lparr>k_sends := rs\<rparr>\<rparr>;
                 pkt = hd (outgoing s) in
             (case r of
                SendAgain \<Rightarrow> s
              | SendInterrupted \<Rightarrow> flush_loop rs s
              | SendError \<Rightarrow> sock_close s
              | SendBytes n \<Rightarrow>
                  let written = min n (length pkt - sentBytes s) in
                  if written = 0 then sock_close s
                  else
                    let s = s\<lparr>sock_kernel := (sock_kernel s)\<lparr>k_sent := k_sent (sock_kernel s)
                                @ take written (drop (sentBytes s) pkt)\<rparr>,
                              sentBytes := sentBytes s + written\<rparr> in
                    if sentBytes s \<noteq> length pkt then s
                    else flush_loop rs (s\<lparr>outgoing := tl (outgoing s), sentBytes := 0\<rparr>)))
      else s)"

declare flush_loop.simps [simp del]

definition sock_flush :: "peer_socket \<Rightarrow> peer_socket" where
  "sock_flush s = flush_loop (k_sends (sock_kernel s)) s"

definition frameSize :: "bytes \<Rightarrow> nat" where
  "frameSize bs = (if length bs < 2 then 2 else 2 + unat (le16 (bs ! 0) (bs ! 1)))"

text \<open>The loop of \<open>receive\<close>; an empty result means no complete message is available.\<close>

fun receive_loop :: "recv_result list \<Rightarrow> peer_socket \<Rightarrow> bytes \<times> peer_socket" where
  "receive_loop script s =
     (if \<not> fd s then ([], s)
      else
        let required = frameSize (incoming s) in
        if required > MaxMessageBytes + 2 \<or> (required \<noteq> 2 \<and> required < 11) then ([], sock_close s)
        else if length (incoming s) = required \<and> required \<noteq> 2 then
          (drop 2 (incoming s), s\<lparr>incoming := []\<rparr>)
        else
          (case script of
             [] \<Rightarrow> ([], s)
           | r # rs \<Rightarrow>
               let s = s\<lparr>sock_kernel := (sock_kernel s)\<lparr>k_recvs := rs\<rparr>\<rparr>;
                   wanted = required - length (incoming s) in
               (case r of
                  RecvAgain \<Rightarrow> ([], s)
                | RecvInterrupted \<Rightarrow> receive_loop rs s
                | RecvEof \<Rightarrow> ([], sock_close s)
                | RecvError \<Rightarrow> ([], sock_close s)
                | RecvBytes n \<Rightarrow>
                    let stream = k_stream (sock_kernel s); count = min (max 1 n) wanted in
                    if wanted = 0 then ([], sock_close s)
                    else if stream = [] then ([], s)
                    else receive_loop rs (s\<lparr>incoming := incoming s @ take count stream,
                           sock_kernel := (sock_kernel s)\<lparr>k_stream := drop count stream\<rparr>\<rparr>))))"

declare receive_loop.simps [simp del]

definition sock_receive :: "peer_socket \<Rightarrow> bytes \<times> peer_socket" where
  "sock_receive s = receive_loop (k_recvs (sock_kernel s)) s"

definition sock_send :: "peer_message \<Rightarrow> u64 \<Rightarrow> bytes \<Rightarrow> (peer_socket, unit) prog" where
  "sock_send m g payload = inspect (\<lambda>s.
     if \<not> fd s then skip
     else if length payload + 9 > MaxMessageBytes then abort ''oversized BLE peer message''
     else if length (outgoing s) = MaxQueuedMessages then modify sock_close
     else block [
       modify (\<lambda>s. s\<lparr>outgoing := outgoing s @ [frame (m, g, payload)],
                      sock_log := sock_log s @ [(m, g, payload)]\<rparr>),
       modify sock_flush])"

section \<open>Frames\<close>

lemma length_packet [simp]: "length (packet (m, g, p)) = length p + 9"
  by simp

lemma length_frame [simp]: "length (frame (m, g, p)) = length p + 11"
  by simp

lemma length_frame_drop: "length (packet msg) + 2 = length (frame msg)"
  by (cases msg) simp

lemma drop_2_frame [simp]: "drop 2 (frame msg) = packet msg"
  by (cases msg) (simp add: appendLe16_def)

lemma frame_nonempty [simp]: "frame msg \<noteq> []"
  by (cases msg) simp

lemma frame_nonempty' [simp]: "[] \<noteq> frame msg"
  using frame_nonempty [of msg] by metis

lemma packet_nonempty [simp]: "packet msg \<noteq> []"
  by (cases msg) simp

declare frame.simps [simp del] packet.simps [simp del]

lemma frameSize_frame:
  assumes "length p + 9 < 65536" and "2 \<le> length bs" and "prefix bs (frame (m, g, p))"
  shows "frameSize bs = length p + 11"
proof -
  obtain rest where rest: "frame (m, g, p) = bs @ rest" using assms(3) by (auto elim: prefixE)
  have "bs ! i = frame (m, g, p) ! i" if "i < 2" for i
    using rest that assms(2) by (simp add: nth_append)
  then have "le16 (bs ! 0) (bs ! 1) = of_nat (length p + 9)"
    by (simp add: frame.simps appendLe16_def)
  moreover have "unat (of_nat (length p + 9) :: u16) = length p + 9"
    using assms(1) by (rule unat_of_nat_u16)
  ultimately show ?thesis using assms(2) by (simp add: frameSize_def)
qed

section \<open>The sending side: the byte stream is the log\<close>

definition sender_ok :: "peer_socket \<Rightarrow> bool" where
  "sender_ok s \<longleftrightarrow>
     length (outgoing s) \<le> MaxQueuedMessages \<and>
     [] \<notin> set (outgoing s) \<and>
     (sentBytes s \<noteq> 0 \<longrightarrow> outgoing s \<noteq> [] \<and> sentBytes s < length (hd (outgoing s))) \<and>
     (\<not> fd s \<longrightarrow> incoming s = [] \<and> outgoing s = []) \<and>
     prefix (k_sent (sock_kernel s)) (concat (map frame (sock_log s))) \<and>
     (fd s \<longrightarrow> k_sent (sock_kernel s) @ drop (sentBytes s) (concat (outgoing s)) =
        concat (map frame (sock_log s)))"

lemma sender_ok_new [simp]: "sender_ok new_socket"
  by (simp add: sender_ok_def new_socket_def no_kernel_def)

lemma sender_ok_close: "sender_ok s \<Longrightarrow> sender_ok (sock_close s)"
  by (simp add: sender_ok_def sock_close_def)

lemma sender_ok_kernel: "sender_ok s \<Longrightarrow> k_sent k = k_sent (sock_kernel s) \<Longrightarrow>
    sender_ok (s\<lparr>sock_kernel := k\<rparr>)"
  by (simp add: sender_ok_def)

lemma sender_ok_incoming: "sender_ok s \<Longrightarrow> fd s \<Longrightarrow> sender_ok (s\<lparr>incoming := bs\<rparr>)"
  by (simp add: sender_ok_def)

lemma drop_take_append: "drop n xs = take k (drop n xs) @ drop (n + k) xs"
  by (metis append_take_drop_id drop_drop add.commute)

lemma sender_ok_written:
  assumes ok: "sender_ok s" "fd s" and out: "outgoing s = pkt # rest"
    and n: "0 < n" "n \<le> length pkt - sentBytes s"
  defines "t \<equiv> s\<lparr>sock_kernel := (sock_kernel s)\<lparr>k_sent := k_sent (sock_kernel s)
      @ take n (drop (sentBytes s) pkt)\<rparr>, sentBytes := sentBytes s + n\<rparr>"
  shows "if sentBytes t \<noteq> length pkt then sender_ok t
    else sender_ok (t\<lparr>outgoing := rest, sentBytes := 0\<rparr>)"
proof -
  from n have le: "sentBytes s + n \<le> length pkt" by simp
  have stream: "k_sent (sock_kernel s) @ drop (sentBytes s) pkt @ concat rest =
      concat (map frame (sock_log s))"
    using ok out n by (simp add: sender_ok_def)
  moreover have "drop (sentBytes s) pkt @ concat rest =
      take n (drop (sentBytes s) pkt) @ drop (sentBytes s + n) pkt @ concat rest"
    by (metis append.assoc drop_take_append)
  ultimately have sent: "k_sent (sock_kernel t) @ drop (sentBytes s + n) pkt @ concat rest =
      concat (map frame (sock_log s))"
    by (simp add: t_def)
  then have pre: "prefix (k_sent (sock_kernel t)) (concat (map frame (sock_log s)))"
    by (metis prefixI)
  show ?thesis
    using ok out sent pre le n by (auto simp: sender_ok_def t_def)
qed

lemma flush_loop_bytes:
  fixes s rs
  defines "s1 \<equiv> s\<lparr>sock_kernel := (sock_kernel s)\<lparr>k_sends := rs\<rparr>\<rparr>"
  assumes "fd s" and "outgoing s = pkt # rest" and w: "w = min n (length pkt - sentBytes s)"
    and u: "u = s1\<lparr>sock_kernel := (sock_kernel s1)\<lparr>k_sent := k_sent (sock_kernel s1)
      @ take w (drop (sentBytes s1) pkt)\<rparr>, sentBytes := sentBytes s1 + w\<rparr>"
  shows "flush_loop (SendBytes n # rs) s = (if w = 0 then sock_close s1
    else if sentBytes u \<noteq> length pkt then u
    else flush_loop rs (u\<lparr>outgoing := rest, sentBytes := 0\<rparr>))"
  using assms(2,3) by (subst flush_loop.simps) (auto simp: Let_def w u s1_def min_def)

lemma sender_ok_flush_loop: "sender_ok s \<Longrightarrow> sender_ok (flush_loop script s)"
proof (induction script arbitrary: s)
  case Nil
  then show ?case by (subst flush_loop.simps) simp
next
  case (Cons r rs)
  let ?s = "s\<lparr>sock_kernel := (sock_kernel s)\<lparr>k_sends := rs\<rparr>\<rparr>"
  have ok: "sender_ok ?s" using Cons.prems by (rule sender_ok_kernel) simp
  show ?case
  proof (cases "fd s \<and> outgoing s \<noteq> []")
    case False
    with Cons.prems show ?thesis by (subst flush_loop.simps) auto
  next
    case True
    then obtain pkt rest where out: "outgoing ?s = pkt # rest" by (cases "outgoing s") auto
    show ?thesis
    proof (cases r)
      case (SendBytes n)
      define w where "w = min n (length pkt - sentBytes s)"
      define u where "u = ?s\<lparr>sock_kernel := (sock_kernel ?s)\<lparr>k_sent := k_sent (sock_kernel ?s)
          @ take w (drop (sentBytes ?s) pkt)\<rparr>, sentBytes := sentBytes ?s + w\<rparr>"
      note unfold = flush_loop_bytes [OF _ _ w_def u_def, of rest, folded SendBytes]
      have "0 < w \<Longrightarrow> if sentBytes u \<noteq> length pkt then sender_ok u
          else sender_ok (u\<lparr>outgoing := rest, sentBytes := 0\<rparr>)"
        unfolding u_def by (rule sender_ok_written [OF ok _ out]) (use True in \<open>simp_all add: w_def\<close>)
      then show ?thesis
        using unfold ok Cons.IH True out by (auto simp: sender_ok_close)
    qed (use True Cons.IH ok in \<open>subst flush_loop.simps, auto simp: Let_def sender_ok_close\<close>)+
  qed
qed

lemma sender_ok_flush: "sender_ok s \<Longrightarrow> sender_ok (sock_flush s)"
  by (simp add: sock_flush_def sender_ok_flush_loop)

lemma sender_ok_adopt: "sender_ok s \<Longrightarrow> k_sent k = [] \<Longrightarrow> sender_ok (sock_adopt k ok s)"
  by (simp add: sock_adopt_def sock_close_def sender_ok_def Let_def)

lemma sender_ok_open: "sender_ok s \<Longrightarrow> k_sent (env_kernel env) = [] \<Longrightarrow> sender_ok (sock_open env s)"
proof -
  assume ok: "sender_ok s" and k: "k_sent (env_kernel env) = []"
  have "sender_ok (s\<lparr>opened := True\<rparr>)" using ok by (simp add: sender_ok_def)
  then show ?thesis
    using ok k by (auto simp: sock_open_def Let_def sender_ok_close sender_ok_adopt split: option.split)
qed

lemma sender_ok_assign: "sender_ok other \<Longrightarrow> sender_ok (sock_assign other s)"
  by (simp add: sock_assign_def sock_close_def sender_ok_def)

lemma sender_ok_receive_loop: "sender_ok s \<Longrightarrow> sender_ok (snd (receive_loop script s))"
proof (induction script arbitrary: s)
  case Nil
  then show ?case
    by (subst receive_loop.simps) (auto simp: Let_def sender_ok_close intro: sender_ok_incoming)
next
  case (Cons r rs)
  let ?s = "s\<lparr>sock_kernel := (sock_kernel s)\<lparr>k_recvs := rs\<rparr>\<rparr>"
  have ok: "sender_ok ?s" using Cons.prems by (rule sender_ok_kernel) simp
  have "fd s \<Longrightarrow> sender_ok (?s\<lparr>incoming := bs, sock_kernel := (sock_kernel ?s)\<lparr>k_stream := st\<rparr>\<rparr>)" for bs st
    using sender_ok_kernel [OF sender_ok_incoming [OF ok, of bs], of "(sock_kernel ?s)\<lparr>k_stream := st\<rparr>"]
    by simp
  then show ?case
    using Cons ok
    by (subst receive_loop.simps)
      (auto simp: Let_def sender_ok_close intro: sender_ok_incoming split: recv_result.split)
qed

lemma sender_ok_receive: "sender_ok s \<Longrightarrow> sender_ok (snd (sock_receive s))"
  by (simp add: sock_receive_def sender_ok_receive_loop)

lemma sender_ok_push:
  assumes "sender_ok s" "fd s" "length (outgoing s) \<noteq> MaxQueuedMessages"
  shows "sender_ok (s\<lparr>outgoing := outgoing s @ [frame msg], sock_log := sock_log s @ [msg]\<rparr>)"
proof -
  have "sentBytes s \<le> length (concat (outgoing s))"
    using assms(1) by (cases "outgoing s") (auto simp: sender_ok_def)
  then show ?thesis
    using assms by (auto simp: sender_ok_def hd_append prefix_def)
qed

lemma sock_send_keeps:
  assumes "sender_ok s"
  shows "wp (sock_send m g p) (\<lambda>_. sender_ok) (\<lambda>_ _. False) (\<lambda>_ _. fd s \<and> 1024 < length p) s"
  using assms
  by (auto simp: sock_send_def wp_rules sender_ok_close socket_limits
      intro!: sender_ok_flush sender_ok_push)

section \<open>Sending, as equations\<close>

definition sock_sent :: "peer_message \<Rightarrow> u64 \<Rightarrow> bytes \<Rightarrow> peer_socket \<Rightarrow> peer_socket" where
  "sock_sent m g p k = (case sock_send m g p k of Normal _ t \<Rightarrow> t | _ \<Rightarrow> k)"

lemma sock_send_Normal:
  "length p \<le> 1024 \<Longrightarrow> sock_send m g p k = Normal () (sock_sent m g p k)"
  by (simp add: sock_sent_def sock_send_def inspect_def skip_def modify_def bind_def socket_limits)

lemma sender_ok_sent [simp]: "sender_ok k \<Longrightarrow> sender_ok (sock_sent m g p k)"
  using sock_send_keeps [of k m g p]
  by (cases "sock_send m g p k") (auto simp: sock_sent_def wp_def)

section \<open>The receiving side: packets come out in order, whole\<close>

definition benign :: "recv_result \<Rightarrow> bool" where
  "benign r \<longleftrightarrow> r \<noteq> RecvEof \<and> r \<noteq> RecvError"

fun sendable :: "message \<Rightarrow> bool" where
  "sendable (m, g, payload) \<longleftrightarrow> length payload \<le> 1024"

text \<open>\<open>receiver_sees s msgs\<close>: what the receiver holds and what waits in the kernel is the
  beginning of the byte stream of \<open>msgs\<close>.\<close>

definition receiver_sees :: "peer_socket \<Rightarrow> message list \<Rightarrow> bool" where
  "receiver_sees s msgs \<longleftrightarrow> fd s \<and> list_all benign (k_recvs (sock_kernel s)) \<and>
     list_all sendable msgs \<and>
     prefix (incoming s @ k_stream (sock_kernel s)) (concat (map frame msgs)) \<and>
     (msgs \<noteq> [] \<longrightarrow> length (incoming s) \<le> length (frame (hd msgs)))"

lemma frameSize_partial:
  assumes "sendable msg" and "prefix bs (frame msg)"
  shows "frameSize bs = (if length bs < 2 then 2 else length (frame msg))"
proof -
  obtain m g p where msg: "msg = (m, g, p)" by (cases msg)
  show ?thesis
    using assms frameSize_frame [of p bs m g] by (auto simp: msg frameSize_def)
qed

lemma receiver_sees_partial:
  assumes "receiver_sees s (msg # msgs)"
  shows "prefix (incoming s) (frame msg)"
proof -
  have "prefix (incoming s) (frame msg @ concat (map frame msgs))"
    using assms by (auto simp: receiver_sees_def dest: append_prefixD)
  then show ?thesis
    using assms by (auto simp: receiver_sees_def intro: prefix_length_prefix)
qed

lemma receiver_sees_read:
  assumes "receiver_sees s msgs" and "msgs \<noteq> [] \<Longrightarrow> length (incoming s) + n \<le> length (frame (hd msgs))"
    and "list_all benign rs"
  shows "receiver_sees (s\<lparr>incoming := incoming s @ take n (k_stream (sock_kernel s)),
    sock_kernel := (sock_kernel s)\<lparr>k_recvs := rs, k_stream := drop n (k_stream (sock_kernel s))\<rparr>\<rparr>) msgs"
  using assms by (auto simp: receiver_sees_def)

lemma receiver_sees_script:
  "receiver_sees s msgs \<Longrightarrow> list_all benign rs \<Longrightarrow>
     receiver_sees (s\<lparr>sock_kernel := (sock_kernel s)\<lparr>k_recvs := rs\<rparr>\<rparr>) msgs"
  by (simp add: receiver_sees_def)

definition receives_next :: "message list \<Rightarrow> bytes \<times> peer_socket \<Rightarrow> bool" where
  "receives_next msgs r \<longleftrightarrow>
     (fst r = [] \<and> receiver_sees (snd r) msgs) \<or>
     (\<exists>m ms. msgs = m # ms \<and> fst r = packet m \<and> receiver_sees (snd r) ms)"

text \<open>One pass of the loop with the size test decided.\<close>

lemma receive_loop_wait:
  assumes "fd s" and "w = frameSize (incoming s) - length (incoming s)" and "0 < w"
    and "frameSize (incoming s) = 2 \<or> 11 \<le> frameSize (incoming s)"
    and "frameSize (incoming s) \<le> MaxMessageBytes + 2"
  shows "receive_loop script s = (case script of [] \<Rightarrow> ([], s)
    | r # rs \<Rightarrow>
        let s' = s\<lparr>sock_kernel := (sock_kernel s)\<lparr>k_recvs := rs\<rparr>\<rparr>;
            stream = k_stream (sock_kernel s); n = (\<lambda>k. min (max 1 k) w) in
        (case r of RecvAgain \<Rightarrow> ([], s') | RecvInterrupted \<Rightarrow> receive_loop rs s'
         | RecvEof \<Rightarrow> ([], sock_close s') | RecvError \<Rightarrow> ([], sock_close s')
         | RecvBytes k \<Rightarrow> if stream = [] then ([], s') else receive_loop rs
             (s\<lparr>incoming := incoming s @ take (n k) stream,
                sock_kernel := (sock_kernel s)\<lparr>k_recvs := rs, k_stream := drop (n k) stream\<rparr>\<rparr>)))"
proof -
  have "\<not> (MaxMessageBytes + 2 < frameSize (incoming s) \<or>
      frameSize (incoming s) \<noteq> 2 \<and> frameSize (incoming s) < 11)"
    and "length (incoming s) \<noteq> frameSize (incoming s)" and "w \<noteq> 0"
    using assms by auto
  then show ?thesis
    using assms(1) unfolding assms(2)
    by (subst receive_loop.simps) (simp only: Let_def, simp split: list.split recv_result.split)
qed

lemma sendable_frame_length:
  "sendable m \<Longrightarrow> 11 \<le> length (frame m) \<and> length (frame m) \<le> MaxMessageBytes + 2"
  by (cases m) (simp add: socket_limits)

lemma receiver_sees_cases:
  assumes sees: "receiver_sees s msgs"
  obtains (complete) m ms where "msgs = m # ms" and "incoming s = frame m"
  | (waits) "frameSize (incoming s) = 2 \<or> 11 \<le> frameSize (incoming s)"
      and "frameSize (incoming s) \<le> MaxMessageBytes + 2"
      and "0 < frameSize (incoming s) - length (incoming s)"
      and "msgs \<noteq> [] \<Longrightarrow> frameSize (incoming s) \<le> length (frame (hd msgs))"
proof (cases msgs)
  case Nil
  then have "incoming s = []" using sees by (simp add: receiver_sees_def)
  with Nil show ?thesis using waits by (simp add: frameSize_def socket_limits)
next
  case (Cons m ms)
  have ok: "sendable m" using sees Cons by (simp add: receiver_sees_def)
  have pre: "prefix (incoming s) (frame m)"
    using sees Cons by (simp add: receiver_sees_partial)
  have size: "frameSize (incoming s) = (if length (incoming s) < 2 then 2 else length (frame m))"
    by (rule frameSize_partial [OF ok pre])
  show ?thesis
  proof (cases "length (incoming s) = length (frame m)")
    case True
    with pre have "incoming s = frame m" by (auto simp: prefix_def)
    then show ?thesis using complete Cons by blast
  next
    case False
    with prefix_length_le [OF pre] have "length (incoming s) < length (frame m)" by simp
    then show ?thesis
      using waits size sendable_frame_length [OF ok] Cons by (auto simp: socket_limits)
  qed
qed

lemma receive_loop_complete:
  assumes sees: "receiver_sees s (m # ms)" and inc: "incoming s = frame m"
  shows "receives_next (m # ms) (receive_loop script s)"
proof -
  have m: "sendable m" and fd: "fd s" using sees by (simp_all add: receiver_sees_def)
  have len: "11 \<le> length (frame m)" "length (frame m) \<le> MaxMessageBytes + 2"
    using sendable_frame_length [OF m] by auto
  have size: "frameSize (frame m) = length (frame m)"
    using frameSize_partial [OF m, of "frame m"] len by simp
  have "receive_loop script s = (packet m, s\<lparr>incoming := []\<rparr>)"
    using fd inc size len by (subst receive_loop.simps) (simp add: Let_def)
  moreover have "receiver_sees (s\<lparr>incoming := []\<rparr>) ms"
    using sees inc by (auto simp: receiver_sees_def)
  ultimately show ?thesis by (simp add: receives_next_def)
qed

lemma receive_loop_next:
  assumes "receiver_sees s msgs" and "list_all benign script"
  shows "receives_next msgs (receive_loop script s)"
  using assms
proof (induction script arbitrary: s)
  case (Nil s)
  then have fd: "fd s" by (simp add: receiver_sees_def)
  from Nil.prems(1) show ?case
  proof (cases rule: receiver_sees_cases)
    case (complete m ms)
    with Nil.prems show ?thesis by (simp add: receive_loop_complete)
  next
    case waits
    show ?thesis
      using Nil.prems(1) by (subst receive_loop_wait [OF fd refl waits(3) waits(1,2)])
        (simp add: receives_next_def)
  qed
next
  case (Cons r rs s)
  then have fd: "fd s" and rs: "list_all benign rs" and r: "benign r"
    by (simp_all add: receiver_sees_def)
  from Cons.prems(1) show ?case
  proof (cases rule: receiver_sees_cases)
    case (complete m ms)
    with Cons.prems show ?thesis by (simp add: receive_loop_complete)
  next
    case waits
    let ?w = "frameSize (incoming s) - length (incoming s)"
    have "receiver_sees (s\<lparr>incoming := incoming s @ take (min (max 1 k) ?w) (k_stream (sock_kernel s)),
        sock_kernel := (sock_kernel s)\<lparr>k_recvs := rs,
          k_stream := drop (min (max 1 k) ?w) (k_stream (sock_kernel s))\<rparr>\<rparr>) msgs" for k
      by (rule receiver_sees_read [OF Cons.prems(1) _ rs]) (use waits in fastforce)
    moreover have "receives_next msgs ([], t)" if "receiver_sees t msgs" for t
      using that by (simp add: receives_next_def)
    moreover have "r \<noteq> RecvEof" "r \<noteq> RecvError" using r by (simp_all add: benign_def)
    ultimately show ?thesis
      using receiver_sees_script [OF Cons.prems(1) rs] Cons.IH [OF _ rs]
      by (subst receive_loop_wait [OF fd refl waits(3) waits(1,2)])
        (simp add: Let_def split: recv_result.split)
  qed
qed

lemma sock_receive_next: "receiver_sees s msgs \<Longrightarrow> receives_next msgs (sock_receive s)"
  by (simp add: sock_receive_def receive_loop_next receiver_sees_def)

section \<open>The interface the two link ends rely on\<close>

text \<open>
  A client of the socket calls \<open>receive\<close> until it gives nothing: \<open>VirtualPeer::poll\<close> at most 64
  times, \<open>BleController::pollPeer\<close> while its event queue has room. All it needs of the socket is
  that each call gives the next message of the stream or nothing. \<open>collect n\<close> is at most \<open>n\<close>
  such calls.
\<close>

fun collect :: "nat \<Rightarrow> ('s \<Rightarrow> bytes \<times> 's) \<Rightarrow> 's \<Rightarrow> bytes list \<times> 's" where
  "collect 0 receive s = ([], s)"
| "collect (Suc n) receive s =
     (let (p, t) = receive s in
      if p = [] then ([], t)
      else let (ps, u) = collect n receive t in (p # ps, u))"

locale packet_source =
  fixes receive :: "'s \<Rightarrow> bytes \<times> 's"
    and sees :: "'s \<Rightarrow> 'm list \<Rightarrow> bool"
    and pkt :: "'m \<Rightarrow> bytes"
  assumes pkt_nonempty: "pkt m \<noteq> []"
    and receive_law: "sees s ms \<Longrightarrow>
      (fst (receive s) = [] \<and> sees (snd (receive s)) ms) \<or>
      (\<exists>m ns. ms = m # ns \<and> fst (receive s) = pkt m \<and> sees (snd (receive s)) ns)"
begin

lemma receive_cases:
  assumes "sees s ms" and "receive s = (p, t)"
  obtains (nothing) "p = []" and "sees t ms"
  | (message) m ns where "ms = m # ns" and "p = pkt m" and "sees t ns"
  using receive_law [OF assms(1)] assms(2) by auto

lemma collect_in_order:
  assumes "sees s ms"
  shows "\<exists>k. fst (collect n receive s) = map pkt (take k ms) \<and>
    sees (snd (collect n receive s)) (drop k ms)"
  using assms
proof (induction n arbitrary: s ms)
  case 0
  then show ?case by (intro exI [of _ 0]) simp
next
  case (Suc n)
  obtain p t where pt: "receive s = (p, t)" by fastforce
  from Suc.prems pt show ?case
  proof (cases rule: receive_cases)
    case nothing
    with pt show ?thesis by (intro exI [of _ 0]) simp
  next
    case (message m ns)
    then obtain k where "fst (collect n receive t) = map pkt (take k ns) \<and>
        sees (snd (collect n receive t)) (drop k ns)"
      using Suc.IH by blast
    with message pt show ?thesis
      by (intro exI [of _ "Suc k"]) (simp add: pkt_nonempty case_prod_beta)
  qed
qed

end

interpretation socket_source: packet_source sock_receive receiver_sees packet
  by unfold_locales (use sock_receive_next in \<open>simp_all add: receives_next_def\<close>)

section \<open>Correctness of the transport\<close>

text \<open>
  A fresh receiver to which the kernel has brought any prefix of what the sender handed over, cut
  in any pieces: what it receives is a prefix of what was sent.
\<close>

definition fresh_receiver :: "peer_socket \<Rightarrow> bool" where
  "fresh_receiver s \<longleftrightarrow> fd s \<and> incoming s = [] \<and> list_all benign (k_recvs (sock_kernel s))"

lemma fresh_receiver_sees:
  assumes "fresh_receiver r" and "sender_ok s" and "list_all sendable (sock_log s)"
    and "prefix (k_stream (sock_kernel r)) (k_sent (sock_kernel s))"
  shows "receiver_sees r (sock_log s)"
  using assms by (auto simp: fresh_receiver_def receiver_sees_def sender_ok_def
      intro: prefix_order.order_trans)



definition demo_sender :: peer_socket where
  "demo_sender = new_socket\<lparr>fd := True,
     sock_kernel := no_kernel\<lparr>k_sent := frame (Disconnect, 1, [0x13])\<rparr>,
     sock_log := [(Disconnect, 1, [0x13])]\<rparr>"

definition demo_receiver :: peer_socket where
  "demo_receiver = new_socket\<lparr>fd := True, sock_kernel := no_kernel\<lparr>
     k_stream := take 7 (frame (Disconnect, 1, [0x13])), k_recvs := [RecvBytes 3, RecvAgain]\<rparr>\<rparr>"


end
