(* ===== verification/SmpCrypto.thy ===== *)
theory SmpCrypto
  imports BleBytes
begin

text \<open>
  The key derivation of LE Secure Connections pairing: \<open>src/bluetooth/SmpCrypto.cpp\<close> and the byte
  order of \<open>src/bluetooth/macos/SmpKeyPair.cpp\<close>. The AES block cipher and the P-256 primitives are
  the platform's (CommonCrypto and the Security framework), hence parameters; all that is relied on
  is that a block cipher gives 16 bytes. The program's CMAC loop is shown equal to the definition
  of NIST SP 800-38B, and its subkey doubling to multiplication by \<open>x\<close> in \<open>GF(2^128)\<close>.
\<close>

type_synonym cipher = "bytes \<Rightarrow> bytes \<Rightarrow> bytes"

section \<open>AES-CMAC\<close>

definition doubleBlock :: "bytes \<Rightarrow> bytes" where
  "doubleBlock blk =
     (let n = length blk;
          result = map (\<lambda>i. push_bit 1 (blk ! i) OR
            (if i + 1 < n then drop_bit 7 (blk ! (i + 1)) else 0)) [0..<n]
      in if blk ! 0 AND 0x80 \<noteq> 0 then result[n - 1 := result ! (n - 1) XOR 0x87] else result)"

text \<open>One byte of the block that goes into the cipher.\<close>

definition cmacByte :: "bytes \<Rightarrow> bytes \<Rightarrow> nat \<Rightarrow> bytes \<Rightarrow> nat \<Rightarrow> nat \<Rightarrow> byte" where
  "cmacByte message lastSubkey blocks state blk i =
     (let offset = blk * 16;
          a = (if offset + i < length message then state ! i XOR message ! (offset + i)
               else if offset + i = length message then state ! i XOR 0x80 else state ! i)
      in if blk + 1 = blocks then a XOR lastSubkey ! i else a)"

definition zeroBlock :: bytes where
  "zeroBlock = replicate 16 0"

definition aesCmac :: "cipher \<Rightarrow> bytes \<Rightarrow> bytes \<Rightarrow> bytes" where
  "aesCmac aes key message =
     (let firstSubkey = doubleBlock (aes key zeroBlock);
          lastSubkey = (if message \<noteq> [] \<and> length message mod 16 = 0 then firstSubkey
                        else doubleBlock firstSubkey);
          blocks = max 1 ((length message + 15) div 16)
      in foldl (\<lambda>state blk. aes key (map (cmacByte message lastSubkey blocks state blk) [0..<16]))
           zeroBlock [0..<blocks])"

section \<open>The SMP functions\<close>

definition smpConfirm :: "cipher \<Rightarrow> bytes \<Rightarrow> bytes \<Rightarrow> bytes \<Rightarrow> bytes" where
  "smpConfirm aes firstX secondX nonce =
     reversed (aesCmac aes (reversed nonce)
       (appendReverse (appendReverse [] firstX) secondX @ [0]))"

definition Salt :: bytes where
  "Salt = [0x6C, 0x88, 0x83, 0x91, 0xAA, 0xF5, 0xA5, 0x38, 0x60, 0x37, 0x0B, 0xDB, 0x5A, 0x60,
     0x83, 0xBE]"

definition smpKeys :: "cipher \<Rightarrow> bytes \<Rightarrow> bytes \<Rightarrow> bytes \<Rightarrow> bytes \<Rightarrow> bytes \<Rightarrow> bytes \<times> bytes" where
  "smpKeys aes sharedSecret firstNonce secondNonce firstAddress secondAddress =
     (let temporary = aesCmac aes Salt (rev sharedSecret);
          message = appendReverse (appendReverse (appendReverse (appendReverse
            [0, 0x62, 0x74, 0x6C, 0x65] firstNonce) secondNonce) firstAddress) secondAddress @ [1, 0];
          macKey = reversed (aesCmac aes temporary message)
      in (macKey, reversed (aesCmac aes temporary (message[0 := 1]))))"

definition smpCheck :: "cipher \<Rightarrow> bytes \<Rightarrow> bytes \<Rightarrow> bytes \<Rightarrow> bytes \<Rightarrow> bytes \<Rightarrow> bytes \<Rightarrow> bytes" where
  "smpCheck aes macKey firstNonce secondNonce io firstAddress secondAddress =
     reversed (aesCmac aes (reversed macKey)
       (appendReverse (appendReverse (appendReverse (
          appendReverse (appendReverse [] firstNonce) secondNonce @ zeroBlock)
          io) firstAddress) secondAddress))"

section \<open>Key pairs\<close>

text \<open>
  What the Security framework provides: whether a point is on the curve, the uncompressed public
  point of a private key (its export or encoding may fail) and the Diffie-Hellman result for a
  peer's point. \<open>draw n\<close> is the \<open>n\<close>-th fresh private key (its generation may fail) with the random
  nonce drawn next to it.
\<close>

type_synonym secret_key = bytes

record platform =
  aes_block :: cipher
  raw_public :: "secret_key \<Rightarrow> bytes option"
  raw_point :: "bytes \<Rightarrow> bool"
  raw_exchange :: "secret_key \<Rightarrow> bytes \<Rightarrow> bytes option"
  draw :: "nat \<Rightarrow> secret_key option \<times> bytes"

text \<open>\<open>aesEncryptBlock\<close> lets CommonCrypto write into a \<open>Key128\<close>, so its result has 16 bytes whatever
  the primitive writes. (\<open>CCCrypt\<close> on one block with a 16-byte key does not fail; the exception for
  that case is not modelled.)\<close>

definition aesEncryptBlock :: "platform \<Rightarrow> bytes \<Rightarrow> bytes \<Rightarrow> bytes" where
  "aesEncryptBlock pf key blk =
     (let out = aes_block pf key blk in take 16 (out @ drop (length out) zeroBlock))"

definition publicKey :: "platform \<Rightarrow> secret_key \<Rightarrow> string + bytes" where
  "publicKey pf sk =
     (case raw_public pf sk of
        None \<Rightarrow> Inl ''cannot export SMP public key''
      | Some encoded \<Rightarrow>
          requireR (length encoded = 65 \<and> encoded ! 0 = 4) ''unexpected P-256 public key encoding''
            (Inr (rev (take 32 (drop 1 encoded)) @ rev (take 32 (drop 33 encoded)))))"

definition sharedSecret :: "platform \<Rightarrow> secret_key \<Rightarrow> bytes \<Rightarrow> string + bytes" where
  "sharedSecret pf sk peerPublicKey =
     requireR (length peerPublicKey = 64) ''invalid SMP public key length''
      (let external = appendReverse (appendReverse [4] (take 32 peerPublicKey)) (drop 32 peerPublicKey)
       in requireR (raw_point pf external) ''invalid SMP P-256 point'' (case raw_exchange pf sk external of
            None \<Rightarrow> Inl ''SMP ECDH failed''
          | Some secret \<Rightarrow> requireR (length secret = 32) ''unexpected SMP ECDH length'' (Inr (rev secret))))"

section \<open>Lengths\<close>

lemma length_zeroBlock [simp]: "length zeroBlock = 16"
  by (simp add: zeroBlock_def)

lemma length_doubleBlock [simp]: "length (doubleBlock blk) = length blk"
  by (simp add: doubleBlock_def Let_def)

text \<open>The interface the derivation needs of the platform's cipher.\<close>

locale block_cipher =
  fixes aes :: cipher
  assumes length_aes: "length (aes key blk) = 16"
begin

lemma length_foldl_aes: "length (foldl (\<lambda>st x. aes key (f st x)) zeroBlock xs) = 16"
  by (cases xs rule: rev_cases) (simp_all add: length_aes)

lemma length_aesCmac: "length (aesCmac aes key message) = 16"
  unfolding aesCmac_def Let_def by (rule length_foldl_aes)

lemma length_smpConfirm: "length (smpConfirm aes a b n) = 16"
  by (simp add: smpConfirm_def reversed_def length_aesCmac)

lemma length_smpKeys: "length (fst (smpKeys aes s a b c d)) = 16 \<and> length (snd (smpKeys aes s a b c d)) = 16"
  by (simp add: smpKeys_def reversed_def length_aesCmac Let_def)

lemma length_smpCheck: "length (smpCheck aes k a b io c d) = 16"
  by (simp add: smpCheck_def reversed_def length_aesCmac)

end

section \<open>The reference definition of CMAC\<close>

text \<open>NIST SP 800-38B, section 6.2: cut the message in blocks, mask the last one with the first
  subkey when it is complete and pad and mask it with the second otherwise, then CBC-MAC.\<close>

fun chunks16 :: "bytes \<Rightarrow> bytes list" where
  "chunks16 xs = (if length xs \<le> 16 then [xs] else take 16 xs # chunks16 (drop 16 xs))"

declare chunks16.simps [simp del]

definition xorBytes :: "bytes \<Rightarrow> bytes \<Rightarrow> bytes" where
  "xorBytes a b = map2 (XOR) a b"

definition padBlock :: "bytes \<Rightarrow> bytes" where
  "padBlock m = m @ [0x80] @ replicate (15 - length m) 0"

definition cmac_reference :: "cipher \<Rightarrow> bytes \<Rightarrow> bytes \<Rightarrow> bytes" where
  "cmac_reference aes key message =
     (let k1 = doubleBlock (aes key zeroBlock); k2 = doubleBlock k1;
          ms = chunks16 message; m = last ms;
          final = (if length m = 16 then xorBytes m k1 else xorBytes (padBlock m) k2)
      in foldl (\<lambda>c b. aes key (xorBytes c b)) zeroBlock (butlast ms @ [final]))"

lemma chunks16_nonempty [simp]: "chunks16 xs \<noteq> []"
  by (subst chunks16.simps) simp

lemma length_chunks16: "length (chunks16 xs) = max 1 ((length xs + 15) div 16)"
proof (induction xs rule: chunks16.induct)
  case (1 xs)
  then show ?case by (subst chunks16.simps) (auto simp: max_def le_div_geq)
qed

lemma chunks16_nth: "j < length (chunks16 xs) \<Longrightarrow> chunks16 xs ! j = take 16 (drop (16 * j) xs)"
proof (induction xs arbitrary: j rule: chunks16.induct)
  case (1 xs)
  then show ?case
    by (cases j) (auto simp: chunks16.simps [of xs] add.commute split: if_splits)
qed

lemma foldl_nth: "foldl (\<lambda>s j. g s (B ! j)) s [0..<length B] = foldl g s B"
proof -
  have "foldl g s (map ((!) B) [0..<length B]) = foldl (\<lambda>s j. g s (B ! j)) s [0..<length B]"
    by (simp add: foldl_map)
  then show ?thesis by (simp add: map_nth)
qed

lemma last_block:
  fixes L n :: nat
  assumes "n = max 1 ((L + 15) div 16)"
  shows "L \<le> 16 * n" and "0 < L \<Longrightarrow> 16 * (n - 1) < L" and "L = 0 \<Longrightarrow> n = 1"
    and "L - 16 * (n - 1) = 16 \<longleftrightarrow> L \<noteq> 0 \<and> L mod 16 = 0"
proof -
  have n: "n = (if L = 0 then 1 else (L + 15) div 16)" using assms by (auto simp: max_def)
  have "L + 15 = 16 * ((L + 15) div 16) + (L + 15) mod 16" by simp
  moreover have "(L + 15) mod 16 < 16" by simp
  ultimately have "L \<le> 16 * ((L + 15) div 16)" and "16 * ((L + 15) div 16) \<le> L + 15"
    by linarith+
  then show "L \<le> 16 * n" and "0 < L \<Longrightarrow> 16 * (n - 1) < L" and "L = 0 \<Longrightarrow> n = 1"
    unfolding n by auto
  show "L - 16 * (n - 1) = 16 \<longleftrightarrow> L \<noteq> 0 \<and> L mod 16 = 0"
  proof (cases "L = 0")
    case False
    then have lt: "16 * (n - 1) < L" and le: "L \<le> 16 * n" and "n \<noteq> 0"
      using \<open>16 * ((L + 15) div 16) \<le> L + 15\<close> \<open>L \<le> 16 * ((L + 15) div 16)\<close> unfolding n by auto
    then obtain m where m: "n = Suc m" by (cases n) auto
    define r where "r = L - 16 * m"
    have r: "L = 16 * m + r" "0 < r" "r \<le> 16"
      using lt le by (simp_all add: r_def m)
    from r(1) have "L mod 16 = r mod 16" by simp
    moreover have "r mod 16 = 0 \<longleftrightarrow> r = 16" using r by (cases "r = 16") auto
    ultimately show ?thesis using r False m by simp
  qed (simp add: n)
qed

lemma foldl_aes_cong:
  assumes "length st = 16" and "\<And>key blk. length (aes key blk) = (16 :: nat)"
    and "\<And>st j. length st = 16 \<Longrightarrow> j \<in> set js \<Longrightarrow> f st j = g st j"
  shows "foldl (\<lambda>st j. aes key (f st j)) st js = foldl (\<lambda>st j. aes key (g st j)) st js"
  using assms(1,3)
proof (induction js arbitrary: st)
  case (Cons j js)
  then show ?case by (simp add: assms(2))
qed simp

lemma cmac_block:
  fixes message :: bytes
  defines "n \<equiv> length (chunks16 message)" and "ms \<equiv> chunks16 message"
  assumes "length st = 16" and "j < n" and "length sub = 16"
  shows "map (cmacByte message sub n st j) [0..<16] =
    xorBytes st (if j = n - 1
      then (if length (last ms) = 16 then xorBytes (last ms) sub else xorBytes (padBlock (last ms)) sub)
      else ms ! j)"
proof (rule nth_equalityI)
  let ?L = "length message"
  have n: "n = max 1 ((?L + 15) div 16)" by (simp add: n_def length_chunks16)
  note lb = last_block [OF n]
  have last: "last ms = take 16 (drop (16 * (n - 1)) message)"
    using chunks16_nth [of "n - 1" message] n
    by (simp add: ms_def n_def last_conv_nth)
  have lastlen: "length (last ms) = ?L - 16 * (n - 1)"
    using lb(1) by (simp add: last)
  have nth: "ms ! j = take 16 (drop (16 * j) message)"
    using chunks16_nth assms(4) by (simp add: ms_def n_def)
  have inner: "16 * j + 16 < ?L" if "j \<noteq> n - 1"
    using lb(2,3) that assms(4) by (cases "?L = 0") auto
  have rest: "?L < 16 * (n - 1) + 16" if "length (last ms) \<noteq> 16"
    using that lb(1) lastlen by auto
  have "length (ms ! j) = 16" if "j \<noteq> n - 1"
    using inner [OF that] by (simp add: nth)
  moreover have "length (padBlock (last ms)) = 16" if "length (last ms) \<noteq> 16"
    using rest [OF that] lastlen by (simp add: padBlock_def)
  ultimately show "length (map (cmacByte message sub n st j) [0..<16]) = length (xorBytes st (if j = n - 1
      then (if length (last ms) = 16 then xorBytes (last ms) sub else xorBytes (padBlock (last ms)) sub)
      else ms ! j))"
    using assms(3,5) by (simp add: xorBytes_def)
  fix i assume "i < length (map (cmacByte message sub n st j) [0..<16])"
  then have i: "i < 16" by simp
  show "map (cmacByte message sub n st j) [0..<16] ! i = xorBytes st (if j = n - 1
      then (if length (last ms) = 16 then xorBytes (last ms) sub else xorBytes (padBlock (last ms)) sub)
      else ms ! j) ! i"
  proof (cases "j = n - 1")
    case False
    with inner have "j * 16 + i < ?L" and "j + 1 \<noteq> n" using i by auto
    then show ?thesis
      using i assms(3) False inner by (simp add: cmacByte_def Let_def xorBytes_def nth mult.commute)
  next
    case True
    then have j: "j + 1 = n" using n by simp
    show ?thesis
    proof (cases "length (last ms) = 16")
      case complete: True
      then have "j * 16 + i < ?L" using lastlen True i by simp
      then show ?thesis
        using i assms(3,5) True j complete lastlen
        by (simp add: cmacByte_def Let_def xorBytes_def last mult.commute xor.assoc)
    next
      case partial: False
      let ?r = "length (last ms)"
      have r: "?r < 16" "?L = j * 16 + ?r" using rest [OF partial] lastlen True lb(2,3)
        by (auto simp: mult.commute) (cases "message = []"; simp)
      have pad: "padBlock (last ms) ! i = (if i < ?r then last ms ! i else if i = ?r then 0x80 else 0)"
        using i r by (auto simp: padBlock_def nth_append nth_Cons')
      have "last ms ! i = message ! (j * 16 + i)" if "i < ?r"
        using that i True lastlen by (simp add: last mult.commute)
      moreover have "length (padBlock (last ms)) = 16" using r by (simp add: padBlock_def)
      moreover have "j * 16 + i < ?L \<longleftrightarrow> i < ?r" "j * 16 + i = ?L \<longleftrightarrow> i = ?r"
        using r(2) by auto
      ultimately show ?thesis
        using i assms(3,5) True j partial
        by (auto simp: cmacByte_def Let_def xorBytes_def pad xor.assoc)
    qed
  qed
qed

context block_cipher
begin

text \<open>The program's single loop is CBC-MAC over the padded and masked blocks.\<close>

lemma aesCmac_eq_reference: "aesCmac aes key message = cmac_reference aes key message"
proof -
  let ?k1 = "doubleBlock (aes key zeroBlock)"
  let ?ms = "chunks16 message"
  let ?n = "length ?ms"
  let ?sub = "if message \<noteq> [] \<and> length message mod 16 = 0 then ?k1 else doubleBlock ?k1"
  let ?final = "if length (last ?ms) = 16 then xorBytes (last ?ms) ?k1
    else xorBytes (padBlock (last ?ms)) (doubleBlock ?k1)"
  let ?B = "butlast ?ms @ [?final]"
  have n: "?n = max 1 ((length message + 15) div 16)" by (rule length_chunks16)
  have lastlen: "length (last ?ms) = length message - 16 * (?n - 1)"
    using last_block(1) [OF n] chunks16_nth [of "?n - 1" message] n by (simp add: last_conv_nth)
  have complete: "length (last ?ms) = 16 \<longleftrightarrow> message \<noteq> [] \<and> length message mod 16 = 0"
    using last_block(4) [OF n] lastlen by simp
  have B: "length ?B = ?n" using n by simp
  have step: "map (cmacByte message ?sub ?n st j) [0..<16] = xorBytes st (?B ! j)"
    if st: "length st = 16" and "j \<in> set [0..<?n]" for st j
  proof -
    from that have j: "j < ?n" by simp
    have "length ?sub = 16" by (simp add: length_aes)
    from cmac_block [OF st j this] show ?thesis
      using j complete by (auto simp: nth_append nth_butlast)
  qed
  have "foldl (\<lambda>st j. aes key (map (cmacByte message ?sub ?n st j) [0..<16])) zeroBlock [0..<?n] =
      foldl (\<lambda>st j. aes key (xorBytes st (?B ! j))) zeroBlock [0..<?n]"
    by (rule foldl_aes_cong [OF _ length_aes step]) simp_all
  also have "\<dots> = foldl (\<lambda>c b. aes key (xorBytes c b)) zeroBlock ?B"
    unfolding B [symmetric] by (rule foldl_nth)
  finally show ?thesis
    unfolding aesCmac_def cmac_reference_def Let_def n [symmetric] .
qed

end

section \<open>Subkey doubling is multiplication by x in the field\<close>

text \<open>The block read as a big-endian 128-bit number.\<close>

definition be128 :: "bytes \<Rightarrow> 128 word" where
  "be128 b = foldl (\<lambda>a x. push_bit 8 a OR ucast x) 0 b"

definition field_double :: "128 word \<Rightarrow> 128 word" where
  "field_double w = (if bit w 127 then push_bit 1 w XOR 0x87 else push_bit 1 w)"

lemma bit_be128:
  "bit (be128 b) n \<longleftrightarrow> n < 128 \<and> n < 8 * length b \<and> bit (b ! (length b - 1 - n div 8)) (n mod 8)"
proof (induction b arbitrary: n rule: rev_induct)
  case Nil
  then show ?case by (simp add: be128_def)
next
  case (snoc x b)
  have be: "be128 (b @ [x]) = push_bit 8 (be128 b) OR ucast x" by (simp add: be128_def)
  show ?case
  proof (cases "n < 8")
    case True
    then show ?thesis by (auto simp: be bit_simps)
  next
    case False
    define d where "d = (n - 8) div 8"
    have d: "n div 8 = Suc d" "n mod 8 = (n - 8) mod 8"
      using False by (simp_all add: d_def le_div_geq le_mod_geq)
    have "\<not> bit x n" using False by (auto dest: bit_imp_le_length)
    then have "bit (be128 (b @ [x])) n \<longleftrightarrow> n < 128 \<and> bit (be128 b) (n - 8)"
      using False by (simp add: be bit_or_iff bit_push_bit_iff bit_ucast_iff)
    also have "\<dots> \<longleftrightarrow> n < 128 \<and> n - 8 < 8 * length b \<and> bit (b ! (length b - 1 - d)) ((n - 8) mod 8)"
      unfolding snoc.IH d_def by auto
    also have "\<dots> \<longleftrightarrow> n < 128 \<and> n < 8 * length (b @ [x]) \<and>
        bit ((b @ [x]) ! (length (b @ [x]) - 1 - n div 8)) (n mod 8)"
    proof -
      have "n - 8 < 8 * length b \<longleftrightarrow> n < 8 * length (b @ [x])" using False by auto
      moreover have "d < length b" if "n - 8 < 8 * length b"
        using that unfolding d_def by (simp add: less_mult_imp_div_less mult.commute)
      ultimately show ?thesis
        unfolding d by (auto simp: nth_append)
    qed
    finally show ?thesis .
  qed
qed

lemma bit_doubleBlock:
  assumes "length b = 16" and "i < 16" and "k < 8"
  shows "bit (doubleBlock b ! i) k \<longleftrightarrow>
    ((if k = 0 then i < 15 \<and> bit (b ! (i + 1)) 7 else bit (b ! i) (k - 1))
     \<noteq> (i = 15 \<and> bit (b ! 0) 7 \<and> bit (0x87 :: byte) k))"
proof -
  have top: "(b ! 0) AND 0x80 \<noteq> 0 \<longleftrightarrow> bit (b ! 0) 7"
    using bit_iff_and_push_bit_not_eq_0 [of "b ! 0" 7] by simp
  let ?r = "push_bit 1 (b ! i) OR (if i + 1 < 16 then drop_bit 7 (b ! (i + 1)) else 0)"
  have byte: "doubleBlock b ! i = ?r XOR (if i = 15 \<and> bit (b ! 0) 7 then 0x87 else 0)"
    using assms(1,2) by (auto simp: doubleBlock_def Let_def nth_list_update top)
  have "bit (drop_bit 7 (b ! (i + 1))) k \<longleftrightarrow> k = 0 \<and> bit (b ! (i + 1)) 7"
    using bit_imp_le_length [of "b ! (i + 1)" "7 + k"] by (auto simp: bit_drop_bit_eq)
  moreover have "bit (push_bit 1 (b ! i)) k \<longleftrightarrow> k \<noteq> 0 \<and> bit (b ! i) (k - 1)"
    using bit_push_bit_iff [of 1 "b ! i" k] assms(3) by (cases k) simp_all
  ultimately have r: "bit ?r k \<longleftrightarrow> (if k = 0 then i < 15 \<and> bit (b ! (i + 1)) 7 else bit (b ! i) (k - 1))"
    by (auto simp: bit_or_iff)
  show ?thesis
    unfolding byte bit_xor_iff r using assms(3) by auto
qed

lemma bit_poly8: "bit (0x87 :: byte) n \<longleftrightarrow> n \<in> {0, 1, 2, 7}"
proof -
  have "(0x87 :: byte) = mask 3 OR push_bit 7 1" by (simp add: mask_eq_exp_minus_1)
  then have "bit (0x87 :: byte) n \<longleftrightarrow> bit (mask 3 OR push_bit 7 1 :: byte) n"
    by (rule arg_cong)
  then show ?thesis
    unfolding bit_or_iff bit_mask_iff bit_push_bit_iff bit_1_iff by auto
qed

lemma bit_poly128: "bit (0x87 :: 128 word) n \<longleftrightarrow> n \<in> {0, 1, 2, 7}"
proof -
  have "(0x87 :: 128 word) = mask 3 OR push_bit 7 1" by (simp add: mask_eq_exp_minus_1)
  then have "bit (0x87 :: 128 word) n \<longleftrightarrow> bit (mask 3 OR push_bit 7 1 :: 128 word) n"
    by (rule arg_cong)
  then show ?thesis
    unfolding bit_or_iff bit_mask_iff bit_push_bit_iff bit_1_iff by auto
qed

text \<open>The subkey derivation of the CMAC code is doubling in the field that SP 800-38B names.\<close>

lemma doubleBlock_field_double:
  assumes "length b = 16"
  shows "be128 (doubleBlock b) = field_double (be128 b)"
proof (rule bit_word_eqI)
  fix n assume "n < LENGTH(128)"
  then have n: "n < 128" by simp
  define i k where "i = 15 - n div 8" and "k = n mod 8"
  have i: "i < 16" and k: "k < 8" and q: "n div 8 < 16" using n by (auto simp: i_def k_def)
  have lhs: "bit (be128 (doubleBlock b)) n = bit (doubleBlock b ! i) k"
    using n assms by (simp add: bit_be128 i_def k_def)
  have top: "bit (be128 b) 127 \<longleftrightarrow> bit (b ! 0) 7"
    using assms by (simp add: bit_be128)
  have poly: "bit (0x87 :: 128 word) n \<longleftrightarrow> i = 15 \<and> bit (0x87 :: byte) k"
  proof -
    have "i = 15 \<longleftrightarrow> n < 8" using q by (auto simp: i_def)
    then show ?thesis unfolding bit_poly8 bit_poly128 k_def by (cases "n < 8") auto
  qed
  have "0 < n \<Longrightarrow> bit (be128 b) (n - 1) \<longleftrightarrow>
      (if k = 0 then i < 15 \<and> bit (b ! (i + 1)) 7 else bit (b ! i) (k - 1))"
  proof -
    assume pos: "0 < n"
    define p where "p = n div 8"
    have nk: "n = 8 * p + k" and p: "p < 16" using q by (simp_all add: p_def k_def)
    show "bit (be128 b) (n - 1) \<longleftrightarrow>
        (if k = 0 then i < 15 \<and> bit (b ! (i + 1)) 7 else bit (b ! i) (k - 1))"
    proof (cases k)
      case 0
      with nk pos obtain r where r: "p = Suc r" by (cases p) auto
      with 0 nk have "n - 1 = 7 + 8 * r" by simp
      then have "(n - 1) div 8 = r" "(n - 1) mod 8 = 7" by simp_all
      moreover have "Suc (14 - r) = 15 - r" "14 - r < 15" "n - Suc 0 < 128"
        using r p n by linarith+
      ultimately show ?thesis
        using 0 r p n assms by (simp add: bit_be128 i_def p_def [symmetric])
    next
      case (Suc l)
      then have "n - 1 = l + 8 * p" using nk by simp
      then have "(n - 1) div 8 = p" "(n - 1) mod 8 = l" using k Suc by simp_all
      moreover have "n - Suc 0 < 128" using n by linarith
      ultimately show ?thesis
        using Suc n assms by (simp add: bit_be128 i_def p_def [symmetric])
    qed
  qed
  moreover have "n = 0 \<Longrightarrow> \<not> (if k = 0 then i < 15 \<and> bit (b ! (i + 1)) 7 else bit (b ! i) (k - 1))"
    by (simp add: i_def k_def)
  ultimately have shift: "bit (push_bit 1 (be128 b)) n \<longleftrightarrow>
      (if k = 0 then i < 15 \<and> bit (b ! (i + 1)) 7 else bit (b ! i) (k - 1))"
    unfolding bit_push_bit_iff using n by (cases "n = 0") auto
  show "bit (be128 (doubleBlock b)) n = bit (field_double (be128 b)) n"
    unfolding lhs bit_doubleBlock [OF assms i k] field_double_def top
    using shift poly by (simp add: bit_xor_iff)
qed

interpretation smp_cipher: block_cipher "aesEncryptBlock pf" for pf
  by unfold_locales (simp add: aesEncryptBlock_def Let_def)



end
