(* ===== verification/PeerState.thy ===== *)
theory PeerState
  imports PeerSocket SmpCrypto
begin

text \<open>
  The state of the virtual peer, \<open>src/bluetooth/VirtualPeer.hpp\<close>, with the data it holds:
  \<open>GattDescriptor.hpp\<close>, \<open>GattCharacteristic.hpp\<close>, \<open>GattService.hpp\<close>, \<open>AttRequest.hpp\<close> and the
  members of \<open>SmpSession.hpp\<close>; and the lowest operations every part of the peer uses.

  The closures the peer stores as completions are the constructors of \<open>completion\<close>, one per lambda
  of the source with the variables it captures. Completions and callbacks that belong to the
  bridge (\<open>macos/BluetoothBridge.mm\<close>) are observed in \<open>events\<close>; \<open>onValue\<close> decides whether the bridge
  accepts a value. \<open>now\<close> is the steady clock in milliseconds and \<open>entropy\<close> counts the draws from the
  platform's random generator.
\<close>

section \<open>Attribute database\<close>

record gatt_descriptor =
  d_handle :: u16
  d_uuid :: string
  d_permissions :: byte
  d_minimumKeySize :: byte

record gatt_characteristic =
  c_declaration :: u16
  c_handle :: u16
  c_properties :: byte
  c_uuid :: string
  c_descriptors :: "gatt_descriptor list"
  c_permissions :: byte
  c_minimumKeySize :: byte

record gatt_service =
  s_start :: u16
  s_end :: u16
  s_uuid :: string
  s_characteristics :: "gatt_characteristic list"

definition AuthenticatedOrAuthorized :: byte where
  "AuthenticatedOrAuthorized = 0xD8"

section \<open>Requests\<close>

definition DefaultAttMtu :: u16 where "DefaultAttMtu = 23"
definition MaxAttMtu :: u16 where "MaxAttMtu = 498"
definition MaxAttValueSize :: nat where "MaxAttValueSize = 512"

datatype completion =
    Client nat                         \<comment> \<open>a completion of the bridge, by its number\<close>
  | ClientMtu u16 nat                  \<comment> \<open>\<open>exchangeMtu\<close>: the maximum and the bridge's completion\<close>
  | ServicesFrom u16                   \<comment> \<open>\<open>discoverServices\<close>\<close>
  | CharacteristicsOf nat u16          \<comment> \<open>\<open>discoverCharacteristics\<close>\<close>
  | DescriptorsOf nat nat u16 u16      \<comment> \<open>\<open>discoverDescriptors\<close>\<close>
  | Unsubscribe nat nat                \<comment> \<open>\<open>clearSubscriptions\<close>\<close>

record att_request =
  r_packet :: bytes
  r_completed :: completion
  r_longValue :: bytes
  r_prepareError :: byte

section \<open>Security\<close>

datatype smp_state = Idle | Response | PublicKey | Confirm | Random | Check | Encrypting
  | Restoring | Encrypted

record smp_session =
  bond :: "bytes option"
  smp_state :: smp_state
  keyPair :: "secret_key option"
  localKey :: bytes
  remoteKey :: bytes
  secret :: bytes
  remoteIo :: bytes
  nonce :: bytes
  confirm :: bytes
  remoteCheck :: bytes
  ltk :: bytes

definition zeros :: "nat \<Rightarrow> bytes" where
  "zeros n = replicate n 0"

definition new_session :: smp_session where
  "new_session = \<lparr>bond = None, smp_state = Idle, keyPair = None, localKey = zeros 64,
     remoteKey = zeros 64, secret = zeros 32, remoteIo = zeros 3, nonce = zeros 16,
     confirm = zeros 16, remoteCheck = zeros 16, ltk = zeros 16\<rparr>"

definition encrypted :: "smp_session \<Rightarrow> bool" where
  "encrypted m \<longleftrightarrow> smp_state m = Encrypted"

definition bonded :: "smp_session \<Rightarrow> bool" where
  "bonded m \<longleftrightarrow> bond m \<noteq> None"

section \<open>The peer\<close>

datatype peer_event =
    Completed nat byte bytes           \<comment> \<open>a completion of the bridge was called\<close>
  | ValueOffered u16 bytes bool        \<comment> \<open>\<open>onValue\<close> was called\<close>
  | OnReady | OnClosed | OnAvailabilityChanged
  | DuplicateConnected u64             \<comment> \<open>a \<open>Connected\<close> message arrived over a live session\<close>

record virtual_peer =
  socket :: peer_socket
  transport :: bool
  enabled :: bool
  failed :: bool
  localAddress :: bytes
  remoteAddress :: bytes
  advertising :: bool
  peerName :: bytes
  advertisedServices :: "string list"
  advertisementData :: bytes
  catalogBuffer :: bytes
  services :: "gatt_service list"
  discoveredServices :: "gatt_service list"
  catalogReady :: bool
  catalogReceiving :: bool
  connecting :: bool
  closing :: bool
  ready :: bool
  sessionRequested :: bool
  generation :: u64
  closingGeneration :: u64
  setupDeadline :: nat
  security :: smp_session
  mtu :: u16
  localMtu :: u16
  mtuExchanged :: bool
  attBusy :: bool
  attSecurityPending :: bool
  attDeadline :: nat
  requests :: "att_request list"
  onValue :: "(u16 \<Rightarrow> bytes \<Rightarrow> bool \<Rightarrow> bool) option"
  now :: nat
  entropy :: nat
  events :: "peer_event list"

type_synonym peer_op = "(virtual_peer, unit) prog"

definition MaxServices :: nat where "MaxServices = 32"
definition MaxCharacteristics :: nat where "MaxCharacteristics = 64"
definition MaxDescriptors :: nat where "MaxDescriptors = 32"
definition MaxPacketsPerPoll :: nat where "MaxPacketsPerPoll = 64"
definition MaxL2capPayloadSize :: nat where "MaxL2capPayloadSize = 1020"
definition DisconnectTimeout :: nat where "DisconnectTimeout = 10000"
definition SetupTimeout :: nat where "SetupTimeout = 90000"
definition MaxPendingRequests :: nat where "MaxPendingRequests = 64"
definition AttTimeout :: nat where "AttTimeout = 30000"
definition MaxCatalogSize :: nat where "MaxCatalogSize = 32768"

lemmas peer_limits = MaxServices_def MaxCharacteristics_def MaxDescriptors_def
  MaxL2capPayloadSize_def MaxPendingRequests_def MaxCatalogSize_def MaxAttValueSize_def
  DefaultAttMtu_def MaxAttMtu_def

text \<open>\<open>available()\<close>.\<close>

definition available :: "virtual_peer \<Rightarrow> bool" where
  "available s \<longleftrightarrow> catalogReady s \<and> enabled s \<and> \<not> failed s \<and> \<not> closing s \<and>
     (advertising s \<or> generation s \<noteq> 0 \<or> connecting s \<or> sessionRequested s)"

section \<open>Lowest operations\<close>

definition emit :: "peer_event \<Rightarrow> peer_op" where
  "emit e = modify (\<lambda>s. s\<lparr>events := events s @ [e]\<rparr>)"

text \<open>C++ \<open>require\<close>.\<close>

definition require :: "bool \<Rightarrow> string \<Rightarrow> ('s, unit) prog" where
  "require valid message = (if valid then skip else throw message)"

text \<open>An element reached by index; past the end the program has undefined behaviour.\<close>

definition element :: "'x list \<Rightarrow> nat \<Rightarrow> ('s, 'x) prog" where
  "element xs i = (if i < length xs then ret (xs ! i) else abort ''index out of range'')"

definition socket_send :: "peer_message \<Rightarrow> u64 \<Rightarrow> bytes \<Rightarrow> peer_op" where
  "socket_send m g payload =
     zoom socket (\<lambda>k s. s\<lparr>socket := k\<rparr>) (sock_send m g payload)"

definition sendL2cap :: "u16 \<Rightarrow> bytes \<Rightarrow> peer_op" where
  "sendL2cap channel payload = inspect (\<lambda>s. block [
     require (generation s \<noteq> 0 \<and> length payload \<le> MaxL2capPayloadSize)
       ''invalid outbound L2CAP packet'',
     socket_send L2cap (generation s)
       (appendLe16 (appendLe16 [] (of_nat (length payload))) channel @ payload)])"

definition requestEncryption :: "bytes \<Rightarrow> peer_op" where
  "requestEncryption key = inspect (\<lambda>s.
     socket_send Encrypt (generation s) (zeros 10 @ key))"

definition sendNext :: peer_op where
  "sendNext = inspect (\<lambda>s.
     if attBusy s \<or> attSecurityPending s \<or> requests s = [] \<or> generation s = 0 then skip
     else block [
       modify (\<lambda>s. s\<lparr>attBusy := True, attDeadline := now s + AttTimeout\<rparr>),
       sendL2cap 4 (r_packet (hd (requests s)))])"

definition securityReady :: peer_op where
  "securityReady = block [modify (\<lambda>s. s\<lparr>attSecurityPending := False\<rparr>), sendNext]"

end
