(* ===== verification/AttQueue.thy ===== *)
theory AttQueue
  imports SmpSession
begin

text \<open>
  The queue of ATT requests, \<open>src/bluetooth/VirtualPeer.Att.cpp\<close>: how a request enters it and how a
  completion is called with an error. A completion called with an error other than
  \<open>Attribute Not Found\<close> never issues another request, so \<open>completeError\<close> is not recursive; the
  completions that go on with the discovery are in \<open>Discovery\<close>, where \<open>complete\<close> agrees with
  \<open>completeError\<close> on these errors.
\<close>

text \<open>\<open>prepareWrite\<close>: one fragment of a long value.\<close>

definition prepareWrite :: "att_request \<Rightarrow> u16 \<Rightarrow> u16 \<Rightarrow> string + att_request" where
  "prepareWrite r att_mtu offset = bindR (readLe16 (drop 1 (r_packet r))) (\<lambda>handle.
     Inr (r\<lparr>r_packet := appendLe16 (appendLe16 [0x16] handle) offset @
       take (min (unat (att_mtu - 5)) (length (r_longValue r) - unat offset))
         (drop (unat offset) (r_longValue r))\<rparr>))"

text \<open>What each completion does when it is called with an error outside \<open>{0, 0x0A}\<close>.\<close>

definition completionFailure :: "completion \<Rightarrow> string" where
  "completionFailure c = (case c of
     ServicesFrom _ \<Rightarrow> ''GATT service discovery failed''
   | CharacteristicsOf _ _ \<Rightarrow> ''GATT characteristic discovery failed''
   | DescriptorsOf _ _ _ _ \<Rightarrow> ''GATT descriptor discovery failed''
   | Unsubscribe _ _ \<Rightarrow> ''could not clear restored subscriptions for the new session''
   | _ \<Rightarrow> '''')"

definition completeError :: "completion \<Rightarrow> byte \<Rightarrow> peer_op" where
  "completeError c err = (case c of
     Client n \<Rightarrow> emit (Completed n err [])
   | ClientMtu _ n \<Rightarrow> emit (Completed n err [])
   | _ \<Rightarrow> inspect (\<lambda>s. if generation s = 0 then skip else throw (completionFailure c)))"

definition request :: "bytes \<Rightarrow> completion \<Rightarrow> bytes \<Rightarrow> peer_op" where
  "request pdu completed longValue = inspect (\<lambda>s.
     if generation s = 0 \<or> MaxPendingRequests \<le> length (requests s) then completeError completed 0x11
     else
       let pending = \<lparr>r_packet = pdu, r_completed = completed, r_longValue = longValue,
                      r_prepareError = 0\<rparr> in
       bind (of_result (if longValue \<noteq> [] then prepareWrite pending (mtu s) 0 else Inr pending))
         (\<lambda>pending. block [modify (\<lambda>s. s\<lparr>requests := requests s @ [pending]\<rparr>), sendNext]))"

end
