(* ===== verification/Discovery.thy ===== *)
theory Discovery
  imports AttQueue
begin

text \<open>
  GATT discovery, \<open>src/bluetooth/VirtualPeer.Discovery.cpp\<close>: services, characteristics and
  descriptors of the guest's database are read through real ATT requests, compared with the
  published catalog, and restored subscriptions are cleared before the session is ready.

  Each completion of the source is a case of \<open>complete\<close>. The loops over an attribute list run over
  its entries, cut by \<open>entries\<close>; an error in the middle leaves the entries already appended.
\<close>

section \<open>Requests\<close>

definition discoveryRequest :: "byte \<Rightarrow> u16 \<Rightarrow> u16 \<Rightarrow> u16 \<Rightarrow> bytes" where
  "discoveryRequest opcode start finish type =
     (let pdu = appendLe16 (appendLe16 [opcode] start) finish
      in if type \<noteq> 0 then appendLe16 pdu type else pdu)"

definition discoverServices :: "u16 \<Rightarrow> peer_op" where
  "discoverServices start =
     request (discoveryRequest 0x10 start 0xFFFF 0x2800) (ServicesFrom start) []"

section \<open>Completion of the discovery\<close>

text \<open>\<open>discoveryComplete\<close> copies the published permissions into the discovered structure; any
  difference in the counts ends the session.\<close>

definition copyDescriptor :: "gatt_descriptor \<Rightarrow> gatt_descriptor \<Rightarrow> gatt_descriptor" where
  "copyDescriptor published discovered = discovered\<lparr>d_permissions := d_permissions published,
     d_minimumKeySize := d_minimumKeySize published\<rparr>"

fun copyCharacteristics ::
  "gatt_characteristic list \<Rightarrow> gatt_characteristic list \<Rightarrow> string + gatt_characteristic list" where
  "copyCharacteristics (p # ps) (d # ds) =
     requireR (length (c_descriptors p) = length (c_descriptors d))
       ''GATT descriptor count changed since publication''
       (bindR (copyCharacteristics ps ds) (\<lambda>rest.
          Inr (d\<lparr>c_permissions := c_permissions p, c_minimumKeySize := c_minimumKeySize p,
                c_descriptors := map2 copyDescriptor (c_descriptors p) (c_descriptors d)\<rparr> # rest)))"
| "copyCharacteristics _ ds = Inr ds"

fun copyPermissions :: "gatt_service list \<Rightarrow> gatt_service list \<Rightarrow> string + gatt_service list" where
  "copyPermissions (p # ps) (d # ds) =
     requireR (length (s_characteristics p) = length (s_characteristics d))
       ''GATT characteristic count changed since publication''
       (bindR (copyCharacteristics (s_characteristics p) (s_characteristics d)) (\<lambda>chars.
          bindR (copyPermissions ps ds) (\<lambda>rest. Inr (d\<lparr>s_characteristics := chars\<rparr> # rest))))"
| "copyPermissions _ ds = Inr ds"

text \<open>\<open>clearSubscriptions\<close>: the next characteristic that has a client configuration descriptor, at
  or after the given position.\<close>

definition configuration :: "gatt_characteristic \<Rightarrow> gatt_descriptor option" where
  "configuration c = find (\<lambda>d. d_uuid d = ''2902'') (c_descriptors c)"

fun nextSubscription ::
  "gatt_characteristic list \<Rightarrow> nat \<Rightarrow> (nat \<times> gatt_descriptor) option" where
  "nextSubscription [] i = None"
| "nextSubscription (c # cs) i =
     (case configuration c of Some d \<Rightarrow> Some (i, d) | None \<Rightarrow> nextSubscription cs (i + 1))"

function seekSubscription ::
  "gatt_service list \<Rightarrow> nat \<Rightarrow> nat \<Rightarrow> (nat \<times> nat \<times> gatt_descriptor) option" where
  "seekSubscription ss service characteristic =
     (if service < length ss then
        (case nextSubscription (drop characteristic (s_characteristics (ss ! service))) characteristic of
           Some (i, d) \<Rightarrow> Some (service, i, d)
         | None \<Rightarrow> seekSubscription ss (service + 1) 0)
      else None)"
  by pat_completeness auto
termination by (relation "measure (\<lambda>(ss, i, _). length ss - i)") auto

declare seekSubscription.simps [simp del]

definition clearSubscriptions :: "nat \<Rightarrow> nat \<Rightarrow> peer_op" where
  "clearSubscriptions service characteristic = inspect (\<lambda>s.
     case seekSubscription (services s) service characteristic of
       Some (i, j, d) \<Rightarrow>
         request (appendLe16 (appendLe16 [0x12] (d_handle d)) 0) (Unsubscribe i j) []
     | None \<Rightarrow> block [modify (\<lambda>s. s\<lparr>ready := True\<rparr>), emit OnReady])"

definition discoveryComplete :: peer_op where
  "discoveryComplete = inspect (\<lambda>s. block [
     require (length (services s) = length (discoveredServices s))
       ''GATT service count changed since publication'',
     bind (of_result (copyPermissions (services s) (discoveredServices s))) (\<lambda>copied. block [
       modify (\<lambda>s. s\<lparr>discoveredServices := copied\<rparr>),
       inspect (\<lambda>s. require (catalogReady s \<and> sessionRequested s \<and> services s = discoveredServices s)
         ''GATT database changed since publication''),
       modify (\<lambda>s. s\<lparr>discoveredServices := []\<rparr>),
       clearSubscriptions 0 0])])"

section \<open>Descriptors and characteristics\<close>

text \<open>The \<open>while\<close> loop and the tail calls of \<open>discoverDescriptors\<close>: the next characteristic whose
  range leaves room for descriptors.\<close>

datatype seek = Done | Missing | Found nat nat u16 u16

definition descriptorsEnd :: "gatt_service \<Rightarrow> nat \<Rightarrow> u16" where
  "descriptorsEnd grp characteristic =
     (if characteristic + 1 < length (s_characteristics grp)
      then c_declaration (s_characteristics grp ! (characteristic + 1)) - 1 else s_end grp)"

function seekDescriptors :: "gatt_service list \<Rightarrow> nat \<Rightarrow> nat \<Rightarrow> u16 \<Rightarrow> seek" where
  "seekDescriptors ss service characteristic start =
     (if service = length ss then Done
      else if length ss < service then Missing
      else
        let grp = ss ! service; n = length (s_characteristics grp) in
        if characteristic = n then seekDescriptors ss (service + 1) 0 start
        else if n < characteristic then Missing
        else
          let entry = s_characteristics grp ! characteristic;
              finish = descriptorsEnd grp characteristic in
          if c_handle entry = finish then seekDescriptors ss service (characteristic + 1) 0
          else Found service characteristic (if start = 0 then c_handle entry + 1 else start) finish)"
  by pat_completeness auto
termination
  by (relation "measures [\<lambda>(ss, i, _, _). length ss - i,
        \<lambda>(ss, i, j, _). length (s_characteristics (ss ! i)) - j]") auto

declare seekDescriptors.simps [simp del]

definition discoverDescriptors :: "nat \<Rightarrow> nat \<Rightarrow> u16 \<Rightarrow> peer_op" where
  "discoverDescriptors service characteristic start = inspect (\<lambda>s.
     case seekDescriptors (discoveredServices s) service characteristic start of
       Done \<Rightarrow> discoveryComplete
     | Missing \<Rightarrow> abort ''index out of range''
     | Found i j first finish \<Rightarrow>
         request (discoveryRequest 4 first finish 0) (DescriptorsOf i j first finish) [])"

definition discoverCharacteristics :: "nat \<Rightarrow> u16 \<Rightarrow> peer_op" where
  "discoverCharacteristics service start = inspect (\<lambda>s.
     if service = length (discoveredServices s) then discoverDescriptors 0 0 0
     else bind (element (discoveredServices s) service) (\<lambda>grp.
       request (discoveryRequest 8 start (s_end grp) 0x2803) (CharacteristicsOf service start) []))"

section \<open>Completions\<close>

text \<open>The entries of an attribute list, for a positive entry size.\<close>

function entries :: "nat \<Rightarrow> bytes \<Rightarrow> bytes list" where
  "entries n xs = (if n = 0 \<or> xs = [] then [] else take n xs # entries n (drop n xs))"
  by pat_completeness auto
termination by (relation "measure (length \<circ> snd)") auto

declare entries.simps [simp del]

fun addServices :: "bytes list \<Rightarrow> u16 \<Rightarrow> peer_op" where
  "addServices [] next = discoverServices next"
| "addServices (entry # rest) next =
     bind (of_result (readLe16 entry)) (\<lambda>first.
     bind (of_result (readLe16 (drop 2 entry))) (\<lambda>last.
     bind (gets discoveredServices) (\<lambda>ds. block [
       require (next \<le> first \<and> first \<le> last \<and> length ds < MaxServices)
         ''invalid GATT service range'',
       bind (of_result (uuidString (drop 4 entry))) (\<lambda>uuid.
         modify (\<lambda>s. s\<lparr>discoveredServices := ds @ [\<lparr>s_start = first, s_end = last, s_uuid = uuid,
           s_characteristics = []\<rparr>]\<rparr>)),
       (if last = 0xFFFF then inspect (\<lambda>s.
          discoverCharacteristics 0 (s_start (hd (discoveredServices s))))
        else addServices rest (last + 1))])))"

definition setCharacteristics ::
  "nat \<Rightarrow> (gatt_characteristic list \<Rightarrow> gatt_characteristic list) \<Rightarrow> peer_op" where
  "setCharacteristics service f = modify (\<lambda>s. s\<lparr>discoveredServices :=
     (discoveredServices s)[service := (discoveredServices s ! service)\<lparr>s_characteristics :=
       f (s_characteristics (discoveredServices s ! service))\<rparr>]\<rparr>)"

definition nextService :: "nat \<Rightarrow> peer_op" where
  "nextService service = inspect (\<lambda>s.
     let n = service + 1 in discoverCharacteristics n
       (if n < length (discoveredServices s) then s_start (discoveredServices s ! n) else 0))"

fun addCharacteristics :: "nat \<Rightarrow> bytes list \<Rightarrow> u16 \<Rightarrow> peer_op" where
  "addCharacteristics service [] next = discoverCharacteristics service next"
| "addCharacteristics service (characteristic # rest) next =
     bind (of_result (readLe16 characteristic)) (\<lambda>declaration.
     bind (of_result (readLe16 (drop 3 characteristic))) (\<lambda>handle.
     bind (gets (\<lambda>s. discoveredServices s ! service)) (\<lambda>grp. block [
       require (next \<le> declaration \<and> declaration < handle \<and> handle \<le> s_end grp
           \<and> length (s_characteristics grp) < MaxCharacteristics)
         ''invalid GATT characteristic handle'',
       bind (of_result (uuidString (drop 5 characteristic))) (\<lambda>uuid.
         setCharacteristics service (\<lambda>cs. cs @ [\<lparr>c_declaration = declaration, c_handle = handle,
           c_properties = characteristic ! 2, c_uuid = uuid, c_descriptors = [],
           c_permissions = 0, c_minimumKeySize = 0\<rparr>])),
       (if handle = s_end grp then nextService service
        else addCharacteristics service rest (handle + 1))])))"

fun addDescriptors :: "nat \<Rightarrow> nat \<Rightarrow> u16 \<Rightarrow> bytes list \<Rightarrow> u16 \<Rightarrow> peer_op" where
  "addDescriptors service characteristic finish [] next =
     discoverDescriptors service characteristic next"
| "addDescriptors service characteristic finish (entry # rest) next =
     bind (of_result (readLe16 entry)) (\<lambda>handle.
     bind (gets (\<lambda>s. s_characteristics (discoveredServices s ! service) ! characteristic)) (\<lambda>c. block [
       require (next \<le> handle \<and> handle \<le> finish \<and> length (c_descriptors c) < MaxDescriptors)
         ''invalid GATT descriptor handle'',
       bind (of_result (uuidString (drop 2 entry))) (\<lambda>uuid.
         setCharacteristics service (\<lambda>cs. cs[characteristic := c\<lparr>c_descriptors := c_descriptors c @
           [\<lparr>d_handle = handle, d_uuid = uuid, d_permissions = 0, d_minimumKeySize = 0\<rparr>]\<rparr>])),
       (if handle = finish then discoverDescriptors service (characteristic + 1) 0
        else addDescriptors service characteristic finish rest (handle + 1))]))"

definition servicesFound :: "u16 \<Rightarrow> byte \<Rightarrow> bytes \<Rightarrow> peer_op" where
  "servicesFound start err value = inspect (\<lambda>s.
     if generation s = 0 then skip
     else if err = 0x0A then block [
       require (discoveredServices s \<noteq> []) ''original firmware has no GATT services'',
       discoverCharacteristics 0 (s_start (hd (discoveredServices s)))]
     else let size = unat (value ! 0) in block [
       require (err = 0 \<and> 7 \<le> length value) ''GATT service discovery failed'',
       require ((size = 6 \<or> size = 20) \<and> (length value - 1) mod size = 0)
         ''invalid GATT service list'',
       addServices (entries size (drop 1 value)) start])"

definition characteristicsFound :: "nat \<Rightarrow> u16 \<Rightarrow> byte \<Rightarrow> bytes \<Rightarrow> peer_op" where
  "characteristicsFound service start err value = inspect (\<lambda>s.
     if generation s = 0 then skip
     else if err = 0x0A then nextService service
     else let size = unat (value ! 0) in block [
       require (err = 0 \<and> 8 \<le> length value) ''GATT characteristic discovery failed'',
       require ((size = 7 \<or> size = 21) \<and> (length value - 1) mod size = 0)
         ''invalid GATT characteristic list'',
       bind (element (discoveredServices s) service) (\<lambda>_.
         addCharacteristics service (entries size (drop 1 value)) start)])"

definition descriptorsFound :: "nat \<Rightarrow> nat \<Rightarrow> u16 \<Rightarrow> u16 \<Rightarrow> byte \<Rightarrow> bytes \<Rightarrow> peer_op" where
  "descriptorsFound service characteristic start finish err value = inspect (\<lambda>s.
     if generation s = 0 then skip
     else if err = 0x0A then discoverDescriptors service (characteristic + 1) 0
     else let size = (if value ! 0 = 1 then 4 else 18) in block [
       require (err = 0 \<and> 5 \<le> length value) ''GATT descriptor discovery failed'',
       require (value ! 0 = 1 \<or> value ! 0 = 2) ''invalid GATT descriptor format'',
       require ((length value - 1) mod size = 0) ''invalid GATT descriptor list'',
       bind (element (discoveredServices s) service) (\<lambda>grp.
       bind (element (s_characteristics grp) characteristic) (\<lambda>_.
         addDescriptors service characteristic finish (entries size (drop 1 value)) start))])"

definition unsubscribed :: "nat \<Rightarrow> nat \<Rightarrow> byte \<Rightarrow> peer_op" where
  "unsubscribed service characteristic err = inspect (\<lambda>s.
     if generation s = 0 then skip
     else block [
       require (err = 0) ''could not clear restored subscriptions for the new session'',
       clearSubscriptions service (characteristic + 1)])"

text \<open>The completion \<open>exchangeMtu\<close> queues.\<close>

definition mtuExchangedWith :: "u16 \<Rightarrow> nat \<Rightarrow> byte \<Rightarrow> bytes \<Rightarrow> peer_op" where
  "mtuExchangedWith maximum n err value = block [
     whenever (err = 0) (
       bind (of_result (if length value = 2 then readLe16 value else Inr 0)) (\<lambda>theirs. block [
         require (length value = 2 \<and> DefaultAttMtu \<le> theirs) ''invalid ATT MTU response'',
         modify (\<lambda>s. s\<lparr>mtu := min (if mtuExchanged s then mtu s else maximum) theirs,
                        mtuExchanged := True\<rparr>)])),
     emit (Completed n err value)]"

definition complete :: "completion \<Rightarrow> byte \<Rightarrow> bytes \<Rightarrow> peer_op" where
  "complete c err value = (case c of
     Client n \<Rightarrow> emit (Completed n err value)
   | ClientMtu maximum n \<Rightarrow> mtuExchangedWith maximum n err value
   | ServicesFrom start \<Rightarrow> servicesFound start err value
   | CharacteristicsOf service start \<Rightarrow> characteristicsFound service start err value
   | DescriptorsOf service characteristic start finish \<Rightarrow>
       descriptorsFound service characteristic start finish err value
   | Unsubscribe service characteristic \<Rightarrow> unsubscribed service characteristic err)"

end
