(* ===== verification/AttProtocol.thy ===== *)
theory AttProtocol
  imports Discovery
begin

text \<open>
  The ATT client and server roles of the virtual peer, \<open>src/bluetooth/VirtualPeer.Att.cpp\<close>, with
  \<open>clearLink\<close> and \<open>disconnect\<close> of \<open>VirtualPeer.cpp\<close>, which they call.
\<close>

section \<open>Ending a session\<close>

definition clearLink :: peer_op where
  "clearLink = inspect (\<lambda>s.
     let active = (generation s \<noteq> 0 \<or> connecting s \<or> ready s \<or> sessionRequested s);
         pending = requests s in block [
       modify (\<lambda>s. s\<lparr>generation := 0, connecting := False, ready := False,
         sessionRequested := False, mtu := DefaultAttMtu, localMtu := DefaultAttMtu,
         mtuExchanged := False, attBusy := False, attSecurityPending := False,
         discoveredServices := [], security := smp_reset (security s), requests := []\<rparr>),
       forEach (\<lambda>r. complete (r_completed r) 0x0E []) pending,
       whenever active (emit OnClosed)])"

definition disconnect :: peer_op where
  "disconnect = inspect (\<lambda>s.
     if closing s then skip
     else block [
       modify (\<lambda>s. s\<lparr>closing := generation s \<noteq> 0 \<or> connecting s, closingGeneration := generation s\<rparr>),
       whenever (generation s \<noteq> 0) (socket_send Disconnect (generation s) [0x13]),
       modify (\<lambda>s. s\<lparr>setupDeadline := now s + DisconnectTimeout\<rparr>),
       clearLink])"

section \<open>Requests of the bridge\<close>

definition exchangeMtu :: "u16 \<Rightarrow> nat \<Rightarrow> peer_op" where
  "exchangeMtu maximum n = inspect (\<lambda>s.
     if \<not> ready s \<or> maximum < DefaultAttMtu \<or> MaxAttMtu < maximum
       then complete (Client n) 0x06 []
     else if mtuExchanged s
       then complete (Client n) 0 [ucast (mtu s), ucast (drop_bit 8 (mtu s))]
     else block [
       modify (\<lambda>s. s\<lparr>localMtu := maximum\<rparr>),
       request (appendLe16 [2] maximum) (ClientMtu maximum n) []])"

definition read_value :: "u16 \<Rightarrow> u16 \<Rightarrow> nat \<Rightarrow> peer_op" where
  "read_value handle offset n = inspect (\<lambda>s.
     if \<not> ready s then complete (Client n) 0x0E []
     else
       let pdu = appendLe16 [if offset \<noteq> 0 then 0x0C else 0x0A] handle in
       request (if offset \<noteq> 0 then appendLe16 pdu offset else pdu) (Client n) [])"

definition write_value :: "u16 \<Rightarrow> bytes \<Rightarrow> nat \<Rightarrow> peer_op" where
  "write_value handle value n = inspect (\<lambda>s.
     if \<not> ready s \<or> MaxAttValueSize < length value
       then complete (Client n) (if ready s then 0x0D else 0x0E) []
     else
       let pdu = appendLe16 [0x12] handle in
       if unat (mtu s - 3) < length value then request pdu (Client n) value
       else request (pdu @ value) (Client n) [])"

section \<open>Incoming PDUs\<close>

definition att_notification :: "byte \<Rightarrow> bytes \<Rightarrow> peer_op" where
  "att_notification opcode pdu = block [
     require (3 \<le> length pdu) ''truncated ATT notification'',
     bind (of_result (readLe16 (drop 1 pdu))) (\<lambda>handle. inspect (\<lambda>s.
       let indicated = (opcode = 0x1D); confirmation = whenever indicated (sendL2cap 4 [0x1E]) in
       case onValue s of
         Some accept \<Rightarrow>
           if ready s then block [
             emit (ValueOffered handle (drop 3 pdu) indicated),
             (if accept handle (drop 3 pdu) indicated then confirmation else disconnect)]
           else confirmation
       | None \<Rightarrow> confirmation))]"

definition att_mtuRequest :: "bytes \<Rightarrow> peer_op" where
  "att_mtuRequest pdu =
     bind (of_result (if length pdu = 3 then readLe16 (drop 1 pdu) else Inr 0)) (\<lambda>theirs. block [
       require (length pdu = 3 \<and> DefaultAttMtu \<le> theirs) ''invalid peer ATT MTU'',
       inspect (\<lambda>s. sendL2cap 4 (appendLe16 [3] (localMtu s))),
       modify (\<lambda>s. s\<lparr>mtu := min (localMtu s) theirs, mtuExchanged := True\<rparr>)])"

text \<open>The front request is rewritten in place and sent again: the transaction stays at the front.\<close>

definition replaceFront :: "att_request \<Rightarrow> peer_op" where
  "replaceFront r = modify (\<lambda>s. s\<lparr>requests := r # tl (requests s)\<rparr>)"

definition att_prepared :: "byte \<Rightarrow> bytes \<Rightarrow> peer_op" where
  "att_prepared err pdu = inspect (\<lambda>s.
     let active = hd (requests s);
         err = (if err = 0 \<and> drop 1 pdu \<noteq> drop 1 (r_packet active) then 0x04 else err) in block [
       (if err \<noteq> 0 then replaceFront (active\<lparr>r_prepareError := err, r_packet := [0x18, 0]\<rparr>)
        else bind (of_result (readLe16 (drop 3 (r_packet active)))) (\<lambda>previous.
          let offset = unat previous + length (r_packet active) - 5 in
          if offset < length (r_longValue active)
          then bind (of_result (prepareWrite active (mtu s) (of_nat offset))) replaceFront
          else replaceFront (active\<lparr>r_packet := [0x18, 1]\<rparr>))),
       modify (\<lambda>s. s\<lparr>attBusy := False\<rparr>),
       sendNext])"

definition att_completed :: "byte \<Rightarrow> bytes \<Rightarrow> peer_op" where
  "att_completed err pdu = inspect (\<lambda>s.
     let completed = r_completed (hd (requests s)) in block [
       modify (\<lambda>s. s\<lparr>requests := tl (requests s), attBusy := False\<rparr>),
       complete completed err (if err \<noteq> 0 then [] else drop 1 pdu),
       sendNext])"

definition att_executed :: "byte \<Rightarrow> bytes \<Rightarrow> peer_op" where
  "att_executed err pdu = inspect (\<lambda>s.
     let active = hd (requests s) in block [
       whenever (err = 0) (require (length pdu = 1) ''invalid ATT execute-write response''),
       whenever (r_prepareError active \<noteq> 0)
         (require (err = 0) ''ATT prepared-write cancellation failed''),
       att_completed (if r_prepareError active \<noteq> 0 then r_prepareError active else err) pdu])"

definition att_response :: "platform \<Rightarrow> byte \<Rightarrow> bytes \<Rightarrow> peer_op" where
  "att_response pf opcode pdu = block [
     inspect (\<lambda>s. require (attBusy s \<and> requests s \<noteq> []) ''unsolicited ATT response''),
     inspect (\<lambda>s.
       let requestOpcode = hd (r_packet (hd (requests s)));
           err = (if opcode = 1 then pdu ! 4 else 0) in block [
         (if opcode = 1
          then require (length pdu = 5 \<and> pdu ! 1 = requestOpcode \<and> pdu ! 4 \<noteq> 0)
            ''invalid ATT error response''
          else require (uint opcode = uint requestOpcode + 1) ''ATT response opcode mismatch''),
         (if opcode = 1 \<and> (err = 0x05 \<or> err = 0x0F) \<and> \<not> encrypted (security s)
             \<and> requestOpcode \<noteq> 0x18 then block [
            modify (\<lambda>s. s\<lparr>attBusy := False, attSecurityPending := True\<rparr>),
            smp_start pf]
          else if requestOpcode = 0x16 then att_prepared err pdu
          else if requestOpcode = 0x18 then att_executed err pdu
          else att_completed err pdu)])]"

definition receiveAtt :: "platform \<Rightarrow> bytes \<Rightarrow> peer_op" where
  "receiveAtt pf pdu = block [
     inspect (\<lambda>s. require (pdu \<noteq> [] \<and> length pdu \<le> unat (mtu s)) ''invalid ATT PDU length''),
     (let opcode = hd pdu in
      if opcode = 0x1B \<or> opcode = 0x1D then att_notification opcode pdu
      else if opcode = 2 then att_mtuRequest pdu
      else if opcode AND 1 = 0 then
        whenever (opcode AND 0x40 = 0) (sendL2cap 4 [1, opcode, 0, 0, 6])
      else att_response pf opcode pdu)]"

end
