(* ===== verification/Catalog.thy ===== *)
theory Catalog
  imports AttProtocol
begin

text \<open>
  The GATT catalog the controller publishes, \<open>src/bluetooth/VirtualPeer.Catalog.cpp\<close>: chunks are
  collected in \<open>catalogBuffer\<close>, and the last one is parsed into the services offered to clients.
\<close>

section \<open>Parsing\<close>

record attribute =
  a_handle :: u16
  a_permissions :: byte
  a_minimumKeySize :: byte
  a_uuid :: string
  a_value :: bytes

text \<open>One attribute and what remains after it.\<close>

definition nextAttribute :: "bytes \<Rightarrow> u16 \<Rightarrow> string + attribute \<times> bytes" where
  "nextAttribute remaining previous =
     requireR (6 \<le> length remaining) ''truncated GATT attribute metadata''
     (bindR (readLe16 remaining) (\<lambda>handle.
        let uuidSize = unat (remaining ! 4) in
        requireR (previous < handle \<and> 6 + uuidSize \<le> length remaining)
          ''invalid GATT attribute metadata''
        (bindR (uuidString (take uuidSize (drop 5 remaining))) (\<lambda>uuid.
           let valueSize = unat (remaining ! (5 + uuidSize)) in
           requireR (6 + uuidSize + valueSize \<le> length remaining)
             ''truncated GATT declaration metadata''
           (Inr (\<lparr>a_handle = handle, a_permissions = remaining ! 2,
                  a_minimumKeySize = remaining ! 3, a_uuid = uuid,
                  a_value = take valueSize (drop (6 + uuidSize) remaining)\<rparr>,
                 drop (6 + uuidSize + valueSize) remaining))))))"

definition updateLast :: "('x \<Rightarrow> 'x) \<Rightarrow> 'x list \<Rightarrow> 'x list" where
  "updateLast f xs = (if xs = [] then [] else butlast xs @ [f (last xs)])"

definition addCharacteristic ::
  "attribute \<Rightarrow> gatt_characteristic list \<Rightarrow> string + gatt_characteristic list" where
  "addCharacteristic a cs =
     requireR (length cs < MaxCharacteristics \<and> (length (a_value a) = 5 \<or> length (a_value a) = 19))
       ''invalid GATT characteristic metadata''
     (bindR (readLe16 (drop 1 (a_value a))) (\<lambda>valueHandle.
        requireR (a_handle a < valueHandle) ''invalid GATT value handle''
        (bindR (uuidString (drop 3 (a_value a))) (\<lambda>uuid.
           Inr (cs @ [\<lparr>c_declaration = a_handle a, c_handle = valueHandle,
             c_properties = a_value a ! 0, c_uuid = uuid, c_descriptors = [],
             c_permissions = 0, c_minimumKeySize = 0\<rparr>])))))"

definition addValueOrDescriptor ::
  "attribute \<Rightarrow> gatt_characteristic list \<Rightarrow> string + gatt_characteristic list" where
  "addValueOrDescriptor a cs =
     requireR (cs \<noteq> []) ''GATT attribute without a characteristic''
     (let c = last cs in
      if a_handle a = c_handle c then
        requireR (a_uuid a = c_uuid c) ''GATT value UUID mismatch''
        (requireR (a_permissions a AND AuthenticatedOrAuthorized = 0)
           ''GATT requires authenticated/authorized access that CoreBluetooth cannot enforce''
        (requireR (a_minimumKeySize a \<le> 16) ''invalid GATT encryption key size''
        (Inr (updateLast (\<lambda>c. c\<lparr>c_permissions := a_permissions a,
           c_minimumKeySize := a_minimumKeySize a\<rparr>) cs))))
      else
        requireR (c_handle c < a_handle a \<and> length (c_descriptors c) < MaxDescriptors)
          ''invalid GATT descriptor metadata''
        (requireR (a_permissions a AND AuthenticatedOrAuthorized = 0)
           ''GATT descriptor requires authenticated/authorized access that CoreBluetooth cannot enforce''
        (Inr (updateLast (\<lambda>c. c\<lparr>c_descriptors := c_descriptors c @ [\<lparr>d_handle = a_handle a,
           d_uuid = a_uuid a, d_permissions = a_permissions a,
           d_minimumKeySize = a_minimumKeySize a\<rparr>]\<rparr>) cs))))"

definition addAttribute :: "attribute \<Rightarrow> gatt_service list \<Rightarrow> string + gatt_service list" where
  "addAttribute a ss =
     (if a_uuid a = ''2800'' then
        requireR (length ss < MaxServices) ''too many GATT services''
        (bindR (uuidString (a_value a)) (\<lambda>uuid.
           Inr (updateLast (\<lambda>s. s\<lparr>s_end := a_handle a - 1\<rparr>) ss @
             [\<lparr>s_start = a_handle a, s_end = 0xFFFF, s_uuid = uuid, s_characteristics = []\<rparr>])))
      else requireR (ss \<noteq> [] \<and> a_uuid a \<noteq> ''2801'') ''unsupported GATT service layout''
        (let cs = s_characteristics (last ss);
             result = (if a_uuid a = ''2803'' then addCharacteristic a cs
               else if a_uuid a \<noteq> ''2802'' then addValueOrDescriptor a cs else Inr cs)
         in bindR result (\<lambda>cs. Inr (updateLast (\<lambda>s. s\<lparr>s_characteristics := cs\<rparr>) ss))))"

lemma nextAttribute_shorter:
  "nextAttribute remaining previous = Inr (a, rest) \<Longrightarrow> length rest < length remaining"
  by (auto simp: nextAttribute_def requireR_def bindR_eq_Inr Let_def split: if_splits)

function parseAttributes :: "bytes \<Rightarrow> u16 \<Rightarrow> gatt_service list \<Rightarrow> string + gatt_service list" where
  "parseAttributes remaining previous ss =
     (if remaining = [] then Inr ss
      else case nextAttribute remaining previous of
        Inl e \<Rightarrow> Inl e
      | Inr (a, rest) \<Rightarrow>
          (case addAttribute a ss of
             Inl e \<Rightarrow> Inl e
           | Inr ss' \<Rightarrow> parseAttributes rest (a_handle a) ss'))"
  by pat_completeness auto
termination
  by (relation "measure (\<lambda>(remaining, _). length remaining)") (auto dest: nextAttribute_shorter)

declare parseAttributes.simps [simp del]

definition parseCatalog :: "bytes \<Rightarrow> string + gatt_service list" where
  "parseCatalog buffer =
     requireR (buffer \<noteq> [])
       ''GATT publication unavailable for this NimBLE layout; no automatic connection attempted''
     (requireR (buffer ! 0 = 2) ''incompatible GATT metadata version''
     (bindR (parseAttributes (drop 1 buffer) 0 []) (\<lambda>ss.
        requireR (ss \<noteq> []) ''empty GATT service metadata'' (Inr ss))))"

section \<open>Operations\<close>

definition invalidateCatalog :: peer_op where
  "invalidateCatalog = block [
     modify (\<lambda>s. s\<lparr>catalogReady := False, catalogReceiving := False, catalogBuffer := [],
       services := [], discoveredServices := []\<rparr>),
     emit OnAvailabilityChanged]"

definition publish :: "gatt_service list \<Rightarrow> peer_op" where
  "publish ss = inspect (\<lambda>s. block [
     whenever (\<not> catalogReady s \<or> ss \<noteq> services s) (block [
       disconnect,
       invalidateCatalog,
       modify (\<lambda>s. s\<lparr>services := ss, catalogReady := True\<rparr>)]),
     modify (\<lambda>s. s\<lparr>catalogBuffer := []\<rparr>),
     emit OnAvailabilityChanged])"

definition receiveCatalog :: "bytes \<Rightarrow> peer_op" where
  "receiveCatalog payload = (let flags = payload ! 0 in block [
     require (payload \<noteq> [] \<and> flags AND NOT 3 = 0) ''invalid GATT metadata chunk'',
     whenever (flags AND 1 \<noteq> 0)
       (modify (\<lambda>s. s\<lparr>catalogBuffer := [], catalogReceiving := True\<rparr>)),
     inspect (\<lambda>s. require (catalogReceiving s
         \<and> length (catalogBuffer s) + length payload \<le> MaxCatalogSize)
       ''invalid GATT metadata sequence/size''),
     modify (\<lambda>s. s\<lparr>catalogBuffer := catalogBuffer s @ tl payload\<rparr>),
     whenever (flags AND 2 \<noteq> 0) (block [
       modify (\<lambda>s. s\<lparr>catalogReceiving := False\<rparr>),
       bind (bind (gets catalogBuffer) (\<lambda>buffer. of_result (parseCatalog buffer))) publish])])"

end
