(* ===== verification/VirtualPeer.thy ===== *)
theory VirtualPeer
  imports Catalog
begin

text \<open>
  The virtual peer itself, \<open>src/bluetooth/VirtualPeer.cpp\<close>: the messages of the controller, the
  poll step with its catch-all handler, and the operations the bridge calls. \<open>peer_step\<close> is the
  step relation of the whole component.
\<close>

section \<open>Construction\<close>

text \<open>The path must fit \<open>sun_path\<close>; \<open>listens\<close> is the outcome of the listener's system calls and
  \<open>random6\<close> the six random bytes.\<close>

definition localAddressOf :: "bytes \<Rightarrow> bytes" where
  "localAddressOf random6 = random6[5 := random6 ! 5 OR 0xC0] @ [1]"

definition new_peer :: "nat \<Rightarrow> string \<Rightarrow> bool \<Rightarrow> bytes
    \<Rightarrow> (u16 \<Rightarrow> bytes \<Rightarrow> bool \<Rightarrow> bool) option \<Rightarrow> string + virtual_peer" where
  "new_peer pathLimit path listens random6 handler =
     requireR (length path < pathLimit) ''BLE socket path is too long''
     (requireR listens ''listen for QEMU BLE''
     (Inr \<lparr>socket = new_socket, transport = False, enabled = True, failed = False,
        localAddress = localAddressOf random6, remoteAddress = zeros 7, advertising = False,
        peerName = [], advertisedServices = [], advertisementData = [], catalogBuffer = [],
        services = [], discoveredServices = [], catalogReady = False, catalogReceiving = False,
        connecting = False, closing = False, ready = False, sessionRequested = False,
        generation = 0, closingGeneration = 0, setupDeadline = 0, security = new_session,
        mtu = DefaultAttMtu, localMtu = DefaultAttMtu, mtuExchanged = False, attBusy = False,
        attSecurityPending = False, attDeadline = 0, requests = [], onValue = handler,
        now = 0, entropy = 0, events = []\<rparr>))"

section \<open>Advertising\<close>

definition advertisingField :: "byte \<Rightarrow> bytes \<Rightarrow> peer_op" where
  "advertisingField type value = block [
     whenever (type = 8 \<or> type = 9) (modify (\<lambda>s. s\<lparr>peerName := value\<rparr>)),
     whenever (type = 2 \<or> type = 3 \<or> type = 6 \<or> type = 7)
       (let uuidSize = (if type \<le> 3 then 2 else 16) in block [
          require (length value mod uuidSize = 0) ''invalid advertised UUID list'',
          forEach (\<lambda>entry. bind (of_result (uuidString entry)) (\<lambda>uuid.
            modify (\<lambda>s. s\<lparr>advertisedServices := advertisedServices s @ [uuid]\<rparr>)))
            (entries uuidSize value)])]"

function advertisingFields :: "bytes \<Rightarrow> peer_op" where
  "advertisingFields adFields =
     (if adFields = [] then skip
      else let len = unat (hd adFields); rest = tl adFields in
        if len = 0 then skip
        else block [
          require (len \<le> length rest) ''invalid advertising field'',
          advertisingField (hd rest) (take (len - 1) (tl rest)),
          advertisingFields (drop len rest)])"
  by pat_completeness auto
termination by (relation "measure length") auto

function advertisingChunks :: "bytes \<Rightarrow> peer_op" where
  "advertisingChunks data =
     (if data = [] then skip
      else let size = unat (hd data) in block [
        require (size \<le> length (tl data)) ''truncated advertising data'',
        advertisingFields (take size (tl data)),
        advertisingChunks (drop size (tl data))])"
  by pat_completeness auto
termination by (relation "measure length") auto

declare advertisingFields.simps [simp del] advertisingChunks.simps [simp del]

definition advertisement :: "bytes \<Rightarrow> peer_op" where
  "advertisement payload = (let data = drop 1 payload in block [
     require (10 \<le> length payload) ''truncated virtual advertisement'',
     bind (of_result (fixedBytes 7 (take 7 (drop 1 payload)))) (\<lambda>address.
       modify (\<lambda>s. s\<lparr>remoteAddress := rotate1 address, advertising := payload ! 0 \<noteq> 0\<rparr>)),
     inspect (\<lambda>s. let changed = (data \<noteq> advertisementData s) in block [
       modify (\<lambda>s. s\<lparr>advertisementData := data\<rparr>),
       inspect (\<lambda>s. whenever (catalogReady s \<and> changed
           \<or> \<not> advertising s \<and> generation s = 0 \<and> \<not> connecting s \<and> \<not> closing s)
         (block [disconnect, invalidateCatalog]))]),
     modify (\<lambda>s. s\<lparr>peerName := [], advertisedServices := []\<rparr>),
     advertisingChunks (drop 8 payload),
     emit OnAvailabilityChanged])"

section \<open>Link\<close>

definition connect_peer :: peer_op where
  "connect_peer = inspect (\<lambda>s.
     let req = appendLe16 (appendLe16 (appendLe16
       (localAddress s ! 6 # take 6 (localAddress s)) 24) 0) 200 in block [
       modify (\<lambda>s. s\<lparr>discoveredServices := [], connecting := True,
         setupDeadline := now s + SetupTimeout\<rparr>),
       socket_send Connect 0 req])"

definition l2cap_signaling :: "bytes \<Rightarrow> peer_op" where
  "l2cap_signaling pdu =
     bind (of_result (if 4 \<le> length pdu then readLe16 (drop 2 pdu) else Inr 0)) (\<lambda>size. block [
       require (4 \<le> length pdu \<and> unat size = length pdu - 4) ''invalid LE signaling packet'',
       whenever (pdu ! 0 \<noteq> 1) (sendL2cap 5 [1, pdu ! 1, 2, 0, 0, 0])])"

definition receiveL2cap :: "platform \<Rightarrow> bytes \<Rightarrow> peer_op" where
  "receiveL2cap pf payload =
     bind (of_result (if 4 \<le> length payload then readLe16 payload else Inr 0)) (\<lambda>size. block [
       require (4 \<le> length payload \<and> unat size = length payload - 4) ''invalid inbound L2CAP packet'',
       bind (of_result (readLe16 (drop 2 payload))) (\<lambda>channel.
         let pdu = drop 4 payload in
         if channel = 4 then receiveAtt pf pdu
         else if channel = 6 then smp_receive pf pdu
         else if channel = 5 then l2cap_signaling pdu
         else throw ''unsupported virtual L2CAP channel'')])"

definition link_connected :: "platform \<Rightarrow> u64 \<Rightarrow> bytes \<Rightarrow> peer_op" where
  "link_connected pf g payload = block [
     require (g \<noteq> 0 \<and> length payload = 13) ''invalid virtual connection'',
     inspect (\<lambda>s.
       if \<not> connecting s \<or> \<not> enabled s then block [
         whenever (generation s \<noteq> 0) (emit (DuplicateConnected g)),
         modify (\<lambda>s. s\<lparr>closing := True, closingGeneration := g\<rparr>),
         socket_send Disconnect g [0x13]]
       else block [
         modify (\<lambda>s. s\<lparr>generation := g, connecting := False, advertising := False\<rparr>),
         whenever (bonded (security s)) (block [
           modify (\<lambda>s. s\<lparr>attSecurityPending := True, attDeadline := setupDeadline s\<rparr>),
           smp_start pf]),
         discoverServices 1])]"

text \<open>\<open>receive\<close>: the first byte is the kind, the next eight the generation.\<close>

definition receive_message :: "platform \<Rightarrow> peer_message option \<Rightarrow> u64 \<Rightarrow> bytes \<Rightarrow> peer_op" where
  "receive_message pf kind g payload = inspect (\<lambda>s.
     if kind = Some GattDatabase then receiveCatalog payload
     else if kind = Some Reset then block [
       modify (\<lambda>s. s\<lparr>failed := False, advertising := False, closing := False,
         closingGeneration := 0\<rparr>),
       clearLink, invalidateCatalog]
     else if kind = Some Disconnected \<and> closing s \<and> g = closingGeneration s then
       modify (\<lambda>s. s\<lparr>closing := False, closingGeneration := 0\<rparr>)
     else if kind = Some Advertising then advertisement payload
     else if kind = Some Connected then link_connected pf g payload
     else if kind = Some Rejected \<and> \<not> (g \<noteq> 0 \<and> g \<noteq> generation s) then
       throw ''QEMU rejected a virtual BLE operation''
     else if kind = Some Rejected then skip
     else if g \<noteq> generation s \<or> generation s = 0 then skip
     else if kind = Some Disconnected then clearLink
     else if kind = Some Data then receiveL2cap pf payload
     else if kind = Some Encryption then block [
       require (length payload = 1) ''invalid virtual encryption result'',
       smp_encryptionChanged pf (payload ! 0)]
     else throw ''unknown virtual-link message'')"

definition receive_packet :: "platform \<Rightarrow> bytes \<Rightarrow> peer_op" where
  "receive_packet pf pkt = block [
     require (9 \<le> length pkt) ''truncated virtual-link message'',
     receive_message pf (peerMessage (pkt ! 0)) (readLe64 (drop 1 pkt)) (drop 9 pkt)]"

section \<open>Polling\<close>

datatype accept_result = Accepted kernel bool | AcceptNone | AcceptFailed

text \<open>A connection just accepted has carried nothing yet.\<close>

fun freshConnection :: "accept_result \<Rightarrow> bool" where
  "freshConnection (Accepted k configured) \<longleftrightarrow> k_sent k = []"
| "freshConnection _ \<longleftrightarrow> True"

definition socket_receive :: "(virtual_peer, bytes) prog" where
  "socket_receive s = (let (pkt, k) = sock_receive (socket s) in Normal pkt (s\<lparr>socket := k\<rparr>))"

definition poll_accept :: "accept_result \<Rightarrow> peer_op" where
  "poll_accept a = inspect (\<lambda>s. whenever (\<not> fd (socket s)) (block [
     whenever (transport s) (block [
       modify (\<lambda>s. s\<lparr>transport := False, advertising := False, closing := False,
         closingGeneration := 0\<rparr>),
       clearLink, invalidateCatalog]),
     (case a of
        Accepted k configured \<Rightarrow> modify (\<lambda>s. s\<lparr>socket := sock_adopt k configured (socket s),
          transport := True, failed := False\<rparr>)
      | AcceptNone \<Rightarrow> skip
      | AcceptFailed \<Rightarrow> throw ''accept QEMU BLE'')]))"

fun poll_packets :: "platform \<Rightarrow> nat \<Rightarrow> peer_op" where
  "poll_packets pf 0 = skip"
| "poll_packets pf (Suc n) = bind socket_receive (\<lambda>pkt.
     if pkt = [] then skip else block [receive_packet pf pkt, poll_packets pf n])"

definition poll_deadlines :: peer_op where
  "poll_deadlines = block [
     inspect (\<lambda>s. whenever (enabled s \<and> \<not> failed s \<and> advertising s \<and> generation s = 0
       \<and> \<not> connecting s \<and> \<not> closing s \<and> sessionRequested s) connect_peer),
     inspect (\<lambda>s. whenever (attBusy s \<or> attSecurityPending s)
       (require (now s < attDeadline s) ''ATT transaction timed out'')),
     inspect (\<lambda>s. whenever ((connecting s \<or> generation s \<noteq> 0 \<or> closing s) \<and> \<not> ready s)
       (require (now s < setupDeadline s) ''virtual BLE setup timed out''))]"

definition poll_failed :: peer_op where
  "poll_failed = block [
     modify (\<lambda>s. s\<lparr>failed := True\<rparr>),
     inspect (\<lambda>s. whenever (closing s \<and> setupDeadline s \<le> now s)
       (modify (\<lambda>s. s\<lparr>socket := sock_close (socket s), closing := False, closingGeneration := 0\<rparr>))),
     disconnect,
     invalidateCatalog]"

definition poll :: "platform \<Rightarrow> accept_result \<Rightarrow> peer_op" where
  "poll pf a = attempt (block [
     poll_accept a,
     modify (\<lambda>s. s\<lparr>socket := sock_flush (socket s)\<rparr>),
     poll_packets pf MaxPacketsPerPoll,
     poll_deadlines]) poll_failed"

section \<open>Operations of the bridge\<close>

definition setEnabled :: "bool \<Rightarrow> peer_op" where
  "setEnabled b = inspect (\<lambda>s. whenever (b \<noteq> enabled s) (block [
     modify (\<lambda>s. s\<lparr>enabled := b\<rparr>),
     (if b then modify (\<lambda>s. s\<lparr>failed := False\<rparr>) else disconnect),
     emit OnAvailabilityChanged]))"

definition reset :: peer_op where
  "reset = block [
     modify (\<lambda>s. s\<lparr>socket := sock_close (socket s), transport := False, advertising := False,
       failed := False, closing := False, closingGeneration := 0\<rparr>),
     clearLink,
     invalidateCatalog]"

definition startSession :: "(virtual_peer, bool) prog" where
  "startSession = inspect (\<lambda>s.
     if available s then bind (modify (\<lambda>s. s\<lparr>sessionRequested := True\<rparr>)) (\<lambda>_. ret True)
     else ret False)"

section \<open>Steps\<close>

text \<open>What can happen to a peer: the host thread polls it, the bridge calls it, the clock
  advances, and the kernel's side of the socket changes between two calls.\<close>

inductive peer_step :: "platform \<Rightarrow> virtual_peer \<Rightarrow> virtual_peer \<Rightarrow> bool" for pf where
  step_poll: "freshConnection a \<Longrightarrow> poll pf a s = Normal u t \<Longrightarrow> peer_step pf s t"
| step_enable: "setEnabled b s = Normal u t \<Longrightarrow> peer_step pf s t"
| step_reset: "reset s = Normal u t \<Longrightarrow> peer_step pf s t"
| step_disconnect: "disconnect s = Normal u t \<Longrightarrow> peer_step pf s t"
| step_start: "startSession s = Normal b t \<Longrightarrow> peer_step pf s t"
| step_exchangeMtu: "exchangeMtu m n s = Normal u t \<Longrightarrow> peer_step pf s t"
| step_read: "read_value h i n s = Normal u t \<Longrightarrow> peer_step pf s t"
| step_write: "write_value h v n s = Normal u t \<Longrightarrow> peer_step pf s t"
| step_time: "now s \<le> time \<Longrightarrow> peer_step pf s (s\<lparr>now := time\<rparr>)"
| step_kernel: "k_sent k = k_sent (sock_kernel (socket s)) \<Longrightarrow>
    peer_step pf s (s\<lparr>socket := (socket s)\<lparr>sock_kernel := k\<rparr>\<rparr>)"

definition initial_peer :: "virtual_peer \<Rightarrow> bool" where
  "initial_peer s \<longleftrightarrow> (\<exists>lim path r handler. length r = 6 \<and> new_peer lim path True r handler = Inr s)"

inductive_cases peer_stepE: "peer_step pf s t"

end
