(* ===== verification/PeerInvariant.thy ===== *)
theory PeerInvariant
  imports VirtualPeer
begin

text \<open>
  The well-formedness invariant of the virtual peer and its preservation by every operation, thrown
  exceptions included. \<open>core_inv\<close> holds whenever a member function is entered or left, even by an
  exception; \<open>live_inv\<close>, which adds that the session never stalls, holds between the calls of the
  bridge. Both are about peers that never saw \<open>Connected\<close> over a live session; \<open>tainted\<close> marks the
  others.
\<close>

section \<open>Sending\<close>

lemma wp_socket_send [wp_rules]:
  "length p \<le> 1024 \<Longrightarrow> wp (socket_send m g p) Q E A s =
     Q () (s\<lparr>socket := sock_sent m g p (socket s)\<rparr>)"
  by (simp add: socket_send_def wp_zoom) (simp add: wp_def sock_send_Normal)

lemma wp_require [wp_rules]: "wp (require b e) Q E A s = (if b then Q () s else E e s)"
  by (simp add: require_def wp_rules)

lemma wp_element [wp_rules]:
  "wp (element xs i) Q E A s = (if i < length xs then Q (xs ! i) s else A ''index out of range'' s)"
  by (simp add: element_def wp_rules)

lemma wp_emit [wp_rules]: "wp (emit e) Q E A = (\<lambda>s. Q () (s\<lparr>events := events s @ [e]\<rparr>))"
  by (simp add: emit_def wp_rules)

lemma wp_sec [wp_rules]: "wp (sec f) Q E A = (\<lambda>s. Q () (s\<lparr>security := f (security s)\<rparr>))"
  by (simp add: sec_def wp_rules)

definition l2capSent :: "u16 \<Rightarrow> bytes \<Rightarrow> virtual_peer \<Rightarrow> virtual_peer" where
  "l2capSent channel p s = s\<lparr>socket := sock_sent L2cap (generation s)
     (appendLe16 (appendLe16 [] (of_nat (length p))) channel @ p) (socket s)\<rparr>"

lemma wp_sendL2cap [wp_rules]:
  "wp (sendL2cap channel p) Q E A s =
     (if generation s \<noteq> 0 \<and> length p \<le> 1020 then Q () (l2capSent channel p s)
      else E ''invalid outbound L2CAP packet'' s)"
  by (simp add: sendL2cap_def wp_rules l2capSent_def peer_limits)

lemma wp_requestEncryption [wp_rules]:
  "length key \<le> 1000 \<Longrightarrow> wp (requestEncryption key) Q E A s =
     Q () (s\<lparr>socket := sock_sent Encrypt (generation s) (zeros 10 @ key) (socket s)\<rparr>)"
  by (simp add: requestEncryption_def wp_rules zeros_def)

lemma wp_sendNext [wp_rules]:
  "wp sendNext Q E A s =
     (if attBusy s \<or> attSecurityPending s \<or> requests s = [] \<or> generation s = 0 then Q () s
      else if length (r_packet (hd (requests s))) \<le> 1020
      then Q () (l2capSent 4 (r_packet (hd (requests s))) (s\<lparr>attBusy := True,
             attDeadline := now s + AttTimeout\<rparr>))
      else E ''invalid outbound L2CAP packet'' (s\<lparr>attBusy := True,
             attDeadline := now s + AttTimeout\<rparr>))"
  by (simp add: sendNext_def wp_rules)

lemma wp_completeError [wp_rules]:
  "wp (completeError c e) Q E A s =
     (case c of
        Client n \<Rightarrow> Q () (s\<lparr>events := events s @ [Completed n e []]\<rparr>)
      | ClientMtu _ n \<Rightarrow> Q () (s\<lparr>events := events s @ [Completed n e []]\<rparr>)
      | _ \<Rightarrow> if generation s = 0 then Q () s else E (completionFailure c) s)"
  by (cases c) (simp_all add: completeError_def wp_rules)

text \<open>With an error other than \<open>Attribute Not Found\<close>, a completion issues no request.\<close>

lemma complete_error:
  "e \<noteq> 0 \<Longrightarrow> e \<noteq> 0x0A \<Longrightarrow> complete c e [] = completeError c e"
proof -
  assume "e \<noteq> 0" "e \<noteq> 0x0A"
  then show ?thesis
    by (cases c) (auto simp: complete_def completeError_def mtuExchangedWith_def servicesFound_def
        characteristicsFound_def descriptorsFound_def unsubscribed_def completionFailure_def
        require_def inspect_def bind_def skip_def throw_def whenever_def emit_def modify_def
        Let_def fun_eq_iff)
qed

section \<open>The invariant\<close>

fun isClient :: "completion \<Rightarrow> bool" where
  "isClient (Client n) = True"
| "isClient (ClientMtu m n) = True"
| "isClient _ = False"

fun validCompletion :: "gatt_service list \<Rightarrow> completion \<Rightarrow> bool" where
  "validCompletion ds (CharacteristicsOf i start) \<longleftrightarrow> i < length ds"
| "validCompletion ds (DescriptorsOf i j start finish) \<longleftrightarrow>
     i < length ds \<and> j < length (s_characteristics (ds ! i))"
| "validCompletion ds (ClientMtu m n) \<longleftrightarrow> 23 \<le> m \<and> m \<le> 498"
| "validCompletion ds _ \<longleftrightarrow> True"

text \<open>A request that writes a long value is a fragment of it, or the execute/cancel that ends it.\<close>

definition fragment :: "u16 \<Rightarrow> bytes \<Rightarrow> nat \<Rightarrow> nat \<Rightarrow> bytes" where
  "fragment handle value offset n =
     [0x16] @ appendLe16 [] handle @ appendLe16 [] (of_nat offset) @ take n (drop offset value)"

definition validRequest :: "gatt_service list \<Rightarrow> att_request \<Rightarrow> bool" where
  "validRequest ds r \<longleftrightarrow> r_packet r \<noteq> [] \<and> length (r_packet r) \<le> 498 \<and>
     length (r_longValue r) \<le> 512 \<and> validCompletion ds (r_completed r) \<and>
     (hd (r_packet r) = 0x16 \<longrightarrow> (\<exists>handle offset n. offset < length (r_longValue r) \<and> 0 < n \<and>
        offset + n \<le> length (r_longValue r) \<and> r_packet r = fragment handle (r_longValue r) offset n))"

definition smp_inv :: "smp_session \<Rightarrow> bool" where
  "smp_inv m \<longleftrightarrow> (\<forall>k. bond m = Some k \<longrightarrow> length k = 16) \<and> length (ltk m) = 16 \<and>
     (smp_state m \<in> {Response, PublicKey} \<longrightarrow> keyPair m \<noteq> None)"

definition core_inv :: "virtual_peer \<Rightarrow> bool" where
  "core_inv s \<longleftrightarrow> sender_ok (socket s) \<and> smp_inv (security s) \<and>
     23 \<le> mtu s \<and> mtu s \<le> 498 \<and> 23 \<le> localMtu s \<and> localMtu s \<le> 498 \<and>
     length (requests s) \<le> 64 \<and>
     (\<forall>r \<in> set (requests s). validRequest (discoveredServices s) r) \<and>
     (attBusy s \<longrightarrow> requests s \<noteq> [] \<and> \<not> attSecurityPending s) \<and>
     (generation s = 0 \<longrightarrow> requests s = [] \<and> \<not> ready s \<and> \<not> attSecurityPending s \<and>
        smp_state (security s) = Idle) \<and>
     (closing s \<or> connecting s \<longrightarrow> generation s = 0) \<and>
     (connecting s \<longrightarrow> \<not> closing s \<and> enabled s) \<and>
     (if ready s then \<forall>r \<in> set (requests s). isClient (r_completed r)
      else tl (requests s) = [] \<and> (\<forall>r \<in> set (requests s). \<not> isClient (r_completed r)))"

definition live_inv :: "virtual_peer \<Rightarrow> bool" where
  "live_inv s \<longleftrightarrow> core_inv s \<and>
     (requests s \<noteq> [] \<longrightarrow> attBusy s \<or> attSecurityPending s) \<and>
     (generation s \<noteq> 0 \<and> \<not> ready s \<longrightarrow> requests s \<noteq> []) \<and>
     (attSecurityPending s \<longrightarrow> smp_state (security s) \<noteq> Idle \<and> smp_state (security s) \<noteq> Encrypted)"

definition tainted :: "virtual_peer \<Rightarrow> bool" where
  "tainted s \<longleftrightarrow> (\<exists>g. DuplicateConnected g \<in> set (events s))"

text \<open>Socket, entropy and events may change under the invariant.\<close>

lemma l2capSent_sel [simp]:
  "security (l2capSent c p s) = security s" "mtu (l2capSent c p s) = mtu s"
  "localMtu (l2capSent c p s) = localMtu s" "requests (l2capSent c p s) = requests s"
  "discoveredServices (l2capSent c p s) = discoveredServices s"
  "services (l2capSent c p s) = services s"
  "attBusy (l2capSent c p s) = attBusy s" "generation (l2capSent c p s) = generation s"
  "attSecurityPending (l2capSent c p s) = attSecurityPending s" "ready (l2capSent c p s) = ready s"
  "closing (l2capSent c p s) = closing s" "connecting (l2capSent c p s) = connecting s"
  "events (l2capSent c p s) = events s" "now (l2capSent c p s) = now s"
  "sessionRequested (l2capSent c p s) = sessionRequested s"
  "catalogReady (l2capSent c p s) = catalogReady s"
  "localAddress (l2capSent c p s) = localAddress s"
  "remoteAddress (l2capSent c p s) = remoteAddress s"
  "bond (security (l2capSent c p s)) = bond (security s)"
  "enabled (l2capSent c p s) = enabled s" "onValue (l2capSent c p s) = onValue s" "entropy (l2capSent c p s) = entropy s"
  by (simp_all add: l2capSent_def)

lemma sender_ok_l2capSent [simp]: "sender_ok (socket s) \<Longrightarrow> sender_ok (socket (l2capSent c p s))"
  by (simp add: l2capSent_def)

lemma core_inv_l2capSent [simp]: "core_inv s \<Longrightarrow> core_inv (l2capSent c p s)"
  by (simp add: core_inv_def)

lemma core_inv_socket [simp]: "core_inv s \<Longrightarrow> sender_ok k \<Longrightarrow> core_inv (s\<lparr>socket := k\<rparr>)"
  by (simp add: core_inv_def)

lemma core_inv_events [simp]: "core_inv (s\<lparr>events := es\<rparr>) = core_inv s"
  by (simp add: core_inv_def)

lemma core_inv_sent [simp]:
  "core_inv s \<Longrightarrow> core_inv (s\<lparr>socket := sock_sent m g p (socket s)\<rparr>)"
  by (simp add: core_inv_def)


section \<open>The security session keeps the invariant\<close>

lemma length_publicKey: "publicKey pf sk = Inr k \<Longrightarrow> length k = 64"
  by (auto simp: publicKey_def requireR_def split: option.splits if_splits)

text \<open>What the security session may touch.\<close>

definition securityStep :: "virtual_peer \<Rightarrow> virtual_peer \<Rightarrow> bool" where
  "securityStep s t \<longleftrightarrow> t = s\<lparr>socket := socket t, security := security t, entropy := entropy t\<rparr> \<and>
     sender_ok (socket t) \<and> smp_inv (security t)"

lemma securityStep_core:
  "core_inv s \<Longrightarrow> generation s \<noteq> 0 \<Longrightarrow> securityStep s t \<Longrightarrow> core_inv t"
  unfolding securityStep_def by (erule conjE, erule ssubst) (auto simp: core_inv_def)

lemma securityStep_refl: "sender_ok (socket s) \<Longrightarrow> smp_inv (security s) \<Longrightarrow> securityStep s s"
  by (simp add: securityStep_def)

lemma securityStep_sel:
  assumes "securityStep s t"
  shows "requests t = requests s" "attBusy t = attBusy s" "ready t = ready s"
    "attSecurityPending t = attSecurityPending s" "generation t = generation s"
    "closing t = closing s" "events t = events s"
proof -
  have eq: "t = s\<lparr>socket := socket t, security := security t, entropy := entropy t\<rparr>"
    using assms by (simp add: securityStep_def)
  show "requests t = requests s" using arg_cong [OF eq, of requests] by simp
  show "attBusy t = attBusy s" using arg_cong [OF eq, of attBusy] by simp
  show "ready t = ready s" using arg_cong [OF eq, of ready] by simp
  show "attSecurityPending t = attSecurityPending s"
    using arg_cong [OF eq, of attSecurityPending] by simp
  show "generation t = generation s" using arg_cong [OF eq, of generation] by simp
  show "closing t = closing s" using arg_cong [OF eq, of closing] by simp
  show "events t = events s" using arg_cong [OF eq, of events] by simp
qed

lemma smp_pair_spec:
  assumes "sender_ok (socket s)" "smp_inv (security s)" "generation s \<noteq> 0"
    and "smp_state (security s) \<notin> {Response, PublicKey}"
  shows "wp (smp_pair pf) (\<lambda>_ t. securityStep s t \<and> smp_state (security t) = Response)
    (\<lambda>_. securityStep s) (\<lambda>_ _. False) s"
proof -
  obtain key fresh where d: "draw pf (entropy s) = (key, fresh)" by fastforce
  show ?thesis
    using assms
    by (simp add: smp_pair_def d wp_rules smp_send_def l2capSent_def securityStep_def smp_inv_def
        split: option.splits sum.splits)
qed

lemma smp_start_spec:
  assumes "sender_ok (socket s)" "smp_inv (security s)" "generation s \<noteq> 0"
  shows "wp (smp_start pf) (\<lambda>_ t. securityStep s t \<and> smp_state (security t) =
      (if smp_state (security s) \<noteq> Idle then smp_state (security s)
       else if bond (security s) = None then Response else Restoring))
    (\<lambda>_. securityStep s) (\<lambda>_ _. False) s"
proof (cases "smp_state (security s) = Idle \<and> bond (security s) = None")
  case True
  then show ?thesis
    using assms smp_pair_spec [of s pf] by (simp add: smp_start_def wp_rules)
next
  case False
  then show ?thesis
    using assms
    by (auto simp: smp_start_def wp_rules securityStep_def smp_inv_def split: option.splits)
qed


abbreviation smp_ok :: "virtual_peer \<Rightarrow> bool" where
  "smp_ok s \<equiv> sender_ok (socket s) \<and> smp_inv (security s) \<and> generation s \<noteq> 0"

lemma smp_on_response_spec:
  "smp_ok s \<Longrightarrow> smp_state (security s) = Response \<Longrightarrow>
    wp (smp_on_response pdu) (\<lambda>_ t. securityStep s t \<and> smp_state (security t) = PublicKey)
      (\<lambda>_. securityStep s) (\<lambda>_ _. False) s"
  by (simp add: smp_on_response_def Let_def wp_rules smp_send_def l2capSent_def securityStep_def
      smp_inv_def split: sum.splits)

lemma smp_on_publicKey_spec:
  "smp_ok s \<Longrightarrow> smp_state (security s) = PublicKey \<Longrightarrow>
    wp (smp_on_publicKey pf pdu) (\<lambda>_ t. securityStep s t \<and> smp_state (security t) = Confirm)
      (\<lambda>_. securityStep s) (\<lambda>_ _. False) s"
  by (auto simp: smp_on_publicKey_def Let_def wp_rules securityStep_def
      smp_inv_def split: sum.splits option.splits)

lemma smp_on_confirm_spec:
  "smp_ok s \<Longrightarrow> wp (smp_on_confirm pdu) (\<lambda>_ t. securityStep s t \<and> smp_state (security t) = Random)
      (\<lambda>_. securityStep s) (\<lambda>_ _. False) s"
  if "smp_state (security s) = Confirm"
  using that by (simp add: smp_on_confirm_def Let_def wp_rules smp_send_def l2capSent_def
      securityStep_def smp_inv_def split: sum.splits)

lemma smp_on_random_spec:
  assumes "smp_ok s" and "smp_state (security s) = Random"
  shows "wp (smp_on_random pf pdu) (\<lambda>_ t. securityStep s t \<and> smp_state (security t) = Check)
      (\<lambda>_. securityStep s) (\<lambda>_ _. False) s"
proof -
  have len: "smpKeys (aesEncryptBlock pf) a b c d e = (mac, key) \<Longrightarrow> length key = 16"
    for a b c d e mac key
    using smp_cipher.length_smpKeys [of pf a b c d e] by simp
  show ?thesis
    using assms
    by (simp add: smp_on_random_def Let_def wp_rules smp_send_def l2capSent_def securityStep_def
        smp_inv_def smp_cipher.length_smpCheck split: sum.splits prod.splits) (auto dest: len)
qed

lemma smp_on_check_spec:
  assumes "smp_ok s" and "smp_state (security s) = Check"
  shows "wp (smp_on_check pdu) (\<lambda>_ t. securityStep s t \<and> smp_state (security t) = Encrypting)
      (\<lambda>_. securityStep s) (\<lambda>_ _. False) s"
  using assms by (simp add: smp_on_check_def Let_def wp_rules securityStep_def
      smp_inv_def split: sum.splits)

lemmas smp_on_specs = smp_on_response_spec smp_on_publicKey_spec smp_on_confirm_spec
  smp_on_random_spec smp_on_check_spec

lemma smp_receive_spec:
  assumes "smp_ok s"
  shows "wp (smp_receive pf pdu) (\<lambda>_ t. securityStep s t \<and> smp_state (security t) \<noteq> Idle \<and>
      (smp_state (security t) = Encrypted \<longrightarrow> smp_state (security s) = Encrypted))
    (\<lambda>_. securityStep s) (\<lambda>_ _. False) s"
proof -
  have refl: "securityStep s s" using assms by (simp add: securityStep_refl)
  have start: "wp (smp_start pf) (\<lambda>_ t. securityStep s t \<and> smp_state (security t) \<noteq> Idle \<and>
      (smp_state (security t) = Encrypted \<longrightarrow> smp_state (security s) = Encrypted))
    (\<lambda>_. securityStep s) (\<lambda>_ _. False) s"
    by (rule wp_weaken [OF smp_start_spec]) (use assms in \<open>auto split: if_splits\<close>)
  have others: "smp_state (security s) \<noteq> Idle \<Longrightarrow> wp (case smp_state (security s) of
          Response \<Rightarrow> smp_on_response pdu
        | PublicKey \<Rightarrow> smp_on_publicKey pf pdu
        | Confirm \<Rightarrow> smp_on_confirm pdu
        | Random \<Rightarrow> smp_on_random pf pdu
        | Check \<Rightarrow> smp_on_check pdu
        | _ \<Rightarrow> throw ''unexpected SMP packet for current security state'')
      (\<lambda>_ t. securityStep s t \<and> smp_state (security t) \<noteq> Idle \<and>
        (smp_state (security t) = Encrypted \<longrightarrow> smp_state (security s) = Encrypted))
      (\<lambda>_. securityStep s) (\<lambda>_ _. False) s"
    using assms refl
    by (cases "smp_state (security s)")
      (simp_all add: wp_throw wp_weaken [OF smp_on_response_spec] wp_weaken [OF smp_on_publicKey_spec]
        wp_weaken [OF smp_on_confirm_spec] wp_weaken [OF smp_on_random_spec]
        wp_weaken [OF smp_on_check_spec])
  show ?thesis
    using refl start others
    by (cases "smp_state (security s) = Idle") (simp_all add: smp_receive_def Let_def wp_rules)
qed


lemma core_front:
  assumes "core_inv s" and "requests s \<noteq> []"
  shows "validRequest (discoveredServices s) (hd (requests s))"
    and "length (r_packet (hd (requests s))) \<le> 498"
  using assms hd_in_set [OF assms(2)] by (auto simp: core_inv_def validRequest_def)

lemma smp_encryptionChanged_spec:
  assumes "core_inv s" and "generation s \<noteq> 0"
  shows "wp (smp_encryptionChanged pf status) (\<lambda>_ t. core_inv t \<and> (live_inv s \<longrightarrow> live_inv t))
    (\<lambda>_. core_inv) (\<lambda>_ _. False) s"
proof (cases "status = 6 \<and> smp_state (security s) = Restoring")
  case True
  define u where "u = s\<lparr>security := (security s)\<lparr>bond := None\<rparr>\<rparr>"
  have u: "core_inv u" "generation u \<noteq> 0" "smp_state (security u) = Restoring"
    "live_inv s \<Longrightarrow> live_inv u"
    using assms True by (auto simp: u_def core_inv_def smp_inv_def live_inv_def)
  have "wp (smp_pair pf) (\<lambda>_ t. securityStep u t \<and> smp_state (security t) = Response)
      (\<lambda>_. securityStep u) (\<lambda>_ _. False) u"
    by (rule smp_pair_spec) (use u in \<open>auto simp: core_inv_def\<close>)
  then have "wp (smp_pair pf) (\<lambda>_ t. core_inv t \<and> (live_inv s \<longrightarrow> live_inv t))
      (\<lambda>_. core_inv) (\<lambda>_ _. False) u"
  proof (rule wp_weaken)
    fix t assume t: "securityStep u t \<and> smp_state (security t) = Response"
    then have "core_inv t" using u by (blast intro: securityStep_core)
    moreover have "live_inv t" if "live_inv u"
      using that t \<open>core_inv t\<close> by (auto simp: live_inv_def securityStep_sel [of u t])
    ultimately show "core_inv t \<and> (live_inv s \<longrightarrow> live_inv t)" using u by blast
  qed (use u in \<open>auto intro: securityStep_core\<close>)
  then show ?thesis
    using True by (simp add: smp_encryptionChanged_def Let_def wp_rules u_def)
next
  case False
  have "requests s \<noteq> [] \<Longrightarrow> length (r_packet (hd (requests s))) \<le> 1020"
    using core_front(2) [OF assms(1)] by force
  then show ?thesis
    using assms False
    by (auto simp: smp_encryptionChanged_def Let_def wp_rules securityReady_def core_inv_def
        smp_inv_def live_inv_def zeros_def)
qed

section \<open>Discovery keeps the invariant\<close>

text \<open>Between two requests of the discovery no request is pending; each step of it ends in one
  pending request, or in a ready session.\<close>

definition idle_inv :: "virtual_peer \<Rightarrow> bool" where
  "idle_inv s \<longleftrightarrow> core_inv s \<and> generation s \<noteq> 0 \<and> \<not> ready s \<and> requests s = []"

definition progress :: "virtual_peer \<Rightarrow> virtual_peer \<Rightarrow> bool" where
  "progress s t \<longleftrightarrow> core_inv t \<and> generation t = generation s \<and>
     attSecurityPending t = attSecurityPending s \<and> security t = security s \<and>
     (ready t \<or> requests t \<noteq> []) \<and> (requests t \<noteq> [] \<longrightarrow> attBusy t \<or> attSecurityPending t)"

lemma request_internal:
  assumes "idle_inv s" and "validCompletion (discoveredServices s) c" and "\<not> isClient c"
    and "pdu \<noteq> []" "length pdu \<le> 498" "hd pdu \<noteq> 0x16"
  shows "wp (request pdu c []) (\<lambda>_. progress s) (\<lambda>_ _. False) (\<lambda>_ _. False) s"
  using assms
  by (auto simp: request_def wp_rules peer_limits idle_inv_def core_inv_def progress_def
      validRequest_def)

lemma length_discoveryRequest: "length (discoveryRequest opcode a b c) \<le> 7"
  "discoveryRequest opcode a b c \<noteq> []" "hd (discoveryRequest opcode a b c) = opcode"
  by (simp_all add: discoveryRequest_def appendLe16_def Let_def)

lemma request_discovery:
  assumes "idle_inv s" and "validCompletion (discoveredServices s) c" and "\<not> isClient c"
    and "opcode \<noteq> 0x16"
  shows "wp (request (discoveryRequest opcode a b e) c []) (\<lambda>_. progress s) (\<lambda>_ _. False) (\<lambda>_ _. False) s"
  by (rule request_internal)
    (use assms length_discoveryRequest [of opcode a b e] in \<open>auto intro: le_trans\<close>)

lemma idle_discovered [simp]: "idle_inv s \<Longrightarrow> idle_inv (s\<lparr>discoveredServices := ds\<rparr>)"
  by (auto simp: idle_inv_def core_inv_def)

lemma progress_discovered [simp]: "progress (s\<lparr>discoveredServices := ds\<rparr>) = progress s"
  by (simp add: progress_def fun_eq_iff)

lemma discoverServices_spec:
  "idle_inv s \<Longrightarrow> wp (discoverServices start) (\<lambda>_. progress s) (\<lambda>_. core_inv) (\<lambda>_ _. False) s"
  unfolding discoverServices_def by (rule wp_weaken [OF request_discovery]) auto

lemma clearSubscriptions_spec:
  assumes "idle_inv s"
  shows "wp (clearSubscriptions i j) (\<lambda>_. progress s) (\<lambda>_. core_inv) (\<lambda>_ _. False) s"
proof (cases "seekSubscription (services s) i j")
  case None
  then show ?thesis
    using assms by (auto simp: clearSubscriptions_def wp_rules idle_inv_def core_inv_def progress_def)
next
  case (Some r)
  then show ?thesis
    using assms wp_weaken [OF request_internal [OF assms, of "Unsubscribe (fst r) (fst (snd r))"]]
    by (cases r) (auto simp: clearSubscriptions_def wp_inspect appendLe16_def)
qed

lemma discoveryComplete_spec:
  assumes "idle_inv s"
  shows "wp discoveryComplete (\<lambda>_. progress s) (\<lambda>_. core_inv) (\<lambda>_ _. False) s"
proof -
  have core: "core_inv (s\<lparr>discoveredServices := ds\<rparr>)" for ds
    using assms idle_discovered idle_inv_def by blast
  moreover have "core_inv s" using assms by (simp add: idle_inv_def)
  moreover have "wp (clearSubscriptions 0 0) (\<lambda>_. progress s) (\<lambda>_. core_inv) (\<lambda>_ _. False)
      (s\<lparr>discoveredServices := []\<rparr>)"
    using clearSubscriptions_spec [of "s\<lparr>discoveredServices := []\<rparr>"] assms by simp
  ultimately show ?thesis
    by (simp add: discoveryComplete_def wp_rules split: sum.splits)
qed

definition validPosition :: "gatt_service list \<Rightarrow> nat \<Rightarrow> nat \<Rightarrow> bool" where
  "validPosition ds i j \<longleftrightarrow> i \<le> length ds \<and>
     (i < length ds \<longrightarrow> j \<le> length (s_characteristics (ds ! i)))"

lemma seekDescriptors_valid:
  "validPosition ds i j \<Longrightarrow> seekDescriptors ds i j start \<noteq> Missing"
  "validPosition ds i j \<Longrightarrow> seekDescriptors ds i j start = Found a b first finish \<Longrightarrow>
     a < length ds \<and> b < length (s_characteristics (ds ! a))"
proof (induction ds i j start rule: seekDescriptors.induct)
  case (1 ss service characteristic start)
  {
    case 1
    then show ?case
      using "1.IH"(1,3) by (subst seekDescriptors.simps) (auto simp: Let_def validPosition_def)
  next
    case 2
    then show ?case
      using "1.IH"(2,4)
      by (subst (asm) seekDescriptors.simps) (auto simp: Let_def validPosition_def split: if_splits)
  }
qed

lemma discoverDescriptors_spec:
  assumes "idle_inv s" and "validPosition (discoveredServices s) i j"
  shows "wp (discoverDescriptors i j start) (\<lambda>_. progress s) (\<lambda>_. core_inv) (\<lambda>_ _. False) s"
proof (cases "seekDescriptors (discoveredServices s) i j start")
  case Done
  then show ?thesis
    using discoveryComplete_spec [OF assms(1)] by (simp add: discoverDescriptors_def wp_rules)
next
  case Missing
  with seekDescriptors_valid(1) [OF assms(2)] show ?thesis by blast
next
  case (Found a b first finish)
  with seekDescriptors_valid(2) [OF assms(2)]
  have "validCompletion (discoveredServices s) (DescriptorsOf a b first finish)" by simp
  then show ?thesis
    using Found wp_weaken [OF request_discovery [OF assms(1)]]
    by (simp add: discoverDescriptors_def wp_rules)
qed

section \<open>Ending the link\<close>

lemma complete_0E [simp]: "complete c 0x0E [] = completeError c 0x0E"
  by (rule complete_error) simp_all

definition closingEvents :: "att_request list \<Rightarrow> peer_event list" where
  "closingEvents rs = concat (map (\<lambda>r. case r_completed r of
     Client n \<Rightarrow> [Completed n 0x0E []] | ClientMtu _ n \<Rightarrow> [Completed n 0x0E []] | _ \<Rightarrow> []) rs)"

lemma wp_failPending:
  "generation s = 0 \<Longrightarrow> wp (forEach (\<lambda>r. completeError (r_completed r) 0x0E) rs) Q E A s =
    Q () (s\<lparr>events := events s @ closingEvents rs\<rparr>)"
proof (induction rs arbitrary: s)
  case Nil
  then show ?case by (simp add: wp_rules closingEvents_def)
next
  case (Cons r rs)
  then show ?case
    by (cases "r_completed r") (simp_all add: wp_rules closingEvents_def)
qed

definition unlinked :: "virtual_peer \<Rightarrow> virtual_peer" where
  "unlinked s = s\<lparr>generation := 0, connecting := False, ready := False,
     sessionRequested := False, mtu := DefaultAttMtu, localMtu := DefaultAttMtu,
     mtuExchanged := False, attBusy := False, attSecurityPending := False,
     discoveredServices := [], security := smp_reset (security s), requests := [],
     events := events s @ closingEvents (requests s) @
       (if generation s \<noteq> 0 \<or> connecting s \<or> ready s \<or> sessionRequested s then [OnClosed] else [])\<rparr>"

lemma wp_clearLink [wp_rules]: "wp clearLink Q E A s = Q () (unlinked s)"
  by (auto simp: clearLink_def wp_rules wp_failPending unlinked_def Let_def)

section \<open>A sample peer\<close>

definition sample_peer :: virtual_peer where
  "sample_peer = (case new_peer 108 ''/tmp/ble'' True [1, 2, 3, 4, 5, 6] None of Inr s \<Rightarrow> s)"

lemma sample_initial: "initial_peer sample_peer" "\<not> tainted sample_peer" "events sample_peer = []"
proof -
  have new: "new_peer 108 ''/tmp/ble'' True [1, 2, 3, 4, 5, 6] None = Inr sample_peer"
    by (simp add: sample_peer_def new_peer_def requireR_def)
  then show "initial_peer sample_peer"
    unfolding initial_peer_def by (intro exI [of _ 108] exI [of _ "''/tmp/ble''"] exI) auto
  show "events sample_peer = []" by (simp add: sample_peer_def new_peer_def requireR_def)
  then show "\<not> tainted sample_peer" by (simp add: tainted_def)
qed

definition sample_platform :: platform where
  "sample_platform = \<lparr>aes_block = (\<lambda>k b. b), raw_public = (\<lambda>k. Some (4 # replicate 64 1)),
     raw_point = (\<lambda>p. True), raw_exchange = (\<lambda>k p. Some (replicate 32 7)),
     draw = (\<lambda>n. (Some [1], replicate 16 9))\<rparr>"

end
