(* ===== verification/PeerEvents.thy ===== *)
theory PeerEvents
  imports PeerInvariant
begin

text \<open>
  What an operation of the virtual peer may do to the two things a client of it can observe, the
  queue of requests and the log of events. The locale \<open>observation\<close> states a preorder on peers by
  what the lowest steps do to these two members; its lemmas carry the preorder to every operation
  by the structure of the programs. It is interpreted twice: with the growth of the log, which
  makes \<open>tainted\<close> stable, and with the ledger of completions of \<open>PeerLedger\<close>.
\<close>

section \<open>The contract\<close>

definition follows :: "(virtual_peer \<Rightarrow> virtual_peer \<Rightarrow> bool) \<Rightarrow> (virtual_peer, 'a) prog \<Rightarrow> bool" where
  "follows R m \<longleftrightarrow> (\<forall>s. wp m (\<lambda>_. R s) (\<lambda>_. R s) (\<lambda>_. R s) s)"

named_theorems grows \<open>structural rules of \<open>follows\<close>\<close>

lemma followsD: "follows R m \<Longrightarrow> wp m (\<lambda>_. R s) (\<lambda>_. R s) (\<lambda>_. R s) s"
  by (simp add: follows_def)

lemma prepareWrite_completed: "prepareWrite r m off = Inr r' \<Longrightarrow> r_completed r' = r_completed r"
  by (auto simp: prepareWrite_def bindR_eq_Inr)

locale observation =
  fixes R :: "virtual_peer \<Rightarrow> virtual_peer \<Rightarrow> bool"
  assumes trans: "R s t \<Longrightarrow> R t u \<Longrightarrow> R s u"
    and frame: "requests t = requests s \<Longrightarrow> events t = events s \<Longrightarrow> R s t"
    and observe: "\<forall>n e v. ev \<noteq> Completed n e v \<Longrightarrow> R s (s\<lparr>events := events s @ [ev]\<rparr>)"
    and enqueue: "\<not> isClient (r_completed r) \<Longrightarrow> R s (s\<lparr>requests := requests s @ [r]\<rparr>)"
    and rewrite: "requests s \<noteq> [] \<Longrightarrow> r_completed r = r_completed (hd (requests s)) \<Longrightarrow>
      R s (s\<lparr>requests := r # tl (requests s)\<rparr>)"
    and dequeue: "requests s \<noteq> [] \<Longrightarrow> (\<forall>n. r_completed (hd (requests s)) \<noteq> Client n) \<Longrightarrow>
      R s (s\<lparr>requests := tl (requests s)\<rparr>)"
    and settle: "requests s \<noteq> [] \<Longrightarrow> r_completed (hd (requests s)) \<in> {Client n, ClientMtu m n} \<Longrightarrow>
      R s (s\<lparr>requests := tl (requests s), events := events s @ [Completed n e v]\<rparr>)"
    and settleAll: "R s (s\<lparr>requests := [], events := events s @ closingEvents (requests s)\<rparr>)"
begin

abbreviation grows :: "(virtual_peer, 'a) prog \<Rightarrow> bool" where
  "grows m \<equiv> follows R m"

lemma refl: "R s s"
  by (rule frame) simp_all

lemma grows_basic [grows]:
  "grows skip" "grows (throw e)" "grows (abort e)" "grows (ret a)" "grows (gets f)"
  "grows (of_result r)" "grows (require b e)" "grows (element xs i)"
  by (simp_all add: follows_def wp_rules refl split: sum.splits)

lemma grows_emit [grows]:
  "grows (emit OnReady)" "grows (emit OnClosed)" "grows (emit OnAvailabilityChanged)"
  "grows (emit (ValueOffered h v b))" "grows (emit (DuplicateConnected g))"
  by (simp_all add: follows_def wp_rules observe)

lemma grows_modify [grows]:
  "(\<And>s. requests (f s) = requests s) \<Longrightarrow> (\<And>s. events (f s) = events s) \<Longrightarrow> grows (modify f)"
  by (simp add: follows_def wp_rules frame)

lemma grows_sec [grows]: "grows (sec f)"
  by (simp add: sec_def grows_modify)

lemma grows_after:
  assumes "grows m" and "R s t"
  shows "wp m (\<lambda>_. R s) (\<lambda>_. R s) (\<lambda>_. R s) t"
  by (rule wp_weaken [OF followsD [OF assms(1)]]) (rule trans [OF assms(2)], assumption)+

lemma grows_bind [grows]: "grows m \<Longrightarrow> (\<And>a. grows (f a)) \<Longrightarrow> grows (bind m f)"
  unfolding follows_def wp_bind by (blast intro: wp_weaken grows_after [unfolded follows_def])

lemma grows_block [grows]: "grows (block [])" "grows m \<Longrightarrow> grows (block ms) \<Longrightarrow> grows (block (m # ms))"
  by (simp_all add: grows_basic grows_bind)

lemma grows_if [grows]: "(b \<Longrightarrow> grows m) \<Longrightarrow> (\<not> b \<Longrightarrow> grows n) \<Longrightarrow> grows (if b then m else n)"
  by simp

lemma grows_whenever [grows]: "grows m \<Longrightarrow> grows (whenever b m)"
  by (simp add: whenever_def grows_basic)

lemma grows_inspect [grows]: "(\<And>s. grows (f s)) \<Longrightarrow> grows (inspect f)"
  by (simp add: follows_def wp_rules)

lemma grows_forEach [grows]: "(\<And>x. grows (f x)) \<Longrightarrow> grows (forEach f xs)"
  by (induction xs) (auto intro!: grows)

lemma grows_attempt [grows]: "grows m \<Longrightarrow> grows h \<Longrightarrow> grows (attempt m h)"
  unfolding follows_def wp_attempt by (blast intro: wp_weaken grows_after [unfolded follows_def])

lemma grows_socket [grows]: "grows (socket_send m g p)" "grows socket_receive"
  by (auto simp: follows_def wp_def socket_send_def zoom_def socket_receive_def frame
      split: outcome.split prod.split)

lemma grows_lower [grows]: "grows (sendL2cap c p)" "grows (requestEncryption k)" "grows sendNext"
  "grows securityReady"
proof -
  show l2: "grows (sendL2cap c p)" for c p by (simp add: sendL2cap_def grows del: block.simps)
  show "grows (requestEncryption k)" by (simp add: requestEncryption_def grows)
  show "grows sendNext" by (simp add: sendNext_def grows l2 del: block.simps)
  then show "grows securityReady" by (simp add: securityReady_def grows del: block.simps)
qed


lemma grows_option [grows]:
  "(\<And>x. grows (f x)) \<Longrightarrow> grows n \<Longrightarrow> grows (case v of None \<Rightarrow> n | Some x \<Rightarrow> f x)"
  by (cases v) simp_all

lemma grows_prod [grows]: "(\<And>a b. grows (f a b)) \<Longrightarrow> grows (case v of (a, b) \<Rightarrow> f a b)"
  by (cases v) simp

lemma grows_smp [grows]: "grows (smp_send c p)" "grows (smp_pair pf)" "grows (smp_start pf)"
  "grows (smp_on_response pdu)" "grows (smp_on_publicKey pf pdu)" "grows (smp_on_confirm pdu)"
  "grows (smp_on_random pf pdu)" "grows (smp_on_check pdu)"
proof -
  show send: "grows (smp_send c p)" for c p by (simp add: smp_send_def grows)
  show pair: "grows (smp_pair pf)"
    by (auto simp: smp_pair_def Let_def send simp del: block.simps intro!: grows)
  show "grows (smp_start pf)"
    by (auto simp: smp_start_def pair simp del: block.simps intro!: grows)
  show "grows (smp_on_response pdu)" "grows (smp_on_publicKey pf pdu)" "grows (smp_on_confirm pdu)"
    "grows (smp_on_random pf pdu)" "grows (smp_on_check pdu)"
    by (auto simp: smp_on_response_def smp_on_publicKey_def smp_on_confirm_def smp_on_random_def
        smp_on_check_def Let_def send simp del: block.simps intro!: grows)
qed

lemma grows_smp_receive [grows]: "grows (smp_receive pf pdu)"
proof -
  have "grows (case st of Response \<Rightarrow> smp_on_response pdu
        | PublicKey \<Rightarrow> smp_on_publicKey pf pdu
        | Confirm \<Rightarrow> smp_on_confirm pdu
        | Random \<Rightarrow> smp_on_random pf pdu
        | Check \<Rightarrow> smp_on_check pdu
        | _ \<Rightarrow> throw ''unexpected SMP packet for current security state'')" for st
    by (cases st) (simp_all add: grows)
  then show ?thesis
    by (auto simp: smp_receive_def Let_def simp del: block.simps intro!: grows)
qed

lemma grows_encryptionChanged [grows]: "grows (smp_encryptionChanged pf status)"
  by (auto simp: smp_encryptionChanged_def Let_def simp del: block.simps intro!: grows)

lemma grows_enqueue: "\<not> isClient (r_completed r) \<Longrightarrow> grows (modify (\<lambda>s. s\<lparr>requests := requests s @ [r]\<rparr>))"
  by (simp add: follows_def wp_rules enqueue)

lemma grows_request [grows]:
  assumes "\<not> isClient c"
  shows "grows (completeError c e)" "grows (request pdu c v)"
proof -
  show complete: "grows (completeError c e)" for e
    using assms by (cases c) (auto simp: completeError_def intro!: grows)
  have push: "grows (bind (of_result x) (\<lambda>r. block [modify (\<lambda>s. s\<lparr>requests := requests s @ [r]\<rparr>), sendNext]))"
    if "\<And>r. x = Inr r \<Longrightarrow> \<not> isClient (r_completed r)" for x
  proof (cases x)
    case (Inl e)
    then show ?thesis by (simp add: follows_def wp_rules refl)
  next
    case (Inr r)
    have "grows (block [modify (\<lambda>s. s\<lparr>requests := requests s @ [r]\<rparr>), sendNext])"
      using that [OF Inr] by (intro grows grows_enqueue)
    then show ?thesis by (simp add: Inr follows_def wp_bind wp_of_result del: block.simps)
  qed
  have completed: "r_completed r = c" if "(if v \<noteq> [] then prepareWrite
      \<lparr>r_packet = pdu, r_completed = c, r_longValue = v, r_prepareError = 0\<rparr> m 0
      else Inr \<lparr>r_packet = pdu, r_completed = c, r_longValue = v, r_prepareError = 0\<rparr>) = Inr r" for r m
    using that prepareWrite_completed by (fastforce split: if_splits)
  show "grows (request pdu c v)"
    unfolding request_def Let_def
    by (intro grows complete push) (use completed assms in blast)
qed

lemma grows_discover [grows]: "grows (discoverServices a)" "grows (clearSubscriptions i j)"
  "grows discoveryComplete" "grows (discoverDescriptors i j a)" "grows (discoverCharacteristics i a)"
  "grows (nextService i)" "grows (setCharacteristics i f)"
proof -
  show "grows (discoverServices a)" by (simp add: discoverServices_def grows)
  show clear: "grows (clearSubscriptions i j)" for i j
    by (auto simp: clearSubscriptions_def simp del: block.simps intro!: grows)
  show finished: "grows discoveryComplete"
    by (auto simp: discoveryComplete_def clear simp del: block.simps intro!: grows)
  show descriptors: "grows (discoverDescriptors i j a)" for i j a
  proof -
    have "grows (case r of Done \<Rightarrow> discoveryComplete
      | Missing \<Rightarrow> abort ''index out of range''
      | Found i j first finish \<Rightarrow>
         request (discoveryRequest 4 first finish 0) (DescriptorsOf i j first finish) [])" for r
      by (cases r) (simp_all add: finished grows)
    then show ?thesis by (simp add: discoverDescriptors_def grows)
  qed
  show chars: "grows (discoverCharacteristics i a)" for i a
    by (auto simp: discoverCharacteristics_def descriptors intro!: grows)
  show "grows (nextService i)" by (simp add: nextService_def Let_def grows chars)
  show "grows (setCharacteristics i f)" by (simp add: setCharacteristics_def grows)
qed

lemma grows_add [grows]: "grows (addServices es a)" "grows (addCharacteristics i es a)"
  "grows (addDescriptors i j b es a)"
proof -
  show "grows (addServices es a)"
    by (induction es arbitrary: a) (auto simp del: block.simps intro!: grows)
  show "grows (addCharacteristics i es a)"
    by (induction es arbitrary: a) (auto simp del: block.simps intro!: grows)
  show "grows (addDescriptors i j b es a)"
    by (induction es arbitrary: a) (auto simp del: block.simps intro!: grows)
qed

lemma grows_complete: "\<not> isClient c \<Longrightarrow> grows (complete c e v)"
  by (cases c)
    (auto simp: complete_def servicesFound_def characteristicsFound_def
      descriptorsFound_def unsubscribed_def Let_def simp del: block.simps intro!: grows)

lemma grows_clearLink [grows]: "grows clearLink"
proof -
  have "R s (unlinked s)" for s
  proof -
    let ?u = "s\<lparr>requests := [], events := events s @ closingEvents (requests s)\<rparr>"
    have "R s ?u" by (rule settleAll)
    moreover have "R ?u (if generation s \<noteq> 0 \<or> connecting s \<or> ready s \<or> sessionRequested s
        then ?u\<lparr>events := events ?u @ [OnClosed]\<rparr> else ?u)"
      using observe [of OnClosed ?u] refl by auto
    moreover have "R \<dots> (unlinked s)" by (rule frame) (simp_all add: unlinked_def)
    ultimately show ?thesis by (blast intro: trans)
  qed
  then show ?thesis by (simp add: follows_def wp_rules)
qed

lemma grows_disconnect [grows]: "grows disconnect"
  by (auto simp: disconnect_def simp del: block.simps intro!: grows)

text \<open>A response settles the request at the front.\<close>

lemma grows_completed:
  assumes "requests s \<noteq> []"
  shows "wp (att_completed e pdu) (\<lambda>_. R s) (\<lambda>_. R s) (\<lambda>_. R s) s"
proof -
  define c where "c = r_completed (hd (requests s))"
  define u where "u = s\<lparr>requests := tl (requests s), attBusy := False\<rparr>"
  have next': "wp sendNext (\<lambda>_. R s) (\<lambda>_. R s) (\<lambda>_. R s) t" if "R s t" for t
    using grows_after [OF grows_lower(3) that] .
  have settled: "R s t" if "c \<in> {Client n, ClientMtu m n}" "requests t = tl (requests s)"
      "events t = events s @ [Completed n e' v]" for n m e' v t
    using trans [OF settle [OF assms, of n m e' v] frame [of t]] that by (simp add: c_def)
  have dropped: "R s t" if "\<forall>n. c \<noteq> Client n" "requests t = tl (requests s)" "events t = events s" for t
    using trans [OF dequeue [OF assms] frame [of t]] that by (simp add: c_def)
  have "wp (complete c e v) (\<lambda>_. R s) (\<lambda>_. R s) (\<lambda>_. R s) u" for v
  proof (cases "isClient c")
    case False
    then have "R s u" by (intro dropped) (auto simp: u_def)
    then show ?thesis using grows_after [OF grows_complete [OF False]] by blast
  next
    case True
    show ?thesis
    proof (cases c)
      case (Client n)
      then show ?thesis by (auto simp: complete_def wp_rules u_def intro!: settled)
    next
      case (ClientMtu m n)
      then show ?thesis
        by (auto simp: complete_def mtuExchangedWith_def wp_rules u_def split: sum.splits
            intro: settled [of n m] dropped)
    qed (use True in simp_all)
  qed
  then have "wp (complete c e v) (\<lambda>_. wp sendNext (\<lambda>_. R s) (\<lambda>_. R s) (\<lambda>_. R s)) (\<lambda>_. R s)
      (\<lambda>_. R s) u" for v
    by (rule wp_weaken) (auto intro: next')
  then show ?thesis
    by (simp add: att_completed_def wp_rules Let_def c_def u_def del: wp_sendNext)
qed

lemma grows_replaceFront:
  assumes "requests s \<noteq> []" and "r_completed r = r_completed (hd (requests s))"
  shows "wp (block [replaceFront r, modify (\<lambda>s. s\<lparr>attBusy := False\<rparr>), sendNext])
    (\<lambda>_. R s) (\<lambda>_. R s) (\<lambda>_. R s) s"
proof -
  have "R s (s\<lparr>requests := r # tl (requests s)\<rparr>)" using assms by (rule rewrite)
  then have "R s (s\<lparr>requests := r # tl (requests s), attBusy := False\<rparr>)"
    by (rule trans) (simp add: frame)
  from grows_after [OF grows_lower(3) this] show ?thesis
    by (simp add: replaceFront_def wp_rules del: wp_sendNext)
qed

lemma grows_prepared:
  assumes "requests s \<noteq> []"
  shows "wp (att_prepared e pdu) (\<lambda>_. R s) (\<lambda>_. R s) (\<lambda>_. R s) s"
proof -
  note front = grows_replaceFront [OF assms, unfolded block.simps]
  show ?thesis
    using front refl
    by (auto simp: att_prepared_def Let_def wp_rules dest!: prepareWrite_completed
        split: sum.splits simp del: wp_sendNext)
qed

lemma grows_att [grows]: "grows (receiveAtt pf pdu)"
proof -
  have executed: "wp (att_executed e pdu) (\<lambda>_. R s) (\<lambda>_. R s) (\<lambda>_. R s) s" if "requests s \<noteq> []" for e s
    using grows_completed [OF that] refl by (simp add: att_executed_def wp_rules)
  have notification: "grows (att_notification opcode pdu)" for opcode
    by (auto simp: att_notification_def Let_def simp del: block.simps intro!: grows)
  have mtuRequest: "grows (att_mtuRequest pdu)"
    by (auto simp: att_mtuRequest_def Let_def simp del: block.simps intro!: grows)
  have secure: "grows (block [modify (\<lambda>s. s\<lparr>attBusy := False, attSecurityPending := True\<rparr>), smp_start pf])"
    by (intro grows) simp_all
  have "grows (att_response pf opcode pdu)" for opcode
    unfolding follows_def
  proof
    fix s
    show "wp (att_response pf opcode pdu) (\<lambda>_. R s) (\<lambda>_. R s) (\<lambda>_. R s) s"
    proof (cases "attBusy s \<and> requests s \<noteq> []")
      case False
      then show ?thesis using refl by (cases "attBusy s") (simp_all add: att_response_def wp_rules Let_def)
    next
      case True
      then show ?thesis
        using refl executed [of s] grows_completed [of s] grows_prepared [of s]
          followsD [OF secure, of s]
        by (simp add: att_response_def wp_rules Let_def del: wp_sendNext)
    qed
  qed
  then show ?thesis
    by (auto simp: receiveAtt_def Let_def simp del: block.simps intro!: grows notification mtuRequest)
qed

lemma grows_catalog [grows]: "grows invalidateCatalog" "grows (receiveCatalog payload)"
proof -
  show inv: "grows invalidateCatalog" by (auto simp: invalidateCatalog_def simp del: block.simps intro!: grows)
  have "grows (publish ss)" for ss
    by (auto simp: publish_def inv simp del: block.simps intro!: grows)
  then show "grows (receiveCatalog payload)"
    by (auto simp: receiveCatalog_def Let_def simp del: block.simps intro!: grows)
qed


lemma grows_advertising: "grows (advertisingField ty v)" "grows (advertisingFields data)"
  "grows (advertisingChunks data)"
proof -
  show field: "grows (advertisingField ty v)" for ty v
    by (auto simp: advertisingField_def Let_def simp del: block.simps intro!: grows)
  show adFields: "grows (advertisingFields data)" for data
  proof (induction data rule: advertisingFields.induct)
    case (1 data)
    then show ?case
      by (subst advertisingFields.simps)
        (auto simp: Let_def field simp del: block.simps intro!: grows)
  qed
  show "grows (advertisingChunks data)"
  proof (induction data rule: advertisingChunks.induct)
    case (1 data)
    then show ?case
      by (subst advertisingChunks.simps)
        (auto simp: Let_def adFields simp del: block.simps intro!: grows)
  qed
qed

lemma grows_messages [grows]: "grows (advertisement payload)" "grows connect_peer"
  "grows (receiveL2cap pf payload)" "grows (link_connected pf g payload)"
proof -
  show "grows (advertisement payload)"
    by (auto simp: advertisement_def Let_def simp del: block.simps intro!: grows grows_advertising)
  show "grows connect_peer" by (auto simp: connect_peer_def Let_def simp del: block.simps intro!: grows)
  have "grows (l2cap_signaling pdu)" for pdu
    by (auto simp: l2cap_signaling_def simp del: block.simps intro!: grows)
  then show "grows (receiveL2cap pf payload)"
    by (auto simp: receiveL2cap_def Let_def simp del: block.simps intro!: grows)
  show "grows (link_connected pf g payload)"
    by (auto simp: link_connected_def simp del: block.simps intro!: grows)
qed

lemma grows_receive [grows]: "grows (receive_message pf kind g payload)" "grows (receive_packet pf pkt)"
proof -
  show message: "grows (receive_message pf kind g payload)" for kind g payload
    by (auto simp: receive_message_def simp del: block.simps intro!: grows)
  show "grows (receive_packet pf pkt)"
    by (auto simp: receive_packet_def message simp del: block.simps intro!: grows)
qed

lemma grows_poll [grows]: "grows (poll_packets pf n)" "grows (poll_accept a)" "grows poll_deadlines"
  "grows poll_failed" "grows (poll pf a)"
proof -
  show packets: "grows (poll_packets pf n)" for n
    by (induction n) (auto simp del: block.simps intro!: grows)
  show accept: "grows (poll_accept a)"
    by (cases a) (auto simp: poll_accept_def simp del: block.simps intro!: grows)
  show deadlines: "grows poll_deadlines"
    by (auto simp: poll_deadlines_def simp del: block.simps intro!: grows)
  show failing: "grows poll_failed"
    by (auto simp: poll_failed_def simp del: block.simps intro!: grows)
  show "grows (poll pf a)"
    by (auto simp: poll_def packets accept deadlines failing simp del: block.simps intro!: grows)
qed

lemma grows_bridge [grows]: "grows (setEnabled b)" "grows reset" "grows startSession"
  by (auto simp: setEnabled_def reset_def startSession_def simp del: block.simps intro!: grows)

end

section \<open>The log\<close>

text \<open>Operations that settle or queue a client's request outside a response: the calls of the bridge.\<close>

locale observation_log = observation +
  assumes observeAny: "R s (s\<lparr>events := events s @ [ev]\<rparr>)"
    and enqueueAny: "R s (s\<lparr>requests := requests s @ [r]\<rparr>)"
begin

lemma grows_anyRequest: "grows (emit ev)" "grows (completeError c e)" "grows (request pdu c v)"
proof -
  show emit: "grows (emit ev)" for ev by (simp add: follows_def wp_rules observeAny)
  show error: "grows (completeError c e)" for c e
    by (cases c) (auto simp: completeError_def intro!: grows emit)
  have push: "grows (modify (\<lambda>s. s\<lparr>requests := requests s @ [r]\<rparr>))" for r
    by (simp add: follows_def wp_rules enqueueAny)
  show "grows (request pdu c v)"
    unfolding request_def Let_def
    by (intro grows_inspect grows_if grows_bind grows_block grows_basic grows_lower error push)
qed

lemma grows_calls: "grows (exchangeMtu m n)" "grows (read_value h i n)" "grows (write_value h v n)"
  by (auto simp: exchangeMtu_def read_value_def write_value_def Let_def complete_def
      simp del: block.simps intro!: grows grows_anyRequest)

end

interpretation log: observation_log "\<lambda>s t. prefix (events s) (events t)"
  by unfold_locales (auto intro: prefix_order.trans)

end
