(* ===== verification/PeerLive.thy ===== *)
theory PeerLive
  imports PeerInvariant PeerEvents
begin

text \<open>
  Every operation of the virtual peer keeps its invariant: the rest of the discovery, the ATT
  handlers, the messages of the controller, the poll step and the calls of the bridge.
\<close>

section \<open>Discovery\<close>

lemma discoverCharacteristics_spec:
  assumes "idle_inv s" and "i \<le> length (discoveredServices s)"
  shows "wp (discoverCharacteristics i start) (\<lambda>_. progress s) (\<lambda>_. core_inv) (\<lambda>_ _. False) s"
proof (cases "i = length (discoveredServices s)")
  case True
  have "validPosition (discoveredServices s) 0 0" by (simp add: validPosition_def)
  from discoverDescriptors_spec [OF assms(1) this] True show ?thesis
    by (simp add: discoverCharacteristics_def wp_rules)
next
  case False
  with assms(2) have "validCompletion (discoveredServices s) (CharacteristicsOf i start)" by simp
  with False assms(2) show ?thesis
    using wp_weaken [OF request_discovery [OF assms(1)]]
    by (simp add: discoverCharacteristics_def wp_rules)
qed

lemma idle_core: "idle_inv s \<Longrightarrow> core_inv s"
  by (simp add: idle_inv_def)

lemma addServices_spec:
  "idle_inv s \<Longrightarrow> wp (addServices es first) (\<lambda>_. progress s) (\<lambda>_. core_inv) (\<lambda>_ _. False) s"
proof (induction es arbitrary: first s)
  case Nil
  then show ?case by (simp add: discoverServices_spec)
next
  case (Cons entry rest)
  have new: "wp (discoverCharacteristics 0 start) (\<lambda>_. progress s) (\<lambda>_. core_inv) (\<lambda>_ _. False)
      (s\<lparr>discoveredServices := ds\<rparr>)" for ds start
    using discoverCharacteristics_spec [of "s\<lparr>discoveredServices := ds\<rparr>" 0] Cons.prems by simp
  have more: "wp (addServices rest start) (\<lambda>_. progress s) (\<lambda>_. core_inv) (\<lambda>_ _. False)
      (s\<lparr>discoveredServices := ds\<rparr>)" for ds start
    using Cons.IH [of "s\<lparr>discoveredServices := ds\<rparr>"] Cons.prems by simp
  show ?case
    by (simp add: wp_rules new more idle_core [OF Cons.prems] split: sum.splits)
qed

lemma nextService_spec:
  assumes "idle_inv s" and "i < length (discoveredServices s)"
  shows "wp (nextService i) (\<lambda>_. progress s) (\<lambda>_. core_inv) (\<lambda>_ _. False) s"
  using assms discoverCharacteristics_spec [of s "i + 1"]
  by (simp add: nextService_def wp_rules Let_def)

lemma addCharacteristics_spec:
  "idle_inv s \<Longrightarrow> i < length (discoveredServices s) \<Longrightarrow>
    wp (addCharacteristics i es first) (\<lambda>_. progress s) (\<lambda>_. core_inv) (\<lambda>_ _. False) s"
proof (induction es arbitrary: first s)
  case Nil
  then show ?case by (simp add: discoverCharacteristics_spec)
next
  case (Cons entry rest)
  define upd where "upd x = s\<lparr>discoveredServices := (discoveredServices s)[i := x]\<rparr>" for x
  have upd: "idle_inv (upd x)" "i < length (discoveredServices (upd x))" "progress (upd x) = progress s" for x
    using Cons.prems by (simp_all add: upd_def)
  have "wp (nextService i) (\<lambda>_. progress s) (\<lambda>_. core_inv) (\<lambda>_ _. False) (upd x)" for x
    using nextService_spec [OF upd(1,2)] by (simp add: upd(3))
  moreover have "wp (addCharacteristics i rest start) (\<lambda>_. progress s) (\<lambda>_. core_inv)
      (\<lambda>_ _. False) (upd x)" for start x
    using Cons.IH [OF upd(1,2)] by (simp add: upd(3))
  ultimately show ?case
    unfolding upd_def
    by (simp add: wp_rules setCharacteristics_def idle_core [OF Cons.prems(1)] split: sum.splits)
qed

lemma addDescriptors_spec:
  "idle_inv s \<Longrightarrow> i < length (discoveredServices s) \<Longrightarrow>
    j < length (s_characteristics (discoveredServices s ! i)) \<Longrightarrow>
    wp (addDescriptors i j finish es first) (\<lambda>_. progress s) (\<lambda>_. core_inv) (\<lambda>_ _. False) s"
proof (induction es arbitrary: first s)
  case Nil
  then show ?case by (simp add: discoverDescriptors_spec validPosition_def)
next
  case (Cons entry rest)
  define upd where "upd x = s\<lparr>discoveredServices := (discoveredServices s)
    [i := (discoveredServices s ! i)\<lparr>s_characteristics :=
       (s_characteristics (discoveredServices s ! i))[j := x]\<rparr>]\<rparr>" for x
  have upd: "idle_inv (upd x)" "i < length (discoveredServices (upd x))" "progress (upd x) = progress s"
    "j < length (s_characteristics (discoveredServices (upd x) ! i))" for x
    using Cons.prems by (simp_all add: upd_def)
  have "wp (discoverDescriptors i (Suc j) 0) (\<lambda>_. progress s) (\<lambda>_. core_inv) (\<lambda>_ _. False) (upd x)" for x
    using discoverDescriptors_spec [where i = i and j = "Suc j", OF upd(1) [of x]] upd(2,4) [of x]
    by (simp add: upd(3) validPosition_def)
  moreover have "wp (addDescriptors i j finish rest start) (\<lambda>_. progress s) (\<lambda>_. core_inv)
      (\<lambda>_ _. False) (upd x)" for start x
    using Cons.IH [OF upd(1,2,4)] by (simp add: upd(3))
  ultimately show ?case
    unfolding upd_def
    by (simp add: wp_rules setCharacteristics_def idle_core [OF Cons.prems(1)] split: sum.splits)
qed

lemma complete_internal:
  assumes idle: "idle_inv s" and c: "validCompletion (discoveredServices s) c" "\<not> isClient c"
  shows "wp (complete c e v) (\<lambda>_. progress s) (\<lambda>_. core_inv) (\<lambda>_ _. False) s"
proof -
  have core: "core_inv s" and g: "generation s \<noteq> 0" using idle by (simp_all add: idle_inv_def)
  show ?thesis
  proof (cases c)
    case (ServicesFrom x)
    then show ?thesis
      using core g addServices_spec [OF idle] discoverCharacteristics_spec [OF idle, of 0]
      by (simp add: complete_def servicesFound_def wp_rules Let_def)
  next
    case (CharacteristicsOf i x)
    then show ?thesis
      using core g c addCharacteristics_spec [OF idle] nextService_spec [OF idle]
      by (simp add: complete_def characteristicsFound_def wp_rules Let_def)
  next
    case (DescriptorsOf i j x y)
    then show ?thesis
      using core g c addDescriptors_spec [OF idle] discoverDescriptors_spec [OF idle, of i "Suc j"]
      by (simp add: complete_def descriptorsFound_def wp_rules Let_def validPosition_def)
  next
    case (Unsubscribe i j)
    then show ?thesis
      using core g clearSubscriptions_spec [OF idle]
      by (simp add: complete_def unsubscribed_def wp_rules)
  qed (use c in simp_all)
qed

section \<open>Ending the link\<close>

lemma smp_inv_reset [simp]: "smp_inv m \<Longrightarrow> smp_inv (smp_reset m)"
  by (simp add: smp_inv_def smp_reset_def zeros_def)

lemma live_unlinked:
  assumes "sender_ok (socket s)" and "smp_inv (security s)"
  shows "live_inv (unlinked s)"
  using assms
  by (simp add: live_inv_def core_inv_def unlinked_def DefaultAttMtu_def)
    (simp add: smp_reset_def)

definition disconnected :: "virtual_peer \<Rightarrow> virtual_peer" where
  "disconnected s = (if closing s then s
     else unlinked (s\<lparr>closing := generation s \<noteq> 0 \<or> connecting s, closingGeneration := generation s,
       socket := (if generation s \<noteq> 0 then sock_sent Disconnect (generation s) [0x13] (socket s)
         else socket s),
       setupDeadline := now s + DisconnectTimeout\<rparr>))"

lemma wp_disconnect [wp_rules]: "wp disconnect Q E A s = Q () (disconnected s)"
  by (auto simp: disconnect_def wp_rules disconnected_def)

lemma closing_update_core:
  "live_inv s \<Longrightarrow> live_inv (s\<lparr>closing := False, closingGeneration := g\<rparr>)"
  by (auto simp: live_inv_def core_inv_def)

lemma unlinked_closing: "unlinked (s\<lparr>closing := b, closingGeneration := g, socket := k, setupDeadline := d\<rparr>)
    = (unlinked (s\<lparr>socket := k\<rparr>))\<lparr>closing := b, closingGeneration := g, setupDeadline := d\<rparr>"
  by (simp add: unlinked_def)

text \<open>Whatever the peer was doing, after \<open>disconnect\<close> no session is left.\<close>

lemma live_disconnected:
  assumes "core_inv s"
  shows "live_inv (disconnected s)" and "generation (disconnected s) = 0"
    and "requests (disconnected s) = []"
proof -
  have ok: "sender_ok (socket s)" "smp_inv (security s)" using assms by (simp_all add: core_inv_def)
  show g: "generation (disconnected s) = 0"
    using assms by (auto simp: disconnected_def core_inv_def unlinked_def)
  show r: "requests (disconnected s) = []"
    using assms by (auto simp: disconnected_def core_inv_def unlinked_def)
  show "live_inv (disconnected s)"
  proof (cases "closing s")
    case True
    with g r assms show ?thesis by (auto simp: disconnected_def live_inv_def core_inv_def)
  next
    case False
    define k where "k = (if generation s \<noteq> 0 then sock_sent Disconnect (generation s) [0x13] (socket s)
        else socket s)"
    have "live_inv (unlinked (s\<lparr>socket := k\<rparr>))"
      by (rule live_unlinked) (use ok in \<open>simp_all add: k_def\<close>)
    with False show ?thesis
      by (auto simp: disconnected_def unlinked_closing k_def [symmetric] live_inv_def core_inv_def
          unlinked_def)
  qed
qed


section \<open>Long writes\<close>

lemma fragment_parts:
  "drop (Suc 0) (fragment h v off n) = appendLe16 [] h @ appendLe16 [] (of_nat off) @ take n (drop off v)"
  "drop 3 (fragment h v off n) = appendLe16 [] (of_nat off) @ take n (drop off v)"
  "hd (fragment h v off n) = 0x16" "fragment h v off n \<noteq> []"
  by (simp_all add: fragment_def appendLe16_def)

lemma length_fragment: "off + n \<le> length v \<Longrightarrow> length (fragment h v off n) = 5 + n"
  by (simp add: fragment_def)

lemma mtu_room: "23 \<le> m \<Longrightarrow> m \<le> 498 \<Longrightarrow> unat (m - 5 :: u16) = unat m - 5 \<and> 23 \<le> unat m \<and> unat m \<le> 498"
  using unat_sub [of 5 m] by (simp add: word_le_nat_alt)

lemma prepareWrite_fragment:
  assumes "readLe16 (drop 1 (r_packet r)) = Inr h" and "off < 65536"
  shows "prepareWrite r m (of_nat off) = Inr (r\<lparr>r_packet := fragment h (r_longValue r) off
    (min (unat (m - 5)) (length (r_longValue r) - off))\<rparr>)"
  using assms unat_of_nat_u16 [of off]
  by (simp add: prepareWrite_def fragment_def appendLe16_def)

lemma valid_fragment:
  assumes "off < length (r_longValue r)" and "length (r_longValue r) \<le> 512"
    and "23 \<le> (m :: u16)" "m \<le> 498" and "validCompletion ds (r_completed r)"
  shows "validRequest ds (r\<lparr>r_packet := fragment h (r_longValue r) off
    (min (unat (m - 5)) (length (r_longValue r) - off))\<rparr>)"
proof -
  define n where "n = min (unat (m - 5)) (length (r_longValue r) - off)"
  have n: "0 < n" "off + n \<le> length (r_longValue r)" "5 + n \<le> 498"
    using assms(1) mtu_room [OF assms(3,4)] by (auto simp: n_def)
  have "\<exists>h' off' n'. off' < length (r_longValue r) \<and> 0 < n' \<and> off' + n' \<le> length (r_longValue r) \<and>
      fragment h (r_longValue r) off n = fragment h' (r_longValue r) off' n'"
    using assms(1) n by blast
  then show ?thesis
    using assms n
    by (simp add: validRequest_def fragment_parts length_fragment n_def [symmetric])
qed

lemma core_replaceFront:
  assumes "core_inv s" "requests s \<noteq> []" "validRequest (discoveredServices s) r"
    "r_completed r = r_completed (hd (requests s))"
  shows "core_inv (s\<lparr>requests := r # tl (requests s)\<rparr>)"
  using assms by (cases "requests s") (auto simp: core_inv_def)

text \<open>The invariant without the in-flight flag, as the handlers of a response leave it.\<close>

lemma sendNext_live:
  assumes "core_inv s" and "generation s \<noteq> 0" and "ready s \<or> requests s \<noteq> []"
    and "attSecurityPending s \<longrightarrow> smp_state (security s) \<noteq> Idle \<and> smp_state (security s) \<noteq> Encrypted"
  shows "wp sendNext (\<lambda>_. live_inv) (\<lambda>_ _. False) (\<lambda>_ _. False) s"
proof -
  have "requests s \<noteq> [] \<Longrightarrow> length (r_packet (hd (requests s))) \<le> 498"
    using core_front [OF assms(1)] by blast
  with assms show ?thesis by (auto simp: wp_sendNext live_inv_def core_inv_def)
qed

lemma core_notBusy: "core_inv s \<Longrightarrow> core_inv (s\<lparr>attBusy := False\<rparr>)"
  by (auto simp: core_inv_def)

lemma att_prepared_spec:
  assumes live: "live_inv s" and busy: "attBusy s" and req: "requests s \<noteq> []"
    and prep: "hd (r_packet (hd (requests s))) = 0x16"
  shows "wp (att_prepared e pdu) (\<lambda>_. live_inv) (\<lambda>_. core_inv) (\<lambda>_ _. False) s"
proof -
  define r where "r = hd (requests s)"
  have core: "core_inv s" using live by (simp add: live_inv_def)
  have valid: "validRequest (discoveredServices s) r"
    using core_front(1) [OF core req] by (simp add: r_def)
  then obtain h off n where frag: "off < length (r_longValue r)" "0 < n"
      "off + n \<le> length (r_longValue r)" "r_packet r = fragment h (r_longValue r) off n"
    and len: "length (r_longValue r) \<le> 512" and c: "validCompletion (discoveredServices s) (r_completed r)"
    using prep by (auto simp: validRequest_def r_def)
  have g: "generation s \<noteq> 0" and mtu: "23 \<le> mtu s" "mtu s \<le> 498" and np: "\<not> attSecurityPending s"
    using core req busy by (auto simp: core_inv_def)
  have go: "wp sendNext (\<lambda>_. live_inv) (\<lambda>_. core_inv) (\<lambda>_ _. False)
      (s\<lparr>requests := r' # tl (requests s), attBusy := False\<rparr>)"
    if "validRequest (discoveredServices s) r'" "r_completed r' = r_completed r" for r'
  proof (rule wp_weaken [OF sendNext_live])
    show "core_inv (s\<lparr>requests := r' # tl (requests s), attBusy := False\<rparr>)"
      using core_notBusy [OF core_replaceFront [OF core req that(1)]] that(2) by (simp add: r_def)
  qed (use g np in simp_all)
  have control: "validRequest (discoveredServices s) (r\<lparr>r_packet := [0x18, b]\<rparr>)"
    "validRequest (discoveredServices s) (r\<lparr>r_prepareError := e', r_packet := [0x18, b]\<rparr>)" for b e'
    using c len by (simp_all add: validRequest_def)
  have off: "readLe16 (drop 3 (r_packet r)) = Inr (of_nat off)"
    "unat (of_nat off :: u16) = off" "length (r_packet r) = 5 + n"
    using frag len by (simp_all add: fragment_parts length_fragment unat_of_nat_u16)
  have h: "readLe16 (drop 1 (r_packet r)) = Inr h" using frag by (simp add: fragment_parts)
  have more: "validRequest (discoveredServices s) (r\<lparr>r_packet := fragment h (r_longValue r) (off + n)
      (min (unat (mtu s - 5)) (length (r_longValue r) - (off + n)))\<rparr>)"
    if "off + n < length (r_longValue r)"
    by (rule valid_fragment) (use that len mtu c in simp_all)
  have small: "off + n < 65536" using frag len by simp
  show ?thesis
    using go [OF control(1)] go [OF control(2)] go [OF more] off prepareWrite_fragment [OF h small]
    by (simp add: att_prepared_def replaceFront_def wp_rules Let_def r_def [symmetric] del: wp_sendNext)
qed

lemma core_popFront:
  assumes "core_inv s" and "requests s \<noteq> []"
  shows "core_inv (s\<lparr>requests := tl (requests s), attBusy := False\<rparr>)"
  using assms by (cases "requests s") (auto simp: core_inv_def)

lemma mtu_bounds_min: "23 \<le> (a :: u16) \<Longrightarrow> a \<le> 498 \<Longrightarrow> 23 \<le> b \<Longrightarrow> 23 \<le> min a b \<and> min a b \<le> 498"
  by (auto simp: min_def)

lemma complete_client:
  assumes core: "core_inv s" and g: "generation s \<noteq> 0" and c: "isClient c" "validCompletion ds c"
  shows "wp (complete c e v)
    (\<lambda>_ t. core_inv t \<and> t = s\<lparr>mtu := mtu t, mtuExchanged := mtuExchanged t, events := events t\<rparr>)
    (\<lambda>_. core_inv) (\<lambda>_ _. False) s"
proof (cases c)
  case (Client n)
  then show ?thesis using core by (simp add: complete_def wp_rules)
next
  case (ClientMtu m n)
  have mtu: "core_inv (s\<lparr>mtu := min (mtu s) b, mtuExchanged := True\<rparr>)"
      "core_inv (s\<lparr>mtu := min m b, mtuExchanged := True\<rparr>)" if "23 \<le> b" for b
    using core c ClientMtu mtu_bounds_min [of "mtu s" b] mtu_bounds_min [of m b] that
    by (simp_all add: core_inv_def)
  show ?thesis
    using core ClientMtu mtu
    by (simp add: complete_def mtuExchangedWith_def wp_rules DefaultAttMtu_def split: sum.splits)
qed (use c in simp_all)

lemma att_completed_spec:
  assumes live: "live_inv s" and req: "requests s \<noteq> []"
  shows "wp (att_completed e pdu) (\<lambda>_. live_inv) (\<lambda>_. core_inv) (\<lambda>_ _. False) s"
proof -
  define c where "c = r_completed (hd (requests s))"
  define v where "v = (if e \<noteq> 0 then [] else drop 1 pdu)"
  define u where "u = s\<lparr>requests := tl (requests s), attBusy := False\<rparr>"
  have core: "core_inv s" using live by (simp add: live_inv_def)
  then have g: "generation u \<noteq> 0" using req by (auto simp: u_def core_inv_def)
  have u: "core_inv u" unfolding u_def by (rule core_popFront [OF core req])
  have valid: "validCompletion (discoveredServices s) c"
    using core_front(1) [OF core req] by (simp add: c_def validRequest_def)
  have smp: "attSecurityPending u \<longrightarrow> smp_state (security u) \<noteq> Idle \<and> smp_state (security u) \<noteq> Encrypted"
    using live by (simp add: u_def live_inv_def)
  have "wp (complete c e v) (\<lambda>_. wp sendNext (\<lambda>_. live_inv) (\<lambda>_. core_inv) (\<lambda>_ _. False))
      (\<lambda>_. core_inv) (\<lambda>_ _. False) u"
  proof (cases "ready s")
    case True
    then have "isClient c" using core req by (auto simp: core_inv_def c_def)
    from complete_client [OF u g this valid, of e v] show ?thesis
    proof (rule wp_weaken)
      fix t
      assume t: "core_inv t \<and> t = u\<lparr>mtu := mtu t, mtuExchanged := mtuExchanged t, events := events t\<rparr>"
      then obtain a b es where eq: "t = u\<lparr>mtu := a, mtuExchanged := b, events := es\<rparr>" by blast
      have "core_inv t" using t by blast
      moreover have "generation t \<noteq> 0" "ready t \<or> requests t \<noteq> []"
        "attSecurityPending t \<longrightarrow> smp_state (security t) \<noteq> Idle \<and> smp_state (security t) \<noteq> Encrypted"
        using True g smp by (simp_all add: eq u_def)
      ultimately have "wp sendNext (\<lambda>_. live_inv) (\<lambda>_ _. False) (\<lambda>_ _. False) t"
        by (rule sendNext_live)
      then show "wp sendNext (\<lambda>_. live_inv) (\<lambda>_. core_inv) (\<lambda>_ _. False) t"
        by (rule wp_weaken) simp_all
    qed simp_all
  next
    case False
    then have idle: "idle_inv u" using u g core by (auto simp: idle_inv_def u_def core_inv_def)
    have "\<not> isClient c" using False core req by (auto simp: core_inv_def c_def)
    moreover have "validCompletion (discoveredServices u) c" using valid by (simp add: u_def)
    ultimately have "wp (complete c e v) (\<lambda>_. progress u) (\<lambda>_. core_inv) (\<lambda>_ _. False) u"
      using complete_internal [OF idle] by blast
    then show ?thesis
    proof (rule wp_weaken)
      fix t assume p: "progress u t"
      have "wp sendNext (\<lambda>_. live_inv) (\<lambda>_ _. False) (\<lambda>_ _. False) t"
        by (rule sendNext_live) (use p smp g in \<open>auto simp: progress_def\<close>)
      then show "wp sendNext (\<lambda>_. live_inv) (\<lambda>_. core_inv) (\<lambda>_ _. False) t"
        by (rule wp_weaken) simp_all
    qed simp_all
  qed
  then show ?thesis
    unfolding att_completed_def
    by (simp add: wp_rules Let_def c_def v_def u_def cong: if_cong del: wp_sendNext)
qed


section \<open>Incoming PDUs\<close>

text \<open>The contract of every handler between two calls of the bridge.\<close>

definition handles :: "(virtual_peer \<Rightarrow> bool) \<Rightarrow> peer_op \<Rightarrow> bool" where
  "handles P m \<longleftrightarrow> (\<forall>s. live_inv s \<and> P s \<longrightarrow>
     wp m (\<lambda>_. live_inv) (\<lambda>_. core_inv) (\<lambda>_ _. False) s)"

lemma handlesI:
  "(\<And>s. live_inv s \<Longrightarrow> core_inv s \<Longrightarrow> P s \<Longrightarrow>
     wp m (\<lambda>_. live_inv) (\<lambda>_. core_inv) (\<lambda>_ _. False) s) \<Longrightarrow> handles P m"
  by (simp add: handles_def live_inv_def)

lemma handlesD:
  "handles P m \<Longrightarrow> live_inv s \<Longrightarrow> P s \<Longrightarrow> wp m (\<lambda>_. live_inv) (\<lambda>_. core_inv) (\<lambda>_ _. False) s"
  by (simp add: handles_def)

abbreviation linked :: "virtual_peer \<Rightarrow> bool" where
  "linked s \<equiv> generation s \<noteq> 0"

lemma live_core: "live_inv s \<Longrightarrow> core_inv s"
  by (simp add: live_inv_def)

lemma live_l2capSent [simp]: "live_inv s \<Longrightarrow> live_inv (l2capSent c p s)"
  by (simp add: live_inv_def)

lemma live_sent [simp]: "live_inv s \<Longrightarrow> live_inv (s\<lparr>socket := sock_sent m g p (socket s)\<rparr>)"
  by (simp add: live_inv_def)

lemma live_events [simp]: "live_inv (s\<lparr>events := es\<rparr>) = live_inv s"
  by (simp add: live_inv_def)

lemma att_notification_handles: "handles linked (att_notification opcode pdu)"
proof (rule handlesI)
  fix s assume s: "live_inv s" "core_inv s" "linked s"
  have "live_inv (disconnected (s\<lparr>events := es\<rparr>))" for es
    by (rule live_disconnected(1)) (simp add: s)
  then show "wp (att_notification opcode pdu) (\<lambda>_. live_inv) (\<lambda>_. core_inv) (\<lambda>_ _. False) s"
    using s by (simp add: att_notification_def wp_rules Let_def split: sum.splits option.splits)
qed

lemma live_mtu: "live_inv s \<Longrightarrow> 23 \<le> a \<Longrightarrow> a \<le> 498 \<Longrightarrow> live_inv (s\<lparr>mtu := a, mtuExchanged := b\<rparr>)"
  by (simp add: live_inv_def core_inv_def)

lemma att_mtuRequest_handles: "handles linked (att_mtuRequest pdu)"
proof (rule handlesI)
  fix s assume s: "live_inv s" "core_inv s" "linked s"
  have "live_inv ((l2capSent 4 p s)\<lparr>mtu := min (localMtu s) theirs, mtuExchanged := True\<rparr>)"
    if "23 \<le> theirs" for p theirs
    by (rule live_mtu) (use s that in \<open>auto simp: core_inv_def min_def\<close>)
  then show "wp (att_mtuRequest pdu) (\<lambda>_. live_inv) (\<lambda>_. core_inv) (\<lambda>_ _. False) s"
    using s by (simp add: att_mtuRequest_def wp_rules DefaultAttMtu_def split: sum.splits)
qed

lemma secure_handles:
  assumes live: "live_inv s" and busy: "attBusy s" "requests s \<noteq> []" and enc: "\<not> encrypted (security s)"
  shows "wp (smp_start pf) (\<lambda>_. live_inv) (\<lambda>_. core_inv) (\<lambda>_ _. False)
    (s\<lparr>attBusy := False, attSecurityPending := True\<rparr>)"
proof -
  define u where "u = s\<lparr>attBusy := False, attSecurityPending := True\<rparr>"
  have core: "core_inv u" and g: "generation u \<noteq> 0"
    using live busy by (auto simp: u_def live_inv_def core_inv_def)
  have "wp (smp_start pf) (\<lambda>_. live_inv) (\<lambda>_. core_inv) (\<lambda>_ _. False) u"
  proof (rule wp_weaken [OF smp_start_spec])
    fix t
    assume t: "securityStep u t \<and> smp_state (security t) =
      (if smp_state (security u) \<noteq> Idle then smp_state (security u)
       else if bond (security u) = None then Response else Restoring)"
    then have "core_inv t" using core g by (blast intro: securityStep_core)
    then show "live_inv t"
      using t busy enc unfolding live_inv_def
      by (auto simp: securityStep_sel [of u t] u_def encrypted_def)
  next
    show "sender_ok (socket u)" "smp_inv (security u)" using core by (simp_all add: core_inv_def)
    show "generation u \<noteq> 0" by (rule g)
  qed (auto intro: securityStep_core [OF core g])
  then show ?thesis by (simp add: u_def)
qed

lemma att_response_handles: "handles linked (att_response pf opcode pdu)"
proof (rule handlesI)
  fix s assume s: "live_inv s" "core_inv s" "linked s"
  show "wp (att_response pf opcode pdu) (\<lambda>_. live_inv) (\<lambda>_. core_inv) (\<lambda>_ _. False) s"
  proof (cases "attBusy s \<and> requests s \<noteq> []")
    case False
    then show ?thesis using s by (cases "attBusy s") (simp_all add: att_response_def wp_rules)
  next
    case True
    note completed = att_completed_spec [OF s(1) conjunct2 [OF True]]
    have executed: "wp (att_executed e pdu) (\<lambda>_. live_inv) (\<lambda>_. core_inv) (\<lambda>_ _. False) s" for e
      using s completed by (simp add: att_executed_def wp_rules)
    show ?thesis
      using True s completed executed att_prepared_spec [OF s(1)] secure_handles [OF s(1)]
      by (simp add: att_response_def wp_rules Let_def del: wp_sendNext)
  qed
qed

lemma receiveAtt_handles: "handles linked (receiveAtt pf pdu)"
proof (rule handlesI)
  fix s assume s: "live_inv s" "core_inv s" "linked s"
  show "wp (receiveAtt pf pdu) (\<lambda>_. live_inv) (\<lambda>_. core_inv) (\<lambda>_ _. False) s"
    using s handlesD [OF att_notification_handles s(1,3)] handlesD [OF att_mtuRequest_handles s(1,3)]
      handlesD [OF att_response_handles s(1,3)]
    by (simp add: receiveAtt_def wp_rules Let_def del: wp_sendNext)
qed

lemma smp_receive_handles: "handles linked (smp_receive pf pdu)"
proof (rule handlesI)
  fix s assume s: "live_inv s" "core_inv s" "linked s"
  then have ok: "smp_ok s" by (simp add: core_inv_def)
  show "wp (smp_receive pf pdu) (\<lambda>_. live_inv) (\<lambda>_. core_inv) (\<lambda>_ _. False) s"
  proof (rule wp_weaken [OF smp_receive_spec [OF ok]])
    fix t
    assume t: "securityStep s t \<and> smp_state (security t) \<noteq> Idle \<and>
      (smp_state (security t) = Encrypted \<longrightarrow> smp_state (security s) = Encrypted)"
    then have "core_inv t" using s by (blast intro: securityStep_core)
    then show "live_inv t" using s t unfolding live_inv_def by (auto simp: securityStep_sel [of s t])
  qed (use s in \<open>auto intro: securityStep_core\<close>)
qed

lemma receiveL2cap_handles: "handles linked (receiveL2cap pf payload)"
proof (rule handlesI)
  fix s assume s: "live_inv s" "core_inv s" "linked s"
  have sig: "wp (l2cap_signaling pdu) (\<lambda>_. live_inv) (\<lambda>_. core_inv) (\<lambda>_ _. False) s" for pdu
    using s by (simp add: l2cap_signaling_def wp_rules split: sum.splits)
  show "wp (receiveL2cap pf payload) (\<lambda>_. live_inv) (\<lambda>_. core_inv) (\<lambda>_ _. False) s"
    using s sig handlesD [OF receiveAtt_handles s(1,3)] handlesD [OF smp_receive_handles s(1,3)]
    by (simp add: receiveL2cap_def wp_rules Let_def split: sum.splits)
qed

section \<open>Messages of the controller\<close>

abbreviation anytime :: "virtual_peer \<Rightarrow> bool" where
  "anytime s \<equiv> True"

lemma live_invalidated:
  "live_inv s \<Longrightarrow> requests s = [] \<Longrightarrow> live_inv (s\<lparr>catalogReady := a, catalogReceiving := b,
     catalogBuffer := c, services := d, discoveredServices := []\<rparr>)"
  by (simp add: live_inv_def core_inv_def)

lemma wp_invalidateCatalog [wp_rules]:
  "wp invalidateCatalog Q E A s = Q () (s\<lparr>catalogReady := False, catalogReceiving := False,
     catalogBuffer := [], services := [], discoveredServices := [],
     events := events s @ [OnAvailabilityChanged]\<rparr>)"
  by (simp add: invalidateCatalog_def wp_rules)

lemma live_catalog [simp]:
  "live_inv (s\<lparr>catalogBuffer := c\<rparr>) = live_inv s" "live_inv (s\<lparr>catalogReceiving := b\<rparr>) = live_inv s"
  "live_inv (s\<lparr>catalogReady := b\<rparr>) = live_inv s" "live_inv (s\<lparr>services := ss\<rparr>) = live_inv s"
  "live_inv (s\<lparr>advertisementData := d\<rparr>) = live_inv s" "live_inv (s\<lparr>peerName := n\<rparr>) = live_inv s"
  "live_inv (s\<lparr>advertisedServices := u\<rparr>) = live_inv s" "live_inv (s\<lparr>advertising := b\<rparr>) = live_inv s"
  "live_inv (s\<lparr>remoteAddress := d\<rparr>) = live_inv s" "live_inv (s\<lparr>failed := b\<rparr>) = live_inv s"
  "live_inv (s\<lparr>transport := b\<rparr>) = live_inv s"
  "live_inv (s\<lparr>sessionRequested := b\<rparr>) = live_inv s"
  by (simp_all add: live_inv_def core_inv_def)

lemma live_cleared [simp]:
  "requests s = [] \<Longrightarrow> live_inv (s\<lparr>discoveredServices := ds\<rparr>) = live_inv s"
  by (simp add: live_inv_def core_inv_def)

lemmas live_restart = live_disconnected(1,3)

lemma core_catalog [simp]:
  "core_inv (s\<lparr>catalogBuffer := c\<rparr>) = core_inv s" "core_inv (s\<lparr>catalogReceiving := b\<rparr>) = core_inv s"
  "core_inv (s\<lparr>advertisementData := d\<rparr>) = core_inv s" "core_inv (s\<lparr>peerName := n\<rparr>) = core_inv s"
  "core_inv (s\<lparr>advertisedServices := u\<rparr>) = core_inv s" "core_inv (s\<lparr>advertising := b\<rparr>) = core_inv s"
  "core_inv (s\<lparr>remoteAddress := d\<rparr>) = core_inv s" "core_inv (s\<lparr>failed := b\<rparr>) = core_inv s"
  "core_inv (s\<lparr>transport := b\<rparr>) = core_inv s"
  by (simp_all add: core_inv_def)

lemma receiveCatalog_handles: "handles anytime (receiveCatalog payload)"
proof (rule handlesI)
  fix s assume s: "live_inv s" "core_inv s"
  have publish: "wp (publish ss) (\<lambda>_. live_inv) (\<lambda>_. core_inv) (\<lambda>_ _. False) u" if "live_inv u" for ss u
  proof -
    have "core_inv u" using that by (rule live_core)
    then show ?thesis
      using that by (auto simp: publish_def wp_rules live_restart)
  qed
  show "wp (receiveCatalog payload) (\<lambda>_. live_inv) (\<lambda>_. core_inv) (\<lambda>_ _. False) s"
    using s publish by (auto simp: receiveCatalog_def wp_rules Let_def split: sum.splits)
qed


text \<open>The data of an advertisement is parsed into members the invariant does not mention.\<close>

definition quiet :: "peer_op \<Rightarrow> bool" where
  "quiet m \<longleftrightarrow> (\<forall>s. live_inv s \<longrightarrow> wp m (\<lambda>_. live_inv) (\<lambda>_. core_inv) (\<lambda>_ _. False) s)"

lemma quiet_skip: "quiet skip"
  by (simp add: quiet_def wp_rules)

lemma quiet_require: "quiet (require b e)"
  by (simp add: quiet_def wp_rules live_core)

lemma quiet_block: "quiet (block [])" "quiet m \<Longrightarrow> quiet (block ms) \<Longrightarrow> quiet (block (m # ms))"
proof -
  show "quiet (block [])" by (simp add: quiet_skip)
  assume "quiet m" "quiet (block ms)"
  then show "quiet (block (m # ms))"
    unfolding quiet_def wp_block_Cons by (blast intro: wp_weaken)
qed

lemma quiet_forEach: "(\<And>x. quiet (f x)) \<Longrightarrow> quiet (forEach f xs)"
proof (induction xs)
  case (Cons x xs)
  then have "quiet (f x)" "quiet (forEach f xs)" by simp_all
  then show ?case
    unfolding quiet_def forEach.simps wp_bind by (blast intro: wp_weaken)
qed (simp add: quiet_skip)

lemma quiet_advertisingField: "quiet (advertisingField type value)"
proof -
  have "quiet (forEach (\<lambda>entry. bind (of_result (uuidString entry)) (\<lambda>uuid.
      modify (\<lambda>s. s\<lparr>advertisedServices := advertisedServices s @ [uuid]\<rparr>))) es)" for es
    by (rule quiet_forEach) (simp add: quiet_def wp_rules live_core split: sum.splits)
  then show ?thesis
    by (simp add: advertisingField_def quiet_def wp_rules live_core Let_def)
qed

lemma quiet_advertisingFields: "quiet (advertisingFields data)"
proof (induction data rule: advertisingFields.induct)
  case (1 data)
  show ?case
  proof (cases "data = [] \<or> unat (hd data) = 0")
    case True
    then show ?thesis by (subst advertisingFields.simps) (auto simp: quiet_skip Let_def)
  next
    case False
    then have "quiet (advertisingFields (drop (unat (hd data)) (tl data)))"
      using 1 by blast
    with False show ?thesis
      by (subst advertisingFields.simps)
        (auto simp: Let_def simp del: block.simps intro!: quiet_block quiet_require quiet_advertisingField)
  qed
qed

lemma quiet_advertisingChunks: "quiet (advertisingChunks data)"
proof (induction data rule: advertisingChunks.induct)
  case (1 data)
  show ?case
  proof (cases "data = []")
    case True
    then show ?thesis by (subst advertisingChunks.simps) (simp add: quiet_skip)
  next
    case False
    then have "quiet (advertisingChunks (drop (unat (hd data)) (tl data)))"
      using 1 by blast
    with False show ?thesis
      by (subst advertisingChunks.simps)
        (auto simp: Let_def simp del: block.simps intro!: quiet_block quiet_require quiet_advertisingFields)
  qed
qed

lemma advertisement_handles: "handles anytime (advertisement payload)"
proof (rule handlesI)
  fix s assume s: "live_inv s" "core_inv s"
  have chunks: "wp (advertisingChunks d) (\<lambda>_. live_inv) (\<lambda>_. core_inv) (\<lambda>_ _. False) u"
    if "live_inv u" for d u
    using that quiet_advertisingChunks by (simp add: quiet_def)
  show "wp (advertisement payload) (\<lambda>_. live_inv) (\<lambda>_. core_inv) (\<lambda>_ _. False) s"
    using s by (auto simp: advertisement_def wp_rules Let_def live_restart chunks
        split: sum.splits)
qed

section \<open>Links\<close>

lemma connect_peer_handles: "handles (\<lambda>s. generation s = 0 \<and> \<not> closing s \<and> enabled s) connect_peer"
proof (rule handlesI)
  fix s assume s: "live_inv s" "core_inv s" "generation s = 0 \<and> \<not> closing s \<and> enabled s"
  have "live_inv (s\<lparr>discoveredServices := [], connecting := True, setupDeadline := d, socket := k\<rparr>)"
    if "sender_ok k" for d k
    using s that by (auto simp: live_inv_def core_inv_def)
  then show "wp connect_peer (\<lambda>_. live_inv) (\<lambda>_. core_inv) (\<lambda>_ _. False) s"
    using s by (simp add: connect_peer_def wp_rules Let_def appendLe16_def core_inv_def)
qed

lemma progress_live:
  assumes "progress s t" and "generation s \<noteq> 0"
    and "attSecurityPending s \<longrightarrow> smp_state (security s) \<noteq> Idle \<and> smp_state (security s) \<noteq> Encrypted"
  shows "live_inv t"
  using assms by (auto simp: progress_def live_inv_def)

lemma link_connected_spec:
  assumes live: "live_inv s" and core: "core_inv s"
  shows "wp (link_connected pf g payload) (\<lambda>_ t. live_inv t \<or> tainted t) (\<lambda>_. core_inv)
    (\<lambda>_ _. False) s"
proof (cases "g \<noteq> 0 \<and> length payload = 13 \<and> connecting s \<and> enabled s")
  case False
  have "live_inv (s\<lparr>closing := True, closingGeneration := g, socket := k\<rparr>)"
    if "sender_ok k" "generation s = 0" "\<not> connecting s" for k
    using live that by (auto simp: live_inv_def core_inv_def)
  moreover have "sender_ok (socket s)" "connecting s \<longrightarrow> enabled s"
    using core by (simp_all add: core_inv_def)
  ultimately show ?thesis
    using False core by (auto simp: link_connected_def wp_rules tainted_def)
next
  case True
  define u where "u = s\<lparr>generation := g, connecting := False, advertising := False\<rparr>"
  have u: "idle_inv u" using True live by (auto simp: u_def idle_inv_def live_inv_def core_inv_def)
  have quietSmp: "smp_state (security u) = Idle" "\<not> attSecurityPending u"
    using True core by (auto simp: u_def core_inv_def)
  have go: "wp (discoverServices 1) (\<lambda>_ t. live_inv t \<or> tainted t) (\<lambda>_. core_inv) (\<lambda>_ _. False) v"
    if v: "idle_inv v" and smp: "attSecurityPending v \<longrightarrow> smp_state (security v) \<noteq> Idle \<and>
      smp_state (security v) \<noteq> Encrypted" for v
    by (rule wp_weaken [OF discoverServices_spec [OF v]])
      (use progress_live [OF _ _ smp] v in \<open>auto simp: idle_inv_def\<close>)
  show ?thesis
  proof (cases "bonded (security s)")
    case False
    then show ?thesis
      using True go [OF u] quietSmp by (simp add: link_connected_def wp_rules u_def)
  next
    case bonded: True
    define v where "v = u\<lparr>attSecurityPending := True, attDeadline := setupDeadline s\<rparr>"
    have v: "idle_inv v" using u by (auto simp: v_def idle_inv_def core_inv_def)
    have "wp (smp_start pf) (\<lambda>_. wp (discoverServices 1) (\<lambda>_ t. live_inv t \<or> tainted t) (\<lambda>_. core_inv)
        (\<lambda>_ _. False)) (\<lambda>_. core_inv) (\<lambda>_ _. False) v"
    proof (rule wp_weaken [OF smp_start_spec])
      fix t
      assume t: "securityStep v t \<and> smp_state (security t) =
        (if smp_state (security v) \<noteq> Idle then smp_state (security v)
         else if bond (security v) = None then Response else Restoring)"
      have "core_inv t" using v t by (auto simp: idle_inv_def intro: securityStep_core)
      then have "idle_inv t" using v t by (auto simp: idle_inv_def securityStep_sel [of v t])
      moreover have "smp_state (security t) = Restoring"
        using t bonded quietSmp by (simp add: v_def u_def bonded_def)
      ultimately show "wp (discoverServices 1) (\<lambda>_ t. live_inv t \<or> tainted t) (\<lambda>_. core_inv)
          (\<lambda>_ _. False) t" by (simp add: go)
    next
      have core_v: "core_inv v" and gv: "generation v \<noteq> 0" using v by (simp_all add: idle_inv_def)
      then show "sender_ok (socket v)" "smp_inv (security v)" "generation v \<noteq> 0"
        by (simp_all add: core_inv_def)
      show "core_inv t" if "securityStep v t" for t using core_v gv that by (rule securityStep_core)
    qed simp
    with True bonded show ?thesis by (simp add: link_connected_def wp_rules u_def v_def)
  qed
qed


lemma unlinked_live [simp]: "core_inv s \<Longrightarrow> \<not> closing s \<Longrightarrow> live_inv (unlinked s)"
  by (rule live_unlinked) (simp_all add: core_inv_def)

lemma unlinked_sel [simp]: "requests (unlinked s) = []" "generation (unlinked s) = 0"
  "socket (unlinked s) = socket s"
  by (simp_all add: unlinked_def)

lemma live_reset: "core_inv s \<Longrightarrow> live_inv (unlinked (s\<lparr>failed := a, advertising := b,
    closing := False, closingGeneration := g\<rparr>))"
  by (rule live_unlinked) (simp_all add: core_inv_def)

text \<open>One message of the controller, on a live peer.\<close>

lemma receive_message_spec:
  assumes live: "live_inv s"
  shows "wp (receive_message pf kind g payload) (\<lambda>_ t. live_inv t \<or> tainted t) (\<lambda>_. core_inv)
    (\<lambda>_ _. False) s"
proof -
  have core: "core_inv s" using live by (rule live_core)
  have weaken: "wp m (\<lambda>_ t. live_inv t \<or> tainted t) (\<lambda>_. core_inv) (\<lambda>_ _. False) s"
    if "wp m (\<lambda>_. live_inv) (\<lambda>_. core_inv) (\<lambda>_ _. False) s" for m :: peer_op
    using that by (rule wp_weaken) simp_all
  note catalog = weaken [OF handlesD [OF receiveCatalog_handles live TrueI]]
    and advert = weaken [OF handlesD [OF advertisement_handles live TrueI]]
  have l2cap: "linked s \<Longrightarrow> wp (receiveL2cap pf payload) (\<lambda>_ t. live_inv t \<or> tainted t) (\<lambda>_. core_inv)
      (\<lambda>_ _. False) s"
    using handlesD [OF receiveL2cap_handles live] by (blast intro: weaken)
  have enc: "linked s \<Longrightarrow> wp (smp_encryptionChanged pf b) (\<lambda>_ t. live_inv t \<or> tainted t)
      (\<lambda>_. core_inv) (\<lambda>_ _. False) s" for b
    by (rule wp_weaken [OF smp_encryptionChanged_spec [OF core]]) (use live in auto)
  have closed: "live_inv (s\<lparr>closing := False, closingGeneration := 0\<rparr>)"
    using live by (rule closing_update_core)
  have linked_open: "linked s \<Longrightarrow> \<not> closing s" using core by (auto simp: core_inv_def)
  show ?thesis
    using live core catalog advert l2cap enc closed link_connected_spec [OF live core] live_reset [OF core]
      linked_open
    by (simp add: receive_message_def wp_rules)
qed

lemma receive_packet_spec:
  assumes "live_inv s"
  shows "wp (receive_packet pf pkt) (\<lambda>_ t. live_inv t \<or> tainted t) (\<lambda>_. core_inv) (\<lambda>_ _. False) s"
  using receive_message_spec [OF assms] live_core [OF assms] by (simp add: receive_packet_def wp_rules)


section \<open>Polling\<close>

abbreviation logs :: "(virtual_peer, 'a) prog \<Rightarrow> bool" where
  "logs m \<equiv> follows (\<lambda>s t. prefix (events s) (events t)) m"

lemma tainted_grows:
  assumes "logs m" and "tainted s"
  shows "wp m (\<lambda>_. tainted) (\<lambda>_. tainted) (\<lambda>_. tainted) s"
  by (rule wp_weaken [OF followsD [OF assms(1)]])
    (use assms(2) set_mono_prefix in \<open>fastforce simp: tainted_def\<close>)+

text \<open>The contract of the parts of \<open>poll\<close>.\<close>

definition polls :: "peer_op \<Rightarrow> bool" where
  "polls m \<longleftrightarrow> (\<forall>s. live_inv s \<longrightarrow> wp m (\<lambda>_ t. live_inv t \<or> tainted t)
     (\<lambda>_ t. core_inv t \<or> tainted t) (\<lambda>_. tainted) s)"

lemma polls_seq:
  assumes "polls m" and "polls n" and "logs n"
  shows "polls (bind m (\<lambda>_. n))"
proof -
  have "wp n (\<lambda>_ u. live_inv u \<or> tainted u) (\<lambda>_ u. core_inv u \<or> tainted u) (\<lambda>_. tainted) t"
    if "live_inv t \<or> tainted t" for t
    using that
  proof
    assume "tainted t"
    from tainted_grows [OF assms(3) this] show ?thesis by (rule wp_weaken) simp_all
  qed (use assms(2) in \<open>simp add: polls_def\<close>)
  then show ?thesis
    using assms(1) unfolding polls_def wp_bind by (blast intro: wp_weaken)
qed

lemma polls_block:
  assumes "polls m" and "polls (block ms)" and "logs (block ms)"
  shows "polls (block (m # ms))"
  using polls_seq [OF assms] by simp

lemma polls_handles:
  "(\<And>s. live_inv s \<Longrightarrow> wp m (\<lambda>_ t. live_inv t \<or> tainted t) (\<lambda>_. core_inv) (\<lambda>_ _. False) s) \<Longrightarrow> polls m"
  unfolding polls_def by (blast intro: wp_weaken)

lemma polls_skip: "polls skip" "polls (block [])"
  by (simp_all add: polls_def wp_rules)

lemma live_socket: "live_inv s \<Longrightarrow> sender_ok k \<Longrightarrow> live_inv (s\<lparr>socket := k\<rparr>)"
  by (simp add: live_inv_def)

lemma live_sender: "live_inv s \<Longrightarrow> sender_ok (socket s)"
  by (simp add: live_inv_def core_inv_def)

lemma poll_packets_polls: "polls (poll_packets pf n)"
proof (induction n)
  case 0
  then show ?case by (simp add: polls_skip)
next
  case (Suc n)
  have handle: "polls (block [receive_packet pf pkt, poll_packets pf n])" for pkt
    by (rule polls_block [OF polls_handles [OF receive_packet_spec] polls_block [OF Suc]])
      (simp_all add: polls_skip grows del: poll_packets.simps block.simps)
  have "wp (poll_packets pf (Suc n)) (\<lambda>_ t. live_inv t \<or> tainted t)
     (\<lambda>_ t. core_inv t \<or> tainted t) (\<lambda>_. tainted) s" if live: "live_inv s" for s
  proof -
    obtain pkt k where r: "sock_receive (socket s) = (pkt, k)" by fastforce
    have "sender_ok k" using sender_ok_receive [OF live_sender [OF live]] by (simp add: r)
    then have u: "live_inv (s\<lparr>socket := k\<rparr>)" by (rule live_socket [OF live])
    have recv: "wp socket_receive Q E A s = Q pkt (s\<lparr>socket := k\<rparr>)" for Q E A
      by (simp add: socket_receive_def wp_def r)
    show ?thesis
      using u handle [of pkt] by (simp add: wp_bind recv polls_def wp_if wp_skip)
  qed
  then show ?case by (simp add: polls_def)
qed

lemma live_opened: "core_inv s \<Longrightarrow> requests s = [] \<Longrightarrow> live_inv s \<Longrightarrow> sender_ok k \<Longrightarrow>
    live_inv (s\<lparr>socket := k, transport := True, failed := False\<rparr>)"
  by (simp add: live_inv_def)

lemma poll_accept_polls: "freshConnection a \<Longrightarrow> polls (poll_accept a)"
proof (rule polls_handles)
  fix s assume fresh: "freshConnection a" and live: "live_inv s"
  have core: "core_inv s" using live by (rule live_core)
  have ok: "sender_ok (sock_adopt k c (socket s))" if "a = Accepted k c" for k c
    using fresh live_sender [OF live] that by (simp add: sender_ok_adopt)
  have closed: "live_inv (unlinked (s\<lparr>transport := False, advertising := False, closing := False,
      closingGeneration := 0\<rparr>))"
    by (rule live_unlinked) (use core in \<open>simp_all add: core_inv_def\<close>)
  from closed have "live_inv ((unlinked (s\<lparr>transport := False, advertising := False, closing := False,
      closingGeneration := 0\<rparr>))\<lparr>catalogReady := False, catalogReceiving := False,
      catalogBuffer := [], services := [], discoveredServices := []\<rparr>)"
    by simp
  note core_closed = live_core [OF this]
  show "wp (poll_accept a) (\<lambda>_ t. live_inv t \<or> tainted t) (\<lambda>_. core_inv) (\<lambda>_ _. False) s"
  proof (cases a)
    case (Accepted k c)
    then show ?thesis
      using live closed ok live_socket [OF live]
      by (simp add: poll_accept_def wp_rules live_socket)
  qed (use live core closed core_closed in \<open>simp_all add: poll_accept_def wp_rules\<close>)
qed

lemma poll_deadlines_polls: "polls poll_deadlines"
proof (rule polls_handles)
  fix s assume live: "live_inv s"
  have core: "core_inv s" using live by (rule live_core)
  show "wp poll_deadlines (\<lambda>_ t. live_inv t \<or> tainted t) (\<lambda>_. core_inv) (\<lambda>_ _. False) s"
  proof (cases "enabled s \<and> \<not> failed s \<and> advertising s \<and> generation s = 0 \<and> \<not> connecting s
      \<and> \<not> closing s \<and> sessionRequested s")
    case False
    then show ?thesis using live core by (auto simp: poll_deadlines_def wp_rules)
  next
    case True
    then have "wp connect_peer (\<lambda>_. live_inv) (\<lambda>_. core_inv) (\<lambda>_ _. False) s"
      using handlesD [OF connect_peer_handles live] by blast
    with True show ?thesis
      unfolding poll_deadlines_def
      by (simp add: wp_rules) (erule wp_weaken, simp_all add: wp_rules live_core)
  qed
qed

text \<open>After the catch-all handler the peer is live again, with no session left.\<close>

lemma poll_failed_spec:
  assumes core: "core_inv s"
  shows "wp poll_failed (\<lambda>_ t. live_inv t \<and> generation t = 0 \<and> requests t = [] \<and> failed t)
    (\<lambda>_ _. False) (\<lambda>_ _. False) s"
proof -
  have ok: "sender_ok (socket s)" using core by (simp add: core_inv_def)
  define u where "u = (if closing s \<and> setupDeadline s \<le> now s
    then s\<lparr>failed := True, socket := sock_close (socket s), closing := False, closingGeneration := 0\<rparr>
    else s\<lparr>failed := True\<rparr>)"
  have "core_inv u" using core ok sender_ok_close [OF ok] by (auto simp: u_def core_inv_def)
  note u = live_disconnected [OF this]
  have "failed (disconnected u)" by (simp add: disconnected_def unlinked_def u_def)
  with u show ?thesis
    by (cases "closing s \<and> setupDeadline s \<le> now s") (auto simp: poll_failed_def wp_rules u_def)
qed

theorem poll_keeps_invariant:
  assumes "live_inv s" and "freshConnection a"
  shows "case poll pf a s of
      Normal u t \<Rightarrow> live_inv t \<or> tainted t
    | Thrown e t \<Rightarrow> False
    | Aborted e t \<Rightarrow> tainted t"
proof -
  define body where "body = block [
     poll_accept a,
     modify (\<lambda>s. s\<lparr>socket := sock_flush (socket s)\<rparr>),
     poll_packets pf MaxPacketsPerPoll,
     poll_deadlines]"
  have flush: "polls (modify (\<lambda>s. s\<lparr>socket := sock_flush (socket s)\<rparr>))"
    by (rule polls_handles) (simp add: wp_modify live_socket sender_ok_flush live_sender)
  have "polls body"
    unfolding body_def
    by (intro polls_block poll_accept_polls assms(2) flush poll_packets_polls poll_deadlines_polls grows)
      (simp_all add: polls_skip)
  then have b: "wp body (\<lambda>_ t. live_inv t \<or> tainted t) (\<lambda>_ t. core_inv t \<or> tainted t) (\<lambda>_. tainted) s"
    using assms(1) by (simp add: polls_def)
  have "wp poll_failed (\<lambda>_ t. live_inv t \<or> tainted t) (\<lambda>_ _. False) (\<lambda>_. tainted) t"
    if "core_inv t \<or> tainted t" for t
  proof (rule disjE)
    assume "core_inv t"
    from poll_failed_spec [OF this] show ?thesis by (rule wp_weaken) simp_all
  next
    assume "tainted t"
    have "wp poll_failed (\<lambda>_ _. True) (\<lambda>_ _. False) (\<lambda>_ _. False) t"
      by (simp add: poll_failed_def wp_rules)
    from wp_conj [OF this tainted_grows [OF _ \<open>tainted t\<close>]] show ?thesis
      by (auto intro: wp_weaken grows)
  qed (rule that)
  then have "wp (poll pf a) (\<lambda>_ t. live_inv t \<or> tainted t) (\<lambda>_ _. False) (\<lambda>_. tainted) s"
    unfolding poll_def wp_attempt body_def [symmetric] using b by (blast intro: wp_weaken)
  then show ?thesis by (cases "poll pf a s") (simp_all add: wp_def)
qed


section \<open>Calls of the bridge\<close>

text \<open>The calls of the bridge never throw and never abort.\<close>

definition serves :: "(virtual_peer, 'a) prog \<Rightarrow> bool" where
  "serves m \<longleftrightarrow> (\<forall>s. live_inv s \<longrightarrow> wp m (\<lambda>_. live_inv) (\<lambda>_ _. False) (\<lambda>_ _. False) s)"

lemma serves_disconnect: "serves disconnect"
  by (simp add: serves_def wp_rules live_restart live_core)

lemma disconnected_enabled:
  "disconnected (s\<lparr>enabled := b\<rparr>) = (disconnected s)\<lparr>enabled := b\<rparr>"
  by (simp add: disconnected_def unlinked_def)

lemma disconnected_connecting: "core_inv s \<Longrightarrow> \<not> connecting (disconnected s)"
  by (auto simp: disconnected_def core_inv_def unlinked_def)

lemma serves_setEnabled: "serves (setEnabled b)"
  unfolding serves_def
proof (intro allI impI)
  fix s assume live: "live_inv s"
  have core: "core_inv s" using live by (rule live_core)
  have off: "live_inv ((disconnected s)\<lparr>enabled := b\<rparr>)" for b
    using live_disconnected(1) [OF core] disconnected_connecting [OF core]
    by (auto simp: live_inv_def core_inv_def)
  have on: "live_inv (s\<lparr>enabled := True\<rparr>)"
    using live by (auto simp: live_inv_def core_inv_def)
  show "wp (setEnabled b) (\<lambda>_. live_inv) (\<lambda>_ _. False) (\<lambda>_ _. False) s"
    using off on live by (simp add: setEnabled_def wp_rules disconnected_enabled)
qed

lemma serves_reset: "serves reset"
  unfolding serves_def
proof (intro allI impI)
  fix s assume live: "live_inv s"
  then have "sender_ok (socket s)" "smp_inv (security s)" by (simp_all add: live_inv_def core_inv_def)
  then have "live_inv (unlinked (s\<lparr>socket := sock_close (socket s), transport := False,
      advertising := False, failed := False, closing := False, closingGeneration := 0\<rparr>))"
    by (intro live_unlinked) (simp_all add: sender_ok_close)
  then show "wp reset (\<lambda>_. live_inv) (\<lambda>_ _. False) (\<lambda>_ _. False) s"
    by (simp add: reset_def wp_rules)
qed

lemma serves_startSession: "serves startSession"
  by (simp add: serves_def startSession_def wp_rules)

text \<open>A client request enters the queue, is sent at once, or is refused.\<close>

lemma request_client:
  assumes live: "live_inv s" and ready: "ready s" and c: "isClient c" "validCompletion (discoveredServices s) c"
    and pdu: "pdu \<noteq> []" "length pdu \<le> 498" "hd pdu \<noteq> 0x16" and v: "length v \<le> 512"
    and handle: "v \<noteq> [] \<Longrightarrow> readLe16 (drop 1 pdu) = Inr h"
  shows "wp (request pdu c v) (\<lambda>_. live_inv) (\<lambda>_ _. False) (\<lambda>_ _. False) s"
proof -
  have core: "core_inv s" using live by (rule live_core)
  then have g: "generation s \<noteq> 0" and mtu: "23 \<le> mtu s" "mtu s \<le> 498"
    using ready by (auto simp: core_inv_def)
  define r where "r = \<lparr>r_packet = pdu, r_completed = c, r_longValue = v, r_prepareError = 0\<rparr>"
  define r' where "r' = (if v = [] then r
    else r\<lparr>r_packet := fragment h v 0 (min (unat (mtu s - 5)) (length v))\<rparr>)"
  have valid: "validRequest (discoveredServices s) r'"
    using valid_fragment [of 0 r "mtu s" "discoveredServices s" h] c pdu v mtu
    by (auto simp: r'_def r_def validRequest_def)
  have prep: "(if v \<noteq> [] then prepareWrite r (mtu s) 0 else Inr r) = Inr r'"
    using prepareWrite_fragment [of r h 0 "mtu s"] handle by (simp add: r_def r'_def)
  have r': "r_completed r' = c" by (simp add: r'_def r_def)
  have live': "wp sendNext (\<lambda>_. live_inv) (\<lambda>_ _. False) (\<lambda>_ _. False) (s\<lparr>requests := requests s @ [r']\<rparr>)"
    if "length (requests s) < 64"
    by (rule sendNext_live)
      (use core ready g valid r' c that live in \<open>auto simp: core_inv_def live_inv_def\<close>)
  show ?thesis
  proof (cases "length (requests s) < 64")
    case True
    have "wp (request pdu c v) Q E A s = wp sendNext Q E A (s\<lparr>requests := requests s @ [r']\<rparr>)" for Q E A
      using g True prep
      by (simp add: request_def wp_rules Let_def r_def [symmetric] peer_limits del: wp_sendNext)
    with live' [OF True] show ?thesis by simp
  next
    case False
    with g live c(1) show ?thesis
      by (cases c) (simp_all add: request_def wp_rules peer_limits)
  qed
qed

lemma serves_exchangeMtu: "serves (exchangeMtu m n)"
  unfolding serves_def
proof (intro allI impI)
  fix s assume live: "live_inv s"
  have "wp (request (appendLe16 [2] m) (ClientMtu m n) []) (\<lambda>_. live_inv) (\<lambda>_ _. False) (\<lambda>_ _. False)
      (s\<lparr>localMtu := m\<rparr>)" if "ready s" "23 \<le> m" "m \<le> 498"
    by (rule request_client)
      (use live that in \<open>auto simp: live_inv_def core_inv_def appendLe16_def\<close>)
  then show "wp (exchangeMtu m n) (\<lambda>_. live_inv) (\<lambda>_ _. False) (\<lambda>_ _. False) s"
    using live by (auto simp: exchangeMtu_def complete_def wp_rules peer_limits)
qed

lemma serves_read: "serves (read_value h i n)"
  unfolding serves_def
proof (intro allI impI)
  fix s assume live: "live_inv s"
  have "wp (request pdu (Client n) []) (\<lambda>_. live_inv) (\<lambda>_ _. False) (\<lambda>_ _. False) s"
    if "ready s" "pdu \<noteq> []" "length pdu \<le> 498" "hd pdu \<noteq> 0x16" for pdu
    by (rule request_client) (use live that in auto)
  then show "wp (read_value h i n) (\<lambda>_. live_inv) (\<lambda>_ _. False) (\<lambda>_ _. False) s"
    using live by (simp add: read_value_def complete_def wp_rules Let_def appendLe16_def)
qed

lemma serves_write: "serves (write_value h v n)"
  unfolding serves_def
proof (intro allI impI)
  fix s assume live: "live_inv s"
  then have mtu: "23 \<le> mtu s" "mtu s \<le> 498" by (simp_all add: live_inv_def core_inv_def)
  then have room: "unat (mtu s - 3) = unat (mtu s) - 3" "unat (mtu s) \<le> 498" "23 \<le> unat (mtu s)"
    using unat_sub [of 3 "mtu s"] by (simp_all add: word_le_nat_alt)
  have long: "wp (request (appendLe16 [0x12] h) (Client n) v) (\<lambda>_. live_inv) (\<lambda>_ _. False) (\<lambda>_ _. False) s"
    if "ready s" "length v \<le> 512"
    by (rule request_client [where h = h]) (use live that in \<open>auto simp: appendLe16_def\<close>)
  have short: "wp (request (appendLe16 [0x12] h @ v) (Client n) []) (\<lambda>_. live_inv) (\<lambda>_ _. False)
      (\<lambda>_ _. False) s" if "ready s" "length v \<le> unat (mtu s - 3)"
    by (rule request_client) (use live that room in \<open>auto simp: appendLe16_def\<close>)
  show "wp (write_value h v n) (\<lambda>_. live_inv) (\<lambda>_ _. False) (\<lambda>_ _. False) s"
    using live long short by (auto simp: write_value_def complete_def wp_rules Let_def MaxAttValueSize_def not_less)
qed

lemmas serves_all = serves_disconnect serves_setEnabled serves_reset serves_startSession
  serves_exchangeMtu serves_read serves_write

lemma servesD: "serves m \<Longrightarrow> live_inv s \<Longrightarrow> \<exists>a t. m s = Normal a t \<and> live_inv t"
  by (cases "m s") (auto simp: serves_def wp_def dest: spec [of _ s])

end
