(* ===== verification/PeerLedger.thy ===== *)
theory PeerLedger
  imports PeerLive
begin

text \<open>
  The peer as a state machine, and the accounting of completions: every number a client handed to
  \<open>exchangeMtu\<close>, \<open>read\<close> or \<open>write\<close> is either still queued or has been reported exactly once.
\<close>

section \<open>Reachable peers\<close>

definition peer_inv :: "virtual_peer \<Rightarrow> bool" where
  "peer_inv s \<longleftrightarrow> live_inv s \<or> tainted s"

lemma initial_live: "initial_peer s \<Longrightarrow> live_inv s"
  by (auto simp: initial_peer_def new_peer_def requireR_def live_inv_def core_inv_def new_session_def
      smp_inv_def zeros_def DefaultAttMtu_def split: if_splits)

lemma tainted_Normal:
  assumes "logs m" and "tainted s" and "m s = Normal a t"
  shows "tainted t"
  using wp_Normal [OF assms(3) tainted_grows [OF assms(1,2)]] .

lemma serves_peer_inv: "serves m \<Longrightarrow> logs m \<Longrightarrow> peer_inv s \<Longrightarrow> m s = Normal a t \<Longrightarrow> peer_inv t"
  using servesD [of m s] tainted_Normal [of m s a t] by (auto simp: peer_inv_def)

lemma peer_step_inv:
  assumes inv: "peer_inv s" and step: "peer_step pf s t"
  shows "peer_inv t"
  using step
proof (cases rule: peer_step.cases)
  case (step_poll a u)
  have logs: "logs (poll pf a)" by (simp add: grows)
  show ?thesis
  proof (cases "tainted s")
    case True
    from tainted_Normal [OF logs True step_poll(2)] show ?thesis by (simp add: peer_inv_def)
  next
    case False
    with inv have "live_inv s" by (simp add: peer_inv_def)
    from poll_keeps_invariant [OF this step_poll(1), of pf] step_poll(2) show ?thesis
      by (simp add: peer_inv_def)
  qed
next
  case (step_time time)
  with inv show ?thesis by (auto simp: peer_inv_def tainted_def live_inv_def core_inv_def)
next
  case (step_kernel k)
  then have "sender_ok (socket s) \<Longrightarrow> sender_ok ((socket s)\<lparr>sock_kernel := k\<rparr>)"
    by (simp add: sender_ok_kernel)
  with inv step_kernel show ?thesis by (auto simp: peer_inv_def tainted_def live_inv_def core_inv_def)
next
  case (step_enable b u)
  show ?thesis by (rule serves_peer_inv [OF serves_setEnabled _ inv step_enable]) (simp add: grows)
next
  case (step_reset u)
  show ?thesis by (rule serves_peer_inv [OF serves_reset _ inv step_reset]) (simp add: grows)
next
  case (step_disconnect u)
  show ?thesis by (rule serves_peer_inv [OF serves_disconnect _ inv step_disconnect]) (simp add: grows)
next
  case (step_start b)
  show ?thesis by (rule serves_peer_inv [OF serves_startSession _ inv step_start]) (simp add: grows)
next
  case (step_exchangeMtu m n u)
  show ?thesis by (rule serves_peer_inv [OF serves_exchangeMtu log.grows_calls(1) inv step_exchangeMtu])
next
  case (step_read h i n u)
  show ?thesis by (rule serves_peer_inv [OF serves_read log.grows_calls(2) inv step_read])
next
  case (step_write h v n u)
  show ?thesis by (rule serves_peer_inv [OF serves_write log.grows_calls(3) inv step_write])
qed

interpretation peer_machine: state_machine initial_peer "peer_step pf" peer_inv for pf
proof
  show "peer_inv s" if "initial_peer s" for s using initial_live [OF that] by (simp add: peer_inv_def)
  show "peer_inv t" if "peer_inv s" "peer_step pf s t" for s t using that by (rule peer_step_inv)
qed


section \<open>The ledger of completions\<close>

fun clientIds :: "completion \<Rightarrow> nat list" where
  "clientIds (Client n) = [n]"
| "clientIds (ClientMtu m n) = [n]"
| "clientIds _ = []"

fun eventIds :: "peer_event \<Rightarrow> nat list" where
  "eventIds (Completed n e v) = [n]"
| "eventIds _ = []"

definition pendingIds :: "virtual_peer \<Rightarrow> nat multiset" where
  "pendingIds s = mset (concat (map (\<lambda>r. clientIds (r_completed r)) (requests s)))"

definition completedIds :: "virtual_peer \<Rightarrow> nat multiset" where
  "completedIds s = mset (concat (map eventIds (events s)))"

definition ledger :: "virtual_peer \<Rightarrow> nat multiset" where
  "ledger s = pendingIds s + completedIds s"

definition negotiating :: "virtual_peer \<Rightarrow> bool" where
  "negotiating s \<longleftrightarrow> (\<exists>r \<in> set (requests s). \<exists>m n. r_completed r = ClientMtu m n)"

lemmas ledger_defs = ledger_def pendingIds_def completedIds_def

definition accounts :: "virtual_peer \<Rightarrow> virtual_peer \<Rightarrow> bool" where
  "accounts s t \<longleftrightarrow> ledger t \<subseteq># ledger s \<and> (\<not> negotiating s \<longrightarrow> ledger t = ledger s \<and> \<not> negotiating t)"

lemma eventIds_other: "\<forall>n e v. ev \<noteq> Completed n e v \<Longrightarrow> eventIds ev = []"
  by (cases ev) auto

lemma ids_internal: "\<not> isClient c \<Longrightarrow> clientIds c = []"
  by (cases c) auto

lemma closingEvents_ids: "concat (map eventIds (closingEvents rs)) = concat (map (\<lambda>r. clientIds (r_completed r)) rs)"
proof (induction rs)
  case (Cons r rs)
  then show ?case by (cases "r_completed r") (simp_all add: closingEvents_def)
qed (simp add: closingEvents_def)

interpretation ledger: observation accounts
proof
  fix s t u :: virtual_peer
  show "accounts s u" if "accounts s t" "accounts t u"
    using that by (auto simp: accounts_def)
  show "accounts s t" if "requests t = requests s" "events t = events s"
    using that by (simp add: accounts_def ledger_defs negotiating_def)
next
  fix s :: virtual_peer and ev assume "\<forall>n e v. ev \<noteq> Completed n e v"
  then show "accounts s (s\<lparr>events := events s @ [ev]\<rparr>)"
    by (simp add: accounts_def ledger_defs negotiating_def eventIds_other)
next
  fix s :: virtual_peer and r :: att_request assume r: "\<not> isClient (r_completed r)"
  then have "r_completed r \<noteq> ClientMtu m n" for m n by auto
  with r show "accounts s (s\<lparr>requests := requests s @ [r]\<rparr>)"
    by (simp add: accounts_def ledger_defs negotiating_def ids_internal)
next
  fix s :: virtual_peer and r :: att_request
  assume "requests s \<noteq> []" "r_completed r = r_completed (hd (requests s))"
  then show "accounts s (s\<lparr>requests := r # tl (requests s)\<rparr>)"
    by (cases "requests s") (auto simp: accounts_def ledger_defs negotiating_def)
next
  fix s :: virtual_peer assume ne: "requests s \<noteq> []" and no: "\<forall>n. r_completed (hd (requests s)) \<noteq> Client n"
  then obtain r rs where rs: "requests s = r # rs" by (cases "requests s") auto
  show "accounts s (s\<lparr>requests := tl (requests s)\<rparr>)"
    using no rs by (cases "r_completed r") (auto simp: accounts_def ledger_defs negotiating_def)
next
  fix s :: virtual_peer and n m e v assume "requests s \<noteq> []" and "r_completed (hd (requests s)) \<in> {Client n, ClientMtu m n}"
  then show "accounts s (s\<lparr>requests := tl (requests s), events := events s @ [Completed n e v]\<rparr>)"
    by (cases "requests s") (auto simp: accounts_def ledger_defs negotiating_def)
next
  fix s :: virtual_peer
  show "accounts s (s\<lparr>requests := [], events := events s @ closingEvents (requests s)\<rparr>)"
    by (simp add: accounts_def ledger_defs negotiating_def closingEvents_ids add.commute)
qed

lemma accounts_Normal:
  assumes "m s = Normal a t" and "follows accounts m"
  shows "accounts s t"
  using wp_Normal [OF assms(1) followsD [OF assms(2)]] .

text \<open>The calls of the bridge enter one number.\<close>

lemma request_ledger:
  assumes "isClient c"
  shows "wp (request pdu c v) (\<lambda>_ t. ledger t = ledger s + mset (clientIds c)) (\<lambda>_ _. True) (\<lambda>_ _. True) s"
proof -
  have "r_completed r = c" if "(if v \<noteq> [] then prepareWrite
      \<lparr>r_packet = pdu, r_completed = c, r_longValue = v, r_prepareError = 0\<rparr> m 0
      else Inr \<lparr>r_packet = pdu, r_completed = c, r_longValue = v, r_prepareError = 0\<rparr>) = Inr r" for r m
    using that prepareWrite_completed by (fastforce split: if_splits)
  then show ?thesis
    using assms
    by (cases c) (auto simp: request_def wp_rules Let_def ledger_defs l2capSent_def split: sum.splits)
qed

lemma ledger_localMtu [simp]: "ledger (s\<lparr>localMtu := m\<rparr>) = ledger s"
  by (simp add: ledger_defs)

lemma emit_completed_ledger: "ledger (s\<lparr>events := events s @ [Completed n e v]\<rparr>) = ledger s + {#n#}"
  by (simp add: ledger_defs)

lemma call_ledger:
  "exchangeMtu m n s = Normal u t \<Longrightarrow> ledger t = ledger s + {#n#}"
  "read_value h i n s = Normal u t \<Longrightarrow> ledger t = ledger s + {#n#}"
  "write_value h v n s = Normal u t \<Longrightarrow> ledger t = ledger s + {#n#}"
proof -
  have "wp (exchangeMtu m n) (\<lambda>_ t. ledger t = ledger s + {#n#}) (\<lambda>_ _. True) (\<lambda>_ _. True) s"
    using request_ledger [of "ClientMtu m n" _ "[]" "s\<lparr>localMtu := m\<rparr>"]
    by (simp add: exchangeMtu_def wp_rules complete_def emit_completed_ledger)
  then show "exchangeMtu m n s = Normal u t \<Longrightarrow> ledger t = ledger s + {#n#}" by (simp add: wp_def)
  have "wp (read_value h i n) (\<lambda>_ t. ledger t = ledger s + {#n#}) (\<lambda>_ _. True) (\<lambda>_ _. True) s"
    using request_ledger [of "Client n" _ "[]" s]
    by (simp add: read_value_def wp_rules complete_def Let_def emit_completed_ledger)
  then show "read_value h i n s = Normal u t \<Longrightarrow> ledger t = ledger s + {#n#}" by (simp add: wp_def)
  have "wp (write_value h v n) (\<lambda>_ t. ledger t = ledger s + {#n#}) (\<lambda>_ _. True) (\<lambda>_ _. True) s"
    using request_ledger [of "Client n"]
    by (simp add: write_value_def wp_rules complete_def Let_def emit_completed_ledger)
  then show "write_value h v n s = Normal u t \<Longrightarrow> ledger t = ledger s + {#n#}" by (simp add: wp_def)
qed

text \<open>A run of the peer with the numbers its client has handed in.\<close>

inductive client_run :: "platform \<Rightarrow> nat multiset \<Rightarrow> virtual_peer \<Rightarrow> bool" for pf where
  run_start: "initial_peer s \<Longrightarrow> client_run pf {#} s"
| run_poll: "client_run pf I s \<Longrightarrow> freshConnection a \<Longrightarrow> poll pf a s = Normal u t \<Longrightarrow> client_run pf I t"
| run_enable: "client_run pf I s \<Longrightarrow> setEnabled b s = Normal u t \<Longrightarrow> client_run pf I t"
| run_reset: "client_run pf I s \<Longrightarrow> reset s = Normal u t \<Longrightarrow> client_run pf I t"
| run_disconnect: "client_run pf I s \<Longrightarrow> disconnect s = Normal u t \<Longrightarrow> client_run pf I t"
| run_session: "client_run pf I s \<Longrightarrow> startSession s = Normal b t \<Longrightarrow> client_run pf I t"
| run_time: "client_run pf I s \<Longrightarrow> now s \<le> time \<Longrightarrow> client_run pf I (s\<lparr>now := time\<rparr>)"
| run_kernel: "client_run pf I s \<Longrightarrow> client_run pf I (s\<lparr>socket := (socket s)\<lparr>sock_kernel := k\<rparr>\<rparr>)"
| run_mtu: "client_run pf I s \<Longrightarrow> exchangeMtu m n s = Normal u t \<Longrightarrow> client_run pf (add_mset n I) t"
| run_read: "client_run pf I s \<Longrightarrow> read_value h i n s = Normal u t \<Longrightarrow> client_run pf (add_mset n I) t"
| run_write: "client_run pf I s \<Longrightarrow> write_value h v n s = Normal u t \<Longrightarrow> client_run pf (add_mset n I) t"

lemma client_run_ledger: "client_run pf I s \<Longrightarrow> ledger s \<subseteq># I"
proof (induction rule: client_run.induct)
  case (run_start s)
  then show ?case
    by (auto simp: initial_peer_def new_peer_def requireR_def ledger_defs split: if_splits)
next
  case (run_poll I s a u t)
  have "accounts s t" by (rule accounts_Normal [where m = "poll pf a", OF run_poll(3)]) (simp add: grows)
  with run_poll show ?case by (auto simp: accounts_def)
next
  case (run_enable I s b u t)
  have "accounts s t" by (rule accounts_Normal [where m = "setEnabled b", OF run_enable(2)]) (simp add: grows)
  with run_enable show ?case by (auto simp: accounts_def)
next
  case (run_reset I s u t)
  have "accounts s t" by (rule accounts_Normal [where m = "reset", OF run_reset(2)]) (simp add: grows)
  with run_reset show ?case by (auto simp: accounts_def)
next
  case (run_disconnect I s u t)
  have "accounts s t" by (rule accounts_Normal [where m = "disconnect", OF run_disconnect(2)]) (simp add: grows)
  with run_disconnect show ?case by (auto simp: accounts_def)
next
  case (run_session I s b t)
  have "accounts s t" by (rule accounts_Normal [where m = "startSession", OF run_session(2)]) (simp add: grows)
  with run_session show ?case by (auto simp: accounts_def)
next
  case (run_time I s time)
  then show ?case by (simp add: ledger_defs)
next
  case (run_kernel I s k)
  then show ?case by (simp add: ledger_defs)
qed (auto dest: call_ledger)

end
