(* ===== verification/PeerProperties.thy ===== *)
theory PeerProperties
  imports PeerLedger
begin

text \<open>
  The properties of the virtual peer as a whole: it never stalls and never fails towards its
  client, and it accounts for every request.
\<close>

section \<open>Liveness of a session\<close>

lemma serves_returns: "serves (m :: peer_op) \<Longrightarrow> live_inv s \<Longrightarrow> \<exists>t. m s = Normal () t"
  using servesD [of m s] by auto





section \<open>Accounting\<close>



text \<open>C7: A poll loses no completion unless an MTU negotiation is queued: what was queued is still
  queued or has been reported, whatever the guest sent and even when the session was closed.\<close>

theorem poll_accounts_for_requests:
  assumes "poll pf a s = Normal u t" and "\<not> negotiating s"
  shows "pendingIds t + completedIds t = pendingIds s + completedIds s"
proof -
  have "accounts s t" by (rule accounts_Normal [where m = "poll pf a", OF assms(1)]) (simp add: grows)
  with assms(2) show ?thesis by (simp add: accounts_def ledger_def)
qed


text \<open>A peer with a ready session, whose client waits for an answer.\<close>

definition reading :: "completion \<Rightarrow> bytes \<Rightarrow> virtual_peer" where
  "reading c pdu = sample_peer\<lparr>socket := new_socket\<lparr>fd := True\<rparr>, transport := True,
     generation := 1, ready := True, attBusy := True, attDeadline := 5, now := 9,
     requests := [\<lparr>r_packet = pdu, r_completed = c, r_longValue = [], r_prepareError = 0\<rparr>]\<rparr>"

lemma reading_live:
  assumes "isClient c" "validCompletion [] c" "pdu \<noteq> []" "length pdu \<le> 498" "hd pdu \<noteq> 0x16"
  shows "live_inv (reading c pdu)"
  using assms
  by (simp add: reading_def sample_peer_def new_peer_def requireR_def live_inv_def core_inv_def
      new_session_def smp_inv_def zeros_def DefaultAttMtu_def validRequest_def sender_ok_def
      new_socket_def no_kernel_def)

theorem poll_accounts_for_requests_witness:
  "\<exists>t. poll sample_platform AcceptNone (reading (Client 4) [0x0A, 3, 0]) = Normal () t \<and>
     pendingIds t + completedIds t = {#4#}"
proof -
  define s where "s = reading (Client 4) [0x0A, 3, 0]"
  have live: "live_inv s" unfolding s_def by (rule reading_live) simp_all
  have "\<not> negotiating s" "pendingIds s + completedIds s = {#4#}" "events s = []"
    by (simp_all add: s_def reading_def negotiating_def ledger_defs sample_initial)
  moreover have "\<exists>t. poll sample_platform AcceptNone s = Normal () t"
    unfolding s_def
    by (simp add: reading_def poll_def sample_peer_def new_peer_def requireR_def poll_accept_def inspect_def
        attempt_def bind_def whenever_def new_socket_def skip_def modify_def no_kernel_def sock_flush_def
        flush_loop.simps MaxPacketsPerPoll_def eval_nat_numeral socket_receive_def sock_receive_def
        receive_loop.simps frameSize_def MaxMessageBytes_def poll_deadlines_def require_def throw_def
        poll_failed_def disconnect_def socket_send_def zoom_def sock_send_def MaxQueuedMessages_def
        clearLink_def Let_def complete_def emit_def invalidateCatalog_def)
  ultimately show ?thesis
    using poll_accounts_for_requests [of sample_platform AcceptNone s] unfolding s_def by metis
qed

section \<open>Timeouts\<close>

text \<open>C13: A transaction whose deadline has passed is settled by the next poll that finds no packet: the
  session is closed, the controller is told to disconnect, no request stays queued, and every
  queued completion of the client has been reported with error \<open>0x0E\<close>.\<close>

theorem poll_settles_timed_out:
  assumes live: "live_inv s" and fd: "fd (socket s)"
    and none: "fst (sock_receive (sock_flush (socket s))) = []"
    and waiting: "attBusy s \<or> attSecurityPending s" and late: "attDeadline s \<le> now s"
  shows "\<exists>t. poll pf a s = Normal () t \<and> generation t = 0 \<and> closing t \<and> requests t = [] \<and> failed t \<and>
    completedIds t = completedIds s + pendingIds s \<and>
    (\<forall>n \<in># pendingIds s. Completed n 0x0E [] \<in> set (events t))"
proof -
  obtain k where k: "sock_receive (sock_flush (socket s)) = ([], k)"
    using none by (metis prod.collapse)
  have core: "core_inv s" using live by (rule live_core)
  have g: "generation s \<noteq> 0" and open': "\<not> closing s" "\<not> connecting s"
    using core waiting by (auto simp: core_inv_def)
  define u where "u = s\<lparr>socket := k\<rparr>"
  define t where "t = (disconnected (u\<lparr>failed := True\<rparr>))\<lparr>catalogReady := False, catalogReceiving := False,
    catalogBuffer := [], services := [], discoveredServices := [],
    events := events (disconnected (u\<lparr>failed := True\<rparr>)) @ [OnAvailabilityChanged]\<rparr>"
  have recv: "wp socket_receive Q E A v = Q [] (v\<lparr>socket := k\<rparr>)" if "socket v = sock_flush (socket s)"
    for Q E A v
    using that by (simp add: socket_receive_def wp_def k)
  have packets: "wp (poll_packets pf MaxPacketsPerPoll) Q E A (s\<lparr>socket := sock_flush (socket s)\<rparr>) = Q () u"
    for Q E A
    by (simp add: MaxPacketsPerPoll_def eval_nat_numeral wp_rules recv u_def)
  have deadlines: "wp poll_deadlines Q E A u = E ''ATT transaction timed out'' u" for Q E A
    using g waiting late by (auto simp: poll_deadlines_def wp_rules u_def)
  have failing: "wp poll_failed Q E A u = Q () t" for Q E A
    using open' by (simp add: poll_failed_def wp_rules u_def t_def)
  have "wp (poll pf a) (\<lambda>_ v. v = t) (\<lambda>_ _. False) (\<lambda>_ _. False) s"
    using fd by (simp add: poll_def wp_rules packets deadlines failing poll_accept_def
        del: poll_packets.simps)
  then have "poll pf a s = Normal () t" by (cases "poll pf a s") (simp_all add: wp_def)
  moreover have "generation t = 0" "requests t = []" "failed t" "closing t"
    using g open' by (simp_all add: t_def disconnected_def unlinked_def u_def)
  moreover have ev: "events t = events s @ closingEvents (requests s) @
      (if True then [OnClosed] else []) @ [OnAvailabilityChanged]"
    using g open' by (simp add: t_def disconnected_def unlinked_def u_def)
  moreover have "Completed n 0x0E [] \<in> set (closingEvents rs)"
    if "n \<in> set (concat (map (\<lambda>r. clientIds (r_completed r)) rs))" for n rs
    using that
  proof (induction rs)
    case (Cons r rs)
    then show ?case by (cases "r_completed r") (auto simp: closingEvents_def)
  qed simp
  ultimately show ?thesis
    by (auto simp: completedIds_def pendingIds_def closingEvents_ids)
qed

theorem poll_settles_timed_out_witness:
  "\<exists>t. poll sample_platform AcceptNone (reading (Client 4) [0x0A, 3, 0]) = Normal () t \<and>
     Completed 4 0x0E [] \<in> set (events t)"
proof -
  have "live_inv (reading (Client 4) [0x0A, 3, 0])" by (rule reading_live) simp_all
  moreover have "fst (sock_receive (sock_flush (socket (reading (Client 4) [0x0A, 3, 0])))) = []"
    by (simp add: reading_def new_socket_def no_kernel_def sock_flush_def flush_loop.simps
        sock_receive_def receive_loop.simps frameSize_def MaxMessageBytes_def)
  ultimately show ?thesis
    using poll_settles_timed_out [of "reading (Client 4) [0x0A, 3, 0]" sample_platform AcceptNone]
    by (auto simp: reading_def new_socket_def pendingIds_def)
qed

section \<open>A completion that is lost\<close>

text \<open>C16: A response to the client's MTU request that announces less than 23 bytes makes the handler
  throw after the request has left the queue: its completion is neither queued nor reported any
  more, so the client is never answered.\<close>

theorem malformed_mtu_response_loses_completion:
  assumes "requests s = r # rest" and "r_completed r = ClientMtu m n" and "hd (r_packet r) = 2"
    and "attBusy s" and "23 \<le> mtu s" and "le16 a b < DefaultAttMtu"
  shows "\<exists>t. receiveAtt pf [3, a, b] s = Thrown ''invalid ATT MTU response'' t \<and>
    pendingIds s + completedIds s = add_mset n (pendingIds t + completedIds t)"
proof -
  have "unat (mtu s) \<ge> 23" using assms(5) by (simp add: word_le_nat_alt)
  then have "wp (receiveAtt pf [3, a, b]) (\<lambda>_ _. False)
      (\<lambda>e t. e = ''invalid ATT MTU response'' \<and>
        pendingIds s + completedIds s = add_mset n (pendingIds t + completedIds t)) (\<lambda>_ _. False) s"
    using assms
    by (simp add: receiveAtt_def att_response_def att_completed_def complete_def mtuExchangedWith_def
        wp_rules Let_def readLe16_def requireR_def pendingIds_def completedIds_def not_le)
  then show ?thesis by (cases "receiveAtt pf [3, a, b] s") (auto simp: wp_def)
qed

theorem malformed_mtu_response_loses_completion_witness:
  "\<exists>t. receiveAtt sample_platform [3, 22, 0] (reading (ClientMtu 100 4) [2, 100, 0]) =
       Thrown ''invalid ATT MTU response'' t \<and> pendingIds t + completedIds t = {#}"
  using malformed_mtu_response_loses_completion [of "reading (ClientMtu 100 4) [2, 100, 0]" _ "[]" 100 4
      22 0 sample_platform]
  by (simp add: reading_def sample_initial DefaultAttMtu_def sample_peer_def new_peer_def
      requireR_def pendingIds_def completedIds_def le16_def)

end
