(* ===== verification/SmpProperties.thy ===== *)
theory SmpProperties
  imports PeerInvariant
begin

text \<open>
  Soundness and completeness of the pairing. \<open>smp_step\<close> is the security session on its own: the
  handlers of \<open>SmpSession.cpp\<close>, returning or throwing, and any step of the rest of the peer, which
  leaves the session alone. The invariant \<open>pairing_inv\<close> records what has been verified so far.
\<close>

section \<open>Steps of the session\<close>

inductive smp_step :: "platform \<Rightarrow> virtual_peer \<Rightarrow> virtual_peer \<Rightarrow> bool" for pf where
  smp_packet: "smp_receive pf pdu s \<in> {Normal () t, Thrown e t} \<Longrightarrow> smp_step pf s t"
| smp_encryption: "smp_encryptionChanged pf status s \<in> {Normal () t, Thrown e t} \<Longrightarrow> smp_step pf s t"
| smp_started: "smp_start pf s \<in> {Normal () t, Thrown e t} \<Longrightarrow> smp_step pf s t"
| smp_cleared: "security t = smp_reset (security s) \<Longrightarrow> smp_step pf s t"
| smp_elsewhere: "security t = security s \<Longrightarrow> smp_step pf s t"

text \<open>What the responder proved: it knew the preimage of its commitment before it saw our nonce, and
  it derived the same keys from the same secret.\<close>

definition confirmed :: "platform \<Rightarrow> smp_session \<Rightarrow> bytes \<Rightarrow> bool" where
  "confirmed pf m Nb \<longleftrightarrow> length Nb = 16 \<and>
     confirm m = smpConfirm (aesEncryptBlock pf) (take 32 (remoteKey m)) (take 32 (localKey m)) Nb"

definition derived :: "platform \<Rightarrow> smp_session \<Rightarrow> bytes \<Rightarrow> bytes \<Rightarrow> bytes \<Rightarrow> bool" where
  "derived pf m Nb A B \<longleftrightarrow>
     ltk m = snd (smpKeys (aesEncryptBlock pf) (secret m) (nonce m) Nb A B) \<and>
     remoteCheck m = smpCheck (aesEncryptBlock pf)
       (fst (smpKeys (aesEncryptBlock pf) (secret m) (nonce m) Nb A B)) Nb (nonce m) (remoteIo m) B A"

definition agreed :: "platform \<Rightarrow> smp_session \<Rightarrow> bool" where
  "agreed pf m \<longleftrightarrow> remoteKey m \<noteq> localKey m \<and>
     (\<exists>sk. keyPair m = Some sk \<and> sharedSecret pf sk (remoteKey m) = Inr (secret m))"

definition pairing_inv :: "platform \<Rightarrow> smp_session \<Rightarrow> bool" where
  "pairing_inv pf m \<longleftrightarrow> length (confirm m) = 16 \<and>
     (smp_state m \<in> {Confirm, Random, Check, Encrypting} \<longrightarrow> agreed pf m) \<and>
     (smp_state m \<in> {Check, Encrypting} \<longrightarrow>
        (\<exists>Nb A B. confirmed pf m Nb \<and> derived pf m Nb A B))"

lemma pairing_new [simp]: "pairing_inv pf new_session"
  by (simp add: pairing_inv_def new_session_def zeros_def)

lemma pairing_reset [simp]: "pairing_inv pf (smp_reset m)"
  by (simp add: pairing_inv_def smp_reset_def zeros_def)

text \<open>Programs that keep the invariant.\<close>

definition pairs :: "platform \<Rightarrow> virtual_peer \<Rightarrow> peer_op \<Rightarrow> bool" where
  "pairs pf s m \<longleftrightarrow> wp m (\<lambda>_ t. pairing_inv pf (security t)) (\<lambda>_ t. pairing_inv pf (security t))
     (\<lambda>_ _. True) s"

lemma wp_smp_send [wp_rules]:
  "wp (smp_send c p) Q E A s =
     (if generation s \<noteq> 0 \<and> length p < 1020 then Q () (l2capSent 6 (c # p) s)
      else E ''invalid outbound L2CAP packet'' s)"
  by (simp add: smp_send_def wp_rules Suc_le_eq)

lemma smp_pair_pairs:
  assumes "pairing_inv pf (security s)" and "smp_state (security s) \<in> {Idle, Restoring}"
  shows "pairs pf s (smp_pair pf)"
proof -
  obtain key fresh where d: "draw pf (entropy s) = (key, fresh)" by fastforce
  let ?m = "security s"
  have len: "length (confirm ?m) = 16" using assms(1) by (simp add: pairing_inv_def)
  have before: "pairing_inv pf (?m\<lparr>keyPair := k\<rparr>)" "pairing_inv pf (?m\<lparr>keyPair := k, localKey := p\<rparr>)"
    for k p
    using len assms(2) by (elim insertE emptyE; simp add: pairing_inv_def)+
  have after: "pairing_inv pf (?m\<lparr>keyPair := k, localKey := p, nonce := n, smp_state := Response\<rparr>)" for k p n
    using len by (simp add: pairing_inv_def)
  show ?thesis
    by (cases key) (simp_all add: pairs_def smp_pair_def d wp_rules before after split: sum.splits)
qed

lemma requestEncryption_security: "wp (requestEncryption k) (\<lambda>_ t. security t = security s)
    (\<lambda>_ t. security t = security s) (\<lambda>_ _. True) s"
  by (cases "sock_send Encrypt (generation s) (zeros 10 @ k) (socket s)")
    (simp_all add: requestEncryption_def socket_send_def wp_def zoom_def inspect_def)

lemma requestEncryption_pairs:
  assumes "pairing_inv pf (security s)"
  shows "pairs pf s (requestEncryption k)"
  unfolding pairs_def by (rule wp_weaken [OF requestEncryption_security]) (use assms in simp_all)

lemma smp_start_pairs:
  assumes "pairing_inv pf (security s)"
  shows "pairs pf s (smp_start pf)"
proof (cases "bond (security s)")
  case None
  then show ?thesis
    using assms smp_pair_pairs [OF assms] by (simp add: pairs_def smp_start_def wp_rules)
next
  case (Some k)
  have "pairing_inv pf (security (s\<lparr>security := (security s)\<lparr>smp_state := Restoring\<rparr>\<rparr>))"
    using assms by (simp add: pairing_inv_def)
  from requestEncryption_pairs [OF this, of k] Some assms show ?thesis
    by (simp add: pairs_def smp_start_def wp_rules)
qed

lemma smp_on_response_pairs:
  "pairing_inv pf (security s) \<Longrightarrow> smp_state (security s) = Response \<Longrightarrow> pairs pf s (smp_on_response pdu)"
  by (simp add: pairs_def smp_on_response_def Let_def wp_rules pairing_inv_def split: sum.splits)

lemma smp_on_publicKey_pairs:
  "pairing_inv pf (security s) \<Longrightarrow> smp_state (security s) = PublicKey \<Longrightarrow>
    pairs pf s (smp_on_publicKey pf pdu)"
  by (auto simp: pairs_def smp_on_publicKey_def Let_def wp_rules pairing_inv_def agreed_def
      fixedBytes_Inr split: sum.splits option.splits)

lemma smp_on_confirm_pairs:
  "pairing_inv pf (security s) \<Longrightarrow> smp_state (security s) = Confirm \<Longrightarrow> pairs pf s (smp_on_confirm pdu)"
  by (auto simp: pairs_def smp_on_confirm_def Let_def wp_rules pairing_inv_def agreed_def
      fixedBytes_Inr split: sum.splits)

lemma smp_on_random_pairs:
  assumes inv: "pairing_inv pf (security s)" and st: "smp_state (security s) = Random"
  shows "pairs pf s (smp_on_random pf pdu)"
proof -
  let ?m = "security s" and ?aes = "aesEncryptBlock pf"
  let ?A = "localAddress s" and ?B = "remoteAddress s"
  have agreed: "agreed pf ?m" and len: "length (confirm ?m) = 16"
    using inv st by (simp_all add: pairing_inv_def)
  have checked: "pairing_inv pf (?m\<lparr>ltk := k, remoteCheck := smpCheck ?aes mk Nb (nonce ?m) (remoteIo ?m) ?B ?A,
        smp_state := Check\<rparr>)"
    if "length Nb = 16" "equalKey (confirm ?m) (smpConfirm ?aes (take 32 (remoteKey ?m)) (take 32 (localKey ?m)) Nb)"
      "smpKeys ?aes (secret ?m) (nonce ?m) Nb ?A ?B = (mk, k)" for Nb mk k
  proof -
    have conf: "confirm ?m = smpConfirm ?aes (take 32 (remoteKey ?m)) (take 32 (localKey ?m)) Nb"
      using that(2) len by (simp add: equalKey_iff smp_cipher.length_smpConfirm)
    let ?m' = "?m\<lparr>ltk := k, remoteCheck := smpCheck ?aes mk Nb (nonce ?m) (remoteIo ?m) ?B ?A,
        smp_state := Check\<rparr>"
    from conf have "confirmed pf ?m' Nb" "derived pf ?m' Nb ?A ?B" "agreed pf ?m'"
      using that agreed by (simp_all add: confirmed_def derived_def agreed_def)
    then show ?thesis
      using len unfolding pairing_inv_def by auto
  qed
  have early: "pairing_inv pf (?m\<lparr>ltk := k\<rparr>)" for k
    using inv st by (auto simp: pairing_inv_def agreed_def)
  show ?thesis
    using inv checked early
    by (auto simp: pairs_def smp_on_random_def Let_def wp_rules fixedBytes_Inr split: sum.splits prod.splits)
qed

lemma smp_on_check_pairs:
  assumes inv: "pairing_inv pf (security s)" and st: "smp_state (security s) = Check"
  shows "pairs pf s (smp_on_check pdu)"
proof -
  have "pairing_inv pf ((security s)\<lparr>smp_state := Encrypting\<rparr>)"
    using inv st by (auto simp: pairing_inv_def agreed_def confirmed_def derived_def)
  then have "pairs pf (s\<lparr>security := (security s)\<lparr>smp_state := Encrypting\<rparr>\<rparr>) (requestEncryption k)" for k
    by (intro requestEncryption_pairs) simp
  then show ?thesis
    using inv by (simp add: pairs_def smp_on_check_def Let_def wp_rules split: sum.splits)
qed

lemma smp_receive_pairs:
  assumes inv: "pairing_inv pf (security s)"
  shows "pairs pf s (smp_receive pf pdu)"
proof -
  have others: "pairs pf s (case smp_state (security s) of
          Response \<Rightarrow> smp_on_response pdu
        | PublicKey \<Rightarrow> smp_on_publicKey pf pdu
        | Confirm \<Rightarrow> smp_on_confirm pdu
        | Random \<Rightarrow> smp_on_random pf pdu
        | Check \<Rightarrow> smp_on_check pdu
        | _ \<Rightarrow> throw ''unexpected SMP packet for current security state'')"
    using inv smp_on_response_pairs [OF inv] smp_on_publicKey_pairs [OF inv] smp_on_confirm_pairs [OF inv]
      smp_on_random_pairs [OF inv] smp_on_check_pairs [OF inv]
    by (cases "smp_state (security s)") (simp_all add: pairs_def wp_rules)
  then show ?thesis
    using inv smp_start_pairs [OF inv] by (simp add: pairs_def smp_receive_def Let_def wp_rules)
qed

lemma smp_encryptionChanged_pairs:
  assumes inv: "pairing_inv pf (security s)"
  shows "pairs pf s (smp_encryptionChanged pf status)"
proof (cases "status = 6 \<and> smp_state (security s) = Restoring")
  case True
  have "pairs pf (s\<lparr>security := (security s)\<lparr>bond := None\<rparr>\<rparr>) (smp_pair pf)"
    by (rule smp_pair_pairs) (use inv True in \<open>simp_all add: pairing_inv_def\<close>)
  with True show ?thesis by (simp add: pairs_def smp_encryptionChanged_def Let_def wp_rules)
next
  case False
  have "pairing_inv pf (m\<lparr>smp_state := Encrypted, keyPair := None, secret := zeros 32,
      nonce := zeros 16, confirm := zeros 16, remoteCheck := zeros 16, ltk := zeros 16\<rparr>)" for m
    by (simp add: pairing_inv_def zeros_def)
  moreover have "pairing_inv pf (m\<lparr>bond := b\<rparr>) = pairing_inv pf m" for m b
    by (simp add: pairing_inv_def agreed_def confirmed_def derived_def)
  ultimately show ?thesis
    using False inv
    by (auto simp: pairs_def smp_encryptionChanged_def Let_def wp_rules securityReady_def)
qed

lemma pairs_step:
  assumes "pairs pf s m" and "m s \<in> {Normal () t, Thrown e t}"
  shows "pairing_inv pf (security t)"
  using assms by (auto simp: pairs_def wp_def)

lemma smp_step_pairing:
  assumes inv: "pairing_inv pf (security s)" and step: "smp_step pf s t"
  shows "pairing_inv pf (security t)"
  using step
proof (cases rule: smp_step.cases)
  case (smp_packet pdu e)
  from smp_receive_pairs [OF inv] smp_packet show ?thesis by (rule pairs_step)
next
  case (smp_encryption status e)
  from smp_encryptionChanged_pairs [OF inv] smp_encryption show ?thesis by (rule pairs_step)
next
  case (smp_started e)
  from smp_start_pairs [OF inv] smp_started show ?thesis by (rule pairs_step)
qed (use inv in simp_all)

definition fresh_session :: "virtual_peer \<Rightarrow> bool" where
  "fresh_session s \<longleftrightarrow> security s = new_session"

interpretation pairing_machine: state_machine fresh_session "smp_step pf"
  "\<lambda>s. pairing_inv pf (security s)" for pf
proof
  show "pairing_inv pf (security s)" if "fresh_session s" for s using that by (simp add: fresh_session_def)
  show "pairing_inv pf (security t)" if "pairing_inv pf (security s)" "smp_step pf s t" for s t
    using that by (rule smp_step_pairing)
qed



section \<open>A run of the pairing\<close>

text \<open>A platform whose cipher always answers with the zero block makes every check value zero, so a
  whole pairing evaluates by rewriting.\<close>

definition weak_platform :: platform where
  "weak_platform = sample_platform\<lparr>aes_block := (\<lambda>k b. [])\<rparr>"

lemma weak_cipher [simp]: "aesEncryptBlock weak_platform k b = zeroBlock"
  by (simp add: aesEncryptBlock_def weak_platform_def zeroBlock_def)

lemma weak_cmac: "aesCmac (aesEncryptBlock weak_platform) k m = zeroBlock"
proof -
  have "foldl (\<lambda>st b. zeroBlock) zeroBlock xs = zeroBlock" for xs :: "nat list"
    by (induction xs) simp_all
  then show ?thesis by (simp add: aesCmac_def Let_def)
qed

lemma weak_values:
  "smpConfirm (aesEncryptBlock weak_platform) a b n = zeroBlock"
  "smpKeys (aesEncryptBlock weak_platform) w a b c d = (zeroBlock, zeroBlock)"
  "smpCheck (aesEncryptBlock weak_platform) k a b io c d = zeroBlock"
  by (simp_all add: smpConfirm_def smpKeys_def smpCheck_def weak_cmac reversed_def zeroBlock_def)

definition pairing_peer :: "smp_session \<Rightarrow> nat \<Rightarrow> virtual_peer" where
  "pairing_peer m n = sample_peer\<lparr>generation := 1, security := m, entropy := n\<rparr>"

definition session1 :: smp_session where
  "session1 = new_session\<lparr>keyPair := Some [1], localKey := replicate 64 1, nonce := replicate 16 9,
     smp_state := Response\<rparr>"

definition session2 :: smp_session where
  "session2 = session1\<lparr>remoteIo := [3, 0, 9], smp_state := PublicKey\<rparr>"

definition session3 :: smp_session where
  "session3 = session2\<lparr>remoteKey := replicate 64 2, secret := replicate 32 7, smp_state := Confirm\<rparr>"

definition session4 :: smp_session where
  "session4 = session3\<lparr>confirm := zeroBlock, smp_state := Random\<rparr>"

definition session5 :: smp_session where
  "session5 = session4\<lparr>ltk := zeroBlock, remoteCheck := zeroBlock, smp_state := Check\<rparr>"

lemmas session_defs = session1_def session2_def session3_def session4_def session5_def

lemma closed_send [simp]: "sock_send m g p (socket sample_peer) = Normal () (socket sample_peer)"
  "sock_sent m g p (socket sample_peer) = socket sample_peer"
proof -
  show "sock_send m g p (socket sample_peer) = Normal () (socket sample_peer)"
    by (simp add: sample_peer_def new_peer_def requireR_def sock_send_def inspect_def new_socket_def skip_def)
  then show "sock_sent m g p (socket sample_peer) = socket sample_peer" by (simp add: sock_sent_def)
qed

lemma pairing_sent [simp]: "l2capSent c p (pairing_peer m n) = pairing_peer m n"
  by (simp add: l2capSent_def pairing_peer_def)

lemma pairing_sel [simp]: "generation (pairing_peer m n) = 1" "security (pairing_peer m n) = m"
  "entropy (pairing_peer m n) = n" "(pairing_peer m n)\<lparr>security := m'\<rparr> = pairing_peer m' n"
  "(pairing_peer m n)\<lparr>entropy := n'\<rparr> = pairing_peer m n'"
  by (simp_all add: pairing_peer_def)

lemma wp_to_Normal: "wp m (\<lambda>_ t. t = u) (\<lambda>_ _. False) (\<lambda>_ _. False) s \<Longrightarrow> m s = Normal () u"
  for m :: peer_op
  by (cases "m s") (simp_all add: wp_def)

lemma weak_sel [simp]: "draw weak_platform n = (Some [1], replicate 16 9)"
  "publicKey weak_platform k = Inr (replicate 64 1)"
  "length p = 64 \<Longrightarrow> sharedSecret weak_platform k p = Inr (replicate 32 7)"
  by (simp_all add: weak_platform_def sample_platform_def publicKey_def sharedSecret_def requireR_def
      Let_def eval_nat_numeral)

lemma pairing_runs:
  "smp_start weak_platform (pairing_peer new_session 0) = Normal () (pairing_peer session1 1)"
  "smp_receive weak_platform [2, 3, 0, 9, 16, 0, 0] (pairing_peer session1 1) = Normal () (pairing_peer session2 1)"
  "smp_receive weak_platform (0x0C # replicate 64 2) (pairing_peer session2 1) = Normal () (pairing_peer session3 1)"
  "smp_receive weak_platform (3 # zeroBlock) (pairing_peer session3 1) = Normal () (pairing_peer session4 1)"
  "smp_receive weak_platform (4 # zeroBlock) (pairing_peer session4 1) = Normal () (pairing_peer session5 1)"
  "smp_receive weak_platform (0x0D # zeroBlock) (pairing_peer session5 1) =
     Normal () (pairing_peer (session5\<lparr>smp_state := Encrypting\<rparr>) 1)"
proof -
  show "smp_start weak_platform (pairing_peer new_session 0) = Normal () (pairing_peer session1 1)"
    by (rule wp_to_Normal) (simp add: smp_start_def smp_pair_def wp_rules session_defs new_session_def)
  show "smp_receive weak_platform [2, 3, 0, 9, 16, 0, 0] (pairing_peer session1 1) = Normal () (pairing_peer session2 1)"
    by (rule wp_to_Normal)
      (simp add: smp_receive_def smp_on_response_def wp_rules session_defs fixedBytes_def requireR_def)
  show "smp_receive weak_platform (0x0C # replicate 64 2) (pairing_peer session2 1) = Normal () (pairing_peer session3 1)"
    by (rule wp_to_Normal)
      (simp add: smp_receive_def smp_on_publicKey_def wp_rules session_defs fixedBytes_def requireR_def)
  show "smp_receive weak_platform (3 # zeroBlock) (pairing_peer session3 1) = Normal () (pairing_peer session4 1)"
    by (rule wp_to_Normal)
      (simp add: smp_receive_def smp_on_confirm_def wp_rules session_defs fixedBytes_def requireR_def)
  show "smp_receive weak_platform (4 # zeroBlock) (pairing_peer session4 1) = Normal () (pairing_peer session5 1)"
    by (rule wp_to_Normal)
      (simp add: smp_receive_def smp_on_random_def wp_rules session_defs fixedBytes_def requireR_def
        weak_values equalKey_iff Let_def)
  show "smp_receive weak_platform (0x0D # zeroBlock) (pairing_peer session5 1) =
     Normal () (pairing_peer (session5\<lparr>smp_state := Encrypting\<rparr>) 1)"
    by (rule wp_to_Normal)
      (simp add: smp_receive_def smp_on_check_def wp_rules session_defs fixedBytes_def requireR_def
        equalKey_iff, simp add: pairing_peer_def)
qed

lemma smp_returned: "smp_receive pf pdu s = Normal () t \<Longrightarrow> smp_step pf s t"
  by (rule smp_packet [where pdu = pdu and e = "[]"]) simp



section \<open>Completeness\<close>

lemma l2capSent_security: "l2capSent c p (s\<lparr>security := x\<rparr>) = (l2capSent c p s)\<lparr>security := x\<rparr>"
  by (simp add: l2capSent_def)

text \<open>C18: Pairing with a responder that follows the specification succeeds. Against its pairing
  response, its public key, the commitment to its nonce, the nonce and its DHKey check (computed from
  the same shared secret), the session sends its own public key, nonce and DHKey check in turn, ends
  in \<open>Encrypting\<close>, and hands the controller exactly the long-term key the responder derives.\<close>

theorem pairing_completes:
  fixes s :: virtual_peer and pf :: platform
  defines "m \<equiv> security s" and "aes \<equiv> aesEncryptBlock pf" and "A \<equiv> localAddress s" and "B \<equiv> remoteAddress s"
  assumes link: "generation s \<noteq> 0" and st: "smp_state m = Response" and key: "keyPair m = Some sk"
    and lens: "length (localKey m) = 64" "length (nonce m) = 16"
    and remote: "length PB = 64" "PB \<noteq> localKey m" "sharedSecret pf sk PB = Inr S" "length Nb = 16"
    and keys: "smpKeys aes S (nonce m) Nb A B = (mk, k)"
  shows "\<exists>t. block [
      smp_receive pf [2, 3, 0, 9, 16, 0, 0],
      smp_receive pf (0x0C # PB),
      smp_receive pf (3 # smpConfirm aes (take 32 PB) (take 32 (localKey m)) Nb),
      smp_receive pf (4 # Nb),
      smp_receive pf (0x0D # smpCheck aes mk Nb (nonce m) [3, 0, 9] B A)] s = Normal () t \<and>
    smp_state (security t) = Encrypting \<and> ltk (security t) = k \<and>
    t = (l2capSent 6 (0x0D # smpCheck aes mk (nonce m) Nb LocalIo A B) (l2capSent 6 (4 # nonce m)
      (l2capSent 6 (0x0C # localKey m) s)))\<lparr>security := security t,
      socket := sock_sent Encrypt (generation s) (zeros 10 @ k)
        (socket (l2capSent 6 (0x0D # smpCheck aes mk (nonce m) Nb LocalIo A B) (l2capSent 6 (4 # nonce m)
          (l2capSent 6 (0x0C # localKey m) s))))\<rparr>"
proof -
  have len: "length (smpConfirm aes a b n) = 16" "length (smpCheck aes a b c d e f) = 16" "length k = 16"
    for a b c d e f n
    using keys smp_cipher.length_smpKeys [of pf S "nonce m" Nb A B]
    by (simp_all add: aes_def smp_cipher.length_smpConfirm smp_cipher.length_smpCheck)
  define s1 where "s1 = l2capSent 6 (0x0C # localKey m) s"
  define s2 where "s2 = l2capSent 6 (4 # nonce m) s1"
  define s3 where "s3 = l2capSent 6 (0x0D # smpCheck aes mk (nonce m) Nb LocalIo A B) s2"
  define m1 where "m1 = m\<lparr>remoteIo := [3, 0, 9], smp_state := PublicKey\<rparr>"
  define m2 where "m2 = m1\<lparr>remoteKey := PB, secret := S, smp_state := Confirm\<rparr>"
  define m3 where "m3 = m2\<lparr>confirm := smpConfirm aes (take 32 PB) (take 32 (localKey m)) Nb, smp_state := Random\<rparr>"
  define m4 where "m4 = m3\<lparr>ltk := k, remoteCheck := smpCheck aes mk Nb (nonce m) [3, 0, 9] B A, smp_state := Check\<rparr>"
  define t where "t = s3\<lparr>security := m4\<lparr>smp_state := Encrypting\<rparr>,
    socket := sock_sent Encrypt (generation s) (zeros 10 @ k) (socket s3)\<rparr>"
  note ms = m1_def m2_def m3_def m4_def
  have g: "generation s1 \<noteq> 0" "generation s2 \<noteq> 0" "generation s3 = generation s"
    using link by (simp_all add: s1_def s2_def s3_def)
  have addr: "localAddress s2 = A" "remoteAddress s2 = B" by (simp_all add: s1_def s2_def A_def B_def)
  have step1: "wp (smp_receive pf [2, 3, 0, 9, 16, 0, 0]) Q E F s = Q () (s1\<lparr>security := m1\<rparr>)" for Q E F
    using link st lens
    by (simp add: smp_receive_def smp_on_response_def wp_rules fixedBytes_def requireR_def m_def
        [symmetric] l2capSent_security s1_def m1_def)
  have step2: "wp (smp_receive pf (0x0C # PB)) Q E F (s1\<lparr>security := m1\<rparr>) = Q () (s1\<lparr>security := m2\<rparr>)" for Q E F
    using key remote by (simp add: smp_receive_def smp_on_publicKey_def wp_rules fixedBytes_def requireR_def ms)
  have step3: "wp (smp_receive pf (3 # smpConfirm aes (take 32 PB) (take 32 (localKey m)) Nb)) Q E F
      (s1\<lparr>security := m2\<rparr>) = Q () (s2\<lparr>security := m3\<rparr>)" for Q E F
    using g lens len by (simp add: smp_receive_def smp_on_confirm_def wp_rules fixedBytes_def requireR_def
        l2capSent_security ms s2_def)
  have step4: "wp (smp_receive pf (4 # Nb)) Q E F (s2\<lparr>security := m3\<rparr>) = Q () (s3\<lparr>security := m4\<rparr>)" for Q E F
    using g len remote(4) keys
    by (simp add: smp_receive_def smp_on_random_def wp_rules fixedBytes_def requireR_def Let_def
        l2capSent_security ms s3_def equalKey_iff addr aes_def [symmetric])
  have step5: "wp (smp_receive pf (0x0D # smpCheck aes mk Nb (nonce m) [3, 0, 9] B A)) Q E F
      (s3\<lparr>security := m4\<rparr>) = Q () t" for Q E F
    using g len
    by (simp add: smp_receive_def smp_on_check_def wp_rules fixedBytes_def requireR_def equalKey_iff ms t_def)
  have "wp (block [
      smp_receive pf [2, 3, 0, 9, 16, 0, 0],
      smp_receive pf (0x0C # PB),
      smp_receive pf (3 # smpConfirm aes (take 32 PB) (take 32 (localKey m)) Nb),
      smp_receive pf (4 # Nb),
      smp_receive pf (0x0D # smpCheck aes mk Nb (nonce m) [3, 0, 9] B A)])
      (\<lambda>_ v. v = t) (\<lambda>_ _. False) (\<lambda>_ _. False) s"
    by (simp only: wp_block_Cons wp_block_Nil step1 step2 step3 step4 step5)
  note run = wp_to_Normal [OF this]
  have "smp_state (security t) = Encrypting" "ltk (security t) = k"
    and "t = s3\<lparr>security := security t, socket := sock_sent Encrypt (generation s) (zeros 10 @ k) (socket s3)\<rparr>"
    by (simp_all add: t_def ms)
  with run show ?thesis unfolding s3_def s2_def s1_def by blast
qed

text \<open>The run above is one such responder.\<close>

theorem pairing_completes_witness:
  "\<exists>t. block [
      smp_receive weak_platform [2, 3, 0, 9, 16, 0, 0],
      smp_receive weak_platform (0x0C # replicate 64 2),
      smp_receive weak_platform (3 # zeroBlock),
      smp_receive weak_platform (4 # replicate 16 5),
      smp_receive weak_platform (0x0D # zeroBlock)] (pairing_peer session1 1) = Normal () t \<and>
    smp_state (security t) = Encrypting"
proof -
  have "replicate 64 2 \<noteq> (replicate 64 1 :: bytes)" by (simp add: eval_nat_numeral)
  then show ?thesis
    using pairing_completes [where s = "pairing_peer session1 1" and pf = weak_platform and sk = "[1]"
        and PB = "replicate 64 2" and Nb = "replicate 16 5" and S = "replicate 32 7" and mk = zeroBlock
        and k = zeroBlock]
    by (simp add: session1_def weak_values del: block.simps) blast
qed

end
