(* ===== verification/LongWrite.thy ===== *)
theory LongWrite
  imports PeerLive
begin

text \<open>
  A value longer than one ATT packet is written with prepared writes. The guest is the function
  \<open>guestAnswer\<close>: it echoes every fragment and confirms the execution. The theorem says that the
  fragments it sees, in order, make up exactly the value, each within the MTU, followed by one
  execute request, and that the client's completion is called once, with success.
\<close>

section \<open>The guest\<close>

definition guestAnswer :: "bytes \<Rightarrow> bytes" where
  "guestAnswer pdu = (if hd pdu = 0x16 then 0x17 # tl pdu else [0x19])"

text \<open>\<open>converse pf k s\<close> lets the guest answer \<open>k\<close> requests; the requests it saw and the outcome.\<close>

fun converse :: "platform \<Rightarrow> nat \<Rightarrow> virtual_peer \<Rightarrow> bytes list \<times> (unit, virtual_peer) outcome" where
  "converse pf 0 s = ([], Normal () s)"
| "converse pf (Suc k) s =
     (let pdu = r_packet (hd (requests s)) in
      case receiveAtt pf (guestAnswer pdu) s of
        Normal _ t \<Rightarrow> (case converse pf k t of (seen, out) \<Rightarrow> (pdu # seen, out))
      | out \<Rightarrow> ([pdu], out))"

text \<open>The fragments of a value for a payload of \<open>c\<close> bytes, from an offset on.\<close>

function pieces :: "nat \<Rightarrow> u16 \<Rightarrow> bytes \<Rightarrow> nat \<Rightarrow> bytes list" where
  "pieces c h v off = (if c = 0 \<or> length v \<le> off then []
     else fragment h v off (min c (length v - off)) # pieces c h v (off + c))"
  by pat_completeness auto
termination by (relation "measure (\<lambda>(c, h, v, off). length v - off)") auto

declare pieces.simps [simp del]

lemma drop_fragment: "drop 5 (fragment h v off n) = take n (drop off v)"
  by (simp add: fragment_def appendLe16_def eval_nat_numeral)

lemma pieces_value: "0 < c \<Longrightarrow> concat (map (drop 5) (pieces c h v off)) = drop off v"
proof (induction c h v off rule: pieces.induct)
  case (1 c h v off)
  show ?case
  proof (cases "length v \<le> off")
    case True
    then show ?thesis by (subst pieces.simps) simp
  next
    case False
    have "take (min c (length v - off)) (drop off v) @ drop (off + c) v = drop off v"
      by (metis append_take_drop_id drop_drop length_drop min.commute take_all_iff
          nle_le drop_all min_def add.commute)
    with False 1 show ?thesis by (subst pieces.simps) (simp add: drop_fragment)
  qed
qed

lemma pieces_length: "pdu \<in> set (pieces c h v off) \<Longrightarrow> length pdu \<le> 5 + c"
proof (induction c h v off rule: pieces.induct)
  case (1 c h v off)
  then show ?case
    by (subst (asm) (2) pieces.simps) (auto simp: length_fragment split: if_splits)
qed


section \<open>One answer\<close>

lemma answer_fragment:
  assumes req: "requests s = r # rest" and pdu: "r_packet r = fragment h v off n" and v: "r_longValue r = v"
    and e: "r_prepareError r = 0" and busy: "attBusy s" "\<not> attSecurityPending s" "generation s \<noteq> 0"
    and n: "0 < n" "off + n \<le> length v" "length v \<le> 512" "5 + n \<le> unat (mtu s)"
    and m: "23 \<le> mtu s" "mtu s \<le> 498"
  defines "p' \<equiv> if off + n < length v
    then fragment h v (off + n) (min (unat (mtu s - 5)) (length v - (off + n))) else [0x18, 1]"
  shows "wp (receiveAtt pf (guestAnswer (r_packet r))) Q E A s =
    Q () (l2capSent 4 p' (s\<lparr>requests := r\<lparr>r_packet := p'\<rparr> # rest, attBusy := True,
      attDeadline := now s + AttTimeout\<rparr>))"
proof -
  have answer: "guestAnswer (r_packet r) = 0x17 # tl (r_packet r)"
    by (simp add: guestAnswer_def pdu fragment_parts)
  have len: "length (r_packet r) = 5 + n" using n by (simp add: pdu length_fragment)
  have off: "readLe16 (drop 3 (r_packet r)) = Inr (of_nat off)" "unat (of_nat off :: u16) = off"
    using n by (simp_all add: pdu fragment_parts unat_of_nat_u16)
  have h: "readLe16 (drop 1 (r_packet r)) = Inr h" by (simp add: pdu fragment_parts)
  have small: "off + n < 65536" using n by simp
  note prep = prepareWrite_fragment [OF h small, of "mtu s", unfolded v]
  have first: "hd (r_packet r) = 0x16" "r_packet r \<noteq> []" by (simp_all add: pdu fragment_parts)
  have room: "length (fragment h v (off + n) (min (unat (mtu s - 5)) (length v - (off + n)))) \<le> 1020"
    if "off + n < length v"
    using that n mtu_room [OF m] by (simp add: length_fragment)
  have echo: "drop (Suc 0) (0x17 # tl (r_packet r)) = drop (Suc 0) (r_packet r)"
    using first by (simp add: drop_Suc)
  show ?thesis
    using busy n len first off prep room echo v e
    by (simp add: answer receiveAtt_def att_response_def att_prepared_def replaceFront_def wp_rules Let_def
        req p'_def drop_Suc tl_drop)
qed

lemma answer_execute:
  assumes req: "requests s = r # rest" and pdu: "r_packet r = [0x18, 1]" and c: "r_completed r = Client n"
    and e: "r_prepareError r = 0" and live: "live_inv s" and busy: "attBusy s"
  shows "wp (receiveAtt pf (guestAnswer (r_packet r)))
    (\<lambda>_ t. requests t = rest \<and> events t = events s @ [Completed n 0 []] \<and> live_inv t) (\<lambda>_ _. False) (\<lambda>_ _. False) s"
proof -
  have core: "core_inv s" using live by (rule live_core)
  have m: "23 \<le> mtu s" "mtu s \<le> 498" using core by (simp_all add: core_inv_def)
  have g: "generation s \<noteq> 0" "\<not> attSecurityPending s" using core req busy by (auto simp: core_inv_def)
  define u where "u = s\<lparr>requests := rest, attBusy := False, events := events s @ [Completed n 0 []]\<rparr>"
  have u: "core_inv u" using core_popFront [OF core] req by (simp add: u_def)
  have rdy: "ready s" using core req c by (auto simp: core_inv_def split: if_splits)
  have "rest \<noteq> [] \<longrightarrow> length (r_packet (hd rest)) \<le> 1020"
    using core_front(2) [OF u] by (fastforce simp: u_def)
  then have "wp sendNext (\<lambda>_ t. requests t = rest \<and> events t = events s @ [Completed n 0 []])
      (\<lambda>_ _. False) (\<lambda>_ _. False) u"
    by (auto simp: wp_sendNext u_def)
  moreover have "wp sendNext (\<lambda>_. live_inv) (\<lambda>_ _. False) (\<lambda>_ _. False) u"
    by (rule sendNext_live) (use u g rdy live in \<open>auto simp: u_def\<close>)
  ultimately have next': "wp sendNext (\<lambda>_ t. requests t = rest \<and> events t = events s @ [Completed n 0 []] \<and> live_inv t)
      (\<lambda>_ _. False) (\<lambda>_ _. False) u"
    unfolding wp_def by (cases "sendNext u") simp_all
  show ?thesis
    using busy mtu_room [OF m] next' e
    by (simp add: guestAnswer_def receiveAtt_def att_response_def att_executed_def att_completed_def
        complete_def wp_rules Let_def req pdu c u_def del: wp_sendNext)
qed

section \<open>The whole value\<close>

lemma converse_pieces:
  "requests s = r # rest \<Longrightarrow> off < length v \<Longrightarrow>
   r_packet r = fragment h v off (min c (length v - off)) \<Longrightarrow> r_longValue r = v \<Longrightarrow>
   r_prepareError r = 0 \<Longrightarrow> r_completed r = Client n \<Longrightarrow> attBusy s \<Longrightarrow> live_inv s \<Longrightarrow>
   length v \<le> 512 \<Longrightarrow> c = unat (mtu s - 5) \<Longrightarrow>
   \<exists>t. converse pf (length (pieces c h v off) + 1) s = (pieces c h v off @ [[0x18, 1]], Normal () t) \<and>
     requests t = rest \<and> events t = events s @ [Completed n 0 []] \<and> live_inv t"
proof (induction c h v off arbitrary: s r rule: pieces.induct)
  case (1 c h v off s r)
  note req = "1.prems"(1) and off = "1.prems"(2) and pdu = "1.prems"(3) and v = "1.prems"(4)
    and e = "1.prems"(5) and comp = "1.prems"(6) and busy = "1.prems"(7) and live = "1.prems"(8)
    and len = "1.prems"(9) and c = "1.prems"(10)
  have core: "core_inv s" using live by (rule live_core)
  have m: "23 \<le> mtu s" "mtu s \<le> 498" using core by (simp_all add: core_inv_def)
  have pos: "0 < c" and fit: "5 + c \<le> unat (mtu s)" using mtu_room [OF m] c by auto
  have g: "generation s \<noteq> 0" "\<not> attSecurityPending s" using core req busy by (auto simp: core_inv_def)
  define k where "k = min c (length v - off)"
  have k: "0 < k" "off + k \<le> length v" "5 + k \<le> unat (mtu s)" using pos off fit by (auto simp: k_def)
  define p' where "p' = (if off + k < length v
    then fragment h v (off + k) (min c (length v - (off + k))) else [0x18, 1])"
  define r' where "r' = r\<lparr>r_packet := p'\<rparr>"
  define u where "u = l2capSent 4 p' (s\<lparr>requests := r' # rest, attBusy := True,
      attDeadline := now s + AttTimeout\<rparr>)"
  note answer = answer_fragment [OF req pdu [folded k_def] v e busy g(2,1) k(1,2) len k(3) m, of pf]
  have "wp (receiveAtt pf (guestAnswer (r_packet r))) (\<lambda>_ t. t = u) (\<lambda>_ _. False) (\<lambda>_ _. False) s"
    unfolding answer by (simp add: u_def r'_def p'_def c)
  then have step: "receiveAtt pf (guestAnswer (r_packet r)) s = Normal () u"
    by (cases "receiveAtt pf (guestAnswer (r_packet r)) s") (simp_all add: wp_def)
  have "wp (receiveAtt pf (guestAnswer (r_packet r))) (\<lambda>_. live_inv) (\<lambda>_. core_inv) (\<lambda>_ _. False) s"
    using handlesD [OF receiveAtt_handles live g(1)] .
  from wp_Normal [OF step this] have live_u: "live_inv u" .
  have u: "requests u = r' # rest" "attBusy u" "mtu u = mtu s" "events u = events s"
    by (simp_all add: u_def)
  have r': "r_longValue r' = v" "r_prepareError r' = 0" "r_completed r' = Client n" "r_packet r' = p'"
    using v e comp by (simp_all add: r'_def)
  show ?case
  proof (cases "off + c < length v")
    case True
    then have kc: "k = c" and more: "p' = fragment h v (off + c) (min c (length v - (off + c)))"
      by (simp_all add: k_def p'_def)
    have nz: "\<not> (c = 0 \<or> length v \<le> off)" using pos off by simp
    from "1.IH" [OF nz u(1) True _ r'(1,2,3) u(2) live_u len] more r'(4) c u(3)
    obtain t where t: "converse pf (length (pieces c h v (off + c)) + 1) u =
        (pieces c h v (off + c) @ [[0x18, 1]], Normal () t)"
      "requests t = rest" "events t = events u @ [Completed n 0 []]" "live_inv t" by auto
    have "pieces c h v off = fragment h v off k # pieces c h v (off + c)"
      using nz by (subst pieces.simps) (simp add: k_def)
    with t step u(4) show ?thesis by (simp add: req pdu k_def Let_def)
  next
    case False
    then have kl: "off + k = length v" and p': "p' = [0x18, 1]"
      using off by (simp_all add: k_def p'_def)
    have "pieces c h v (off + c) = []" using False by (subst pieces.simps) simp
    then have one: "pieces c h v off = [fragment h v off k]"
      using pos off by (subst pieces.simps) (simp add: k_def)
    have "wp (receiveAtt pf (guestAnswer (r_packet r'))) (\<lambda>_ t. requests t = rest \<and>
        events t = events u @ [Completed n 0 []] \<and> live_inv t) (\<lambda>_ _. False) (\<lambda>_ _. False) u"
      by (rule answer_execute [OF u(1) _ r'(3,2) live_u u(2)]) (simp add: r'(4) p')
    then obtain t where "receiveAtt pf (guestAnswer (r_packet r')) u = Normal () t"
      "requests t = rest" "events t = events u @ [Completed n 0 []]" "live_inv t"
      by (cases "receiveAtt pf (guestAnswer (r_packet r')) u") (auto simp: wp_def)
    with step u one show ?thesis
      by (simp add: req pdu k_def Let_def eval_nat_numeral r'(4) p')
  qed
qed


definition writing_peer :: virtual_peer where
  "writing_peer = sample_peer\<lparr>generation := 1, ready := True\<rparr>"

lemma writing_live: "live_inv writing_peer"
  by (simp add: writing_peer_def sample_peer_def new_peer_def requireR_def live_inv_def core_inv_def
      new_session_def smp_inv_def zeros_def DefaultAttMtu_def)


end
