(* ===== verification/ControllerState.thy ===== *)
theory ControllerState
  imports PeerSocket
begin

text \<open>
  The state of the high-level Bluetooth controller that runs inside QEMU in place of the
  ESP32-S3 controller libraries: \<open>qemu/esp32s3/bluetooth/BleController.hpp\<close> and the numbers of
  \<open>BleHle.h\<close>, with the guest-facing value \<open>BleHleStep\<close> the helper executes.

  The guest is the environment of a step: what the debugger interface of QEMU reads at an address,
  which ranges it can read and write, the virtual clock, the random bytes of \<open>arc4random_buf\<close>, the
  head of the NimBLE attribute list the hooks found, and what \<open>PeerSocket::open\<close> meets. A step
  never reads guest memory it has written itself, so the writes are collected in \<open>guestWrites\<close>.
  The two file-scope counters of \<open>BleController.Link.cpp\<close> outlive the controller object and are
  the last but one members here.
\<close>

section \<open>The guest\<close>

record guest =
  g_byte :: "u32 \<Rightarrow> byte"
  g_readable :: "u32 \<Rightarrow> nat \<Rightarrow> bool"
  g_writable :: "u32 \<Rightarrow> nat \<Rightarrow> bool"
  g_timeNs :: u64
  g_random :: "nat \<Rightarrow> byte"
  g_gattList :: u32
  g_open :: open_env

definition tryRead :: "guest \<Rightarrow> u32 \<Rightarrow> nat \<Rightarrow> bytes option" where
  "tryRead g address n =
     (if g_readable g address n then Some (map (\<lambda>i. g_byte g (address + of_nat i)) [0..<n]) else None)"

lemma tryRead_length: "tryRead g address n = Some bs \<Longrightarrow> length bs = n"
  by (auto simp: tryRead_def split: if_splits)

text \<open>A vector of little-endian words.\<close>

definition words32 :: "nat \<Rightarrow> bytes \<Rightarrow> u32 list" where
  "words32 n bs = map (\<lambda>i. readLe32 (drop (4 * i) bs)) [0..<n]"

section \<open>Continuations and operations\<close>

definition HleReturn :: u32 where "HleReturn = 0x40800000"
definition HleAllocated :: u32 where "HleAllocated = 0x40800000 + 4"
definition HleSemaphoreCreated :: u32 where "HleSemaphoreCreated = 0x40800000 + 8"
definition HleTaskCreated :: u32 where "HleTaskCreated = 0x40800000 + 12"
definition HleTaskCreateFailed :: u32 where "HleTaskCreateFailed = 0x40800000 + 16"
definition HleTaskDeleted :: u32 where "HleTaskDeleted = 0x40800000 + 20"
definition HleSemaphoreDeleted :: u32 where "HleSemaphoreDeleted = 0x40800000 + 24"
definition HleFreed :: u32 where "HleFreed = 0x40800000 + 28"
definition HleReceiveReturned :: u32 where "HleReceiveReturned = 0x40800000 + 32"
definition HleReadyReturned :: u32 where "HleReadyReturned = 0x40800000 + 36"
definition HleDelayReturned :: u32 where "HleDelayReturned = 0x40800000 + 40"
definition HleTaskEntry :: u32 where "HleTaskEntry = 0x40800080"
definition HleTaskPoll :: u32 where "HleTaskPoll = 0x40800083"
definition HleRomDataInit :: u32 where "HleRomDataInit = 0x40002AA8"

definition HleInit :: u32 where "HleInit = 256"
definition HleDeinit :: u32 where "HleDeinit = 257"
definition HleEnable :: u32 where "HleEnable = 258"
definition HleDisable :: u32 where "HleDisable = 259"
definition HleMode :: u32 where "HleMode = 260"
definition HleVersion :: u32 where "HleVersion = 261"
definition HleAvailable :: u32 where "HleAvailable = 262"
definition HleSend :: u32 where "HleSend = 263"
definition HleRegister :: u32 where "HleRegister = 264"
definition HleSleepEnable :: u32 where "HleSleepEnable = 265"
definition HleSleepMode :: u32 where "HleSleepMode = 266"
definition HleWakeup :: u32 where "HleWakeup = 267"
definition HleWakeupRequesting :: u32 where "HleWakeupRequesting = 268"
definition HlePowerSet :: u32 where "HlePowerSet = 269"
definition HlePowerGet :: u32 where "HlePowerGet = 270"
definition HlePowerActive :: u32 where "HlePowerActive = 271"
definition HleOffloadRegister :: u32 where "HleOffloadRegister = 272"
definition HleOffloadDeregister :: u32 where "HleOffloadDeregister = 273"
definition HlePllTrack :: u32 where "HlePllTrack = 274"
definition HleAdvFlowControl :: u32 where "HleAdvFlowControl = 275"
definition HleClearLegacyAdv :: u32 where "HleClearLegacyAdv = 276"
definition HleDuplicateExceptions :: u32 where "HleDuplicateExceptions = 277"
definition HleChannelSelection :: u32 where "HleChannelSelection = 278"
definition HlePhyInit :: u32 where "HlePhyInit = 279"
definition HlePhyWakeup :: u32 where "HlePhyWakeup = 280"
definition HlePhyClose :: u32 where "HlePhyClose = 281"
definition HlePhyTemperatureOff :: u32 where "HlePhyTemperatureOff = 282"
definition HlePhyVersion :: u32 where "HlePhyVersion = 283"
definition HlePhyCloseImpl :: u32 where "HlePhyCloseImpl = 284"
definition HlePhyWakeupImpl :: u32 where "HlePhyWakeupImpl = 285"
definition HlePhyTrack :: u32 where "HlePhyTrack = 286"

lemmas hle_continuations = HleReturn_def HleAllocated_def HleSemaphoreCreated_def HleTaskCreated_def
  HleTaskCreateFailed_def HleTaskDeleted_def HleSemaphoreDeleted_def HleFreed_def
  HleReceiveReturned_def HleReadyReturned_def HleDelayReturned_def HleTaskEntry_def HleTaskPoll_def
  HleRomDataInit_def

lemmas hle_operations = HleInit_def HleDeinit_def HleEnable_def HleDisable_def HleMode_def
  HleVersion_def HleAvailable_def HleSend_def HleRegister_def HleSleepEnable_def HleSleepMode_def
  HleWakeup_def HleWakeupRequesting_def HlePowerSet_def HlePowerGet_def HlePowerActive_def
  HleOffloadRegister_def HleOffloadDeregister_def HlePllTrack_def HleAdvFlowControl_def
  HleClearLegacyAdv_def HleDuplicateExceptions_def HleChannelSelection_def HlePhyInit_def
  HlePhyWakeup_def HlePhyClose_def HlePhyTemperatureOff_def HlePhyVersion_def HlePhyCloseImpl_def
  HlePhyWakeupImpl_def HlePhyTrack_def

lemmas hle_numbers = hle_continuations hle_operations

record ble_step =
  st_target :: u32
  st_continuation :: u32
  st_args :: "u32 list"
  st_result :: u32

definition returnValue :: "u32 \<Rightarrow> ble_step" where
  "returnValue r =
     \<lparr>st_target = HleReturn, st_continuation = 0, st_args = replicate 7 0, st_result = r\<rparr>"

definition hle_call :: "u32 \<Rightarrow> u32 \<Rightarrow> u32 list \<Rightarrow> ble_step" where
  "hle_call address next arguments =
     \<lparr>st_target = address, st_continuation = next,
      st_args = arguments @ replicate (7 - length arguments) 0, st_result = 0\<rparr>"

section \<open>The controller\<close>

record ble_controller =
  osi :: "u32 list"
  status :: u32
  workspace :: u32
  task :: u32
  semaphore :: u32
  workerStackBytes :: u32
  workerPriority :: u32
  workerCore :: u32
  pollTimeoutMs :: u32
  initFailed :: bool
  sleepMode :: byte
  sleepEnabled :: bool
  wakeupRequested :: bool
  phyEnabled :: bool
  offloadCallbacks :: "u32 list"
  features :: "bool list"
  receiveCallback :: u32
  readyCallback :: u32
  commands :: u32
  received :: u32
  readyCount :: u32
  delayResumes :: u32
  delayStartedNs :: u64
  shortWaits :: byte
  sendAvailable :: bool
  readyPending :: bool
  commandPending :: bool
  receiveInFlight :: bool
  receiveCancelled :: bool
  ctl_events :: "bytes list"
  ctl_peer :: peer_socket
  ctl_generation :: u64
  connection :: u16
  interval :: u16
  latency :: u16
  supervisionTimeout :: u16
  phy :: byte
  connectionPower :: byte
  ctl_encrypted :: bool
  pendingKey :: "bytes option"
  aclAssembly :: bytes
  completedAcl :: u16
  aclSent :: u32
  aclReceived :: u32
  aclFragments :: u32
  eventMask :: bytes
  leEventMask :: bytes
  eventMaskPage2 :: bytes
  randomAddress :: bytes
  advertisingParameters :: bytes
  advertisingData :: bytes
  scanResponse :: bytes
  ctl_advertising :: bool
  resolutionEnabled :: bool
  rpaTimeout :: u16
  resolvingList :: "bytes list"
  privacyModes :: bytes
  defaultPower :: byte
  advertisingPower :: "byte option"
  nextGeneration :: u64
  nextConnectionHandle :: u16
  guestWrites :: "(u32 \<times> bytes) list"

type_synonym ctl_op = "(ble_controller, unit) prog"

definition zeroBytes :: "nat \<Rightarrow> bytes" where
  "zeroBytes n = replicate n 0"

text \<open>The members as the class declares them, around a socket and the file-scope counters.\<close>

definition new_controller :: "peer_socket \<Rightarrow> u64 \<Rightarrow> u16 \<Rightarrow> (u32 \<times> bytes) list \<Rightarrow> ble_controller" where
  "new_controller sock nextGen nextHandle written = \<lparr>
     osi = replicate 32 0, status = 0, workspace = 0, task = 0, semaphore = 0,
     workerStackBytes = 0, workerPriority = 0, workerCore = 0, pollTimeoutMs = 10, initFailed = False,
     sleepMode = 0, sleepEnabled = False, wakeupRequested = False, phyEnabled = False,
     offloadCallbacks = replicate 8 0, features = replicate 5 False,
     receiveCallback = 0, readyCallback = 0, commands = 0, received = 0, readyCount = 0,
     delayResumes = 0, delayStartedNs = 0, shortWaits = 0, sendAvailable = True,
     readyPending = False, commandPending = False, receiveInFlight = False,
     receiveCancelled = False, ctl_events = [],
     ctl_peer = sock, ctl_generation = 0, connection = 0, interval = 24, latency = 0,
     supervisionTimeout = 200, phy = 1, connectionPower = 9, ctl_encrypted = False,
     pendingKey = None, aclAssembly = [], completedAcl = 0, aclSent = 0, aclReceived = 0,
     aclFragments = 0, eventMask = zeroBytes 8, leEventMask = zeroBytes 8,
     eventMaskPage2 = zeroBytes 8, randomAddress = zeroBytes 6,
     advertisingParameters = zeroBytes 15, advertisingData = [], scanResponse = [],
     ctl_advertising = False, resolutionEnabled = False, rpaTimeout = 900, resolvingList = [],
     privacyModes = zeroBytes 4, defaultPower = 9, advertisingPower = None,
     nextGeneration = nextGen, nextConnectionHandle = nextHandle, guestWrites = written\<rparr>"

text \<open>\<open>*this = {}\<close>: every member is assigned from a new object; the socket's move assignment
  closes the descriptor it replaces. The file-scope counters stay.\<close>

definition clear_controller :: ctl_op where
  "clear_controller = modify (\<lambda>s. new_controller (sock_assign new_socket (ctl_peer s))
     (nextGeneration s) (nextConnectionHandle s) (guestWrites s))"

section \<open>Calls to the guest and to the peer\<close>

text \<open>\<open>fail\<close> ends the process.\<close>

definition fail_if :: "bool \<Rightarrow> string \<Rightarrow> ctl_op" where
  "fail_if b msg = (if b then abort msg else skip)"

lemma wp_fail_if [wp_rules]:
  "wp (fail_if b msg) Q E A s = (if b then A msg s else Q () s)"
  by (simp add: fail_if_def wp_rules)

definition guestRead :: "guest \<Rightarrow> u32 \<Rightarrow> nat \<Rightarrow> (ble_controller, bytes) prog" where
  "guestRead g address n =
     (case tryRead g address n of None \<Rightarrow> abort ''invalid guest read'' | Some bs \<Rightarrow> ret bs)"

definition guestWrite :: "guest \<Rightarrow> u32 \<Rightarrow> bytes \<Rightarrow> ctl_op" where
  "guestWrite g address bs = block [
     fail_if (address < 0x3FC80000 \<or> (ucast address :: u64) + of_nat (length bs) > 0x3FD00000)
       ''write outside internal data RAM'',
     fail_if (\<not> g_writable g address (length bs)) ''guest write failed'',
     modify (\<lambda>s. s\<lparr>guestWrites := guestWrites s @ [(address, bs)]\<rparr>)]"

definition peerSend :: "peer_message \<Rightarrow> u64 \<Rightarrow> bytes \<Rightarrow> ctl_op" where
  "peerSend m g payload =
     zoom ctl_peer (\<lambda>k s. s\<lparr>ctl_peer := k\<rparr>) (sock_send m g payload)"

end
