(* ===== verification/ControllerLink.thy ===== *)
theory ControllerLink
  imports ControllerState
begin

text \<open>
  The link half of the controller: event queueing (\<open>BleController.Hci.cpp\<close>), the messages of the
  host peer, ACL fragmentation and reassembly, disconnection and encryption
  (\<open>BleController.Link.cpp\<close>).
\<close>

unbundle bit_operations_syntax

section \<open>Events\<close>

definition maskBit :: "bytes \<Rightarrow> nat \<Rightarrow> bool" where
  "maskBit field n \<longleftrightarrow> field ! (n div 8) AND push_bit (n mod 8) 1 \<noteq> 0"

definition queueEvent :: "byte \<Rightarrow> bytes \<Rightarrow> ctl_op" where
  "queueEvent code parameters = inspect (\<lambda>s.
     let n = unat code - 1 in
     if code \<noteq> 0x0E \<and> code \<noteq> 0x0F \<and> code \<noteq> 0x13
        \<and> (code = 0 \<or> 64 \<le> n \<or> \<not> maskBit (eventMask s) n) then skip
     else block [
       fail_if (68 < length parameters \<or> 64 \<le> length (ctl_events s)) ''HCI event capacity exceeded'',
       modify (\<lambda>s. s\<lparr>ctl_events :=
         ctl_events s @ [[4, code, of_nat (length parameters)] @ parameters]\<rparr>)])"

definition queueLeEvent :: "byte \<Rightarrow> bytes \<Rightarrow> ctl_op" where
  "queueLeEvent subevent parameters = inspect (\<lambda>s.
     let n = unat subevent - 1 in
     if subevent = 0 \<or> 64 \<le> n \<or> \<not> maskBit (leEventMask s) n then skip
     else queueEvent 0x3E (subevent # parameters))"

section \<open>Link operations\<close>

definition advertisementPayload :: "ble_controller \<Rightarrow> bytes" where
  "advertisementPayload s = (let addressType = advertisingParameters s ! 5 AND 1 in
     [of_bool (ctl_advertising s), addressType]
     @ (if addressType \<noteq> 0 then randomAddress s else [0x56, 0x34, 0x12, 0x38, 0xC1, 0x02])
     @ [of_nat (length (advertisingData s))] @ advertisingData s
     @ [of_nat (length (scanResponse s))] @ scanResponse s)"

definition advertiseToPeer :: ctl_op where
  "advertiseToPeer = inspect (\<lambda>s. peerSend Advertising 0 (advertisementPayload s))"

definition ctl_disconnect :: "byte \<Rightarrow> ctl_op" where
  "ctl_disconnect reason = inspect (\<lambda>s.
     if connection s = 0 then skip
     else block [
       queueEvent 0x05 (appendLe16 [0] (connection s) @ [reason]),
       peerSend Disconnected (ctl_generation s) [reason],
       modify (\<lambda>s. s\<lparr>connection := 0, ctl_encrypted := False, pendingKey := None,
         aclAssembly := [], completedAcl := 0\<rparr>)])"

definition finishEncryption :: "byte \<Rightarrow> ctl_op" where
  "finishEncryption result = block [
     modify (\<lambda>s. s\<lparr>pendingKey := None, ctl_encrypted := (result = 0)\<rparr>),
     inspect (\<lambda>s. queueEvent 0x08
       (appendLe16 [result] (connection s) @ [of_bool (ctl_encrypted s)])),
     inspect (\<lambda>s. peerSend Encryption (ctl_generation s) [result])]"

section \<open>ACL data\<close>

definition MaxL2capBytes :: nat where "MaxL2capBytes = 1024"
definition AclPayloadBytes :: nat where "AclPayloadBytes = 251"

lemmas acl_limits = MaxL2capBytes_def AclPayloadBytes_def

text \<open>One fragment of an L2CAP packet, as the H4 packet the guest receives.\<close>

definition aclPacket :: "u16 \<Rightarrow> nat \<Rightarrow> bytes \<Rightarrow> bytes" where
  "aclPacket handle offset fragment =
     appendLe16 (appendLe16 [2] (handle OR (if offset = 0 then 0x2000 else 0x1000)))
       (of_nat (length fragment)) @ fragment"

function receiveL2cap_from :: "nat \<Rightarrow> bytes \<Rightarrow> ctl_op" where
  "receiveL2cap_from offset pkt =
     (if length pkt \<le> offset then skip
      else block [
        modify (\<lambda>s. s\<lparr>ctl_events := ctl_events s @
            [aclPacket (connection s) offset (take AclPayloadBytes (drop offset pkt))],
          aclReceived := aclReceived s + 1,
          aclFragments := aclFragments s + (if offset = 0 then 0 else 1)\<rparr>),
        receiveL2cap_from (offset + AclPayloadBytes) pkt])"
  by pat_completeness auto
termination
  by (relation "measure (\<lambda>(offset, pkt). length pkt - offset)") (auto simp: acl_limits)

declare receiveL2cap_from.simps [simp del]

definition ctl_receiveL2cap :: "bytes \<Rightarrow> ctl_op" where
  "ctl_receiveL2cap pkt = receiveL2cap_from 0 pkt"

text \<open>A fragment on the live connection joins the SDU, and a complete SDU goes to the peer.\<close>

definition assembleAcl :: "bytes \<Rightarrow> ctl_op" where
  "assembleAcl payload = block [
     modify (\<lambda>s. s\<lparr>aclAssembly := aclAssembly s @ payload\<rparr>),
     inspect (\<lambda>s. fail_if (length (aclAssembly s) < 4)
       ''ACL start did not contain an L2CAP header''),
     inspect (\<lambda>s. let expectedSize = unat (le16 (aclAssembly s ! 0) (aclAssembly s ! 1)) + 4 in
       block [
         fail_if (MaxL2capBytes < expectedSize \<or> expectedSize < length (aclAssembly s))
           ''invalid L2CAP SDU length'',
         whenever (length (aclAssembly s) = expectedSize) (block [
           peerSend Data (ctl_generation s) (aclAssembly s),
           modify (\<lambda>s. s\<lparr>aclAssembly := []\<rparr>)])]),
     modify (\<lambda>s. s\<lparr>completedAcl := completedAcl s + 1\<rparr>),
     inspect (\<lambda>s. fail_if (12 < completedAcl s) ''ACL controller credits exceeded''),
     modify (\<lambda>s. s\<lparr>aclSent := aclSent s + 1\<rparr>)]"

definition sendAcl :: "bytes \<Rightarrow> ctl_op" where
  "sendAcl pkt = block [
     fail_if (length pkt < 4 \<or> AclPayloadBytes + 4 < length pkt
         \<or> unat (le16 (pkt ! 2) (pkt ! 3)) + 4 \<noteq> length pkt)
       ''invalid outbound ACL length'',
     (let header = le16 (pkt ! 0) (pkt ! 1); handle = header AND 0x0FFF;
          boundary = drop_bit 12 header AND 3 in block [
        fail_if (header AND 0xC000 \<noteq> 0 \<or> boundary = 3) ''invalid ACL flags'',
        inspect (\<lambda>s. if connection s = 0 \<or> handle \<noteq> connection s then skip
          else block [
            (if boundary = 1 then block [
               fail_if (aclAssembly s = []) ''ACL continuation without an SDU'',
               modify (\<lambda>s. s\<lparr>aclFragments := aclFragments s + 1\<rparr>)]
             else fail_if (aclAssembly s \<noteq> [])
               ''new ACL SDU before the previous one completed''),
            assembleAcl (drop 4 pkt)])])]"

section \<open>Messages of the peer\<close>

definition reject :: "byte \<Rightarrow> u64 \<Rightarrow> byte \<Rightarrow> ctl_op" where
  "reject kind gen result = peerSend Rejected gen [kind, result]"

text \<open>Interval, latency and timeout the controller accepts, compared in the width the code
  computes in.\<close>

definition timeoutTooShort :: "u16 \<Rightarrow> u16 \<Rightarrow> u16 \<Rightarrow> bool" where
  "timeoutTooShort slowest slaveLatency timeout \<longleftrightarrow>
     (ucast timeout :: u32) * 4 \<le> (ucast slaveLatency + 1) * ucast slowest"

definition leFields :: "bytes \<Rightarrow> nat \<Rightarrow> u16" where
  "leFields bs i = le16 (bs ! i) (bs ! (i + 1))"

definition connectionComplete :: "bool \<Rightarrow> u16 \<Rightarrow> bytes \<Rightarrow> bytes" where
  "connectionComplete enhanced handle payload =
     appendLe16 [0] handle @ [1] @ take 7 payload @ (if enhanced then zeroBytes 12 else [])
     @ drop 7 payload @ [0]"

definition nextHandle :: "u16 \<Rightarrow> u16" where
  "nextHandle h = (if h = 0xEFF then 1 else h + 1)"

definition peer_connect :: "byte \<Rightarrow> u64 \<Rightarrow> bytes \<Rightarrow> ctl_op" where
  "peer_connect kind gen payload = inspect (\<lambda>s.
     let interval' = leFields payload 7; latency' = leFields payload 9; timeout = leFields payload 11 in
     if gen \<noteq> 0 \<or> connection s \<noteq> 0 \<or> \<not> ctl_advertising s \<or> status s \<noteq> 2
        \<or> advertisingParameters s ! 4 \<noteq> 0 then reject kind gen 0x0C
     else if length payload \<noteq> 13 \<or> 1 < payload ! 0 then reject kind gen 0x12
     else if payload ! 0 = 1 \<and> payload ! 6 AND 0xC0 \<noteq> 0xC0 then reject kind gen 0x11
     else if interval' < 6 \<or> 3200 < interval' \<or> 499 < latency' \<or> timeout < 10 \<or> 3200 < timeout
        \<or> timeoutTooShort interval' latency' timeout then reject kind gen 0x12
     else block [
       modify (\<lambda>s. s\<lparr>interval := interval', latency := latency', supervisionTimeout := timeout,
         nextGeneration := nextGeneration s + 1\<rparr>),
       modify (\<lambda>s. s\<lparr>ctl_generation := nextGeneration s,
         nextConnectionHandle := nextHandle (nextConnectionHandle s)\<rparr>),
       modify (\<lambda>s. s\<lparr>connection := nextConnectionHandle s, ctl_advertising := False, phy := 1,
         ctl_encrypted := False, aclAssembly := [], pendingKey := None\<rparr>),
       inspect (\<lambda>s. let enhanced = leEventMask s ! 1 AND 2 \<noteq> 0 in
         queueLeEvent (if enhanced then 0x0A else 0x01)
           (connectionComplete enhanced (connection s) payload)),
       inspect (\<lambda>s. peerSend Connected (ctl_generation s) payload)])"

definition peer_encrypt :: "byte \<Rightarrow> u64 \<Rightarrow> bytes \<Rightarrow> ctl_op" where
  "peer_encrypt kind gen payload = inspect (\<lambda>s.
     if length payload \<noteq> 26 then reject kind gen 0x12
     else if pendingKey s \<noteq> None \<or> ctl_encrypted s then reject kind gen 0x0C
     else block [
       modify (\<lambda>s. s\<lparr>pendingKey := Some (drop 10 payload)\<rparr>),
       queueLeEvent 0x05 (appendLe16 [] (connection s) @ take 10 payload)])"

definition ctl_peerMessage :: "bytes \<Rightarrow> ctl_op" where
  "ctl_peerMessage pkt = inspect (\<lambda>s.
     let message = peerMessage (pkt ! 0); gen = readLe64 (drop 1 pkt); payload = drop 9 pkt in
     if message \<noteq> Some Connect \<and> (connection s = 0 \<or> gen \<noteq> ctl_generation s) then
       reject (pkt ! 0) gen 0x02
     else if message = Some Connect then peer_connect (pkt ! 0) gen payload
     else if message = Some Disconnect then
       (if length payload \<noteq> 1 then reject (pkt ! 0) gen 0x12 else ctl_disconnect (payload ! 0))
     else if message = Some L2cap then
       (if length payload < 4 \<or> MaxL2capBytes < length payload
           \<or> unat (leFields payload 0) + 4 \<noteq> length payload
        then reject (pkt ! 0) gen 0x12 else ctl_receiveL2cap payload)
     else if message = Some Encrypt then peer_encrypt (pkt ! 0) gen payload
     else reject (pkt ! 0) gen 0x01)"

section \<open>Polling the peer\<close>

definition peer_receive :: "(ble_controller, bytes) prog" where
  "peer_receive s =
     (let (pkt, k) = sock_receive (ctl_peer s) in Normal pkt (s\<lparr>ctl_peer := k\<rparr>))"

text \<open>The loop of \<open>pollPeer\<close>. Every message it handles used up a result of \<open>::recv\<close>, so the
  fuel \<open>pollPeer\<close> gives it is never exhausted (\<open>pollPeer_loop_fuel\<close>).\<close>

fun pollPeer_loop :: "nat \<Rightarrow> ctl_op" where
  "pollPeer_loop 0 = abort ''out of fuel''"
| "pollPeer_loop (Suc fuel) = inspect (\<lambda>s.
     if 24 \<le> length (ctl_events s) then skip
     else bind peer_receive (\<lambda>pkt.
       if pkt = [] then skip else block [ctl_peerMessage pkt, pollPeer_loop fuel]))"

definition pollPeer :: "guest \<Rightarrow> ctl_op" where
  "pollPeer g = block [
     modify (\<lambda>s. s\<lparr>ctl_peer := sock_flush (sock_open (g_open g) (ctl_peer s))\<rparr>),
     inspect (\<lambda>s. pollPeer_loop (length (k_recvs (sock_kernel (ctl_peer s))) + 2)),
     inspect (\<lambda>s. whenever (connection s \<noteq> 0 \<and> \<not> fd (ctl_peer s)) (ctl_disconnect 0x08))]"

end
