(* ===== verification/ControllerHci.thy ===== *)
theory ControllerHci
  imports ControllerLink
begin

text \<open>
  The HCI commands of the controller: \<open>BleController.Connection.cpp\<close> (commands on the connection)
  and \<open>BleController.Hci.cpp\<close> (controller, advertising and resolving-list commands). A command
  gives the return parameters of its completion event; every early return of the code is a branch.
\<close>

unbundle bit_operations_syntax

section \<open>Commands on the connection\<close>

definition connectionCommandLengths :: "(u16 \<times> nat) list" where
  "connectionCommandLengths = [(0x0406, 3), (0x041D, 2), (0x1405, 2), (0x2013, 14), (0x2016, 2),
     (0x201A, 18), (0x201B, 2), (0x2022, 6), (0x2023, 0), (0x2024, 4), (0x202F, 0), (0x2030, 2),
     (0x2031, 3), (0x2032, 7)]"

text \<open>Do, then give the return parameters.\<close>

definition giving :: "ctl_op \<Rightarrow> bytes \<Rightarrow> (ble_controller, bytes) prog" where
  "giving m reply = bind m (\<lambda>_. ret reply)"

lemma wp_giving [wp_rules]: "wp (giving m reply) Q E A = wp m (\<lambda>_. Q reply) E A"
  by (simp add: giving_def wp_rules)

definition connectionUpdate :: "bytes \<Rightarrow> bytes \<Rightarrow> (ble_controller, bytes) prog" where
  "connectionUpdate parameters result =
     (let minimum = leFields parameters 2; maximum = leFields parameters 4;
          latency' = leFields parameters 6; timeout = leFields parameters 8 in
      if minimum < 6 \<or> maximum < minimum \<or> 3200 < maximum \<or> 499 < latency' \<or> timeout < 10
         \<or> 3200 < timeout \<or> timeoutTooShort maximum latency' timeout then ret [0x12]
      else giving (block [
        modify (\<lambda>s. s\<lparr>interval := minimum, latency := latency', supervisionTimeout := timeout\<rparr>),
        inspect (\<lambda>s. queueLeEvent 0x03 (appendLe16 (appendLe16 (appendLe16 result
          (interval s)) (latency s)) (supervisionTimeout s)))]) result)"

text \<open>The comparison of the two keys runs over all sixteen bytes.\<close>

definition keyDifference :: "bytes \<Rightarrow> bytes \<Rightarrow> byte" where
  "keyDifference key other =
     foldl (\<lambda>d i. d OR (key ! i XOR other ! i)) 0 [0..<length key]"

definition ltkReply :: "bytes \<Rightarrow> bytes \<Rightarrow> (ble_controller, bytes) prog" where
  "ltkReply parameters result = inspect (\<lambda>s. case pendingKey s of
       None \<Rightarrow> ret (0x0C # tl result)
     | Some key \<Rightarrow> giving (finishEncryption
         (if keyDifference key (drop 2 parameters) = 0 then 0 else 0x05)) result)"

definition ltkNegativeReply :: "bytes \<Rightarrow> (ble_controller, bytes) prog" where
  "ltkNegativeReply result = inspect (\<lambda>s.
     if pendingKey s = None then ret (0x0C # tl result)
     else giving (finishEncryption 0x06) result)"

definition setDataLength :: "bytes \<Rightarrow> bytes \<Rightarrow> (ble_controller, bytes) prog" where
  "setDataLength parameters result =
     (let octets = leFields parameters 2; timeUs = leFields parameters 4 in
      if octets < 27 \<or> 251 < octets \<or> timeUs < 328 \<or> 17040 < timeUs then ret (0x12 # tl result)
      else giving (queueLeEvent 0x07 (appendLe16 (appendLe16 (appendLe16 (appendLe16 (appendLe16 []
        (leFields parameters 0)) octets) timeUs) 251) 2120)) result)"

definition setPhy :: "bytes \<Rightarrow> bytes \<Rightarrow> (ble_controller, bytes) prog" where
  "setPhy parameters result =
     (if 3 < parameters ! 2 \<or> 7 < parameters ! 3 \<or> 7 < parameters ! 4 \<or> 2 < leFields parameters 5
      then ret [0x12]
      else let common = (if parameters ! 2 AND 1 \<noteq> 0 then 3 else parameters ! 3)
                    AND (if parameters ! 2 AND 2 \<noteq> 0 then 3 else parameters ! 4) in
        if common AND 3 = 0 then ret [0x11]
        else giving (block [
          modify (\<lambda>s. s\<lparr>phy := (if common AND 2 \<noteq> 0 then 2 else 1)\<rparr>),
          inspect (\<lambda>s. queueLeEvent 0x0C (result @ [phy s, phy s]))]) result)"

definition connectionOperation :: "u16 \<Rightarrow> bytes \<Rightarrow> bytes \<Rightarrow> (ble_controller, bytes) prog" where
  "connectionOperation opcode parameters result =
     (if opcode = 0x0406 then giving (ctl_disconnect (parameters ! 2)) result
      else if opcode = 0x041D then giving (queueEvent 0x0C (result @ [9, 0xFF, 0xFF, 0, 0])) result
      else if opcode = 0x1405 then ret (result @ [- 45])
      else if opcode = 0x2016 then
        giving (queueLeEvent 0x04 (result @ [0x63, 0x01, 0, 0, 0, 0, 0, 0])) result
      else if opcode = 0x2013 then connectionUpdate parameters result
      else if opcode = 0x201A then ltkReply parameters result
      else if opcode = 0x201B then ltkNegativeReply result
      else if opcode = 0x2022 then setDataLength parameters result
      else if opcode = 0x2030 then inspect (\<lambda>s. ret (result @ [phy s, phy s]))
      else if opcode = 0x2032 then setPhy parameters result
      else ret result)"

text \<open>The outer option is the code's: no value means that the opcode is not one of these.\<close>

definition connectionCommand :: "u16 \<Rightarrow> bytes \<Rightarrow> (ble_controller, bytes option) prog" where
  "connectionCommand opcode parameters = (case map_of connectionCommandLengths opcode of
       None \<Rightarrow> ret None
     | Some expected \<Rightarrow> bind (
         if length parameters \<noteq> expected then ret [0x12]
         else if opcode = 0x2023 then ret [0, 0xFB, 0, 0x48, 0x08]
         else if opcode = 0x202F then ret [0, 0xFB, 0, 0x48, 0x08, 0xFB, 0, 0x48, 0x08]
         else if opcode = 0x2024 then ret [0x11]
         else if opcode = 0x2031 then ret [0x11]
         else inspect (\<lambda>s. let handle = leFields parameters 0;
                result = appendLe16 [if connection s \<noteq> 0 \<and> handle = connection s then 0 else 2] handle
              in if hd result \<noteq> 0 then ret result else connectionOperation opcode parameters result))
         (\<lambda>reply. ret (Some reply)))"

section \<open>Controller commands\<close>

definition ResolvingCapacity :: nat where "ResolvingCapacity = 4"

definition resetHci :: ctl_op where
  "resetHci = block [
     inspect (\<lambda>s. whenever (connection s \<noteq> 0) (ctl_disconnect 0x16)),
     modify (\<lambda>s. s\<lparr>eventMask := zeroBytes 8, leEventMask := zeroBytes 8, eventMaskPage2 := zeroBytes 8,
       randomAddress := zeroBytes 6, advertisingParameters := zeroBytes 15, advertisingData := [],
       scanResponse := [], ctl_advertising := False, resolutionEnabled := False, rpaTimeout := 900,
       resolvingList := [], privacyModes := zeroBytes 4\<rparr>),
     peerSend Reset 0 []]"

definition commandLengths :: "(u16 \<times> nat) list" where
  "commandLengths = [(0x0C03, 0), (0x1001, 0), (0x1002, 0), (0x1003, 0), (0x1009, 0), (0x0C01, 8),
     (0x0C63, 8), (0x2001, 8), (0x2002, 0), (0x2003, 0), (0x2005, 6), (0x2006, 15), (0x2007, 0),
     (0x2008, 32), (0x2009, 32), (0x200A, 1), (0x2018, 0), (0x2027, 39), (0x2028, 7), (0x2029, 0),
     (0x202A, 0), (0x202D, 1), (0x202E, 2), (0x204E, 8)]"

definition supportedCommandBits :: "nat list" where
  "supportedCommandBits = [
     0 * 8 + 5, 2 * 8 + 7, 15 * 8 + 5,
     27 * 8 + 2, 27 * 8 + 5, 28 * 8 + 1, 28 * 8 + 2, 33 * 8 + 6, 33 * 8 + 7, 35 * 8 + 3,
     35 * 8 + 4, 35 * 8 + 6,
     5 * 8 + 6, 5 * 8 + 7, 14 * 8 + 3, 14 * 8 + 5, 15 * 8 + 1, 22 * 8 + 2,
     25 * 8, 25 * 8 + 1, 25 * 8 + 2, 25 * 8 + 4, 25 * 8 + 5, 25 * 8 + 6, 25 * 8 + 7,
     26 * 8, 26 * 8 + 1, 27 * 8 + 7, 34 * 8 + 3, 34 * 8 + 4, 34 * 8 + 5, 34 * 8 + 6,
     35 * 8 + 1, 35 * 8 + 2, 39 * 8 + 2]"

definition supportedCommands :: bytes where
  "supportedCommands = fold (\<lambda>n reply. reply[1 + n div 8 := reply ! (1 + n div 8) OR push_bit (n mod 8) 1])
     supportedCommandBits (zeroBytes 65)"

definition setAdvertisingParameters :: "bytes \<Rightarrow> (ble_controller, bytes) prog" where
  "setAdvertisingParameters p = inspect (\<lambda>s.
     if ctl_advertising s then ret [0x0C]
     else if 4 < p ! 4 \<or> 3 < p ! 5 \<or> 1 < p ! 6 \<or> p ! 13 = 0 \<or> 7 < p ! 13 \<or> 3 < p ! 14 then ret [0x12]
     else if leFields p 0 < 0x20 \<or> 0x4000 < leFields p 2 \<or> leFields p 2 < leFields p 0 then ret [0x12]
     else giving (modify (\<lambda>s. s\<lparr>advertisingParameters := p\<rparr>)) [0])"

definition readAdvertisingPower :: "ble_controller \<Rightarrow> bytes" where
  "readAdvertisingPower s =
     (let level = (case advertisingPower s of Some p \<Rightarrow> p | None \<Rightarrow> defaultPower s) in
      [0, if level = 15 then 20 else - 24 + 3 * level])"

definition setAdvertisingData :: "u16 \<Rightarrow> bytes \<Rightarrow> (ble_controller, bytes) prog" where
  "setAdvertisingData opcode p =
     (if 31 < p ! 0 then ret [0x12]
      else let content = take (unat (p ! 0)) (tl p) in
        giving (modify (\<lambda>s. if opcode = 0x2008 then s\<lparr>advertisingData := content\<rparr>
          else s\<lparr>scanResponse := content\<rparr>)) [0])"

definition setAdvertising :: "bytes \<Rightarrow> (ble_controller, bytes) prog" where
  "setAdvertising p = inspect (\<lambda>s.
     if 1 < p ! 0 then ret [0x12]
     else if connection s \<noteq> 0 \<and> p ! 0 \<noteq> 0 then ret [0x0C]
     else if p ! 0 \<noteq> 0 \<and> advertisingParameters s ! 5 AND 1 \<noteq> 0
        \<and> list_all (\<lambda>b. b = 0) (randomAddress s) then ret [0x12]
     else giving (block [
       modify (\<lambda>s. s\<lparr>ctl_advertising := (p ! 0 \<noteq> 0)\<rparr>),
       advertiseToPeer]) [0])"

text \<open>The position of the first entry with the identity, if there is one.\<close>

fun findIdentity :: "bytes \<Rightarrow> bytes list \<Rightarrow> nat option" where
  "findIdentity identity [] = None"
| "findIdentity identity (item # items) =
     (if take 7 item = identity then Some 0 else map_option Suc (findIdentity identity items))"

definition addToResolvingList :: "bytes \<Rightarrow> (ble_controller, bytes) prog" where
  "addToResolvingList p = inspect (\<lambda>s.
     if resolutionEnabled s \<and> ctl_advertising s then ret [0x0C]
     else if 1 < p ! 0 then ret [0x12]
     else if findIdentity (take 7 p) (resolvingList s) \<noteq> None then ret [0x12]
     else if length (resolvingList s) = ResolvingCapacity then ret [7]
     else giving (modify (\<lambda>s. s\<lparr>resolvingList := resolvingList s @ [p]\<rparr>)) [0])"

text \<open>The shift of the privacy modes, element by element as the loop does it.\<close>

definition dropMode :: "nat \<Rightarrow> nat \<Rightarrow> bytes \<Rightarrow> bytes" where
  "dropMode index entries modes =
     (fold (\<lambda>i m. m[i := m ! (i + 1)]) [index..<entries - 1] modes)[entries - 1 := 0]"

definition removeFromResolvingList :: "bytes \<Rightarrow> (ble_controller, bytes) prog" where
  "removeFromResolvingList p = inspect (\<lambda>s.
     if resolutionEnabled s \<and> ctl_advertising s then ret [0x0C]
     else case findIdentity p (resolvingList s) of
       None \<Rightarrow> ret [2]
     | Some index \<Rightarrow> giving (modify (\<lambda>s. s\<lparr>
         privacyModes := dropMode index (length (resolvingList s)) (privacyModes s),
         resolvingList := take index (resolvingList s) @ drop (Suc index) (resolvingList s)\<rparr>)) [0])"

definition clearResolvingList :: "(ble_controller, bytes) prog" where
  "clearResolvingList = inspect (\<lambda>s.
     if resolutionEnabled s \<and> ctl_advertising s then ret [0x0C]
     else giving (modify (\<lambda>s. s\<lparr>resolvingList := [], privacyModes := zeroBytes 4\<rparr>)) [0])"

definition setResolution :: "bytes \<Rightarrow> (ble_controller, bytes) prog" where
  "setResolution p = inspect (\<lambda>s.
     if ctl_advertising s then ret [0x0C]
     else if 1 < p ! 0 then ret [0x12]
     else giving (modify (\<lambda>s. s\<lparr>resolutionEnabled := (p ! 0 \<noteq> 0)\<rparr>)) [0])"

definition setRpaTimeout :: "bytes \<Rightarrow> (ble_controller, bytes) prog" where
  "setRpaTimeout p =
     (if leFields p 0 = 0 \<or> 0xA1B8 < leFields p 0 then ret [0x12]
      else giving (modify (\<lambda>s. s\<lparr>rpaTimeout := leFields p 0\<rparr>)) [0])"

definition setPrivacyMode :: "bytes \<Rightarrow> (ble_controller, bytes) prog" where
  "setPrivacyMode p = inspect (\<lambda>s.
     if 1 < p ! 0 \<or> 1 < p ! 7 then ret [0x12]
     else case findIdentity (take 7 p) (resolvingList s) of
       None \<Rightarrow> ret [2]
     | Some index \<Rightarrow> giving (modify (\<lambda>s. s\<lparr>privacyModes := (privacyModes s)[index := p ! 7]\<rparr>)) [0])"

definition controllerOperation :: "guest \<Rightarrow> u16 \<Rightarrow> bytes \<Rightarrow> (ble_controller, bytes) prog" where
  "controllerOperation g opcode p =
     (if opcode = 0x0C03 then giving resetHci [0]
      else if opcode = 0x1001 then ret [0, 9, 0, 0, 9, 0xFF, 0xFF, 0, 0]
      else if opcode = 0x1002 then ret supportedCommands
      else if opcode = 0x1003 then ret [0, 0, 0, 0, 0, 0x60, 0, 0, 0]
      else if opcode = 0x1009 then ret [0, 0x56, 0x34, 0x12, 0x38, 0xC1, 0x02]
      else if opcode = 0x2002 then ret [0, 0xFB, 0, 12]
      else if opcode = 0x2003 then ret [0, 0x63, 0x01, 0, 0, 0, 0, 0, 0]
      else if opcode = 0x0C01 then giving (modify (\<lambda>s. s\<lparr>eventMask := p\<rparr>)) [0]
      else if opcode = 0x0C63 then giving (modify (\<lambda>s. s\<lparr>eventMaskPage2 := p\<rparr>)) [0]
      else if opcode = 0x2001 then giving (modify (\<lambda>s. s\<lparr>leEventMask := p\<rparr>)) [0]
      else if opcode = 0x2005 then inspect (\<lambda>s. if ctl_advertising s then ret [0x0C]
        else giving (modify (\<lambda>s. s\<lparr>randomAddress := p\<rparr>)) [0])
      else if opcode = 0x2006 then setAdvertisingParameters p
      else if opcode = 0x2007 then gets readAdvertisingPower
      else if opcode = 0x2008 \<or> opcode = 0x2009 then setAdvertisingData opcode p
      else if opcode = 0x200A then setAdvertising p
      else if opcode = 0x2018 then ret (0 # map (g_random g) [0..<8])
      else if opcode = 0x2027 then addToResolvingList p
      else if opcode = 0x2028 then removeFromResolvingList p
      else if opcode = 0x2029 then clearResolvingList
      else if opcode = 0x202A then ret [0, of_nat ResolvingCapacity]
      else if opcode = 0x202D then setResolution p
      else if opcode = 0x202E then setRpaTimeout p
      else if opcode = 0x204E then setPrivacyMode p
      else ret [0])"

definition controllerCommand :: "guest \<Rightarrow> u16 \<Rightarrow> bytes \<Rightarrow> (ble_controller, bytes) prog" where
  "controllerCommand g opcode parameters = (case map_of commandLengths opcode of
       None \<Rightarrow> ret [1]
     | Some expected \<Rightarrow>
         if length parameters \<noteq> expected then ret [0x12] else controllerOperation g opcode parameters)"

definition command_of :: "guest \<Rightarrow> u16 \<Rightarrow> bytes \<Rightarrow> (ble_controller, bytes) prog" where
  "command_of g opcode parameters = bind (connectionCommand opcode parameters) (\<lambda>result.
     case result of Some reply \<Rightarrow> ret reply | None \<Rightarrow> controllerCommand g opcode parameters)"

section \<open>Completion\<close>

definition asynchronous :: "u16 \<Rightarrow> bool" where
  "asynchronous opcode \<longleftrightarrow> opcode = 0x0406 \<or> opcode = 0x041D \<or> opcode = 0x2013
     \<or> opcode = 0x2016 \<or> opcode = 0x2032"

definition completionEvent :: "u16 \<Rightarrow> bytes \<Rightarrow> bytes" where
  "completionEvent opcode result =
     (if asynchronous opcode then appendLe16 [4, 0x0F, 4, result ! 0, 1] opcode
      else appendLe16 [4, 0x0E, of_nat (3 + length result), 1] opcode @ result)"

text \<open>Inserting past the end of the queue would be undefined behaviour.\<close>

definition completeCommand :: "u16 \<Rightarrow> bytes \<Rightarrow> nat \<Rightarrow> ctl_op" where
  "completeCommand opcode result eventIndex = inspect (\<lambda>s.
     if length (ctl_events s) < eventIndex then abort ''insertion past the end of the queue''
     else modify (\<lambda>s. s\<lparr>ctl_events := take eventIndex (ctl_events s)
       @ [completionEvent opcode result] @ drop eventIndex (ctl_events s)\<rparr>))"

end
