(* ===== verification/ControllerGatt.thy ===== *)
theory ControllerGatt
  imports ControllerLink
begin

text \<open>
  The publication of the guest's GATT database, \<open>BleController.Gatt.cpp\<close>: the NimBLE attribute
  list is walked in guest memory without running any callback, serialised, and sent to the peer in
  chunks. An exception anywhere in the walk sends the empty last chunk instead.
\<close>

unbundle bit_operations_syntax

section \<open>Reading the list\<close>

definition readGattBytes :: "guest \<Rightarrow> u32 \<Rightarrow> nat \<Rightarrow> string + bytes" where
  "readGattBytes g address n =
     (if address = 0 \<or> 0xFFFFFFFF - 32 < address \<or> 32 < n then Inl ''invalid NimBLE GATT pointer''
      else case tryRead g address n of
        None \<Rightarrow> Inl ''invalid NimBLE GATT pointer''
      | Some bs \<Rightarrow> Inr bs)"

definition readGattUuid :: "guest \<Rightarrow> u32 \<Rightarrow> string + bytes" where
  "readGattUuid g address = bindR (readGattBytes g address 1) (\<lambda>kind.
     if kind ! 0 = 16 then readGattBytes g (address + 2) 2
     else if kind ! 0 = 128 then readGattBytes g (address + 1) 16
     else if kind ! 0 = 32 then bindR (readGattBytes g (address + 4) 4) (\<lambda>bs.
       Inr ([0xFB, 0x34, 0x9B, 0x5F, 0x80, 0, 0, 0x80, 0, 0x10, 0, 0] @ bs))
     else Inl ''invalid NimBLE UUID type'')"

section \<open>Serialising an attribute\<close>

definition shortUuid :: "bytes \<Rightarrow> u16 \<Rightarrow> bool" where
  "shortUuid uuid v \<longleftrightarrow> length uuid = 2 \<and> leFields uuid 0 = v"

definition characteristicValue :: "guest \<Rightarrow> u32 \<Rightarrow> u32 \<Rightarrow> string + bytes" where
  "characteristicValue g argument following =
     bindR (readGattBytes g argument 20) (\<lambda>body.
     bindR (readGattUuid g (readLe32 body)) (\<lambda>uuid.
     bindR (readGattBytes g following 20) (\<lambda>nextAttribute.
     bindR (readGattUuid g (readLe32 (drop 4 nextAttribute))) (\<lambda>valueUuid.
       requireR (valueUuid = uuid) ''invalid NimBLE characteristic value attribute''
       (let flags = leFields body 16 in
        Inr (appendLe16 [ucast (flags AND 0x7F) OR (if flags AND 0x180 \<noteq> 0 then 0x80 else 0)]
          (leFields nextAttribute 10) @ uuid))))))"

definition declarationValue :: "guest \<Rightarrow> bytes \<Rightarrow> u32 \<Rightarrow> u32 \<Rightarrow> string + bytes" where
  "declarationValue g uuid argument following =
     (if shortUuid uuid 0x2800 \<or> shortUuid uuid 0x2801 then
        bindR (readGattBytes g (argument + 4) 4) (\<lambda>address. readGattUuid g (readLe32 address))
      else if shortUuid uuid 0x2803 then characteristicValue g argument following
      else Inr [])"

text \<open>What one attribute adds to the database.\<close>

definition attributeRecord :: "u16 \<Rightarrow> byte \<Rightarrow> byte \<Rightarrow> bytes \<Rightarrow> bytes \<Rightarrow> bytes" where
  "attributeRecord handle flags keySize uuid content =
     appendLe16 [] handle @ [flags, keySize, of_nat (length uuid)] @ uuid
     @ [of_nat (length content)] @ content"

section \<open>Walking the list\<close>

text \<open>The loop over the entries; the handles rise, so it takes at most 65535 rounds.\<close>

function readDatabase :: "guest \<Rightarrow> u32 \<Rightarrow> u16 \<Rightarrow> bytes \<Rightarrow> string + bytes" where
  "readDatabase g entry previousHandle database =
     (if entry = 0 then Inr database
      else case readGattBytes g entry 20 of
        Inl e \<Rightarrow> Inl e
      | Inr attribute \<Rightarrow>
          (let handle = leFields attribute 10 in
           if handle \<le> previousHandle \<or> 32000 < length database then Inl ''invalid NimBLE GATT list''
           else case readGattUuid g (readLe32 (drop 4 attribute)) of
             Inl e \<Rightarrow> Inl e
           | Inr uuid \<Rightarrow>
               (case declarationValue g uuid (readLe32 (drop 16 attribute)) (readLe32 attribute) of
                  Inl e \<Rightarrow> Inl e
                | Inr content \<Rightarrow> readDatabase g (readLe32 attribute) handle
                    (database @ attributeRecord handle (attribute ! 8) (attribute ! 9) uuid content))))"
  by pat_completeness auto
termination
  by (relation "measure (\<lambda>(g, entry, previousHandle, database). 65536 - unat previousHandle)")
    (auto simp: word_less_nat_alt not_le intro!: diff_less_mono2 less_trans [OF _ word16_unat_less])

declare readDatabase.simps [simp del]

definition guestDatabase :: "guest \<Rightarrow> string + bytes" where
  "guestDatabase g =
     requireR (g_gattList g \<noteq> 0) ''NimBLE GATT database unavailable or empty''
     (bindR (readDatabase g (g_gattList g) 0 [2]) (\<lambda>database.
        requireR (database \<noteq> []) ''NimBLE GATT database is empty'' (Inr database)))"

section \<open>Publishing\<close>

definition ChunkBytes :: nat where "ChunkBytes = 1000"

text \<open>The chunks from an offset on: the first carries flag 1, the last flag 2.\<close>

function chunksFrom :: "nat \<Rightarrow> bytes \<Rightarrow> bytes list" where
  "chunksFrom offset database =
     (if length database \<le> offset then []
      else let count = min ChunkBytes (length database - offset) in
        (((if offset = 0 then 1 else 0) OR (if offset + count = length database then 2 else 0))
           # take count (drop offset database))
        # chunksFrom (offset + ChunkBytes) database)"
  by pat_completeness auto
termination
  by (relation "measure (\<lambda>(offset, database). length database - offset)")
    (auto simp: ChunkBytes_def)

declare chunksFrom.simps [simp del]

definition publishGatt :: "guest \<Rightarrow> ctl_op" where
  "publishGatt g = (case guestDatabase g of
       Inl e \<Rightarrow> peerSend GattDatabase 0 [3]
     | Inr database \<Rightarrow> forEach (peerSend GattDatabase 0) (chunksFrom 0 database))"

end
