(* ===== verification/BleController.thy ===== *)
theory BleController
  imports ControllerHci ControllerGatt
begin

text \<open>
  The controller as the guest calls it: \<open>BleController::send\<close>, \<open>poll\<close> and \<open>step\<close> with the
  process-level \<open>bleHleReset\<close>, \<open>BleController.Hci.cpp\<close> and \<open>BleController.cpp\<close>. \<open>step\<close> is one
  definition per group of cases; its result is the next call into the guest or a return value.
\<close>

unbundle bit_operations_syntax

type_synonym ctl_step = "(ble_controller, ble_step) prog"

definition stepping :: "ctl_op \<Rightarrow> ctl_step \<Rightarrow> ctl_step" where
  "stepping m k = bind m (\<lambda>_. k)"

lemma wp_stepping [wp_rules]: "wp (stepping m k) Q E A = wp m (\<lambda>_. wp k Q E A) E A"
  by (simp add: stepping_def wp_rules)

section \<open>Packets of the guest\<close>

definition send_command :: "guest \<Rightarrow> bytes \<Rightarrow> nat \<Rightarrow> ctl_op" where
  "send_command g bs amount = block [
     fail_if (unat (bs ! 3) + 4 \<noteq> amount) ''inconsistent HCI parameter length'',
     inspect (\<lambda>s. fail_if (commandPending s) ''HCI command credit exceeded''),
     modify (\<lambda>s. s\<lparr>commands := commands s + 1, commandPending := True\<rparr>),
     bind (gets (\<lambda>s. length (ctl_events s))) (\<lambda>eventIndex.
       let opcode = leFields bs 1 in
       bind (command_of g opcode (drop 4 bs)) (\<lambda>reply. block [
         completeCommand opcode reply eventIndex,
         inspect (\<lambda>s. whenever (opcode = 0x200A \<and> reply ! 0 = 0 \<and> ctl_advertising s)
           (publishGatt g))]))]"

definition ctl_send :: "guest \<Rightarrow> u32 \<Rightarrow> u32 \<Rightarrow> ctl_op" where
  "ctl_send g address amount = block [
     fail_if (amount < 4 \<or> 259 < amount) ''invalid H4 packet length'',
     bind (guestRead g address (unat amount)) (\<lambda>bs.
       if bs ! 0 = 2 then sendAcl (drop 1 bs)
       else if bs ! 0 = 1 then send_command g bs (unat amount)
       else abort ''unsupported H4 packet type''),
     modify (\<lambda>s. s\<lparr>sendAvailable := False, readyPending := True\<rparr>)]"

section \<open>Worker\<close>

definition WorkspaceSize :: u32 where "WorkspaceSize = 512"
definition TaskHandleOffset :: u32 where "TaskHandleOffset = 16"
definition PacketOffset :: u32 where "PacketOffset = 32"
definition OsiSemaphoreCreate :: nat where "OsiSemaphoreCreate = 0x24 div 4"
definition OsiSemaphoreDelete :: nat where "OsiSemaphoreDelete = 0x28 div 4"
definition OsiSemaphoreTake :: nat where "OsiSemaphoreTake = 0x34 div 4"
definition OsiTaskCreate :: nat where "OsiTaskCreate = 0x64 div 4"
definition OsiTaskDelete :: nat where "OsiTaskDelete = 0x68 div 4"
definition OsiMallocInternal :: nat where "OsiMallocInternal = 0x78 div 4"
definition OsiFree :: nat where "OsiFree = 0x7C div 4"
definition RomOsiPointer :: u32 where "RomOsiPointer = 0x3FCEFF60"
definition OutOfMemory :: u32 where "OutOfMemory = 0x101"
definition InvalidArgument :: u32 where "InvalidArgument = 0x102"
definition InvalidState :: u32 where "InvalidState = 0x103"
definition NotSupported :: u32 where "NotSupported = 0x106"

lemmas osi_slots = OsiSemaphoreCreate_def OsiSemaphoreDelete_def OsiSemaphoreTake_def
  OsiTaskCreate_def OsiTaskDelete_def OsiMallocInternal_def OsiFree_def

definition wait_step :: "guest \<Rightarrow> ctl_step" where
  "wait_step g = stepping (modify (\<lambda>s. s\<lparr>delayStartedNs := g_timeNs g\<rparr>))
     (gets (\<lambda>s. hle_call (osi s ! OsiSemaphoreTake) HleDelayReturned
       [semaphore s, pollTimeoutMs s]))"

definition reportCompletedAcl :: ctl_op where
  "reportCompletedAcl = inspect (\<lambda>s. whenever (completedAcl s \<noteq> 0) (block [
     modify (\<lambda>s. s\<lparr>completedAcl := 0\<rparr>),
     queueEvent 0x13 (appendLe16 (appendLe16 [1] (connection s)) (completedAcl s))]))"

definition deliver_step :: "guest \<Rightarrow> bytes \<Rightarrow> ctl_step" where
  "deliver_step g event = stepping (block [
     inspect (\<lambda>s. guestWrite g (workspace s + PacketOffset) event),
     whenever (event ! 0 = 4 \<and> (event ! 1 = 0x0E \<or> event ! 1 = 0x0F))
       (modify (\<lambda>s. s\<lparr>commandPending := False\<rparr>)),
     modify (\<lambda>s. s\<lparr>receiveInFlight := True\<rparr>)])
     (gets (\<lambda>s. hle_call (receiveCallback s) HleReceiveReturned
       [workspace s + PacketOffset, of_nat (length event)]))"

definition ctl_poll :: "guest \<Rightarrow> ctl_step" where
  "ctl_poll g = stepping (pollPeer g) (inspect (\<lambda>s.
     if status s \<noteq> 2 \<or> receiveCallback s = 0 \<or> readyCallback s = 0 then wait_step g
     else if readyPending s then
       stepping (modify (\<lambda>s. s\<lparr>readyPending := False, sendAvailable := True\<rparr>))
         (gets (\<lambda>s. hle_call (readyCallback s) HleReadyReturned []))
     else stepping reportCompletedAcl (inspect (\<lambda>s.
       case ctl_events s of [] \<Rightarrow> wait_step g | event # _ \<Rightarrow> deliver_step g event))))"

section \<open>Lifecycle\<close>

definition answer :: "ctl_op \<Rightarrow> u32 \<Rightarrow> ctl_step" where
  "answer m r = stepping m (ret (returnValue r))"

lemma wp_answer [wp_rules]: "wp (answer m r) Q E A = wp m (\<lambda>_. Q (returnValue r)) E A"
  by (simp add: answer_def wp_rules)

text \<open>An entry of the callback table is the start of a Xtensa function: \<open>ENTRY\<close> on \<open>a1\<close>.\<close>

definition validEntry :: "guest \<Rightarrow> u32 \<Rightarrow> bool" where
  "validEntry g address = (case tryRead g address 3 of
     None \<Rightarrow> False | Some code \<Rightarrow> code ! 0 = 0x36 \<and> code ! 1 AND 15 = 1)"

definition requiredSlots :: "nat list" where
  "requiredSlots = [OsiSemaphoreCreate, OsiSemaphoreDelete, OsiSemaphoreTake, OsiTaskCreate,
     OsiTaskDelete, OsiMallocInternal, OsiFree]"

definition supportedOsi :: "u32 \<Rightarrow> u32 list \<Rightarrow> bool" where
  "supportedOsi version table \<longleftrightarrow> table ! 0 = 0xFADEBEAD \<and>
     (if version = 0x02401120 then table ! 1 = 0x00010007
      else table ! 1 = 0x0001000A \<or> table ! 1 = 0x0001000B)"

definition init_table :: "guest \<Rightarrow> u32 \<Rightarrow> ctl_step" where
  "init_table g version = bind (guestRead g RomOsiPointer 4) (\<lambda>pointer.
     bind (guestRead g (readLe32 pointer) 128) (\<lambda>table.
     stepping (modify (\<lambda>s. s\<lparr>osi := words32 32 table\<rparr>)) (inspect (\<lambda>s.
       if \<not> supportedOsi version (osi s)
          \<or> \<not> list_all (\<lambda>slot. validEntry g (osi s ! slot)) requiredSlots
       then ret (returnValue NotSupported)
       else ret (hle_call (osi s ! OsiMallocInternal) HleAllocated [WorkspaceSize])))))"

definition step_init :: "guest \<Rightarrow> u32 list \<Rightarrow> ctl_step" where
  "step_init g registers = inspect (\<lambda>s.
     if status s \<noteq> 0 \<or> workspace s \<noteq> 0 then ret (returnValue InvalidState)
     else if registers ! 2 = 0 then ret (returnValue InvalidArgument)
     else bind (guestRead g (registers ! 2) 16) (\<lambda>config.
       let version = readLe32 (drop 4 config) in
       if readLe32 config \<noteq> 0x5A5AA5A5 \<or> (version \<noteq> 0x02401120 \<and> version \<noteq> 0x02509280)
          \<or> config ! 12 \<noteq> 1 then ret (returnValue InvalidArgument)
       else stepping (modify (\<lambda>s. s\<lparr>workerStackBytes := ucast (leFields config 8),
           workerPriority := ucast (config ! 10), workerCore := ucast (config ! 11),
           sleepMode := config ! 14\<rparr>))
         (init_table g version)))"

definition workspaceImage :: bytes where
  "workspaceImage = [0x62, 0x6C, 0x65, 0x2D, 0x68, 0x6C, 0x65, 0] @ zeroBytes 504"

definition step_allocated :: "guest \<Rightarrow> u32 list \<Rightarrow> ctl_step" where
  "step_allocated g registers = stepping (modify (\<lambda>s. s\<lparr>workspace := registers ! 10\<rparr>))
     (inspect (\<lambda>s.
       if workspace s = 0 then ret (returnValue OutOfMemory)
       else stepping (guestWrite g (workspace s) workspaceImage)
         (ret (hle_call (osi s ! OsiSemaphoreCreate) HleSemaphoreCreated [1, 0]))))"

definition step_semaphoreCreated :: "u32 list \<Rightarrow> ctl_step" where
  "step_semaphoreCreated registers = stepping (modify (\<lambda>s. s\<lparr>semaphore := registers ! 10\<rparr>))
     (gets (\<lambda>s.
       if semaphore s = 0 then hle_call (osi s ! OsiFree) HleTaskCreateFailed [workspace s]
       else hle_call (osi s ! OsiTaskCreate) HleTaskCreated [HleTaskEntry, workspace s,
         workerStackBytes s, workspace s, workerPriority s, workspace s + TaskHandleOffset,
         workerCore s]))"

definition step_taskCreated :: "guest \<Rightarrow> u32 list \<Rightarrow> ctl_step" where
  "step_taskCreated g registers = inspect (\<lambda>s.
     if registers ! 10 \<noteq> 1 then
       stepping (modify (\<lambda>s. s\<lparr>initFailed := True\<rparr>))
         (ret (hle_call (osi s ! OsiSemaphoreDelete) HleSemaphoreDeleted [semaphore s]))
     else bind (guestRead g (workspace s + TaskHandleOffset) 4) (\<lambda>handle.
       answer (modify (\<lambda>s. s\<lparr>task := readLe32 handle, status := 1\<rparr>)) 0))"

definition step_enable :: "u32 list \<Rightarrow> ctl_step" where
  "step_enable registers = inspect (\<lambda>s.
     if status s \<noteq> 1 then ret (returnValue InvalidState)
     else if registers ! 2 \<noteq> 1 then ret (returnValue InvalidArgument)
     else answer (modify (\<lambda>s. s\<lparr>status := 2\<rparr>)) 0)"

definition step_disable :: ctl_step where
  "step_disable = answer (block [
     modify (\<lambda>s. s\<lparr>status := 1\<rparr>),
     resetHci,
     modify (\<lambda>s. s\<lparr>ctl_events := [], readyPending := False, commandPending := False,
       sendAvailable := True, completedAcl := 0, readyCallback := 0, receiveCallback := 0,
       receiveCancelled := receiveInFlight s\<rparr>)]) 0"

definition step_deinit :: ctl_step where
  "step_deinit = gets (\<lambda>s.
     if status s \<noteq> 1 then returnValue InvalidState
     else hle_call (osi s ! OsiTaskDelete) HleTaskDeleted [task s])"

definition step_taskDeleted :: ctl_step where
  "step_taskDeleted = gets (\<lambda>s.
     hle_call (osi s ! OsiSemaphoreDelete) HleSemaphoreDeleted [semaphore s])"

definition step_semaphoreDeleted :: ctl_step where
  "step_semaphoreDeleted = stepping (modify (\<lambda>s. s\<lparr>semaphore := 0\<rparr>)) (gets (\<lambda>s.
     hle_call (osi s ! OsiFree) (if initFailed s then HleTaskCreateFailed else HleFreed)
       [workspace s]))"

section \<open>Features, power and registration\<close>

definition step_features :: "u32 \<Rightarrow> u32 list \<Rightarrow> ctl_step" where
  "step_features operation registers =
     answer (modify (\<lambda>s. s\<lparr>features :=
       (features s)[unat (operation - HlePllTrack) := (registers ! 2 \<noteq> 0)]\<rparr>)) 0"

definition step_offload :: "u32 \<Rightarrow> u32 list \<Rightarrow> ctl_step" where
  "step_offload operation registers = inspect (\<lambda>s.
     if operation = HleOffloadRegister then
       (if 8 \<le> registers ! 2 \<or> registers ! 3 = 0 then ret (returnValue (- 1))
        else answer (modify (\<lambda>s. s\<lparr>offloadCallbacks :=
          (offloadCallbacks s)[unat (registers ! 2) := registers ! 3]\<rparr>)) 0)
     else
       (if 8 \<le> registers ! 2 then ret (returnValue (- 1))
        else answer (modify (\<lambda>s. s\<lparr>offloadCallbacks :=
          (offloadCallbacks s)[unat (registers ! 2) := 0]\<rparr>)) 0))"

definition step_register :: "guest \<Rightarrow> u32 list \<Rightarrow> ctl_step" where
  "step_register g registers = inspect (\<lambda>s.
     if status s \<noteq> 2 then ret (returnValue InvalidState)
     else if registers ! 2 = 0 then ret (returnValue InvalidArgument)
     else bind (guestRead g (registers ! 2) 8) (\<lambda>bs.
       answer (modify (\<lambda>s. s\<lparr>readyCallback := readLe32 bs, receiveCallback := readLe32 (drop 4 bs)\<rparr>)) 0))"

definition step_powerSet :: "u32 list \<Rightarrow> ctl_step" where
  "step_powerSet registers = inspect (\<lambda>s.
     if status s \<noteq> 2 \<or> 4 < registers ! 2 \<or> 15 < registers ! 4 then ret (returnValue (- 1))
     else if registers ! 2 = 4 then
       (if connection s = 0 \<or> registers ! 3 \<noteq> ucast (connection s) then ret (returnValue (- 1))
        else answer (modify (\<lambda>s. s\<lparr>connectionPower := ucast (registers ! 4)\<rparr>)) 0)
     else if registers ! 2 = 0 then
       answer (modify (\<lambda>s. s\<lparr>defaultPower := ucast (registers ! 4)\<rparr>)) 0
     else if registers ! 2 = 1 \<and> (registers ! 3 = 0 \<or> registers ! 3 = 0xFFFF) then
       answer (modify (\<lambda>s. s\<lparr>advertisingPower := Some (ucast (registers ! 4))\<rparr>)) 0
     else ret (returnValue (- 1)))"

definition step_powerGet :: "u32 list \<Rightarrow> ctl_step" where
  "step_powerGet registers = gets (\<lambda>s.
     if status s \<noteq> 2 then returnValue (- 1)
     else if registers ! 2 = 0 then returnValue (ucast (defaultPower s))
     else if registers ! 2 = 1 \<and> (registers ! 3 = 0 \<or> registers ! 3 = 0xFFFF) then
       returnValue (ucast (case advertisingPower s of Some p \<Rightarrow> p | None \<Rightarrow> defaultPower s))
     else if registers ! 2 = 4 \<and> registers ! 3 = ucast (connection s) \<and> connection s \<noteq> 0 then
       returnValue (ucast (connectionPower s))
     else returnValue (- 1))"

section \<open>Returns into the worker\<close>

definition step_delayReturned :: "guest \<Rightarrow> ctl_step" where
  "step_delayReturned g = stepping (block [
     modify (\<lambda>s. s\<lparr>shortWaits :=
       (if g_timeNs g - delayStartedNs s < 100000 then shortWaits s + 1 else 0)\<rparr>),
     inspect (\<lambda>s. whenever (shortWaits s = 8) (block [
       fail_if (1000 \<le> pollTimeoutMs s) ''OSI semaphore wait did not block'',
       modify (\<lambda>s. s\<lparr>pollTimeoutMs := min (pollTimeoutMs s * 2) 1000, shortWaits := 0\<rparr>)])),
     modify (\<lambda>s. s\<lparr>delayResumes := delayResumes s + 1\<rparr>)])
     (ctl_poll g)"

definition pop_event :: ctl_op where
  "pop_event = inspect (\<lambda>s. if ctl_events s = [] then abort ''pop_front of an empty queue''
     else modify (\<lambda>s. s\<lparr>ctl_events := tl (ctl_events s), received := received s + 1\<rparr>))"

definition step_receiveReturned :: "guest \<Rightarrow> u32 list \<Rightarrow> ctl_step" where
  "step_receiveReturned g registers =
     bind (gets receiveCancelled) (\<lambda>cancelled.
     stepping (modify (\<lambda>s. s\<lparr>receiveInFlight := False, receiveCancelled := False\<rparr>))
       (if cancelled then ctl_poll g
        else if registers ! 10 \<noteq> 0 then wait_step g
        else stepping pop_event (ctl_poll g)))"

definition step_readyReturned :: "guest \<Rightarrow> ctl_step" where
  "step_readyReturned g = stepping (modify (\<lambda>s. s\<lparr>readyCount := readyCount s + 1\<rparr>)) (ctl_poll g)"

section \<open>Dispatch\<close>

definition step_flags :: "u32 \<Rightarrow> u32 list \<Rightarrow> ctl_step" where
  "step_flags operation registers =
     (if operation = HleSleepEnable then
        answer (modify (\<lambda>s. s\<lparr>sleepEnabled := (registers ! 2 \<noteq> 0)\<rparr>)) 0
      else if operation = HleWakeupRequesting then
        answer (modify (\<lambda>s. s\<lparr>wakeupRequested := (registers ! 2 \<noteq> 0)\<rparr>)) 0
      else if operation = HleWakeup then answer (modify (\<lambda>s. s\<lparr>wakeupRequested := True\<rparr>)) 0
      else if operation \<in> {HlePhyInit, HlePhyWakeup, HlePhyWakeupImpl} then
        answer (modify (\<lambda>s. s\<lparr>phyEnabled := True\<rparr>)) 0
      else if operation \<in> {HlePhyClose, HlePhyCloseImpl} then
        answer (modify (\<lambda>s. s\<lparr>phyEnabled := False\<rparr>)) 0
      else ret (returnValue 0))"

definition step_queries :: "u32 \<Rightarrow> ctl_step" where
  "step_queries operation = gets (\<lambda>s.
     if operation = HleMode then returnValue (if status s \<noteq> 0 then 1 else 0)
     else if operation = HlePowerActive then returnValue (of_bool (status s \<noteq> 0))
     else if operation = HleSleepMode then returnValue (ucast (sleepMode s))
     else returnValue (of_bool (status s = 2 \<and> sendAvailable s)))"

definition step_send :: "guest \<Rightarrow> u32 list \<Rightarrow> ctl_step" where
  "step_send g registers = answer (block [
     inspect (\<lambda>s. fail_if (status s \<noteq> 2 \<or> \<not> sendAvailable s) ''send while controller unavailable''),
     ctl_send g (registers ! 2) (registers ! 3)]) 0"

definition ctl_step :: "guest \<Rightarrow> u32 \<Rightarrow> u32 list \<Rightarrow> ctl_step" where
  "ctl_step g operation registers =
     (if operation = HleInit then step_init g registers
      else if operation = HleAllocated then step_allocated g registers
      else if operation = HleSemaphoreCreated then step_semaphoreCreated registers
      else if operation = HleTaskCreated then step_taskCreated g registers
      else if operation = HleTaskCreateFailed then answer clear_controller OutOfMemory
      else if operation = HleEnable then step_enable registers
      else if operation = HleDisable then step_disable
      else if operation = HleDeinit then step_deinit
      else if operation = HleTaskDeleted then step_taskDeleted
      else if operation = HleSemaphoreDeleted then step_semaphoreDeleted
      else if operation = HleFreed then answer clear_controller 0
      else if operation \<in> {HleMode, HlePowerActive, HleSleepMode, HleAvailable} then
        step_queries operation
      else if operation \<in> {HleSleepEnable, HleWakeupRequesting, HleWakeup, HlePhyInit, HlePhyWakeup,
          HlePhyWakeupImpl, HlePhyClose, HlePhyCloseImpl, HlePhyTrack, HlePhyTemperatureOff} then
        step_flags operation registers
      else if operation \<in> {HleOffloadRegister, HleOffloadDeregister} then
        step_offload operation registers
      else if operation \<in> {HlePllTrack, HleAdvFlowControl, HleClearLegacyAdv,
          HleDuplicateExceptions, HleChannelSelection} then step_features operation registers
      else if operation = HleRegister then step_register g registers
      else if operation = HleSend then step_send g registers
      else if operation = HlePowerSet then step_powerSet registers
      else if operation = HlePowerGet then step_powerGet registers
      else if operation = HleTaskPoll then ctl_poll g
      else if operation = HleDelayReturned then step_delayReturned g
      else if operation = HleReceiveReturned then step_receiveReturned g registers
      else if operation = HleReadyReturned then step_readyReturned g
      else abort ''unexpected model continuation'')"

text \<open>\<open>bleHleReset\<close> assigns a new controller; the hooks it also clears are a component of
  their own.\<close>

definition bleHleReset :: ctl_op where
  "bleHleReset = clear_controller"

end
