(* ===== verification/I2cDevice.thy ===== *)
theory I2cDevice
  imports BleBytes
begin

text \<open>
  What the I2C peripherals under \<open>qemu/devices\<close> have in common: 256 byte registers behind a
  register pointer. The first byte after a start condition for writing selects the register, every
  further byte goes to the register the pointer names and advances it modulo 256, and a read takes
  the byte there and advances it.

  The locale \<open>i2c_slave\<close> states that contract over the three callbacks a device registers with
  QEMU's bus (\<open>event\<close>, \<open>send\<close>, \<open>recv\<close>), for the registers a device merely stores (\<open>plain\<close>) while it
  answers (\<open>live\<close>); a burst written to such registers is read back. Each device theory interprets
  it on its own operations. The environment \<open>'e\<close> is what a callback reads outside the device, the
  clock for those that have timers.
\<close>

section \<open>Registers\<close>

datatype i2c_event = I2C_START_RECV | I2C_START_SEND | I2C_FINISH | I2C_NACK

record i2c_device =
  registers :: "byte \<Rightarrow> byte"
  registerAddress :: byte
  registerPhase :: bool

text \<open>QEMU's unaligned little-endian accessors.\<close>

definition lduw :: "(byte \<Rightarrow> byte) \<Rightarrow> byte \<Rightarrow> u16" where
  "lduw regs a = le16 (regs a) (regs (a + 1))"

definition stw :: "byte \<Rightarrow> u16 \<Rightarrow> (byte \<Rightarrow> byte) \<Rightarrow> byte \<Rightarrow> byte" where
  "stw a v regs = regs(a := ucast v, a + 1 := ucast (drop_bit 8 v))"

lemma unat_of_nat_byte: "n < 256 \<Longrightarrow> unat (of_nat n :: byte) = n"
  by (simp add: unsigned_of_nat take_bit_nat_eq_self)

lemma lduw_stw [simp]: "lduw (stw a v regs) a = v"
  by (simp add: lduw_def stw_def)

section \<open>Transactions\<close>

fun read_burst :: "('d \<Rightarrow> byte \<times> 'd) \<Rightarrow> nat \<Rightarrow> 'd \<Rightarrow> bytes \<times> 'd" where
  "read_burst receive 0 d = ([], d)"
| "read_burst receive (Suc n) d =
     (let (b, d) = receive d; (bs, d) = read_burst receive n d in (b # bs, d))"

definition write_transaction ::
  "(i2c_event \<Rightarrow> 'd \<Rightarrow> 'd) \<Rightarrow> (byte \<Rightarrow> 'd \<Rightarrow> 'd) \<Rightarrow> byte \<Rightarrow> bytes \<Rightarrow> 'd \<Rightarrow> 'd" where
  "write_transaction event send a vs d =
     event I2C_FINISH (fold send (a # vs) (event I2C_START_SEND d))"

text \<open>A repeated start turns the bus around after the register is selected.\<close>

definition read_transaction ::
  "(i2c_event \<Rightarrow> 'd \<Rightarrow> 'd) \<Rightarrow> (byte \<Rightarrow> 'd \<Rightarrow> 'd) \<Rightarrow> ('d \<Rightarrow> byte \<times> 'd) \<Rightarrow> byte \<Rightarrow> nat
     \<Rightarrow> 'd \<Rightarrow> bytes \<times> 'd" where
  "read_transaction event send receive a n d =
     read_burst receive n (event I2C_START_RECV (send a (event I2C_START_SEND d)))"

lemma of_nat_byte_nonzero: "0 < n \<Longrightarrow> n < 256 \<Longrightarrow> (of_nat n :: byte) \<noteq> 0"
  by (metis of_nat_0 unat_of_nat_byte unat_0 less_numeral_extra(3))

section \<open>The contract of a slave\<close>

locale i2c_slave =
  fixes event :: "'e \<Rightarrow> i2c_event \<Rightarrow> 'd \<Rightarrow> 'd"
    and send :: "'e \<Rightarrow> byte \<Rightarrow> 'd \<Rightarrow> 'd"
    and receive :: "'e \<Rightarrow> 'd \<Rightarrow> byte \<times> 'd"
    and address :: "'d \<Rightarrow> byte"
    and selecting :: "'d \<Rightarrow> bool"
    and stored :: "'d \<Rightarrow> byte \<Rightarrow> byte"
    and plain :: "byte \<Rightarrow> bool"
    and live :: "'d \<Rightarrow> bool"
  assumes event_live: "live d \<Longrightarrow> live (event e k d)"
    and event_address: "live d \<Longrightarrow> address (event e k d) = address d"
    and event_stored: "live d \<Longrightarrow> plain a \<Longrightarrow> stored (event e k d) a = stored d a"
    and event_start: "live d \<Longrightarrow> selecting (event e I2C_START_SEND d)"
    and event_recv: "live d \<Longrightarrow> selecting (event e I2C_START_RECV d) = selecting d"
    and select: "live d \<Longrightarrow> selecting d \<Longrightarrow>
      live (send e v d) \<and> \<not> selecting (send e v d) \<and> address (send e v d) = v"
    and select_stored: "live d \<Longrightarrow> selecting d \<Longrightarrow> plain a \<Longrightarrow>
      stored (send e v d) a = stored d a"
    and store: "live d \<Longrightarrow> \<not> selecting d \<Longrightarrow> plain (address d) \<Longrightarrow>
      live (send e v d) \<and> \<not> selecting (send e v d) \<and> address (send e v d) = address d + 1"
    and store_stored: "live d \<Longrightarrow> \<not> selecting d \<Longrightarrow> plain (address d) \<Longrightarrow> plain a \<Longrightarrow>
      stored (send e v d) a = (if a = address d then v else stored d a)"
    and load: "live d \<Longrightarrow> plain (address d) \<Longrightarrow> fst (receive e d) = stored d (address d) \<and>
      live (snd (receive e d)) \<and> address (snd (receive e d)) = address d + 1"
    and load_stored: "live d \<Longrightarrow> plain (address d) \<Longrightarrow> plain a \<Longrightarrow>
      stored (snd (receive e d)) a = stored d a"
begin

lemma store_burst:
  assumes "live d" and "\<not> selecting d" and "length vs \<le> 256"
    and "\<And>i. i < length vs \<Longrightarrow> plain (address d + of_nat i)"
  shows "live (fold (send e) vs d) \<and> \<not> selecting (fold (send e) vs d) \<and>
    (\<forall>i < length vs. stored (fold (send e) vs d) (address d + of_nat i) = vs ! i) \<and>
    (\<forall>a. plain a \<longrightarrow> (\<forall>i < length vs. a \<noteq> address d + of_nat i) \<longrightarrow>
       stored (fold (send e) vs d) a = stored d a)"
  using assms
proof (induction vs arbitrary: d)
  case Nil
  then show ?case by simp
next
  case (Cons v vs)
  let ?d = "send e v d"
  have plain_here: "plain (address d)" using Cons.prems(4) [of 0] by simp
  note st = store [OF Cons.prems(1,2) plain_here, of e v]
  have plain_next: "plain (address ?d + of_nat i)" if "i < length vs" for i
    using Cons.prems(4) [of "Suc i"] that st by (simp add: ac_simps)
  have IH: "live (fold (send e) vs ?d) \<and> \<not> selecting (fold (send e) vs ?d) \<and>
      (\<forall>i < length vs. stored (fold (send e) vs ?d) (address d + 1 + of_nat i) = vs ! i) \<and>
      (\<forall>a. plain a \<longrightarrow> (\<forall>i < length vs. a \<noteq> address d + 1 + of_nat i) \<longrightarrow>
         stored (fold (send e) vs ?d) a = stored ?d a)"
    using Cons.IH [of ?d] st plain_next Cons.prems(3) by simp
  have apart: "address d \<noteq> address d + 1 + of_nat i" if "i < length vs" for i
    using that Cons.prems(3) of_nat_byte_nonzero [of "Suc i"] by (simp add: ac_simps)
  have first: "stored (fold (send e) vs ?d) (address d) = v"
    using IH plain_here apart store_stored [OF Cons.prems(1,2) plain_here plain_here, of e v] by simp
  have here: "stored (fold (send e) vs ?d) (address d + of_nat i) = (v # vs) ! i"
    if "i < length (v # vs)" for i
    using that first IH by (cases i) (auto simp: ac_simps)
  have elsewhere: "stored (fold (send e) vs ?d) a = stored d a"
    if "plain a" and far: "\<And>i. i < length (v # vs) \<Longrightarrow> a \<noteq> address d + of_nat i" for a
  proof -
    have "\<forall>i < length vs. a \<noteq> address d + 1 + of_nat i"
      using far [of "Suc _"] by (simp add: ac_simps)
    moreover have "a \<noteq> address d" using far [of 0] by simp
    ultimately show ?thesis
      using IH that store_stored [OF Cons.prems(1,2) plain_here, of a e v] by simp
  qed
  show ?case using IH here elsewhere by simp
qed

lemma load_burst:
  assumes "live d" and "\<And>i. i < n \<Longrightarrow> plain (address d + of_nat i)"
  shows "fst (read_burst (receive e) n d) = map (\<lambda>i. stored d (address d + of_nat i)) [0..<n]"
  using assms
proof (induction n arbitrary: d)
  case 0
  then show ?case by simp
next
  case (Suc n)
  let ?d = "snd (receive e d)"
  have plain_here: "plain (address d)" using Suc.prems(2) [of 0] by simp
  note ld = load [OF Suc.prems(1) plain_here, of e]
  have plain_next: "plain (address ?d + of_nat i)" if "i < n" for i
    using Suc.prems(2) [of "Suc i"] that ld by (simp add: ac_simps)
  have "fst (read_burst (receive e) n ?d) = map (\<lambda>i. stored d (address d + of_nat (Suc i))) [0..<n]"
    using Suc.IH [of ?d] ld plain_next load_stored [OF Suc.prems(1) plain_here, of _ e]
    by (simp add: ac_simps)
  then show ?case
    using ld by (simp add: case_prod_beta upt_conv_Cons map_Suc_upt [symmetric] del: upt_Suc)
qed

lemma burst_roundtrip:
  assumes "live d" and "length vs \<le> 256"
    and "\<And>i. i < length vs \<Longrightarrow> plain (a + of_nat i)"
  shows "fst (read_transaction (event e2) (send e2) (receive e2) a (length vs)
    (write_transaction (event e1) (send e1) a vs d)) = vs"
proof -
  let ?s = "send e1 a (event e1 I2C_START_SEND d)"
  have s: "live ?s" "\<not> selecting ?s" "address ?s = a"
    using select [OF event_live [OF assms(1)] event_start [OF assms(1)]] by auto
  let ?f = "fold (send e1) vs ?s"
  have f: "live ?f" "\<forall>i < length vs. stored ?f (a + of_nat i) = vs ! i"
    using store_burst [OF s(1,2) assms(2)] s(3) assms(3) by auto
  let ?w = "event e1 I2C_FINISH ?f"
  have w: "live ?w" "\<forall>i < length vs. stored ?w (a + of_nat i) = vs ! i"
    using event_live [OF f(1)] f assms(3) event_stored [OF f(1)] by auto
  let ?q = "send e2 a (event e2 I2C_START_SEND ?w)"
  have q: "live ?q" "address ?q = a" "\<forall>i < length vs. stored ?q (a + of_nat i) = vs ! i"
    using select [OF event_live [OF w(1)] event_start [OF w(1)]] w assms(3)
      select_stored [OF event_live [OF w(1)] event_start [OF w(1)]] event_stored [OF w(1)] by auto
  let ?r = "event e2 I2C_START_RECV ?q"
  have r: "live ?r" "address ?r = a" "\<forall>i < length vs. stored ?r (a + of_nat i) = vs ! i"
    using q event_live [OF q(1)] event_address [OF q(1)] event_stored [OF q(1)] assms(3) by auto
  have "fst (read_burst (receive e2) (length vs) ?r) = map (\<lambda>i. vs ! i) [0..<length vs]"
    using load_burst [OF r(1), of "length vs" e2] r(2,3) assms(3) by simp
  then show ?thesis
    by (simp add: read_transaction_def write_transaction_def map_nth)
qed

end

end
