(* ===== verification/M5pm1.thy ===== *)
theory M5pm1
  imports I2cDevice
begin

text \<open>
  The power-management chip of the board, \<open>qemu/devices/m5pm1.c\<close>: GPIO lines with interrupt
  aggregation, write-zero-to-clear status registers and the power button's click detection.

  The clock is an argument (\<open>qemu_clock_get_ns\<close>), the click timer the optional deadline
  \<open>clickTimer\<close>; QEMU takes the timer off before it calls \<open>clickExpired\<close>, which
  \<open>pm1_timer\<close> does. \<open>gpioLevels\<close> holds the levels last given to \<open>qemu_set_irq\<close>.
\<close>

unbundle bit_operations_syntax

section \<open>Registers and state\<close>

definition pm1_PinCount :: nat where "pm1_PinCount = 5"
definition ButtonPressed :: byte where "ButtonPressed = 1"
definition ButtonPressFlag :: byte where "ButtonPressFlag = 0x80"
definition SingleClickIrq :: byte where "SingleClickIrq = 1"
definition DoubleClickIrq :: byte where "DoubleClickIrq = 4"

definition PowerControlReg :: byte where "PowerControlReg = 0x06"
definition pm1_DirectionReg :: byte where "pm1_DirectionReg = 0x10"
definition pm1_OutputReg :: byte where "pm1_OutputReg = 0x11"
definition pm1_InputReg :: byte where "pm1_InputReg = 0x12"
definition GpioFunctionReg :: byte where "GpioFunctionReg = 0x16"
definition GpioIrqStatusReg :: byte where "GpioIrqStatusReg = 0x40"
definition IrqStatus1Reg :: byte where "IrqStatus1Reg = 0x41"
definition ButtonIrqStatusReg :: byte where "ButtonIrqStatusReg = 0x42"
definition GpioIrqMaskReg :: byte where "GpioIrqMaskReg = 0x43"
definition IrqMask1Reg :: byte where "IrqMask1Reg = 0x44"
definition ButtonIrqMaskReg :: byte where "ButtonIrqMaskReg = 0x45"
definition ButtonStatusReg :: byte where "ButtonStatusReg = 0x48"
definition ButtonClickReg :: byte where "ButtonClickReg = 0x49"
definition ButtonActionReg :: byte where "ButtonActionReg = 0x4A"

lemmas pm1_flags = ButtonPressed_def ButtonPressFlag_def SingleClickIrq_def DoubleClickIrq_def

lemmas pm1_registers = PowerControlReg_def pm1_DirectionReg_def pm1_OutputReg_def pm1_InputReg_def
  GpioFunctionReg_def GpioIrqStatusReg_def IrqStatus1Reg_def ButtonIrqStatusReg_def
  GpioIrqMaskReg_def IrqMask1Reg_def ButtonIrqMaskReg_def ButtonStatusReg_def ButtonClickReg_def
  ButtonActionReg_def

record m5pm1 = i2c_device +
  gpioInputs :: byte
  gpioLevels :: "nat \<Rightarrow> bool"
  clickTimer :: "int option"
  pressedAtNs :: int
  releasedAtNs :: int
  secondClick :: bool

section \<open>GPIO\<close>

definition pinMask :: "nat \<Rightarrow> byte" where
  "pinMask pin = push_bit pin 1"

definition gpioFunction :: "(byte \<Rightarrow> byte) \<Rightarrow> nat \<Rightarrow> byte" where
  "gpioFunction regs pin = drop_bit ((pin mod 4) * 2) (regs (GpioFunctionReg + of_nat (pin div 4))) AND 3"

definition irqPending :: "(byte \<Rightarrow> byte) \<Rightarrow> bool" where
  "irqPending regs \<longleftrightarrow>
     regs GpioIrqStatusReg AND NOT (regs GpioIrqMaskReg) \<noteq> 0 \<or>
     regs IrqStatus1Reg AND NOT (regs IrqMask1Reg) \<noteq> 0 \<or>
     regs ButtonIrqStatusReg AND NOT (regs ButtonIrqMaskReg) \<noteq> 0"

definition clearedWithoutOutput :: "(byte \<Rightarrow> byte) \<Rightarrow> byte \<Rightarrow> byte" where
  "clearedWithoutOutput regs =
     (if list_ex (\<lambda>pin. gpioFunction regs pin = 1) [0..<pm1_PinCount] then regs
      else regs(GpioIrqStatusReg := 0, GpioIrqStatusReg + 1 := 0, GpioIrqStatusReg + 2 := 0))"

text \<open>One round of the loop over the pins, on the levels computed so far.\<close>

definition pinLevel :: "(byte \<Rightarrow> byte) \<Rightarrow> bool \<Rightarrow> nat \<Rightarrow> byte \<Rightarrow> byte" where
  "pinLevel regs pending pin levels =
     (if gpioFunction regs pin = 1 then
        levels AND NOT (pinMask pin) OR (if pending then 0 else pinMask pin)
      else if regs pm1_DirectionReg AND pinMask pin \<noteq> 0 then
        levels AND NOT (pinMask pin) OR (regs pm1_OutputReg AND pinMask pin)
      else levels)"

definition pinRound :: "(byte \<Rightarrow> byte) \<Rightarrow> bool \<Rightarrow> nat \<Rightarrow> byte \<times> (nat \<Rightarrow> bool)
    \<Rightarrow> byte \<times> (nat \<Rightarrow> bool)" where
  "pinRound regs pending pin state =
     (let levels = pinLevel regs pending pin (fst state)
      in (levels, (snd state)(pin := (levels AND pinMask pin \<noteq> 0))))"

definition pm1_updateOutputs :: "m5pm1 \<Rightarrow> m5pm1" where
  "pm1_updateOutputs d =
     (let regs = clearedWithoutOutput (registers d);
          pending = irqPending regs;
          (levels, outs) = fold (pinRound regs pending) [0..<pm1_PinCount] (gpioInputs d, gpioLevels d)
      in d\<lparr>registers := regs(pm1_InputReg := levels), gpioLevels := outs\<rparr>)"

definition pm1_gpioInput :: "nat \<Rightarrow> bool \<Rightarrow> m5pm1 \<Rightarrow> m5pm1" where
  "pm1_gpioInput pin level d =
     (let m = pinMask pin in
      if (gpioInputs d AND m \<noteq> 0) = level then d
      else
        let d = d\<lparr>gpioInputs := gpioInputs d AND NOT m OR (if level then m else 0)\<rparr>;
            d = (if registers d pm1_DirectionReg AND m = 0 \<and> gpioFunction (registers d) pin = 0
                 then d\<lparr>registers := (registers d)(GpioIrqStatusReg :=
                        registers d GpioIrqStatusReg OR m)\<rparr>
                 else d)
        in pm1_updateOutputs d)"

section \<open>Power button\<close>

definition clickExpired :: "m5pm1 \<Rightarrow> m5pm1" where
  "clickExpired d =
     (if registers d ButtonClickReg AND 1 \<noteq> 0 then
        pm1_updateOutputs (d\<lparr>registers := (registers d)(ButtonIrqStatusReg :=
          registers d ButtonIrqStatusReg OR SingleClickIrq)\<rparr>)
      else d)"

definition pm1_timer :: "m5pm1 \<Rightarrow> m5pm1" where
  "pm1_timer d = clickExpired (d\<lparr>clickTimer := None\<rparr>)"

definition clickDelayNs :: "byte \<Rightarrow> nat \<Rightarrow> int" where
  "clickDelayNs config shift = 125000000 * 2 ^ unat (drop_bit shift config AND 3)"

definition longDelayNs :: "byte \<Rightarrow> int" where
  "longDelayNs config = (1 + uint (drop_bit 3 config AND 3)) * 1000000000"

definition button_pressed :: "int \<Rightarrow> m5pm1 \<Rightarrow> m5pm1" where
  "button_pressed nowNs d =
     (let config = registers d ButtonClickReg;
          second = (clickTimer d \<noteq> None \<and> nowNs - releasedAtNs d \<le> clickDelayNs config 5);
          d = d\<lparr>secondClick := second\<rparr>;
          d = (if clickTimer d \<noteq> None then
                 let d = d\<lparr>clickTimer := None\<rparr> in if second then d else clickExpired d
               else d)
      in d\<lparr>pressedAtNs := nowNs\<rparr>)"

definition button_released :: "int \<Rightarrow> m5pm1 \<Rightarrow> m5pm1" where
  "button_released nowNs d =
     (let config = registers d ButtonClickReg in
      if longDelayNs config \<le> nowNs - pressedAtNs d then d\<lparr>secondClick := False\<rparr>
      else if secondClick d then
        let d = d\<lparr>secondClick := False\<rparr> in
        if registers d ButtonActionReg AND 1 \<noteq> 0 then
          pm1_updateOutputs (d\<lparr>registers := (registers d)(ButtonIrqStatusReg :=
            registers d ButtonIrqStatusReg OR DoubleClickIrq)\<rparr>)
        else d
      else d\<lparr>releasedAtNs := nowNs,
             clickTimer := Some (nowNs + max (clickDelayNs config 1) (clickDelayNs config 5))\<rparr>)"

definition buttonInput :: "int \<Rightarrow> bool \<Rightarrow> m5pm1 \<Rightarrow> m5pm1" where
  "buttonInput nowNs pressed d =
     (let state = registers d ButtonStatusReg in
      if pressed = (state AND ButtonPressed \<noteq> 0) then d
      else
        let state = (if pressed then state OR ButtonPressFlag else state);
            d = d\<lparr>registers := (registers d)(ButtonStatusReg :=
                  state AND NOT ButtonPressed OR of_bool pressed)\<rparr>
        in if pressed then button_pressed nowNs d else button_released nowNs d)"

section \<open>I2C\<close>

definition pm1_event :: "i2c_event \<Rightarrow> m5pm1 \<Rightarrow> m5pm1" where
  "pm1_event e d = (if e = I2C_START_SEND then d\<lparr>registerPhase := True\<rparr> else d)"

definition pm1_receive :: "m5pm1 \<Rightarrow> byte \<times> m5pm1" where
  "pm1_receive d =
     (let a = registerAddress d; v = registers d a; d = d\<lparr>registerAddress := a + 1\<rparr> in
      (v, if a = ButtonStatusReg then d\<lparr>registers := (registers d)(a :=
            registers d a AND NOT ButtonPressFlag)\<rparr> else d))"

definition pm1_writable :: "byte \<Rightarrow> bool" where
  "pm1_writable a \<longleftrightarrow>
     (PowerControlReg \<le> a \<and> a \<le> 0x0A) \<or>
     (pm1_DirectionReg \<le> a \<and> a \<le> 0x19 \<and> a \<noteq> pm1_InputReg) \<or>
     a = 0x2A \<or> (0x30 \<le> a \<and> a \<le> 0x35) \<or>
     (0x38 \<le> a \<and> a \<le> 0x3C) \<or> (GpioIrqMaskReg \<le> a \<and> a \<le> ButtonIrqMaskReg) \<or>
     a = ButtonClickReg \<or> a = ButtonActionReg \<or> a = 0x50 \<or> a = 0x51 \<or>
     (0x60 \<le> a \<and> a \<le> 0xBF)"

definition pm1_write :: "byte \<Rightarrow> byte \<Rightarrow> (byte \<Rightarrow> byte) \<Rightarrow> byte \<Rightarrow> byte" where
  "pm1_write a v regs =
     (if GpioIrqStatusReg \<le> a \<and> a \<le> ButtonIrqStatusReg then regs(a := regs a AND v)
      else if pm1_writable a then regs(a :=
        if a = 0x2A then v AND NOT 1 else if a = 0x50 then v AND NOT 0x40
        else if a = 0x51 then v AND NOT 0x80 else v)
      else regs)"

definition pm1_send :: "byte \<Rightarrow> m5pm1 \<Rightarrow> m5pm1" where
  "pm1_send v d =
     (if registerPhase d then d\<lparr>registerAddress := v, registerPhase := False\<rparr>
      else
        let a = registerAddress d;
            d = d\<lparr>registerAddress := a + 1, registers := pm1_write a v (registers d)\<rparr> in
        if (pm1_DirectionReg \<le> a \<and> a \<le> 0x17) \<or> (GpioIrqStatusReg \<le> a \<and> a \<le> ButtonIrqMaskReg)
        then pm1_updateOutputs d else d)"

definition m5pm1LedEnabled :: "m5pm1 \<Rightarrow> bool" where
  "m5pm1LedEnabled d \<longleftrightarrow> registers d PowerControlReg AND 0x10 \<noteq> 0"

definition pm1_init :: m5pm1 where
  "pm1_init = pm1_updateOutputs \<lparr>
     registers = (stw 0x24 5000 (stw 0x22 3750 (stw 0x20 3300
       ((stw 0 0x2050 (\<lambda>_. 0))(2 := 1, 3 := 0x57, 4 := 5, PowerControlReg := 0x17)))))
       (ButtonClickReg := 0x2A),
     registerAddress = 0, registerPhase = False, gpioInputs = 0x17, gpioLevels = (\<lambda>_. False),
     clickTimer = None, pressedAtNs = 0, releasedAtNs = 0, secondClick = False\<rparr>"

text \<open>The callbacks QEMU may run, at a time of its choice.\<close>

inductive pm1_step :: "m5pm1 \<Rightarrow> m5pm1 \<Rightarrow> bool" where
  pm1_step_event: "pm1_step d (pm1_event e d)"
| pm1_step_receive: "pm1_step d (snd (pm1_receive d))"
| pm1_step_send: "pm1_step d (pm1_send v d)"
| pm1_step_gpio: "pin < pm1_PinCount \<Longrightarrow> pm1_step d (pm1_gpioInput pin level d)"
| pm1_step_button: "pm1_step d (buttonInput nowNs pressed d)"
| pm1_step_timer: "clickTimer d \<noteq> None \<Longrightarrow> pm1_step d (pm1_timer d)"

inductive_cases pm1_stepE: "pm1_step d d'"

section \<open>What the pins show\<close>

lemma bit_pinMask [simp]: "bit (pinMask pin) n \<longleftrightarrow> n = pin \<and> pin < 8"
  by (auto simp: pinMask_def bit_simps)

lemma and_nonzero: "(x :: byte) AND y \<noteq> 0 \<longleftrightarrow> (\<exists>n. bit x n \<and> bit y n)"
  using bit_imp_le_length [of x] by (fastforce simp: bit_eq_iff bit_simps)

lemma test_pinMask: "pin < 8 \<Longrightarrow> x AND pinMask pin \<noteq> 0 \<longleftrightarrow> bit x pin" for x :: byte
  by (simp add: and_nonzero)

text \<open>The level a pin has to show: the interrupt request (active low) when it is the interrupt
  output, else the driven value of an output, else what is applied from outside.\<close>

definition pinShows :: "m5pm1 \<Rightarrow> nat \<Rightarrow> bool" where
  "pinShows d pin =
     (if gpioFunction (registers d) pin = 1 then \<not> irqPending (registers d)
      else if bit (registers d pm1_DirectionReg) pin then bit (registers d pm1_OutputReg) pin
      else bit (gpioInputs d) pin)"

definition hasIrqOutput :: "(byte \<Rightarrow> byte) \<Rightarrow> bool" where
  "hasIrqOutput regs \<longleftrightarrow> (\<exists>pin < pm1_PinCount. gpioFunction regs pin = 1)"

definition pm1_inv :: "m5pm1 \<Rightarrow> bool" where
  "pm1_inv d \<longleftrightarrow>
     (\<forall>pin < pm1_PinCount. gpioLevels d pin = pinShows d pin \<and>
        bit (registers d pm1_InputReg) pin = pinShows d pin) \<and>
     (\<not> hasIrqOutput (registers d) \<longrightarrow> registers d GpioIrqStatusReg = 0 \<and>
        registers d IrqStatus1Reg = 0 \<and> registers d ButtonIrqStatusReg = 0)"

lemma bit_pinLevel: "pin < 8 \<Longrightarrow> bit (pinLevel regs pending pin levels) n =
    (if n = pin then
       (if gpioFunction regs pin = 1 then \<not> pending
        else if bit (regs pm1_DirectionReg) pin then bit (regs pm1_OutputReg) pin
        else bit levels pin)
     else bit levels n)" for levels :: byte
  by (auto simp: pinLevel_def test_pinMask bit_simps dest: bit_imp_le_length)

lemma fold_pins:
  assumes "n \<le> 8" and "fold (pinRound regs pending) [0..<n] (levels0, outs0) = (levels, outs)"
  shows "(\<forall>pin. bit levels pin = (if pin < n then bit (pinLevel regs pending pin levels0) pin
      else bit levels0 pin)) \<and> (\<forall>pin < n. outs pin = bit levels pin)"
  using assms
proof (induction n arbitrary: levels outs)
  case 0
  then show ?case by simp
next
  case (Suc n)
  obtain ls os where prev: "fold (pinRound regs pending) [0..<n] (levels0, outs0) = (ls, os)"
    by fastforce
  have IH: "(\<forall>pin. bit ls pin = (if pin < n then bit (pinLevel regs pending pin levels0) pin
      else bit levels0 pin)) \<and> (\<forall>pin < n. os pin = bit ls pin)"
    using Suc.IH [OF _ prev] Suc.prems(1) by simp
  have "pinRound regs pending n (ls, os) = (levels, outs)" using Suc.prems(2) prev by simp
  then have lv: "levels = pinLevel regs pending n ls" and ou: "outs = os(n := (levels AND pinMask n \<noteq> 0))"
    by (auto simp: pinRound_def Let_def)
  have n: "n < 8" using Suc.prems(1) by simp
  have old: "bit ls n = bit levels0 n" using IH by simp
  have here: "bit levels n = bit (pinLevel regs pending n levels0) n"
    unfolding lv using n by (simp add: bit_pinLevel old)
  have other: "bit levels p = bit ls p" if "p \<noteq> n" for p
    unfolding lv using n that by (simp add: bit_pinLevel)
  have levels: "bit levels p = (if p < Suc n then bit (pinLevel regs pending p levels0) p else bit levels0 p)"
    for p
  proof (cases "p = n")
    case True
    then show ?thesis using here by simp
  next
    case False
    have "bit ls p = (if p < n then bit (pinLevel regs pending p levels0) p else bit levels0 p)"
      using IH by blast
    with False show ?thesis by (simp only: other [OF False] less_Suc_eq simp_thms)
  qed
  have outs: "outs p = bit levels p" if "p < Suc n" for p
  proof (cases "p = n")
    case True
    then show ?thesis using n by (simp add: ou test_pinMask)
  next
    case False
    then have "os p = bit ls p" using IH that by (simp only: less_Suc_eq) blast
    with False show ?thesis by (simp add: ou other)
  qed
  show ?case by (intro conjI allI impI, rule levels, rule outs)
qed

lemma gpioFunction_cong:
  assumes "pin < pm1_PinCount" and "regs GpioFunctionReg = regs' GpioFunctionReg" and "regs 0x17 = regs' 0x17"
  shows "gpioFunction regs pin = gpioFunction regs' pin"
proof -
  have "pin div 4 = 0 \<or> pin div 4 = 1" using assms(1) by (auto simp: pm1_PinCount_def)
  then show ?thesis using assms(2,3) by (auto simp: gpioFunction_def GpioFunctionReg_def)
qed

lemma gpioFunction_upd:
  "pin < pm1_PinCount \<Longrightarrow> a \<noteq> 0x16 \<Longrightarrow> a \<noteq> 0x17 \<Longrightarrow>
     gpioFunction (regs(a := v)) pin = gpioFunction regs pin"
  by (rule gpioFunction_cong) (auto simp: GpioFunctionReg_def)

lemma hasIrqOutput_upd:
  "a \<noteq> 0x16 \<Longrightarrow> a \<noteq> 0x17 \<Longrightarrow> hasIrqOutput (regs(a := v)) = hasIrqOutput regs"
  by (auto simp: hasIrqOutput_def gpioFunction_upd)

lemma cleared_eq: "clearedWithoutOutput regs = (if hasIrqOutput regs then regs
    else regs(GpioIrqStatusReg := 0, IrqStatus1Reg := 0, ButtonIrqStatusReg := 0))"
  by (auto simp: clearedWithoutOutput_def hasIrqOutput_def list_ex_iff pm1_registers)

text \<open>Recomputing the outputs restores the invariant from any state, and changes nothing else.\<close>

lemma updateOutputs_frame:
  "registerAddress (pm1_updateOutputs d) = registerAddress d"
  "registerPhase (pm1_updateOutputs d) = registerPhase d"
  "gpioInputs (pm1_updateOutputs d) = gpioInputs d"
  "clickTimer (pm1_updateOutputs d) = clickTimer d"
  "pressedAtNs (pm1_updateOutputs d) = pressedAtNs d"
  "releasedAtNs (pm1_updateOutputs d) = releasedAtNs d"
  "secondClick (pm1_updateOutputs d) = secondClick d"
  by (simp_all add: pm1_updateOutputs_def Let_def case_prod_beta)

lemma updateOutputs_registers:
  "\<exists>levels. registers (pm1_updateOutputs d) =
     (clearedWithoutOutput (registers d))(pm1_InputReg := levels)"
  by (auto simp: pm1_updateOutputs_def Let_def case_prod_beta)

lemma updateOutputs_inv: "pm1_inv (pm1_updateOutputs d)"
proof -
  let ?regs = "clearedWithoutOutput (registers d)"
  obtain levels outs where f: "fold (pinRound ?regs (irqPending ?regs)) [0..<pm1_PinCount]
      (gpioInputs d, gpioLevels d) = (levels, outs)"
    by fastforce
  have u: "pm1_updateOutputs d = d\<lparr>registers := ?regs(pm1_InputReg := levels), gpioLevels := outs\<rparr>"
    using f by (simp add: pm1_updateOutputs_def Let_def)
  have pend: "irqPending (?regs(pm1_InputReg := v)) = irqPending ?regs" for v
    by (simp add: irqPending_def pm1_registers)
  have fn: "gpioFunction (?regs(pm1_InputReg := v)) pin = gpioFunction ?regs pin"
    if "pin < pm1_PinCount" for pin v
    using that by (simp add: gpioFunction_upd pm1_registers)
  have io: "hasIrqOutput (?regs(pm1_InputReg := v)) = hasIrqOutput (registers d)" for v
    by (simp add: cleared_eq hasIrqOutput_upd pm1_registers)
  have bits: "bit levels pin = bit (pinLevel ?regs (irqPending ?regs) pin (gpioInputs d)) pin"
    and outs: "outs pin = bit levels pin" if "pin < pm1_PinCount" for pin
    using fold_pins [OF _ f] that by (simp_all add: pm1_PinCount_def)
  have "pinShows (pm1_updateOutputs d) pin = bit levels pin" if "pin < pm1_PinCount" for pin
    using that bits [OF that] unfolding u pinShows_def
    by (simp add: fn pend bit_pinLevel pm1_PinCount_def) (simp add: pm1_registers)
  then show ?thesis
    using outs unfolding pm1_inv_def u
    by (simp add: io) (simp add: cleared_eq pm1_registers)
qed

text \<open>Registers the pins do not depend on may change freely.\<close>

lemma pm1_inv_cong:
  assumes "pm1_inv d" and "gpioLevels d' = gpioLevels d" and "gpioInputs d' = gpioInputs d"
    and same: "\<And>a. a \<in> {pm1_InputReg, pm1_DirectionReg, pm1_OutputReg, GpioFunctionReg, 0x17,
        GpioIrqStatusReg, IrqStatus1Reg, ButtonIrqStatusReg, GpioIrqMaskReg, IrqMask1Reg,
        ButtonIrqMaskReg} \<Longrightarrow> registers d' a = registers d a"
  shows "pm1_inv d'"
proof -
  have fn: "gpioFunction (registers d') pin = gpioFunction (registers d) pin" if "pin < pm1_PinCount" for pin
    using that by (rule gpioFunction_cong) (simp_all add: same)
  have pend: "irqPending (registers d') = irqPending (registers d)"
    by (simp add: irqPending_def same)
  have io: "hasIrqOutput (registers d') = hasIrqOutput (registers d)"
    unfolding hasIrqOutput_def using fn by auto
  have "pinShows d' pin = pinShows d pin" if "pin < pm1_PinCount" for pin
    using that by (simp add: pinShows_def fn pend same assms(3))
  then show ?thesis
    using assms(1) by (simp add: pm1_inv_def io same assms(2))
qed

lemma clickExpired_inv: "pm1_inv d \<Longrightarrow> pm1_inv (clickExpired d)"
  by (simp add: clickExpired_def updateOutputs_inv)

lemma released_inv: "pm1_inv d \<Longrightarrow> pm1_inv (button_released nowNs d)"
  by (cases "longDelayNs (registers d ButtonClickReg) \<le> nowNs - pressedAtNs d"; cases "secondClick d";
      cases "registers d ButtonActionReg AND 1 = 0")
    (simp_all add: button_released_def Let_def updateOutputs_inv, (erule pm1_inv_cong, simp_all)+)

lemma pressed_inv:
  assumes "pm1_inv d"
  shows "pm1_inv (button_pressed nowNs d)"
proof -
  have "pm1_inv (clickExpired (d\<lparr>secondClick := b, clickTimer := None\<rparr>))" for b
    by (rule clickExpired_inv, rule pm1_inv_cong [OF assms]) simp_all
  then have c: "pm1_inv ((clickExpired (d\<lparr>secondClick := b, clickTimer := None\<rparr>))\<lparr>pressedAtNs := nowNs\<rparr>)" for b
    by (rule pm1_inv_cong) simp_all
  have n: "pm1_inv (d\<lparr>secondClick := b, clickTimer := tm, pressedAtNs := nowNs\<rparr>)" for b tm
    by (rule pm1_inv_cong [OF assms]) simp_all
  have n': "pm1_inv (d\<lparr>secondClick := b, pressedAtNs := nowNs\<rparr>)" for b
    by (rule pm1_inv_cong [OF assms]) simp_all
  show ?thesis
    using c n n' by (simp add: button_pressed_def Let_def)
qed

lemma buttonInput_inv:
  assumes "pm1_inv d"
  shows "pm1_inv (buttonInput nowNs pressed d)"
proof -
  have "pm1_inv (d\<lparr>registers := (registers d)(ButtonStatusReg := v)\<rparr>)" for v
    by (rule pm1_inv_cong [OF assms]) (auto simp: pm1_registers)
  then show ?thesis
    using assms by (simp add: buttonInput_def Let_def pressed_inv released_inv)
qed

lemma send_inv:
  assumes "pm1_inv d"
  shows "pm1_inv (pm1_send v d)"
proof (cases "registerPhase d")
  case True
  then show ?thesis by (simp add: pm1_send_def) (rule pm1_inv_cong [OF assms], simp_all)
next
  case False
  let ?a = "registerAddress d"
  show ?thesis
  proof (cases "(pm1_DirectionReg \<le> ?a \<and> ?a \<le> 0x17) \<or> (GpioIrqStatusReg \<le> ?a \<and> ?a \<le> ButtonIrqMaskReg)")
    case True
    with False show ?thesis by (simp add: pm1_send_def Let_def updateOutputs_inv)
  next
    case outside: False
    then have "pm1_write ?a v (registers d) b = registers d b"
      if "b \<in> {pm1_InputReg, pm1_DirectionReg, pm1_OutputReg, GpioFunctionReg, 0x17,
        GpioIrqStatusReg, IrqStatus1Reg, ButtonIrqStatusReg, GpioIrqMaskReg, IrqMask1Reg,
        ButtonIrqMaskReg}" for b
      using that by (auto simp: pm1_write_def pm1_registers)
    then have "pm1_inv (d\<lparr>registerAddress := ?a + 1, registers := pm1_write ?a v (registers d)\<rparr>)"
      by (intro pm1_inv_cong [OF assms]) simp_all
    with False show ?thesis by (simp add: pm1_send_def Let_def updateOutputs_inv)
  qed
qed

lemma pm1_step_inv: "pm1_step d d' \<Longrightarrow> pm1_inv d \<Longrightarrow> pm1_inv d'"
proof (induction rule: pm1_step.induct)
  case (pm1_step_event d e)
  then show ?case by (rule pm1_inv_cong) (simp_all add: pm1_event_def)
next
  case (pm1_step_receive d)
  then show ?case
    by (rule pm1_inv_cong) (auto simp: pm1_receive_def Let_def pm1_registers)
next
  case (pm1_step_send d v)
  then show ?case by (rule send_inv)
next
  case (pm1_step_gpio pin d level)
  then show ?case by (simp add: pm1_gpioInput_def Let_def updateOutputs_inv)
next
  case (pm1_step_button d nowNs pressed)
  then show ?case by (rule buttonInput_inv)
next
  case (pm1_step_timer d)
  have "pm1_inv (d\<lparr>clickTimer := None\<rparr>)" by (rule pm1_inv_cong [OF pm1_step_timer(2)]) simp_all
  then show ?case by (simp add: pm1_timer_def clickExpired_inv)
qed

interpretation pm1_machine: state_machine "\<lambda>d. d = pm1_init" pm1_step pm1_inv
  by unfold_locales (auto simp: pm1_init_def updateOutputs_inv intro: pm1_step_inv)

text \<open>C20: in every state the chip can reach, whatever the guest writes and whatever happens on its
  inputs and its button, each pin shows what its configuration says: the interrupt pin is low
  exactly while an unmasked status bit is pending, an output shows its register, an input shows
  what is applied to it; the input register reads the same levels.\<close>

theorem pm1_pins_show_state:
  assumes "reachable (\<lambda>d. d = pm1_init) pm1_step d" and "pin < pm1_PinCount"
  shows "gpioLevels d pin =
      (if gpioFunction (registers d) pin = 1 then \<not> irqPending (registers d)
       else if bit (registers d pm1_DirectionReg) pin then bit (registers d pm1_OutputReg) pin
       else bit (gpioInputs d) pin) \<and>
    bit (registers d pm1_InputReg) pin = gpioLevels d pin"
  using pm1_machine.reachable_inv [OF assms(1)] assms(2) by (simp add: pm1_inv_def pinShows_def)

theorem pm1_pins_show_state_witness:
  "gpioLevels (buttonInput 5 True pm1_init) 2 =
      (if gpioFunction (registers (buttonInput 5 True pm1_init)) 2 = 1
       then \<not> irqPending (registers (buttonInput 5 True pm1_init))
       else if bit (registers (buttonInput 5 True pm1_init) pm1_DirectionReg) 2
       then bit (registers (buttonInput 5 True pm1_init) pm1_OutputReg) 2
       else bit (gpioInputs (buttonInput 5 True pm1_init)) 2) \<and>
    bit (registers (buttonInput 5 True pm1_init) pm1_InputReg) 2 =
      gpioLevels (buttonInput 5 True pm1_init) 2"
  by (rule pm1_pins_show_state)
    (rule reach_step, rule reach_init, rule refl, rule pm1_step_button, simp add: pm1_PinCount_def)

section \<open>Registers that are stored are read back\<close>

definition pm1_plain :: "byte \<Rightarrow> bool" where
  "pm1_plain a \<longleftrightarrow> pm1_writable a \<and> a \<noteq> 0x2A \<and> a \<noteq> 0x50 \<and> a \<noteq> 0x51"

lemma updateOutputs_plain: "pm1_plain a \<Longrightarrow> registers (pm1_updateOutputs d) a = registers d a"
  using updateOutputs_registers [of d]
  by (auto simp: cleared_eq pm1_plain_def pm1_writable_def pm1_registers split: if_splits)

lemma write_plain:
  assumes "pm1_plain a"
  shows "pm1_write a v regs = regs(a := v)"
proof -
  have "\<not> (GpioIrqStatusReg \<le> a \<and> a \<le> ButtonIrqStatusReg)"
  proof
    assume "GpioIrqStatusReg \<le> a \<and> a \<le> ButtonIrqStatusReg"
    then have "unat a = 64 \<or> unat a = 65 \<or> unat a = 66"
      by (simp add: pm1_registers word_le_nat_alt) linarith
    then have "a = 64 \<or> a = 65 \<or> a = 66" by (simp add: word_unat_eq_iff)
    then show False using assms by (auto simp: pm1_plain_def pm1_writable_def pm1_registers)
  qed
  then show ?thesis using assms by (auto simp: pm1_write_def pm1_plain_def)
qed

interpretation pm1_bus: i2c_slave "\<lambda>_ :: unit. pm1_event" "\<lambda>_. pm1_send" "\<lambda>_. pm1_receive"
    registerAddress registerPhase registers pm1_plain "\<lambda>_. True"
proof unfold_locales
  fix d :: m5pm1 and v a
  assume "\<not> registerPhase d" and "pm1_plain (registerAddress d)" and "pm1_plain a"
  then show "registers (pm1_send v d) a = (if a = registerAddress d then v else registers d a)"
    by (simp add: pm1_send_def Let_def updateOutputs_plain write_plain)
next
  fix d :: m5pm1 and v
  assume "\<not> registerPhase d"
  then show "True \<and> \<not> registerPhase (pm1_send v d) \<and>
      registerAddress (pm1_send v d) = registerAddress d + 1"
    by (simp add: pm1_send_def Let_def updateOutputs_frame)
next
  fix d :: m5pm1
  assume "pm1_plain (registerAddress d)"
  then show "fst (pm1_receive d) = registers d (registerAddress d) \<and> True \<and>
      registerAddress (snd (pm1_receive d)) = registerAddress d + 1"
    by (simp add: pm1_receive_def Let_def)
next
  fix d :: m5pm1 and a
  assume "pm1_plain (registerAddress d)"
  then have "registerAddress d \<noteq> ButtonStatusReg"
    by (auto simp: pm1_plain_def pm1_writable_def pm1_registers)
  then show "registers (snd (pm1_receive d)) a = registers d a"
    by (simp add: pm1_receive_def Let_def)
qed (simp_all add: pm1_event_def pm1_send_def)

section \<open>Click detection\<close>

text \<open>The status register after a click is reported, when some pin is the interrupt output.\<close>

lemma report_click:
  assumes "hasIrqOutput (registers d)"
  shows "registers (pm1_updateOutputs (d\<lparr>registers := (registers d)(ButtonIrqStatusReg := v)\<rparr>))
    ButtonIrqStatusReg = v"
  using updateOutputs_registers [of "d\<lparr>registers := (registers d)(ButtonIrqStatusReg := v)\<rparr>"] assms
  by (auto simp: cleared_eq hasIrqOutput_upd pm1_registers)

lemma button_state [simp]: "(s AND NOT 1 OR of_bool b) AND 1 \<noteq> 0 \<longleftrightarrow> b" for s :: byte
  by (auto simp: and_nonzero bit_simps)

lemma button_state' [simp]: "(s AND NOT 1 OR of_bool b) AND 1 = 0 \<longleftrightarrow> \<not> b" for s :: byte
  using button_state [of s b] by blast

lemma released_state [simp]: "(s AND - 2) AND 1 = 0" for s :: byte
  using button_state' [of s False] by simp

definition press :: "int \<Rightarrow> m5pm1 \<Rightarrow> m5pm1" where
  "press t = buttonInput t True"

definition release :: "int \<Rightarrow> m5pm1 \<Rightarrow> m5pm1" where
  "release t = buttonInput t False"

lemma press_idle:
  assumes "registers d ButtonStatusReg AND ButtonPressed = 0" and "clickTimer d = None"
  shows "\<exists>v. v AND ButtonPressed \<noteq> 0 \<and> press t d = d\<lparr>
    registers := (registers d)(ButtonStatusReg := v), secondClick := False, pressedAtNs := t\<rparr>"
  using assms by (intro exI [of _ "(registers d ButtonStatusReg OR ButtonPressFlag) AND NOT 1 OR of_bool True"])
    (simp only: press_def buttonInput_def button_pressed_def Let_def ButtonPressed_def button_state
      simp_thms if_False if_True i2c_device.simps m5pm1.simps, simp)

lemma release_short:
  assumes "registers d ButtonStatusReg AND ButtonPressed \<noteq> 0" and "\<not> secondClick d"
    and "t - pressedAtNs d < longDelayNs (registers d ButtonClickReg)"
  shows "\<exists>v. v AND ButtonPressed = 0 \<and> release t d = d\<lparr>
    registers := (registers d)(ButtonStatusReg := v), releasedAtNs := t,
    clickTimer := Some (t + max (clickDelayNs (registers d ButtonClickReg) 1)
      (clickDelayNs (registers d ButtonClickReg) 5))\<rparr>"
  using assms by (intro exI [of _ "registers d ButtonStatusReg AND NOT 1 OR of_bool False"])
    (auto simp: release_def buttonInput_def button_released_def Let_def ButtonPressed_def pm1_registers)

lemma press_second:
  assumes "registers d ButtonStatusReg AND ButtonPressed = 0" and "clickTimer d = Some u"
    and "t - releasedAtNs d \<le> clickDelayNs (registers d ButtonClickReg) 5"
  shows "\<exists>v. v AND ButtonPressed \<noteq> 0 \<and> press t d = d\<lparr>
    registers := (registers d)(ButtonStatusReg := v), secondClick := True, clickTimer := None,
    pressedAtNs := t\<rparr>"
  using assms by (intro exI [of _ "(registers d ButtonStatusReg OR ButtonPressFlag) AND NOT 1 OR of_bool True"])
    (auto simp: press_def buttonInput_def button_pressed_def Let_def ButtonPressed_def pm1_registers)

lemma release_second:
  assumes "registers d ButtonStatusReg AND ButtonPressed \<noteq> 0" and "secondClick d"
    and "t - pressedAtNs d < longDelayNs (registers d ButtonClickReg)"
    and "registers d ButtonActionReg AND 1 \<noteq> 0" and "hasIrqOutput (registers d)"
  shows "registers (release t d) ButtonIrqStatusReg = registers d ButtonIrqStatusReg OR DoubleClickIrq \<and>
    clickTimer (release t d) = clickTimer d"
proof -
  let ?regs = "(registers d)(ButtonStatusReg := registers d ButtonStatusReg AND NOT 1 OR of_bool False)"
  let ?d = "d\<lparr>registers := ?regs, secondClick := False\<rparr>"
  have "release t d = pm1_updateOutputs (?d\<lparr>registers := (registers ?d)(ButtonIrqStatusReg :=
      registers d ButtonIrqStatusReg OR DoubleClickIrq)\<rparr>)"
    using assms(1-4)
    by (simp add: release_def buttonInput_def button_released_def Let_def ButtonPressed_def pm1_registers)
  moreover have "hasIrqOutput (registers ?d)"
    using assms(5) by (simp add: hasIrqOutput_upd pm1_registers)
  ultimately show ?thesis by (simp only: report_click updateOutputs_frame) simp
qed

text \<open>C21: two short clicks in quick succession are reported as a double click and as nothing else:
  the status gains exactly the double-click bit and no click timer is left running.\<close>

theorem double_click_reported:
  assumes "registers d ButtonStatusReg AND ButtonPressed = 0" and "clickTimer d = None"
    and "registers d ButtonActionReg AND 1 \<noteq> 0"
    and "\<exists>pin < pm1_PinCount. gpioFunction (registers d) pin = 1"
    and "t1 - t0 < longDelayNs (registers d ButtonClickReg)"
    and "t2 - t1 \<le> clickDelayNs (registers d ButtonClickReg) 5"
    and "t3 - t2 < longDelayNs (registers d ButtonClickReg)"
  shows "registers (release t3 (press t2 (release t1 (press t0 d)))) ButtonIrqStatusReg =
      registers d ButtonIrqStatusReg OR DoubleClickIrq \<and>
    clickTimer (release t3 (press t2 (release t1 (press t0 d)))) = None"
proof -
  define d1 where "d1 = press t0 d"
  define d2 where "d2 = release t1 d1"
  define d3 where "d3 = press t2 d2"
  obtain a where a: "a AND ButtonPressed \<noteq> 0" and d1: "d1 = d\<lparr>
      registers := (registers d)(ButtonStatusReg := a), secondClick := False, pressedAtNs := t0\<rparr>"
    using press_idle [OF assms(1,2)] unfolding d1_def by blast
  obtain b u where b: "b AND ButtonPressed = 0" and d2: "d2 = d1\<lparr>
      registers := (registers d1)(ButtonStatusReg := b), releasedAtNs := t1, clickTimer := Some u\<rparr>"
    using release_short [of d1 t1] a assms(5) unfolding d2_def by (auto simp: d1 pm1_registers)
  obtain c where c: "c AND ButtonPressed \<noteq> 0" and d3: "d3 =
      d2\<lparr>registers := (registers d2)(ButtonStatusReg := c), secondClick := True,
        clickTimer := None, pressedAtNs := t2\<rparr>"
    using press_second [of d2 u t2] b assms(6) unfolding d3_def by (auto simp: d2 d1 pm1_registers)
  have regs: "registers d3 = (registers d)(ButtonStatusReg := c)"
    by (simp add: d3 d2 d1)
  have "hasIrqOutput (registers d3)"
    using assms(4) by (simp add: regs hasIrqOutput_upd pm1_registers) (simp add: hasIrqOutput_def)
  then have "registers (release t3 d3) ButtonIrqStatusReg = registers d ButtonIrqStatusReg OR DoubleClickIrq \<and>
      clickTimer (release t3 d3) = None"
    using release_second [of d3 t3] c assms(3,7) unfolding regs by (simp add: d3 pm1_registers)
  then show ?thesis by (simp add: d1_def d2_def d3_def)
qed

text \<open>A board with the interrupt on pin 0 and double clicks reported instead of shutting down.\<close>

definition pm1_demo :: m5pm1 where
  "pm1_demo = pm1_init\<lparr>registers := (registers pm1_init)(GpioFunctionReg := 1, ButtonActionReg := 1)\<rparr>"

theorem double_click_reported_witness:
  "registers (release 300 (press 200 (release 100 (press 0 pm1_demo)))) ButtonIrqStatusReg =
      registers pm1_demo ButtonIrqStatusReg OR DoubleClickIrq \<and>
    clickTimer (release 300 (press 200 (release 100 (press 0 pm1_demo)))) = None"
proof (rule double_click_reported)
  have r: "registers pm1_init ButtonStatusReg = 0" "registers pm1_init ButtonClickReg = 0x2A"
    using updateOutputs_registers
    by (simp_all add: pm1_init_def pm1_updateOutputs_def Let_def case_prod_beta cleared_eq pm1_registers stw_def)
  show "registers pm1_demo ButtonStatusReg AND ButtonPressed = 0"
    using r by (simp add: pm1_demo_def pm1_registers)
  show "clickTimer pm1_demo = None" by (simp add: pm1_demo_def pm1_init_def updateOutputs_frame)
  show "registers pm1_demo ButtonActionReg AND 1 \<noteq> 0" by (simp add: pm1_demo_def)
  show "\<exists>pin < pm1_PinCount. gpioFunction (registers pm1_demo) pin = 1"
    by (intro exI [of _ 0]) (simp add: pm1_PinCount_def gpioFunction_def pm1_demo_def pm1_registers)
  have c: "registers pm1_demo ButtonClickReg = 0x2A" using r by (simp add: pm1_demo_def pm1_registers)
  have delays: "longDelayNs 0x2A = 2000000000" "clickDelayNs 0x2A 5 = 250000000" by code_simp+
  show "100 - 0 < longDelayNs (registers pm1_demo ButtonClickReg)"
    "200 - 100 \<le> clickDelayNs (registers pm1_demo ButtonClickReg) 5"
    "300 - 200 < longDelayNs (registers pm1_demo ButtonClickReg)"
    by (simp_all add: c delays)
qed

section \<open>Burst access\<close>

text \<open>What the guest writes in one burst into registers the chip merely stores is what a later
  burst read of the same registers returns, for every length up to the 256 registers.\<close>

lemma pm1_burst_roundtrip:
  assumes "length vs \<le> 256" and "\<And>i. i < length vs \<Longrightarrow> pm1_plain (a + of_nat i)"
  shows "fst (read_transaction pm1_event pm1_send pm1_receive a (length vs)
    (write_transaction pm1_event pm1_send a vs d)) = vs"
  using pm1_bus.burst_roundtrip [OF TrueI assms] .

end
