(* ===== verification/M5ioe1.thy ===== *)
theory M5ioe1
  imports I2cDevice
begin

text \<open>
  The I/O expander of the board, \<open>qemu/devices/m5ioe1.c\<close>: fourteen pins with push-pull or
  open-drain outputs, the mean duty of the PWM channels and the one-wire output. \<open>ioe1_gpio\<close> and
  \<open>ioe1_drive\<close> are the levels last given to \<open>qemu_set_irq\<close>; a drive of -1 is a released pin.
\<close>

unbundle bit_operations_syntax

section \<open>Registers and state\<close>

definition ioe1_PinCount :: nat where "ioe1_PinCount = 14"
definition PwmEnabled :: u16 where "PwmEnabled = 0x8000"
definition PwmInverted :: u16 where "PwmInverted = 0x4000"
definition PwmDutyMask :: u16 where "PwmDutyMask = 0x0FFF"
definition ioe1_DirectionReg :: byte where "ioe1_DirectionReg = 0x03"
definition ioe1_OutputReg :: byte where "ioe1_OutputReg = 0x05"
definition ioe1_InputReg :: byte where "ioe1_InputReg = 0x07"
definition PullupReg :: byte where "PullupReg = 0x09"
definition PulldownReg :: byte where "PulldownReg = 0x0B"
definition OpenDrainReg :: byte where "OpenDrainReg = 0x13"
definition PwmDutyReg :: byte where "PwmDutyReg = 0x1B"
definition PwmFrequencyReg :: byte where "PwmFrequencyReg = 0x25"
definition ioe1_CommandReg :: byte where "ioe1_CommandReg = 0x29"
definition OneWireReg :: byte where "OneWireReg = 0x90"

lemmas ioe1_registers = ioe1_DirectionReg_def ioe1_OutputReg_def ioe1_InputReg_def PullupReg_def
  PulldownReg_def OpenDrainReg_def PwmDutyReg_def PwmFrequencyReg_def ioe1_CommandReg_def
  OneWireReg_def

record m5ioe1 = i2c_device +
  ioe1_gpio :: "nat \<Rightarrow> bool"
  ioe1_drive :: "nat \<Rightarrow> int"

section \<open>Outputs\<close>

definition pinMask16 :: "nat \<Rightarrow> u16" where
  "pinMask16 pin = push_bit pin 1"

definition pinDrive :: "(byte \<Rightarrow> byte) \<Rightarrow> nat \<Rightarrow> int" where
  "pinDrive regs pin =
     (let m = pinMask16 pin;
          high = lduw regs ioe1_OutputReg AND m \<noteq> 0 in
      if lduw regs ioe1_DirectionReg AND m \<noteq> 0 \<and> \<not> (high \<and> lduw regs OpenDrainReg AND m \<noteq> 0)
      then of_bool high else - 1)"

definition ioe1_updateOutputs :: "m5ioe1 \<Rightarrow> m5ioe1" where
  "ioe1_updateOutputs d =
     (let direction = lduw (registers d) ioe1_DirectionReg;
          output = lduw (registers d) ioe1_OutputReg in
      fold (\<lambda>pin d. d\<lparr>ioe1_gpio := (ioe1_gpio d)(pin := (drop_bit pin (direction AND output) AND 1 \<noteq> 0)),
                      ioe1_drive := (ioe1_drive d)(pin := pinDrive (registers d) pin)\<rparr>)
        [0..<ioe1_PinCount] d)"

definition ioe1_resetRegisters :: "m5ioe1 \<Rightarrow> m5ioe1" where
  "ioe1_resetRegisters d = ioe1_updateOutputs (d\<lparr>
     registers := stw PwmFrequencyReg 500 (stw 0x27 3300 ((stw 0 1 (\<lambda>_. 0))(2 := 0x57))),
     registerAddress := 0\<rparr>)"

section \<open>I2C\<close>

definition ioe1_event :: "i2c_event \<Rightarrow> m5ioe1 \<Rightarrow> m5ioe1" where
  "ioe1_event e d = (if e = I2C_START_SEND then d\<lparr>registerPhase := True\<rparr> else d)"

text \<open>What an input register reads: the driven pins and the pulled-up undriven ones.\<close>

definition inputLevels :: "(byte \<Rightarrow> byte) \<Rightarrow> byte \<Rightarrow> byte" where
  "inputLevels regs i =
     (let v = regs (ioe1_OutputReg + i) AND regs (ioe1_DirectionReg + i) OR
        (regs (PullupReg + i) AND NOT (regs (PulldownReg + i)) AND NOT (regs (ioe1_DirectionReg + i)))
      in if i \<noteq> 0 then v AND 0x3F else v)"

definition ioe1_receive :: "m5ioe1 \<Rightarrow> byte \<times> m5ioe1" where
  "ioe1_receive d = (let a = registerAddress d in
     (if a = ioe1_InputReg \<or> a = 0x08 then inputLevels (registers d) (a - ioe1_InputReg)
      else registers d a,
      d\<lparr>registerAddress := a + 1\<rparr>))"

definition ioe1_writable :: "byte \<Rightarrow> bool" where
  "ioe1_writable a \<longleftrightarrow>
     (ioe1_DirectionReg \<le> a \<and> a \<le> 0x06) \<or> (PullupReg \<le> a \<and> a \<le> 0x10) \<or>
     (OpenDrainReg \<le> a \<and> a \<le> 0x15) \<or> a = 0x18 \<or>
     (PwmDutyReg \<le> a \<and> a \<le> 0x26) \<or> (0x30 \<le> a \<and> a \<le> OneWireReg)"

text \<open>One-wire mode selection: the pin named by the value ends as an output driven high.\<close>

definition selectOneWire :: "byte \<Rightarrow> m5ioe1 \<Rightarrow> m5ioe1" where
  "selectOneWire v d =
     (let pin = unat (v AND 0x1F) in
      if pin < ioe1_PinCount then
        let regs = registers d;
            regs = stw ioe1_DirectionReg (lduw regs ioe1_DirectionReg OR pinMask16 pin) regs;
            regs = stw ioe1_OutputReg (lduw regs ioe1_OutputReg OR pinMask16 pin) regs
        in ioe1_updateOutputs (d\<lparr>registers := regs\<rparr>)
      else d)"

definition ioe1_store :: "byte \<Rightarrow> byte \<Rightarrow> m5ioe1 \<Rightarrow> m5ioe1" where
  "ioe1_store a v d =
     (let d = d\<lparr>registers := (registers d)(a := v)\<rparr>;
          d = (if (ioe1_DirectionReg \<le> a \<and> a \<le> 0x06) \<or> a = OpenDrainReg \<or> a = 0x14
               then ioe1_updateOutputs d else d) in
      if a = 0x15 \<or> a = 0x18 \<or> a = 0x24 then
        d\<lparr>registers := (registers d)(a := registers d a AND NOT 0xC0)\<rparr>
      else if a = OneWireReg \<and> v AND 0x80 \<noteq> 0 then
        let d = selectOneWire v d in d\<lparr>registers := (registers d)(a := registers d a AND NOT 0x80)\<rparr>
      else d)"

definition ioe1_send :: "byte \<Rightarrow> m5ioe1 \<Rightarrow> m5ioe1" where
  "ioe1_send v d =
     (if registerPhase d then d\<lparr>registerAddress := v, registerPhase := False\<rparr>
      else
        let a = registerAddress d; d = d\<lparr>registerAddress := a + 1\<rparr> in
        if a = ioe1_CommandReg then (if v = 0x3A then ioe1_resetRegisters d else d)
        else if a = 0x11 \<or> a = 0x12 then d\<lparr>registers := (registers d)(a := registers d a AND v)\<rparr>
        else if ioe1_writable a then ioe1_store a v d
        else d)"

section \<open>PWM\<close>

definition PwmPins :: "nat list" where
  "PwmPins = [8, 7, 10, 9]"

text \<open>The channel of a pin, searched in order; the duty is computed in 32-bit arithmetic.\<close>

definition pwmDuty :: "u16 \<Rightarrow> u32" where
  "pwmDuty config =
     (let duty = (ucast (config AND PwmDutyMask) :: u32);
          duty = (if config AND PwmInverted \<noteq> 0 then 4095 - duty else duty)
      in duty * 65535 div 4095)"

definition pwmChannel :: "nat \<Rightarrow> nat option" where
  "pwmChannel pin = List.find (\<lambda>channel. PwmPins ! channel = pin) [0..<length PwmPins]"

definition m5ioe1OutputDuty :: "m5ioe1 \<Rightarrow> nat \<Rightarrow> u16" where
  "m5ioe1OutputDuty d pin =
     (let regs = registers d;
          latched = (if lduw regs ioe1_OutputReg AND pinMask16 pin \<noteq> 0 then 65535 else 0) in
      if ioe1_PinCount \<le> pin \<or> lduw regs ioe1_DirectionReg AND pinMask16 pin = 0 then 0
      else case pwmChannel pin of
        None \<Rightarrow> latched
      | Some channel \<Rightarrow>
          (let config = lduw regs (PwmDutyReg + of_nat (channel * 2)) in
           if config AND PwmEnabled = 0 then latched
           else if lduw regs PwmFrequencyReg = 0 then 0
           else ucast (pwmDuty config)))"

definition ioe1_init :: m5ioe1 where
  "ioe1_init = ioe1_resetRegisters \<lparr>registers = (\<lambda>_. 0), registerAddress = 0, registerPhase = False,
     ioe1_gpio = (\<lambda>_. False), ioe1_drive = (\<lambda>_. 0)\<rparr>"

inductive ioe1_step :: "m5ioe1 \<Rightarrow> m5ioe1 \<Rightarrow> bool" where
  ioe1_step_event: "ioe1_step d (ioe1_event e d)"
| ioe1_step_receive: "ioe1_step d (snd (ioe1_receive d))"
| ioe1_step_send: "ioe1_step d (ioe1_send v d)"

section \<open>The pins follow the registers\<close>

definition ioe1_inv :: "m5ioe1 \<Rightarrow> bool" where
  "ioe1_inv d \<longleftrightarrow> (\<forall>pin < ioe1_PinCount.
     ioe1_gpio d pin = (bit (lduw (registers d) ioe1_DirectionReg) pin \<and>
        bit (lduw (registers d) ioe1_OutputReg) pin) \<and>
     ioe1_drive d pin = pinDrive (registers d) pin)"

lemma and_nonzero16: "(x :: u16) AND y \<noteq> 0 \<longleftrightarrow> (\<exists>n. bit x n \<and> bit y n)"
  using bit_imp_le_length [of x] by (fastforce simp: bit_eq_iff bit_simps)

lemma test_shifted: "drop_bit pin x AND 1 \<noteq> 0 \<longleftrightarrow> bit x pin" for x :: u16
  by (auto simp: and_nonzero16 bit_simps)

lemma test_pinMask16: "pin < 16 \<Longrightarrow> x AND pinMask16 pin \<noteq> 0 \<longleftrightarrow> bit x pin" for x :: u16
  by (auto simp: and_nonzero16 pinMask16_def bit_simps)

lemma test_pinMask16': "pin < 16 \<Longrightarrow> x AND pinMask16 pin = 0 \<longleftrightarrow> \<not> bit x pin" for x :: u16
  using test_pinMask16 [of pin x] by blast

lemma fold_outputs:
  "fold (\<lambda>pin d. d\<lparr>ioe1_gpio := (ioe1_gpio d)(pin := f pin),
       ioe1_drive := (ioe1_drive d)(pin := pinDrive (registers d) pin)\<rparr>) [0..<n] d =
     d\<lparr>ioe1_gpio := (\<lambda>p. if p < n then f p else ioe1_gpio d p),
       ioe1_drive := (\<lambda>p. if p < n then pinDrive (registers d) p else ioe1_drive d p)\<rparr>"
  by (induction n) (auto simp: less_Suc_eq fun_eq_iff intro!: m5ioe1.equality)

lemma updateOutputs_eq: "ioe1_updateOutputs d = d\<lparr>
    ioe1_gpio := (\<lambda>p. if p < ioe1_PinCount then bit (lduw (registers d) ioe1_DirectionReg) p \<and>
        bit (lduw (registers d) ioe1_OutputReg) p else ioe1_gpio d p),
    ioe1_drive := (\<lambda>p. if p < ioe1_PinCount then pinDrive (registers d) p else ioe1_drive d p)\<rparr>"
  unfolding ioe1_updateOutputs_def Let_def fold_outputs test_shifted bit_and_iff by simp

lemma updateOutputs_ioe1_inv: "ioe1_inv (ioe1_updateOutputs d)"
  by (simp add: ioe1_inv_def updateOutputs_eq)

lemma ioe1_inv_cong:
  assumes "ioe1_inv d" and "ioe1_gpio d' = ioe1_gpio d" and "ioe1_drive d' = ioe1_drive d"
    and same: "\<And>a. a \<in> {3, 4, 5, 6, 0x13, 0x14} \<Longrightarrow> registers d' a = registers d a"
  shows "ioe1_inv d'"
proof -
  have "lduw (registers d') r = lduw (registers d) r" if "r \<in> {3, 5, 0x13}" for r
    using that by (auto simp: lduw_def same)
  then have "lduw (registers d') ioe1_DirectionReg = lduw (registers d) ioe1_DirectionReg"
    "lduw (registers d') ioe1_OutputReg = lduw (registers d) ioe1_OutputReg"
    "lduw (registers d') OpenDrainReg = lduw (registers d) OpenDrainReg"
    by (simp_all add: ioe1_registers)
  then show ?thesis using assms(1-3) by (simp add: ioe1_inv_def pinDrive_def)
qed

lemma selectOneWire_inv: "ioe1_inv d \<Longrightarrow> ioe1_inv (selectOneWire v d)"
  by (simp add: selectOneWire_def Let_def updateOutputs_ioe1_inv)

lemma ioe1_store_inv:
  assumes "ioe1_inv d" and "ioe1_writable a"
  shows "ioe1_inv (ioe1_store a v d)"
proof -
  let ?u = "(ioe1_DirectionReg \<le> a \<and> a \<le> 0x06) \<or> a = OpenDrainReg \<or> a = 0x14"
  let ?d = "d\<lparr>registers := (registers d)(a := v)\<rparr>"
  let ?e = "if ?u then ioe1_updateOutputs ?d else ?d"
  have e: "ioe1_inv ?e"
  proof (cases ?u)
    case False
    have "a \<notin> {3, 4, 5, 6, 0x13, 0x14}" using False by (auto simp: ioe1_registers)
    then have "ioe1_inv ?d" by (intro ioe1_inv_cong [OF assms(1)]) auto
    with False show ?thesis by (simp only: if_False)
  qed (simp only: if_True updateOutputs_ioe1_inv)
  have masked: "ioe1_inv (x\<lparr>registers := (registers x)(a := w)\<rparr>)"
    if "ioe1_inv x" and "a = 0x15 \<or> a = 0x18 \<or> a = 0x24 \<or> a = OneWireReg" for x w
    using that(2) by (intro ioe1_inv_cong [OF that(1)]) (auto simp: ioe1_registers)
  let ?A = "a = 0x15 \<or> a = 0x18 \<or> a = 0x24" and ?B = "a = OneWireReg \<and> v AND 0x80 \<noteq> 0"
  have store: "ioe1_store a v d =
      (if ?A then ?e\<lparr>registers := (registers ?e)(a := registers ?e a AND NOT 0xC0)\<rparr>
       else if ?B then (selectOneWire v ?e)\<lparr>registers := (registers (selectOneWire v ?e))
         (a := registers (selectOneWire v ?e) a AND NOT 0x80)\<rparr>
       else ?e)"
    by (simp only: ioe1_store_def Let_def)
  have A: "ioe1_inv (?e\<lparr>registers := (registers ?e)(a := registers ?e a AND NOT 0xC0)\<rparr>)" if ?A
    using that by (intro masked [OF e]) blast
  have B: "ioe1_inv ((selectOneWire v ?e)\<lparr>registers := (registers (selectOneWire v ?e))
      (a := registers (selectOneWire v ?e) a AND NOT 0x80)\<rparr>)" if ?B
    using that by (intro masked [OF selectOneWire_inv [OF e]]) blast
  have either: "ioe1_inv (if c then x else y)"
    if "c \<Longrightarrow> ioe1_inv x" and "\<not> c \<Longrightarrow> ioe1_inv y" for c x y
    using that by simp
  show ?thesis unfolding store by (rule either, erule A, rule either, erule B, rule e)
qed

lemma ioe1_step_inv: "ioe1_step d d' \<Longrightarrow> ioe1_inv d \<Longrightarrow> ioe1_inv d'"
proof (induction rule: ioe1_step.induct)
  case (ioe1_step_event d e)
  then show ?case by (rule ioe1_inv_cong) (simp_all add: ioe1_event_def)
next
  case (ioe1_step_receive d)
  then show ?case by (rule ioe1_inv_cong) (simp_all add: ioe1_receive_def Let_def)
next
  case (ioe1_step_send d v)
  let ?d = "d\<lparr>registerAddress := registerAddress d + 1\<rparr>"
  have next_inv: "ioe1_inv ?d" by (rule ioe1_inv_cong [OF ioe1_step_send]) simp_all
  then have cmd: "registerAddress d = 41 \<longrightarrow> ioe1_inv (d\<lparr>registerAddress := 42\<rparr>)" by auto
  have sel: "ioe1_inv (d\<lparr>registerAddress := v, registerPhase := False\<rparr>)"
    by (rule ioe1_inv_cong [OF ioe1_step_send]) simp_all
  have irq: "ioe1_inv (?d\<lparr>registers := (registers ?d)(a := w)\<rparr>)" if "a = 0x11 \<or> a = 0x12" for a w
    using that by (intro ioe1_inv_cong [OF next_inv]) auto
  show ?case
    using next_inv sel irq ioe1_store_inv [OF next_inv] cmd
    by (simp add: ioe1_send_def Let_def ioe1_resetRegisters_def updateOutputs_ioe1_inv
        ioe1_CommandReg_def)
qed

interpretation ioe1_machine: state_machine "\<lambda>d. d = ioe1_init" ioe1_step ioe1_inv
  by unfold_locales (auto simp: ioe1_init_def ioe1_resetRegisters_def updateOutputs_ioe1_inv
      intro: ioe1_step_inv)

text \<open>C22: in every reachable state of the expander a pin is driven exactly when it is an output that
  is not an open-drain high, at the level of its output register; any other pin is released.\<close>

theorem ioe1_drive_follows_registers:
  assumes "reachable (\<lambda>d. d = ioe1_init) ioe1_step d" and "pin < ioe1_PinCount"
  shows "ioe1_drive d pin =
    (if bit (lduw (registers d) ioe1_DirectionReg) pin \<and>
        \<not> (bit (lduw (registers d) ioe1_OutputReg) pin \<and> bit (lduw (registers d) OpenDrainReg) pin)
     then of_bool (bit (lduw (registers d) ioe1_OutputReg) pin) else - 1)"
proof -
  have "ioe1_drive d pin = pinDrive (registers d) pin"
    using ioe1_machine.reachable_inv [OF assms(1)] assms(2) by (simp add: ioe1_inv_def)
  then show ?thesis
    using assms(2) by (simp add: pinDrive_def Let_def test_pinMask16' ioe1_PinCount_def)
qed

theorem ioe1_drive_follows_registers_witness:
  "ioe1_drive (ioe1_send 0x90 (ioe1_event I2C_START_SEND ioe1_init)) 3 =
    (if bit (lduw (registers (ioe1_send 0x90 (ioe1_event I2C_START_SEND ioe1_init))) ioe1_DirectionReg) 3 \<and>
        \<not> (bit (lduw (registers (ioe1_send 0x90 (ioe1_event I2C_START_SEND ioe1_init))) ioe1_OutputReg) 3 \<and>
           bit (lduw (registers (ioe1_send 0x90 (ioe1_event I2C_START_SEND ioe1_init))) OpenDrainReg) 3)
     then of_bool (bit (lduw (registers (ioe1_send 0x90 (ioe1_event I2C_START_SEND ioe1_init))) ioe1_OutputReg) 3)
     else - 1)"
  by (rule ioe1_drive_follows_registers)
    (rule reach_step, rule reach_step, rule reach_init, rule refl, rule ioe1_step_event,
     rule ioe1_step_send, simp add: ioe1_PinCount_def)

section \<open>Registers that are stored are read back\<close>

definition ioe1_plain :: "byte \<Rightarrow> bool" where
  "ioe1_plain a \<longleftrightarrow> ioe1_writable a \<and> a \<notin> {0x15, 0x18, 0x24, OneWireReg}"

lemma plain_excludes:
  "ioe1_plain a \<Longrightarrow> a \<noteq> ioe1_CommandReg \<and> a \<noteq> 0x11 \<and> a \<noteq> 0x12 \<and> a \<noteq> 0x07 \<and> a \<noteq> 0x08"
  by (auto simp: ioe1_plain_def ioe1_writable_def ioe1_registers)

lemma send_plain:
  assumes "\<not> registerPhase d" and "ioe1_plain (registerAddress d)"
  shows "registers (ioe1_send v d) = (registers d)(registerAddress d := v) \<and>
    registerAddress (ioe1_send v d) = registerAddress d + 1 \<and> \<not> registerPhase (ioe1_send v d)"
  using assms plain_excludes [OF assms(2)]
  by (simp add: ioe1_send_def ioe1_store_def Let_def updateOutputs_eq ioe1_plain_def)

interpretation ioe1_bus: i2c_slave "\<lambda>_ :: unit. ioe1_event" "\<lambda>_. ioe1_send" "\<lambda>_. ioe1_receive"
    registerAddress registerPhase registers ioe1_plain "\<lambda>_. True"
  by unfold_locales
    (use plain_excludes in \<open>auto simp: send_plain ioe1_event_def ioe1_receive_def Let_def
       ioe1_InputReg_def, simp_all add: ioe1_send_def\<close>)

section \<open>PWM duty\<close>

lemma masked_duty: "unat (config AND PwmDutyMask) \<le> 4095"
proof -
  have "config AND PwmDutyMask = take_bit 12 config"
    by (simp add: PwmDutyMask_def take_bit_eq_mask mask_eq_exp_minus_1)
  then show ?thesis
    using take_bit_nat_less_exp [of 12 "unat config"] by (simp add: unsigned_take_bit_eq)
qed

lemma unat_ucast_u16: "unat (ucast (x :: u16) :: u32) = unat x"
  using word16_unat_less [of x] by (simp add: unsigned_ucast_eq take_bit_nat_eq_self)

definition dutyFraction :: "u16 \<Rightarrow> nat" where
  "dutyFraction config = (if config AND PwmInverted \<noteq> 0 then 4095 - unat (config AND PwmDutyMask)
     else unat (config AND PwmDutyMask))"

lemma dutyFraction_le: "dutyFraction config \<le> 4095"
  using masked_duty [of config] by (simp add: dutyFraction_def)

text \<open>C23: the duty of a channel is its twelve-bit fraction scaled to sixteen bits with no
  wrap-around in the 32-bit product, from 0 for an idle channel to 65535 for a constant one;
  inverting the channel takes the complement of the fraction.\<close>

theorem pwm_duty_scales:
  "unat (pwmDuty config) = dutyFraction config * 65535 div 4095 \<and> unat (pwmDuty config) \<le> 65535"
proof -
  let ?m = "ucast (config AND PwmDutyMask) :: u32"
  let ?w = "if config AND PwmInverted \<noteq> 0 then 4095 - ?m else ?m"
  have m: "unat ?m = unat (config AND PwmDutyMask)" by (rule unat_ucast_u16)
  have "unat (4095 - ?m) = 4095 - unat ?m"
    using masked_duty [of config] by (simp add: unat_sub word_le_nat_alt m)
  then have w: "unat ?w = dutyFraction config" by (simp add: dutyFraction_def m)
  have small: "dutyFraction config * 65535 < 2 ^ 32" using dutyFraction_le [of config] by simp
  have "unat (?w * 65535) = dutyFraction config * 65535"
    using small w by (simp add: unat_word_ariths)
  then have "unat (pwmDuty config) = dutyFraction config * 65535 div 4095"
    by (simp add: pwmDuty_def Let_def unat_div)
  moreover have "dutyFraction config * 65535 div 4095 \<le> 65535"
    using dutyFraction_le [of config] div_le_mono [of "dutyFraction config * 65535" "4095 * 65535" 4095]
    by simp
  ultimately show ?thesis by simp
qed

end
