(* ===== verification/Cst820.thy ===== *)
theory Cst820
  imports I2cDevice
begin

text \<open>
  The touch controller of the board, \<open>qemu/devices/cst820.c\<close>: a single touch point, a pulse on the
  interrupt line for every change of state, power and reset inputs. The clock is an argument;
  \<open>irqLevel\<close> is the level last given to \<open>qemu_set_irq\<close>, \<open>irqTimer\<close> the pending end of the pulse.
\<close>

unbundle bit_operations_syntax

section \<open>Registers and state\<close>

definition StartupDelayNs :: int where "StartupDelayNs = 100000000"
definition IrqPulseUnitNs :: int where "IrqPulseUnitNs = 100000"
definition ChangeInterrupt :: byte where "ChangeInterrupt = 0x20"
definition TouchCountReg :: byte where "TouchCountReg = 0x02"
definition TouchXHighReg :: byte where "TouchXHighReg = 0x03"
definition TouchXLowReg :: byte where "TouchXLowReg = 0x04"
definition TouchYHighReg :: byte where "TouchYHighReg = 0x05"
definition TouchYLowReg :: byte where "TouchYLowReg = 0x06"
definition SleepModeReg :: byte where "SleepModeReg = 0xE5"
definition IrqPulseWidthReg :: byte where "IrqPulseWidthReg = 0xED"
definition IrqControlReg :: byte where "IrqControlReg = 0xFA"
definition AutoSleepReg :: byte where "AutoSleepReg = 0xFE"

lemmas cst820_registers = TouchCountReg_def TouchXHighReg_def TouchXLowReg_def TouchYHighReg_def
  TouchYLowReg_def SleepModeReg_def IrqPulseWidthReg_def IrqControlReg_def AutoSleepReg_def

record cst820 = i2c_device +
  touchX :: u16
  touchY :: u16
  touchDown :: bool
  powered :: bool
  resetAsserted :: bool
  touchReadyAtNs :: int
  irqLevel :: bool
  irqTimer :: "int option"

section \<open>Touch reports\<close>

definition isActive :: "cst820 \<Rightarrow> bool" where
  "isActive d \<longleftrightarrow> powered d \<and> \<not> resetAsserted d"

definition releaseIrq :: "cst820 \<Rightarrow> cst820" where
  "releaseIrq d = d\<lparr>irqLevel := True\<rparr>"

text \<open>QEMU takes the timer off before the callback runs.\<close>

definition cst820_timer :: "cst820 \<Rightarrow> cst820" where
  "cst820_timer d = releaseIrq (d\<lparr>irqTimer := None\<rparr>)"

definition reported :: "(byte \<Rightarrow> byte) \<Rightarrow> byte \<Rightarrow> byte \<Rightarrow> u16" where
  "reported regs high low = push_bit 8 (ucast (regs high AND 0x0F)) OR ucast (regs low)"

definition touchReady :: "int \<Rightarrow> cst820 \<Rightarrow> bool" where
  "touchReady nowNs d \<longleftrightarrow> isActive d \<and> registers d SleepModeReg \<noteq> 3 \<and> touchReadyAtNs d \<le> nowNs"

definition touchReport :: "bool \<Rightarrow> u16 \<Rightarrow> u16 \<Rightarrow> (byte \<Rightarrow> byte) \<Rightarrow> byte \<Rightarrow> byte" where
  "touchReport down x y regs = regs(
     TouchCountReg := of_bool down,
     TouchXHighReg := (if down then 0x80 else 0x40) OR ucast (drop_bit 8 x),
     TouchXLowReg := ucast x,
     TouchYHighReg := ucast (drop_bit 8 y),
     TouchYLowReg := ucast y)"

definition touchChanged :: "bool \<Rightarrow> cst820 \<Rightarrow> bool" where
  "touchChanged down d \<longleftrightarrow>
     down \<noteq> (registers d TouchCountReg \<noteq> 0) \<or>
     (down \<and> (touchX d \<noteq> reported (registers d) TouchXHighReg TouchXLowReg \<or>
        touchY d \<noteq> reported (registers d) TouchYHighReg TouchYLowReg))"

definition updateTouch :: "int \<Rightarrow> cst820 \<Rightarrow> cst820" where
  "updateTouch nowNs d =
     (let ready = touchReady nowNs d; down = (ready \<and> touchDown d);
          changed = touchChanged down d;
          d = d\<lparr>registers := touchReport down (touchX d) (touchY d) (registers d)\<rparr> in
      if \<not> ready \<or> registers d IrqControlReg AND ChangeInterrupt = 0 then
        d\<lparr>irqTimer := None, irqLevel := True\<rparr>
      else if changed \<and> irqTimer d = None then
        d\<lparr>irqLevel := False,
          irqTimer := Some (nowNs + uint (registers d IrqPulseWidthReg) * IrqPulseUnitNs)\<rparr>
      else d)"

definition cst820_resetRegisters :: "int \<Rightarrow> cst820 \<Rightarrow> cst820" where
  "cst820_resetRegisters nowNs d = updateTouch nowNs (d\<lparr>
     registers := (\<lambda>_. 0)(0xA7 := 0xB5, 0xA9 := 1, IrqPulseWidthReg := 10),
     registerAddress := 0, registerPhase := False\<rparr>)"

section \<open>Inputs\<close>

definition powerInput :: "int \<Rightarrow> bool \<Rightarrow> cst820 \<Rightarrow> cst820" where
  "powerInput nowNs level d =
     (if powered d = level then d
      else cst820_resetRegisters nowNs (d\<lparr>powered := level, touchReadyAtNs := nowNs + StartupDelayNs\<rparr>))"

definition resetInput :: "int \<Rightarrow> bool \<Rightarrow> cst820 \<Rightarrow> cst820" where
  "resetInput nowNs level d =
     (let asserted = (\<not> level) in
      if resetAsserted d = asserted then d
      else
        let d = d\<lparr>resetAsserted := asserted\<rparr> in
        if asserted then cst820_resetRegisters nowNs d
        else updateTouch nowNs (d\<lparr>touchReadyAtNs := nowNs + StartupDelayNs\<rparr>))"

definition cst820SetTouch :: "int \<Rightarrow> u16 \<Rightarrow> u16 \<Rightarrow> bool \<Rightarrow> cst820 \<Rightarrow> cst820" where
  "cst820SetTouch nowNs x y down d =
     updateTouch nowNs (d\<lparr>touchX := x, touchY := y, touchDown := down\<rparr>)"

section \<open>I2C\<close>

text \<open>The result says whether the device acknowledges.\<close>

definition cst820_event :: "int \<Rightarrow> i2c_event \<Rightarrow> cst820 \<Rightarrow> bool \<times> cst820" where
  "cst820_event nowNs e d =
     (if (e = I2C_START_SEND \<or> e = I2C_START_RECV) \<and> \<not> isActive d then (False, d)
      else
        let d = (if e = I2C_START_SEND \<or> e = I2C_START_RECV then updateTouch nowNs d else d)
        in (True, if e = I2C_START_SEND then d\<lparr>registerPhase := True\<rparr> else d))"

definition cst820_receive :: "cst820 \<Rightarrow> byte \<times> cst820" where
  "cst820_receive d =
     (if \<not> isActive d then (0xFF, d)
      else (registers d (registerAddress d), d\<lparr>registerAddress := registerAddress d + 1\<rparr>))"

definition cst820_send :: "int \<Rightarrow> byte \<Rightarrow> cst820 \<Rightarrow> bool \<times> cst820" where
  "cst820_send nowNs v d =
     (if \<not> isActive d then (False, d)
      else if registerPhase d then (True, d\<lparr>registerAddress := v, registerPhase := False\<rparr>)
      else
        let a = registerAddress d; d = d\<lparr>registerAddress := a + 1\<rparr> in
        (True,
         if a = IrqPulseWidthReg then d\<lparr>registers := (registers d)(a := min (max v 1) 200)\<rparr>
         else if a = SleepModeReg \<or> a = IrqControlReg \<or> a = AutoSleepReg then
           let d = d\<lparr>registers := (registers d)(a := v)\<rparr> in
           if a = SleepModeReg \<or> a = IrqControlReg then updateTouch nowNs d else d
         else d))"

definition cst820_init :: "int \<Rightarrow> cst820" where
  "cst820_init nowNs = cst820_resetRegisters nowNs \<lparr>registers = (\<lambda>_. 0), registerAddress = 0,
     registerPhase = False, touchX = 0, touchY = 0, touchDown = False, powered = False,
     resetAsserted = True, touchReadyAtNs = 0, irqLevel = False, irqTimer = None\<rparr>"

inductive cst820_step :: "cst820 \<Rightarrow> cst820 \<Rightarrow> bool" where
  cst820_step_event: "cst820_step d (snd (cst820_event nowNs e d))"
| cst820_step_receive: "cst820_step d (snd (cst820_receive d))"
| cst820_step_send: "cst820_step d (snd (cst820_send nowNs v d))"
| cst820_step_power: "cst820_step d (powerInput nowNs level d)"
| cst820_step_reset: "cst820_step d (resetInput nowNs level d)"
| cst820_step_touch: "cst820_step d (cst820SetTouch nowNs x y down d)"
| cst820_step_timer: "irqTimer d \<noteq> None \<Longrightarrow> cst820_step d (cst820_timer d)"

section \<open>The interrupt line\<close>

text \<open>An inactive controller reports no touch and keeps the line released; the line is low only
  while a pulse is timed; the pulse register stays within its clamp.\<close>

definition cst820_inv :: "cst820 \<Rightarrow> bool" where
  "cst820_inv d \<longleftrightarrow>
     (\<not> irqLevel d \<longleftrightarrow> irqTimer d \<noteq> None) \<and>
     (\<not> isActive d \<longrightarrow> irqLevel d \<and> registers d TouchCountReg = 0) \<and>
     1 \<le> registers d IrqPulseWidthReg \<and> registers d IrqPulseWidthReg \<le> 200"

lemma updateTouch_frame:
  "registerAddress (updateTouch nowNs d) = registerAddress d"
  "registerPhase (updateTouch nowNs d) = registerPhase d"
  "isActive (updateTouch nowNs d) = isActive d"
  "powered (updateTouch nowNs d) = powered d"
  "resetAsserted (updateTouch nowNs d) = resetAsserted d"
  "touchX (updateTouch nowNs d) = touchX d" "touchY (updateTouch nowNs d) = touchY d"
  "touchDown (updateTouch nowNs d) = touchDown d"
  "touchReadyAtNs (updateTouch nowNs d) = touchReadyAtNs d"
  "registers (updateTouch nowNs d) = touchReport (touchReady nowNs d \<and> touchDown d)
     (touchX d) (touchY d) (registers d)"
  by (simp_all add: updateTouch_def Let_def isActive_def)

lemma touchReport_other:
  "a \<notin> {TouchCountReg, TouchXHighReg, TouchXLowReg, TouchYHighReg, TouchYLowReg} \<Longrightarrow>
     touchReport down x y regs a = regs a"
  by (auto simp: touchReport_def)

lemma touchReport_count [simp]: "touchReport down x y regs TouchCountReg = of_bool down"
  by (simp add: touchReport_def cst820_registers)

text \<open>An update needs only the width and the pairing of line and timer.\<close>

lemma updateTouch_inv:
  assumes "1 \<le> registers d IrqPulseWidthReg" and "registers d IrqPulseWidthReg \<le> 200"
    and "\<not> irqLevel d \<longleftrightarrow> irqTimer d \<noteq> None"
  shows "cst820_inv (updateTouch nowNs d)"
proof -
  have w: "registers (updateTouch nowNs d) IrqPulseWidthReg = registers d IrqPulseWidthReg"
    unfolding updateTouch_frame by (rule touchReport_other) (simp add: cst820_registers)
  have line: "\<not> irqLevel (updateTouch nowNs d) \<longleftrightarrow> irqTimer (updateTouch nowNs d) \<noteq> None"
    using assms(3) by (auto simp: updateTouch_def Let_def)
  have off: "irqLevel (updateTouch nowNs d) \<and> registers (updateTouch nowNs d) TouchCountReg = 0"
    if "\<not> isActive d"
    using that by (simp add: updateTouch_def Let_def touchReady_def)
  show ?thesis
    unfolding cst820_inv_def w updateTouch_frame(3) using assms(1,2) line off by blast
qed

lemma updateTouch_inactive_inv:
  assumes "1 \<le> registers d IrqPulseWidthReg" and "registers d IrqPulseWidthReg \<le> 200"
    and "\<not> isActive d"
  shows "cst820_inv (updateTouch nowNs d)"
proof -
  have w: "registers (updateTouch nowNs d) IrqPulseWidthReg = registers d IrqPulseWidthReg"
    unfolding updateTouch_frame by (rule touchReport_other) (simp add: cst820_registers)
  have "irqLevel (updateTouch nowNs d) \<and> irqTimer (updateTouch nowNs d) = None \<and>
      registers (updateTouch nowNs d) TouchCountReg = 0"
    using assms(3) by (simp add: updateTouch_def Let_def touchReady_def)
  then show ?thesis unfolding cst820_inv_def w using assms(1,2) by simp
qed

lemma cst820_invD: "cst820_inv d \<Longrightarrow> \<not> irqLevel d \<longleftrightarrow> irqTimer d \<noteq> None"
  "cst820_inv d \<Longrightarrow> 1 \<le> registers d IrqPulseWidthReg"
  "cst820_inv d \<Longrightarrow> registers d IrqPulseWidthReg \<le> 200"
  by (simp_all add: cst820_inv_def)

lemma reset_inv: "\<not> irqLevel d \<longleftrightarrow> irqTimer d \<noteq> None \<Longrightarrow> cst820_inv (cst820_resetRegisters nowNs d)"
  unfolding cst820_resetRegisters_def by (rule updateTouch_inv) (simp_all add: cst820_registers)

lemma cst820_inv_cong:
  assumes "cst820_inv d" and "irqLevel d' = irqLevel d" and "irqTimer d' = irqTimer d"
    and "isActive d' = isActive d" and "registers d' TouchCountReg = registers d TouchCountReg"
    and "1 \<le> registers d' IrqPulseWidthReg" and "registers d' IrqPulseWidthReg \<le> 200"
  shows "cst820_inv d'"
  using assms by (simp add: cst820_inv_def)

lemma cst820_send_inv:
  assumes "cst820_inv d"
  shows "cst820_inv (snd (cst820_send nowNs v d))"
proof -
  let ?a = "registerAddress d"
  let ?n = "d\<lparr>registerAddress := ?a + 1\<rparr>"
  note inv = cst820_invD [OF assms]
  have same: "cst820_inv ?n" "cst820_inv (d\<lparr>registerAddress := v, registerPhase := False\<rparr>)"
    by (rule cst820_inv_cong [OF assms]; simp add: isActive_def inv)+
  have width: "cst820_inv (?n\<lparr>registers := (registers ?n)(IrqPulseWidthReg := min (max v 1) 200)\<rparr>)"
    by (rule cst820_inv_cong [OF assms]) (auto simp: isActive_def cst820_registers min_def max_def)
  have plain: "cst820_inv (?n\<lparr>registers := (registers ?n)(a := v)\<rparr>)"
    if "a = SleepModeReg \<or> a = IrqControlReg \<or> a = AutoSleepReg" for a
    using that inv by (intro cst820_inv_cong [OF assms]) (auto simp: isActive_def cst820_registers)
  have update: "cst820_inv (updateTouch nowNs (?n\<lparr>registers := (registers ?n)(a := v)\<rparr>))"
    if "a = SleepModeReg \<or> a = IrqControlReg \<or> a = AutoSleepReg" for a
    by (rule updateTouch_inv; rule cst820_invD; rule plain; rule that)
  show ?thesis
    using assms same width plain [of ?a] update [of ?a]
    by (cases "?a = IrqPulseWidthReg"; cases "?a = SleepModeReg \<or> ?a = IrqControlReg"; cases "?a = AutoSleepReg")
      (simp_all add: cst820_send_def Let_def)
qed

lemma cst820_step_inv: "cst820_step d d' \<Longrightarrow> cst820_inv d \<Longrightarrow> cst820_inv d'"
proof (induction rule: cst820_step.induct)
  case (cst820_step_event d nowNs e)
  note inv = cst820_step_event
  have u: "cst820_inv (updateTouch nowNs d)" by (rule updateTouch_inv; rule cst820_invD; rule inv)
  have "cst820_inv ((updateTouch nowNs d)\<lparr>registerPhase := True\<rparr>)"
    by (rule cst820_inv_cong [OF u]) (simp_all add: isActive_def cst820_invD [OF u])
  then show ?case using inv u by (auto simp: cst820_event_def Let_def)
next
  case (cst820_step_receive d)
  then show ?case by (auto simp: cst820_receive_def cst820_inv_def isActive_def)
next
  case (cst820_step_send d nowNs v)
  then show ?case by (rule cst820_send_inv)
next
  case (cst820_step_power d nowNs level)
  then show ?case by (simp add: powerInput_def reset_inv cst820_invD)
next
  case (cst820_step_reset d nowNs level)
  note inv = cst820_invD [OF cst820_step_reset]
  have "cst820_inv (cst820_resetRegisters nowNs (d\<lparr>resetAsserted := b\<rparr>))" for b
    by (rule reset_inv) (simp add: inv)
  moreover have "cst820_inv (updateTouch nowNs (d\<lparr>resetAsserted := b, touchReadyAtNs := w\<rparr>))" for b w
    by (rule updateTouch_inv) (simp_all add: inv)
  ultimately show ?case using cst820_step_reset by (simp add: resetInput_def Let_def)
next
  case (cst820_step_touch d nowNs x y down)
  note inv = cst820_invD [OF cst820_step_touch]
  show ?case unfolding cst820SetTouch_def by (rule updateTouch_inv) (simp_all add: inv)
next
  case (cst820_step_timer d)
  then show ?case by (auto simp: cst820_timer_def releaseIrq_def cst820_inv_def isActive_def)
qed

interpretation cst820_machine: state_machine "\<lambda>d. \<exists>t. d = cst820_init t" cst820_step cst820_inv
  by unfold_locales
    (auto simp: cst820_init_def cst820_resetRegisters_def isActive_def cst820_registers
      intro!: updateTouch_inactive_inv intro: cst820_step_inv)

text \<open>The interrupt line of the touch controller is low only while a pulse is being timed, of
  0.1 to 20 ms, and a controller without power or in reset keeps it released and reports no touch.\<close>

lemma cst820_irq_is_timed:
  assumes "reachable (\<lambda>d. \<exists>t. d = cst820_init t) cst820_step d"
  shows "(\<not> irqLevel d \<longleftrightarrow> irqTimer d \<noteq> None) \<and>
    (\<not> powered d \<or> resetAsserted d \<longrightarrow> irqLevel d \<and> registers d TouchCountReg = 0) \<and>
    1 \<le> registers d IrqPulseWidthReg \<and> registers d IrqPulseWidthReg \<le> 200"
  using cst820_machine.reachable_inv [OF assms] by (auto simp: cst820_inv_def isActive_def)

section \<open>Registers that are stored are read back\<close>

definition cst820_plain :: "byte \<Rightarrow> bool" where
  "cst820_plain a \<longleftrightarrow> a = SleepModeReg \<or> a = IrqControlReg \<or> a = AutoSleepReg"

lemma updateTouch_plain: "cst820_plain a \<Longrightarrow> registers (updateTouch t d) a = registers d a"
  unfolding updateTouch_frame by (rule touchReport_other) (auto simp: cst820_plain_def cst820_registers)

lemma cst820_send_plain:
  assumes "isActive d" and "\<not> registerPhase d" and "cst820_plain (registerAddress d)"
  shows "isActive (snd (cst820_send t v d)) \<and> \<not> registerPhase (snd (cst820_send t v d)) \<and>
    registerAddress (snd (cst820_send t v d)) = registerAddress d + 1 \<and>
    (cst820_plain a \<longrightarrow> registers (snd (cst820_send t v d)) a =
       (if a = registerAddress d then v else registers d a))"
  using assms
  by (auto simp: cst820_send_def Let_def updateTouch_plain updateTouch_frame(1-3) cst820_plain_def
      isActive_def updateTouch_frame(4,5) cst820_registers)

interpretation cst820_bus: i2c_slave "\<lambda>t e d. snd (cst820_event t e d)"
    "\<lambda>t v d. snd (cst820_send t v d)" "\<lambda>_ :: int. cst820_receive"
    registerAddress registerPhase registers cst820_plain isActive
  by unfold_locales
    (auto simp: cst820_send_plain cst820_event_def cst820_receive_def Let_def updateTouch_plain
       updateTouch_frame(1-5), simp_all add: cst820_send_def isActive_def updateTouch_frame(4,5))

section \<open>Reading a touch\<close>

lemma byte_low_nibble: "(15 :: byte) = mask 4"
  by (simp add: mask_eq_exp_minus_1)

lemma coordinate_bytes:
  fixes x :: u16 and c :: byte
  assumes "x < 4096" and "c AND 15 = 0"
  shows "push_bit 8 (ucast ((c OR ucast (drop_bit 8 x)) AND 15)) OR ucast (ucast x :: byte) = x"
proof -
  have "take_bit 12 x = x" using assms(1) by (simp add: word_unat_eq_iff unsigned_take_bit_eq take_bit_nat_eq_self word_less_nat_alt)
  then have top: "bit x n \<Longrightarrow> n < 12" for n by (metis bit_take_bit_iff)
  have low: "\<not> bit c n" if "n < 4" for n
  proof -
    have "\<not> bit (c AND 15) n" by (simp add: assms(2))
    then show ?thesis using that by (simp add: byte_low_nibble bit_and_iff bit_mask_iff)
  qed
  show ?thesis
  proof (rule bit_word_eqI)
    fix n assume "n < LENGTH(16)"
    then show "bit (push_bit 8 (ucast ((c OR ucast (drop_bit 8 x)) AND 15)) OR
        ucast (ucast x :: byte) :: u16) n = bit x n"
      using top [of n] low [of "n - 8"] unfolding byte_low_nibble
      by (cases "n < 8") (auto simp: bit_simps)
  qed
qed

text \<open>The five registers of a report, from the first byte on.\<close>

definition readReport :: "int \<Rightarrow> cst820 \<Rightarrow> bytes" where
  "readReport nowNs d = fst (read_transaction (\<lambda>e d. snd (cst820_event nowNs e d))
     (\<lambda>v d. snd (cst820_send nowNs v d)) cst820_receive TouchCountReg 5 d)"

definition decodeReport :: "bytes \<Rightarrow> byte \<times> u16 \<times> u16" where
  "decodeReport bs = (bs ! 0,
     push_bit 8 (ucast (bs ! 1 AND 0x0F)) OR ucast (bs ! 2),
     push_bit 8 (ucast (bs ! 3 AND 0x0F)) OR ucast (bs ! 4))"

lemma touchReady_frame: "touchReady t (d\<lparr>touchX := x, touchY := y, touchDown := b\<rparr>) = touchReady t d"
  by (simp add: touchReady_def isActive_def)

lemma touchReady_update: "touchReady t (updateTouch u d) = touchReady t d"
proof -
  have "registers (updateTouch u d) SleepModeReg = registers d SleepModeReg"
    unfolding updateTouch_frame by (rule touchReport_other) (simp add: cst820_registers)
  then show ?thesis by (simp add: touchReady_def updateTouch_frame)
qed

text \<open>What the host reads after a start: the report of the last update.\<close>

lemma readReport_eq:
  assumes "touchReady t d"
  shows "readReport t d = map (touchReport (touchDown d) (touchX d) (touchY d) (registers d))
    [TouchCountReg, TouchXHighReg, TouchXLowReg, TouchYHighReg, TouchYLowReg]"
proof -
  define a where "a = updateTouch t d"
  define b where "b = a\<lparr>registerPhase := True\<rparr>"
  define c where "c = b\<lparr>registerAddress := TouchCountReg, registerPhase := False\<rparr>"
  define e where "e = updateTouch t c"
  have act: "isActive d" using assms by (simp add: touchReady_def)
  have acts: "isActive a" "isActive b" "isActive c" "isActive e"
    using act by (simp_all add: a_def b_def c_def e_def updateTouch_frame isActive_def)
  have ready: "touchReady t c"
    using assms touchReady_update [of t t d] by (simp add: a_def b_def c_def touchReady_def isActive_def)
  have run: "snd (cst820_event t I2C_START_RECV (snd (cst820_send t TouchCountReg
      (snd (cst820_event t I2C_START_SEND d))))) = e"
    using act acts by (simp add: cst820_event_def cst820_send_def a_def b_def c_def e_def Let_def)
  have regs: "registers e = touchReport (touchDown d) (touchX d) (touchY d) (registers c)"
    using ready by (simp add: e_def updateTouch_frame c_def b_def a_def)
  have report: "registers e r = touchReport (touchDown d) (touchX d) (touchY d) (registers d) r"
    if "r \<in> {TouchCountReg, TouchXHighReg, TouchXLowReg, TouchYHighReg, TouchYLowReg}" for r
    using that unfolding regs by (auto simp: touchReport_def)
  have addr: "registerAddress e = 2" by (simp add: e_def updateTouch_frame c_def cst820_registers)
  have "fst (read_burst cst820_receive 5 e) = map (registers e) [2, 3, 4, 5, 6]"
    using acts(4) addr
    by (simp add: eval_nat_numeral cst820_receive_def isActive_def case_prod_beta)
  then have "readReport t d = map (registers e) [2, 3, 4, 5, 6]"
    unfolding readReport_def read_transaction_def run .
  then show ?thesis
    using report by (simp add: cst820_registers)
qed

text \<open>C24: a touch the user makes is what the guest reads back: on a controller that is powered,
  awake and past its start-up delay, the report decodes to one touch at exactly the given
  coordinates.\<close>

theorem touch_is_read_back:
  assumes "isActive d" and "registers d SleepModeReg \<noteq> 3" and "touchReadyAtNs d \<le> t" and "t \<le> u"
    and "x < 4096" and "y < 4096"
  shows "decodeReport (readReport u (cst820SetTouch t x y True d)) = (1, x, y)"
proof -
  let ?d = "cst820SetTouch t x y True d"
  have "touchReady u d" using assms(1-4) by (simp add: touchReady_def)
  then have "touchReady u ?d"
    by (simp add: cst820SetTouch_def touchReady_update touchReady_frame)
  note report = readReport_eq [OF this]
  have "touchX ?d = x" "touchY ?d = y" "touchDown ?d"
    by (simp_all add: cst820SetTouch_def updateTouch_frame)
  then show ?thesis
    using coordinate_bytes [where x = x and c = 128] coordinate_bytes [where x = y and c = 0] assms(5,6)
    by (simp add: decodeReport_def report) (simp add: touchReport_def cst820_registers)
qed

theorem touch_is_read_back_witness:
  "decodeReport (readReport 9 (cst820SetTouch 8 321 123 True
     ((cst820_init 0)\<lparr>powered := True, resetAsserted := False, touchReadyAtNs := 7\<rparr>))) = (1, 321, 123)"
proof (rule touch_is_read_back)
  show "registers ((cst820_init 0)\<lparr>powered := True, resetAsserted := False, touchReadyAtNs := 7\<rparr>) SleepModeReg \<noteq> 3"
    by (simp add: cst820_init_def cst820_resetRegisters_def updateTouch_frame touchReport_other cst820_registers)
qed (simp_all add: isActive_def)

end
