(* ===== verification/Rx8130ce.thy ===== *)
theory Rx8130ce
  imports I2cDevice "HOL-Library.Signed_Division"
begin

text \<open>
  The real-time clock of the board, \<open>qemu/devices/rx8130ce.c\<close>: a calendar kept as a base time and
  the clock value it was set at, the rotating week mask, BCD registers, and the minute-carry alarm.

  The \<open>rtc_clock\<close> is the argument \<open>nowNs\<close>. \<open>gmtime_r\<close> splits a time into the fields of a day,
  which are arithmetic, and a date, which is the parameter \<open>cal_date\<close>; \<open>mktimegm\<close> (QEMU) and
  \<open>g_date_valid_dmy\<close> (GLib) are the other two parameters. Nanosecond times are unbounded integers:
  the code's 64-bit values hold them until the year 2262. The loop of \<open>updateAlarm\<close> is a partial
  function, so that an endless search would be the value \<open>None\<close>.
\<close>

unbundle bit_operations_syntax

section \<open>Calendar of the libraries\<close>

record tm =
  tm_sec :: int
  tm_min :: int
  tm_hour :: int
  tm_mday :: int
  tm_mon :: int
  tm_year :: int

text \<open>Day, month (from 0) and year (from 1900) of a day number; seconds of a broken-down time;
  validity of day, month and year.\<close>

record calendar =
  cal_date :: "int \<Rightarrow> int \<times> int \<times> int"
  cal_timegm :: "tm \<Rightarrow> int"
  cal_valid :: "int \<Rightarrow> int \<Rightarrow> int \<Rightarrow> bool"

definition gmtime :: "calendar \<Rightarrow> int \<Rightarrow> tm" where
  "gmtime cal t = (let (mday, mon, year) = cal_date cal (t div 86400) in
     \<lparr>tm_sec = t mod 60, tm_min = t div 60 mod 60, tm_hour = t div 3600 mod 24,
      tm_mday = mday, tm_mon = mon, tm_year = year\<rparr>)"

section \<open>Registers and state\<close>

definition AlarmMask :: byte where "AlarmMask = 0x80"
definition DayAlarm :: byte where "DayAlarm = 0x08"
definition AlarmFlag :: byte where "AlarmFlag = 0x08"
definition VoltageLowFlag :: byte where "VoltageLowFlag = 0x02"
definition AlarmEnable :: byte where "AlarmEnable = 0x08"
definition Stop :: byte where "Stop = 0x40"
definition SecondsReg :: byte where "SecondsReg = 0x10"
definition YearReg :: byte where "YearReg = 0x16"
definition MinuteAlarmReg :: byte where "MinuteAlarmReg = 0x17"
definition HourAlarmReg :: byte where "HourAlarmReg = 0x18"
definition DayWeekAlarmReg :: byte where "DayWeekAlarmReg = 0x19"
definition ExtensionReg :: byte where "ExtensionReg = 0x1C"
definition FlagReg :: byte where "FlagReg = 0x1D"
definition ControlReg :: byte where "ControlReg = 0x1E"

lemmas rx_registers = SecondsReg_def YearReg_def MinuteAlarmReg_def HourAlarmReg_def
  DayWeekAlarmReg_def ExtensionReg_def FlagReg_def ControlReg_def
lemmas rx_flags = AlarmMask_def DayAlarm_def AlarmFlag_def VoltageLowFlag_def AlarmEnable_def Stop_def

definition NANOSECONDS_PER_SECOND :: int where "NANOSECONDS_PER_SECOND = 1000000000"

record rx8130ce = i2c_device +
  baseTimeNs :: int
  baseClockNs :: int
  week :: byte
  dirty :: bool
  secondsWritten :: bool
  alarmTimer :: "int option"
  rx_irq :: bool

definition toBcd :: "int \<Rightarrow> byte" where
  "toBcd v = word_of_int (push_bit 4 (v div 10) OR v mod 10)"

definition fromBcd :: "byte \<Rightarrow> int" where
  "fromBcd v = uint (drop_bit 4 v) * 10 + uint (v AND 15)"

definition stopped :: "rx8130ce \<Rightarrow> bool" where
  "stopped d \<longleftrightarrow> registers d ControlReg AND Stop \<noteq> 0"

definition calendarTimeNs :: "int \<Rightarrow> rx8130ce \<Rightarrow> int" where
  "calendarTimeNs nowNs d =
     (if stopped d then baseTimeNs d else baseTimeNs d + nowNs - baseClockNs d)"

definition weekAt :: "rx8130ce \<Rightarrow> int \<Rightarrow> byte" where
  "weekAt d seconds =
     (let days = (seconds sdiv 86400 - baseTimeNs d sdiv NANOSECONDS_PER_SECOND sdiv 86400) smod 7;
          shift = nat ((days + 7) mod 7) in
      (push_bit shift (week d) OR drop_bit (7 - shift) (week d)) AND 0x7F)"

section \<open>Alarm\<close>

definition masked :: "(byte \<Rightarrow> byte) \<Rightarrow> byte \<Rightarrow> bool" where
  "masked regs r \<longleftrightarrow> regs r AND AlarmMask \<noteq> 0"

definition alarmMinute :: "(byte \<Rightarrow> byte) \<Rightarrow> int" where
  "alarmMinute regs = fromBcd (regs MinuteAlarmReg AND 0x7F)"

definition alarmHour :: "(byte \<Rightarrow> byte) \<Rightarrow> int" where
  "alarmHour regs = fromBcd (regs HourAlarmReg AND 0x3F)"

definition alarmDay :: "(byte \<Rightarrow> byte) \<Rightarrow> int" where
  "alarmDay regs = fromBcd (regs DayWeekAlarmReg AND 0x3F)"

text \<open>The early returns: an alarm that can never match is not scheduled.\<close>

definition alarmValid :: "rx8130ce \<Rightarrow> bool" where
  "alarmValid d = (let regs = registers d in
     (masked regs MinuteAlarmReg \<or> \<not> (59 < alarmMinute regs \<or> 9 < regs MinuteAlarmReg AND 15)) \<and>
     (masked regs HourAlarmReg \<or> \<not> (23 < alarmHour regs \<or> 9 < regs HourAlarmReg AND 15)) \<and>
     (masked regs DayWeekAlarmReg \<or>
       (if regs ExtensionReg AND DayAlarm \<noteq> 0 then
          \<not> (alarmDay regs = 0 \<or> 31 < alarmDay regs \<or> 9 < regs DayWeekAlarmReg AND 15)
        else \<not> (regs DayWeekAlarmReg AND 0x7F = 0 \<or> week d = 0))))"

text \<open>The three tests of a round of the search.\<close>

definition dayDiffers :: "calendar \<Rightarrow> rx8130ce \<Rightarrow> int \<Rightarrow> bool" where
  "dayDiffers cal d t = (let regs = registers d in
     \<not> masked regs DayWeekAlarmReg \<and>
     (if regs ExtensionReg AND DayAlarm \<noteq> 0 then alarmDay regs \<noteq> tm_mday (gmtime cal t)
      else regs DayWeekAlarmReg AND weekAt d t = 0))"

definition hourDiffers :: "calendar \<Rightarrow> rx8130ce \<Rightarrow> int \<Rightarrow> bool" where
  "hourDiffers cal d t = (let regs = registers d in
     \<not> masked regs HourAlarmReg \<and> alarmHour regs \<noteq> tm_hour (gmtime cal t))"

definition minuteDiffers :: "calendar \<Rightarrow> rx8130ce \<Rightarrow> int \<Rightarrow> bool" where
  "minuteDiffers cal d t = (let regs = registers d in
     \<not> masked regs MinuteAlarmReg \<and> alarmMinute regs \<noteq> tm_min (gmtime cal t))"

definition toNextDay :: "calendar \<Rightarrow> int \<Rightarrow> int" where
  "toNextDay cal t = t + (24 * 60 - tm_hour (gmtime cal t) * 60 - tm_min (gmtime cal t)) * 60"

definition toAlarmHour :: "calendar \<Rightarrow> rx8130ce \<Rightarrow> int \<Rightarrow> int" where
  "toAlarmHour cal d t = t + ((alarmHour (registers d) + 24 - tm_hour (gmtime cal t)) mod 24) * 3600
     - tm_min (gmtime cal t) * 60"

definition toAlarmMinute :: "calendar \<Rightarrow> rx8130ce \<Rightarrow> int \<Rightarrow> int" where
  "toAlarmMinute cal d t = t + ((alarmMinute (registers d) + 60 - tm_min (gmtime cal t)) mod 60) * 60"

partial_function (option) nextAlarm :: "calendar \<Rightarrow> rx8130ce \<Rightarrow> int \<Rightarrow> int option" where
  "nextAlarm cal d t =
     (if dayDiffers cal d t then nextAlarm cal d (toNextDay cal t)
      else if hourDiffers cal d t then nextAlarm cal d (toAlarmHour cal d t)
      else if minuteDiffers cal d t then nextAlarm cal d (toAlarmMinute cal d t)
      else Some t)"

definition searchStart :: "int \<Rightarrow> rx8130ce \<Rightarrow> int" where
  "searchStart nowNs d = (let t = calendarTimeNs nowNs d sdiv NANOSECONDS_PER_SECOND in
     t + (60 - t smod 60))"

definition updateAlarm :: "calendar \<Rightarrow> int \<Rightarrow> rx8130ce \<Rightarrow> rx8130ce option" where
  "updateAlarm cal nowNs d =
     (let d = d\<lparr>rx_irq := \<not> (registers d FlagReg AND AlarmFlag \<noteq> 0 \<and> registers d ControlReg AND AlarmEnable \<noteq> 0),
                alarmTimer := None\<rparr> in
      if stopped d \<or> registers d FlagReg AND AlarmFlag \<noteq> 0 \<or> \<not> alarmValid d then Some d
      else map_option (\<lambda>t. d\<lparr>alarmTimer :=
          Some (baseClockNs d + t * NANOSECONDS_PER_SECOND - baseTimeNs d)\<rparr>)
        (nextAlarm cal d (searchStart nowNs d)))"

definition alarmExpired :: "calendar \<Rightarrow> int \<Rightarrow> rx8130ce \<Rightarrow> rx8130ce option" where
  "alarmExpired cal nowNs d = updateAlarm cal nowNs (d\<lparr>registers := (registers d)(FlagReg :=
     registers d FlagReg OR AlarmFlag)\<rparr>)"

section \<open>Time registers\<close>

definition snapshot :: "calendar \<Rightarrow> int \<Rightarrow> rx8130ce \<Rightarrow> rx8130ce" where
  "snapshot cal nowNs d =
     (if dirty d \<or> stopped d then d
      else let seconds = calendarTimeNs nowNs d sdiv NANOSECONDS_PER_SECOND;
               c = gmtime cal seconds in
        d\<lparr>registers := (registers d)(
          SecondsReg := toBcd (tm_sec c), 0x11 := toBcd (tm_min c), 0x12 := toBcd (tm_hour c),
          0x13 := weekAt d seconds, 0x14 := toBcd (tm_mday c), 0x15 := toBcd (tm_mon c + 1),
          YearReg := toBcd ((tm_year c + 1900) mod 100))\<rparr>)"

definition registerTime :: "(byte \<Rightarrow> byte) \<Rightarrow> tm" where
  "registerTime regs = \<lparr>tm_sec = fromBcd (regs SecondsReg AND 0x7F),
     tm_min = fromBcd (regs 0x11 AND 0x7F), tm_hour = fromBcd (regs 0x12 AND 0x3F),
     tm_mday = fromBcd (regs 0x14 AND 0x3F), tm_mon = fromBcd (regs 0x15 AND 0x1F) - 1,
     tm_year = 100 + fromBcd (regs YearReg)\<rparr>"

definition commit :: "calendar \<Rightarrow> int \<Rightarrow> rx8130ce \<Rightarrow> rx8130ce option" where
  "commit cal nowNs d =
     (if \<not> dirty d \<or> stopped d then Some d
      else
        let c = registerTime (registers d);
            fractionNs = (if secondsWritten d then 0
              else calendarTimeNs nowNs d smod NANOSECONDS_PER_SECOND);
            d = d\<lparr>dirty := False, secondsWritten := False\<rparr> in
        if 59 < tm_sec c \<or> 59 < tm_min c \<or> 23 < tm_hour c
           \<or> \<not> cal_valid cal (tm_mday c) (tm_mon c + 1) (tm_year c + 1900)
        then Some (d\<lparr>registers := (registers d)(FlagReg := registers d FlagReg OR VoltageLowFlag)\<rparr>)
        else updateAlarm cal nowNs (d\<lparr>baseTimeNs := cal_timegm cal c * NANOSECONDS_PER_SECOND + fractionNs,
          baseClockNs := nowNs, week := registers d 0x13 AND 0x7F\<rparr>))"

section \<open>I2C\<close>

definition rx_event :: "calendar \<Rightarrow> int \<Rightarrow> i2c_event \<Rightarrow> rx8130ce \<Rightarrow> rx8130ce option" where
  "rx_event cal nowNs e d = map_option
     (\<lambda>d. if e = I2C_START_SEND then d\<lparr>registerPhase := True\<rparr> else d)
     (if e = I2C_START_SEND \<or> e = I2C_START_RECV then
        map_option (snapshot cal nowNs) (commit cal nowNs d)
      else if e = I2C_FINISH then commit cal nowNs d
      else Some d)"

definition rx_receive :: "rx8130ce \<Rightarrow> byte \<times> rx8130ce" where
  "rx_receive d = (registers d (registerAddress d), d\<lparr>registerAddress := registerAddress d + 1\<rparr>)"

text \<open>A change of STOP freezes or restarts the calendar at the time it shows.\<close>

definition rebase :: "int \<Rightarrow> byte \<Rightarrow> rx8130ce \<Rightarrow> rx8130ce" where
  "rebase nowNs v d =
     (if (registers d ControlReg XOR v) AND Stop \<noteq> 0 then
        let timeNs = calendarTimeNs nowNs d in
        d\<lparr>week := weekAt d (timeNs sdiv NANOSECONDS_PER_SECOND), baseTimeNs := timeNs,
          baseClockNs := nowNs\<rparr>
      else d)"

definition writeControl :: "calendar \<Rightarrow> int \<Rightarrow> byte \<Rightarrow> rx8130ce \<Rightarrow> rx8130ce option" where
  "writeControl cal nowNs v d =
     Option.bind (commit cal nowNs d) (\<lambda>d.
       let d = rebase nowNs v (snapshot cal nowNs d);
           d = d\<lparr>registers := (registers d)(ControlReg := v)\<rparr> in
       Option.bind (commit cal nowNs d) (updateAlarm cal nowNs))"

definition rx_send :: "calendar \<Rightarrow> int \<Rightarrow> byte \<Rightarrow> rx8130ce \<Rightarrow> rx8130ce option" where
  "rx_send cal nowNs v d =
     (if registerPhase d then Some (d\<lparr>registerAddress := v, registerPhase := False\<rparr>)
      else
        let a = registerAddress d; d = d\<lparr>registerAddress := a + 1\<rparr> in
        if a = FlagReg then
          updateAlarm cal nowNs (d\<lparr>registers := (registers d)(a := registers d a AND v)\<rparr>)
        else if a = ControlReg then writeControl cal nowNs v d
        else if SecondsReg \<le> a \<and> a \<le> 0x23 then
          let d = d\<lparr>registers := (registers d)(a := v), dirty := (dirty d \<or> a \<le> YearReg),
                secondsWritten := (secondsWritten d \<or> a = SecondsReg)\<rparr> in
          if (MinuteAlarmReg \<le> a \<and> a \<le> DayWeekAlarmReg) \<or> a = ExtensionReg
          then updateAlarm cal nowNs d else Some d
        else Some d)"

definition rx_init :: "calendar \<Rightarrow> int \<Rightarrow> tm \<Rightarrow> nat \<Rightarrow> rx8130ce option" where
  "rx_init cal nowNs date wday =
     updateAlarm cal nowNs (snapshot cal nowNs \<lparr>registers = (\<lambda>_. 0), registerAddress = 0,
       registerPhase = False,
       baseTimeNs = cal_timegm cal date * NANOSECONDS_PER_SECOND + nowNs smod NANOSECONDS_PER_SECOND,
       baseClockNs = nowNs, week = push_bit wday 1, dirty = False, secondsWritten = False,
       alarmTimer = None, rx_irq = False\<rparr>)"

section \<open>Arithmetic of the search\<close>

text \<open>The distance to the next occurrence of a residue: it is met there and not before.\<close>

lemma cycle_distance:
  fixes x h n :: int
  assumes "0 \<le> h" and "h < n"
  defines "dist \<equiv> (h + n - x mod n) mod n"
  shows "(x + dist) mod n = h" and "0 \<le> j \<Longrightarrow> j < dist \<Longrightarrow> (x + j) mod n \<noteq> h"
    and "0 \<le> dist" and "dist < n" and "x mod n \<noteq> h \<Longrightarrow> 0 < dist"
proof -
  have n: "0 < n" using assms by simp
  show d: "0 \<le> dist" "dist < n" unfolding dist_def using n by simp_all
  show hit: "(x + dist) mod n = h"
  proof -
    have "(x + dist) mod n = (x + (h + n - x mod n)) mod n" by (simp add: dist_def mod_add_right_eq)
    also have "\<dots> = (h + (1 + x div n) * n) mod n"
    proof -
      have "x + (h + n - x mod n) = h + n + (x - x mod n)" by simp
      also have "\<dots> = h + (1 + x div n) * n" by (simp add: minus_mod_eq_div_mult distrib_right)
      finally show ?thesis by (simp only:)
    qed
    also have "\<dots> = h mod n" by simp
    finally show ?thesis using assms by simp
  qed
  show "(x + j) mod n \<noteq> h" if "0 \<le> j" "j < dist"
  proof
    assume "(x + j) mod n = h"
    then have "(x + dist) mod n = (x + j) mod n" using hit by simp
    then have "((x + dist) - (x + j)) mod n = 0" by (metis mod_diff_cong mod_self diff_self mod_0)
    then have "(dist - j) mod n = 0" by simp
    then show False using that d by (simp add: mod_pos_pos_trivial)
  qed
  show "0 < dist" if "x mod n \<noteq> h"
  proof -
    have "dist \<noteq> 0" using that hit by auto
    then show ?thesis using d by simp
  qed
qed

lemma smod_7: "(x smod 7 + 7) mod 7 = x mod 7" for x :: int
proof -
  have "x smod 7 + 7 = x + (1 - x sdiv 7) * 7"
    using sdiv_mult_smod_eq [of x 7] by (simp add: algebra_simps)
  then show ?thesis by (metis mod_mult_self1)
qed

lemma smod_7': "x smod 7 mod 7 = x mod 7" for x :: int
  using smod_7 [of x] by simp

definition rotated :: "byte \<Rightarrow> nat \<Rightarrow> byte" where
  "rotated w shift = (push_bit shift w OR drop_bit (7 - shift) w) AND 0x7F"

lemma sdiv_nonneg: "0 \<le> a \<Longrightarrow> 0 < b \<Longrightarrow> a sdiv b = a div b" for a b :: int
  by (simp add: signed_divide_int_def sgn_if)

lemma smod_nonneg: "0 \<le> a \<Longrightarrow> a smod 60 = a mod 60" for a :: int
  by (simp add: signed_modulo_int_def sgn_if)

text \<open>The number of the day the base time falls in.\<close>

definition baseDay :: "rx8130ce \<Rightarrow> int" where
  "baseDay d = baseTimeNs d sdiv NANOSECONDS_PER_SECOND sdiv 86400"

lemma weekAt_day:
  "0 \<le> t \<Longrightarrow> weekAt d t = rotated (week d) (nat ((t div 86400 - baseDay d) mod 7))"
  by (simp add: weekAt_def Let_def rotated_def baseDay_def smod_7' sdiv_nonneg)

text \<open>The three tests as functions of the day, hour and minute counted from the epoch.\<close>

definition dayMatches :: "calendar \<Rightarrow> rx8130ce \<Rightarrow> int \<Rightarrow> bool" where
  "dayMatches cal d day \<longleftrightarrow> masked (registers d) DayWeekAlarmReg \<or>
     (if registers d ExtensionReg AND DayAlarm \<noteq> 0 then fst (cal_date cal day) = alarmDay (registers d)
      else registers d DayWeekAlarmReg AND rotated (week d) (nat ((day - baseDay d) mod 7)) \<noteq> 0)"

definition hourMatches :: "rx8130ce \<Rightarrow> int \<Rightarrow> bool" where
  "hourMatches d hour \<longleftrightarrow> masked (registers d) HourAlarmReg \<or> hour mod 24 = alarmHour (registers d)"

definition minuteMatches :: "rx8130ce \<Rightarrow> int \<Rightarrow> bool" where
  "minuteMatches d minute \<longleftrightarrow>
     masked (registers d) MinuteAlarmReg \<or> minute mod 60 = alarmMinute (registers d)"

lemma dayDiffers_iff: "0 \<le> t \<Longrightarrow> dayDiffers cal d t \<longleftrightarrow> \<not> dayMatches cal d (t div 86400)"
  by (auto simp: dayDiffers_def dayMatches_def gmtime_def Let_def weekAt_day split: prod.splits)

lemma hourDiffers_iff: "hourDiffers cal d t \<longleftrightarrow> \<not> hourMatches d (t div 3600)"
  by (auto simp: hourDiffers_def hourMatches_def gmtime_def Let_def split: prod.splits)

lemma minuteDiffers_iff: "minuteDiffers cal d t \<longleftrightarrow> \<not> minuteMatches d (t div 60)"
  by (auto simp: minuteDiffers_def minuteMatches_def gmtime_def Let_def split: prod.splits)

lemma gmtime_fields: "tm_min (gmtime cal t) = t div 60 mod 60" "tm_hour (gmtime cal t) = t div 3600 mod 24"
  by (simp_all add: gmtime_def split: prod.splits)

text \<open>A minute carry at which the alarm is due.\<close>

definition due :: "calendar \<Rightarrow> rx8130ce \<Rightarrow> int \<Rightarrow> bool" where
  "due cal d t \<longleftrightarrow> t mod 60 = 0 \<and> dayMatches cal d (t div 86400) \<and>
     hourMatches d (t div 3600) \<and> minuteMatches d (t div 60)"

lemma day_hour: "t div 86400 = t div 3600 div 24" for t :: int
  by (simp add: div_mult2_eq [symmetric])

lemma hour_minute: "t div 3600 = t div 60 div 60" for t :: int
  by (simp add: div_mult2_eq [symmetric])

lemma whole_minutes: "t mod 60 = 0 \<Longrightarrow> t = t div 60 * 60" for t :: int
  using div_mult_mod_eq [of t 60] by simp

lemma div_between: "0 < n \<Longrightarrow> a * n \<le> u \<Longrightarrow> u < (a + 1) * n \<Longrightarrow> u div n = a" for u n a :: int
  by (rule int_div_pos_eq [of _ _ _ "u - n * a"]) (simp_all add: algebra_simps)

lemma below_next: "t < (t div n + 1) * n" if "0 < n" for t n :: int
  using pos_mod_bound [OF that, of t] div_mult_mod_eq [of t n] unfolding distrib_right by linarith

lemma at_least: "t div n * n \<le> t" if "0 < n" for t n :: int
  using pos_mod_sign [OF that, of t] div_mult_mod_eq [of t n] by linarith

lemma toNextDay_eq:
  assumes "t mod 60 = 0"
  shows "toNextDay cal t = (t div 86400 + 1) * 86400"
proof -
  have alg: "k * 60 + (24 * 60 - h * 60 - m) * 60 = (e + 1) * 86400"
    if "k = hours * 60 + m" and "hours = e * 24 + h" for k hours e h m :: int
    using that by simp
  have "t div 60 = t div 3600 * 60 + t div 60 mod 60" "t div 3600 = t div 86400 * 24 + t div 3600 mod 24"
    unfolding day_hour hour_minute by (simp_all only: div_mult_mod_eq)
  from alg [OF this] show ?thesis
    unfolding toNextDay_def gmtime_fields using whole_minutes [OF assms] by simp
qed

lemma toAlarmHour_eq:
  assumes "t mod 60 = 0"
  shows "toAlarmHour cal d t = (t div 3600 + (alarmHour (registers d) + 24 - t div 3600 mod 24) mod 24) * 3600"
proof -
  have "t - t div 60 mod 60 * 60 = t div 3600 * 3600"
    using whole_minutes [OF assms] div_mult_mod_eq [of "t div 60" 60] unfolding hour_minute by linarith
  then show ?thesis unfolding toAlarmHour_def gmtime_fields by (simp add: algebra_simps)
qed

lemma toAlarmMinute_eq:
  assumes "t mod 60 = 0"
  shows "toAlarmMinute cal d t = (t div 60 + (alarmMinute (registers d) + 60 - t div 60 mod 60) mod 60) * 60"
proof -
  show ?thesis
    using whole_minutes [OF assms] unfolding toAlarmMinute_def gmtime_fields by (simp add: algebra_simps)
qed

text \<open>A round of the search moves forward and passes over no minute carry that is due.\<close>

lemma skip_day:
  assumes "0 \<le> t" and "t mod 60 = 0" and "dayDiffers cal d t"
  shows "t < toNextDay cal t" and "toNextDay cal t mod 60 = 0"
    and "t \<le> u \<Longrightarrow> u < toNextDay cal t \<Longrightarrow> \<not> due cal d u"
proof -
  show "t < toNextDay cal t" "toNextDay cal t mod 60 = 0"
    unfolding toNextDay_eq [OF assms(2)] using below_next [of 86400 t]
    by (simp_all add: dvd_imp_mod_0)
  assume u: "t \<le> u" "u < toNextDay cal t"
  then have "u div 86400 = t div 86400"
    using at_least [of 86400 t] unfolding toNextDay_eq [OF assms(2)] by (intro div_between) simp_all
  then show "\<not> due cal d u" using assms(1,3) by (simp add: due_def dayDiffers_iff)
qed

lemma skip_hour:
  assumes "t mod 60 = 0" and "hourDiffers cal d t" and "0 \<le> alarmHour (registers d)"
    and "alarmHour (registers d) \<le> 23"
  shows "t < toAlarmHour cal d t" and "toAlarmHour cal d t mod 60 = 0"
    and "t \<le> u \<Longrightarrow> u < toAlarmHour cal d t \<Longrightarrow> \<not> due cal d u"
proof -
  let ?h = "alarmHour (registers d)" and ?x = "t div 3600"
  let ?dist = "(?h + 24 - ?x mod 24) mod 24"
  note c = cycle_distance [where h = ?h and n = 24 and x = ?x]
  have hd: "\<not> masked (registers d) HourAlarmReg" "?x mod 24 \<noteq> ?h"
    using assms(2) by (auto simp: hourDiffers_iff hourMatches_def)
  then have pos: "0 < ?dist" using c(5) assms(3,4) by simp
  then have "?x * 3600 + 3600 \<le> (?x + ?dist) * 3600" by simp
  moreover have "t < ?x * 3600 + 3600" using below_next [of 3600 t] by (simp add: algebra_simps)
  ultimately show "t < toAlarmHour cal d t" unfolding toAlarmHour_eq [OF assms(1)] by simp
  show "toAlarmHour cal d t mod 60 = 0" unfolding toAlarmHour_eq [OF assms(1)] by (simp add: dvd_imp_mod_0)
  assume u: "t \<le> u" "u < toAlarmHour cal d t"
  define j where "j = u div 3600 - ?x"
  have "0 \<le> j" using u(1) unfolding j_def by (simp add: zdiv_mono1)
  moreover have "j < ?dist"
    using u(2) unfolding toAlarmHour_eq [OF assms(1)] j_def by (simp add: div_less_iff_less_mult)
  ultimately have "(?x + j) mod 24 \<noteq> ?h" using c(2) assms(3,4) by simp
  then show "\<not> due cal d u" using hd by (simp add: j_def due_def hourMatches_def)
qed

lemma skip_minute:
  assumes "t mod 60 = 0" and "minuteDiffers cal d t" and "0 \<le> alarmMinute (registers d)"
    and "alarmMinute (registers d) \<le> 59"
  shows "t < toAlarmMinute cal d t" and "toAlarmMinute cal d t mod 60 = 0"
    and "t \<le> u \<Longrightarrow> u < toAlarmMinute cal d t \<Longrightarrow> \<not> due cal d u"
proof -
  let ?h = "alarmMinute (registers d)" and ?x = "t div 60"
  let ?dist = "(?h + 60 - ?x mod 60) mod 60"
  note c = cycle_distance [where h = ?h and n = 60 and x = ?x]
  have md: "\<not> masked (registers d) MinuteAlarmReg" "?x mod 60 \<noteq> ?h"
    using assms(2) by (auto simp: minuteDiffers_iff minuteMatches_def)
  then have pos: "0 < ?dist" using c(5) assms(3,4) by simp
  then have "?x * 60 + 60 \<le> (?x + ?dist) * 60" by simp
  moreover have "t < ?x * 60 + 60" using below_next [of 60 t] by (simp add: algebra_simps)
  ultimately show "t < toAlarmMinute cal d t" unfolding toAlarmMinute_eq [OF assms(1)] by simp
  show "toAlarmMinute cal d t mod 60 = 0" unfolding toAlarmMinute_eq [OF assms(1)] by simp
  assume u: "t \<le> u" "u < toAlarmMinute cal d t"
  define j where "j = u div 60 - ?x"
  have "0 \<le> j" using u(1) unfolding j_def by (simp add: zdiv_mono1)
  moreover have "j < ?dist"
    using u(2) unfolding toAlarmMinute_eq [OF assms(1)] j_def by (simp add: div_less_iff_less_mult)
  ultimately have "(?x + j) mod 60 \<noteq> ?h" using c(2) assms(3,4) by simp
  then show "\<not> due cal d u" using md by (simp add: j_def due_def minuteMatches_def)
qed

section \<open>The search ends at the next match\<close>

lemma fromBcd_nonneg: "0 \<le> fromBcd v"
  by (simp add: fromBcd_def)

lemma alarmValid_fields:
  assumes "alarmValid d"
  shows "masked (registers d) MinuteAlarmReg \<or> alarmMinute (registers d) \<le> 59"
    and "masked (registers d) HourAlarmReg \<or> alarmHour (registers d) \<le> 23"
  using assms by (auto simp: alarmValid_def Let_def)

lemma alarm_nonneg: "0 \<le> alarmMinute regs" "0 \<le> alarmHour regs" "0 \<le> alarmDay regs"
  by (simp_all add: alarmMinute_def alarmHour_def alarmDay_def fromBcd_nonneg)

lemma nextAlarm_finds:
  assumes "alarmValid d" and "due cal d m" and "0 \<le> t" and "t mod 60 = 0" and "t \<le> m"
  shows "\<exists>r. nextAlarm cal d t = Some r \<and> t \<le> r \<and> due cal d r \<and>
    (\<forall>u. t \<le> u \<longrightarrow> u < r \<longrightarrow> \<not> due cal d u)"
  using assms(3-5)
proof (induction "nat (m - t)" arbitrary: t rule: less_induct)
  case less
  note fields = alarmValid_fields [OF assms(1)]
  have jump: ?case
    if go: "nextAlarm cal d t = nextAlarm cal d t'" and later: "t < t'" and whole: "t' mod 60 = 0"
      and none: "\<And>u. t \<le> u \<Longrightarrow> u < t' \<Longrightarrow> \<not> due cal d u" for t'
  proof -
    have "t' \<le> m" using none [of m] assms(2) less.prems(3) by force
    moreover have "nat (m - t') < nat (m - t)" using later \<open>t' \<le> m\<close> by simp
    ultimately obtain r where "nextAlarm cal d t' = Some r" "t' \<le> r" "due cal d r"
      "\<forall>u. t' \<le> u \<longrightarrow> u < r \<longrightarrow> \<not> due cal d u"
      using less.hyps [of t'] later less.prems(1) whole by auto
    then show ?thesis using go later none by (intro exI [of _ r]) force
  qed
  show ?case
  proof (cases "dayDiffers cal d t")
    case True
    then show ?thesis
      using jump [of "toNextDay cal t"] skip_day [OF less.prems(1,2) True]
      by (simp add: nextAlarm.simps [of cal d t])
  next
    case day: False
    show ?thesis
    proof (cases "hourDiffers cal d t")
      case True
      have "alarmHour (registers d) \<le> 23" using fields(2) True by (auto simp: hourDiffers_def Let_def)
      then show ?thesis
        using day True jump [of "toAlarmHour cal d t"] skip_hour [OF less.prems(2) True alarm_nonneg(2)]
        by (simp add: nextAlarm.simps [of cal d t])
    next
      case hour: False
      show ?thesis
      proof (cases "minuteDiffers cal d t")
        case True
        have "alarmMinute (registers d) \<le> 59"
          using fields(1) True by (auto simp: minuteDiffers_def Let_def)
        then show ?thesis
          using day hour True jump [of "toAlarmMinute cal d t"]
            skip_minute [OF less.prems(2) True alarm_nonneg(1)]
          by (simp add: nextAlarm.simps [of cal d t])
      next
        case False
        then have "due cal d t"
          using day hour less.prems by (simp add: due_def dayDiffers_iff hourDiffers_iff minuteDiffers_iff)
        with day hour False show ?thesis by (simp add: nextAlarm.simps [of cal d t])
      qed
    qed
  qed
qed

section \<open>A match exists\<close>

text \<open>What the alarm relies on of the calendar: every day of the month comes again within 62 days.\<close>

definition coversDays :: "calendar \<Rightarrow> bool" where
  "coversDays cal \<longleftrightarrow> (\<forall>day n. 1 \<le> n \<longrightarrow> n \<le> 31 \<longrightarrow>
     (\<exists>j. 0 \<le> j \<and> j < 62 \<and> fst (cal_date cal (day + j)) = n))"

lemma byte_7F: "(0x7F :: byte) = mask 7"
  by (simp add: mask_eq_exp_minus_1)

lemma nonzero_bit: "(w :: byte) \<noteq> 0 \<Longrightarrow> \<exists>n. bit w n"
  by (metis bit_0_eq bit_eq_iff bot_apply bot_bool_def)

text \<open>Rotating a non-empty week brings one of its days to any wanted position.\<close>

lemma rotated_hits:
  assumes "r AND 0x7F \<noteq> 0" and "w AND 0x7F \<noteq> 0"
  shows "\<exists>shift < 7. r AND rotated w shift \<noteq> 0"
proof -
  obtain j where j: "bit r j" "j < 7"
    using nonzero_bit [OF assms(1)] by (auto simp: byte_7F bit_simps)
  obtain i where i: "bit w i" "i < 7"
    using nonzero_bit [OF assms(2)] by (auto simp: byte_7F bit_simps)
  define shift where "shift = (j + 7 - i) mod 7"
  have s: "shift < 7" by (simp add: shift_def)
  have "bit (rotated w shift) j"
  proof (cases "i \<le> j")
    case True
    then have "shift = j - i" using i j by (simp add: shift_def mod_if)
    then show ?thesis using True i j by (simp add: rotated_def byte_7F bit_simps)
  next
    case False
    then have "shift = j + 7 - i" using i j by (simp add: shift_def)
    then show ?thesis using False i j by (simp add: rotated_def byte_7F bit_simps)
  qed
  then have "bit (r AND rotated w shift) j" using j by (simp add: bit_simps)
  then have "r AND rotated w shift \<noteq> 0" by auto
  then show ?thesis using s by blast
qed

lemma day_comes:
  assumes "alarmValid d" and "coversDays cal" and "week d AND 0x7F = week d"
  shows "\<exists>j \<ge> 0. dayMatches cal d (day + j)"
proof (cases "masked (registers d) DayWeekAlarmReg")
  case True
  then show ?thesis by (intro exI [of _ 0]) (simp add: dayMatches_def)
next
  case ns: False
  show ?thesis
  proof (cases "registers d ExtensionReg AND DayAlarm = 0")
    case False
    then have "1 \<le> alarmDay (registers d) \<and> alarmDay (registers d) \<le> 31"
      using assms(1) ns alarm_nonneg(3) [of "registers d"] by (auto simp: alarmValid_def Let_def)
    then obtain j where "0 \<le> j" "fst (cal_date cal (day + j)) = alarmDay (registers d)"
      using assms(2) unfolding coversDays_def by blast
    then show ?thesis using False by (intro exI [of _ j]) (simp add: dayMatches_def)
  next
    case True
    then have "registers d DayWeekAlarmReg AND 0x7F \<noteq> 0 \<and> week d AND 0x7F \<noteq> 0"
      using assms(1,3) ns by (simp add: alarmValid_def Let_def)
    then obtain s where s: "s < 7" "registers d DayWeekAlarmReg AND rotated (week d) s \<noteq> 0"
      using rotated_hits by blast
    define j where "j = (int s - (day - baseDay d)) mod 7"
    have "(day + j - baseDay d) mod 7 = (int s) mod 7"
    proof -
      have "(day + j - baseDay d) mod 7 = ((day - baseDay d) + j) mod 7" by (simp add: algebra_simps)
      also have "\<dots> = ((day - baseDay d) + (int s - (day - baseDay d))) mod 7"
        unfolding j_def by (rule mod_add_right_eq)
      finally show ?thesis by simp
    qed
    then have "nat ((day + j - baseDay d) mod 7) = s" using s(1) by simp
    moreover have "0 \<le> j" by (simp add: j_def)
    ultimately show ?thesis using s(2) True by (intro exI [of _ j]) (simp add: dayMatches_def)
  qed
qed

lemma due_exists:
  assumes "alarmValid d" and "coversDays cal" and "week d AND 0x7F = week d"
  shows "\<exists>m \<ge> t. due cal d m"
proof -
  obtain j where j: "0 \<le> j" "dayMatches cal d (t div 86400 + 1 + j)"
    using day_comes [OF assms] by blast
  define day where "day = t div 86400 + 1 + j"
  define h where "h = (if masked (registers d) HourAlarmReg then 0 else alarmHour (registers d))"
  define m where "m = (if masked (registers d) MinuteAlarmReg then 0 else alarmMinute (registers d))"
  define u where "u = (day * 24 + h) * 3600 + m * 60"
  have h: "0 \<le> h" "h < 24" and m: "0 \<le> m" "m < 60"
    using alarmValid_fields [OF assms(1)] alarm_nonneg [of "registers d"] by (auto simp: h_def m_def)
  have hour: "u div 3600 = day * 24 + h"
    using m by (intro div_between) (simp_all add: u_def)
  have minute: "u div 60 = (day * 24 + h) * 60 + m"
    by (rule div_between) (simp_all add: u_def)
  have days: "u div 86400 = day"
    using h m by (intro div_between) (simp_all add: u_def)
  have "due cal d u"
  proof -
    have "(day * 24 + h) mod 24 = h" "((day * 24 + h) * 60 + m) mod 60 = m"
      using h m by (simp_all only: mod_mult_self3 mod_pos_pos_trivial)
    then have "hourMatches d (u div 3600)" "minuteMatches d (u div 60)"
      unfolding hour minute hourMatches_def minuteMatches_def by (auto simp: h_def m_def)
    moreover have "u mod 60 = 0" by (simp add: u_def mod_simps)
    moreover have "dayMatches cal d (u div 86400)" using j(2) by (simp add: days day_def)
    ultimately show ?thesis by (simp add: due_def)
  qed
  moreover have "t \<le> u"
  proof -
    have "t < (t div 86400 + 1) * 86400" by (rule below_next) simp
    also have "\<dots> \<le> day * 86400" using j(1) by (simp add: day_def)
    also have "\<dots> \<le> u" using h m by (simp add: u_def)
    finally show ?thesis by simp
  qed
  ultimately show ?thesis by blast
qed

lemma searchStart_pos:
  assumes "0 \<le> calendarTimeNs nowNs d"
  defines "s \<equiv> calendarTimeNs nowNs d div NANOSECONDS_PER_SECOND"
  shows "searchStart nowNs d mod 60 = 0" and "s < searchStart nowNs d"
    and "s < u \<Longrightarrow> u < searchStart nowNs d \<Longrightarrow> u mod 60 \<noteq> 0"
proof -
  have s: "0 \<le> s" using assms by (simp add: s_def NANOSECONDS_PER_SECOND_def pos_imp_zdiv_nonneg_iff)
  have "searchStart nowNs d = s + (60 - s mod 60)"
  proof -
    have "calendarTimeNs nowNs d sdiv NANOSECONDS_PER_SECOND = s"
      unfolding s_def using assms(1) by (rule sdiv_nonneg) (simp add: NANOSECONDS_PER_SECOND_def)
    then show ?thesis unfolding searchStart_def Let_def by (simp only: smod_nonneg [OF s])
  qed
  then have e: "searchStart nowNs d = (s div 60 + 1) * 60"
    by (simp add: distrib_right minus_mod_eq_div_mult [symmetric])
  show "searchStart nowNs d mod 60 = 0" unfolding e by simp
  show "s < searchStart nowNs d" unfolding e by (rule below_next) simp
  show "u mod 60 \<noteq> 0" if u: "s < u" "u < searchStart nowNs d"
  proof
    assume "u mod 60 = 0"
    then have "u = u div 60 * 60" by (rule whole_minutes)
    moreover have "s div 60 * 60 \<le> u" by (rule order_trans [OF at_least less_imp_le [OF u(1)]]) simp
    then have "u div 60 = s div 60" by (rule div_between [OF _ _ u(2) [unfolded e], rotated]) simp
    ultimately have "u \<le> s" by (metis at_least zero_less_numeral)
    with u(1) have False by simp
    then show False by simp
  qed
qed

text \<open>C25: scheduling an alarm always terminates, and at the right time. For settings the chip
  accepts, the search of the next match returns: a whole minute after the current time at which
  day or weekday, hour and minute all match, and no minute carry in between is due.\<close>

theorem alarm_is_next_match:
  assumes "alarmValid d" and "coversDays cal" and "week d AND 0x7F = week d"
    and "0 \<le> calendarTimeNs nowNs d"
  shows "\<exists>r. nextAlarm cal d (searchStart nowNs d) = Some r \<and>
    calendarTimeNs nowNs d div NANOSECONDS_PER_SECOND < r \<and> due cal d r \<and>
    (\<forall>u. calendarTimeNs nowNs d div NANOSECONDS_PER_SECOND < u \<and> u < r \<longrightarrow> \<not> due cal d u)"
proof -
  let ?t = "searchStart nowNs d"
  note start = searchStart_pos [OF assms(4)]
  have pos: "0 \<le> calendarTimeNs nowNs d div NANOSECONDS_PER_SECOND"
    using assms(4) by (simp add: NANOSECONDS_PER_SECOND_def pos_imp_zdiv_nonneg_iff)
  obtain m where m: "?t \<le> m" "due cal d m" using due_exists [OF assms(1-3)] by blast
  obtain r where r: "nextAlarm cal d ?t = Some r" "?t \<le> r" "due cal d r"
      "\<forall>u. ?t \<le> u \<longrightarrow> u < r \<longrightarrow> \<not> due cal d u"
    using nextAlarm_finds [OF assms(1) m(2) _ start(1) m(1)] start(2) pos by auto
  have "\<not> due cal d u" if "calendarTimeNs nowNs d div NANOSECONDS_PER_SECOND < u" "u < r" for u
  proof (cases "?t \<le> u")
    case True
    then show ?thesis using r(4) that(2) by simp
  next
    case False
    then show ?thesis using start(3) [OF that(1)] by (simp add: due_def)
  qed
  then show ?thesis using r start(2) by (intro exI [of _ r]) auto
qed

text \<open>An alarm at 07:30 on every day, and a calendar of 31-day months.\<close>

definition demo_calendar :: calendar where
  "demo_calendar = \<lparr>cal_date = (\<lambda>day. (day mod 31 + 1, day div 31 mod 12, day div 372)),
     cal_timegm = (\<lambda>c. 0), cal_valid = (\<lambda>_ _ _. True)\<rparr>"

definition demo_clock :: rx8130ce where
  "demo_clock = \<lparr>registers = (\<lambda>_. 0)(MinuteAlarmReg := 0x30, HourAlarmReg := 0x07, DayWeekAlarmReg := 0x15,
     ExtensionReg := DayAlarm), registerAddress = 0, registerPhase = False, baseTimeNs = 5000000000,
     baseClockNs = 0, week = 1, dirty = False, secondsWritten = False, alarmTimer = None, rx_irq = True\<rparr>"

lemma demo_covers: "coversDays demo_calendar"
  unfolding coversDays_def
proof (intro allI impI)
  fix day n :: int assume n: "1 \<le> n" "n \<le> 31"
  note c = cycle_distance [where h = "n - 1" and n = 31 and x = day]
  show "\<exists>j. 0 \<le> j \<and> j < 62 \<and> fst (cal_date demo_calendar (day + j)) = n"
    using c(1,3,4) n by (intro exI [of _ "(n - 1 + 31 - day mod 31) mod 31"]) (simp add: demo_calendar_def)
qed

theorem alarm_is_next_match_witness:
  "\<exists>r. nextAlarm demo_calendar demo_clock (searchStart 7 demo_clock) = Some r \<and> 5 < r \<and>
    due demo_calendar demo_clock r"
proof -
  have "alarmValid demo_clock"
    by (simp add: alarmValid_def demo_clock_def masked_def alarmMinute_def alarmHour_def alarmDay_def
        fromBcd_def rx_registers rx_flags Let_def)
  moreover have start: "calendarTimeNs 7 demo_clock = 5000000007"
    by (simp add: demo_clock_def calendarTimeNs_def stopped_def rx_registers)
  ultimately show ?thesis
    using alarm_is_next_match [OF _ demo_covers, of demo_clock 7]
    by (auto simp: start NANOSECONDS_PER_SECOND_def demo_clock_def)
qed

section \<open>Setting and reading the time\<close>

lemma bcd_all: "\<forall>v \<in> set [0..99]. fromBcd (toBcd v) = v"
  by code_simp

lemma bcd_7F: "\<forall>v \<in> set [0..79]. fromBcd (toBcd v AND 0x7F) = v"
  by code_simp

lemma bcd_3F: "\<forall>v \<in> set [0..39]. fromBcd (toBcd v AND 0x3F) = v"
  by code_simp

lemma bcd_1F: "\<forall>v \<in> set [0..19]. fromBcd (toBcd v AND 0x1F) = v"
  by code_simp

lemma updateAlarm_frame:
  assumes "updateAlarm cal nowNs d = Some d'"
  shows "registers d' = registers d \<and> baseTimeNs d' = baseTimeNs d \<and> baseClockNs d' = baseClockNs d \<and>
    week d' = week d \<and> dirty d' = dirty d \<and> secondsWritten d' = secondsWritten d"
  using assms by (auto simp: updateAlarm_def Let_def split: if_splits)

definition dateTime :: "int \<Rightarrow> int \<Rightarrow> int \<Rightarrow> int \<Rightarrow> int \<Rightarrow> int \<Rightarrow> tm" where
  "dateTime year mon mday hour minute sec = \<lparr>tm_sec = sec, tm_min = minute, tm_hour = hour,
     tm_mday = mday, tm_mon = mon - 1, tm_year = 100 + year\<rparr>"

text \<open>The time registers as a driver writes them.\<close>

definition holdsTime :: "(byte \<Rightarrow> byte) \<Rightarrow> int \<Rightarrow> int \<Rightarrow> int \<Rightarrow> int \<Rightarrow> int \<Rightarrow> int \<Rightarrow> bool" where
  "holdsTime regs year mon mday hour minute sec \<longleftrightarrow>
     regs SecondsReg = toBcd sec \<and> regs 0x11 = toBcd minute \<and> regs 0x12 = toBcd hour \<and>
     regs 0x14 = toBcd mday \<and> regs 0x15 = toBcd mon \<and> regs YearReg = toBcd year"

lemma registerTime_holds:
  assumes "holdsTime regs year mon mday hour minute sec"
    and "0 \<le> sec" "sec \<le> 59" "0 \<le> minute" "minute \<le> 59" "0 \<le> hour" "hour \<le> 23"
    and "1 \<le> mday" "mday \<le> 31" "1 \<le> mon" "mon \<le> 12" "0 \<le> year" "year \<le> 99"
  shows "registerTime regs = dateTime year mon mday hour minute sec"
  using assms bcd_all bcd_7F bcd_3F bcd_1F
  by (simp add: registerTime_def dateTime_def holdsTime_def)


text \<open>Midnight of the first of January 2000, written into a clock without an alarm.\<close>

definition new_year :: calendar where
  "new_year = \<lparr>cal_date = (\<lambda>_. (1, 0, 100)), cal_timegm = (\<lambda>_. 946684800), cal_valid = (\<lambda>_ _ _. True)\<rparr>"

definition set_clock :: rx8130ce where
  "set_clock = \<lparr>registers = (\<lambda>_. 0)(0x14 := 1, 0x15 := 1), registerAddress = 0x17, registerPhase = False,
     baseTimeNs = 0, baseClockNs = 0, week = 1, dirty = True, secondsWritten = True, alarmTimer = None,
     rx_irq = True\<rparr>"

lemma set_clock_commits: "\<exists>d. rx_event new_year t I2C_FINISH set_clock = Some d \<and> \<not> dirty d"
  by (simp add: rx_event_def commit_def updateAlarm_def alarmValid_def set_clock_def new_year_def stopped_def
      registerTime_def fromBcd_def masked_def rx_registers rx_flags Let_def)


end
