(* ===== verification/ControllerHooks.thy ===== *)
theory ControllerHooks
  imports ControllerState
begin

text \<open>
  How the controller finds the library functions it replaces: \<open>ControllerHooks.cpp\<close> with
  \<open>CodeSignature.hpp\<close> and \<open>CodeReference.hpp\<close>. Code in guest memory is compared with masked
  signatures, instruction by instruction and modulo the short encodings the linker may choose;
  references are checked against literals, strings and the symbols found so far; an entry found at
  exactly one address becomes a hook.

  The signature tables are generated data and are arguments. The buffers the two code regions are
  copied to are the argument \<open>memory\<close>, a byte per address (zero where the copy failed).
\<close>

unbundle bit_operations_syntax

section \<open>Signatures\<close>

record code_reference =
  ref_offset :: nat
  ref_value :: u32
  ref_bytes :: bytes
  ref_symbol :: string

record code_signature =
  sig_name :: string
  sig_operation :: u32
  sig_iram :: bool
  sig_code :: bytes
  sig_mask :: bytes
  sig_calls :: "nat list"
  sig_references :: "code_reference list"

record hook_state =
  hooks :: "u32 \<Rightarrow> u32 option"
  nimbleContextPointer :: u32
  nimbleListPointer :: u32
  nimbleListOffset :: u32
  symbols :: "string \<Rightarrow> u32 list option"

section \<open>Instructions\<close>

definition u32_of :: "byte \<Rightarrow> u32" where
  "u32_of b = ucast b"

text \<open>The wide form of the instruction at the start of the code, and its length in bytes; length 0
  when the code is too short.\<close>

definition loadWide :: "u32 \<Rightarrow> u32 \<Rightarrow> u32" where
  "loadWide a b = ((a AND 0xF0) OR 2)
     OR push_bit 8 ((if a AND 15 = 8 then 0x20 else 0x60) OR (b AND 15)) OR push_bit 16 (drop_bit 4 b)"

definition moveWide :: "u32 \<Rightarrow> u32 \<Rightarrow> u32" where
  "moveWide a b = push_bit 4 b OR push_bit 8 ((a AND 0xF0) OR b) OR 0x200000"

text \<open>The immediate runs from -32 to 95; it is kept as a 32-bit word.\<close>

definition immediateWide :: "u32 \<Rightarrow> u32 \<Rightarrow> u32" where
  "immediateWide a b =
     (let immediate = (a AND 0x70) OR drop_bit 4 b;
          immediate = (if 96 \<le> immediate then immediate - 128 else immediate) in
      (push_bit 4 (b AND 15) OR 2) OR push_bit 8 (0xA0 OR (drop_bit 8 immediate AND 15))
        OR push_bit 16 (immediate AND 255))"

definition branchWide :: "u32 \<Rightarrow> u32 \<Rightarrow> u32" where
  "branchWide a b = (if a AND 0x40 \<noteq> 0 then 0x56 else 0x16) OR push_bit 8 (b AND 15)"

definition addWide :: "u32 \<Rightarrow> u32 \<Rightarrow> u32" where
  "addWide a b =
     (let immediate = (if drop_bit 4 a \<noteq> 0 then drop_bit 4 a else 255) in
      ((b AND 0xF0) OR 2) OR push_bit 8 (0xC0 OR (b AND 15)) OR push_bit 16 immediate)"

definition shortInstruction :: "u32 \<Rightarrow> u32 \<Rightarrow> u32 option" where
  "shortInstruction a b =
     (if a = 0x1D \<and> b = 0xF0 then Some 0x90
      else if a = 0x0D \<and> b = 0xF0 then Some 0x80
      else if a = 0x3D \<and> b = 0xF0 then Some 0x20F0
      else if a AND 15 = 8 \<or> a AND 15 = 9 then Some (loadWide a b)
      else if a AND 15 = 0xD \<and> b AND 0xF0 = 0 then Some (moveWide a b)
      else if a AND 0x8F = 0x0C then Some (immediateWide a b)
      else if a AND 0x8F = 0x8C then Some (branchWide a b)
      else if a AND 15 = 0xB then Some (addWide a b)
      else None)"

definition instruction :: "bytes \<Rightarrow> u32 \<times> nat" where
  "instruction code =
     (if length code < 2 then (0, 0)
      else
        let a = u32_of (code ! 0); b = u32_of (code ! 1);
            count = (if 8 \<le> a AND 15 then 2 else 3) in
        if length code < count then (0, 0)
        else case shortInstruction a b of
          Some wide \<Rightarrow> (wide, count)
        | None \<Rightarrow> (a OR push_bit 8 b OR (if count = 3 then push_bit 16 (u32_of (code ! 2)) else 0), count))"

section \<open>References\<close>

definition readWord :: "guest \<Rightarrow> u32 \<Rightarrow> u32 option" where
  "readWord g address = map_option readLe32 (tryRead g address 4)"

definition readLiteral :: "guest \<Rightarrow> u32 \<Rightarrow> u32 option" where
  "readLiteral g pc = Option.bind (tryRead g pc 3) (\<lambda>code.
     readWord g (((pc + 3) AND NOT 3) + (ucast (le16 (code ! 1) (code ! 2)) - 65536) * 4))"

definition referenceMatches ::
  "(string \<Rightarrow> u32 list option) \<Rightarrow> guest \<Rightarrow> u32 \<Rightarrow> u32 \<Rightarrow> code_reference \<Rightarrow> bool \<Rightarrow> bool" where
  "referenceMatches known g pc callTarget r verifySymbols =
     (case (if callTarget \<noteq> 0 then Some callTarget else readLiteral g pc) of
        None \<Rightarrow> False
      | Some v \<Rightarrow>
          if ref_symbol r \<noteq> [] then \<not> verifySymbols \<or> known (ref_symbol r) = Some [v]
          else if ref_bytes r = [] then v = ref_value r
          else length (ref_bytes r) \<le> 96 \<and> tryRead g v (length (ref_bytes r)) = Some (ref_bytes r))"

section \<open>Matching a signature\<close>

text \<open>Relaxed calls can keep padding instructions in front.\<close>

function skipPadding :: "bytes \<Rightarrow> nat \<Rightarrow> nat" where
  "skipPadding code position =
     (if position + 3 \<le> length code \<and>
         ((code ! position = 0x10 \<and> code ! (position + 1) = 0x11 \<and> code ! (position + 2) = 0x20) \<or>
          (code ! position = 0xF0 \<and> code ! (position + 1) = 0x20 \<and> code ! (position + 2) = 0))
      then skipPadding code (position + 3) else position)"
  by pat_completeness auto
termination
  by (relation "measure (\<lambda>(code, position). length code - position)") auto

declare skipPadding.simps [simp del]

definition callDisplacement :: "byte \<Rightarrow> byte \<Rightarrow> byte \<Rightarrow> u32" where
  "callDisplacement x y z =
     (let v = drop_bit 6 (u32_of x OR push_bit 8 (u32_of y) OR push_bit 16 (u32_of z)) in
      if v AND 0x20000 \<noteq> 0 then v - 0x40000 else v)"

text \<open>A call site: where the code continues, the call target (0 when it goes through a literal)
  and the number of bytes it takes.\<close>

definition matchCall :: "u32 \<Rightarrow> bytes \<Rightarrow> bytes \<Rightarrow> nat \<Rightarrow> nat \<Rightarrow> (nat \<times> u32 \<times> nat) option" where
  "matchCall pc code expected offset position =
     (let position = skipPadding code position in
      if length code < position + 6 then None
      else if code ! position AND 0x3F = 0x25 then
        Some (position, ((pc + of_nat position) AND NOT 3) + 4
          + callDisplacement (code ! position) (code ! (position + 1)) (code ! (position + 2)) * 4, 3)
      else if code ! position \<noteq> expected ! offset \<or> code ! (position + 3) \<noteq> 0xE0
         \<or> code ! (position + 4) \<noteq> expected ! (offset + 4) \<or> code ! (position + 5) \<noteq> 0 then None
      else Some (position, 0, 6))"

definition maskBits :: "bytes \<Rightarrow> bytes \<Rightarrow> nat \<Rightarrow> nat \<Rightarrow> u32" where
  "maskBits expected field offset expectedLength =
     (let bits = u32_of (field ! offset) OR push_bit 8 (u32_of (field ! (offset + 1))) in
      if expectedLength = 3 then bits OR push_bit 16 (u32_of (field ! (offset + 2)))
      else if expected ! offset AND 0x8F = 0x8C then 0xFFF
      else if bits = 0xFFFF then 0xFFFFFF
      else bits)"

text \<open>An ordinary instruction: the lengths of both forms when they agree under the mask.\<close>

definition matchInstruction :: "bytes \<Rightarrow> code_signature \<Rightarrow> nat \<Rightarrow> nat \<Rightarrow> (nat \<times> nat) option" where
  "matchInstruction code s offset position =
     (let (wanted, expectedLength) = instruction (drop offset (sig_code s));
          (actual, actualLength) = instruction (drop position code);
          bits = maskBits (sig_code s) (sig_mask s) offset expectedLength in
      if expectedLength = 0 \<or> actualLength = 0 then None
      else if wanted AND bits \<noteq> actual AND bits then None
      else Some (expectedLength, actualLength))"

definition referencesMatch ::
  "(string \<Rightarrow> u32 list option) \<Rightarrow> guest \<Rightarrow> u32 \<Rightarrow> u32 \<Rightarrow> code_signature \<Rightarrow> nat \<Rightarrow> bool \<Rightarrow> bool" where
  "referencesMatch known g pc callTarget s offset verifySymbols =
     list_all (\<lambda>r. ref_offset r = offset \<longrightarrow> referenceMatches known g pc callTarget r verifySymbols)
       (sig_references s)"

lemma matchInstruction_advances: "matchInstruction code s offset position = Some (n, m) \<Longrightarrow> 0 < n"
  by (auto simp: matchInstruction_def Let_def split: prod.splits if_splits)

function matchesFrom :: "(string \<Rightarrow> u32 list option) \<Rightarrow> guest \<Rightarrow> u32 \<Rightarrow> bytes \<Rightarrow> code_signature
    \<Rightarrow> bool \<Rightarrow> nat \<Rightarrow> nat \<Rightarrow> bool" where
  "matchesFrom known g pc code s verifySymbols offset position =
     (if length (sig_code s) \<le> offset then True
      else if length code < position + 6 then False
      else if offset \<in> set (sig_calls s) then
        (case matchCall pc code (sig_code s) offset position of
           None \<Rightarrow> False
         | Some (position, callTarget, actualLength) \<Rightarrow>
             referencesMatch known g (pc + of_nat position) callTarget s offset verifySymbols \<and>
             matchesFrom known g pc code s verifySymbols (offset + 6) (position + actualLength))
      else
        (case matchInstruction code s offset position of
           None \<Rightarrow> False
         | Some (expectedLength, actualLength) \<Rightarrow>
             referencesMatch known g (pc + of_nat position) 0 s offset verifySymbols \<and>
             matchesFrom known g pc code s verifySymbols (offset + expectedLength)
               (position + actualLength)))"
  by pat_completeness auto
termination
  by (relation "measure (\<lambda>(known, g, pc, code, s, verifySymbols, offset, position).
      length (sig_code s) - offset)") (auto dest: matchInstruction_advances)

declare matchesFrom.simps [simp del]

definition code_matches :: "(string \<Rightarrow> u32 list option) \<Rightarrow> guest \<Rightarrow> u32 \<Rightarrow> bytes \<Rightarrow> code_signature
    \<Rightarrow> bool \<Rightarrow> bool" where
  "code_matches known g pc code s verifySymbols = matchesFrom known g pc code s verifySymbols 0 0"

section \<open>Discovery\<close>

text \<open>The entries the scan looks at: \<open>ENTRY\<close> on \<open>a1\<close> at aligned offsets of both regions.\<close>

definition regions :: "(u32 \<times> nat) list" where
  "regions = [(0x40370000, 0x70000), (0x42000000, 0x2000000)]"

definition windowAt :: "(u32 \<Rightarrow> byte) \<Rightarrow> u32 \<Rightarrow> bytes" where
  "windowAt memory pc = map (\<lambda>i. memory (pc + of_nat i)) [0..<256]"

definition hookEntries :: "(u32 \<Rightarrow> byte) \<Rightarrow> u32 \<times> nat \<Rightarrow> u32 list" where
  "hookEntries memory region = filter (\<lambda>pc. memory pc = 0x36 \<and> memory (pc + 1) AND 15 = 1)
     (map (\<lambda>k. fst region + of_nat (4 * k))
       (filter (\<lambda>k. 4 * k + 256 < snd region) [0..<snd region div 4]))"

definition inFlash :: "u32 \<Rightarrow> bool" where
  "inFlash base \<longleftrightarrow> 0x42000000 \<le> base"

definition allEntries :: "(u32 \<Rightarrow> byte) \<Rightarrow> (u32 \<times> u32) list" where
  "allEntries memory = concat (map (\<lambda>region. map (\<lambda>pc. (fst region, pc)) (hookEntries memory region)) regions)"

definition candidateAt :: "guest \<Rightarrow> (u32 \<Rightarrow> byte) \<Rightarrow> code_signature \<Rightarrow> u32 \<times> u32 \<Rightarrow> bool" where
  "candidateAt g memory s at = (case at of (base, pc) \<Rightarrow>
     \<not> (sig_iram s \<and> inFlash base) \<and> memory (pc + 1) = sig_code s ! 1 \<and> memory (pc + 2) = sig_code s ! 2 \<and>
     code_matches (\<lambda>_. None) g pc (windowAt memory pc) s False)"

definition candidates :: "guest \<Rightarrow> (u32 \<Rightarrow> byte) \<Rightarrow> code_signature \<Rightarrow> u32 list" where
  "candidates g memory s = map snd (filter (candidateAt g memory s) (allEntries memory))"

definition nimbleLists :: "guest \<Rightarrow> (u32 \<Rightarrow> byte) \<Rightarrow> code_signature \<Rightarrow> u32 list" where
  "nimbleLists g memory static = concat (map (\<lambda>(base, pc).
     if inFlash base \<and> code_matches (\<lambda>_. None) g pc (windowAt memory pc) static False
     then (case readLiteral g (pc + 6) of None \<Rightarrow> [] | Some address \<Rightarrow> [address]) else [])
     (allEntries memory))"

definition nimbleContexts :: "guest \<Rightarrow> (u32 \<Rightarrow> byte) \<Rightarrow> (code_signature \<times> u32 \<times> u32) list
    \<Rightarrow> (u32 \<times> u32) list" where
  "nimbleContexts g memory table = concat (map (\<lambda>(base, pc).
     if inFlash base then concat (map (\<lambda>(s, reference, listOffset).
         if code_matches (\<lambda>_. None) g pc (windowAt memory pc) s False
         then (case readLiteral g (pc + reference) of None \<Rightarrow> [] | Some address \<Rightarrow> [(address, listOffset)])
         else []) table)
     else []) (allEntries memory))"

text \<open>Addresses by symbol: all candidates of the signatures with that name, sorted, once each.\<close>

definition symbolTable :: "guest \<Rightarrow> (u32 \<Rightarrow> byte) \<Rightarrow> code_signature list \<Rightarrow> string \<Rightarrow> u32 list option" where
  "symbolTable g memory table name =
     (if name \<in> sig_name ` set table then
        Some (sorted_list_of_set (\<Union>s \<in> {s \<in> set table. sig_name s = name}. set (candidates g memory s)))
      else None)"

definition verifiedAt :: "(string \<Rightarrow> u32 list option) \<Rightarrow> guest \<Rightarrow> code_signature \<Rightarrow> u32 \<Rightarrow> bool" where
  "verifiedAt known g s address = (case tryRead g address 256 of
     None \<Rightarrow> False | Some code \<Rightarrow> code_matches known g address code s True)"

definition verified :: "(string \<Rightarrow> u32 list option) \<Rightarrow> guest \<Rightarrow> (u32 \<Rightarrow> byte) \<Rightarrow> code_signature list
    \<Rightarrow> string \<Rightarrow> u32 list" where
  "verified known g memory table name = remdups (concat (map (\<lambda>s.
     if sig_name s = name then filter (verifiedAt known g s) (candidates g memory s) else []) table))"

definition nimbleDatabase :: "(u32 \<times> u32) list \<Rightarrow> u32 list \<Rightarrow> (hook_state, unit) prog" where
  "nimbleDatabase contexts listPointers =
     (let single = (length contexts + length listPointers = 1) in modify (\<lambda>h. h\<lparr>
        nimbleContextPointer := (if single \<and> contexts \<noteq> [] then fst (hd contexts) else 0),
        nimbleListOffset := (if single \<and> contexts \<noteq> [] \<and> fst (hd contexts) \<noteq> 0
          then snd (hd contexts) else 0),
        nimbleListPointer := (if single \<and> listPointers \<noteq> [] then hd listPointers else 0)\<rparr>))"

text \<open>One round of the loop over the signatures; only the first of a name counts.\<close>

definition installHook :: "guest \<Rightarrow> (u32 \<Rightarrow> byte) \<Rightarrow> code_signature list \<Rightarrow> code_signature
    \<Rightarrow> (hook_state, unit) prog" where
  "installHook g memory table s = inspect (\<lambda>h.
     case verified (symbols h) g memory table (sig_name s) of
       [address] \<Rightarrow>
         whenever (sig_operation s \<noteq> HleVersion \<and> sig_operation s \<noteq> HlePhyVersion
             \<and> hooks h (address + 3) = None)
           (modify (\<lambda>h. h\<lparr>hooks := (hooks h)(address + 3 \<mapsto> sig_operation s)\<rparr>))
     | _ # _ # _ \<Rightarrow> abort ''ambiguous library entry; refusing interception''
     | [] \<Rightarrow> skip)"

fun firstOfName :: "string list \<Rightarrow> code_signature list \<Rightarrow> code_signature list" where
  "firstOfName visited [] = []"
| "firstOfName visited (s # ss) =
     (if sig_name s \<in> set visited then firstOfName visited ss
      else s # firstOfName (sig_name s # visited) ss)"

definition requiredOperations :: "u32 list" where
  "requiredOperations = [HleInit, HleDeinit, HleEnable, HleDisable, HleMode, HleAvailable, HleSend,
     HleRegister, HlePowerActive, HlePhyInit, HlePhyWakeup, HlePhyClose]"

definition requireHook :: "u32 \<Rightarrow> (hook_state, unit) prog" where
  "requireHook operation = inspect (\<lambda>h.
     if \<exists>pc. hooks h pc = Some operation then skip else abort ''unsupported controller ABI'')"

definition bleHleDiscover :: "guest \<Rightarrow> (u32 \<Rightarrow> byte) \<Rightarrow> code_signature list
    \<Rightarrow> (code_signature \<times> u32 \<times> u32) list \<Rightarrow> code_signature \<Rightarrow> (hook_state, unit) prog" where
  "bleHleDiscover g memory table nimble static = inspect (\<lambda>h.
     if hooks h \<noteq> (\<lambda>_. None) then skip
     else block [
       nimbleDatabase (nimbleContexts g memory nimble) (nimbleLists g memory static),
       modify (\<lambda>h. h\<lparr>symbols := symbolTable g memory table\<rparr>),
       forEach (installHook g memory table) (firstOfName [] table),
       forEach requireHook requiredOperations])"

section \<open>Queries\<close>

definition new_hooks :: hook_state where
  "new_hooks = \<lparr>hooks = (\<lambda>_. None), nimbleContextPointer = 0, nimbleListPointer = 0,
     nimbleListOffset = 0, symbols = (\<lambda>_. None)\<rparr>"

definition bleHleResetHooks :: "(hook_state, unit) prog" where
  "bleHleResetHooks = modify (\<lambda>h. h\<lparr>hooks := (\<lambda>_. None), nimbleContextPointer := 0,
     nimbleListPointer := 0, nimbleListOffset := 0, symbols := (\<lambda>_. None)\<rparr>)"

definition bleHleGattList :: "guest \<Rightarrow> hook_state \<Rightarrow> u32" where
  "bleHleGattList g h =
     (let entry = (\<lambda>list. if list \<noteq> 0 then (case readWord g list of None \<Rightarrow> 0 | Some e \<Rightarrow> e) else 0) in
      if nimbleContextPointer h \<noteq> 0 then
        (case readWord g (nimbleContextPointer h) of
           None \<Rightarrow> 0
         | Some context_address \<Rightarrow>
             if context_address = 0 \<or> 0xFFFFFFFF - nimbleListOffset h < context_address then 0
             else entry (context_address + nimbleListOffset h))
      else entry (nimbleListPointer h))"

definition bleHleOperation :: "hook_state \<Rightarrow> u32 \<Rightarrow> u32" where
  "bleHleOperation h pc = (case hooks h pc of None \<Rightarrow> pc | Some operation \<Rightarrow> operation)"

definition bleHleHandles :: "bool \<Rightarrow> hook_state \<Rightarrow> u32 \<Rightarrow> bool" where
  "bleHleHandles enabled h pc \<longleftrightarrow> enabled \<and>
     (pc = HleRomDataInit \<or> (HleReturn \<le> pc \<and> pc \<le> HleDelayReturned \<and> pc AND 3 = 0) \<or>
      pc = HleTaskPoll \<or> hooks h pc \<noteq> None)"

section \<open>Hooks are unambiguous\<close>

text \<open>What a hook stands for: the only verified address of the name of a signature with its
  operation.\<close>

definition hook_ok :: "guest \<Rightarrow> (u32 \<Rightarrow> byte) \<Rightarrow> code_signature list \<Rightarrow> hook_state \<Rightarrow> bool" where
  "hook_ok g memory table h \<longleftrightarrow> (\<forall>pc operation. hooks h pc = Some operation \<longrightarrow>
     operation \<noteq> HleVersion \<and> operation \<noteq> HlePhyVersion \<and>
     (\<exists>s \<in> set table. sig_operation s = operation \<and>
        verified (symbols h) g memory table (sig_name s) = [pc - 3]))"

lemma firstOfName_set: "set (firstOfName visited table) \<subseteq> set table"
  by (induction visited table rule: firstOfName.induct) auto

lemma installHook_ok:
  assumes "s \<in> set table" and "hook_ok g memory table h"
  shows "wp (installHook g memory table s) (\<lambda>_ h'. hook_ok g memory table h' \<and> symbols h' = symbols h)
    (\<lambda>_ _. False) (\<lambda>_ _. True) h"
proof (cases "verified (symbols h) g memory table (sig_name s)")
  case Nil
  then show ?thesis using assms by (simp add: installHook_def wp_rules)
next
  case (Cons a rest)
  then show ?thesis
    using assms by (cases rest) (auto simp: installHook_def wp_rules hook_ok_def)
qed

lemma installHooks_ok:
  assumes "set ss \<subseteq> set table" and "hook_ok g memory table h"
  shows "wp (forEach (installHook g memory table) ss) (\<lambda>_ h'. hook_ok g memory table h')
    (\<lambda>_ _. False) (\<lambda>_ _. True) h"
  using assms
proof (induction ss arbitrary: h)
  case Nil
  then show ?case by (simp add: wp_rules)
next
  case (Cons s ss)
  have "wp (installHook g memory table s) (\<lambda>_ h'. hook_ok g memory table h' \<and> symbols h' = symbols h)
    (\<lambda>_ _. False) (\<lambda>_ _. True) h"
    using Cons.prems by (intro installHook_ok) simp_all
  then show ?case
    unfolding forEach.simps wp_bind by (rule wp_weaken) (use Cons.IH Cons.prems(1) in auto)
qed

lemma requireHooks_ok:
  "wp (forEach requireHook ops) (\<lambda>_ h'. h' = h \<and> (\<forall>operation \<in> set ops. \<exists>pc. hooks h pc = Some operation))
    (\<lambda>_ _. False) (\<lambda>_ _. True) h"
proof (induction ops)
  case (Cons operation ops)
  have "wp (requireHook operation) (\<lambda>_ h'. h' = h \<and> (\<exists>pc. hooks h pc = Some operation))
      (\<lambda>_ _. False) (\<lambda>_ _. True) h"
    by (simp add: requireHook_def wp_rules)
  then show ?case
    unfolding forEach.simps wp_bind by (rule wp_weaken) (auto intro: wp_weaken [OF Cons.IH])
qed (simp add: wp_rules)

lemma verified_entry:
  "a \<in> set (verified known g memory table name) \<longleftrightarrow>
     (\<exists>s \<in> set table. sig_name s = name \<and> a \<in> set (candidates g memory s) \<and> verifiedAt known g s a)"
  by (auto simp: verified_def)

text \<open>The guest's code is intercepted only where it is known to be the library function. After a
  discovery that succeeds, every hook sits three bytes into the one and only address that was
  verified, literals and symbols included, for the name of a signature with the hook's operation,
  and no operation the controller cannot do without is missing.\<close>

lemma hooks_are_verified:
  assumes "bleHleDiscover g memory table nimble static new_hooks = Normal u h"
  shows "(\<forall>pc operation. hooks h pc = Some operation \<longrightarrow>
      (\<exists>s \<in> set table. sig_operation s = operation \<and>
         (\<exists>s' \<in> set table. sig_name s' = sig_name s \<and> verifiedAt (symbols h) g s' (pc - 3)) \<and>
         (\<forall>s' a. s' \<in> set table \<and> sig_name s' = sig_name s \<and> a \<in> set (candidates g memory s') \<and>
            verifiedAt (symbols h) g s' a \<longrightarrow> a = pc - 3))) \<and>
    (\<forall>operation \<in> set requiredOperations. \<exists>pc. hooks h pc = Some operation)"
proof -
  let ?post = "\<lambda>h'. hook_ok g memory table h' \<and>
    (\<forall>operation \<in> set requiredOperations. \<exists>pc. hooks h' pc = Some operation)"
  have "wp (bleHleDiscover g memory table nimble static) (\<lambda>_ h'. ?post h') (\<lambda>_ _. False) (\<lambda>_ _. True) new_hooks"
  proof -
    have last: "wp (forEach requireHook requiredOperations) (\<lambda>_ h'. ?post h') (\<lambda>_ _. False) (\<lambda>_ _. True) h1"
      if "hook_ok g memory table h1" for h1
      by (rule wp_weaken [OF requireHooks_ok]) (use that in auto)
    have install: "wp (forEach (installHook g memory table) (firstOfName [] table))
        (\<lambda>_. wp (forEach requireHook requiredOperations) (\<lambda>_ h'. ?post h') (\<lambda>_ _. False) (\<lambda>_ _. True))
        (\<lambda>_ _. False) (\<lambda>_ _. True) h1"
      if "hook_ok g memory table h1" for h1
      by (rule wp_weaken [OF installHooks_ok [OF firstOfName_set that]]) (use last in simp_all)
    show ?thesis
      unfolding bleHleDiscover_def wp_inspect
      by (simp only: new_hooks_def hook_state.simps not_True_eq_False if_False simp_thms wp_block_Cons
          wp_block_Nil nimbleDatabase_def Let_def wp_modify)
        (rule install, simp add: hook_ok_def)
  qed
  then have post: "?post h" using assms by (simp add: wp_def)
  have "\<exists>s \<in> set table. sig_operation s = operation \<and>
         (\<exists>s' \<in> set table. sig_name s' = sig_name s \<and> verifiedAt (symbols h) g s' (pc - 3)) \<and>
         (\<forall>s' a. s' \<in> set table \<and> sig_name s' = sig_name s \<and> a \<in> set (candidates g memory s') \<and>
            verifiedAt (symbols h) g s' a \<longrightarrow> a = pc - 3)"
    if "hooks h pc = Some operation" for pc operation
  proof -
    have "\<exists>s \<in> set table. sig_operation s = operation \<and>
        verified (symbols h) g memory table (sig_name s) = [pc - 3]"
      using conjunct1 [OF post] that unfolding hook_ok_def by simp
    then obtain s where s: "s \<in> set table" "sig_operation s = operation"
        "verified (symbols h) g memory table (sig_name s) = [pc - 3]"
      by metis
    have "set (verified (symbols h) g memory table (sig_name s)) = {pc - 3}" by (simp add: s(3))
    then have all: "(\<exists>s' \<in> set table. sig_name s' = sig_name s \<and> a \<in> set (candidates g memory s') \<and>
        verifiedAt (symbols h) g s' a) \<longleftrightarrow> a = pc - 3" for a
      using verified_entry [of a "symbols h" g memory table "sig_name s"] by simp
    obtain s' where s': "s' \<in> set table" "sig_name s' = sig_name s" "verifiedAt (symbols h) g s' (pc - 3)"
      using all [of "pc - 3"] by auto
    show ?thesis
    proof (rule bexI [of _ s], intro conjI allI impI)
      show "sig_operation s = operation" by (rule s(2))
      show "\<exists>s' \<in> set table. sig_name s' = sig_name s \<and> verifiedAt (symbols h) g s' (pc - 3)"
        by (rule bexI [of _ s']) (simp_all add: s')
      fix s'' a
      assume "s'' \<in> set table \<and> sig_name s'' = sig_name s \<and> a \<in> set (candidates g memory s'') \<and>
        verifiedAt (symbols h) g s'' a"
      then show "a = pc - 3" using all [of a] by blast
    qed (rule s(1))
  qed
  then show ?thesis using post by blast
qed

section \<open>Short encodings are read as wide ones\<close>

lemma and_bit:
  assumes "(x :: u32) AND m = y" and "bit m 3"
  shows "bit x 3 = bit y 3"
  using assms bit_and_iff [of x m 3] by auto

lemma short_bit:
  assumes "shortInstruction a b \<noteq> None"
  shows "bit a 3"
proof (rule ccontr)
  assume no: "\<not> bit a 3"
  have "a \<noteq> 0x1D" "a \<noteq> 0x0D" "a \<noteq> 0x3D" using no by auto
  moreover have "a AND 15 \<noteq> 8" "a AND 15 \<noteq> 9" "a AND 15 \<noteq> 0xD" "a AND 15 \<noteq> 0xB"
    "a AND 0x8F \<noteq> 0x0C" "a AND 0x8F \<noteq> 0x8C"
    using no and_bit [of a 15 8] and_bit [of a 15 9] and_bit [of a 15 13] and_bit [of a 15 11]
      and_bit [of a "0x8F" "0x0C"] and_bit [of a "0x8F" "0x8C"] by auto
  ultimately show False using assms by (simp add: shortInstruction_def)
qed

definition wideCode :: "u32 \<Rightarrow> bytes" where
  "wideCode w = [ucast w, ucast (drop_bit 8 w), ucast (drop_bit 16 w)]"

lemma byte_of_bit: "bit (u32_of b) n \<Longrightarrow> n < 8"
  by (auto simp: u32_of_def bit_simps dest: bit_imp_le_length)

lemma three_bytes:
  assumes "\<And>n. bit w n \<Longrightarrow> n < 24"
  shows "u32_of (ucast w) OR push_bit 8 (u32_of (ucast (drop_bit 8 w))) OR
    push_bit 16 (u32_of (ucast (drop_bit 16 w))) = w"
proof (rule bit_word_eqI)
  fix n assume "n < LENGTH(32)"
  then show "bit (u32_of (ucast w) OR push_bit 8 (u32_of (ucast (drop_bit 8 w))) OR
    push_bit 16 (u32_of (ucast (drop_bit 16 w)))) n = bit w n"
    using assms [of n] by (cases "n < 8"; cases "n < 16") (auto simp: u32_of_def bit_simps)
qed

lemma bit_imp_le: "bit (n :: nat) k \<Longrightarrow> 2 ^ k \<le> n"
  by (metis bit_take_bit_iff less_irrefl_nat linorder_not_le take_bit_nat_eq_self)

lemma nibble_at_least_8:
  assumes "bit (x :: u32) 3"
  shows "8 \<le> x AND 15"
proof -
  have "bit (x AND 15) 3" using assms by (simp add: bit_simps)
  then have "bit (unat (x AND 15)) 3" by (simp add: bit_unsigned_iff)
  then have "2 ^ 3 \<le> unat (x AND 15)" by (rule bit_imp_le)
  then show ?thesis by (simp add: word_le_nat_alt)
qed

lemma low_nibble_small:
  assumes "\<not> bit (x :: u32) 3"
  shows "x AND 15 < 8"
proof -
  have m: "(15 :: u32) = mask 4" by (simp add: mask_eq_exp_minus_1)
  have "x AND 15 = take_bit 3 x"
  proof (rule bit_word_eqI)
    fix n
    show "bit (x AND 15) n = bit (take_bit 3 x) n"
      using assms unfolding m by (cases "n = 3") (auto simp: bit_simps)
  qed
  then have "unat (x AND 15) = take_bit 3 (unat x)" by (simp add: unsigned_take_bit_eq)
  then show ?thesis using take_bit_nat_less_exp [of 3 "unat x"] by (simp add: word_less_nat_alt)
qed

lemma wide_instruction:
  assumes "\<And>n. bit w n \<Longrightarrow> n < 24" and "\<not> bit w 3"
  shows "instruction (wideCode w) = (w, 3)"
proof -
  let ?a = "u32_of (ucast w)"
  have no: "\<not> bit ?a 3" using assms(2) by (simp add: u32_of_def bit_simps)
  then have "shortInstruction ?a b = None" for b using short_bit by blast
  moreover have "\<not> 8 \<le> ?a AND 15" using low_nibble_small [OF no] by simp
  ultimately show ?thesis
    by (simp add: instruction_def wideCode_def Let_def three_bytes [OF assms(1)])
qed

definition narrow :: "nat \<Rightarrow> u32 \<Rightarrow> bool" where
  "narrow k w \<longleftrightarrow> (\<forall>n. bit w n \<longrightarrow> n < k)"

lemma narrow_or: "narrow k x \<Longrightarrow> narrow k y \<Longrightarrow> narrow k (x OR y)"
  by (auto simp: narrow_def bit_simps)

lemma narrow_and: "narrow k x \<Longrightarrow> narrow k (x AND y)"
  by (auto simp: narrow_def bit_simps)

lemma narrow_push: "narrow l x \<Longrightarrow> l + m \<le> k \<Longrightarrow> narrow k (push_bit m x)"
  unfolding narrow_def bit_push_bit_iff by (metis add_le_imp_le_diff le_add_diff_inverse2 less_le_trans
      linorder_not_le add_less_cancel_right)

lemma narrow_drop: "narrow l x \<Longrightarrow> l \<le> k \<Longrightarrow> narrow k (drop_bit m x)"
  by (force simp: narrow_def bit_drop_bit_eq)

lemma narrow_mono: "narrow l x \<Longrightarrow> l \<le> k \<Longrightarrow> narrow k x"
  by (force simp: narrow_def)

lemma narrow_const: "take_bit k c = c \<Longrightarrow> narrow k c"
  unfolding narrow_def by (metis bit_take_bit_iff)

lemma narrow_byte: "narrow 8 (u32_of b)"
  by (auto simp: narrow_def dest: byte_of_bit)

lemma narrow_15: "narrow 4 (x AND 15)"
  unfolding and.commute [of x] by (rule narrow_and) (rule narrow_const, simp)

lemma narrow_255: "narrow 8 (x AND 255)"
  unfolding and.commute [of x] by (rule narrow_and) (rule narrow_const, simp)

lemmas narrow_intros = narrow_or narrow_byte narrow_and
  narrow_push [OF narrow_or] narrow_push [OF narrow_byte] narrow_push [OF narrow_and]
  narrow_mono [OF narrow_15] narrow_mono [OF narrow_255] narrow_drop

lemma narrow_8: "narrow 8 0x20" "narrow 8 0x60" "narrow 8 0xA0" "narrow 8 0xC0" "narrow 8 2"
  "narrow 8 0x56" "narrow 8 0x16" "narrow 8 255" "narrow 24 0x200000"
  by (rule narrow_const, simp)+

lemma narrow_three: "narrow 8 p \<Longrightarrow> narrow 8 q \<Longrightarrow> narrow 8 r \<Longrightarrow>
    narrow 24 (p OR push_bit 8 q OR push_bit 16 r)"
  by (intro narrow_or) (auto intro: narrow_mono narrow_push)

lemma narrow_nibble: "narrow 8 (x AND 15)"
  by (rule narrow_mono [OF narrow_15]) simp

lemma narrow_shifted: "narrow 8 (push_bit 4 (x AND 15))"
  by (rule narrow_push [OF narrow_15]) simp

lemma narrow_top: "narrow 8 (drop_bit 4 (u32_of c))"
  by (rule narrow_drop [OF narrow_byte]) simp

lemma narrow_forms:
  "narrow 24 (loadWide (u32_of x) (u32_of y))" "narrow 24 (moveWide (u32_of x) (u32_of y))"
  "narrow 24 (immediateWide (u32_of x) (u32_of y))" "narrow 24 (branchWide (u32_of x) (u32_of y))"
  "narrow 24 (addWide (u32_of x) (u32_of y))"
proof -
  show "narrow 24 (loadWide (u32_of x) (u32_of y))"
    unfolding loadWide_def
    by (intro narrow_three narrow_or narrow_and narrow_byte narrow_nibble narrow_top)
      (simp_all add: narrow_8)
  show "narrow 24 (moveWide (u32_of x) (u32_of y))"
    unfolding moveWide_def
    by (intro narrow_or narrow_push [OF narrow_byte] narrow_push [OF narrow_or [OF narrow_and [OF narrow_byte] narrow_byte]])
      (simp_all add: narrow_8)
  show "narrow 24 (immediateWide (u32_of x) (u32_of y))"
    unfolding immediateWide_def Let_def
    by (intro narrow_three narrow_or narrow_shifted narrow_nibble narrow_255) (simp_all add: narrow_8)
  have "narrow 24 (push_bit 8 (u32_of y AND 15))" by (rule narrow_push [OF narrow_nibble]) simp
  then show "narrow 24 (branchWide (u32_of x) (u32_of y))"
    unfolding branchWide_def by (intro narrow_or) (auto intro: narrow_mono [OF narrow_8(6)] narrow_mono [OF narrow_8(7)])
  show "narrow 24 (addWide (u32_of x) (u32_of y))"
    unfolding addWide_def Let_def
    by (intro narrow_three narrow_or narrow_and narrow_byte narrow_nibble) (simp_all add: narrow_8 narrow_top)
qed

lemma low_bit_forms:
  "\<not> bit (loadWide a b) 3" "\<not> bit (moveWide a b) 3" "\<not> bit (immediateWide a b) 3"
  "\<not> bit (branchWide a b) 3" "\<not> bit (addWide a b) 3"
  by (simp_all add: loadWide_def moveWide_def immediateWide_def branchWide_def addWide_def Let_def
      bit_simps)



end
