(* ===== verification/ControllerInvariant.thy ===== *)
theory ControllerInvariant
  imports BleController
begin

text \<open>
  What every operation of the controller keeps: the well-formedness of its state, the session
  protocol towards the peer, and what it does to the event queue. The protocol is an automaton on
  the messages sent: \<open>Connected\<close> opens a session of a generation, \<open>Data\<close> and \<open>Encryption\<close> belong
  to the session that is open, and \<open>Disconnected\<close> closes it. \<open>linkStep\<close> collects what an operation
  does, so that one pass over the operations gives the facts all the properties rest on.
\<close>

unbundle bit_operations_syntax

section \<open>The session protocol\<close>

fun session_step :: "message \<Rightarrow> u64 option \<Rightarrow> u64 option option" where
  "session_step (m, g, payload) current =
     (if m = Connected then (if current = None then Some (Some g) else None)
      else if m = Disconnected then (if current = Some g then Some None else None)
      else if m = Data \<or> m = Encryption then (if current = Some g then Some current else None)
      else Some current)"

definition session_after :: "message list \<Rightarrow> u64 option option" where
  "session_after log = foldl (\<lambda>current msg. Option.bind current (session_step msg)) (Some None) log"

lemma session_after_Nil [simp]: "session_after [] = Some None"
  by (simp add: session_after_def)

lemma session_after_snoc [simp]:
  "session_after (log @ [msg]) = Option.bind (session_after log) (session_step msg)"
  by (simp add: session_after_def)

declare session_step.simps [simp del]

section \<open>The socket of the controller\<close>

text \<open>A socket that is open has logged exactly the session the controller is in; a closed one
  has logged a legal history.\<close>

definition socket_in :: "u64 option \<Rightarrow> peer_socket \<Rightarrow> bool" where
  "socket_in current k \<longleftrightarrow> sender_ok k \<and> session_after (sock_log k) \<noteq> None \<and>
     (fd k \<longrightarrow> session_after (sock_log k) = Some current)"

text \<open>How many messages can still arrive.\<close>

definition budget :: "peer_socket \<Rightarrow> nat" where
  "budget k = length (k_recvs (sock_kernel k)) + of_bool (incoming k \<noteq> [])"

definition flushed :: "peer_socket \<Rightarrow> peer_socket \<Rightarrow> bool" where
  "flushed k k' \<longleftrightarrow> sock_log k' = sock_log k \<and> opened k' = opened k \<and>
     k_recvs (sock_kernel k') = k_recvs (sock_kernel k) \<and>
     (fd k' \<longrightarrow> fd k \<and> incoming k' = incoming k) \<and> (incoming k' \<noteq> [] \<longrightarrow> incoming k' = incoming k)"

lemma flushed_refl [simp]: "flushed k k"
  by (simp add: flushed_def)

lemma flushed_close: "flushed k (sock_close (k\<lparr>sock_kernel := (sock_kernel k)\<lparr>k_sends := rs\<rparr>\<rparr>))"
  by (simp add: flushed_def sock_close_def)

lemma flushed_kernel: "flushed k (k\<lparr>sock_kernel := (sock_kernel k)\<lparr>k_sends := rs\<rparr>\<rparr>)"
  by (simp add: flushed_def)

lemma flushed_trans: "flushed k k1 \<Longrightarrow> flushed k1 k2 \<Longrightarrow> flushed k k2"
  unfolding flushed_def by metis

lemma flushed_written:
  "flushed k (k\<lparr>sock_kernel := (sock_kernel k)\<lparr>k_sent := bs\<rparr>, sentBytes := n\<rparr>)"
  "flushed k (k\<lparr>outgoing := out, sentBytes := n\<rparr>)"
  by (simp_all add: flushed_def)

lemma flush_loop_frame: "flushed k (flush_loop script k)"
proof (induction script arbitrary: k)
  case Nil
  then show ?case by (subst flush_loop.simps) simp
next
  case (Cons r rs)
  let ?k = "k\<lparr>sock_kernel := (sock_kernel k)\<lparr>k_sends := rs\<rparr>\<rparr>"
  note later = flushed_trans [OF flushed_kernel Cons.IH]
  show ?case
  proof (cases "fd k \<and> outgoing k \<noteq> []")
    case False
    then show ?thesis by (subst flush_loop.simps) auto
  next
    case True
    then obtain pkt rest where out: "outgoing k = pkt # rest" by (cases "outgoing k") auto
    show ?thesis
    proof (cases r)
      case (SendBytes n)
      define w where "w = min n (length pkt - sentBytes k)"
      define u where "u = ?k\<lparr>sock_kernel := (sock_kernel ?k)\<lparr>k_sent := k_sent (sock_kernel ?k)
          @ take w (drop (sentBytes ?k) pkt)\<rparr>, sentBytes := sentBytes ?k + w\<rparr>"
      have u: "flushed k u" unfolding u_def by (rule flushed_trans [OF flushed_kernel flushed_written(1)])
      have "flushed k (flush_loop rs (u\<lparr>outgoing := rest, sentBytes := 0\<rparr>))"
        by (rule flushed_trans [OF u flushed_trans [OF flushed_written(2) Cons.IH]])
      then show ?thesis
        unfolding SendBytes flush_loop_bytes [OF conjunct1 [OF True] out w_def u_def] by (simp add: u flushed_close)
    qed (use True later in \<open>subst flush_loop.simps, auto simp: flushed_close flushed_kernel\<close>)+
  qed
qed

lemma sock_flush_frame: "flushed k (sock_flush k)"
  by (simp add: sock_flush_def flush_loop_frame)

lemma sock_close_frame:
  "sock_log (sock_close k) = sock_log k" "opened (sock_close k) = opened k" "\<not> fd (sock_close k)"
  "k_recvs (sock_kernel (sock_close k)) = k_recvs (sock_kernel k)" "incoming (sock_close k) = []"
  by (simp_all add: sock_close_def)

lemma sock_sent_cases:
  assumes "length p \<le> 1024"
  shows "sock_sent m g p k = k \<and> \<not> fd k \<or> sock_sent m g p k = sock_close k \<or>
    fd k \<and> sock_sent m g p k = sock_flush (k\<lparr>outgoing := outgoing k @ [frame (m, g, p)],
      sock_log := sock_log k @ [(m, g, p)]\<rparr>)"
  using assms
  by (auto simp: sock_sent_def sock_send_def inspect_def skip_def modify_def bind_def socket_limits)

lemma sock_sent_frame:
  assumes "length p \<le> 1024"
  shows "opened (sock_sent m g p k) = opened k" and "budget (sock_sent m g p k) \<le> budget k"
    and "fd (sock_sent m g p k) \<Longrightarrow> fd k"
    and "fd (sock_sent m g p k) \<Longrightarrow> sock_log (sock_sent m g p k) = sock_log k @ [(m, g, p)]"
    and "sock_log (sock_sent m g p k) = sock_log k \<or>
      fd k \<and> sock_log (sock_sent m g p k) = sock_log k @ [(m, g, p)]"
proof -
  let ?k' = "k\<lparr>outgoing := outgoing k @ [frame (m, g, p)], sock_log := sock_log k @ [(m, g, p)]\<rparr>"
  note frame = sock_flush_frame [of ?k', unfolded flushed_def]
  note [simp] = sock_close_frame
  show "opened (sock_sent m g p k) = opened k"
    using sock_sent_cases [OF assms, of m g k] frame by auto
  show "budget (sock_sent m g p k) \<le> budget k"
    using sock_sent_cases [OF assms, of m g k] frame by (auto simp: budget_def)
  show "fd (sock_sent m g p k) \<Longrightarrow> fd k"
    using sock_sent_cases [OF assms, of m g k] by auto
  show "fd (sock_sent m g p k) \<Longrightarrow> sock_log (sock_sent m g p k) = sock_log k @ [(m, g, p)]"
    using sock_sent_cases [OF assms, of m g k] frame by auto
  show "sock_log (sock_sent m g p k) = sock_log k \<or>
      fd k \<and> sock_log (sock_sent m g p k) = sock_log k @ [(m, g, p)]"
    using sock_sent_cases [OF assms, of m g k] frame by auto
qed

lemma socket_in_sent:
  assumes "socket_in current k" and "session_step (m, g, p) current = Some current'"
    and "length p \<le> 1024"
  shows "socket_in current' (sock_sent m g p k)"
proof -
  have log: "session_after (sock_log (sock_sent m g p k)) \<noteq> None"
    using sock_sent_frame(5) [OF assms(3), of m g k] assms(1,2) by (auto simp: socket_in_def)
  have "session_after (sock_log (sock_sent m g p k)) = Some current'" if "fd (sock_sent m g p k)"
    using sock_sent_frame(3,4) [OF assms(3) that] assms(1,2) by (auto simp: socket_in_def)
  with log assms(1) show ?thesis by (simp add: socket_in_def)
qed

lemma socket_in_flush: "socket_in current k \<Longrightarrow> socket_in current (sock_flush k)"
  using sock_flush_frame [of k] sender_ok_flush [of k] by (auto simp: socket_in_def flushed_def)

lemma socket_in_fresh: "k_sent (env_kernel env) = [] \<Longrightarrow> socket_in None k \<Longrightarrow> \<not> opened k \<Longrightarrow>
    socket_in None (sock_open env k)"
  using sender_ok_open [of k env]
  by (auto simp: socket_in_def sock_open_def sock_adopt_def sock_close_frame Let_def split: option.splits)

lemma sock_open_opened: "opened (sock_open env k)"
  by (simp add: sock_open_def sock_adopt_def sock_close_frame Let_def split: option.splits)

lemma sock_open_same: "opened k \<Longrightarrow> sock_open env k = k"
  by (simp add: sock_open_def)

lemma sock_flush_opened [simp]: "opened (sock_flush k) = opened k"
  using sock_flush_frame [of k] by (simp add: flushed_def)

text \<open>What receiving does besides: a message uses up a result of \<open>::recv\<close> or the bytes that were
  buffered before.\<close>

definition took :: "peer_socket \<Rightarrow> bytes \<times> peer_socket \<Rightarrow> bool" where
  "took k r \<longleftrightarrow> sock_log (snd r) = sock_log k \<and> opened (snd r) = opened k \<and> (fd (snd r) \<longrightarrow> fd k) \<and>
     length (k_recvs (sock_kernel (snd r))) \<le> length (k_recvs (sock_kernel k)) \<and>
     (incoming (snd r) \<noteq> [] \<longrightarrow> incoming k \<noteq> [] \<or>
        length (k_recvs (sock_kernel (snd r))) < length (k_recvs (sock_kernel k))) \<and>
     (fst r \<noteq> [] \<longrightarrow> incoming (snd r) = [] \<and> 9 \<le> length (fst r) \<and> length (fst r) \<le> MaxMessageBytes \<and>
        (incoming k \<noteq> [] \<or> length (k_recvs (sock_kernel (snd r))) < length (k_recvs (sock_kernel k))))"

lemma took_same [simp]: "took k ([], k)" "took k ([], sock_close k)"
  by (simp_all add: took_def sock_close_frame)

lemma took_later:
  assumes "took k1 r" and "sock_log k1 = sock_log k" "opened k1 = opened k" "fd k1 = fd k"
    and "length (k_recvs (sock_kernel k1)) < length (k_recvs (sock_kernel k))"
  shows "took k r"
  using assms unfolding took_def by auto

lemma took_complete:
  assumes "frameSize (incoming k) \<le> MaxMessageBytes + 2" "11 \<le> frameSize (incoming k)"
    and "length (incoming k) = frameSize (incoming k)"
  shows "took k (drop 2 (incoming k), k\<lparr>incoming := []\<rparr>)"
proof -
  have "9 \<le> length (drop 2 (incoming k))" "length (drop 2 (incoming k)) \<le> MaxMessageBytes"
    using assms by (simp_all add: assms(3))
  moreover have "incoming k \<noteq> []" using assms by auto
  ultimately show ?thesis by (simp add: took_def)
qed

lemma receive_loop_took:
  assumes "script = k_recvs (sock_kernel k)"
  shows "took k (receive_loop script k)"
  using assms
proof (induction script arbitrary: k)
  case Nil
  then show ?case
    by (subst receive_loop.simps) (simp add: Let_def took_complete)
next
  case (Cons r rs)
  let ?k = "k\<lparr>sock_kernel := (sock_kernel k)\<lparr>k_recvs := rs\<rparr>\<rparr>"
  have fewer: "length (k_recvs (sock_kernel ?k)) < length (k_recvs (sock_kernel k))"
    using Cons.prems [symmetric] by simp
  have loop: "took k (receive_loop rs ?k)"
    by (rule took_later [OF Cons.IH _ _ _ fewer]) simp_all
  have read: "took k (receive_loop rs (?k\<lparr>incoming := bs,
      sock_kernel := (sock_kernel ?k)\<lparr>k_stream := ws\<rparr>\<rparr>))" for bs ws
    by (rule took_later [OF Cons.IH]) (use Cons.prems [symmetric] in simp_all)
  have stop: "took k ([], ?k)" "took k ([], sock_close ?k)"
    using fewer by (simp_all add: took_def sock_close_frame)
  show ?case
    by (subst receive_loop.simps)
      (simp add: Let_def took_complete loop [simplified] read [simplified] stop [simplified] split: recv_result.split)
qed

lemma sock_receive_took: "took k (sock_receive k)"
  by (simp add: sock_receive_def receive_loop_took)

lemma budget_took:
  "took k r \<Longrightarrow> budget (snd r) \<le> budget k" "took k r \<Longrightarrow> fst r \<noteq> [] \<Longrightarrow> budget (snd r) < budget k"
  by (auto simp: took_def budget_def)

lemma socket_in_took:
  "socket_in current k \<Longrightarrow> socket_in current (snd (sock_receive k))"
  using sock_receive_took [of k] sender_ok_receive [of k] by (auto simp: socket_in_def took_def)

section \<open>The invariant\<close>

definition event_ok :: "bytes \<Rightarrow> bool" where
  "event_ok e \<longleftrightarrow> 2 \<le> length e \<and> length e \<le> 256"

definition isCompletion :: "bytes \<Rightarrow> bool" where
  "isCompletion e \<longleftrightarrow> e ! 0 = 4 \<and> (e ! 1 = 0x0E \<or> e ! 1 = 0x0F)"

definition ctl_sizes :: "ble_controller \<Rightarrow> bool" where
  "ctl_sizes s \<longleftrightarrow> length (osi s) = 32 \<and> length (offloadCallbacks s) = 8 \<and> length (features s) = 5 \<and>
     length (eventMask s) = 8 \<and> length (leEventMask s) = 8 \<and> length (eventMaskPage2 s) = 8 \<and>
     length (randomAddress s) = 6 \<and> length (advertisingParameters s) = 15 \<and>
     length (advertisingData s) \<le> 31 \<and> length (scanResponse s) \<le> 31"

text \<open>Entries of the resolving list have distinct identities; the modes past the last are zero.\<close>

definition resolving_ok :: "bytes list \<Rightarrow> bytes \<Rightarrow> bool" where
  "resolving_ok items modes \<longleftrightarrow> length items \<le> ResolvingCapacity \<and> length modes = ResolvingCapacity \<and>
     (\<forall>item \<in> set items. length item = 39) \<and> distinct (map (take 7) items) \<and>
     (\<forall>i. length items \<le> i \<longrightarrow> i < ResolvingCapacity \<longrightarrow> modes ! i = 0)"

definition parameters_ok :: "u16 \<Rightarrow> u16 \<Rightarrow> u16 \<Rightarrow> bool" where
  "parameters_ok i l t \<longleftrightarrow> 6 \<le> i \<and> i \<le> 3200 \<and> l \<le> 499 \<and> 10 \<le> t \<and> t \<le> 3200 \<and> \<not> timeoutTooShort i l t"

definition assembly_ok :: "bytes \<Rightarrow> bool" where
  "assembly_ok bs \<longleftrightarrow> bs = [] \<or> 4 \<le> length bs \<and> length bs < unat (leFields bs 0) + 4 \<and>
     unat (leFields bs 0) + 4 \<le> MaxL2capBytes"

lemma assembly_ok_Nil [simp]: "assembly_ok []"
  by (simp add: assembly_ok_def)

definition unlinked_ok :: "ble_controller \<Rightarrow> bool" where
  "unlinked_ok s \<longleftrightarrow> \<not> ctl_encrypted s \<and> pendingKey s = None \<and> aclAssembly s = [] \<and> completedAcl s = 0"

definition ctl_link :: "ble_controller \<Rightarrow> bool" where
  "ctl_link s \<longleftrightarrow> connection s \<le> 0xEFF \<and> nextConnectionHandle s \<le> 0xEFF \<and>
     (connection s = 0 \<longrightarrow> unlinked_ok s) \<and>
     (connection s \<noteq> 0 \<longrightarrow> \<not> ctl_advertising s \<and> opened (ctl_peer s)) \<and>
     (ctl_encrypted s \<longrightarrow> pendingKey s = None) \<and> (\<forall>key. pendingKey s = Some key \<longrightarrow> length key = 16) \<and>
     assembly_ok (aclAssembly s) \<and> completedAcl s \<le> 12 \<and>
     parameters_ok (interval s) (latency s) (supervisionTimeout s) \<and> (phy s = 1 \<or> phy s = 2)"

definition sessionOf :: "u16 \<Rightarrow> u64 \<Rightarrow> u64 option" where
  "sessionOf handle gen = (if handle = 0 then None else Some gen)"

lemma sessionOf_simps [simp]: "sessionOf 0 gen = None" "handle \<noteq> 0 \<Longrightarrow> sessionOf handle gen = Some gen"
  by (simp_all add: sessionOf_def)

abbreviation session :: "ble_controller \<Rightarrow> u64 option" where
  "session s \<equiv> sessionOf (connection s) (ctl_generation s)"

definition ctl_inv :: "ble_controller \<Rightarrow> bool" where
  "ctl_inv s \<longleftrightarrow> ctl_sizes s \<and> resolving_ok (resolvingList s) (privacyModes s) \<and> ctl_link s \<and>
     (\<forall>e \<in> set (ctl_events s). event_ok e) \<and> socket_in (session s) (ctl_peer s)"

lemmas ctl_inv_defs = ctl_inv_def ctl_sizes_def ctl_link_def unlinked_ok_def

section \<open>What an operation does\<close>

text \<open>The invariant holds afterwards, at most \<open>n\<close> events that complete no command were appended,
  encryption was not switched on unless \<open>b\<close>, and no message was conjured up.\<close>

definition ctlStep :: "bool \<Rightarrow> nat \<Rightarrow> ble_controller \<Rightarrow> ble_controller \<Rightarrow> bool" where
  "ctlStep b n s t \<longleftrightarrow> ctl_inv t \<and>
     (\<exists>es. ctl_events t = ctl_events s @ es \<and> length es \<le> n \<and> (\<forall>e \<in> set es. \<not> isCompletion e)) \<and>
     (ctl_encrypted t \<longrightarrow> ctl_encrypted s \<or> b) \<and> commandPending t = commandPending s"

definition linkStep :: "bool \<Rightarrow> nat \<Rightarrow> ble_controller \<Rightarrow> ble_controller \<Rightarrow> bool" where
  "linkStep b n s t \<longleftrightarrow> ctlStep b n s t \<and>
     budget (ctl_peer t) \<le> budget (ctl_peer s) \<and> opened (ctl_peer t) = opened (ctl_peer s)"

lemma ctlStep_refl: "ctl_inv s \<Longrightarrow> ctlStep b n s s"
  by (simp add: ctlStep_def)

lemma ctlStep_inv: "ctlStep b n s t \<Longrightarrow> ctl_inv t"
  by (simp add: ctlStep_def)

lemma ctlStep_trans:
  assumes "ctlStep b n s t" and "ctlStep c m t u"
  shows "ctlStep (b \<or> c) (n + m) s u"
proof -
  obtain es fs where "ctl_events t = ctl_events s @ es" "length es \<le> n" "\<forall>e \<in> set es. \<not> isCompletion e"
      "ctl_events u = ctl_events t @ fs" "length fs \<le> m" "\<forall>e \<in> set fs. \<not> isCompletion e"
    using assms unfolding ctlStep_def by metis
  then have "ctl_events u = ctl_events s @ (es @ fs) \<and> length (es @ fs) \<le> n + m \<and>
      (\<forall>e \<in> set (es @ fs). \<not> isCompletion e)" by auto
  then show ?thesis using assms unfolding ctlStep_def by meson
qed

lemma ctlStep_mono: "ctlStep b n s t \<Longrightarrow> n \<le> m \<Longrightarrow> (b \<Longrightarrow> c) \<Longrightarrow> ctlStep c m s t"
  unfolding ctlStep_def by (meson order_trans)

lemma ctlStep_length:
  assumes "ctlStep b n s t"
  shows "ctlStep b (length (ctl_events t) - length (ctl_events s)) s t"
    and "length (ctl_events s) \<le> length (ctl_events t)"
    and "length (ctl_events t) \<le> length (ctl_events s) + n"
  using assms unfolding ctlStep_def by fastforce+

lemma linkStep_refl: "ctl_inv s \<Longrightarrow> linkStep b n s s"
  by (simp add: linkStep_def ctlStep_refl)

lemma linkStep_ctlStep: "linkStep b n s t \<Longrightarrow> ctlStep b n s t"
  by (simp add: linkStep_def)

lemma linkStep_inv: "linkStep b n s t \<Longrightarrow> ctl_inv t"
  by (auto simp: linkStep_def dest: ctlStep_inv)

lemma linkStep_trans: "linkStep b n s t \<Longrightarrow> linkStep c m t u \<Longrightarrow> linkStep (b \<or> c) (n + m) s u"
  unfolding linkStep_def using ctlStep_trans [of b n s t c m u] by auto

lemma linkStep_mono: "linkStep b n s t \<Longrightarrow> n \<le> m \<Longrightarrow> (b \<Longrightarrow> c) \<Longrightarrow> linkStep c m s t"
  unfolding linkStep_def using ctlStep_mono [of b n s t m c] by auto

section \<open>Events and messages as equations\<close>

definition newEvent :: "ble_controller \<Rightarrow> byte \<Rightarrow> bytes \<Rightarrow> bytes list" where
  "newEvent s code p = (if code \<noteq> 0x0E \<and> code \<noteq> 0x0F \<and> code \<noteq> 0x13 \<and>
     (code = 0 \<or> 64 \<le> unat code - 1 \<or> \<not> maskBit (eventMask s) (unat code - 1)) then []
     else [[4, code, of_nat (length p)] @ p])"

definition newLeEvent :: "ble_controller \<Rightarrow> byte \<Rightarrow> bytes \<Rightarrow> bytes list" where
  "newLeEvent s code p = (if code = 0 \<or> 64 \<le> unat code - 1 \<or> \<not> maskBit (leEventMask s) (unat code - 1) then []
     else newEvent s 0x3E (code # p))"

lemma wp_queueEvent [wp_rules]:
  "length p \<le> 68 \<Longrightarrow> wp (queueEvent code p) Q E A s =
     (if newEvent s code p \<noteq> [] \<and> 64 \<le> length (ctl_events s) then A ''HCI event capacity exceeded'' s
      else Q () (s\<lparr>ctl_events := ctl_events s @ newEvent s code p\<rparr>))"
  by (simp add: queueEvent_def newEvent_def wp_rules Let_def)

lemma wp_queueLeEvent [wp_rules]:
  "length p \<le> 67 \<Longrightarrow> wp (queueLeEvent code p) Q E A s =
     (if newLeEvent s code p \<noteq> [] \<and> 64 \<le> length (ctl_events s) then A ''HCI event capacity exceeded'' s
      else Q () (s\<lparr>ctl_events := ctl_events s @ newLeEvent s code p\<rparr>))"
  by (simp add: queueLeEvent_def newLeEvent_def wp_rules Let_def)

lemma wp_peerSend [wp_rules]:
  "length p \<le> 1024 \<Longrightarrow> wp (peerSend m g p) Q E A s =
     Q () (s\<lparr>ctl_peer := sock_sent m g p (ctl_peer s)\<rparr>)"
  by (simp add: peerSend_def wp_zoom) (simp add: wp_def sock_send_Normal)

lemma newEvent_length: "length (newEvent s code p) \<le> 1"
  by (simp add: newEvent_def)

lemma newLeEvent_length: "length (newLeEvent s code p) \<le> 1"
  using newEvent_length by (simp add: newLeEvent_def)

lemma newEvent_ok: "length p \<le> 68 \<Longrightarrow> e \<in> set (newEvent s code p) \<Longrightarrow> event_ok e"
  by (auto simp: newEvent_def event_ok_def split: if_splits)

lemma newLeEvent_ok: "length p \<le> 67 \<Longrightarrow> e \<in> set (newLeEvent s code p) \<Longrightarrow> event_ok e"
  using newEvent_ok [of "code # p" e s 62] by (auto simp: newLeEvent_def split: if_splits)

lemma newEvent_completion:
  "e \<in> set (newEvent s code p) \<Longrightarrow> code \<noteq> 0x0E \<Longrightarrow> code \<noteq> 0x0F \<Longrightarrow> \<not> isCompletion e"
  by (auto simp: newEvent_def isCompletion_def split: if_splits)

lemma newLeEvent_completion: "e \<in> set (newLeEvent s code p) \<Longrightarrow> \<not> isCompletion e"
  by (auto simp: newLeEvent_def dest: newEvent_completion split: if_splits)

definition quietEvents :: "bytes list \<Rightarrow> bool" where
  "quietEvents es \<longleftrightarrow> (\<forall>e \<in> set es. event_ok e \<and> \<not> isCompletion e)"

lemma newEvent_quiet [simp]:
  "length p \<le> 68 \<Longrightarrow> code \<noteq> 0x0E \<Longrightarrow> code \<noteq> 0x0F \<Longrightarrow> quietEvents (newEvent s code p)"
  by (auto simp: quietEvents_def dest: newEvent_ok newEvent_completion)

lemma newLeEvent_quiet [simp]: "length p \<le> 67 \<Longrightarrow> quietEvents (newLeEvent s code p)"
  by (auto simp: quietEvents_def dest: newLeEvent_ok newLeEvent_completion)

lemma quietEvents_Nil [simp]: "quietEvents []"
  by (simp add: quietEvents_def)

declare newEvent_length [simplified, simp] newLeEvent_length [simplified, simp]

lemma ctlStepI:
  assumes "ctl_events t = ctl_events s @ es" and "quietEvents es" and "length es \<le> n"
    and "(\<forall>e \<in> set (ctl_events s). event_ok e) \<Longrightarrow> (\<forall>e \<in> set (ctl_events t). event_ok e) \<Longrightarrow> ctl_inv t"
    and "ctl_inv s" and "ctl_encrypted t \<longrightarrow> ctl_encrypted s \<or> b"
    and "commandPending t = commandPending s"
  shows "ctlStep b n s t"
proof -
  have "\<forall>e \<in> set (ctl_events s). event_ok e" using assms(5) by (simp add: ctl_inv_def)
  moreover from this have "\<forall>e \<in> set (ctl_events t). event_ok e"
    using assms(1,2) by (auto simp: quietEvents_def)
  ultimately have "ctl_inv t" by (rule assms(4))
  moreover have "\<exists>es. ctl_events t = ctl_events s @ es \<and> length es \<le> n \<and> (\<forall>e \<in> set es. \<not> isCompletion e)"
    using assms(1-3) by (intro exI [of _ es]) (auto simp: quietEvents_def)
  ultimately show ?thesis using assms(6,7) by (simp add: ctlStep_def)
qed

lemma linkStepI:
  assumes "ctl_events t = ctl_events s @ es" and "quietEvents es" and "length es \<le> n"
    and "(\<forall>e \<in> set (ctl_events s). event_ok e) \<Longrightarrow> (\<forall>e \<in> set (ctl_events t). event_ok e) \<Longrightarrow> ctl_inv t"
    and "ctl_inv s" and "ctl_encrypted t \<longrightarrow> ctl_encrypted s \<or> b"
    and "budget (ctl_peer t) \<le> budget (ctl_peer s)" and "opened (ctl_peer t) = opened (ctl_peer s)"
    and "commandPending t = commandPending s"
  shows "linkStep b n s t"
  unfolding linkStep_def by (intro conjI ctlStepI [OF assms(1-6,9)] assms(7,8))

lemmas sent_frame [simp] = sock_sent_frame(1,2)

section \<open>Link operations\<close>

lemma ctl_disconnect_step:
  assumes "ctl_inv s"
  shows "wp (ctl_disconnect r) (\<lambda>_ t. linkStep False 1 s t \<and> connection t = 0) (\<lambda>_ _. False)
    (\<lambda>_ _. 64 \<le> length (ctl_events s)) s"
proof (cases "connection s = 0")
  case True
  then show ?thesis using assms by (simp add: ctl_disconnect_def wp_rules linkStep_refl)
next
  case False
  let ?es = "newEvent s 0x05 (appendLe16 [0] (connection s) @ [r])"
  have "socket_in None (sock_sent Disconnected (ctl_generation s) [r] (ctl_peer s))"
    using assms False by (intro socket_in_sent [of "session s"]) (simp_all add: ctl_inv_def session_step.simps)
  then have "linkStep False 1 s (s\<lparr>ctl_events := ctl_events s @ ?es,
      ctl_peer := sock_sent Disconnected (ctl_generation s) [r] (ctl_peer s), connection := 0,
      ctl_encrypted := False, pendingKey := None, aclAssembly := [], completedAcl := 0\<rparr>)"
    using assms by (intro linkStepI [where es = ?es]) (simp_all add: ctl_inv_defs assembly_ok_def)
  then show ?thesis using False by (simp add: ctl_disconnect_def wp_rules)
qed

lemma finishEncryption_step:
  assumes "ctl_inv s" and "connection s \<noteq> 0"
  shows "wp (finishEncryption r) (\<lambda>_. linkStep (r = 0) 1 s) (\<lambda>_ _. False)
    (\<lambda>_ _. 64 \<le> length (ctl_events s)) s"
proof -
  let ?s = "s\<lparr>pendingKey := None, ctl_encrypted := (r = 0)\<rparr>"
  let ?es = "newEvent ?s 0x08 (appendLe16 [r] (connection s) @ [of_bool (r = 0)])"
  have "socket_in (session s) (sock_sent Encryption (ctl_generation s) [r] (ctl_peer s))"
    using assms by (intro socket_in_sent [of "session s"]) (simp_all add: ctl_inv_def session_step.simps)
  then have "linkStep (r = 0) 1 s (s\<lparr>pendingKey := None, ctl_encrypted := (r = 0),
      ctl_events := ctl_events s @ ?es,
      ctl_peer := sock_sent Encryption (ctl_generation s) [r] (ctl_peer s)\<rparr>)"
    using assms by (intro linkStepI [where es = ?es]) (simp_all add: ctl_inv_defs)
  then show ?thesis by (simp add: finishEncryption_def wp_rules)
qed

lemma reject_step:
  assumes "ctl_inv s"
  shows "wp (reject kind gen r) (\<lambda>_. linkStep False 0 s) (\<lambda>_ _. False) (\<lambda>_ _. False) s"
proof -
  have "socket_in (session s) (sock_sent Rejected gen [kind, r] (ctl_peer s))"
    using assms by (intro socket_in_sent [of "session s"]) (simp_all add: ctl_inv_def session_step.simps)
  then have "linkStep False 0 s (s\<lparr>ctl_peer := sock_sent Rejected gen [kind, r] (ctl_peer s)\<rparr>)"
    using assms by (intro linkStepI [where es = "[]"]) (simp_all add: ctl_inv_defs)
  then show ?thesis by (simp add: reject_def wp_rules)
qed

lemma aclPacket_facts:
  "length fragment \<le> 251 \<Longrightarrow> event_ok (aclPacket handle offset fragment)"
  "\<not> isCompletion (aclPacket handle offset fragment)"
  by (simp_all add: aclPacket_def event_ok_def isCompletion_def appendLe16_def)

lemma receiveL2cap_from_step:
  assumes "ctl_inv s" and "connection s \<noteq> 0"
  shows "wp (receiveL2cap_from offset pkt) (\<lambda>_. linkStep False ((length pkt - offset + 250) div 251) s)
    (\<lambda>_ _. False) (\<lambda>_ _. False) s"
  using assms
proof (induction offset pkt arbitrary: s rule: receiveL2cap_from.induct)
  case (1 offset pkt)
  show ?case
  proof (cases "length pkt \<le> offset")
    case True
    then show ?thesis using 1 by (simp add: receiveL2cap_from.simps wp_rules linkStep_refl)
  next
    case False
    let ?e = "aclPacket (connection s) offset (take AclPayloadBytes (drop offset pkt))"
    let ?t = "s\<lparr>ctl_events := ctl_events s @ [?e], aclReceived := aclReceived s + 1,
      aclFragments := aclFragments s + (if offset = 0 then 0 else 1)\<rparr>"
    have e: "quietEvents [?e]" by (simp add: quietEvents_def aclPacket_facts AclPayloadBytes_def)
    have step: "linkStep False 1 s ?t"
      by (rule linkStepI [where es = "[?e]"]) (use 1 e in \<open>simp_all add: ctl_inv_defs\<close>)
    then have inv: "ctl_inv ?t" by (rule linkStep_inv)
    define n where "n = (length pkt - (offset + AclPayloadBytes) + 250) div 251"
    have n: "1 + n = (length pkt - offset + 250) div 251"
    proof -
      define l where "l = length pkt - offset - 1"
      have l: "length pkt - offset + 250 = l + 251" using False by (simp add: l_def)
      have "length pkt - (offset + AclPayloadBytes) + 250 = (if l < 251 then 250 else l)"
        by (simp add: l_def AclPayloadBytes_def)
      then have "n = l div 251" by (simp add: n_def)
      then show ?thesis unfolding l by simp
    qed
    have "wp (receiveL2cap_from (offset + AclPayloadBytes) pkt) (\<lambda>_. linkStep False n ?t)
        (\<lambda>_ _. False) (\<lambda>_ _. False) ?t"
      unfolding n_def using 1(1) [OF False inv] 1(3) by simp
    then have "wp (receiveL2cap_from (offset + AclPayloadBytes) pkt) (\<lambda>_. linkStep False (1 + n) s)
        (\<lambda>_ _. False) (\<lambda>_ _. False) ?t"
      by (rule wp_weaken) (auto dest: linkStep_trans [OF step])
    then show ?thesis
      unfolding n [symmetric] receiveL2cap_from.simps [of offset pkt] wp_if
      by (simp only: wp_block_Cons wp_block_Nil wp_modify False if_False)
  qed
qed

lemma ctl_receiveL2cap_step:
  assumes "ctl_inv s" and "connection s \<noteq> 0" and "length pkt \<le> MaxL2capBytes"
  shows "wp (ctl_receiveL2cap pkt) (\<lambda>_. linkStep False 5 s) (\<lambda>_ _. False) (\<lambda>_ _. False) s"
proof -
  have "(length pkt - 0 + 250) div 251 \<le> 5" using assms(3) by (simp add: MaxL2capBytes_def)
  then show ?thesis unfolding ctl_receiveL2cap_def
    by (intro wp_weaken [OF receiveL2cap_from_step [OF assms(1,2)]]) (auto elim: linkStep_mono)
qed

lemma nextHandle_range: "h \<le> 0xEFF \<Longrightarrow> nextHandle h \<noteq> 0 \<and> nextHandle h \<le> 0xEFF"
  by (auto simp: nextHandle_def word_le_nat_alt unat_word_ariths word_unat_eq_iff)

lemma peer_connect_step:
  assumes inv: "ctl_inv s" and opened: "opened (ctl_peer s)"
  shows "wp (peer_connect kind gen payload) (\<lambda>_. linkStep False 1 s) (\<lambda>_ _. False)
    (\<lambda>_ _. 64 \<le> length (ctl_events s)) s"
proof -
  let ?i = "leFields payload 7" and ?l = "leFields payload 9" and ?t = "leFields payload 11"
  note rejected = wp_weaken [OF reject_step [OF inv]]
  have reject: "wp (reject kind gen' r) (\<lambda>_. linkStep False 1 s) (\<lambda>_ _. False)
      (\<lambda>_ _. 64 \<le> length (ctl_events s)) s" for r gen'
    by (rule rejected) (auto elim: linkStep_mono)
  show ?thesis
  proof (cases "connection s = 0 \<and> length payload = 13 \<and> parameters_ok ?i ?l ?t")
    case False
    then show ?thesis
      unfolding peer_connect_def wp_inspect Let_def wp_if parameters_ok_def
      using reject by (auto simp: not_le not_less)
  next
    case True
    define h where "h = nextHandle (nextConnectionHandle s)"
    define gen' where "gen' = nextGeneration s + 1"
    define t where "t = s\<lparr>interval := ?i, latency := ?l, supervisionTimeout := ?t, nextGeneration := gen',
      ctl_generation := gen', nextConnectionHandle := h, connection := h, ctl_advertising := False, phy := 1,
      ctl_encrypted := False, aclAssembly := [], pendingKey := None\<rparr>"
    have h: "h \<noteq> 0" "h \<le> 0xEFF"
      using nextHandle_range [of "nextConnectionHandle s"] inv by (auto simp: h_def ctl_inv_defs)
    have sent: "socket_in (Some gen') (sock_sent Connected gen' payload (ctl_peer s))"
      using inv True by (intro socket_in_sent [of "session s"]) (simp_all add: ctl_inv_def session_step.simps)
    have step: "linkStep False 1 s (t\<lparr>ctl_events := ctl_events s @ newLeEvent t c p,
        ctl_peer := sock_sent Connected gen' payload (ctl_peer s)\<rparr>)" if "length p \<le> 67" for c p
      by (rule linkStepI [where es = "newLeEvent t c p"])
        (use inv that True h sent opened in \<open>simp_all add: t_def ctl_inv_defs assembly_ok_def\<close>)
    have "length (connectionComplete e h payload) \<le> 67" for e
      using True by (simp add: connectionComplete_def zeroBytes_def)
    moreover have "\<not> ?i < 6" "\<not> 3200 < ?i" "\<not> 499 < ?l" "\<not> ?t < 10" "\<not> 3200 < ?t" "\<not> timeoutTooShort ?i ?l ?t"
      using True by (auto simp: parameters_ok_def not_less)
    moreover have "ctl_events t = ctl_events s" "leEventMask t = leEventMask s" "ctl_peer t = ctl_peer s"
      "connection t = h" "ctl_generation t = gen'"
      by (simp_all add: t_def)
    moreover have "connection s = 0" "length payload = 13" using True by simp_all
    ultimately show ?thesis
      using reject step
      by (simp add: peer_connect_def wp_rules Let_def t_def [symmetric] h_def [symmetric] gen'_def [symmetric])
  qed
qed

lemma peer_encrypt_step:
  assumes "ctl_inv s" and "connection s \<noteq> 0"
  shows "wp (peer_encrypt kind gen payload) (\<lambda>_. linkStep False 1 s) (\<lambda>_ _. False)
    (\<lambda>_ _. 64 \<le> length (ctl_events s)) s"
proof -
  let ?t = "s\<lparr>pendingKey := Some (drop 10 payload)\<rparr>"
  let ?p = "appendLe16 [] (connection s) @ take 10 payload"
  have "linkStep False 1 s (?t\<lparr>ctl_events := ctl_events s @ newLeEvent ?t 5 ?p\<rparr>)"
    if "length payload = 26" "\<not> ctl_encrypted s"
    by (rule linkStepI [where es = "newLeEvent ?t 5 ?p"]) (use assms that in \<open>simp_all add: ctl_inv_defs\<close>)
  moreover have "wp (reject kind gen r) (\<lambda>_. linkStep False 1 s) (\<lambda>_ _. False)
      (\<lambda>_ _. 64 \<le> length (ctl_events s)) s" for r
    by (rule wp_weaken [OF reject_step [OF assms(1)]]) (auto elim: linkStep_mono)
  ultimately show ?thesis by (simp add: peer_encrypt_def wp_rules)
qed

section \<open>Messages of the peer\<close>

lemma ctl_peerMessage_step:
  assumes inv: "ctl_inv s" and "opened (ctl_peer s)"
  shows "wp (ctl_peerMessage pkt) (\<lambda>_. linkStep False 5 s) (\<lambda>_ _. False)
    (\<lambda>_ _. 64 \<le> length (ctl_events s)) s"
proof -
  let ?Q = "\<lambda>_. linkStep False 5 s" and ?E = "\<lambda>_ _. False" and ?A = "\<lambda>_ _. 64 \<le> length (ctl_events s)"
  have more: "linkStep False n s t \<Longrightarrow> n \<le> 5 \<Longrightarrow> linkStep False 5 s t" for n t
    by (auto elim: linkStep_mono)
  have "wp (reject kind gen r) ?Q ?E ?A s" for kind gen r
    by (rule wp_weaken [OF reject_step [OF inv]]) (auto elim: more)
  moreover have "wp (peer_connect kind gen payload) ?Q ?E ?A s" for kind gen payload
    by (rule wp_weaken [OF peer_connect_step [OF assms]]) (auto elim: more)
  moreover have "wp (ctl_disconnect r) ?Q ?E ?A s" for r
    by (rule wp_weaken [OF ctl_disconnect_step [OF inv]]) (auto elim: more)
  moreover have "connection s \<noteq> 0 \<Longrightarrow> wp (peer_encrypt kind gen payload) ?Q ?E ?A s" for kind gen payload
    by (rule wp_weaken [OF peer_encrypt_step [OF inv]]) (auto elim: more)
  moreover have "connection s \<noteq> 0 \<Longrightarrow> length payload \<le> MaxL2capBytes \<Longrightarrow>
      wp (ctl_receiveL2cap payload) ?Q ?E ?A s" for payload
    by (rule wp_weaken [OF ctl_receiveL2cap_step [OF inv]]) auto
  ultimately show ?thesis
    unfolding ctl_peerMessage_def wp_inspect Let_def wp_if by auto
qed

lemma peer_receive_step:
  assumes "ctl_inv s"
  shows "wp peer_receive (\<lambda>pkt t. linkStep False 0 s t \<and>
      (pkt \<noteq> [] \<longrightarrow> budget (ctl_peer t) < budget (ctl_peer s))) (\<lambda>_ _. False) (\<lambda>_ _. False) s"
proof -
  let ?k = "snd (sock_receive (ctl_peer s))"
  note took = sock_receive_took [of "ctl_peer s"]
  have "linkStep False 0 s (s\<lparr>ctl_peer := ?k\<rparr>)"
    by (rule linkStepI [where es = "[]"])
      (use assms took budget_took [OF took] socket_in_took in \<open>auto simp: ctl_inv_defs took_def\<close>)
  then show ?thesis using budget_took(2) [OF took]
    by (simp add: wp_def peer_receive_def split: prod.split) (metis fst_conv snd_conv)
qed

lemma pollPeer_loop_fuel:
  assumes "ctl_inv s" and "opened (ctl_peer s)" and "budget (ctl_peer s) < fuel"
  shows "wp (pollPeer_loop fuel) (\<lambda>_. linkStep False (28 - length (ctl_events s)) s) (\<lambda>_ _. False)
    (\<lambda>_ _. False) s"
  using assms
proof (induction fuel arbitrary: s)
  case (Suc fuel)
  show ?case
  proof (cases "24 \<le> length (ctl_events s)")
    case True
    then show ?thesis using Suc.prems by (simp add: wp_rules linkStep_refl)
  next
    case False
    have next_round: "wp (pollPeer_loop fuel) (\<lambda>_. linkStep False (28 - length (ctl_events s)) s)
        (\<lambda>_ _. False) (\<lambda>_ _. False) u"
      if t: "linkStep False 0 s t" "budget (ctl_peer t) < budget (ctl_peer s)" and u: "linkStep False 5 t u" for t u
    proof -
      have su: "linkStep False 5 s u" using linkStep_trans [OF t(1) u] by simp
      note len = ctlStep_length [OF linkStep_ctlStep [OF su]]
      have exact: "linkStep False (length (ctl_events u) - length (ctl_events s)) s u"
        using len(1) su by (simp add: linkStep_def)
      have "wp (pollPeer_loop fuel) (\<lambda>_. linkStep False (28 - length (ctl_events u)) u)
          (\<lambda>_ _. False) (\<lambda>_ _. False) u"
        by (rule Suc.IH) (use Suc.prems t u in \<open>auto simp: linkStep_def ctlStep_def\<close>)
      moreover have "length (ctl_events u) - length (ctl_events s) + (28 - length (ctl_events u)) =
          28 - length (ctl_events s)" using len(2,3) False by simp
      ultimately show ?thesis by (elim wp_weaken) (auto dest: linkStep_trans [OF exact])
    qed
    have handled: "wp (ctl_peerMessage pkt) (\<lambda>_. wp (pollPeer_loop fuel)
        (\<lambda>_. linkStep False (28 - length (ctl_events s)) s) (\<lambda>_ _. False) (\<lambda>_ _. False)) (\<lambda>_ _. False) (\<lambda>_ _. False) t"
      if t: "linkStep False 0 s t" "budget (ctl_peer t) < budget (ctl_peer s)" for pkt t
    proof -
      have few: "length (ctl_events t) < 24" using ctlStep_length(3) [OF linkStep_ctlStep [OF t(1)]] False by simp
      have "ctl_inv t" "opened (ctl_peer t)" using t Suc.prems by (auto simp: linkStep_def ctlStep_def)
      then show ?thesis
        by (rule wp_weaken [OF ctl_peerMessage_step]) (use few next_round [OF t] in auto)
    qed
    have "linkStep False 0 s t \<Longrightarrow> linkStep False (28 - length (ctl_events s)) s t" for t
      by (auto elim: linkStep_mono)
    then show ?thesis using False
      unfolding pollPeer_loop.simps wp_inspect wp_if wp_bind
      by (simp, intro wp_weaken [OF peer_receive_step [OF Suc.prems(1)]])
        (use handled in \<open>auto simp: wp_rules\<close>)
  qed
qed simp

text \<open>Polling never ends the process while the queue has room, whatever the peer sends.\<close>

definition freshLink :: "guest \<Rightarrow> bool" where
  "freshLink g \<longleftrightarrow> k_sent (env_kernel (g_open g)) = []"

lemma pollPeer_step:
  assumes inv: "ctl_inv s" and "freshLink g"
  shows "wp (pollPeer g) (\<lambda>_. ctlStep False (29 - length (ctl_events s) + 1) s) (\<lambda>_ _. False)
    (\<lambda>_ _. 64 \<le> length (ctl_events s)) s"
proof -
  let ?k = "sock_flush (sock_open (g_open g) (ctl_peer s))"
  define t where "t = s\<lparr>ctl_peer := ?k\<rparr>"
  have "socket_in (session s) (sock_open (g_open g) (ctl_peer s))"
  proof (cases "opened (ctl_peer s)")
    case True
    then show ?thesis using inv by (simp add: sock_open_same ctl_inv_def)
  next
    case False
    then have "connection s = 0" using inv by (auto simp: ctl_inv_defs)
    then show ?thesis using inv assms(2) False socket_in_fresh by (simp add: ctl_inv_def freshLink_def)
  qed
  then have "socket_in (session s) ?k" by (rule socket_in_flush)
  then have st: "ctlStep False 0 s t"
    by (intro ctlStepI [where es = "[]"]) (use inv in \<open>simp_all add: t_def ctl_inv_defs sock_open_opened\<close>)
  have t: "ctl_inv t" "opened (ctl_peer t)" "ctl_events t = ctl_events s"
    using ctlStep_inv [OF st] by (simp_all add: t_def sock_open_opened)
  have "budget (ctl_peer t) < length (k_recvs (sock_kernel (ctl_peer t))) + 2" by (simp add: budget_def)
  note loop = pollPeer_loop_fuel [OF t(1,2) this]
  have last: "wp (whenever (connection u \<noteq> 0 \<and> \<not> fd (ctl_peer u)) (ctl_disconnect 8))
      (\<lambda>_. ctlStep False (29 - length (ctl_events s) + 1) s) (\<lambda>_ _. False) (\<lambda>_ _. 64 \<le> length (ctl_events s)) u"
    if u: "linkStep False (28 - length (ctl_events t)) t u" for u
  proof -
    have su: "ctlStep False (28 - length (ctl_events s)) s u"
      using ctlStep_trans [OF st linkStep_ctlStep [OF u]] t(3) by simp
    have "length (ctl_events u) \<le> max 28 (length (ctl_events s))" using ctlStep_length(3) [OF su] by simp
    moreover have "ctlStep False (29 - length (ctl_events s) + 1) s v" if "linkStep False 1 u v" for v
      using ctlStep_trans [OF su linkStep_ctlStep [OF that]] by (auto elim: ctlStep_mono)
    moreover have "ctlStep False (29 - length (ctl_events s) + 1) s u"
      using su by (auto elim: ctlStep_mono)
    ultimately show ?thesis
      unfolding wp_whenever
      by (auto intro!: wp_weaken [OF ctl_disconnect_step [OF linkStep_inv [OF u]]])
  qed
  show ?thesis
    unfolding pollPeer_def wp_block_Cons wp_block_Nil wp_modify wp_inspect t_def [symmetric]
    by (rule wp_weaken [OF loop]) (use last in auto)
qed

end
