(* ===== verification/ResolvingList.thy ===== *)
theory ResolvingList
  imports ControllerInvariant
begin

text \<open>
  The resolving list of the controller as a finite map. The code keeps the 39-byte entries in a
  vector and the privacy modes in an array beside it, and shifts the modes when an entry goes; the
  contract is a map from the seven identity bytes to the entry and its mode, with room for four.
\<close>

section \<open>Positions\<close>

lemma findIdentity_None: "findIdentity identity items = None \<longleftrightarrow> identity \<notin> set (map (take 7) items)"
  by (induction items) auto

lemma findIdentity_Some:
  "findIdentity identity items = Some i \<Longrightarrow> i < length items \<and> take 7 (items ! i) = identity"
  by (induction items arbitrary: i) (auto split: if_splits)

lemma findIdentity_at:
  "distinct (map (take 7) items) \<Longrightarrow> i < length items \<Longrightarrow> findIdentity (take 7 (items ! i)) items = Some i"
proof (induction items arbitrary: i)
  case (Cons item items)
  show ?case
  proof (cases i)
    case (Suc j)
    then have "items ! j \<in> set items" "j < length items" using Cons.prems(2) by auto
    then have "take 7 item \<noteq> take 7 (items ! j)" using Cons.prems(1) by force
    then show ?thesis using Cons Suc by simp
  qed simp
qed simp

lemma findIdentity_append:
  "findIdentity identity (items @ [p]) = (case findIdentity identity items of Some i \<Rightarrow> Some i
     | None \<Rightarrow> if take 7 p = identity then Some (length items) else None)"
  by (induction items) (auto split: option.splits)

text \<open>Leaving out one position.\<close>

definition without :: "nat \<Rightarrow> 'a list \<Rightarrow> 'a list" where
  "without i xs = take i xs @ drop (Suc i) xs"

lemma length_without: "i < length xs \<Longrightarrow> length (without i xs) = length xs - 1"
  by (simp add: without_def)

lemma set_without: "set (without i xs) \<subseteq> set xs"
  unfolding without_def by (auto dest: in_set_takeD in_set_dropD)

lemma map_without: "map f (without i xs) = without i (map f xs)"
  by (simp add: without_def take_map drop_map)

lemma distinct_without: "distinct xs \<Longrightarrow> distinct (without i xs)"
  unfolding without_def distinct_append using set_take_disj_set_drop_if_distinct [of xs i "Suc i"] by simp

lemma nth_without: "i < length xs \<Longrightarrow> j < length xs - 1 \<Longrightarrow>
    without i xs ! j = (if j < i then xs ! j else xs ! Suc j)"
  by (auto simp: without_def nth_append min_def)

lemma shift_nth:
  "k < length m \<Longrightarrow> i \<le> k \<Longrightarrow>
    length (fold (\<lambda>i m. m[i := m ! (i + 1)]) [i..<k] m) = length m \<and>
    (\<forall>j < length m. fold (\<lambda>i m. m[i := m ! (i + 1)]) [i..<k] m ! j =
      (if i \<le> j \<and> j < k then m ! (j + 1) else m ! j))"
proof (induction k)
  case (Suc k)
  show ?case
  proof (cases "i = Suc k")
    case False
    then have "i \<le> k" using Suc.prems by simp
    moreover have "k < length m" using Suc.prems by simp
    ultimately show ?thesis using Suc by (auto simp: nth_list_update)
  next
    case True
    then show ?thesis by auto
  qed
qed simp

lemma dropMode_nth:
  assumes "i < n" and "n \<le> length m"
  shows "length (dropMode i n m) = length m"
    and "j < length m \<Longrightarrow> dropMode i n m ! j = (if j < i then m ! j else if j + 1 < n then m ! (j + 1)
      else if j + 1 = n then 0 else m ! j)"
  using shift_nth [of "n - 1" m i] assms by (auto simp: dropMode_def nth_list_update)

section \<open>The invariant of the list\<close>

lemma resolving_empty: "resolving_ok [] (zeroBytes 4)"
  by (simp add: resolving_ok_def zeroBytes_def ResolvingCapacity_def)

lemma resolving_add:
  "resolving_ok items modes \<Longrightarrow> findIdentity (take 7 p) items = None \<Longrightarrow> length items \<noteq> ResolvingCapacity \<Longrightarrow>
    length p = 39 \<Longrightarrow> resolving_ok (items @ [p]) modes"
  by (auto simp: resolving_ok_def findIdentity_None)

lemma resolving_remove:
  assumes "resolving_ok items modes" and "i < length items"
  shows "resolving_ok (without i items) (dropMode i (length items) modes)"
proof -
  have len: "length items \<le> length modes" using assms(1) by (simp add: resolving_ok_def)
  note modes = dropMode_nth [OF assms(2) len]
  show ?thesis
    using assms set_without [of i items] modes
    by (auto simp: resolving_ok_def length_without distinct_without map_without)
qed

lemma resolving_mode:
  "resolving_ok items modes \<Longrightarrow> i < length items \<Longrightarrow> resolving_ok items (modes[i := m])"
  by (auto simp: resolving_ok_def nth_list_update)

section \<open>The abstract map\<close>

definition resolvingMap :: "bytes list \<Rightarrow> bytes \<Rightarrow> bytes \<Rightarrow> (bytes \<times> byte) option" where
  "resolvingMap items modes identity =
     map_option (\<lambda>i. (items ! i, modes ! i)) (findIdentity identity items)"

text \<open>What the commands promise: status code and new map; \<open>locked\<close> while private advertising runs.\<close>

definition resolvingCommand :: "u16 \<Rightarrow> bytes \<Rightarrow> bool \<Rightarrow> (bytes \<Rightarrow> (bytes \<times> byte) option)
    \<Rightarrow> byte \<times> (bytes \<Rightarrow> (bytes \<times> byte) option)" where
  "resolvingCommand opcode p locked m =
     (if opcode = 0x204E then
        (if 1 < p ! 0 \<or> 1 < p ! 7 then (0x12, m)
         else case m (take 7 p) of None \<Rightarrow> (2, m) | Some (item, _) \<Rightarrow> (0, m(take 7 p \<mapsto> (item, p ! 7))))
      else if locked then (0x0C, m)
      else if opcode = 0x2027 then
        (if 1 < p ! 0 \<or> m (take 7 p) \<noteq> None then (0x12, m)
         else if card (dom m) = ResolvingCapacity then (7, m)
         else (0, m(take 7 p \<mapsto> (p, 0))))
      else if opcode = 0x2028 then (if m p = None then (2, m) else (0, m(p := None)))
      else (0, \<lambda>_. None))"

lemma resolvingMap_None: "resolvingMap items modes identity = None \<longleftrightarrow> findIdentity identity items = None"
  by (simp add: resolvingMap_def)

lemma dom_resolvingMap: "dom (resolvingMap items modes) = set (map (take 7) items)"
  by (auto simp: dom_def resolvingMap_None findIdentity_None)

lemma card_resolvingMap: "resolving_ok items modes \<Longrightarrow> card (dom (resolvingMap items modes)) = length items"
  unfolding dom_resolvingMap resolving_ok_def using distinct_card [of "map (take 7) items"] by simp

lemma resolvingMap_add:
  assumes "resolving_ok items modes" and "findIdentity (take 7 p) items = None" and "length items \<noteq> ResolvingCapacity"
  shows "resolvingMap (items @ [p]) modes = (resolvingMap items modes)(take 7 p \<mapsto> (p, 0))"
proof
  fix identity
  have "modes ! length items = 0" using assms by (auto simp: resolving_ok_def)
  moreover have "i < length items" if "findIdentity identity items = Some i" for i
    using findIdentity_Some [OF that] by simp
  ultimately show "resolvingMap (items @ [p]) modes identity =
      ((resolvingMap items modes)(take 7 p \<mapsto> (p, 0))) identity"
    using assms(2) by (auto simp: resolvingMap_def findIdentity_append nth_append split: option.splits)
qed

lemma resolvingMap_mode:
  assumes "resolving_ok items modes" and "findIdentity identity items = Some i"
  shows "resolvingMap items (modes[i := v]) = (resolvingMap items modes)(identity \<mapsto> (items ! i, v))"
proof
  fix other
  have i: "i < length items" "length items \<le> length modes"
    using findIdentity_Some [OF assms(2)] assms(1) by (simp_all add: resolving_ok_def)
  have "j \<noteq> i" if "findIdentity other items = Some j" "other \<noteq> identity" for j
    using findIdentity_Some [OF that(1)] findIdentity_Some [OF assms(2)] that(2) by auto
  then show "resolvingMap items (modes[i := v]) other =
      ((resolvingMap items modes)(identity \<mapsto> (items ! i, v))) other"
    using i assms(2) by (cases "findIdentity other items") (auto simp: resolvingMap_def)
qed

lemma findIdentity_without:
  assumes "distinct (map (take 7) items)" and "i < length items"
  shows "findIdentity identity (without i items) =
    (case findIdentity identity items of None \<Rightarrow> None
     | Some j \<Rightarrow> if j = i then None else Some (if j < i then j else j - 1))"
proof (cases "findIdentity identity items")
  case None
  then have "findIdentity identity (without i items) = None"
    using set_without [of i items] unfolding findIdentity_None by auto
  then show ?thesis using None by simp
next
  case (Some j)
  note j = findIdentity_Some [OF Some]
  have dist: "distinct (map (take 7) (without i items))"
    unfolding map_without by (rule distinct_without [OF assms(1)])
  note len = length_without [OF assms(2)]
  show ?thesis
  proof (cases "j = i")
    case True
    have "identity \<noteq> take 7 (without i items ! k)" if "k < length items - 1" for k
    proof
      assume eq: "identity = take 7 (without i items ! k)"
      define k' where "k' = (if k < i then k else Suc k)"
      have k': "k' < length items" "k' \<noteq> i" using that by (auto simp: k'_def)
      have "identity = take 7 (items ! k')"
        using eq nth_without [OF assms(2) that] by (simp add: k'_def)
      then have "take 7 (items ! k') = take 7 (items ! i)" using j True by simp
      then show False using k' assms nth_eq_iff_index_eq [OF assms(1), of k' i] by simp
    qed
    have "findIdentity identity (without i items) = None"
      unfolding findIdentity_None
    proof (intro notI)
      assume "identity \<in> set (map (take 7) (without i items))"
      then obtain k where "k < length items - 1" "identity = take 7 (without i items ! k)"
        by (auto simp: in_set_conv_nth len)
      then show False
        using \<open>\<And>k. k < length items - 1 \<Longrightarrow> identity \<noteq> take 7 (without i items ! k)\<close> by blast
    qed
    then show ?thesis using Some True by simp
  next
    case False
    define k where "k = (if j < i then j else j - 1)"
    have k: "k < length (without i items)" using j False len assms(2) by (auto simp: k_def)
    have "without i items ! k = items ! j"
      using nth_without [OF assms(2), of k] k len False by (auto simp: k_def)
    then have "take 7 (without i items ! k) = identity" using j by simp
    then show ?thesis using findIdentity_at [OF dist k] Some False by (simp add: k_def)
  qed
qed

lemma resolvingMap_remove:
  assumes "resolving_ok items modes" and "findIdentity identity items = Some i"
  shows "resolvingMap (without i items) (dropMode i (length items) modes) =
    (resolvingMap items modes)(identity := None)"
proof
  fix other
  have i: "i < length items" "length items \<le> length modes" "distinct (map (take 7) items)"
    using findIdentity_Some [OF assms(2)] assms(1) by (simp_all add: resolving_ok_def)
  show "resolvingMap (without i items) (dropMode i (length items) modes) other =
      ((resolvingMap items modes)(identity := None)) other"
  proof (cases "findIdentity other items")
    case None
    then show ?thesis using assms(2) by (auto simp: resolvingMap_def findIdentity_without [OF i(3,1)])
  next
    case (Some j)
    note j = findIdentity_Some [OF Some]
    show ?thesis
    proof (cases "j = i")
      case True
      then have "other = identity" using j findIdentity_Some [OF assms(2)] by simp
      then show ?thesis using Some True by (simp add: resolvingMap_def findIdentity_without [OF i(3,1)])
    next
      case False
      define k where "k = (if j < i then j else j - 1)"
      have "other \<noteq> identity" using Some assms(2) False by auto
      moreover have "without i items ! k = items ! j" "dropMode i (length items) modes ! k = modes ! j"
        using nth_without [OF i(1), of k] dropMode_nth(2) [OF i(1,2), of k] j False i by (auto simp: k_def)
      ultimately show ?thesis
        using Some False by (simp add: resolvingMap_def findIdentity_without [OF i(3,1)] k_def)
    qed
  qed
qed

section \<open>Refinement\<close>

text \<open>C11: the resolving list behaves as the map of identities to entries and privacy modes the
  specification of the controller describes: every command that changes it returns the status code
  of the abstract command and leaves a list and modes that stand for the map the abstract command
  gives, and the representation stays well-formed.\<close>

theorem resolving_list_refines_map:
  assumes "resolving_ok (resolvingList s) (privacyModes s)"
    and "(opcode, length p) \<in> {(0x2027, 39), (0x2028, 7), (0x2029, 0), (0x204E, 8)}"
  shows "\<exists>code t. controllerOperation g opcode p s = Normal [code] t \<and>
    resolving_ok (resolvingList t) (privacyModes t) \<and>
    (code, resolvingMap (resolvingList t) (privacyModes t)) =
      resolvingCommand opcode p (resolutionEnabled s \<and> ctl_advertising s)
        (resolvingMap (resolvingList s) (privacyModes s))"
proof -
  let ?items = "resolvingList s" and ?modes = "privacyModes s"
  let ?post = "\<lambda>reply t. \<exists>code. reply = [code] \<and> resolving_ok (resolvingList t) (privacyModes t) \<and>
    (code, resolvingMap (resolvingList t) (privacyModes t)) =
      resolvingCommand opcode p (resolutionEnabled s \<and> ctl_advertising s) (resolvingMap ?items ?modes)"
  have entries: "resolvingMap ?items ?modes identity = Some (?items ! i, ?modes ! i)"
    if "findIdentity identity ?items = Some i" for identity i
    using that by (simp add: resolvingMap_def)
  have "wp (controllerOperation g opcode p) ?post (\<lambda>_ _. False) (\<lambda>_ _. False) s"
  proof -
    consider (add) "opcode = 0x2027" "length p = 39" | (remove) "opcode = 0x2028" "length p = 7"
      | (clear) "opcode = 0x2029" | (mode) "opcode = 0x204E" "length p = 8"
      using assms(2) by auto
    then show ?thesis
    proof cases
      case add
      then show ?thesis
        using assms(1) resolving_add [OF assms(1), of p] resolvingMap_add [OF assms(1), of p]
          card_resolvingMap [OF assms(1)]
        by (auto simp: controllerOperation_def addToResolvingList_def wp_rules resolvingCommand_def resolvingMap_None)
    next
      case remove
      then show ?thesis
        using assms(1) resolving_remove [OF assms(1)] resolvingMap_remove [OF assms(1)]
        by (auto simp: controllerOperation_def removeFromResolvingList_def wp_rules resolvingCommand_def
            resolvingMap_None without_def dest: findIdentity_Some split: option.splits)
    next
      case clear
      then show ?thesis
        using assms(1) resolving_empty
        by (auto simp: controllerOperation_def clearResolvingList_def wp_rules resolvingCommand_def
            resolvingMap_def)
    next
      case mode
      then show ?thesis
        using assms(1) resolving_mode [OF assms(1)] resolvingMap_mode [OF assms(1)] entries
          resolvingMap_None [of ?items ?modes "take 7 p"]
        by (auto simp: controllerOperation_def setPrivacyMode_def wp_rules resolvingCommand_def
            dest: findIdentity_Some split: option.splits)
    qed
  qed
  then show ?thesis by (cases "controllerOperation g opcode p s") (auto simp: wp_def)
qed

text \<open>The second of two entries is removed.\<close>

theorem resolving_list_refines_map_witness:
  "\<forall>g. \<exists>code t. controllerOperation g 0x2028 [1, 2, 3, 4, 5, 6, 7]
      ((new_controller new_socket 0 0 [])\<lparr>resolvingList := [replicate 39 9, [1, 2, 3, 4, 5, 6, 7] @ replicate 32 8]\<rparr>)
        = Normal [code] t \<and> code = 0 \<and>
    resolvingMap (resolvingList t) (privacyModes t) [1, 2, 3, 4, 5, 6, 7] = None \<and>
    resolvingMap (resolvingList t) (privacyModes t) (replicate 7 9) = Some (replicate 39 9, 0)"
proof
  fix g
  let ?s = "(new_controller new_socket 0 0 [])\<lparr>resolvingList := [replicate 39 9, [1, 2, 3, 4, 5, 6, 7] @ replicate 32 8]\<rparr>"
  have modes: "privacyModes ?s = zeroBytes 4" "zeroBytes 4 = [0, 0, 0, 0]"
    by (simp_all add: new_controller_def zeroBytes_def numeral_eq_Suc)
  have seven: "replicate 7 (9 :: byte) = [9, 9, 9, 9, 9, 9, 9]" by (simp add: numeral_eq_Suc)
  have items: "resolving_ok (resolvingList ?s) (privacyModes ?s)"
    unfolding modes by (auto simp: resolving_ok_def ResolvingCapacity_def seven nth_Cons')
  obtain code t where ct: "controllerOperation g 0x2028 [1, 2, 3, 4, 5, 6, 7] ?s = Normal [code] t"
      "(code, resolvingMap (resolvingList t) (privacyModes t)) =
        resolvingCommand 0x2028 [1, 2, 3, 4, 5, 6, 7] (resolutionEnabled ?s \<and> ctl_advertising ?s)
          (resolvingMap (resolvingList ?s) (privacyModes ?s))"
    using resolving_list_refines_map [OF items, of 8232 "[1, 2, 3, 4, 5, 6, 7]" g] by auto
  have "resolvingMap (resolvingList ?s) (privacyModes ?s) [1, 2, 3, 4, 5, 6, 7] =
        Some ([1, 2, 3, 4, 5, 6, 7] @ replicate 32 8, 0)"
      "resolvingMap (resolvingList ?s) (privacyModes ?s) (replicate 7 9) = Some (replicate 39 9, 0)"
    unfolding modes by (simp_all add: resolvingMap_def seven)
  moreover have "\<not> resolutionEnabled ?s" by (simp add: new_controller_def)
  ultimately show "\<exists>code t. controllerOperation g 0x2028 [1, 2, 3, 4, 5, 6, 7] ?s = Normal [code] t \<and> code = 0 \<and>
      resolvingMap (resolvingList t) (privacyModes t) [1, 2, 3, 4, 5, 6, 7] = None \<and>
      resolvingMap (resolvingList t) (privacyModes t) (replicate 7 9) = Some (replicate 39 9, 0)"
    using ct seven by (intro exI [of _ code] exI [of _ t]) (auto simp: resolvingCommand_def)
qed

end
