(* ===== verification/ControllerCommands.thy ===== *)
theory ControllerCommands
  imports ResolvingList
begin

text \<open>
  What the packets of the guest do to the controller: outgoing ACL data, every HCI command and the
  publication of the GATT database, in terms of \<open>ctlStep\<close>. A command keeps the invariant, appends
  no completion event of its own, gives between one and 65 return parameters, and only the
  long-term key reply with the pending key switches encryption on.
\<close>

unbundle bit_operations_syntax

section \<open>ACL data\<close>

lemma assembleAcl_step:
  assumes "ctl_inv s" and "connection s \<noteq> 0"
  shows "wp (assembleAcl payload) (\<lambda>_. ctlStep False 0 s) (\<lambda>_ _. False) (\<lambda>_ _. True) s"
proof -
  let ?asm = "aclAssembly s @ payload"
  have sent: "ctlStep False 0 s (s\<lparr>ctl_peer := sock_sent Data (ctl_generation s) ?asm (ctl_peer s),
      aclAssembly := [], completedAcl := c, aclSent := n\<rparr>)"
    if "length ?asm \<le> 1024" "c \<le> 12" for c n
  proof -
    have "socket_in (session s) (sock_sent Data (ctl_generation s) ?asm (ctl_peer s))"
      using assms that by (intro socket_in_sent [of "session s"]) (simp_all add: ctl_inv_def session_step.simps)
    then show ?thesis
      by (intro ctlStepI [where es = "[]"]) (use assms that in \<open>simp_all add: ctl_inv_defs assembly_ok_def\<close>)
  qed
  have kept: "ctlStep False 0 s (s\<lparr>aclAssembly := ?asm, completedAcl := c, aclSent := n\<rparr>)"
    if "assembly_ok ?asm" "c \<le> 12" for c n
    by (intro ctlStepI [where es = "[]"]) (use assms that in \<open>simp_all add: ctl_inv_defs\<close>)
  define l where "l = unat (leFields ?asm 0)"
  have l: "unat (le16 (?asm ! 0) (?asm ! Suc 0)) = l" by (simp add: l_def leFields_def)
  show ?thesis
  proof (cases "4 \<le> length ?asm \<and> l + 4 \<le> MaxL2capBytes \<and> length ?asm \<le> l + 4 \<and> completedAcl s + 1 \<le> 12")
    case False
    then show ?thesis
      by (simp add: assembleAcl_def wp_rules Let_def l del: length_append) (auto simp: wp_rules not_less MaxL2capBytes_def)
  next
    case True
    then show ?thesis
    proof (cases "length ?asm = l + 4")
      case full: True
      with True have "length ?asm \<le> 1024" by (simp add: MaxL2capBytes_def)
      with full True sent show ?thesis
        by (simp add: assembleAcl_def wp_rules Let_def l del: length_append)
    next
      case False
      with True have "assembly_ok ?asm" by (simp add: assembly_ok_def l_def)
      with False True kept show ?thesis
        by (simp add: assembleAcl_def wp_rules Let_def l del: length_append)
    qed
  qed
qed

lemma sendAcl_step:
  assumes "ctl_inv s"
  shows "wp (sendAcl pkt) (\<lambda>_. ctlStep False 0 s) (\<lambda>_ _. False) (\<lambda>_ _. True) s"
proof (cases "connection s = 0 \<or> le16 (pkt ! 0) (pkt ! 1) AND 0x0FFF \<noteq> connection s")
  case True
  then show ?thesis using assms by (simp add: sendAcl_def wp_rules Let_def ctlStep_refl)
next
  case False
  let ?t = "s\<lparr>aclFragments := aclFragments s + 1\<rparr>"
  have st: "ctlStep False 0 s ?t"
    by (intro ctlStepI [where es = "[]"]) (use assms in \<open>simp_all add: ctl_inv_defs\<close>)
  have "wp (assembleAcl (drop 4 pkt)) (\<lambda>_. ctlStep False 0 s) (\<lambda>_ _. False) (\<lambda>_ _. True) ?t"
    by (rule wp_weaken [OF assembleAcl_step [OF ctlStep_inv [OF st]]])
      (use False ctlStep_trans [OF st] in auto)
  moreover have "wp (assembleAcl (drop 4 pkt)) (\<lambda>_. ctlStep False 0 s) (\<lambda>_ _. False) (\<lambda>_ _. True) s"
    by (rule assembleAcl_step [OF assms]) (use False in simp)
  ultimately show ?thesis
    using False by (simp add: sendAcl_def wp_rules Let_def)
qed

section \<open>Commands on the connection\<close>

text \<open>What a command may do besides giving its reply.\<close>

definition commandStep :: "bool \<Rightarrow> ble_controller \<Rightarrow> bytes \<Rightarrow> ble_controller \<Rightarrow> bool" where
  "commandStep b s reply t \<longleftrightarrow> ctlStep b 1 s t \<and> 1 \<le> length reply \<and> length reply \<le> 65"

definition full :: "ble_controller \<Rightarrow> bool" where
  "full s \<longleftrightarrow> 64 \<le> length (ctl_events s)"

lemma commandStep_ret:
  "ctl_inv s \<Longrightarrow> 1 \<le> length r \<Longrightarrow> length r \<le> 65 \<Longrightarrow>
    wp (ret r) (commandStep b s) (\<lambda>_ _. False) (\<lambda>_ _. full s) s"
  by (simp add: wp_rules commandStep_def ctlStep_refl)

lemma commandStep_giving:
  assumes "wp m (\<lambda>_. ctlStep c n s) (\<lambda>_ _. False) (\<lambda>_ _. full s) s"
    and "n \<le> 1" and "c \<Longrightarrow> b" and "1 \<le> length r" and "length r \<le> 65"
  shows "wp (giving m r) (commandStep b s) (\<lambda>_ _. False) (\<lambda>_ _. full s) s"
  unfolding wp_giving by (rule wp_weaken [OF assms(1)]) (use assms in \<open>auto simp: commandStep_def elim: ctlStep_mono\<close>)

lemma commandStep_modify:
  assumes "ctl_inv s" and "ctl_inv (f s)" and "ctl_events (f s) = ctl_events s"
    and "ctl_encrypted (f s) = ctl_encrypted s" and "commandPending (f s) = commandPending s"
    and "1 \<le> length r" and "length r \<le> 65"
  shows "wp (giving (modify f) r) (commandStep b s) (\<lambda>_ _. False) (\<lambda>_ _. full s) s"
  using assms by (simp add: wp_rules commandStep_def ctlStep_def)

text \<open>An event after a change of members.\<close>

lemma queueLeEvent_step:
  assumes "ctl_inv s" and "length p \<le> 67"
  shows "wp (queueLeEvent code p) (\<lambda>_. ctlStep False 1 s) (\<lambda>_ _. False) (\<lambda>_ _. full s) s"
proof -
  have "ctlStep False 1 s (s\<lparr>ctl_events := ctl_events s @ newLeEvent s code p\<rparr>)"
    by (rule ctlStepI [where es = "newLeEvent s code p"]) (use assms in \<open>simp_all add: ctl_inv_defs\<close>)
  then show ?thesis using assms(2) by (simp add: wp_rules full_def)
qed

lemma queueEvent_step:
  assumes "ctl_inv s" and "length p \<le> 68" and "code \<noteq> 0x0E" and "code \<noteq> 0x0F"
  shows "wp (queueEvent code p) (\<lambda>_. ctlStep False 1 s) (\<lambda>_ _. False) (\<lambda>_ _. full s) s"
proof -
  have "ctlStep False 1 s (s\<lparr>ctl_events := ctl_events s @ newEvent s code p\<rparr>)"
    by (rule ctlStepI [where es = "newEvent s code p"]) (use assms in \<open>simp_all add: ctl_inv_defs\<close>)
  then show ?thesis using assms(2) by (simp add: wp_rules full_def)
qed

lemma ctlStep_then:
  assumes "ctlStep False 0 s t" and "wp m (\<lambda>_. ctlStep b n t) (\<lambda>_ _. False) (\<lambda>_ _. full t) t"
    and "ctl_events t = ctl_events s"
  shows "wp m (\<lambda>_. ctlStep b n s) (\<lambda>_ _. False) (\<lambda>_ _. full s) t"
  by (rule wp_weaken [OF assms(2)]) (use assms(1,3) ctlStep_trans [OF assms(1), of b n] in \<open>auto simp: full_def\<close>)

lemma timeout_mono:
  assumes "minimum \<le> maximum" "maximum \<le> 3200" "latency' \<le> 499" "\<not> timeoutTooShort maximum latency' timeout"
  shows "\<not> timeoutTooShort minimum latency' timeout"
proof -
  let ?w = "\<lambda>x. (ucast x :: u32)"
  have small: "unat (?w latency' + 1) = unat latency' + 1" "unat latency' \<le> 499"
    using assms(3) by (simp_all add: word_le_nat_alt unat_word_ariths unsigned_ucast_eq take_bit_nat_eq_self)
  have prod: "unat ((?w latency' + 1) * ?w x) = (unat latency' + 1) * unat x" if "x \<le> 3200" for x :: u16
  proof -
    have x: "unat x \<le> 3200" using that by (simp add: word_le_nat_alt)
    then have "(unat latency' + 1) * unat x \<le> 500 * 3200" using small(2) by (intro mult_le_mono) auto
    then show ?thesis using x small(1)
      by (simp add: unat_word_ariths(2) unsigned_ucast_eq take_bit_nat_eq_self)
  qed
  have "unat minimum \<le> unat maximum" using assms(1) by (simp add: word_le_nat_alt)
  then have "(unat latency' + 1) * unat minimum \<le> (unat latency' + 1) * unat maximum" by (rule mult_le_mono2)
  then show ?thesis
    using assms prod [of maximum] prod [of minimum]
    by (auto simp: timeoutTooShort_def word_le_nat_alt)
qed

lemma connectionUpdate_step:
  assumes "ctl_inv s" and "length result = 3"
  shows "wp (connectionUpdate p result) (commandStep b s) (\<lambda>_ _. False) (\<lambda>_ _. full s) s"
proof -
  let ?min = "leFields p 2" and ?max = "leFields p 4" and ?l = "leFields p 6" and ?t = "leFields p 8"
  show ?thesis
  proof (cases "?min < 6 \<or> ?max < ?min \<or> 3200 < ?max \<or> 499 < ?l \<or> ?t < 10 \<or> 3200 < ?t \<or> timeoutTooShort ?max ?l ?t")
    case True
    then show ?thesis using commandStep_ret [OF assms(1)] by (simp add: connectionUpdate_def)
  next
    case False
    let ?s = "s\<lparr>interval := ?min, latency := ?l, supervisionTimeout := ?t\<rparr>"
    have "parameters_ok ?min ?l ?t" using False timeout_mono [of ?min ?max ?l ?t]
      by (auto simp: parameters_ok_def not_less)
    then have st: "ctlStep False 0 s ?s"
      by (intro ctlStepI [where es = "[]"]) (use assms in \<open>simp_all add: ctl_inv_defs\<close>)
    have "wp (queueLeEvent 3 (appendLe16 (appendLe16 (appendLe16 result ?min) ?l) ?t))
        (\<lambda>_. ctlStep False 1 s) (\<lambda>_ _. False) (\<lambda>_ _. full s) ?s"
      by (rule ctlStep_then [OF st queueLeEvent_step [OF ctlStep_inv [OF st]]]) (use assms(2) in simp_all)
    then have "wp (giving (block [modify (\<lambda>s. s\<lparr>interval := ?min, latency := ?l, supervisionTimeout := ?t\<rparr>),
        inspect (\<lambda>s. queueLeEvent 3 (appendLe16 (appendLe16 (appendLe16 result (interval s)) (latency s))
          (supervisionTimeout s)))]) result) (commandStep b s) (\<lambda>_ _. False) (\<lambda>_ _. full s) s"
      by (intro commandStep_giving [where c = False and n = 1])
        (use assms(2) in \<open>simp_all only: wp_block_Cons wp_block_Nil wp_modify wp_inspect ble_controller.simps, simp_all\<close>)
    then show ?thesis using False by (simp add: connectionUpdate_def)
  qed
qed

lemma setPhy_step:
  assumes "ctl_inv s" and "length result = 3"
  shows "wp (setPhy p result) (commandStep b s) (\<lambda>_ _. False) (\<lambda>_ _. full s) s"
proof -
  have event: "wp (queueLeEvent 12 (result @ [x, x])) (\<lambda>_. ctlStep False 1 s) (\<lambda>_ _. False) (\<lambda>_ _. full s)
      (s\<lparr>phy := x\<rparr>)" if "x = 1 \<or> x = 2" for x
  proof -
    have st: "ctlStep False 0 s (s\<lparr>phy := x\<rparr>)"
      by (intro ctlStepI [where es = "[]"]) (use assms that in \<open>simp_all add: ctl_inv_defs\<close>)
    show ?thesis
      by (rule ctlStep_then [OF st queueLeEvent_step [OF ctlStep_inv [OF st]]]) (use assms(2) in simp_all)
  qed
  have "wp (giving (block [modify (\<lambda>s. s\<lparr>phy := (if c then 2 else 1)\<rparr>),
      inspect (\<lambda>s. queueLeEvent 12 (result @ [phy s, phy s]))]) result) (commandStep b s) (\<lambda>_ _. False) (\<lambda>_ _. full s) s" for c
    by (rule commandStep_giving [where c = False and n = 1])
      (use event [of 1] event [of 2] assms(2) in \<open>simp_all only: wp_block_Cons wp_block_Nil wp_modify
        wp_inspect ble_controller.simps, simp_all\<close>)
  then show ?thesis using commandStep_ret [OF assms(1)] unfolding setPhy_def wp_if Let_def by simp
qed

lemma setDataLength_step:
  assumes "ctl_inv s" and "length result = 3"
  shows "wp (setDataLength p result) (commandStep b s) (\<lambda>_ _. False) (\<lambda>_ _. full s) s"
  unfolding setDataLength_def Let_def wp_if
  by (auto intro!: commandStep_ret commandStep_giving [OF queueLeEvent_step] assms simp: assms(2))

lemma keyDifference_zero:
  assumes "length other = length key"
  shows "keyDifference key other = 0 \<longleftrightarrow> key = other"
  using equalKey_iff [of key other] assms by (simp add: keyDifference_def equalKey_def)

text \<open>The key of a long-term key reply.\<close>

definition keyAccepted :: "u16 \<Rightarrow> bytes \<Rightarrow> ble_controller \<Rightarrow> bool" where
  "keyAccepted opcode p s \<longleftrightarrow> opcode = 0x201A \<and> length p = 18 \<and> connection s \<noteq> 0 \<and>
     leFields p 0 = connection s \<and> pendingKey s = Some (drop 2 p)"

lemma ltkReply_step:
  assumes "ctl_inv s" and "length result = 3" and "length p = 18" and "connection s \<noteq> 0"
    and "leFields p 0 = connection s"
  shows "wp (ltkReply p result) (commandStep (keyAccepted 0x201A p s) s) (\<lambda>_ _. False) (\<lambda>_ _. full s) s"
proof (cases "pendingKey s")
  case None
  then show ?thesis using commandStep_ret [OF assms(1)] assms(2) by (simp add: ltkReply_def wp_inspect)
next
  case (Some key)
  then have "length key = length (drop 2 p)" using assms(1,3) by (auto simp: ctl_inv_defs)
  then have "keyDifference key (drop 2 p) = 0 \<longleftrightarrow> key = drop 2 p" using keyDifference_zero by simp
  then have "wp (giving (finishEncryption (if keyDifference key (drop 2 p) = 0 then 0 else 5)) result)
      (commandStep (keyAccepted 0x201A p s) s) (\<lambda>_ _. False) (\<lambda>_ _. full s) s"
    by (intro commandStep_giving [where n = 1 and c = "(if keyDifference key (drop 2 p) = 0 then 0 else 5) = (0 :: byte)"]
        wp_weaken [OF finishEncryption_step [OF assms(1,4)]])
      (use assms Some in \<open>auto simp: keyAccepted_def full_def linkStep_def split: if_splits\<close>)
  then show ?thesis using Some by (simp add: ltkReply_def wp_inspect)
qed

lemma ltkNegativeReply_step:
  assumes "ctl_inv s" and "length result = 3" and "connection s \<noteq> 0"
  shows "wp (ltkNegativeReply result) (commandStep b s) (\<lambda>_ _. False) (\<lambda>_ _. full s) s"
proof -
  have "wp (finishEncryption 6) (\<lambda>_. ctlStep False 1 s) (\<lambda>_ _. False) (\<lambda>_ _. full s) s"
    by (rule wp_weaken [OF finishEncryption_step [OF assms(1,3)]]) (auto simp: linkStep_def full_def)
  then have "wp (giving (finishEncryption 6) result) (commandStep b s) (\<lambda>_ _. False) (\<lambda>_ _. full s) s"
    by (rule commandStep_giving) (use assms(2) in simp_all)
  then show ?thesis using commandStep_ret [OF assms(1)] assms(2)
    by (simp add: ltkNegativeReply_def wp_inspect)
qed

lemma connectionOperation_step:
  assumes inv: "ctl_inv s" and result: "length result = 3" and live: "connection s \<noteq> 0"
    and handle: "leFields p 0 = connection s" and len: "opcode = 0x201A \<Longrightarrow> length p = 18"
  shows "wp (connectionOperation opcode p result) (commandStep (keyAccepted opcode p s) s)
    (\<lambda>_ _. False) (\<lambda>_ _. full s) s"
proof -
  note plain = commandStep_ret [OF inv]
  have "wp (giving (ctl_disconnect r) result) (commandStep b s) (\<lambda>_ _. False) (\<lambda>_ _. full s) s" for r b
    by (rule commandStep_giving [where c = False and n = 1])
      (use result wp_weaken [OF ctl_disconnect_step [OF inv]] in \<open>auto simp: linkStep_def full_def\<close>)
  moreover have "wp (giving (queueEvent 12 (result @ [9, 0xFF, 0xFF, 0, 0])) result)
      (commandStep b s) (\<lambda>_ _. False) (\<lambda>_ _. full s) s" for b
    by (rule commandStep_giving [OF queueEvent_step [OF inv]]) (use result in simp_all)
  moreover have "wp (giving (queueLeEvent 4 (result @ [0x63, 0x01, 0, 0, 0, 0, 0, 0])) result)
      (commandStep b s) (\<lambda>_ _. False) (\<lambda>_ _. full s) s" for b
    by (rule commandStep_giving [OF queueLeEvent_step [OF inv]]) (use result in simp_all)
  moreover have "opcode = 0x201A \<Longrightarrow> wp (ltkReply p result) (commandStep (keyAccepted opcode p s) s)
      (\<lambda>_ _. False) (\<lambda>_ _. full s) s"
    using ltkReply_step [OF inv result len live handle] by simp
  ultimately show ?thesis
    using connectionUpdate_step [OF inv result] ltkNegativeReply_step [OF inv result live]
      setDataLength_step [OF inv result] setPhy_step [OF inv result] plain result
    by (simp add: connectionOperation_def wp_inspect)
qed

lemma connectionCommand_step:
  assumes inv: "ctl_inv s"
  shows "wp (connectionCommand opcode p) (\<lambda>reply t. case reply of
       None \<Rightarrow> t = s \<and> opcode \<noteq> 0x201A
     | Some r \<Rightarrow> commandStep (keyAccepted opcode p s) s r t) (\<lambda>_ _. False) (\<lambda>_ _. full s) s"
proof (cases "map_of connectionCommandLengths opcode")
  case None
  then show ?thesis by (auto simp: connectionCommand_def wp_rules connectionCommandLengths_def)
next
  case (Some expected)
  have len: "length p = expected \<Longrightarrow> opcode = 0x201A \<Longrightarrow> length p = 18"
    using Some by (simp add: connectionCommandLengths_def)
  define result where "result = appendLe16 [if connection s \<noteq> 0 \<and> leFields p 0 = connection s then 0 else 2] (leFields p 0)"
  have hd: "hd result = (if connection s \<noteq> 0 \<and> leFields p 0 = connection s then 0 else 2)"
    and three: "length result = 3"
    by (simp_all add: result_def appendLe16_def)
  note plain = commandStep_ret [OF inv]
  have operation: "wp (connectionOperation opcode p result) (commandStep (keyAccepted opcode p s) s)
      (\<lambda>_ _. False) (\<lambda>_ _. full s) s" if "hd result = 0" "length p = expected"
    by (rule connectionOperation_step [OF inv three]) (use that hd len in \<open>auto split: if_splits\<close>)
  have "wp (if length p \<noteq> expected then ret [0x12]
         else if opcode = 0x2023 then ret [0, 0xFB, 0, 0x48, 0x08]
         else if opcode = 0x202F then ret [0, 0xFB, 0, 0x48, 0x08, 0xFB, 0, 0x48, 0x08]
         else if opcode = 0x2024 then ret [0x11]
         else if opcode = 0x2031 then ret [0x11]
         else inspect (\<lambda>s. let handle = leFields p 0;
                result = appendLe16 [if connection s \<noteq> 0 \<and> handle = connection s then 0 else 2] handle
              in if hd result \<noteq> 0 then ret result else connectionOperation opcode p result))
      (commandStep (keyAccepted opcode p s) s) (\<lambda>_ _. False) (\<lambda>_ _. full s) s"
    unfolding wp_if wp_inspect Let_def result_def [symmetric]
    using plain operation three by simp
  then show ?thesis
    unfolding connectionCommand_def Some option.case wp_bind by (rule wp_weaken) (auto simp: wp_rules)
qed

section \<open>Controller commands\<close>

lemma resetHci_step:
  assumes inv: "ctl_inv s"
  shows "wp resetHci (\<lambda>_ t. ctlStep False 1 s t \<and> connection t = 0) (\<lambda>_ _. False) (\<lambda>_ _. full s) s"
proof -
  have rest: "wp (block [modify (\<lambda>s. s\<lparr>eventMask := zeroBytes 8, leEventMask := zeroBytes 8,
      eventMaskPage2 := zeroBytes 8, randomAddress := zeroBytes 6, advertisingParameters := zeroBytes 15,
      advertisingData := [], scanResponse := [], ctl_advertising := False, resolutionEnabled := False,
      rpaTimeout := 900, resolvingList := [], privacyModes := zeroBytes 4\<rparr>), peerSend Reset 0 []])
      (\<lambda>_ t. ctlStep False 1 s t \<and> connection t = 0) (\<lambda>_ _. False) (\<lambda>_ _. full s) u"
    if u: "ctlStep False 1 s u" "connection u = 0" for u
  proof -
    have "socket_in (session u) (sock_sent Reset 0 [] (ctl_peer u))"
      using ctlStep_inv [OF u(1)] by (intro socket_in_sent [of "session u"]) (simp_all add: ctl_inv_def session_step.simps)
    then have "ctlStep False 0 u (u\<lparr>eventMask := zeroBytes 8, leEventMask := zeroBytes 8,
        eventMaskPage2 := zeroBytes 8, randomAddress := zeroBytes 6, advertisingParameters := zeroBytes 15,
        advertisingData := [], scanResponse := [], ctl_advertising := False, resolutionEnabled := False,
        rpaTimeout := 900, resolvingList := [], privacyModes := zeroBytes 4,
        ctl_peer := sock_sent Reset 0 [] (ctl_peer u)\<rparr>)"
      by (intro ctlStepI [where es = "[]"])
        (use ctlStep_inv [OF u(1)] u(2) resolving_empty in \<open>simp_all add: ctl_inv_defs zeroBytes_def [of 8] zeroBytes_def [of 6] zeroBytes_def [of 15]\<close>)
    from ctlStep_trans [OF u(1) this] show ?thesis
      using u(2) by (simp add: wp_block_Cons wp_block_Nil wp_modify wp_peerSend del: block.simps)
  qed
  have "wp (whenever (connection s \<noteq> 0) (ctl_disconnect 0x16))
      (\<lambda>_ t. ctlStep False 1 s t \<and> connection t = 0) (\<lambda>_ _. False) (\<lambda>_ _. full s) s"
    unfolding wp_whenever
    using ctlStep_refl [OF inv] wp_weaken [OF ctl_disconnect_step [OF inv]] by (auto simp: linkStep_def full_def)
  then show ?thesis
    unfolding resetHci_def wp_block_Cons [of "inspect f" for f] wp_inspect
    by (rule wp_weaken) (use rest in auto)
qed

lemma advertiseToPeer_step:
  assumes "ctl_inv s"
  shows "wp advertiseToPeer (\<lambda>_. ctlStep False 0 s) (\<lambda>_ _. False) (\<lambda>_ _. False) s"
proof -
  have len: "length (advertisementPayload s) \<le> 1024"
    using assms by (auto simp: advertisementPayload_def Let_def ctl_inv_defs)
  have "socket_in (session s) (sock_sent Advertising 0 (advertisementPayload s) (ctl_peer s))"
    using assms len by (intro socket_in_sent [of "session s"]) (simp_all add: ctl_inv_def session_step.simps)
  then have "ctlStep False 0 s (s\<lparr>ctl_peer := sock_sent Advertising 0 (advertisementPayload s) (ctl_peer s)\<rparr>)"
    by (intro ctlStepI [where es = "[]"]) (use assms len in \<open>simp_all add: ctl_inv_defs\<close>)
  then show ?thesis using len by (simp add: advertiseToPeer_def wp_rules)
qed

lemma setAdvertising_step:
  assumes "ctl_inv s"
  shows "wp (setAdvertising p) (commandStep b s) (\<lambda>_ _. False) (\<lambda>_ _. full s) s"
proof -
  have "wp (giving (block [modify (\<lambda>s. s\<lparr>ctl_advertising := c\<rparr>), advertiseToPeer]) [0])
      (commandStep b s) (\<lambda>_ _. False) (\<lambda>_ _. full s) s" if "connection s \<noteq> 0 \<longrightarrow> \<not> c" for c
  proof (rule commandStep_giving [where c = False and n = 0])
    have st: "ctlStep False 0 s (s\<lparr>ctl_advertising := c\<rparr>)"
      by (intro ctlStepI [where es = "[]"]) (use assms that in \<open>simp_all add: ctl_inv_defs\<close>)
    have "wp advertiseToPeer (\<lambda>_. ctlStep False 0 s) (\<lambda>_ _. False) (\<lambda>_ _. full s) (s\<lparr>ctl_advertising := c\<rparr>)"
      by (rule wp_weaken [OF advertiseToPeer_step [OF ctlStep_inv [OF st]]]) (use ctlStep_trans [OF st] in auto)
    then show "wp (block [modify (\<lambda>s. s\<lparr>ctl_advertising := c\<rparr>), advertiseToPeer]) (\<lambda>_. ctlStep False 0 s)
        (\<lambda>_ _. False) (\<lambda>_ _. full s) s"
      by (simp only: wp_block_Cons wp_block_Nil wp_modify)
  qed simp_all
  then show ?thesis using commandStep_ret [OF assms] by (simp add: setAdvertising_def wp_inspect)
qed

lemma supportedCommands_length: "length supportedCommands = 65"
  by code_simp

lemma resolvingCommands_step:
  assumes inv: "ctl_inv s"
  shows "length p = 39 \<Longrightarrow> wp (addToResolvingList p) (commandStep b s) (\<lambda>_ _. False) (\<lambda>_ _. full s) s"
    and "wp (removeFromResolvingList p) (commandStep b s) (\<lambda>_ _. False) (\<lambda>_ _. full s) s"
    and "wp clearResolvingList (commandStep b s) (\<lambda>_ _. False) (\<lambda>_ _. full s) s"
    and "wp (setPrivacyMode p) (commandStep b s) (\<lambda>_ _. False) (\<lambda>_ _. full s) s"
proof -
  note plain = commandStep_ret [OF inv]
  have ok: "resolving_ok (resolvingList s) (privacyModes s)" using inv by (simp add: ctl_inv_def)
  have entry: "i < length (resolvingList s)" if "findIdentity identity (resolvingList s) = Some i" for identity i
    using findIdentity_Some [OF that] by simp
  have add: "wp (giving (modify (\<lambda>s. s\<lparr>resolvingList := items s\<rparr>)) [0])
      (commandStep b s) (\<lambda>_ _. False) (\<lambda>_ _. full s) s"
    if "resolving_ok (items s) (privacyModes s)" for items
    by (rule commandStep_modify [OF inv]) (use inv that in \<open>simp_all add: ctl_inv_defs\<close>)
  have remove: "wp (giving (modify (\<lambda>s. s\<lparr>privacyModes := modes s, resolvingList := items s\<rparr>)) [0])
      (commandStep b s) (\<lambda>_ _. False) (\<lambda>_ _. full s) s"
    if "resolving_ok (items s) (modes s)" for items modes
    by (rule commandStep_modify [OF inv]) (use inv that in \<open>simp_all add: ctl_inv_defs\<close>)
  have clear: "wp (giving (modify (\<lambda>s. s\<lparr>resolvingList := [], privacyModes := zeroBytes 4\<rparr>)) [0])
      (commandStep b s) (\<lambda>_ _. False) (\<lambda>_ _. full s) s"
    by (rule commandStep_modify [OF inv]) (use inv resolving_empty in \<open>simp_all add: ctl_inv_defs\<close>)
  have mode: "wp (giving (modify (\<lambda>s. s\<lparr>privacyModes := modes s\<rparr>)) [0])
      (commandStep b s) (\<lambda>_ _. False) (\<lambda>_ _. full s) s"
    if "resolving_ok (resolvingList s) (modes s)" for modes
    by (rule commandStep_modify [OF inv]) (use inv that in \<open>simp_all add: ctl_inv_defs\<close>)
  show "wp (addToResolvingList p) (commandStep b s) (\<lambda>_ _. False) (\<lambda>_ _. full s) s" if "length p = 39"
    using plain add [of "\<lambda>s. resolvingList s @ [p]"] resolving_add [OF ok, of p] that
    by (simp add: addToResolvingList_def wp_inspect)
  show "wp (removeFromResolvingList p) (commandStep b s) (\<lambda>_ _. False) (\<lambda>_ _. full s) s"
  proof (cases "findIdentity p (resolvingList s)")
    case (Some i)
    then show ?thesis
      using plain remove [of "\<lambda>s. without i (resolvingList s)" "\<lambda>s. dropMode i (length (resolvingList s)) (privacyModes s)"]
        resolving_remove [OF ok entry]
      by (simp add: removeFromResolvingList_def wp_inspect without_def)
  qed (use plain in \<open>simp add: removeFromResolvingList_def wp_inspect\<close>)
  show "wp clearResolvingList (commandStep b s) (\<lambda>_ _. False) (\<lambda>_ _. full s) s"
    using plain clear by (simp add: clearResolvingList_def wp_inspect)
  show "wp (setPrivacyMode p) (commandStep b s) (\<lambda>_ _. False) (\<lambda>_ _. full s) s"
  proof (cases "findIdentity (take 7 p) (resolvingList s)")
    case (Some i)
    then show ?thesis
      using plain mode [of "\<lambda>s. (privacyModes s)[i := p ! 7]"] resolving_mode [OF ok entry]
      by (simp add: setPrivacyMode_def wp_inspect)
  qed (use plain in \<open>simp add: setPrivacyMode_def wp_inspect\<close>)
qed

lemma settingCommands_step:
  assumes inv: "ctl_inv s"
  shows "length p = 15 \<Longrightarrow> wp (setAdvertisingParameters p) (commandStep b s) (\<lambda>_ _. False) (\<lambda>_ _. full s) s"
    and "wp (setAdvertisingData opcode p) (commandStep b s) (\<lambda>_ _. False) (\<lambda>_ _. full s) s"
    and "wp (setResolution p) (commandStep b s) (\<lambda>_ _. False) (\<lambda>_ _. full s) s"
    and "wp (setRpaTimeout p) (commandStep b s) (\<lambda>_ _. False) (\<lambda>_ _. full s) s"
    and "length p = 6 \<Longrightarrow> wp (giving (modify (\<lambda>s. s\<lparr>randomAddress := p\<rparr>)) [0]) (commandStep b s)
      (\<lambda>_ _. False) (\<lambda>_ _. full s) s"
    and "length p = 8 \<Longrightarrow> wp (giving (modify (\<lambda>s. s\<lparr>eventMask := p\<rparr>)) [0]) (commandStep b s)
      (\<lambda>_ _. False) (\<lambda>_ _. full s) s"
    and "length p = 8 \<Longrightarrow> wp (giving (modify (\<lambda>s. s\<lparr>eventMaskPage2 := p\<rparr>)) [0]) (commandStep b s)
      (\<lambda>_ _. False) (\<lambda>_ _. full s) s"
    and "length p = 8 \<Longrightarrow> wp (giving (modify (\<lambda>s. s\<lparr>leEventMask := p\<rparr>)) [0]) (commandStep b s)
      (\<lambda>_ _. False) (\<lambda>_ _. full s) s"
proof -
  note plain = commandStep_ret [OF inv] and set = commandStep_modify [OF inv]
  show "wp (giving (modify (\<lambda>s. s\<lparr>randomAddress := p\<rparr>)) [0]) (commandStep b s) (\<lambda>_ _. False) (\<lambda>_ _. full s) s"
    if "length p = 6" by (rule set) (use inv that in \<open>simp_all add: ctl_inv_defs\<close>)
  show "wp (giving (modify (\<lambda>s. s\<lparr>eventMask := p\<rparr>)) [0]) (commandStep b s) (\<lambda>_ _. False) (\<lambda>_ _. full s) s"
    if "length p = 8" by (rule set) (use inv that in \<open>simp_all add: ctl_inv_defs\<close>)
  show "wp (giving (modify (\<lambda>s. s\<lparr>eventMaskPage2 := p\<rparr>)) [0]) (commandStep b s) (\<lambda>_ _. False) (\<lambda>_ _. full s) s"
    if "length p = 8" by (rule set) (use inv that in \<open>simp_all add: ctl_inv_defs\<close>)
  show "wp (giving (modify (\<lambda>s. s\<lparr>leEventMask := p\<rparr>)) [0]) (commandStep b s) (\<lambda>_ _. False) (\<lambda>_ _. full s) s"
    if "length p = 8" by (rule set) (use inv that in \<open>simp_all add: ctl_inv_defs\<close>)
  show "wp (setAdvertisingParameters p) (commandStep b s) (\<lambda>_ _. False) (\<lambda>_ _. full s) s" if "length p = 15"
  proof -
    have "wp (giving (modify (\<lambda>s. s\<lparr>advertisingParameters := p\<rparr>)) [0]) (commandStep b s) (\<lambda>_ _. False) (\<lambda>_ _. full s) s"
      by (rule set) (use inv that in \<open>simp_all add: ctl_inv_defs\<close>)
    then show ?thesis using plain unfolding setAdvertisingParameters_def wp_inspect wp_if by simp
  qed
  show "wp (setAdvertisingData opcode p) (commandStep b s) (\<lambda>_ _. False) (\<lambda>_ _. full s) s"
  proof (cases "31 < p ! 0")
    case False
    let ?c = "take (unat (p ! 0)) (tl p)"
    have small: "length ?c \<le> 31" using False by (simp add: not_less word_le_nat_alt)
    have "wp (giving (modify (\<lambda>s. if opcode = 0x2008 then s\<lparr>advertisingData := ?c\<rparr> else s\<lparr>scanResponse := ?c\<rparr>)) [0])
        (commandStep b s) (\<lambda>_ _. False) (\<lambda>_ _. full s) s"
      by (rule set) (use inv small in \<open>simp_all add: ctl_inv_defs del: length_take\<close>)
    then show ?thesis using False by (simp add: setAdvertisingData_def Let_def)
  qed (use plain in \<open>simp add: setAdvertisingData_def\<close>)
  have "wp (giving (modify (\<lambda>s. s\<lparr>resolutionEnabled := c\<rparr>)) [0]) (commandStep b s) (\<lambda>_ _. False) (\<lambda>_ _. full s) s" for c
    by (rule set) (use inv in \<open>simp_all add: ctl_inv_defs\<close>)
  then show "wp (setResolution p) (commandStep b s) (\<lambda>_ _. False) (\<lambda>_ _. full s) s"
    using plain by (simp add: setResolution_def wp_inspect)
  have "wp (giving (modify (\<lambda>s. s\<lparr>rpaTimeout := c\<rparr>)) [0]) (commandStep b s) (\<lambda>_ _. False) (\<lambda>_ _. full s) s" for c
    by (rule set) (use inv in \<open>simp_all add: ctl_inv_defs\<close>)
  then show "wp (setRpaTimeout p) (commandStep b s) (\<lambda>_ _. False) (\<lambda>_ _. full s) s"
    using plain by (simp add: setRpaTimeout_def)
qed

lemma controllerCommand_step:
  assumes inv: "ctl_inv s"
  shows "wp (controllerCommand g opcode p) (commandStep False s) (\<lambda>_ _. False) (\<lambda>_ _. full s) s"
proof (cases "map_of commandLengths opcode")
  case None
  then show ?thesis using commandStep_ret [OF inv] by (simp add: controllerCommand_def)
next
  case (Some expected)
  note plain = commandStep_ret [OF inv]
  have reset: "wp (giving resetHci [0]) (commandStep False s) (\<lambda>_ _. False) (\<lambda>_ _. full s) s"
    by (rule commandStep_giving [where c = False and n = 1])
      (use wp_weaken [OF resetHci_step [OF inv]] in auto)
  have power: "wp (gets readAdvertisingPower) (commandStep False s) (\<lambda>_ _. False) (\<lambda>_ _. full s) s"
    using ctlStep_refl [OF inv] by (simp add: wp_gets commandStep_def readAdvertisingPower_def Let_def)
  have "wp (controllerOperation g opcode p) (commandStep False s) (\<lambda>_ _. False) (\<lambda>_ _. full s) s"
    if "length p = expected"
  proof -
    have len: "opcode = 0x2027 \<Longrightarrow> length p = 39" "opcode = 0x2006 \<Longrightarrow> length p = 15"
      "opcode = 0x2005 \<Longrightarrow> length p = 6" "opcode = 0x0C01 \<Longrightarrow> length p = 8" "opcode = 0x0C63 \<Longrightarrow> length p = 8"
      "opcode = 0x2001 \<Longrightarrow> length p = 8"
      using Some that by (simp_all add: commandLengths_def)
    show ?thesis
      unfolding controllerOperation_def wp_if wp_inspect
      using plain reset power len settingCommands_step [OF inv] resolvingCommands_step [OF inv]
        setAdvertising_step [OF inv] supportedCommands_length
      by simp
  qed
  then show ?thesis using Some plain by (simp add: controllerCommand_def)
qed

lemma command_of_step:
  assumes "ctl_inv s"
  shows "wp (command_of g opcode p) (commandStep (keyAccepted opcode p s) s) (\<lambda>_ _. False) (\<lambda>_ _. full s) s"
  unfolding command_of_def wp_bind
proof (rule wp_weaken [OF connectionCommand_step [OF assms, of opcode p]])
  fix reply t
  assume reply: "case reply of None \<Rightarrow> t = s \<and> opcode \<noteq> 0x201A
    | Some r \<Rightarrow> commandStep (keyAccepted opcode p s) s r t"
  show "wp (case reply of None \<Rightarrow> controllerCommand g opcode p | Some reply \<Rightarrow> ret reply)
      (commandStep (keyAccepted opcode p s) s) (\<lambda>_ _. False) (\<lambda>_ _. full s) t"
  proof (cases reply)
    case None
    then have "t = s" using reply by simp
    then show ?thesis using None
      by (simp, intro wp_weaken [OF controllerCommand_step [OF assms]])
        (auto simp: commandStep_def elim: ctlStep_mono)
  next
    case (Some r)
    then show ?thesis using reply by (simp add: wp_ret)
  qed
qed auto

section \<open>Packets\<close>

lemma chunksFrom_length: "chunk \<in> set (chunksFrom offset database) \<Longrightarrow> length chunk \<le> 1001"
  by (induction offset database rule: chunksFrom.induct)
    (subst (asm) (2) chunksFrom.simps, auto simp: Let_def ChunkBytes_def split: if_splits)

lemma sendDatabase_step:
  assumes "ctl_inv s" and "length chunk \<le> 1024"
  shows "wp (peerSend GattDatabase 0 chunk) (\<lambda>_. ctlStep False 0 s) (\<lambda>_ _. False) (\<lambda>_ _. False) s"
proof -
  have "socket_in (session s) (sock_sent GattDatabase 0 chunk (ctl_peer s))"
    using assms by (intro socket_in_sent [of "session s"]) (simp_all add: ctl_inv_def session_step.simps)
  then have "ctlStep False 0 s (s\<lparr>ctl_peer := sock_sent GattDatabase 0 chunk (ctl_peer s)\<rparr>)"
    by (intro ctlStepI [where es = "[]"]) (use assms in \<open>simp_all add: ctl_inv_defs\<close>)
  then show ?thesis using assms(2) by (simp add: wp_rules)
qed

lemma sendDatabases_step:
  assumes "ctl_inv s" and "\<forall>chunk \<in> set chunks. length chunk \<le> 1024"
  shows "wp (forEach (peerSend GattDatabase 0) chunks) (\<lambda>_. ctlStep False 0 s) (\<lambda>_ _. False) (\<lambda>_ _. False) s"
  using assms
proof (induction chunks arbitrary: s)
  case Nil
  then show ?case by (simp add: wp_rules ctlStep_refl)
next
  case (Cons chunk chunks)
  have rest: "wp (forEach (peerSend GattDatabase 0) chunks) (\<lambda>_. ctlStep False 0 s) (\<lambda>_ _. False) (\<lambda>_ _. False) t"
    if t: "ctlStep False 0 s t" for t
    by (rule wp_weaken [OF Cons.IH [OF ctlStep_inv [OF t]]]) (use Cons.prems ctlStep_trans [OF t] in auto)
  show ?case
    unfolding forEach.simps wp_bind
    by (rule wp_weaken [OF sendDatabase_step]) (use Cons.prems rest in auto)
qed

lemma publishGatt_step:
  assumes "ctl_inv s"
  shows "wp (publishGatt g) (\<lambda>_. ctlStep False 0 s) (\<lambda>_ _. False) (\<lambda>_ _. False) s"
proof -
  have "\<forall>chunk \<in> set (chunksFrom 0 database). length chunk \<le> 1024" for database
    using chunksFrom_length by force
  then show ?thesis
    unfolding publishGatt_def
    using sendDatabase_step [OF assms, of "[3]"] sendDatabases_step [OF assms]
    by (cases "guestDatabase g") simp_all
qed

end
