(* ===== verification/ControllerProperties.thy ===== *)
theory ControllerProperties
  imports ControllerCommands
begin

text \<open>
  The controller as a state machine: the guest calls \<open>step\<close> with an operation or a continuation and
  its registers, the peer's socket and the clock are met in between. The properties of reachable
  controllers: well-formedness, the session protocol towards the peer, encryption only after a
  long-term key reply with the pending key, one completion for every command, and that polling a
  peer that sends arbitrary bytes does not end the process.
\<close>

unbundle bit_operations_syntax

section \<open>Sending\<close>

lemma completionEvent_facts:
  assumes "length reply \<le> 65"
  shows "event_ok (completionEvent opcode reply)" and "isCompletion (completionEvent opcode reply)"
  using assms by (simp_all add: completionEvent_def event_ok_def isCompletion_def appendLe16_def)

definition answered :: "ble_controller \<Rightarrow> u16 \<Rightarrow> bytes \<Rightarrow> ble_controller \<Rightarrow> bool" where
  "answered s opcode p t \<longleftrightarrow> ctl_inv t \<and> commandPending t \<and>
     (\<exists>reply es. ctl_events t = ctl_events s @ completionEvent opcode reply # es \<and>
        (\<forall>e \<in> set es. \<not> isCompletion e)) \<and>
     (ctl_encrypted t \<longrightarrow> ctl_encrypted s \<or> keyAccepted opcode p s)"

lemma send_command_step:
  assumes inv: "ctl_inv s"
  shows "wp (send_command g bs amount) (\<lambda>_. answered s (leFields bs 1) (drop 4 bs)) (\<lambda>_ _. False)
    (\<lambda>_ _. unat (bs ! 3) + 4 \<noteq> amount \<or> commandPending s \<or> full s) s"
proof -
  let ?op = "leFields bs 1" and ?p = "drop 4 bs"
  define s1 where "s1 = s\<lparr>commands := commands s + 1, commandPending := True\<rparr>"
  have s1: "ctl_inv s1" "ctl_events s1 = ctl_events s" "ctl_encrypted s1 = ctl_encrypted s"
      "commandPending s1" "keyAccepted ?op ?p s1 = keyAccepted ?op ?p s" "full s1 = full s"
    using inv by (simp_all add: s1_def ctl_inv_defs keyAccepted_def full_def)
  have finish: "wp (block [completeCommand ?op reply (length (ctl_events s)),
      inspect (\<lambda>s. whenever (?op = 0x200A \<and> reply ! 0 = 0 \<and> ctl_advertising s) (publishGatt g))])
      (\<lambda>_. answered s ?op ?p) (\<lambda>_ _. False) (\<lambda>_ _. False) t"
    if t: "commandStep (keyAccepted ?op ?p s1) s1 reply t" for reply t
  proof -
    let ?c = "completionEvent ?op reply"
    have len: "length reply \<le> 65" and step: "ctlStep (keyAccepted ?op ?p s) 1 s1 t"
      using t s1 by (simp_all add: commandStep_def)
    obtain es where es: "ctl_events t = ctl_events s @ es" "\<forall>e \<in> set es. \<not> isCompletion e"
      using step s1(2) unfolding ctlStep_def by metis
    define u where "u = t\<lparr>ctl_events := ctl_events s @ [?c] @ es\<rparr>"
    have t_facts: "ctl_inv t" "commandPending t" "ctl_encrypted t \<longrightarrow> ctl_encrypted s \<or> keyAccepted ?op ?p s"
      using step s1 by (simp_all add: ctlStep_def)
    have u: "ctl_inv u"
      using t_facts(1) es(1) completionEvent_facts(1) [OF len] by (simp add: u_def ctl_inv_defs)
    have done': "answered s ?op ?p v" if v: "ctlStep False 0 u v" for v
    proof -
      have "ctl_events v = ctl_events s @ ?c # es" "ctl_inv v" "commandPending v"
          "ctl_encrypted v \<longrightarrow> ctl_encrypted t"
        using v t_facts(2) by (auto simp: ctlStep_def u_def)
      then show ?thesis using es(2) t_facts(3) unfolding answered_def by blast
    qed
    have "wp (whenever c (publishGatt g)) (\<lambda>_. answered s ?op ?p) (\<lambda>_ _. False) (\<lambda>_ _. False) u" for c
      unfolding wp_whenever
      using done' [OF ctlStep_refl [OF u]] wp_weaken [OF publishGatt_step [OF u]] done' by auto
    then show ?thesis
      unfolding wp_block_Cons wp_block_Nil completeCommand_def wp_inspect wp_if wp_modify wp_abort
      by (simp add: es(1) u_def)
  qed
  have "wp (bind (command_of g ?op ?p) (\<lambda>reply. block [completeCommand ?op reply (length (ctl_events s)),
      inspect (\<lambda>s. whenever (?op = 0x200A \<and> reply ! 0 = 0 \<and> ctl_advertising s) (publishGatt g))]))
      (\<lambda>_. answered s ?op ?p) (\<lambda>_ _. False) (\<lambda>_ _. full s) s1"
    unfolding wp_bind
    by (rule wp_weaken [OF command_of_step [OF s1(1)]])
      (use finish s1 in \<open>auto intro: wp_weaken\<close>)
  then show ?thesis
    unfolding send_command_def
    by (auto simp: wp_block_Cons wp_block_Nil wp_fail_if wp_inspect wp_modify wp_bind wp_gets wp_skip Let_def s1_def
        elim: wp_weaken)
qed

lemma guestRead_wp [wp_rules]:
  "wp (guestRead g address n) Q E A s = (case tryRead g address n of
     None \<Rightarrow> A ''invalid guest read'' s | Some bs \<Rightarrow> Q bs s)"
  by (simp add: guestRead_def wp_rules split: option.split)

section \<open>Steps\<close>

text \<open>The key reply a send operation carries.\<close>

definition sendsKey :: "guest \<Rightarrow> u32 list \<Rightarrow> ble_controller \<Rightarrow> bool" where
  "sendsKey g registers s \<longleftrightarrow> (\<exists>bs. tryRead g (registers ! 2) (unat (registers ! 3)) = Some bs \<and>
     bs ! 0 = 1 \<and> keyAccepted (leFields bs 1) (drop 4 bs) s)"

definition grows_to :: "bool \<Rightarrow> ble_controller \<Rightarrow> ble_controller \<Rightarrow> bool" where
  "grows_to b s t \<longleftrightarrow> ctl_inv t \<and> (ctl_encrypted t \<longrightarrow> ctl_encrypted s \<or> b)"

lemma grows_ctlStep: "ctlStep False n s t \<Longrightarrow> grows_to b s t"
  by (simp add: grows_to_def ctlStep_def)

lemma grows_refl: "ctl_inv s \<Longrightarrow> grows_to b s s"
  by (simp add: grows_to_def)

lemma grows_trans: "grows_to False s t \<Longrightarrow> grows_to b t u \<Longrightarrow> grows_to b s u"
  by (auto simp: grows_to_def)

definition within :: "bool \<Rightarrow> (ble_controller, 'a) prog \<Rightarrow> ble_controller \<Rightarrow> bool" where
  "within b m s \<longleftrightarrow> wp m (\<lambda>_. grows_to b s) (\<lambda>_ _. False) (\<lambda>_ _. True) s"

lemma within_then:
  assumes "wp m (\<lambda>_. grows_to False s) (\<lambda>_ _. False) (\<lambda>_ _. True) s"
    and "\<And>t. grows_to False s t \<Longrightarrow> within b k t"
  shows "within b (stepping m k) s"
  unfolding within_def wp_stepping
proof (rule wp_weaken [OF assms(1)])
  fix t assume st: "grows_to False s t"
  show "wp k (\<lambda>_. grows_to b s) (\<lambda>_ _. False) (\<lambda>_ _. True) t"
    by (rule wp_weaken [OF assms(2) [OF st, unfolded within_def]]) (use grows_trans [OF st] in auto)
qed auto

lemma ctl_send_step:
  assumes inv: "ctl_inv s"
  shows "within (sendsKey g registers s) (ctl_send g (registers ! 2) (registers ! 3)) s"
proof -
  let ?b = "sendsKey g registers s"
  have last: "grows_to ?b s (t\<lparr>sendAvailable := False, readyPending := True\<rparr>)" if "grows_to ?b s t" for t
    using that by (simp add: grows_to_def ctl_inv_defs)
  have acl: "wp (sendAcl pkt) (\<lambda>_. grows_to ?b s) (\<lambda>_ _. False) (\<lambda>_ _. True) s" for pkt
    by (rule wp_weaken [OF sendAcl_step [OF inv]]) (auto intro: grows_ctlStep)
  have command: "wp (send_command g bs amount) (\<lambda>_. grows_to ?b s) (\<lambda>_ _. False) (\<lambda>_ _. True) s"
    if "tryRead g (registers ! 2) (unat (registers ! 3)) = Some bs" "bs ! 0 = 1" for bs amount
    by (rule wp_weaken [OF send_command_step [OF inv]])
      (use that in \<open>auto simp: answered_def grows_to_def sendsKey_def\<close>)
  have "wp (if bs ! 0 = 2 then sendAcl (drop 1 bs) else if bs ! 0 = 1 then send_command g bs (unat (registers ! 3))
       else abort ''unsupported H4 packet type'') (\<lambda>_ t. grows_to ?b s (t\<lparr>sendAvailable := False, readyPending := True\<rparr>))
       (\<lambda>_ _. False) (\<lambda>_ _. True) s"
    if "tryRead g (registers ! 2) (unat (registers ! 3)) = Some bs" for bs
    unfolding wp_if using wp_weaken [OF acl] wp_weaken [OF command [OF that]] last
    by (simp add: wp_abort)
  then show ?thesis
    unfolding within_def ctl_send_def
    by (auto simp: wp_block_Cons wp_block_Nil wp_fail_if wp_bind guestRead_wp wp_modify wp_skip split: option.split)
qed

section \<open>The worker\<close>

lemma wait_within: "ctl_inv s \<Longrightarrow> within b (wait_step g) s"
  by (simp add: within_def wait_step_def wp_rules grows_to_def ctl_inv_defs)

lemma guestWrite_wp [wp_rules]:
  "wp (guestWrite g address bs) Q E A s =
     (if address < 0x3FC80000 \<or> (ucast address :: u64) + of_nat (length bs) > 0x3FD00000 then A ''write outside internal data RAM'' s
      else if \<not> g_writable g address (length bs) then A ''guest write failed'' s
      else Q () (s\<lparr>guestWrites := guestWrites s @ [(address, bs)]\<rparr>))"
  by (simp add: guestWrite_def wp_rules)

lemma deliver_within: "ctl_inv s \<Longrightarrow> within b (deliver_step g event) s"
  by (simp add: within_def deliver_step_def wp_rules grows_to_def) (simp add: ctl_inv_defs)

lemma reportCompletedAcl_step:
  assumes "ctl_inv s"
  shows "wp reportCompletedAcl (\<lambda>_. grows_to False s) (\<lambda>_ _. False) (\<lambda>_ _. True) s"
proof -
  have st: "ctlStep False 0 s (s\<lparr>completedAcl := 0\<rparr>)"
    by (intro ctlStepI [where es = "[]"]) (use assms in \<open>simp_all add: ctl_inv_defs\<close>)
  have "wp (queueEvent 0x13 p) (\<lambda>_. grows_to False s) (\<lambda>_ _. False) (\<lambda>_ _. True) (s\<lparr>completedAcl := 0\<rparr>)"
    if "length p \<le> 68" for p
    by (rule wp_weaken [OF queueEvent_step [OF ctlStep_inv [OF st]]])
      (use that ctlStep_trans [OF st] in \<open>auto intro: grows_ctlStep\<close>)
  then show ?thesis using grows_refl [OF assms]
    by (simp add: reportCompletedAcl_def wp_inspect wp_whenever wp_block_Cons wp_block_Nil wp_modify wp_skip del: block.simps)
qed

lemma ctl_poll_within:
  assumes "ctl_inv s" and "freshLink g"
  shows "within b (ctl_poll g) s"
  unfolding ctl_poll_def
proof (rule within_then)
  show "wp (pollPeer g) (\<lambda>_. grows_to False s) (\<lambda>_ _. False) (\<lambda>_ _. True) s"
    by (rule wp_weaken [OF pollPeer_step [OF assms]]) (auto intro: grows_ctlStep)
  fix t assume t: "grows_to False s t"
  then have inv: "ctl_inv t" by (simp add: grows_to_def)
  have ready: "within b (stepping (modify (\<lambda>s. s\<lparr>readyPending := False, sendAvailable := True\<rparr>))
      (gets (\<lambda>s. hle_call (readyCallback s) HleReadyReturned []))) t"
    using inv by (simp add: within_def wp_rules grows_to_def) (simp add: ctl_inv_defs)
  have deliver: "within b (stepping reportCompletedAcl (inspect (\<lambda>s. case ctl_events s of
      [] \<Rightarrow> wait_step g | event # _ \<Rightarrow> deliver_step g event))) t"
  proof (rule within_then [OF reportCompletedAcl_step [OF inv]])
    fix u assume "grows_to False t u"
    then have "ctl_inv u" by (simp add: grows_to_def)
    then show "within b (inspect (\<lambda>s. case ctl_events s of [] \<Rightarrow> wait_step g | event # _ \<Rightarrow> deliver_step g event)) u"
      using wait_within deliver_within by (cases "ctl_events u") (simp_all add: within_def wp_inspect)
  qed
  show "within b (inspect (\<lambda>s.
     if status s \<noteq> 2 \<or> receiveCallback s = 0 \<or> readyCallback s = 0 then wait_step g
     else if readyPending s then
       stepping (modify (\<lambda>s. s\<lparr>readyPending := False, sendAvailable := True\<rparr>))
         (gets (\<lambda>s. hle_call (readyCallback s) HleReadyReturned []))
     else stepping reportCompletedAcl (inspect (\<lambda>s.
       case ctl_events s of [] \<Rightarrow> wait_step g | event # _ \<Rightarrow> deliver_step g event)))) t"
    using wait_within [OF inv] ready deliver by (simp add: within_def wp_inspect)
qed

section \<open>All operations\<close>

lemma within_modify:
  assumes "ctl_inv s" and "ctl_inv (f s)" and "ctl_encrypted (f s) = ctl_encrypted s"
    and "\<And>t. ctl_inv t \<Longrightarrow> within b k t"
  shows "within b (stepping (modify f) k) s"
  by (rule within_then) (use assms in \<open>auto simp: wp_modify grows_to_def\<close>)

lemma within_gets: "ctl_inv s \<Longrightarrow> within b (gets f) s"
  by (simp add: within_def wp_gets grows_refl)

lemma within_ret: "ctl_inv s \<Longrightarrow> within b (ret r) s"
  by (simp add: within_def wp_ret grows_refl)

lemma within_answer:
  assumes "ctl_inv s" and "ctl_inv (f s)" and "ctl_encrypted (f s) = ctl_encrypted s"
  shows "within b (answer (modify f) r) s"
  unfolding answer_def by (rule within_modify [where f = f, OF assms]) (rule within_ret)

lemma within_inspect: "within b (f s) s \<Longrightarrow> within b (inspect f) s"
  by (simp add: within_def wp_inspect)

lemma within_guestRead: "(\<And>bs. within b (k bs) s) \<Longrightarrow> within b (bind (guestRead g address n) k) s"
  by (simp add: within_def wp_rules split: option.split)

lemma within_if: "(c \<Longrightarrow> within b m s) \<Longrightarrow> (\<not> c \<Longrightarrow> within b n s) \<Longrightarrow> within b (if c then m else n) s"
  by simp

lemmas within_rules = within_inspect within_if within_ret within_gets within_guestRead within_answer
  within_modify

lemma length_words32 [simp]: "length (words32 n bs) = n"
  by (simp add: words32_def)

lemma clear_controller_step:
  assumes "ctl_inv s"
  shows "ctl_inv (new_controller (sock_assign new_socket (ctl_peer s)) (nextGeneration s)
    (nextConnectionHandle s) (guestWrites s))"
proof -
  have sock: "socket_in None (sock_assign new_socket (ctl_peer s))"
    using sender_ok_assign [OF sender_ok_new, of "ctl_peer s"]
    by (simp add: socket_in_def) (simp add: sock_assign_def new_socket_def sock_close_def)
  have "resolving_ok [] (zeroBytes 4)" by (rule resolving_empty)
  moreover have "parameters_ok 24 0 200" by (simp add: parameters_ok_def timeoutTooShort_def)
  ultimately show ?thesis
    using assms sock by (simp add: new_controller_def ctl_inv_defs zeroBytes_def [of 8] zeroBytes_def [of 6] zeroBytes_def [of 15])
qed

lemma clear_within: "ctl_inv s \<Longrightarrow> within b (answer clear_controller r) s"
  unfolding within_def wp_answer clear_controller_def wp_modify grows_to_def
  by (simp add: clear_controller_step) (simp add: new_controller_def)

lemma init_within: "ctl_inv s \<Longrightarrow> within b (step_init g registers) s"
proof -
  assume inv: "ctl_inv s"
  have table: "within b (init_table g version) t" if "ctl_inv t" for version t
    unfolding init_table_def
    by (intro within_guestRead within_modify [OF that] within_inspect within_if within_ret)
      (use that in \<open>simp_all add: ctl_inv_defs\<close>)
  show ?thesis
    unfolding step_init_def Let_def
    by (intro within_inspect within_if within_ret within_guestRead within_modify inv table)
      (use inv in \<open>simp_all add: ctl_inv_defs\<close>)
qed

lemma start_within:
  assumes inv: "ctl_inv s"
  shows "within b (step_allocated g registers) s" and "within b (step_semaphoreCreated registers) s"
    and "within b (step_taskCreated g registers) s" and "within b (step_enable registers) s"
    and "within b step_deinit s" and "within b step_taskDeleted s" and "within b step_semaphoreDeleted s"
proof -
  have stored: "within b (stepping (guestWrite g address bs) (ret r)) t" if "ctl_inv t" for address bs r t
    using that by (simp add: within_def wp_rules grows_to_def ctl_inv_defs)
  show "within b (step_allocated g registers) s"
    unfolding step_allocated_def
    by (intro within_modify within_inspect within_if within_ret inv stored)
      (use inv in \<open>simp_all add: ctl_inv_defs\<close>)
  show "within b (step_semaphoreCreated registers) s"
    unfolding step_semaphoreCreated_def
    by (intro within_modify within_gets inv) (use inv in \<open>simp_all add: ctl_inv_defs\<close>)
  show "within b (step_taskCreated g registers) s"
    unfolding step_taskCreated_def
    by (intro within_inspect within_if within_modify within_ret within_guestRead within_answer inv)
      (use inv in \<open>simp_all add: ctl_inv_defs\<close>)
  show "within b (step_enable registers) s"
    unfolding step_enable_def
    by (intro within_inspect within_if within_ret within_answer inv) (use inv in \<open>simp_all add: ctl_inv_defs\<close>)
  show "within b step_deinit s" unfolding step_deinit_def by (rule within_gets [OF inv])
  show "within b step_taskDeleted s" unfolding step_taskDeleted_def by (rule within_gets [OF inv])
  show "within b step_semaphoreDeleted s"
    unfolding step_semaphoreDeleted_def
    by (intro within_modify within_gets inv) (use inv in \<open>simp_all add: ctl_inv_defs\<close>)
qed

lemma disable_within:
  assumes "ctl_inv s"
  shows "within b step_disable s"
proof -
  let ?s = "s\<lparr>status := 1\<rparr>"
  have inv: "ctl_inv ?s" using assms by (simp add: ctl_inv_defs)
  have "wp resetHci (\<lambda>_ t. grows_to b s (t\<lparr>ctl_events := [], readyPending := False, commandPending := False,
       sendAvailable := True, completedAcl := 0, readyCallback := 0, receiveCallback := 0,
       receiveCancelled := receiveInFlight t\<rparr>)) (\<lambda>_ _. False) (\<lambda>_ _. True) ?s"
    by (rule wp_weaken [OF resetHci_step [OF inv]])
      (auto simp: grows_to_def ctlStep_def, auto simp: ctl_inv_defs)
  then show ?thesis
    unfolding within_def step_disable_def wp_answer
    by (simp add: wp_block_Cons wp_block_Nil wp_modify wp_skip del: block.simps)
qed

lemma members_within:
  assumes inv: "ctl_inv s"
  shows "within b (step_queries operation) s" and "within b (step_flags operation registers) s"
    and "within b (step_offload operation registers) s" and "within b (step_features operation registers) s"
    and "within b (step_register g registers) s" and "within b (step_powerSet registers) s"
    and "within b (step_powerGet registers) s"
proof -
  show "within b (step_queries operation) s" unfolding step_queries_def by (rule within_gets [OF inv])
  show "within b (step_flags operation registers) s"
    unfolding step_flags_def
    by (intro within_if within_ret within_answer inv) (use inv in \<open>simp_all add: ctl_inv_defs\<close>)
  show "within b (step_offload operation registers) s"
    unfolding step_offload_def
    by (intro within_inspect within_if within_ret within_answer inv) (use inv in \<open>simp_all add: ctl_inv_defs\<close>)
  show "within b (step_features operation registers) s"
    unfolding step_features_def
    by (intro within_answer inv) (use inv in \<open>simp_all add: ctl_inv_defs\<close>)
  show "within b (step_register g registers) s"
    unfolding step_register_def
    by (intro within_inspect within_if within_ret within_guestRead within_answer inv)
      (use inv in \<open>simp_all add: ctl_inv_defs\<close>)
  show "within b (step_powerSet registers) s"
    unfolding step_powerSet_def
    by (intro within_inspect within_if within_ret within_answer inv) (use inv in \<open>simp_all add: ctl_inv_defs\<close>)
  show "within b (step_powerGet registers) s" unfolding step_powerGet_def by (rule within_gets [OF inv])
qed

lemma returned_within:
  assumes inv: "ctl_inv s" and fresh: "freshLink g"
  shows "within b (step_delayReturned g) s" and "within b (step_receiveReturned g registers) s"
    and "within b (step_readyReturned g) s"
proof -
  note poll = ctl_poll_within [OF _ fresh]
  show "within b (step_delayReturned g) s"
    unfolding step_delayReturned_def
    by (rule within_then [OF _ poll])
      (use inv in \<open>simp_all add: wp_rules grows_to_def ctl_inv_defs\<close>)
  have pop: "within b (stepping pop_event (ctl_poll g)) t" if "ctl_inv t" for t
    by (rule within_then [OF _ poll])
      (use that in \<open>auto simp: pop_event_def wp_rules grows_to_def ctl_inv_defs dest: list.set_sel(2)\<close>)
  have "within b (stepping (modify (\<lambda>s. s\<lparr>receiveInFlight := False, receiveCancelled := False\<rparr>))
      (if c then ctl_poll g else if registers ! 10 \<noteq> 0 then wait_step g else stepping pop_event (ctl_poll g))) s" for c
    by (intro within_modify within_if inv poll wait_within pop) (use inv in \<open>simp_all add: ctl_inv_defs\<close>)
  from this [of "receiveCancelled s"] show "within b (step_receiveReturned g registers) s"
    unfolding step_receiveReturned_def within_def wp_bind wp_gets .
  show "within b (step_readyReturned g) s"
    unfolding step_readyReturned_def
    by (intro within_modify inv poll) (use inv in \<open>simp_all add: ctl_inv_defs\<close>)
qed

lemma send_within:
  assumes inv: "ctl_inv s"
  shows "within (sendsKey g registers s) (step_send g registers) s"
  using ctl_send_step [OF inv, of g registers]
  unfolding within_def step_send_def wp_answer
  by (simp add: wp_block_Cons wp_block_Nil wp_inspect wp_fail_if wp_skip del: block.simps)

text \<open>One call of the guest: the invariant is kept, and encryption was on before, or the call sends
  the long-term key reply with the pending key.\<close>

lemma ctl_step_within:
  assumes "ctl_inv s" and "freshLink g"
  shows "within (operation = HleSend \<and> sendsKey g registers s) (ctl_step g operation registers) s"
proof (cases "operation = HleSend")
  case True
  then have "ctl_step g operation registers = step_send g registers"
    by (simp add: ctl_step_def hle_numbers)
  then show ?thesis using send_within [OF assms(1)] True by simp
next
  case False
  have "within b (abort msg :: ctl_step) s" for b msg by (simp add: within_def wp_abort)
  then show ?thesis
    unfolding ctl_step_def using False
    by (simp add: init_within start_within clear_within disable_within members_within returned_within
        ctl_poll_within assms del: insert_iff)
qed

section \<open>The machine\<close>

text \<open>The controller of a new process has the generation counter at a random value. The guest calls
  it or the machine is reset.\<close>

definition ctl_init :: "ble_controller \<Rightarrow> bool" where
  "ctl_init s \<longleftrightarrow> (\<exists>start. s = new_controller new_socket start 0 [])"

inductive ctl_transition :: "ble_controller \<Rightarrow> ble_controller \<Rightarrow> bool" where
  ctl_called: "freshLink g \<Longrightarrow> ctl_step g operation registers s = Normal r t \<Longrightarrow> ctl_transition s t"
| ctl_restarted: "bleHleReset s = Normal () t \<Longrightarrow> ctl_transition s t"

lemma new_controller_inv: "ctl_inv (new_controller new_socket start 0 [])"
proof -
  have "socket_in None new_socket" by (simp add: socket_in_def) (simp add: new_socket_def)
  moreover have "resolving_ok [] (zeroBytes 4)" by (rule resolving_empty)
  moreover have "parameters_ok 24 0 200" by (simp add: parameters_ok_def timeoutTooShort_def)
  ultimately show ?thesis
    by (simp add: new_controller_def ctl_inv_defs zeroBytes_def [of 8] zeroBytes_def [of 6] zeroBytes_def [of 15])
qed

lemma ctl_step_grows:
  assumes "ctl_inv s" and "freshLink g" and "ctl_step g operation registers s = Normal r t"
  shows "grows_to (operation = HleSend \<and> sendsKey g registers s) s t"
  using ctl_step_within [OF assms(1,2), of operation registers] assms(3) by (simp add: within_def wp_def)

interpretation controller: state_machine ctl_init ctl_transition ctl_inv
proof
  show "ctl_init s \<Longrightarrow> ctl_inv s" for s by (auto simp: ctl_init_def new_controller_inv)
  show "ctl_inv t" if "ctl_inv s" "ctl_transition s t" for s t
    using that(2,1)
    by cases (auto simp: grows_to_def bleHleReset_def clear_controller_def modify_def clear_controller_step
        dest: ctl_step_grows)
qed

text \<open>A sequence of calls, for concrete runs.\<close>

fun calls :: "(guest \<times> u32 \<times> u32 list) list \<Rightarrow> ble_controller \<Rightarrow> ble_controller option" where
  "calls [] s = Some s"
| "calls ((g, operation, registers) # rest) s = (case ctl_step g operation registers s of
     Normal r t \<Rightarrow> calls rest t | _ \<Rightarrow> None)"

lemma calls_reachable:
  assumes "reachable ctl_init ctl_transition s" and "list_all (\<lambda>c. freshLink (fst c)) cs" and "calls cs s = Some t"
  shows "reachable ctl_init ctl_transition t"
  using assms
proof (induction cs arbitrary: s)
  case (Cons c cs)
  obtain g operation registers where c: "c = (g, operation, registers)" by (cases c)
  with Cons.prems show ?case
    by (auto split: outcome.splits intro: Cons.IH reach_step ctl_called)
qed simp

section \<open>A session\<close>

text \<open>The run the witnesses use: the guest brings the controller up, advertises, the peer connects
  and asks for encryption, and the guest answers with the key.\<close>

definition bytesAt :: "u32 \<Rightarrow> bytes \<Rightarrow> u32 \<Rightarrow> byte" where
  "bytesAt base bs address =
     (let i = unat (address - base) in if address < base \<or> length bs \<le> i then 0 else bs ! i)"

definition demo_guest :: "bytes \<Rightarrow> bytes \<Rightarrow> guest" where
  "demo_guest ram stream = \<lparr>g_byte = bytesAt 0x3FC90000 ram, g_readable = (\<lambda>_ _. True),
     g_writable = (\<lambda>_ _. True), g_timeNs = 0, g_random = (\<lambda>_. 0), g_gattList = 0,
     g_open = \<lparr>env_path = Some ''peer'', env_pathLimit = 100, env_connects = True, env_configured = True,
       env_kernel = \<lparr>k_sent = [], k_stream = stream, k_sends = [], k_recvs = replicate 8 (RecvBytes 40)\<rparr>\<rparr>\<rparr>"

definition demo_registers :: "u32 list \<Rightarrow> u32 list" where
  "demo_registers xs = xs @ replicate (16 - length xs) 0"

definition demo_messages :: "message list" where
  "demo_messages = [(Connect, 0, [0, 1, 2, 3, 4, 5, 6, 24, 0, 0, 0, 200, 0]),
     (Encrypt, 8, replicate 10 0 @ replicate 16 5)]"

definition demo_calls :: "(guest \<times> u32 \<times> u32 list) list" where
  "demo_calls = [
     (demo_guest [] [], HleAllocated, demo_registers [0, 0, 0, 0, 0, 0, 0, 0, 0, 0, 0x3FC80000]),
     (demo_guest [] [], HleTaskCreated, demo_registers [0, 0, 0, 0, 0, 0, 0, 0, 0, 0, 1]),
     (demo_guest [] [], HleEnable, demo_registers [0, 0, 1]),
     (demo_guest [1, 0, 0, 0, 1, 0, 0, 0] [], HleRegister, demo_registers [0, 0, 0x3FC90000]),
     (demo_guest [1, 0x0A, 0x20, 1, 1] [], HleSend, demo_registers [0, 0, 0x3FC90000, 5]),
     (demo_guest [] (concat (map frame demo_messages)), HleTaskPoll, demo_registers []),
     (demo_guest [] [], HleReadyReturned, demo_registers [])]"

definition demo_key :: "guest \<times> u32 \<times> u32 list" where
  "demo_key = (demo_guest ([1, 0x1A, 0x20, 18, 1, 0] @ replicate 16 5) [], HleSend,
     demo_registers [0, 0, 0x3FC90000, 22])"

definition demo_start :: ble_controller where
  "demo_start = new_controller new_socket 7 0 []"

lemma demo_fresh: "list_all (\<lambda>c. freshLink (fst c)) (demo_calls @ [demo_key])"
  by code_simp

lemma demo_states: "map_option (\<lambda>s.
      ((connection s, ctl_encrypted s, commandPending s, length (ctl_events s), aclAssembly s, completedAcl s),
       map_option (\<lambda>t. (connection t, session_after (sock_log (ctl_peer t)), ctl_encrypted t, fd (ctl_peer t)))
         (calls [demo_key] s)))
    (calls demo_calls demo_start) = Some ((1, False, False, 1, [], 0), Some (1, Some (Some 8), True, True))"
  by code_simp

lemma calls_append: "calls (xs @ ys) u = Option.bind (calls xs u) (calls ys)"
  by (induction xs u rule: calls.induct) (auto split: outcome.splits)

lemma demo_half:
  obtains s t where "calls demo_calls demo_start = Some s" and "connection s = 1" and "\<not> ctl_encrypted s"
    and "\<not> commandPending s" and "length (ctl_events s) = 1" and "aclAssembly s = []" and "completedAcl s = 0"
    and "calls [demo_key] s = Some t" and "ctl_encrypted t"
  using demo_states by (auto simp del: calls.simps)

lemma demo_run:
  obtains t where "calls (demo_calls @ [demo_key]) demo_start = Some t" and "connection t = 1"
    and "session_after (sock_log (ctl_peer t)) = Some (Some 8)" and "ctl_encrypted t" and "fd (ctl_peer t)"
  using demo_states unfolding calls_append by (auto simp del: calls.simps)

lemma demo_reachable:
  assumes "calls cs demo_start = Some s" and "list_all (\<lambda>c. freshLink (fst c)) cs"
  shows "reachable ctl_init ctl_transition s"
  by (rule calls_reachable [OF reach_init assms(2,1)]) (auto simp: ctl_init_def demo_start_def)

section \<open>Properties of reachable controllers\<close>

text \<open>C5: a reachable controller is well-formed: the masks, addresses and tables have the sizes of
  their arrays, the resolving list holds at most four entries of distinct identity, the connection
  parameters are those the specification allows, without a connection there is no key, encryption,
  reassembly or credit left, advertising and a connection exclude each other, and every queued
  event fits the packet area of the workspace.\<close>

theorem controller_well_formed:
  assumes "reachable ctl_init ctl_transition s"
  shows "ctl_sizes s \<and> resolving_ok (resolvingList s) (privacyModes s) \<and>
    parameters_ok (interval s) (latency s) (supervisionTimeout s) \<and>
    (connection s = 0 \<longrightarrow> unlinked_ok s) \<and> (connection s \<noteq> 0 \<longrightarrow> \<not> ctl_advertising s) \<and>
    connection s \<le> 0xEFF \<and> completedAcl s \<le> 12 \<and> assembly_ok (aclAssembly s) \<and>
    (\<forall>e \<in> set (ctl_events s). 2 \<le> length e \<and> unat PacketOffset + length e \<le> unat WorkspaceSize)"
  using controller.reachable_inv [OF assms]
  by (auto simp: ctl_inv_def ctl_link_def event_ok_def PacketOffset_def WorkspaceSize_def)

theorem controller_well_formed_witness:
  "\<exists>s. calls (demo_calls @ [demo_key]) demo_start = Some s \<and> connection s = 1 \<and>
    \<not> ctl_advertising s \<and> parameters_ok (interval s) (latency s) (supervisionTimeout s)"
proof -
  obtain s where s: "calls (demo_calls @ [demo_key]) demo_start = Some s" "connection s = 1"
    using demo_run by blast
  show ?thesis
    using controller_well_formed [OF demo_reachable [OF s(1) demo_fresh]] s by auto
qed

text \<open>C4: what the peer is told is a run of the session protocol. The messages of a reachable
  controller since the socket was opened open and close sessions alternately, \<open>Data\<close> and
  \<open>Encryption\<close> carry the generation of the session that is open, and while the socket is up the
  session they leave open is exactly the connection the controller has.\<close>

theorem session_protocol_followed:
  assumes "reachable ctl_init ctl_transition s"
  shows "session_after (sock_log (ctl_peer s)) \<noteq> None \<and>
    (fd (ctl_peer s) \<longrightarrow> session_after (sock_log (ctl_peer s)) =
       Some (if connection s = 0 then None else Some (ctl_generation s)))"
  using controller.reachable_inv [OF assms] by (simp add: ctl_inv_def socket_in_def sessionOf_def)

theorem session_protocol_followed_witness:
  "\<exists>s. calls (demo_calls @ [demo_key]) demo_start = Some s \<and> connection s = 1 \<and>
    session_after (sock_log (ctl_peer s)) = Some (Some (ctl_generation s))"
proof -
  obtain s where s: "calls (demo_calls @ [demo_key]) demo_start = Some s" "connection s = 1" "fd (ctl_peer s)"
    using demo_run by blast
  show ?thesis
    using session_protocol_followed [OF demo_reachable [OF s(1) demo_fresh]] s by auto
qed

text \<open>C3: the link is encrypted only after the host of the guest proved that it has the key. A call
  that switches encryption on is the transmission of a long-term key reply for the handle of the
  connection whose key is, byte for byte, the one the peer asked to encrypt with.\<close>

theorem encryption_needs_key:
  assumes "reachable ctl_init ctl_transition s" and "freshLink g"
    and "ctl_step g operation registers s = Normal r t"
    and "\<not> ctl_encrypted s" and "ctl_encrypted t"
  shows "operation = HleSend \<and> (\<exists>packet. tryRead g (registers ! 2) (unat (registers ! 3)) = Some packet \<and>
    packet ! 0 = 1 \<and> leFields packet 1 = 0x201A \<and> connection s \<noteq> 0 \<and> leFields packet 4 = connection s \<and>
    pendingKey s = Some (drop 6 packet))"
proof -
  have "leFields (drop 4 packet) 0 = leFields packet 4" if "length (drop 4 packet) = 18" for packet :: bytes
    using that by (simp add: leFields_def)
  then show ?thesis
    using ctl_step_grows [OF controller.reachable_inv [OF assms(1)] assms(2,3)] assms(4,5)
    by (fastforce simp: grows_to_def sendsKey_def keyAccepted_def)
qed

theorem encryption_needs_key_witness:
  "\<exists>s t. calls demo_calls demo_start = Some s \<and> calls [demo_key] s = Some t \<and> ctl_encrypted t \<and>
    pendingKey s = Some (replicate 16 5)"
proof -
  obtain s t where s: "calls demo_calls demo_start = Some s" "\<not> ctl_encrypted s"
    and last: "calls [demo_key] s = Some t" and t: "ctl_encrypted t"
    using demo_half by blast
  let ?g = "fst demo_key" and ?registers = "snd (snd demo_key)"
  have packet: "tryRead ?g (?registers ! 2) (unat (?registers ! 3)) = Some ([1, 0x1A, 0x20, 18, 1, 0] @ replicate 16 5)"
    by code_simp
  obtain r where r: "ctl_step ?g HleSend ?registers s = Normal r t"
    using last by (auto simp: demo_key_def split: outcome.splits)
  have "list_all (\<lambda>c. freshLink (fst c)) demo_calls" "freshLink ?g" using demo_fresh by auto
  from encryption_needs_key [OF demo_reachable [OF s(1) this(1)] this(2) r s(2) t] packet
  have "pendingKey s = Some (replicate 16 5)" by simp
  then show ?thesis using s last t by blast
qed

text \<open>C8: the peer cannot end the process. Whatever bytes arrive on the socket, polling it returns
  as long as the event queue has room; it appends at most one event to a queue of 24 or more and
  never leaves more than 30 otherwise.\<close>

theorem polling_the_peer_returns:
  assumes "reachable ctl_init ctl_transition s" and "freshLink g" and "length (ctl_events s) < 64"
  shows "\<exists>t. pollPeer g s = Normal () t \<and> length (ctl_events t) \<le> max 30 (length (ctl_events s) + 1) \<and>
    take (length (ctl_events s)) (ctl_events t) = ctl_events s"
proof -
  have "wp (pollPeer g) (\<lambda>_ t. ctlStep False (29 - length (ctl_events s) + 1) s t) (\<lambda>_ _. False) (\<lambda>_ _. False) s"
    by (rule wp_weaken [OF pollPeer_step [OF controller.reachable_inv [OF assms(1)] assms(2)]]) (use assms(3) in auto)
  then obtain t where t: "pollPeer g s = Normal () t" "ctlStep False (29 - length (ctl_events s) + 1) s t"
    by (cases "pollPeer g s") (auto simp: wp_def)
  have "length (ctl_events t) \<le> max 30 (length (ctl_events s) + 1)"
    using ctlStep_length(3) [OF t(2)] by simp
  moreover have "take (length (ctl_events s)) (ctl_events t) = ctl_events s"
    using t(2) by (auto simp: ctlStep_def)
  ultimately show ?thesis using t(1) by blast
qed

theorem polling_the_peer_returns_witness:
  "\<exists>t. pollPeer (demo_guest [] [0xFF, 0xFF, 0, 1, 2, 3]) demo_start = Normal () t \<and> length (ctl_events t) \<le> 30"
  using polling_the_peer_returns [OF reach_init, of demo_start "demo_guest [] [0xFF, 0xFF, 0, 1, 2, 3]"]
  by (auto simp: ctl_init_def demo_start_def freshLink_def demo_guest_def new_controller_def)

text \<open>C9: every HCI command is answered, once. A command with a consistent length, sent while no
  other is pending and the queue has room, never ends the process: exactly one completion event
  with its opcode is queued, behind the events of the past and before those the command causes.\<close>

theorem command_completed_once:
  assumes "reachable ctl_init ctl_transition s" and "unat (bs ! 3) + 4 = amount"
    and "\<not> commandPending s" and "length (ctl_events s) < 64"
  shows "\<exists>t reply es. send_command g bs amount s = Normal () t \<and>
    ctl_events t = ctl_events s @ completionEvent (leFields bs 1) reply # es \<and>
    filter isCompletion es = [] \<and> commandPending t"
proof -
  have "wp (send_command g bs amount) (\<lambda>_. answered s (leFields bs 1) (drop 4 bs)) (\<lambda>_ _. False) (\<lambda>_ _. False) s"
    by (rule wp_weaken [OF send_command_step [OF controller.reachable_inv [OF assms(1)]]])
      (use assms in \<open>auto simp: full_def\<close>)
  then show ?thesis
    by (cases "send_command g bs amount s") (auto simp: wp_def answered_def filter_empty_conv)
qed

theorem command_completed_once_witness:
  "\<exists>s t reply es. calls demo_calls demo_start = Some s \<and>
    send_command (demo_guest [] []) [1, 0x03, 0x0C, 0] 4 s = Normal () t \<and>
    ctl_events t = ctl_events s @ completionEvent 0x0C03 reply # es \<and> filter isCompletion es = []"
proof -
  obtain s where s: "calls demo_calls demo_start = Some s" "\<not> commandPending s" "length (ctl_events s) < 64"
    using demo_half by (metis one_less_numeral_iff semiring_norm(76))
  have "list_all (\<lambda>c. freshLink (fst c)) demo_calls" using demo_fresh by auto
  from demo_reachable [OF s(1) this] have reach: "reachable ctl_init ctl_transition s" .
  have opcode: "leFields [1, 0x03, 0x0C, 0] 1 = 0x0C03" by code_simp
  obtain t reply es where t: "send_command (demo_guest [] []) [1, 0x03, 0x0C, 0] 4 s = Normal () t"
      "ctl_events t = ctl_events s @ completionEvent 0x0C03 reply # es" "filter isCompletion es = []"
    using command_completed_once [OF reach, of "[1, 3, 12, 0]" 4 "demo_guest [] []"] s(2,3) opcode
    by (auto simp: leFields_def)
  then show ?thesis using s(1) by blast
qed

end
