(* ===== verification/AclTransfer.thy ===== *)
theory AclTransfer
  imports ControllerProperties
begin

text \<open>
  Fragmentation and reassembly of L2CAP packets in the controller. \<open>receiveL2cap\<close> cuts a packet of
  the peer into ACL packets for the guest, \<open>sendAcl\<close> puts the ACL packets of the guest together
  again; the two agree on headers, lengths and the start and continuation flags.
\<close>

unbundle bit_operations_syntax

section \<open>Headers\<close>

lemma handle_bits:
  assumes "(h :: u16) \<le> 0xEFF"
  shows "h AND 0x0FFF = h" and "h AND 0xC000 = 0" and "drop_bit 12 h = 0"
proof -
  have "unat h < 2 ^ 12" using assms by (simp add: word_le_nat_alt)
  then have t: "take_bit 12 h = h"
    by (simp add: word_unat_eq_iff unsigned_take_bit_eq take_bit_nat_eq_self)
  have m: "(0x0FFF :: u16) = mask 12" by (simp add: mask_eq_exp_minus_1)
  show h: "h AND 0x0FFF = h" unfolding m using t by (simp add: take_bit_eq_mask)
  have "h AND 0xC000 = h AND (0x0FFF AND 0xC000)" using h by (simp only: and.assoc [symmetric])
  then show "h AND 0xC000 = 0" by simp
  have "drop_bit 12 (take_bit 12 h) = 0" by (rule bit_word_eqI) (simp add: bit_simps)
  then show "drop_bit 12 h = 0" using t by simp
qed

lemma header_fields:
  assumes "(h :: u16) \<le> 0xEFF" and "c = 0x2000 \<or> c = 0x1000"
  shows "(h OR c) AND 0x0FFF = h" and "(h OR c) AND 0xC000 = 0"
    and "drop_bit 12 (h OR c) AND 3 = (if c = 0x2000 then 2 else 1)"
  using assms(2) handle_bits [OF assms(1)]
  by (auto simp: bit.conj_disj_distrib2 drop_bit_or)

section \<open>Fragmentation\<close>

function fragments :: "u16 \<Rightarrow> nat \<Rightarrow> bytes \<Rightarrow> bytes list" where
  "fragments handle offset pkt =
     (if length pkt \<le> offset then []
      else aclPacket handle offset (take AclPayloadBytes (drop offset pkt))
        # fragments handle (offset + AclPayloadBytes) pkt)"
  by pat_completeness auto
termination
  by (relation "measure (\<lambda>(handle, offset, pkt). length pkt - offset)") (auto simp: acl_limits)

declare fragments.simps [simp del]

definition delivered :: "bytes list \<Rightarrow> ble_controller \<Rightarrow> ble_controller \<Rightarrow> bool" where
  "delivered es s t \<longleftrightarrow> ctl_events t = ctl_events s @ es \<and> connection t = connection s \<and>
     ctl_peer t = ctl_peer s \<and> ctl_generation t = ctl_generation s \<and> aclAssembly t = aclAssembly s \<and>
     completedAcl t = completedAcl s"

lemma receiveL2cap_fragments:
  "wp (receiveL2cap_from offset pkt) (\<lambda>_. delivered (fragments (connection s) offset pkt) s)
    (\<lambda>_ _. False) (\<lambda>_ _. False) s"
proof (induction offset pkt arbitrary: s rule: receiveL2cap_from.induct)
  case (1 offset pkt)
  show ?case
  proof (cases "length pkt \<le> offset")
    case True
    then show ?thesis
      by (simp add: receiveL2cap_from.simps fragments.simps wp_rules delivered_def)
  next
    case False
    let ?t = "s\<lparr>ctl_events := ctl_events s @ [aclPacket (connection s) offset (take AclPayloadBytes (drop offset pkt))],
      aclReceived := aclReceived s + 1, aclFragments := aclFragments s + (if offset = 0 then 0 else 1)\<rparr>"
    have "wp (receiveL2cap_from (offset + AclPayloadBytes) pkt)
        (\<lambda>_. delivered (fragments (connection s) offset pkt) s) (\<lambda>_ _. False) (\<lambda>_ _. False) ?t"
      by (rule wp_weaken [OF 1(1) [OF False]])
        (simp_all add: delivered_def fragments.simps [of "connection s" offset pkt] False)
    then show ?thesis
      unfolding receiveL2cap_from.simps [of offset pkt] wp_if
      by (simp only: wp_block_Cons wp_block_Nil wp_modify False if_False)
  qed
qed

section \<open>Reassembly\<close>

text \<open>The guest sends the ACL packets it was given back, without the H4 type byte.\<close>

definition echo :: "bytes list \<Rightarrow> ctl_op" where
  "echo es = forEach (\<lambda>e. sendAcl (tl e)) es"

definition sduLength :: "bytes \<Rightarrow> bool" where
  "sduLength pkt \<longleftrightarrow> 4 \<le> length pkt \<and> length pkt \<le> MaxL2capBytes \<and> unat (leFields pkt 0) + 4 = length pkt"

lemma sendAcl_fragment:
  assumes "connection s \<le> 0xEFF" and "connection s \<noteq> 0" and "length fragment \<le> AclPayloadBytes"
    and "(offset = 0) = (aclAssembly s = [])"
  shows "wp (sendAcl (tl (aclPacket (connection s) offset fragment))) Q E A s =
    wp (assembleAcl fragment) Q E A (s\<lparr>aclFragments := aclFragments s + (if offset = 0 then 0 else 1)\<rparr>)"
proof -
  define c :: u16 where "c = (if offset = 0 then 0x2000 else 0x1000)"
  define h where "h = connection s OR c"
  define n :: u16 where "n = of_nat (length fragment)"
  have n: "unat n = length fragment"
    unfolding n_def using assms(3) by (intro unat_of_nat_u16) (simp add: AclPayloadBytes_def)
  have tl: "tl (aclPacket (connection s) offset fragment) =
      ucast h # ucast (drop_bit 8 h) # ucast n # ucast (drop_bit 8 n) # fragment"
    by (simp add: aclPacket_def appendLe16_def h_def c_def n_def)
  have "c = 0x2000 \<or> c = 0x1000" by (simp add: c_def)
  note header = header_fields [OF assms(1) this, folded h_def]
  have boundary: "drop_bit 12 h AND 3 = (if offset = 0 then 2 else 1)" using header(3) by (simp add: c_def)
  show ?thesis
    unfolding tl sendAcl_def
    using header(1,2) boundary assms n by (cases "offset = 0") (simp_all add: wp_rules Let_def)
qed

lemma assembleAcl_part:
  assumes "aclAssembly s @ fragment = take n pkt" and "sduLength pkt" and "4 \<le> n" and "n < length pkt"
    and "completedAcl s < 12"
  shows "wp (assembleAcl fragment) Q E A s = Q () (s\<lparr>aclAssembly := take n pkt,
    completedAcl := completedAcl s + 1, aclSent := aclSent s + 1\<rparr>)"
proof -
  have "\<not> 12 < completedAcl s + 1" using assms(5) by (simp add: inc_le not_less)
  moreover have "length (aclAssembly s) + length fragment = n"
    using arg_cong [OF assms(1), of length] assms(4) by simp
  moreover have "unat (le16 (pkt ! 0) (pkt ! 1)) + 4 = length pkt" "length pkt \<le> 1024"
    using assms(2) by (auto simp: sduLength_def leFields_def MaxL2capBytes_def)
  ultimately show ?thesis
    using assms by (simp add: assembleAcl_def wp_rules Let_def MaxL2capBytes_def min_def)
qed

lemma assembleAcl_last:
  assumes "aclAssembly s @ fragment = pkt" and "sduLength pkt" and "completedAcl s < 12"
  shows "wp (assembleAcl fragment) Q E A s = Q () (s\<lparr>
    ctl_peer := sock_sent Data (ctl_generation s) pkt (ctl_peer s), aclAssembly := [],
    completedAcl := completedAcl s + 1, aclSent := aclSent s + 1\<rparr>)"
proof -
  have "\<not> 12 < completedAcl s + 1" using assms(3) by (simp add: inc_le not_less)
  moreover have "length (aclAssembly s) + length fragment = length pkt"
    using arg_cong [OF assms(1), of length] by simp
  moreover have "unat (le16 (pkt ! 0) (pkt ! 1)) + 4 = length pkt" "4 \<le> length pkt" "length pkt \<le> 1024"
    using assms(2) by (auto simp: sduLength_def leFields_def MaxL2capBytes_def)
  ultimately show ?thesis
    using assms(1) by (simp add: assembleAcl_def wp_rules Let_def MaxL2capBytes_def)
qed

lemma echo_fragments:
  assumes "connection s \<le> 0xEFF" and "connection s \<noteq> 0" and "sduLength pkt"
    and "aclAssembly s = take offset pkt" and "offset < length pkt" and "offset = 0 \<or> 4 \<le> offset"
    and "unat (completedAcl s) + (length pkt - offset + 250) div 251 \<le> 12"
  shows "wp (echo (fragments (connection s) offset pkt)) (\<lambda>_ t. aclAssembly t = [] \<and>
      ctl_peer t = sock_sent Data (ctl_generation s) pkt (ctl_peer s) \<and> connection t = connection s)
    (\<lambda>_ _. False) (\<lambda>_ _. False) s"
  using assms
proof (induction "connection s" offset pkt arbitrary: s rule: fragments.induct)
  case (1 offset pkt)
  let ?f = "take AclPayloadBytes (drop offset pkt)"
  let ?s = "s\<lparr>aclFragments := aclFragments s + (if offset = 0 then 0 else 1)\<rparr>"
  have room: "1 \<le> (length pkt - offset + 250) div 251" using 1(6) by (simp add: Suc_le_eq div_greater_zero_iff)
  then have credit: "completedAcl s < 12" using 1(8) by (simp add: word_less_nat_alt)
  have empty: "(offset = 0) = (aclAssembly s = [])" using 1(5,6) by auto
  have joined: "aclAssembly ?s @ ?f = take (offset + AclPayloadBytes) pkt"
    using 1(5) by (simp add: take_add)
  have unfold: "wp (echo (fragments (connection s) offset pkt)) Q E A s = wp (assembleAcl ?f)
      (\<lambda>_. wp (echo (fragments (connection s) (offset + AclPayloadBytes) pkt)) Q E A) E A ?s" for Q E A
    using 1(6) sendAcl_fragment [OF 1(2,3) _ empty, of ?f]
    by (subst fragments.simps) (simp add: echo_def wp_bind)
  show ?case
  proof (cases "offset + AclPayloadBytes < length pkt")
    case True
    let ?t = "?s\<lparr>aclAssembly := take (offset + AclPayloadBytes) pkt, completedAcl := completedAcl s + 1, aclSent := aclSent s + 1\<rparr>"
    have part: "wp (assembleAcl ?f) Q E A ?s = Q () ?t" for Q E A
      using assembleAcl_part [OF joined 1(4) _ True] credit by (simp add: AclPayloadBytes_def)
    have "unat (completedAcl s + 1) = unat (completedAcl s) + 1"
      using credit by (simp add: word_less_nat_alt unat_word_ariths)
    moreover have "(length pkt - (offset + AclPayloadBytes) + 250) div 251 + 1 = (length pkt - offset + 250) div 251"
    proof -
      have "length pkt - offset + 250 = length pkt - (offset + AclPayloadBytes) + 250 + 251"
        using True by (simp add: AclPayloadBytes_def)
      then show ?thesis by simp
    qed
    ultimately have credits: "unat (completedAcl ?t) + (length pkt - (offset + AclPayloadBytes) + 250) div 251 \<le> 12"
      using 1(8) by simp
    have "wp (echo (fragments (connection ?t) (offset + AclPayloadBytes) pkt)) (\<lambda>_ t. aclAssembly t = [] \<and>
        ctl_peer t = sock_sent Data (ctl_generation ?t) pkt (ctl_peer ?t) \<and> connection t = connection ?t)
      (\<lambda>_ _. False) (\<lambda>_ _. False) ?t"
      by (rule 1(1) [OF _ _ _ _ _ _ True _ credits]) (use 1(2-4,6) in \<open>simp_all add: AclPayloadBytes_def\<close>)
    then show ?thesis unfolding unfold part by simp
  next
    case False
    then have whole: "aclAssembly ?s @ ?f = pkt" using joined by simp
    have done': "fragments (connection s) (offset + AclPayloadBytes) pkt = []"
      using False by (simp add: fragments.simps)
    show ?thesis
      unfolding unfold done' using assembleAcl_last [OF whole 1(4)] credit by (simp add: echo_def wp_rules)
  qed
qed

section \<open>Round trip\<close>

lemma fragments_count: "length pkt \<le> MaxL2capBytes \<Longrightarrow> (length pkt - 0 + 250) div 251 \<le> 5"
  by (simp add: MaxL2capBytes_def)

text \<open>C10: reassembly undoes fragmentation. An L2CAP packet of the peer, of any size the link allows,
  is queued for the guest as ACL packets; when a host with enough credits sends exactly these ACL
  packets back, the controller accepts each of them and transmits one \<open>Data\<close> message that is the
  packet, byte for byte, and nothing is left in the reassembly buffer.\<close>

theorem acl_roundtrip:
  assumes "reachable ctl_init ctl_transition s" and "connection s \<noteq> 0" and "aclAssembly s = []"
    and "completedAcl s \<le> 7" and "sduLength pkt"
  shows "\<exists>t u. ctl_receiveL2cap pkt s = Normal () t \<and>
    echo (drop (length (ctl_events s)) (ctl_events t)) t = Normal () u \<and>
    aclAssembly u = [] \<and> ctl_peer u = sock_sent Data (ctl_generation s) pkt (ctl_peer s)"
proof -
  have handle: "connection s \<le> 0xEFF"
    using controller.reachable_inv [OF assms(1)] by (simp add: ctl_inv_def ctl_link_def)
  obtain t where t: "ctl_receiveL2cap pkt s = Normal () t" "delivered (fragments (connection s) 0 pkt) s t"
    using receiveL2cap_fragments [of 0 pkt s]
    by (cases "ctl_receiveL2cap pkt s") (auto simp: wp_def ctl_receiveL2cap_def)
  have "length pkt \<le> MaxL2capBytes" using assms(5) by (simp add: sduLength_def)
  then have credits: "unat (completedAcl t) + (length pkt - 0 + 250) div 251 \<le> 12"
    using t(2) assms(4) fragments_count by (force simp: delivered_def word_le_nat_alt)
  have "wp (echo (fragments (connection t) 0 pkt)) (\<lambda>_ u. aclAssembly u = [] \<and>
      ctl_peer u = sock_sent Data (ctl_generation t) pkt (ctl_peer t) \<and> connection u = connection t)
    (\<lambda>_ _. False) (\<lambda>_ _. False) t"
    by (rule echo_fragments [OF _ _ assms(5) _ _ _ credits])
      (use t(2) handle assms in \<open>auto simp: delivered_def sduLength_def\<close>)
  then obtain u where "echo (fragments (connection t) 0 pkt) t = Normal () u" "aclAssembly u = []"
      "ctl_peer u = sock_sent Data (ctl_generation t) pkt (ctl_peer t)"
    by (cases "echo (fragments (connection t) 0 pkt) t") (auto simp: wp_def)
  then show ?thesis using t by (auto simp: delivered_def)
qed

theorem acl_roundtrip_witness:
  "\<exists>s t u. calls demo_calls demo_start = Some s \<and> ctl_receiveL2cap [1, 0, 4, 0, 9] s = Normal () t \<and>
    echo (drop (length (ctl_events s)) (ctl_events t)) t = Normal () u \<and>
    ctl_peer u = sock_sent Data (ctl_generation s) [1, 0, 4, 0, 9] (ctl_peer s)"
proof -
  obtain s where s: "calls demo_calls demo_start = Some s" "connection s \<noteq> 0" "aclAssembly s = []" "completedAcl s \<le> 7"
    by (rule demo_half) simp
  have "list_all (\<lambda>c. freshLink (fst c)) demo_calls" using demo_fresh by auto
  from demo_reachable [OF s(1) this] have reach: "reachable ctl_init ctl_transition s" .
  have "sduLength [1, 0, 4, 0, 9]" by code_simp
  from acl_roundtrip [OF reach s(2-4) this] s(1) show ?thesis by blast
qed

end
