(* ===== verification/GattPublication.thy ===== *)
theory GattPublication
  imports ControllerProperties Catalog
begin

text \<open>
  The two ends of the GATT publication together: the controller serialises the attribute list of
  the guest and sends it in chunks, the virtual peer collects the chunks and parses them. The
  parser reads exactly the attributes the controller wrote, and the chunks arrive as one database.
\<close>

unbundle bit_operations_syntax

section \<open>Attributes\<close>

record raw_attribute =
  raw_handle :: u16
  raw_flags :: byte
  raw_keySize :: byte
  raw_uuid :: bytes
  raw_value :: bytes

definition written :: "raw_attribute \<Rightarrow> bytes" where
  "written a = attributeRecord (raw_handle a) (raw_flags a) (raw_keySize a) (raw_uuid a) (raw_value a)"

definition raw_ok :: "raw_attribute \<Rightarrow> bool" where
  "raw_ok a \<longleftrightarrow> (length (raw_uuid a) = 2 \<or> length (raw_uuid a) = 16) \<and> length (raw_value a) \<le> 19"

text \<open>The attribute the parser should see.\<close>

definition uuidText :: "bytes \<Rightarrow> string" where
  "uuidText uuid = (case uuidString uuid of Inl _ \<Rightarrow> [] | Inr text \<Rightarrow> text)"

definition seen :: "raw_attribute \<Rightarrow> attribute" where
  "seen a = \<lparr>a_handle = raw_handle a, a_permissions = raw_flags a, a_minimumKeySize = raw_keySize a,
     a_uuid = uuidText (raw_uuid a), a_value = raw_value a\<rparr>"

lemma seen_handle [simp]: "a_handle (seen a) = raw_handle a"
  by (simp add: seen_def)

lemma uuidString_ok: "length uuid = 2 \<or> length uuid = 16 \<Longrightarrow> uuidString uuid = Inr (uuidText uuid)"
  by (auto simp: uuidString_def uuidText_def requireR_def)

lemma nextAttribute_written:
  assumes "raw_ok a" and "previous < raw_handle a"
  shows "nextAttribute (written a @ rest) previous = Inr (seen a, rest)"
proof -
  define n where "n = length (raw_uuid a)"
  define m where "m = length (raw_value a)"
  define hd5 where "hd5 = [ucast (raw_handle a), ucast (drop_bit 8 (raw_handle a)), raw_flags a, raw_keySize a,
    of_nat n :: byte]"
  have n: "unat (of_nat n :: byte) = n" and m: "unat (of_nat m :: byte) = m"
    using assms(1) by (auto simp: raw_ok_def n_def m_def unsigned_of_nat take_bit_nat_eq_self)
  have w: "written a @ rest = hd5 @ raw_uuid a @ (of_nat m :: byte) # raw_value a @ rest"
    by (simp add: written_def attributeRecord_def appendLe16_def hd5_def n_def m_def)
  have len5: "length hd5 = 5" by (simp add: hd5_def)
  have at: "(written a @ rest) ! 2 = raw_flags a" "(written a @ rest) ! 3 = raw_keySize a"
      "(written a @ rest) ! 4 = of_nat n" "readLe16 (written a @ rest) = Inr (raw_handle a)"
    unfolding w by (simp_all add: hd5_def readLe16_def requireR_def)
  have size: "(written a @ rest) ! (5 + n) = of_nat m"
    unfolding w by (simp add: nth_append len5 n_def)
  have parts: "take n (drop 5 (written a @ rest)) = raw_uuid a"
      "take m (drop (6 + n) (written a @ rest)) = raw_value a"
      "drop (6 + n + m) (written a @ rest) = rest"
    unfolding w by (simp_all add: len5 n_def m_def)
  have len: "length (written a @ rest) = 6 + n + m + length rest"
    unfolding w by (simp add: len5 n_def m_def)
  have uuid: "uuidString (raw_uuid a) = Inr (uuidText (raw_uuid a))"
    using assms(1) by (intro uuidString_ok) (simp add: raw_ok_def)
  define r where "r = written a @ rest"
  show ?thesis
    unfolding nextAttribute_def Let_def r_def [symmetric]
    using at size parts len n m uuid assms(2) unfolding r_def [symmetric] by (simp add: requireR_def seen_def)
qed

fun addAll :: "attribute list \<Rightarrow> gatt_service list \<Rightarrow> string + gatt_service list" where
  "addAll [] ss = Inr ss"
| "addAll (a # as) ss = bindR (addAttribute a ss) (addAll as)"

fun rising :: "u16 \<Rightarrow> raw_attribute list \<Rightarrow> bool" where
  "rising previous [] = True"
| "rising previous (a # as) \<longleftrightarrow> previous < raw_handle a \<and> rising (raw_handle a) as"

lemma written_nonempty: "written a \<noteq> []"
  by (simp add: written_def attributeRecord_def)

lemma parse_written:
  assumes "list_all raw_ok as" and "rising previous as"
  shows "parseAttributes (concat (map written as)) previous ss = addAll (map seen as) ss"
  using assms
proof (induction as arbitrary: previous ss)
  case Nil
  then show ?case by (simp add: parseAttributes.simps)
next
  case (Cons a as)
  have "nextAttribute (written a @ concat (map written as)) previous = Inr (seen a, concat (map written as))"
    by (rule nextAttribute_written) (use Cons.prems in simp_all)
  then show ?case
    using Cons written_nonempty [of a]
    by (subst parseAttributes.simps) (auto simp: bindR_def split: sum.split)
qed

section \<open>The walk through the guest\<close>

lemma readGattBytes_length: "readGattBytes g address n = Inr bs \<Longrightarrow> length bs = n"
  by (auto simp: readGattBytes_def tryRead_length split: if_splits option.splits)

lemma readGattUuid_length: "readGattUuid g address = Inr uuid \<Longrightarrow> length uuid = 2 \<or> length uuid = 16"
  by (auto simp: readGattUuid_def bindR_eq_Inr dest: readGattBytes_length split: if_splits)

lemma declarationValue_length: "declarationValue g uuid argument following = Inr content \<Longrightarrow> length content \<le> 19"
  by (auto simp: declarationValue_def characteristicValue_def bindR_eq_Inr requireR_eq_Inr Let_def
      dest!: readGattUuid_length split: if_splits)

lemma readDatabase_written:
  assumes "readDatabase g entry previous database = Inr result"
  shows "\<exists>as. result = database @ concat (map written as) \<and> list_all raw_ok as \<and> rising previous as \<and>
    length result \<le> max (length database) 32041"
  using assms
proof (induction g entry previous database arbitrary: result rule: readDatabase.induct)
  case (1 g entry previous database)
  show ?case
  proof (cases "entry = 0")
    case True
    then show ?thesis using 1(2) by (auto simp: readDatabase.simps intro: exI [of _ "[]"])
  next
    case False
    obtain attribute uuid content where step: "readGattBytes g entry 20 = Inr attribute"
        "\<not> (leFields attribute 10 \<le> previous \<or> 32000 < length database)"
        "readGattUuid g (readLe32 (drop 4 attribute)) = Inr uuid"
        "declarationValue g uuid (readLe32 (drop 16 attribute)) (readLe32 attribute) = Inr content"
        "readDatabase g (readLe32 attribute) (leFields attribute 10) (database @ attributeRecord
          (leFields attribute 10) (attribute ! 8) (attribute ! 9) uuid content) = Inr result"
      using 1(2) False by (subst (asm) readDatabase.simps) (auto simp: Let_def split: sum.splits if_splits)
    define a where "a = \<lparr>raw_handle = leFields attribute 10, raw_flags = attribute ! 8,
      raw_keySize = attribute ! 9, raw_uuid = uuid, raw_value = content\<rparr>"
    have a: "raw_ok a" "previous < raw_handle a"
      using readGattUuid_length [OF step(3)] declarationValue_length [OF step(4)] step(2)
      by (auto simp: raw_ok_def a_def)
    have "length (written a) \<le> 41"
      using a(1) by (auto simp: raw_ok_def written_def attributeRecord_def)
    then have small: "length (database @ written a) \<le> 32041" using step(2) by simp
    have w: "attributeRecord (leFields attribute 10) (attribute ! 8) (attribute ! 9) uuid content = written a"
      by (simp add: written_def a_def)
    obtain as where "result = (database @ written a) @ concat (map written as)" "list_all raw_ok as"
        "rising (leFields attribute 10) as" "length result \<le> max (length (database @ written a)) 32041"
      using 1(1) [OF False step(1) refl step(2,3,4), unfolded w, OF step(5) [unfolded w]] by blast
    then show ?thesis
      using a small by (intro exI [of _ "a # as"]) (auto simp: a_def)
  qed
qed

section \<open>Chunks\<close>

definition chunkFlags :: "bool \<Rightarrow> bool \<Rightarrow> byte" where
  "chunkFlags first final = (if first then 1 else 0) OR (if final then 2 else 0)"

lemma chunkFlags_bits:
  "chunkFlags first final AND NOT 3 = 0" "chunkFlags first final AND 1 \<noteq> 0 \<longleftrightarrow> first"
  "chunkFlags first final AND 2 \<noteq> 0 \<longleftrightarrow> final"
  by (cases first; cases final; simp add: chunkFlags_def)+

lemma receiveCatalog_chunk:
  assumes "first \<or> catalogReceiving s" and "length (if first then [] else catalogBuffer s) + length content < MaxCatalogSize"
  shows "wp (receiveCatalog (chunkFlags first final # content)) Q E A s =
    (let buffer = (if first then [] else catalogBuffer s) @ content in
     if final then wp (bind (of_result (parseCatalog buffer)) publish) Q E A
       (s\<lparr>catalogBuffer := buffer, catalogReceiving := False\<rparr>)
     else Q () (s\<lparr>catalogBuffer := buffer, catalogReceiving := True\<rparr>))"
proof -
  have order: "s\<lparr>catalogReceiving := r, catalogBuffer := b\<rparr> = s\<lparr>catalogBuffer := b, catalogReceiving := r\<rparr>"
    for r b by simp
  note flags = chunkFlags_bits chunkFlags_bits(1) [simplified]
  show ?thesis
    using assms
    by (cases s; cases first; cases final)
      (simp_all add: receiveCatalog_def wp_rules Let_def flags require_def order split: sum.split)
qed

lemma chunks_received:
  assumes "offset < length database" and "length database < MaxCatalogSize"
    and "offset = 0 \<or> catalogReceiving s \<and> catalogBuffer s = take offset database"
  shows "wp (forEach receiveCatalog (chunksFrom offset database)) Q E A s =
    wp (bind (of_result (parseCatalog database)) publish) Q E A
      (s\<lparr>catalogBuffer := database, catalogReceiving := False\<rparr>)"
  using assms
proof (induction offset database arbitrary: s rule: chunksFrom.induct)
  case (1 offset database)
  define n where "n = min ChunkBytes (length database - offset)"
  let ?content = "take n (drop offset database)"
  let ?first = "offset = 0" and ?final = "offset + n = length database"
  have buffer: "(if ?first then [] else catalogBuffer s) @ ?content = take (offset + n) database"
    using 1(4) by (auto simp: take_add)
  have fits: "length (if ?first then [] else catalogBuffer s) + length ?content < MaxCatalogSize"
    using arg_cong [OF buffer, of length] 1(3) by simp
  have chunk: "wp (receiveCatalog (chunkFlags ?first ?final # ?content)) Q E A s =
    (if ?final then wp (bind (of_result (parseCatalog (take (offset + n) database))) publish) Q E A
       (s\<lparr>catalogBuffer := take (offset + n) database, catalogReceiving := False\<rparr>)
     else Q () (s\<lparr>catalogBuffer := take (offset + n) database, catalogReceiving := True\<rparr>))" for Q E A
    using receiveCatalog_chunk [OF _ fits, of ?final Q E A] 1(4) unfolding buffer Let_def by blast
  have unfold: "chunksFrom offset database =
      (chunkFlags ?first ?final # ?content) # chunksFrom (offset + ChunkBytes) database"
    using 1(2) by (subst chunksFrom.simps) (simp add: n_def chunkFlags_def Let_def)
  show ?case
  proof (cases ?final)
    case True
    then have "chunksFrom (offset + ChunkBytes) database = []"
      by (subst chunksFrom.simps) (simp add: n_def min_def split: if_splits)
    then show ?thesis unfolding unfold forEach.simps wp_bind chunk using True by (simp add: wp_rules)
  next
    case False
    then have next_chunk: "n = ChunkBytes" "offset + ChunkBytes < length database"
      using 1(2) by (auto simp: n_def min_def split: if_splits)
    show ?thesis
      unfolding unfold forEach.simps wp_bind [of "receiveCatalog _"] chunk
      using False next_chunk 1(2)
      by (simp, subst 1(1) [OF _ refl]) (use 1(3) in simp_all)
  qed
qed

lemma chunks_sendable: "chunk \<in> set (chunksFrom offset database) \<Longrightarrow> length chunk + 9 \<le> MaxMessageBytes"
  using chunksFrom_length [of chunk offset database] by (simp add: MaxMessageBytes_def)

section \<open>Publication\<close>

text \<open>C12: the GATT database the controller publishes is the one the peer takes over. The database is
  the records of a list of attributes with rising handles; each of its chunks fits a message, and
  after the last chunk the peer has read exactly these attributes, in order: it publishes the
  services they add up to, or rejects the catalog because one of the attributes is refused.\<close>

theorem published_database_is_received:
  assumes "guestDatabase g = Inr database"
  shows "\<exists>as. database = 2 # concat (map written as) \<and> rising 0 as \<and>
    list_all (\<lambda>chunk. length chunk + 9 \<le> MaxMessageBytes) (chunksFrom 0 database) \<and>
    forEach receiveCatalog (chunksFrom 0 database) s =
      (let t = s\<lparr>catalogBuffer := database, catalogReceiving := False\<rparr> in
       case addAll (map seen as) [] of
         Inl e \<Rightarrow> Thrown e t
       | Inr ss \<Rightarrow> if ss = [] then Thrown ''empty GATT service metadata'' t else publish ss t)"
proof -
  have "readDatabase g (g_gattList g) 0 [2] = Inr database"
    using assms by (simp add: guestDatabase_def requireR_eq_Inr bindR_eq_Inr)
  then obtain as where as: "database = [2] @ concat (map written as)" "list_all raw_ok as" "rising 0 as"
      "length database \<le> 32041"
    using readDatabase_written by fastforce
  let ?t = "s\<lparr>catalogBuffer := database, catalogReceiving := False\<rparr>"
  have "parseCatalog database = bindR (addAll (map seen as) [])
      (\<lambda>ss. requireR (ss \<noteq> []) ''empty GATT service metadata'' (Inr ss))"
    using as(1) parse_written [OF as(2,3)] by (simp add: parseCatalog_def requireR_def)
  moreover have "wp (forEach receiveCatalog (chunksFrom 0 database)) (\<lambda>u v. r = Normal u v) (\<lambda>e v. r = Thrown e v)
      (\<lambda>e v. r = Aborted e v) s = wp (bind (of_result (parseCatalog database)) publish) (\<lambda>u v. r = Normal u v)
      (\<lambda>e v. r = Thrown e v) (\<lambda>e v. r = Aborted e v) ?t" for r
    by (rule chunks_received) (use as(1,4) in \<open>auto simp: MaxCatalogSize_def\<close>)
  then have "forEach receiveCatalog (chunksFrom 0 database) s = bind (of_result (parseCatalog database)) publish ?t"
    by (cases "forEach receiveCatalog (chunksFrom 0 database) s";
        cases "bind (of_result (parseCatalog database)) publish ?t") (force simp: wp_def)+
  ultimately have "forEach receiveCatalog (chunksFrom 0 database) s =
      (let t = ?t in case addAll (map seen as) [] of Inl e \<Rightarrow> Thrown e t
       | Inr ss \<Rightarrow> if ss = [] then Thrown ''empty GATT service metadata'' t else publish ss t)"
    by (cases "addAll (map seen as) []")
      (simp_all add: bind_def of_result_def throw_def ret_def requireR_def bindR_def Let_def)
  then show ?thesis
    using as chunks_sendable [of _ 0 database] by (intro exI [of _ as]) (auto simp: list_all_iff)
qed

text \<open>A list with one service declaration.\<close>

definition gatt_ram :: bytes where
  "gatt_ram = [0, 0, 0, 0, 0x20, 0, 0xC9, 0x3F, 1, 0, 1, 0, 0, 0, 0, 0, 0x30, 0, 0xC9, 0x3F] @ replicate 12 0
     @ [16, 0, 0, 0x28] @ replicate 16 0 @ [0x40, 0, 0xC9, 0x3F] @ replicate 8 0 @ [16, 0, 0x0F, 0x18]"

definition gatt_guest :: guest where
  "gatt_guest = (demo_guest gatt_ram [])\<lparr>g_gattList := 0x3FC90000\<rparr>"

lemma gatt_demo: "guestDatabase gatt_guest = Inr [2, 1, 0, 1, 0, 2, 0, 0x28, 2, 0x0F, 0x18]"
  by code_simp

theorem published_database_is_received_witness:
  "\<exists>as. [2, 1, 0, 1, 0, 2, 0, 0x28, 2, 0x0F, 0x18] = 2 # concat (map written as) \<and> rising 0 as"
  using published_database_is_received [OF gatt_demo] by blast

end
