(* ===== verification/I2cMaster.thy ===== *)
theory I2cMaster
  imports I2cDevice
begin

text \<open>
  The I2C master of the chip, \<open>qemu/esp32s3/esp32s3_i2c.c\<close>: a list of eight commands, a transmit and
  a receive FIFO and the interrupt registers. QEMU's bus is the parameter \<open>B\<close>, a record of the five
  calls the master makes, over a bus state \<open>'b\<close>; a call answers whether it was acknowledged.
  A register access of the guest is \<open>i2cRead\<close> or \<open>i2cWrite\<close> at an aligned offset below 0x200, with
  the 32-bit value the memory region declares. \<open>i2c_irq\<close> is the level last given to \<open>qemu_set_irq\<close>.
\<close>

unbundle bit_operations_syntax

section \<open>Registers and state\<close>

definition I2cControlReg :: nat where "I2cControlReg = 0x04"
definition I2cStatusReg :: nat where "I2cStatusReg = 0x08"
definition I2cTimeoutReg :: nat where "I2cTimeoutReg = 0x0C"
definition FifoSt :: nat where "FifoSt = 0x14"
definition FifoConf :: nat where "FifoConf = 0x18"
definition I2cDataReg :: nat where "I2cDataReg = 0x1C"
definition IntRaw :: nat where "IntRaw = 0x20"
definition IntClr :: nat where "IntClr = 0x24"
definition IntEna :: nat where "IntEna = 0x28"
definition IntSt :: nat where "IntSt = 0x2C"
definition Command0Reg :: nat where "Command0Reg = 0x58"
definition I2cDate :: nat where "I2cDate = 0xF8"

definition CommandCount :: nat where "CommandCount = 8"
definition FifoCapacity :: nat where "FifoCapacity = 32"

definition OpWrite :: u32 where "OpWrite = 1"
definition OpStop :: u32 where "OpStop = 2"
definition OpRead :: u32 where "OpRead = 3"
definition OpEnd :: u32 where "OpEnd = 4"
definition OpRestart :: u32 where "OpRestart = 6"

definition CommandAckCheck :: u32 where "CommandAckCheck = 0x100"
definition CommandAckExpected :: u32 where "CommandAckExpected = 0x200"
definition CommandAckValue :: u32 where "CommandAckValue = 0x400"

definition RxWm :: u32 where "RxWm = 1"
definition TxWm :: u32 where "TxWm = 2"
definition EndDetect :: u32 where "EndDetect = 8"
definition ByteDone :: u32 where "ByteDone = 0x10"
definition I2cComplete :: u32 where "I2cComplete = 0x80"
definition I2cTimeout :: u32 where "I2cTimeout = 0x100"
definition TransStart :: u32 where "TransStart = 0x200"
definition I2cNack :: u32 where "I2cNack = 0x400"
definition TxOverflow :: u32 where "TxOverflow = 0x800"
definition RxUnderflow :: u32 where "RxUnderflow = 0x1000"

definition Master :: u32 where "Master = 0x10"
definition I2cStart :: u32 where "I2cStart = 0x20"
definition FsmReset :: u32 where "FsmReset = 0x400"
definition ConfUpdate :: u32 where "ConfUpdate = 0x800"

definition NonFifo :: u32 where "NonFifo = 0x400"
definition RxReset :: u32 where "RxReset = 0x1000"
definition TxReset :: u32 where "TxReset = 0x2000"
definition FifoProtect :: u32 where "FifoProtect = 0x4000"

lemmas i2c_offsets = I2cControlReg_def I2cStatusReg_def I2cTimeoutReg_def FifoSt_def FifoConf_def
  I2cDataReg_def IntRaw_def IntClr_def IntEna_def IntSt_def Command0Reg_def I2cDate_def
lemmas i2c_opcodes = OpWrite_def OpStop_def OpRead_def OpEnd_def OpRestart_def
lemmas i2c_raw_bits = RxWm_def TxWm_def EndDetect_def ByteDone_def I2cComplete_def I2cTimeout_def
  TransStart_def I2cNack_def TxOverflow_def RxUnderflow_def
lemmas i2c_sizes = CommandCount_def FifoCapacity_def

text \<open>The calls the master makes on the bus; a start names the direction (true is a read).\<close>

record 'b i2c_bus =
  bus_start :: "byte \<Rightarrow> bool \<Rightarrow> 'b \<Rightarrow> bool \<times> 'b"
  bus_send :: "byte \<Rightarrow> 'b \<Rightarrow> bool \<times> 'b"
  bus_recv :: "'b \<Rightarrow> byte \<times> 'b"
  bus_nack :: "'b \<Rightarrow> 'b"
  bus_end :: "'b \<Rightarrow> 'b"

record 'b i2c_master =
  i2c_regs :: "u32 list"
  tx :: bytes
  txHead :: nat
  txCount :: nat
  rx :: bytes
  rxHead :: nat
  rxCount :: nat
  commandIndex :: nat
  byteIndex :: nat
  running :: bool
  bus :: 'b
  slaveAddress :: byte
  busy :: bool
  addressed :: bool
  addressPhase :: bool
  reading :: bool
  lastNack :: bool
  i2c_irq :: bool

definition i2cReg :: "nat \<Rightarrow> 'b i2c_master \<Rightarrow> u32" where
  "i2cReg offset c = i2c_regs c ! (offset div 4)"

definition setReg :: "nat \<Rightarrow> u32 \<Rightarrow> 'b i2c_master \<Rightarrow> 'b i2c_master" where
  "setReg offset v c = c\<lparr>i2c_regs := (i2c_regs c)[offset div 4 := v]\<rparr>"

definition raiseRaw :: "u32 \<Rightarrow> 'b i2c_master \<Rightarrow> 'b i2c_master" where
  "raiseRaw bits c = setReg IntRaw (i2cReg IntRaw c OR bits) c"

section \<open>Bus and interrupt\<close>

definition i2c_updateIrq :: "'b i2c_master \<Rightarrow> 'b i2c_master" where
  "i2c_updateIrq c =
     (let conf = i2cReg FifoConf c; raw = i2cReg IntRaw c AND NOT (RxWm OR TxWm);
          raw = (if conf AND FifoProtect \<noteq> 0 then
            (let raw = (if unat (conf AND 31) < rxCount c then raw OR RxWm else raw) in
             if txCount c < unat (drop_bit 5 conf AND 31) then raw OR TxWm else raw)
            else raw);
          c = setReg IntRaw raw c in
      c\<lparr>i2c_irq := raw AND i2cReg IntEna c \<noteq> 0\<rparr>)"

definition endBus :: "'b i2c_bus \<Rightarrow> 'b i2c_master \<Rightarrow> 'b i2c_master" where
  "endBus B c = c\<lparr>bus := (if busy c then bus_end B (bus c) else bus c),
     busy := False, addressed := False, addressPhase := False\<rparr>"

definition addressDevice :: "'b i2c_bus \<Rightarrow> byte \<Rightarrow> 'b i2c_master \<Rightarrow> bool \<times> 'b i2c_master" where
  "addressDevice B v c =
     (let a = drop_bit 1 v;
          b = (if a \<noteq> slaveAddress c then bus_end B (bus c) else bus c);
          (ack, b) = bus_start B a (v AND 1 \<noteq> 0) b;
          b = (if \<not> ack then bus_end B b else b) in
      (ack, c\<lparr>bus := b, slaveAddress := a, reading := v AND 1 \<noteq> 0, addressPhase := False,
              addressed := ack\<rparr>))"

section \<open>The command list\<close>

definition opcode :: "u32 \<Rightarrow> u32" where
  "opcode command = drop_bit 11 command AND 7"

definition commandLength :: "u32 \<Rightarrow> nat" where
  "commandLength command = unat (command AND 255)"

text \<open>The loops answer whether the code jumped to \<open>paused\<close>.\<close>

definition takeTx :: "'b i2c_master \<Rightarrow> byte \<times> 'b i2c_master" where
  "takeTx c = (tx c ! txHead c,
     c\<lparr>txHead := (txHead c + 1) mod FifoCapacity, txCount := txCount c - 1\<rparr>)"

definition putByte :: "'b i2c_bus \<Rightarrow> byte \<Rightarrow> 'b i2c_master \<Rightarrow> bool \<times> 'b i2c_master" where
  "putByte B v c =
     (if addressPhase c then addressDevice B v c
      else if addressed c \<and> \<not> reading c then
        (let (ack, b) = bus_send B v (bus c) in (ack, c\<lparr>bus := b\<rparr>))
      else (False, c))"

definition writeByte :: "'b i2c_bus \<Rightarrow> 'b i2c_master \<Rightarrow> 'b i2c_master" where
  "writeByte B c =
     (let (v, c) = takeTx c; (ack, c) = putByte B v c in
      raiseRaw ByteDone (c\<lparr>lastNack := \<not> ack, byteIndex := byteIndex c + 1\<rparr>))"

definition ackMismatch :: "u32 \<Rightarrow> 'b i2c_master \<Rightarrow> bool" where
  "ackMismatch command c \<longleftrightarrow> command AND CommandAckCheck \<noteq> 0 \<and>
     lastNack c \<noteq> (command AND CommandAckExpected \<noteq> 0)"

definition readByte :: "'b i2c_bus \<Rightarrow> 'b i2c_master \<Rightarrow> 'b i2c_master" where
  "readByte B c =
     (let (v, b) = (if addressed c \<and> reading c then bus_recv B (bus c) else (0xFF, bus c)) in
      raiseRaw ByteDone (c\<lparr>bus := b,
        rx := (rx c)[(rxHead c + rxCount c) mod FifoCapacity := v],
        rxCount := rxCount c + 1, byteIndex := byteIndex c + 1\<rparr>))"

lemma raiseRaw_byteIndex [simp]: "byteIndex (raiseRaw bits c) = byteIndex c"
  by (simp add: raiseRaw_def setReg_def)

lemma writeByte_byteIndex [simp]: "byteIndex (writeByte B c) = Suc (byteIndex c)"
  by (simp add: writeByte_def takeTx_def putByte_def addressDevice_def Let_def split: prod.split)

lemma readByte_byteIndex [simp]: "byteIndex (readByte B c) = Suc (byteIndex c)"
  by (simp add: readByte_def split: prod.split)

function writeBytes :: "'b i2c_bus \<Rightarrow> u32 \<Rightarrow> 'b i2c_master \<Rightarrow> bool \<times> 'b i2c_master" where
  "writeBytes B command c =
     (if commandLength command \<le> byteIndex c then (False, c)
      else if txCount c = 0 then (True, c)
      else
        let c = writeByte B c in
        if ackMismatch command c then (True, endBus B ((raiseRaw I2cNack c)\<lparr>running := False\<rparr>))
        else writeBytes B command c)"
  by pat_completeness auto
termination
  by (relation "measure (\<lambda>(_, command, c). commandLength command - byteIndex c)") auto

function readBytes :: "'b i2c_bus \<Rightarrow> u32 \<Rightarrow> 'b i2c_master \<Rightarrow> bool \<times> 'b i2c_master" where
  "readBytes B command c =
     (if commandLength command \<le> byteIndex c then (False, c)
      else if rxCount c = FifoCapacity then (True, c)
      else readBytes B command (readByte B c))"
  by pat_completeness auto
termination
  by (relation "measure (\<lambda>(_, command, c). commandLength command - byteIndex c)") auto

declare writeBytes.simps [simp del] readBytes.simps [simp del]

definition runCommand :: "'b i2c_bus \<Rightarrow> u32 \<Rightarrow> 'b i2c_master \<Rightarrow> bool \<times> 'b i2c_master" where
  "runCommand B command c =
     (if opcode command = OpRestart then
        (False, c\<lparr>busy := True, addressPhase := True, addressed := False\<rparr>)
      else if opcode command = OpWrite then writeBytes B command c
      else if opcode command = OpRead then
        (let (paused, c) = readBytes B command c in
         if paused then (True, c)
         else (False, if commandLength command \<noteq> 0 \<and> addressed c \<and> command AND CommandAckValue \<noteq> 0
                      then c\<lparr>bus := bus_nack B (bus c)\<rparr> else c))
      else if opcode command = OpStop then
        (False, raiseRaw I2cComplete ((endBus B c)\<lparr>running := False\<rparr>))
      else if opcode command = OpEnd then
        (False, raiseRaw EndDetect (c\<lparr>running := False\<rparr>))
      else (True, endBus B ((raiseRaw I2cTimeout c)\<lparr>running := False\<rparr>)))"

definition finishCommand :: "'b i2c_master \<Rightarrow> 'b i2c_master" where
  "finishCommand c =
     (let offset = Command0Reg + commandIndex c * 4 in
      (setReg offset (i2cReg offset c OR 0x80000000) c)\<lparr>
        commandIndex := commandIndex c + 1, byteIndex := 0\<rparr>)"

lemma raiseRaw_commandIndex [simp]: "commandIndex (raiseRaw bits c) = commandIndex c"
  by (simp add: raiseRaw_def setReg_def)

lemma endBus_commandIndex [simp]: "commandIndex (endBus B c) = commandIndex c"
  by (simp add: endBus_def)

lemma writeByte_commandIndex [simp]: "commandIndex (writeByte B c) = commandIndex c"
  by (simp add: writeByte_def takeTx_def putByte_def addressDevice_def Let_def split: prod.split)

lemma readByte_commandIndex [simp]: "commandIndex (readByte B c) = commandIndex c"
  by (simp add: readByte_def split: prod.split)

lemma writeBytes_commandIndex [simp]: "commandIndex (snd (writeBytes B command c)) = commandIndex c"
proof (induction B command c rule: writeBytes.induct)
  case (1 B command c)
  then show ?case
    unfolding writeBytes.simps [of B command c] Let_def by (auto simp del: writeByte_byteIndex)
qed

lemma readBytes_commandIndex [simp]: "commandIndex (snd (readBytes B command c)) = commandIndex c"
proof (induction B command c rule: readBytes.induct)
  case (1 B command c)
  then show ?case
    unfolding readBytes.simps [of B command c] by auto
qed

lemma runCommand_commandIndex [simp]: "commandIndex (snd (runCommand B command c)) = commandIndex c"
  using readBytes_commandIndex [of B command c]
  by (cases "readBytes B command c") (simp add: runCommand_def)

lemma finishCommand_commandIndex [simp]: "commandIndex (finishCommand c) = Suc (commandIndex c)"
  by (simp add: finishCommand_def Let_def)

function runList :: "'b i2c_bus \<Rightarrow> 'b i2c_master \<Rightarrow> bool \<times> 'b i2c_master" where
  "runList B c =
     (if \<not> (running c \<and> commandIndex c < CommandCount) then (False, c)
      else
        let r = runCommand B (i2cReg (Command0Reg + commandIndex c * 4) c) c in
        if fst r then (True, snd r) else runList B (finishCommand (snd r)))"
  by pat_completeness auto
termination
  by (relation "measure (\<lambda>(_, c). CommandCount - commandIndex c)") auto

declare runList.simps [simp del]

definition runCommands :: "'b i2c_bus \<Rightarrow> 'b i2c_master \<Rightarrow> 'b i2c_master" where
  "runCommands B c =
     (let (paused, c) = runList B c;
          c = (if \<not> paused \<and> running c
               then endBus B (raiseRaw I2cTimeout (c\<lparr>running := False\<rparr>)) else c) in
      i2c_updateIrq c)"

section \<open>Register accesses\<close>

definition i2cRead :: "'b i2c_bus \<Rightarrow> nat \<Rightarrow> 'b i2c_master \<Rightarrow> u32 \<times> 'b i2c_master" where
  "i2cRead B offset c =
     (if offset = I2cStatusReg then
        (of_bool (lastNack c) OR push_bit 4 (of_bool (busy c)) OR push_bit 8 (of_nat (rxCount c)) OR
           push_bit 14 3 OR push_bit 18 (of_nat (txCount c)), c)
      else if offset = FifoSt then
        (of_nat (rxHead c) OR push_bit 5 (of_nat ((rxHead c + rxCount c) mod FifoCapacity)) OR
           push_bit 10 (of_nat (txHead c)) OR
           push_bit 15 (of_nat ((txHead c + txCount c) mod FifoCapacity)), c)
      else if offset = I2cDataReg then
        (if rxCount c = 0 then (0, i2c_updateIrq (raiseRaw RxUnderflow c))
         else (ucast (rx c ! rxHead c),
           runCommands B (c\<lparr>rxHead := (rxHead c + 1) mod FifoCapacity, rxCount := rxCount c - 1\<rparr>)))
      else if offset = IntClr then (0, c)
      else if offset = IntRaw \<or> offset = IntSt then
        (let c = i2c_updateIrq c in
         (if offset = IntSt then i2cReg IntRaw c AND i2cReg IntEna c else i2cReg IntRaw c, c))
      else
        (if offset < 0x100 then i2cReg offset c
         else if offset < 0x180 then ucast (tx c ! ((offset - 0x100) div 4))
         else ucast (rx c ! ((offset - 0x180) div 4)), c))"

definition clearDone :: "'b i2c_master \<Rightarrow> 'b i2c_master" where
  "clearDone c = fold (\<lambda>i c. let offset = Command0Reg + i * 4 in
     setReg offset (i2cReg offset c AND NOT 0x80000000) c) [0..<CommandCount] c"

definition startList :: "'b i2c_bus \<Rightarrow> u32 \<Rightarrow> 'b i2c_master \<Rightarrow> 'b i2c_master" where
  "startList B v c =
     (let c = clearDone (c\<lparr>commandIndex := 0, byteIndex := 0\<rparr>) in
      if v AND Master = 0 \<or> i2cReg FifoConf c AND NonFifo \<noteq> 0 then
        endBus B ((raiseRaw I2cTimeout c)\<lparr>running := False\<rparr>)
      else runCommands B (raiseRaw TransStart (c\<lparr>running := True\<rparr>)))"

definition i2c_writeControl :: "'b i2c_bus \<Rightarrow> u32 \<Rightarrow> 'b i2c_master \<Rightarrow> 'b i2c_master" where
  "i2c_writeControl B v c =
     (let c = setReg I2cControlReg (v AND 0x7FFF AND NOT (I2cStart OR FsmReset OR ConfUpdate)) c;
          c = (if v AND FsmReset \<noteq> 0 then
            endBus B (c\<lparr>running := False, commandIndex := 0, byteIndex := 0, lastNack := False\<rparr>)
            else c) in
      if v AND I2cStart \<noteq> 0 then startList B v c else c)"

definition writeFifoConf :: "u32 \<Rightarrow> 'b i2c_master \<Rightarrow> 'b i2c_master" where
  "writeFifoConf v c =
     (let c = setReg FifoConf (v AND 0x7FFF) c;
          c = (if v AND RxReset \<noteq> 0 then c\<lparr>rxHead := 0, rxCount := 0\<rparr> else c) in
      if v AND TxReset \<noteq> 0 then c\<lparr>txHead := 0, txCount := 0\<rparr> else c)"

definition writeData :: "'b i2c_bus \<Rightarrow> u32 \<Rightarrow> 'b i2c_master \<Rightarrow> 'b i2c_master" where
  "writeData B v c =
     (if txCount c = FifoCapacity then raiseRaw TxOverflow c
      else runCommands B (c\<lparr>tx := (tx c)[(txHead c + txCount c) mod FifoCapacity := ucast v],
        txCount := txCount c + 1\<rparr>))"

definition i2cWrite :: "'b i2c_bus \<Rightarrow> nat \<Rightarrow> u32 \<Rightarrow> 'b i2c_master \<Rightarrow> 'b i2c_master" where
  "i2cWrite B offset v c = i2c_updateIrq
     (if offset = I2cControlReg then i2c_writeControl B v c
      else if offset = FifoConf then writeFifoConf v c
      else if offset = I2cDataReg then writeData B v c
      else if offset = IntClr then setReg IntRaw (i2cReg IntRaw c AND NOT v) c
      else if offset = IntEna then setReg IntEna (v AND 0x3FFFF) c
      else if offset = I2cStatusReg \<or> offset = FifoSt \<or> offset = IntRaw \<or> offset = IntSt then c
      else if Command0Reg \<le> offset \<and> offset \<le> Command0Reg + (CommandCount - 1) * 4 then
        setReg offset (v AND 0x3FFF) c
      else if offset \<le> 0x84 \<or> offset = I2cDate then
        setReg offset (if offset = 0x80 then v AND NOT 1 else v) c
      else if 0x100 \<le> offset \<and> offset < 0x180 then
        c\<lparr>tx := (tx c)[(offset - 0x100) div 4 := ucast v]\<rparr>
      else c)"

definition i2cDefaults :: "u32 list" where
  "i2cDefaults = (replicate 64 0)[0x04 div 4 := 0x20B, 0x0C div 4 := 16,
     0x18 div 4 := FifoProtect OR push_bit 5 4 OR 11, 0x40 div 4 := 8, 0x44 div 4 := 8,
     0x48 div 4 := 8, 0x4C div 4 := 8, 0x50 div 4 := 0x300, 0x54 div 4 := 0x200000,
     0x78 div 4 := 16, 0x7C div 4 := 16, 0xF8 div 4 := 537330177]"

definition i2cReset :: "'b i2c_bus \<Rightarrow> 'b i2c_master \<Rightarrow> 'b i2c_master" where
  "i2cReset B c = i2c_updateIrq ((endBus B (c\<lparr>tx := replicate FifoCapacity 0,
     rx := replicate FifoCapacity 0, txHead := 0, txCount := 0, rxHead := 0, rxCount := 0,
     commandIndex := 0, byteIndex := 0, running := False, lastNack := False\<rparr>))\<lparr>i2c_regs := i2cDefaults\<rparr>)"

text \<open>The zeroed object a bus is attached to, before \<open>realize\<close> resets it.\<close>

definition i2c_new :: "'b \<Rightarrow> 'b i2c_master" where
  "i2c_new b = \<lparr>i2c_regs = replicate 64 0, tx = replicate FifoCapacity 0, txHead = 0, txCount = 0,
     rx = replicate FifoCapacity 0, rxHead = 0, rxCount = 0, commandIndex = 0, byteIndex = 0,
     running = False, bus = b, slaveAddress = 0, busy = False, addressed = False,
     addressPhase = False, reading = False, lastNack = False, i2c_irq = False\<rparr>"

end
