(* ===== verification/I2cProtocol.thy ===== *)
theory I2cProtocol
  imports I2cMaster
begin

text \<open>
  What the I2C master keeps: the bounds of its FIFOs and indices, the meaning of its watermark bits
  and interrupt line, and the order of the calls it makes on the bus. The locale \<open>bus_contract\<close> states
  what a bus promises a master that sends only within an acknowledged write transfer and receives
  only within an acknowledged read transfer; the invariant is proved once for every such bus.
\<close>

unbundle bit_operations_syntax

section \<open>Fields\<close>

lemma setReg_sel [simp]:
  "tx (setReg n v c) = tx c" "txHead (setReg n v c) = txHead c" "txCount (setReg n v c) = txCount c"
  "rx (setReg n v c) = rx c" "rxHead (setReg n v c) = rxHead c" "rxCount (setReg n v c) = rxCount c"
  "commandIndex (setReg n v c) = commandIndex c" "byteIndex (setReg n v c) = byteIndex c"
  "running (setReg n v c) = running c" "bus (setReg n v c) = bus c"
  "slaveAddress (setReg n v c) = slaveAddress c" "busy (setReg n v c) = busy c"
  "addressed (setReg n v c) = addressed c" "addressPhase (setReg n v c) = addressPhase c"
  "reading (setReg n v c) = reading c" "lastNack (setReg n v c) = lastNack c"
  "i2c_irq (setReg n v c) = i2c_irq c" "i2c_regs (setReg n v c) = (i2c_regs c)[n div 4 := v]"
  by (simp_all add: setReg_def)

lemma raiseRaw_sel [simp]:
  "tx (raiseRaw v c) = tx c" "txHead (raiseRaw v c) = txHead c" "txCount (raiseRaw v c) = txCount c"
  "rx (raiseRaw v c) = rx c" "rxHead (raiseRaw v c) = rxHead c" "rxCount (raiseRaw v c) = rxCount c"
  "running (raiseRaw v c) = running c" "bus (raiseRaw v c) = bus c"
  "slaveAddress (raiseRaw v c) = slaveAddress c" "busy (raiseRaw v c) = busy c"
  "addressed (raiseRaw v c) = addressed c" "addressPhase (raiseRaw v c) = addressPhase c"
  "reading (raiseRaw v c) = reading c" "lastNack (raiseRaw v c) = lastNack c"
  "length (i2c_regs (raiseRaw v c)) = length (i2c_regs c)"
  by (simp_all add: raiseRaw_def)

definition indices_ok :: "'b i2c_master \<Rightarrow> bool" where
  "indices_ok c \<longleftrightarrow> length (i2c_regs c) = 64 \<and> length (tx c) = FifoCapacity \<and>
     length (rx c) = FifoCapacity \<and> txHead c < FifoCapacity \<and> txCount c \<le> FifoCapacity \<and>
     rxHead c < FifoCapacity \<and> rxCount c \<le> FifoCapacity \<and> commandIndex c \<le> CommandCount \<and>
     byteIndex c \<le> 255 \<and> (addressed c \<longrightarrow> busy c \<and> \<not> addressPhase c) \<and> (addressPhase c \<longrightarrow> busy c)"

text \<open>The interrupt side: the watermark bits say how full the FIFOs are, the line that an enabled
  bit is set.\<close>

definition irq_ok :: "'b i2c_master \<Rightarrow> bool" where
  "irq_ok c \<longleftrightarrow>
     (i2cReg IntRaw c AND RxWm \<noteq> 0 \<longleftrightarrow> i2cReg FifoConf c AND FifoProtect \<noteq> 0 \<and>
        unat (i2cReg FifoConf c AND 31) < rxCount c) \<and>
     (i2cReg IntRaw c AND TxWm \<noteq> 0 \<longleftrightarrow> i2cReg FifoConf c AND FifoProtect \<noteq> 0 \<and>
        txCount c < unat (drop_bit 5 (i2cReg FifoConf c) AND 31)) \<and>
     (i2c_irq c \<longleftrightarrow> i2cReg IntRaw c AND i2cReg IntEna c \<noteq> 0)"

lemma watermark_bits:
  assumes "raw AND RxWm = 0" and "raw AND TxWm = 0"
  shows "(raw OR RxWm) AND RxWm \<noteq> 0" "(raw OR RxWm) AND TxWm = 0" "(raw OR TxWm) AND RxWm = 0"
    "(raw OR TxWm) AND TxWm \<noteq> 0" "((raw OR RxWm) OR TxWm) AND RxWm \<noteq> 0"
    "((raw OR RxWm) OR TxWm) AND TxWm \<noteq> 0"
  using assms by (simp_all add: bit.conj_disj_distrib2) (simp_all add: RxWm_def TxWm_def)

lemma watermarks_nonzero: "RxWm \<noteq> 0" "TxWm \<noteq> 0"
  by (simp_all add: RxWm_def TxWm_def)

lemma watermarks_cleared:
  "(raw AND NOT (RxWm OR TxWm)) AND RxWm = 0" "(raw AND NOT (RxWm OR TxWm)) AND TxWm = 0"
proof -
  have "NOT (RxWm OR TxWm) AND RxWm = 0" "NOT (RxWm OR TxWm) AND TxWm = 0"
    by (simp_all add: RxWm_def TxWm_def)
  then show "(raw AND NOT (RxWm OR TxWm)) AND RxWm = 0" "(raw AND NOT (RxWm OR TxWm)) AND TxWm = 0"
    by (simp_all only: and.assoc and_zero_eq)
qed

lemma updateIrq_frame:
  "\<exists>raw irq. i2c_updateIrq c = (setReg IntRaw raw c)\<lparr>i2c_irq := irq\<rparr>"
  unfolding i2c_updateIrq_def Let_def by blast

lemma updateIrq_irq_ok: "length (i2c_regs c) = 64 \<Longrightarrow> irq_ok (i2c_updateIrq c)"
proof -
  define raw where "raw = i2cReg IntRaw c AND NOT (RxWm OR TxWm)"
  note raw = watermarks_cleared [of "i2cReg IntRaw c", folded raw_def]
  show "length (i2c_regs c) = 64 \<Longrightarrow> irq_ok (i2c_updateIrq c)"
    unfolding i2c_updateIrq_def raw_def [symmetric] Let_def
    by (simp add: irq_ok_def i2cReg_def i2c_offsets raw watermark_bits [OF raw] watermarks_nonzero)
qed

lemma updateIrq_sel [simp]:
  "tx (i2c_updateIrq c) = tx c" "txHead (i2c_updateIrq c) = txHead c" "txCount (i2c_updateIrq c) = txCount c"
  "rx (i2c_updateIrq c) = rx c" "rxHead (i2c_updateIrq c) = rxHead c" "rxCount (i2c_updateIrq c) = rxCount c"
  "commandIndex (i2c_updateIrq c) = commandIndex c" "byteIndex (i2c_updateIrq c) = byteIndex c"
  "running (i2c_updateIrq c) = running c" "bus (i2c_updateIrq c) = bus c"
  "slaveAddress (i2c_updateIrq c) = slaveAddress c" "busy (i2c_updateIrq c) = busy c"
  "addressed (i2c_updateIrq c) = addressed c" "addressPhase (i2c_updateIrq c) = addressPhase c"
  "reading (i2c_updateIrq c) = reading c" "lastNack (i2c_updateIrq c) = lastNack c"
  "length (i2c_regs (i2c_updateIrq c)) = length (i2c_regs c)"
  by (simp_all add: i2c_updateIrq_def Let_def)

lemma commandLength_bound: "commandLength command \<le> 255"
proof -
  have "command AND 255 \<le> 255" by (rule word_and_le1)
  then show ?thesis by (simp add: commandLength_def word_le_nat_alt)
qed

lemma clearDone_frame:
  fixes c :: "'a i2c_master"
  shows "\<exists>regs. length regs = length (i2c_regs c) \<and> clearDone c = c\<lparr>i2c_regs := regs\<rparr>"
proof -
  define f where "f = (\<lambda>i (c :: 'a i2c_master). let offset = Command0Reg + i * 4 in
     setReg offset (i2cReg offset c AND NOT 0x80000000) c)"
  have f: "\<exists>regs. length regs = length (i2c_regs c) \<and> f i c = c\<lparr>i2c_regs := regs\<rparr>" for i c
    by (rule exI [of _ "i2c_regs (f i c)"]) (simp add: f_def setReg_def Let_def)
  have "\<exists>regs. length regs = length (i2c_regs c) \<and> fold f xs c = c\<lparr>i2c_regs := regs\<rparr>" for xs
  proof (induction xs arbitrary: c)
    case Nil
    show ?case by (rule exI [of _ "i2c_regs c"]) simp
  next
    case (Cons x xs)
    from f [of c x] obtain r where r: "length r = length (i2c_regs c)" "f x c = c\<lparr>i2c_regs := r\<rparr>" by blast
    from Cons.IH [of "f x c"] show ?case by (auto simp: r)
  qed
  then show ?thesis unfolding clearDone_def f_def .
qed

section \<open>The contract of the bus\<close>

locale bus_contract =
  fixes B :: "'b i2c_bus"
    and live :: "'b \<Rightarrow> bool"
    and selected :: "bool \<Rightarrow> 'b \<Rightarrow> bool"
  assumes start: "live b \<Longrightarrow> live (snd (bus_start B a r b)) \<and>
      (fst (bus_start B a r b) \<longrightarrow> selected r (snd (bus_start B a r b)))"
    and send: "live b \<Longrightarrow> selected False b \<Longrightarrow> live (snd (bus_send B v b)) \<and> selected False (snd (bus_send B v b))"
    and recv: "live b \<Longrightarrow> selected True b \<Longrightarrow> live (snd (bus_recv B b)) \<and> selected True (snd (bus_recv B b))"
    and nack: "live b \<Longrightarrow> selected r b \<Longrightarrow> live (bus_nack B b) \<and> selected r (bus_nack B b)"
    and finish: "live b \<Longrightarrow> live (bus_end B b)"
begin

definition master_inv :: "'b i2c_master \<Rightarrow> bool" where
  "master_inv c \<longleftrightarrow> indices_ok c \<and> live (bus c) \<and> (addressed c \<longrightarrow> selected (reading c) (bus c))"

lemma master_inv_raise: "master_inv (raiseRaw v c) = master_inv c"
  by (simp add: master_inv_def indices_ok_def)

lemma master_inv_setReg: "master_inv (setReg n v c) = master_inv c"
  by (simp add: master_inv_def indices_ok_def)

lemma master_inv_updateIrq: "master_inv (i2c_updateIrq c) = master_inv c"
  by (simp add: master_inv_def indices_ok_def)

lemmas master_inv_regs [simp] = master_inv_raise master_inv_setReg master_inv_updateIrq

lemma endBus_inv: "master_inv c \<Longrightarrow> master_inv (endBus B c)"
  by (auto simp: master_inv_def indices_ok_def endBus_def finish)

lemma stop_inv: "master_inv c \<Longrightarrow> master_inv (c\<lparr>running := r\<rparr>)"
  by (simp add: master_inv_def indices_ok_def)

lemma addressDevice_inv:
  assumes "master_inv c" and "busy c"
  shows "master_inv (snd (addressDevice B v c))"
proof -
  define b where "b = (if drop_bit 1 v \<noteq> slaveAddress c then bus_end B (bus c) else bus c)"
  have "live b" using assms by (auto simp: b_def master_inv_def finish)
  note s = start [OF this, of "drop_bit 1 v" "v AND 1 \<noteq> 0"]
  define r where "r = bus_start B (drop_bit 1 v) (v AND 1 \<noteq> 0) b"
  have run: "addressDevice B v c = (fst r, c\<lparr>bus := (if fst r then snd r else bus_end B (snd r)),
      slaveAddress := drop_bit 1 v, reading := v AND 1 \<noteq> 0, addressPhase := False, addressed := fst r\<rparr>)"
    unfolding r_def b_def addressDevice_def Let_def case_prod_beta by simp
  show ?thesis
    using assms s finish [of "snd r"] unfolding run r_def [symmetric]
    by (simp add: master_inv_def indices_ok_def)
qed

lemma putByte_inv:
  assumes "master_inv c"
  shows "master_inv (snd (putByte B v c))"
proof (cases "addressPhase c")
  case True
  then show ?thesis
    using assms addressDevice_inv [OF assms] by (simp add: putByte_def master_inv_def indices_ok_def)
next
  case False
  show ?thesis
  proof (cases "addressed c \<and> \<not> reading c")
    case True
    then have "live (snd (bus_send B v (bus c))) \<and> selected False (snd (bus_send B v (bus c)))"
      using assms send by (auto simp: master_inv_def)
    with True False assms show ?thesis
      by (auto simp: putByte_def master_inv_def indices_ok_def split: prod.split)
  next
    case False
    with \<open>\<not> addressPhase c\<close> assms show ?thesis by (auto simp: putByte_def)
  qed
qed

lemma writeByte_inv:
  assumes "master_inv c" and "txCount c \<noteq> 0" and "byteIndex c < 255"
  shows "master_inv (writeByte B c)"
proof -
  let ?d = "snd (takeTx c)"
  have "master_inv ?d"
    using assms by (auto simp: takeTx_def master_inv_def indices_ok_def i2c_sizes)
  then have "master_inv (snd (putByte B (fst (takeTx c)) ?d))" by (rule putByte_inv)
  moreover have "byteIndex (snd (putByte B (fst (takeTx c)) ?d)) = byteIndex c"
    by (simp add: putByte_def addressDevice_def takeTx_def Let_def split: prod.split)
  ultimately show ?thesis
    using assms(3) by (auto simp: writeByte_def master_inv_def indices_ok_def split: prod.splits)
qed

lemma readByte_inv:
  assumes "master_inv c" and "rxCount c \<noteq> FifoCapacity" and "byteIndex c < 255"
  shows "master_inv (readByte B c)"
proof -
  define p where "p = (if addressed c \<and> reading c then bus_recv B (bus c) else (0xFF, bus c))"
  have "live (snd p)" "addressed c \<Longrightarrow> selected (reading c) (snd p)"
    using assms(1) recv [of "bus c"] by (auto simp: p_def master_inv_def)
  then show ?thesis
    using assms
    by (cases p) (auto simp: readByte_def p_def [symmetric] master_inv_def indices_ok_def)
qed

lemma writeBytes_inv: "master_inv c \<Longrightarrow> master_inv (snd (writeBytes B command c))"
proof (induction "commandLength command - byteIndex c" arbitrary: c rule: less_induct)
  case less
  show ?case
  proof (cases "commandLength command \<le> byteIndex c \<or> txCount c = 0")
    case True
    then show ?thesis using less.prems by (subst writeBytes.simps) auto
  next
    case False
    let ?d = "writeByte B c"
    have "byteIndex c < 255" using False commandLength_bound [of command] by linarith
    then have d: "master_inv ?d" using False less.prems by (intro writeByte_inv) auto
    moreover have "master_inv (endBus B (raiseRaw I2cNack ?d\<lparr>running := False\<rparr>))"
      by (intro endBus_inv stop_inv) (simp add: d)
    moreover have "master_inv (snd (writeBytes B command ?d))"
      using False by (intro less.hyps d) auto
    ultimately show ?thesis using False by (subst writeBytes.simps) (simp add: Let_def)
  qed
qed

lemma readBytes_inv: "master_inv c \<Longrightarrow> master_inv (snd (readBytes B command c))"
proof (induction "commandLength command - byteIndex c" arbitrary: c rule: less_induct)
  case less
  show ?case
  proof (cases "commandLength command \<le> byteIndex c \<or> rxCount c = FifoCapacity")
    case True
    then show ?thesis using less.prems by (subst readBytes.simps) auto
  next
    case False
    have "byteIndex c < 255" using False commandLength_bound [of command] by linarith
    then have d: "master_inv (readByte B c)" using False less.prems by (intro readByte_inv) auto
    moreover have "master_inv (snd (readBytes B command (readByte B c)))"
      using False by (intro less.hyps d) auto
    ultimately show ?thesis using False by (subst readBytes.simps) simp
  qed
qed

lemma runCommand_inv:
  assumes "master_inv c"
  shows "master_inv (snd (runCommand B command c))"
proof -
  define r where "r = readBytes B command c"
  have "master_inv (snd r)" using readBytes_inv [OF assms] by (simp add: r_def)
  moreover have "master_inv ((snd r)\<lparr>bus := bus_nack B (bus (snd r))\<rparr>)" if "addressed (snd r)"
    using that calculation nack [of "bus (snd r)"] by (auto simp: master_inv_def indices_ok_def)
  moreover have "master_inv (c\<lparr>busy := True, addressPhase := True, addressed := False\<rparr>)"
    using assms by (auto simp: master_inv_def indices_ok_def)
  moreover have "master_inv (endBus B (raiseRaw I2cTimeout c\<lparr>running := False\<rparr>))"
    by (intro endBus_inv stop_inv) (simp add: assms)
  ultimately show ?thesis
    using assms writeBytes_inv [OF assms, of command]
    by (auto simp: runCommand_def r_def [symmetric] case_prod_beta stop_inv endBus_inv)
qed

lemma finishCommand_inv: "master_inv c \<Longrightarrow> commandIndex c < CommandCount \<Longrightarrow> master_inv (finishCommand c)"
  by (auto simp: finishCommand_def master_inv_def indices_ok_def Let_def)

lemma runList_inv: "master_inv c \<Longrightarrow> master_inv (snd (runList B c))"
proof (induction "CommandCount - commandIndex c" arbitrary: c rule: less_induct)
  case less
  let ?r = "runCommand B (i2cReg (Command0Reg + commandIndex c * 4) c) c"
  have r: "master_inv (snd ?r)" using less.prems by (rule runCommand_inv)
  show ?case
  proof (cases "running c \<and> commandIndex c < CommandCount")
    case True
    then have "master_inv (snd (runList B (finishCommand (snd ?r))))"
      using r by (intro less.hyps finishCommand_inv) auto
    then show ?thesis using r True by (subst runList.simps) (simp add: Let_def)
  next
    case False
    then show ?thesis using less.prems by (subst runList.simps) auto
  qed
qed

lemma runCommands_inv:
  assumes "master_inv c"
  shows "master_inv (runCommands B c)"
proof -
  have "master_inv (snd (runList B c))" using assms by (rule runList_inv)
  then show ?thesis
    by (auto simp: runCommands_def case_prod_beta Let_def intro!: endBus_inv stop_inv)
qed

lemma startList_inv:
  assumes "master_inv c"
  shows "master_inv (startList B v c)"
proof -
  define d where "d = clearDone (c\<lparr>commandIndex := 0, byteIndex := 0\<rparr>)"
  have d: "master_inv d"
    using assms clearDone_frame [of "c\<lparr>commandIndex := 0, byteIndex := 0\<rparr>"]
    by (auto simp: d_def master_inv_def indices_ok_def)
  then have "master_inv (raiseRaw TransStart (d\<lparr>running := True\<rparr>))"
    by (simp add: stop_inv)
  moreover have "master_inv (endBus B (raiseRaw I2cTimeout d\<lparr>running := False\<rparr>))"
    by (intro endBus_inv stop_inv) (simp add: d)
  ultimately show ?thesis
    by (simp add: startList_def d_def [symmetric] runCommands_inv)
qed

lemma i2cRead_inv:
  assumes "master_inv c"
  shows "master_inv (snd (i2cRead B offset c))"
proof -
  have "master_inv (c\<lparr>rxHead := (rxHead c + 1) mod FifoCapacity, rxCount := rxCount c - 1\<rparr>)"
    using assms by (auto simp: master_inv_def indices_ok_def i2c_sizes)
  then show ?thesis
    using assms by (simp add: i2cRead_def runCommands_inv Let_def)
qed

lemma i2cWrite_inv:
  assumes "master_inv c"
  shows "master_inv (i2cWrite B offset v c)"
proof -
  have reset: "master_inv (endBus B (setReg I2cControlReg x c\<lparr>running := False, commandIndex := 0,
      byteIndex := 0, lastNack := False\<rparr>))" for x
    using assms by (intro endBus_inv) (auto simp: master_inv_def indices_ok_def)
  have "master_inv (i2c_writeControl B v c)"
    using assms reset by (simp add: i2c_writeControl_def Let_def startList_inv)
  moreover have "master_inv (writeFifoConf v c)"
    using assms by (auto simp: writeFifoConf_def Let_def master_inv_def indices_ok_def i2c_sizes)
  moreover have "master_inv (c\<lparr>tx := (tx c)[(txHead c + txCount c) mod FifoCapacity := ucast v],
        txCount := txCount c + 1\<rparr>)" if "txCount c \<noteq> FifoCapacity"
    using assms that by (auto simp: master_inv_def indices_ok_def)
  moreover have "master_inv (c\<lparr>tx := (tx c)[n := ucast v]\<rparr>)" for n
    using assms by (simp add: master_inv_def indices_ok_def)
  ultimately show ?thesis
    using assms by (simp add: i2cWrite_def writeData_def runCommands_inv)
qed

lemma i2cReset_inv:
  assumes "live (bus c)"
  shows "master_inv (i2cReset B c)"
  using finish [OF assms] assms
  by (simp add: i2cReset_def master_inv_def indices_ok_def endBus_def i2cDefaults_def i2c_sizes)

end

end
