(* ===== verification/I2cProperties.thy ===== *)
theory I2cProperties
  imports I2cProtocol
begin

text \<open>
  The I2C master as a state machine over register accesses, resets and whatever happens on the bus
  meanwhile: its bounds and interrupt line, the order of its calls on the bus, and that a command
  list always runs to a reported end or to a point where it waits for the guest.
\<close>

unbundle bit_operations_syntax

section \<open>The order of the calls\<close>

datatype bus_call = CallStart byte bool bool | CallSend byte | CallRecv | CallNack | CallEnd

text \<open>The transfer the calls leave open, with its direction; \<open>None\<close> if a call was out of order.\<close>

fun transfer_step :: "bus_call \<Rightarrow> bool option \<Rightarrow> bool option option" where
  "transfer_step (CallStart a r ack) st = Some (if ack then Some r else None)"
| "transfer_step (CallSend v) st = (if st = Some False then Some st else None)"
| "transfer_step CallRecv st = (if st = Some True then Some st else None)"
| "transfer_step CallNack st = (if st = None then None else Some st)"
| "transfer_step CallEnd st = Some None"

definition transfer_after :: "bus_call list \<Rightarrow> bool option option" where
  "transfer_after calls = fold (\<lambda>call st. Option.bind st (transfer_step call)) calls (Some None)"

lemma transfer_after_snoc [simp]:
  "transfer_after (calls @ [call]) = Option.bind (transfer_after calls) (transfer_step call)"
  by (simp add: transfer_after_def)

lemma transfer_after_Nil [simp]: "transfer_after [] = Some None"
  by (simp add: transfer_after_def)

text \<open>A bus that records the calls made on it.\<close>

definition logged :: "'b i2c_bus \<Rightarrow> ('b \<times> bus_call list) i2c_bus" where
  "logged B = \<lparr>
     bus_start = (\<lambda>a r (b, l). let (ack, b) = bus_start B a r b in (ack, b, l @ [CallStart a r ack])),
     bus_send = (\<lambda>v (b, l). let (ack, b) = bus_send B v b in (ack, b, l @ [CallSend v])),
     bus_recv = (\<lambda>(b, l). let (v, b) = bus_recv B b in (v, b, l @ [CallRecv])),
     bus_nack = (\<lambda>(b, l). (bus_nack B b, l @ [CallNack])),
     bus_end = (\<lambda>(b, l). (bus_end B b, l @ [CallEnd]))\<rparr>"

interpretation any_bus: bus_contract B "\<lambda>_. True" "\<lambda>_ _. True" for B
  by unfold_locales simp_all

interpretation logged_bus: bus_contract "logged B" "\<lambda>b. transfer_after (snd b) \<noteq> None"
    "\<lambda>r b. transfer_after (snd b) = Some (Some r)" for B
  by unfold_locales (auto simp: logged_def split: prod.split)

section \<open>Steps\<close>

definition registerOffset :: "nat \<Rightarrow> bool" where
  "registerOffset offset \<longleftrightarrow> offset < 0x200 \<and> offset mod 4 = 0"

inductive i2c_step :: "'b i2c_bus \<Rightarrow> ('b \<Rightarrow> 'b \<Rightarrow> bool) \<Rightarrow> 'b i2c_master \<Rightarrow> 'b i2c_master \<Rightarrow> bool"
  for B :: "'b i2c_bus" and env :: "'b \<Rightarrow> 'b \<Rightarrow> bool" where
  i2c_step_read: "registerOffset offset \<Longrightarrow> i2c_step B env c (snd (i2cRead B offset c))"
| i2c_step_write: "registerOffset offset \<Longrightarrow> i2c_step B env c (i2cWrite B offset v c)"
| i2c_step_reset: "i2c_step B env c (i2cReset B c)"
| i2c_step_env: "env (bus c) b \<Longrightarrow> i2c_step B env c (c\<lparr>bus := b\<rparr>)"

lemma irq_ok_runCommands: "indices_ok c \<Longrightarrow> irq_ok (runCommands B c)"
proof -
  assume "indices_ok c"
  then have "any_bus.master_inv (snd (runList B c))"
    by (intro any_bus.runList_inv) (simp add: any_bus.master_inv_def)
  then have "length (i2c_regs (snd (runList B c))) = 64"
    by (simp add: any_bus.master_inv_def indices_ok_def)
  then show "irq_ok (runCommands B c)"
    unfolding runCommands_def case_prod_beta Let_def
    by (intro updateIrq_irq_ok) (simp add: endBus_def)
qed

lemma irq_ok_read:
  assumes "indices_ok c" and "irq_ok c"
  shows "irq_ok (snd (i2cRead B offset c))"
proof -
  have "indices_ok (c\<lparr>rxHead := (rxHead c + 1) mod FifoCapacity, rxCount := rxCount c - 1\<rparr>)"
    using assms(1) by (auto simp: indices_ok_def i2c_sizes)
  then show ?thesis
    using assms by (simp add: i2cRead_def Let_def irq_ok_runCommands updateIrq_irq_ok indices_ok_def)
qed

lemma irq_ok_write:
  assumes "indices_ok c"
  shows "irq_ok (i2cWrite B offset v c)"
proof -
  have "any_bus.master_inv (i2cWrite B offset v c)"
    using assms by (intro any_bus.i2cWrite_inv) (simp add: any_bus.master_inv_def)
  then have "length (i2c_regs (i2cWrite B offset v c)) = 64"
    by (simp add: any_bus.master_inv_def indices_ok_def)
  then show ?thesis
    unfolding i2cWrite_def by (intro updateIrq_irq_ok) simp
qed

lemma irq_ok_reset: "irq_ok (i2cReset B c)"
  unfolding i2cReset_def by (intro updateIrq_irq_ok) (simp add: i2cDefaults_def)

lemma irq_ok_bus: "irq_ok (c\<lparr>bus := b\<rparr>) = irq_ok c"
  by (simp add: irq_ok_def i2cReg_def)

interpretation i2c_machine: state_machine "\<lambda>c. \<exists>b. c = i2cReset B (i2c_new b)" "i2c_step B env"
    "\<lambda>c. indices_ok c \<and> irq_ok c" for B :: "'b i2c_bus" and env
proof
  fix s :: "'b i2c_master" assume "\<exists>b. s = i2cReset B (i2c_new b)"
  then have "any_bus.master_inv s" by (auto intro: any_bus.i2cReset_inv)
  then show "indices_ok s \<and> irq_ok s"
    using \<open>\<exists>b. s = i2cReset B (i2c_new b)\<close> by (auto simp: any_bus.master_inv_def irq_ok_reset)
next
  fix s t :: "'b i2c_master" assume inv: "indices_ok s \<and> irq_ok s" and step: "i2c_step B env s t"
  then have m: "any_bus.master_inv s" by (simp add: any_bus.master_inv_def)
  from step show "indices_ok t \<and> irq_ok t"
  proof cases
    case i2c_step_env
    then show ?thesis using inv by (simp add: irq_ok_bus) (simp add: indices_ok_def)
  qed (use inv any_bus.i2cRead_inv [OF m] any_bus.i2cWrite_inv [OF m] any_bus.i2cReset_inv in
      \<open>auto simp: any_bus.master_inv_def irq_ok_read irq_ok_write irq_ok_reset\<close>)
qed

text \<open>In every reachable state of the I2C master the FIFOs hold at most 32 bytes with their
  heads inside the buffer, and the interrupt side tells the truth: the watermark bits say whether
  the FIFOs are past the configured levels, and the line is up exactly when an enabled bit is set.\<close>

lemma i2c_interrupts_show_state:
  assumes "reachable (\<lambda>c. \<exists>b. c = i2cReset B (i2c_new b)) (i2c_step B env) c"
  shows "txCount c \<le> 32 \<and> rxCount c \<le> 32 \<and> txHead c < 32 \<and> rxHead c < 32 \<and>
    (i2cReg IntRaw c AND RxWm \<noteq> 0 \<longleftrightarrow> i2cReg FifoConf c AND FifoProtect \<noteq> 0 \<and>
       unat (i2cReg FifoConf c AND 31) < rxCount c) \<and>
    (i2cReg IntRaw c AND TxWm \<noteq> 0 \<longleftrightarrow> i2cReg FifoConf c AND FifoProtect \<noteq> 0 \<and>
       txCount c < unat (drop_bit 5 (i2cReg FifoConf c) AND 31)) \<and>
    (i2c_irq c \<longleftrightarrow> i2cReg IntRaw c AND i2cReg IntEna c \<noteq> 0)"
  using i2c_machine.reachable_inv [OF assms] by (simp add: indices_ok_def irq_ok_def i2c_sizes)

text \<open>An empty bus, on which nothing acknowledges.\<close>

definition empty_bus :: "unit i2c_bus" where
  "empty_bus = \<lparr>bus_start = (\<lambda>_ _ b. (False, b)), bus_send = (\<lambda>_ b. (False, b)),
     bus_recv = (\<lambda>b. (0xFF, b)), bus_nack = (\<lambda>b. b), bus_end = (\<lambda>b. b)\<rparr>"

section \<open>The calls on the bus\<close>

interpretation logged_machine: state_machine "\<lambda>c. \<exists>b. c = i2cReset (logged B) (i2c_new (b, []))"
    "i2c_step (logged B) (\<lambda>b d. snd d = snd b)" "logged_bus.master_inv" for B :: "'b i2c_bus"
proof
  fix s :: "('b \<times> bus_call list) i2c_master"
  assume "\<exists>b. s = i2cReset (logged B) (i2c_new (b, []))"
  then obtain b where s: "s = i2cReset (logged B) (i2c_new (b, []))" by blast
  show "logged_bus.master_inv s"
    unfolding s by (rule logged_bus.i2cReset_inv) (simp add: i2c_new_def)
next
  fix s t :: "('b \<times> bus_call list) i2c_master"
  assume inv: "logged_bus.master_inv s" and "i2c_step (logged B) (\<lambda>b d. snd d = snd b) s t"
  from this(2) show "logged_bus.master_inv t"
  proof cases
    case i2c_step_env
    then show ?thesis using inv unfolding logged_bus.master_inv_def by (auto simp: indices_ok_def)
  next
    case i2c_step_reset
    have "transfer_after (snd (bus s)) \<noteq> None" using inv unfolding logged_bus.master_inv_def by blast
    then show ?thesis unfolding i2c_step_reset by (rule logged_bus.i2cReset_inv)
  qed (use inv in \<open>blast intro: logged_bus.i2cRead_inv logged_bus.i2cWrite_inv\<close>)+
qed

text \<open>C29: the master keeps to the protocol of the bus. Whatever the guest programs, whatever is
  acknowledged and whatever the devices do meanwhile, a byte is sent only within a write transfer
  that a device acknowledged, a byte is received only within an acknowledged read transfer, and
  a master that believes a device addressed has exactly that transfer open.\<close>

theorem i2c_bus_protocol_followed:
  assumes "reachable (\<lambda>c. \<exists>b. c = i2cReset (logged B) (i2c_new (b, [])))
    (i2c_step (logged B) (\<lambda>b d. snd d = snd b)) c"
  shows "transfer_after (snd (bus c)) \<noteq> None \<and>
    (addressed c \<longrightarrow> transfer_after (snd (bus c)) = Some (Some (reading c)))"
  using logged_machine.reachable_inv [OF assms] unfolding logged_bus.master_inv_def by blast

text \<open>A bus with one silent device, and a write transfer to it.\<close>

definition quiet_bus :: "unit i2c_bus" where
  "quiet_bus = empty_bus\<lparr>bus_start := (\<lambda>_ _ b. (True, b)), bus_send := (\<lambda>_ b. (True, b))\<rparr>"

definition logged_writes :: "(nat \<times> u32) list" where
  "logged_writes = [(0x58, 0x3000), (0x5C, 0x902), (0x1C, 0x6E), (0x1C, 7), (0x04, 0x30)]"

definition logged_demo :: "(unit \<times> bus_call list) i2c_master" where
  "logged_demo = fold (\<lambda>(offset, v). i2cWrite (logged quiet_bus) offset v) logged_writes
     (i2cReset (logged quiet_bus) (i2c_new ((), [])))"

lemma writes_reachable:
  assumes "reachable init (i2c_step B env) c" and "list_all (\<lambda>w. registerOffset (fst w)) ws"
  shows "reachable init (i2c_step B env) (fold (\<lambda>(offset, v). i2cWrite B offset v) ws c)"
  using assms
proof (induction ws arbitrary: c)
  case Nil
  then show ?case by simp
next
  case (Cons w ws)
  then show ?case by (cases w) (auto intro: reach_step i2c_step_write)
qed

theorem i2c_bus_protocol_followed_witness:
  "transfer_after [CallStart 0x37 False True, CallSend 7] = Some (Some False) \<and>
    snd (bus logged_demo) = [CallEnd, CallStart 0x37 False True, CallSend 7, CallEnd] \<and>
    transfer_after (snd (bus logged_demo)) \<noteq> None"
proof -
  have calls: "snd (bus logged_demo) = [CallEnd, CallStart 0x37 False True, CallSend 7, CallEnd]"
      "transfer_after [CallStart 0x37 False True, CallSend 7] = Some (Some False)"
      "list_all (\<lambda>w. registerOffset (fst w)) logged_writes"
    by code_simp+
  have "reachable (\<lambda>c. \<exists>b. c = i2cReset (logged quiet_bus) (i2c_new (b, [])))
      (i2c_step (logged quiet_bus) (\<lambda>b d. snd d = snd b)) logged_demo"
    unfolding logged_demo_def by (rule writes_reachable [OF reach_init calls(3)]) blast
  then show ?thesis using i2c_bus_protocol_followed calls by blast
qed

section \<open>A command list ends or waits\<close>

text \<open>The one register the command list touches while it moves bytes is the raw interrupt register.\<close>

definition sameRegs :: "'b i2c_master \<Rightarrow> 'b i2c_master \<Rightarrow> bool" where
  "sameRegs c d \<longleftrightarrow> length (i2c_regs d) = length (i2c_regs c) \<and> commandIndex d = commandIndex c \<and>
     (\<forall>i. i \<noteq> 8 \<longrightarrow> i2c_regs d ! i = i2c_regs c ! i)"

lemma sameRegs_refl [simp]: "sameRegs c c"
  by (simp add: sameRegs_def)

lemma sameRegs_trans: "sameRegs c d \<Longrightarrow> sameRegs d e \<Longrightarrow> sameRegs c e"
  by (simp add: sameRegs_def)

lemma sameRegs_raise [simp]: "sameRegs c (raiseRaw bits d) = sameRegs c d"
  by (auto simp: sameRegs_def raiseRaw_def IntRaw_def)

lemma sameRegs_updateIrq [simp]: "sameRegs c (i2c_updateIrq d) = sameRegs c d"
  by (auto simp: sameRegs_def i2c_updateIrq_def IntRaw_def Let_def)

lemma sameRegs_cong [simp]:
  "sameRegs c (d\<lparr>running := r\<rparr>) = sameRegs c d" "sameRegs c (d\<lparr>bus := b\<rparr>) = sameRegs c d"
  "sameRegs c (endBus B d) = sameRegs c d"
  by (simp_all add: sameRegs_def endBus_def)

definition endReported :: "'b i2c_master \<Rightarrow> bool" where
  "endReported c \<longleftrightarrow> i2cReg IntRaw c AND (I2cComplete OR EndDetect OR I2cNack OR I2cTimeout) \<noteq> 0"

definition waiting :: "'b i2c_master \<Rightarrow> bool" where
  "waiting c \<longleftrightarrow> commandIndex c < CommandCount \<and>
     (let command = i2cReg (Command0Reg + commandIndex c * 4) c in
      byteIndex c < commandLength command \<and>
      (opcode command = OpWrite \<and> txCount c = 0 \<or> opcode command = OpRead \<and> rxCount c = FifoCapacity))"

lemma endReported_raise:
  assumes "length (i2c_regs c) = 64"
    and "bits = I2cComplete \<or> bits = EndDetect \<or> bits = I2cNack \<or> bits = I2cTimeout"
  shows "endReported (raiseRaw bits c)"
  using assms
  by (auto simp: endReported_def raiseRaw_def i2cReg_def IntRaw_def bit.conj_disj_distrib2 i2c_raw_bits or_eq_0_iff)

lemma endReported_cong [simp]:
  "endReported (c\<lparr>running := r\<rparr>) = endReported c" "endReported (endBus B c) = endReported c"
  by (simp_all add: endReported_def endBus_def i2cReg_def)

lemma endBus_sel [simp]: "running (endBus B c) = running c" "i2c_regs (endBus B c) = i2c_regs c"
  "txCount (endBus B c) = txCount c" "rxCount (endBus B c) = rxCount c" "byteIndex (endBus B c) = byteIndex c"
  by (simp_all add: endBus_def)

lemma updateIrq_raw:
  assumes "length (i2c_regs c) = 64" and "NOT (RxWm OR TxWm) AND x = x" and "RxWm AND x = 0" and "TxWm AND x = 0"
  shows "i2cReg IntRaw (i2c_updateIrq c) AND x = i2cReg IntRaw c AND x"
proof -
  have bits: "(raw AND NOT (RxWm OR TxWm)) AND x = raw AND x" "((raw AND NOT (RxWm OR TxWm)) OR RxWm) AND x = raw AND x"
    "((raw AND NOT (RxWm OR TxWm)) OR TxWm) AND x = raw AND x"
    "(((raw AND NOT (RxWm OR TxWm)) OR RxWm) OR TxWm) AND x = raw AND x" for raw
    using assms(2-4) by (simp_all only: bit.conj_disj_distrib2 and.assoc or.right_neutral)
  show ?thesis
    unfolding i2c_updateIrq_def Let_def using bits assms(1)
    by (simp add: i2cReg_def IntRaw_def del: bit.de_Morgan_disj)
qed

lemma endReported_updateIrq: "length (i2c_regs c) = 64 \<Longrightarrow> endReported (i2c_updateIrq c) = endReported c"
  unfolding endReported_def by (subst updateIrq_raw) (simp_all add: i2c_raw_bits)

lemma waiting_updateIrq: "waiting (i2c_updateIrq c) = waiting c"
proof -
  have "sameRegs c (i2c_updateIrq c)" by simp
  then show ?thesis by (simp add: waiting_def i2cReg_def sameRegs_def Command0Reg_def)
qed

definition settled :: "'b i2c_master \<Rightarrow> 'b i2c_master \<Rightarrow> bool" where
  "settled c d \<longleftrightarrow> sameRegs c d \<and> (running d \<or> endReported d)"

lemma putByte_frame:
  "i2c_regs (snd (putByte B v c)) = i2c_regs c" "running (snd (putByte B v c)) = running c"
  "commandIndex (snd (putByte B v c)) = commandIndex c"
  by (simp_all add: putByte_def addressDevice_def Let_def split: prod.split)

lemma writeByte_frame: "sameRegs c (writeByte B c)" "running (writeByte B c) = running c"
proof -
  have "sameRegs c (snd (putByte B (fst (takeTx c)) (snd (takeTx c))))"
    by (simp add: sameRegs_def putByte_frame takeTx_def)
  then show "sameRegs c (writeByte B c)"
    by (simp add: writeByte_def case_prod_beta) (simp add: sameRegs_def)
  show "running (writeByte B c) = running c"
    by (simp add: writeByte_def case_prod_beta putByte_frame takeTx_def)
qed

lemma readByte_frame: "sameRegs c (readByte B c)" "running (readByte B c) = running c"
  by (simp_all add: readByte_def case_prod_beta) (simp add: sameRegs_def)

lemma writeBytes_settled:
  assumes "running c" and "length (i2c_regs c) = 64"
  shows "settled c (snd (writeBytes B command c)) \<and> (\<not> fst (writeBytes B command c) \<longrightarrow> running (snd (writeBytes B command c))) \<and>
    (fst (writeBytes B command c) \<and> running (snd (writeBytes B command c)) \<longrightarrow>
      byteIndex (snd (writeBytes B command c)) < commandLength command \<and> txCount (snd (writeBytes B command c)) = 0)"
  using assms
proof (induction "commandLength command - byteIndex c" arbitrary: c rule: less_induct)
  case less
  let ?d = "writeByte B c"
  show ?case
  proof (cases "commandLength command \<le> byteIndex c \<or> txCount c = 0")
    case True
    then have "writeBytes B command c = (\<not> commandLength command \<le> byteIndex c, c)"
      by (subst writeBytes.simps) auto
    then show ?thesis using less.prems True by (auto simp: settled_def)
  next
    case False
    have d: "running ?d" "length (i2c_regs ?d) = 64" "sameRegs c ?d"
      using less.prems writeByte_frame [where c = c and B = B] by (simp_all add: sameRegs_def)
    show ?thesis
    proof (cases "ackMismatch command ?d")
      case True
      have "endReported (raiseRaw I2cNack ?d)" using d(2) by (intro endReported_raise) simp_all
      moreover have "writeBytes B command c = (True, endBus B ((raiseRaw I2cNack ?d)\<lparr>running := False\<rparr>))"
        using \<open>\<not> (commandLength command \<le> byteIndex c \<or> txCount c = 0)\<close> True
        by (subst writeBytes.simps) (simp add: Let_def)
      ultimately show ?thesis using d(3) by (simp add: settled_def)
    next
      case False
      have trans: "settled ?d e \<Longrightarrow> settled c e" for e
        using d(3) by (auto simp: settled_def intro: sameRegs_trans)
      have "commandLength command - byteIndex ?d < commandLength command - byteIndex c"
        using \<open>\<not> (commandLength command \<le> byteIndex c \<or> txCount c = 0)\<close> by auto
      note IH = less.hyps [OF this d(1,2)]
      have "writeBytes B command c = writeBytes B command ?d"
        using \<open>\<not> (commandLength command \<le> byteIndex c \<or> txCount c = 0)\<close> False
        by (subst writeBytes.simps) (simp add: Let_def)
      with IH trans show ?thesis by simp
    qed
  qed
qed

lemma readBytes_settled:
  "sameRegs c (snd (readBytes B command c)) \<and> running (snd (readBytes B command c)) = running c \<and>
    (fst (readBytes B command c) \<longrightarrow> byteIndex (snd (readBytes B command c)) < commandLength command \<and>
       rxCount (snd (readBytes B command c)) = FifoCapacity)"
proof (induction "commandLength command - byteIndex c" arbitrary: c rule: less_induct)
  case less
  show ?case
  proof (cases "commandLength command \<le> byteIndex c \<or> rxCount c = FifoCapacity")
    case True
    then show ?thesis by (subst (1 2 3 4 5) readBytes.simps) auto
  next
    case False
    then have "commandLength command - byteIndex (readByte B c) < commandLength command - byteIndex c" by auto
    then show ?thesis
      using False less.hyps [of "readByte B c"] readByte_frame [where c = c and B = B] sameRegs_trans [of c "readByte B c"]
      by (subst (1 2 3 4 5) readBytes.simps) auto
  qed
qed

lemma runCommand_settled:
  assumes "running c" and "length (i2c_regs c) = 64"
  shows "settled c (snd (runCommand B command c)) \<and>
    (fst (runCommand B command c) \<and> running (snd (runCommand B command c)) \<longrightarrow>
      byteIndex (snd (runCommand B command c)) < commandLength command \<and>
      (opcode command = OpWrite \<and> txCount (snd (runCommand B command c)) = 0 \<or>
       opcode command = OpRead \<and> rxCount (snd (runCommand B command c)) = FifoCapacity))"
proof -
  note distinct = i2c_opcodes
  consider "opcode command = OpRestart" | "opcode command = OpWrite" | "opcode command = OpRead"
    | "opcode command = OpStop" | "opcode command = OpEnd"
    | "opcode command \<notin> {OpRestart, OpWrite, OpRead, OpStop, OpEnd}" by blast
  then show ?thesis
  proof cases
    case 1
    then show ?thesis using assms by (simp add: runCommand_def settled_def sameRegs_def)
  next
    case 2
    then have "runCommand B command c = writeBytes B command c"
      by (simp add: runCommand_def distinct)
    then show ?thesis using writeBytes_settled [OF assms, of B command] 2 by metis
  next
    case 3
    define r where "r = readBytes B command c"
    have "sameRegs c (snd r)" "running (snd r)" "fst r \<Longrightarrow> byteIndex (snd r) < commandLength command"
        "fst r \<Longrightarrow> rxCount (snd r) = FifoCapacity"
      using readBytes_settled [of c B command] assms(1) by (simp_all add: r_def)
    then show ?thesis
      using 3 by (simp add: runCommand_def r_def [symmetric] distinct case_prod_beta settled_def)
  next
    case 4
    then show ?thesis using assms by (simp add: runCommand_def distinct settled_def endReported_raise)
  next
    case 5
    then show ?thesis using assms by (simp add: runCommand_def distinct settled_def endReported_raise)
  next
    case 6
    then show ?thesis using assms by (simp add: runCommand_def settled_def endReported_raise)
  qed
qed

lemma runList_settled:
  assumes "running c \<or> endReported c" and "length (i2c_regs c) = 64"
  shows "length (i2c_regs (snd (runList B c))) = 64 \<and>
    (running (snd (runList B c)) \<or> endReported (snd (runList B c))) \<and>
    (fst (runList B c) \<and> running (snd (runList B c)) \<longrightarrow> waiting (snd (runList B c)))"
  using assms
proof (induction "CommandCount - commandIndex c" arbitrary: c rule: less_induct)
  case less
  let ?command = "i2cReg (Command0Reg + commandIndex c * 4) c"
  let ?r = "runCommand B ?command c"
  show ?case
  proof (cases "running c \<and> commandIndex c < CommandCount")
    case False
    then show ?thesis using less.prems by (subst (1 2 3 4 5 6) runList.simps) auto
  next
    case True
    note r = runCommand_settled [of c B ?command] less.prems True
    then have len: "length (i2c_regs (snd ?r)) = 64" by (simp add: settled_def sameRegs_def)
    have slot: "i2cReg (Command0Reg + commandIndex (snd ?r) * 4) (snd ?r) = ?command"
      using r by (auto simp: settled_def sameRegs_def i2cReg_def Command0Reg_def)
    show ?thesis
    proof (cases "fst ?r")
      case paused: True
      have "running (snd ?r) \<Longrightarrow> waiting (snd ?r)"
        using r paused unfolding waiting_def slot Let_def by simp
      then show ?thesis
        using True paused r len by (subst (1 2 3 4 5 6) runList.simps) (simp add: Let_def settled_def)
    next
      case go: False
      let ?f = "finishCommand (snd ?r)"
      have "running ?f \<or> endReported ?f" "length (i2c_regs ?f) = 64"
        using r len by (auto simp: settled_def finishCommand_def Let_def endReported_def i2cReg_def Command0Reg_def IntRaw_def)
      moreover have "CommandCount - commandIndex ?f < CommandCount - commandIndex c"
        using True by (simp add: diff_less_mono2)
      ultimately show ?thesis
        using True go less.hyps [of ?f] by (subst (1 2 3 4 5 6) runList.simps) (simp add: Let_def)
    qed
  qed
qed

lemma runCommands_settled:
  assumes "running c" and "length (i2c_regs c) = 64"
  shows "length (i2c_regs (runCommands B c)) = 64 \<and>
    (if running (runCommands B c) then waiting (runCommands B c) else endReported (runCommands B c))"
proof -
  note r = runList_settled [of c B] assms
  have "endReported (raiseRaw I2cTimeout (snd (runList B c)\<lparr>running := False\<rparr>))"
    using r by (intro endReported_raise) simp_all
  then show ?thesis
    using r by (auto simp: runCommands_def case_prod_beta Let_def endReported_updateIrq waiting_updateIrq)
qed

lemma startList_settled:
  assumes "length (i2c_regs c) = 64"
  shows "length (i2c_regs (startList B v c)) = 64 \<and>
    (if running (startList B v c) then waiting (startList B v c) else endReported (startList B v c))"
proof -
  define d where "d = clearDone (c\<lparr>commandIndex := 0, byteIndex := 0\<rparr>)"
  have len: "length (i2c_regs d) = 64"
    using clearDone_frame [of "c\<lparr>commandIndex := 0, byteIndex := 0\<rparr>"] assms by (auto simp: d_def)
  show ?thesis
  proof (cases "v AND Master = 0 \<or> i2cReg FifoConf d AND NonFifo \<noteq> 0")
    case True
    then have "startList B v c = endBus B ((raiseRaw I2cTimeout d)\<lparr>running := False\<rparr>)"
      by (simp add: startList_def d_def)
    then show ?thesis using len by (simp add: endReported_raise)
  next
    case False
    then have "startList B v c = runCommands B (raiseRaw TransStart (d\<lparr>running := True\<rparr>))"
      by (simp add: startList_def d_def [symmetric])
    then show ?thesis using runCommands_settled [of "raiseRaw TransStart (d\<lparr>running := True\<rparr>)" B] len by simp
  qed
qed

text \<open>C28: a command list never hangs silently. After the guest starts the list, fills the transmit
  FIFO or drains the receive FIFO, the master either has reported an end (complete, end of list,
  missing acknowledgement or time-out) or it stands at a write command with an empty transmit FIFO
  or a read command with a full receive FIFO, where the next data access resumes it.\<close>

theorem i2c_list_ends_or_waits:
  assumes "length (i2c_regs c) = 64"
  shows "(v AND I2cStart \<noteq> 0 \<longrightarrow> (let d = i2cWrite B 0x04 v c in if running d then waiting d else endReported d)) \<and>
    (running c \<and> txCount c \<noteq> 32 \<longrightarrow> (let d = i2cWrite B 0x1C v c in if running d then waiting d else endReported d)) \<and>
    (running c \<and> rxCount c \<noteq> 0 \<longrightarrow> (let d = snd (i2cRead B 0x1C c) in if running d then waiting d else endReported d))"
proof (intro conjI impI)
  define w where "w = setReg I2cControlReg (v AND 0x7FFF AND NOT (I2cStart OR FsmReset OR ConfUpdate)) c"
  define e where "e = (if v AND FsmReset \<noteq> 0 then
    endBus B (w\<lparr>running := False, commandIndex := 0, byteIndex := 0, lastNack := False\<rparr>) else w)"
  assume "v AND I2cStart \<noteq> 0"
  then have "i2cWrite B 0x04 v c = i2c_updateIrq (startList B v e)"
    unfolding i2cWrite_def i2c_writeControl_def Let_def w_def [symmetric] e_def [symmetric] by (simp add: I2cControlReg_def)
  moreover have "length (i2c_regs e) = 64" using assms by (simp add: e_def w_def)
  ultimately show "let d = i2cWrite B 0x04 v c in if running d then waiting d else endReported d"
    using startList_settled [of e B v] by (simp add: Let_def endReported_updateIrq waiting_updateIrq)
next
  define e where "e = c\<lparr>tx := (tx c)[(txHead c + txCount c) mod FifoCapacity := ucast v], txCount := txCount c + 1\<rparr>"
  assume run: "running c \<and> txCount c \<noteq> 32"
  then have "i2cWrite B 0x1C v c = i2c_updateIrq (runCommands B e)"
    by (simp add: i2cWrite_def writeData_def e_def i2c_offsets FifoCapacity_def)
  then show "let d = i2cWrite B 0x1C v c in if running d then waiting d else endReported d"
  proof -
    assume eq: "i2cWrite B 0x1C v c = i2c_updateIrq (runCommands B e)"
    have "running e" "length (i2c_regs e) = 64" using run assms by (simp_all add: e_def)
    from runCommands_settled [OF this, of B] show ?thesis
      unfolding eq by (simp add: Let_def endReported_updateIrq waiting_updateIrq)
  qed
next
  define e where "e = c\<lparr>rxHead := (rxHead c + 1) mod FifoCapacity, rxCount := rxCount c - 1\<rparr>"
  assume run: "running c \<and> rxCount c \<noteq> 0"
  then have "snd (i2cRead B 0x1C c) = runCommands B e"
    by (simp add: i2cRead_def e_def i2c_offsets)
  then show "let d = snd (i2cRead B 0x1C c) in if running d then waiting d else endReported d"
  proof -
    assume eq: "snd (i2cRead B 0x1C c) = runCommands B e"
    have "running e" "length (i2c_regs e) = 64" using run assms by (simp_all add: e_def)
    from runCommands_settled [OF this, of B] show ?thesis unfolding eq by (simp add: Let_def)
  qed
qed

theorem i2c_list_ends_or_waits_witness:
  "\<exists>d. d = fold (\<lambda>(offset, v). i2cWrite quiet_bus offset v) [(0x58, 0x3000), (0x5C, 0x903), (0x1C, 0x6E), (0x04, 0x30)]
      (i2cReset quiet_bus (i2c_new ())) \<and> running d \<and> waiting d"
proof -
  define c where "c = fold (\<lambda>(offset, v). i2cWrite quiet_bus offset v) [(0x58, 0x3000), (0x5C, 0x903), (0x1C, 0x6E)]
      (i2cReset quiet_bus (i2c_new ()))"
  have "length (i2c_regs c) = 64" unfolding c_def by code_simp
  moreover have "(0x30 :: u32) AND I2cStart \<noteq> 0" by code_simp
  moreover have "running (i2cWrite quiet_bus 0x04 0x30 c)" unfolding c_def by code_simp
  ultimately have "running (i2cWrite quiet_bus 0x04 0x30 c) \<and> waiting (i2cWrite quiet_bus 0x04 0x30 c)"
    using i2c_list_ends_or_waits [of c 48 quiet_bus] by (simp add: Let_def)
  then show ?thesis unfolding c_def by simp
qed

end
