(* ===== verification/I2cTransfer.thy ===== *)
theory I2cTransfer
  imports I2cProperties M5pm1
begin

text \<open>
  Firmware, I2C master and device together. The firmware programs the command list and the transmit
  FIFO, starts the list and drains the receive FIFO, as the driver of the chip does for a register
  write and for a register read with a repeated start. The device then sees exactly the
  transaction of \<open>I2cDevice\<close>, and the firmware the bytes the device answered.
\<close>

unbundle bit_operations_syntax

section \<open>The FIFOs as queues\<close>

definition fifo :: "bytes \<Rightarrow> nat \<Rightarrow> nat \<Rightarrow> bytes" where
  "fifo buf head n = map (\<lambda>i. buf ! ((head + i) mod FifoCapacity)) [0..<n]"

definition txQueue :: "'b i2c_master \<Rightarrow> bytes" where
  "txQueue c = fifo (tx c) (txHead c) (txCount c)"

definition rxQueue :: "'b i2c_master \<Rightarrow> bytes" where
  "rxQueue c = fifo (rx c) (rxHead c) (rxCount c)"

lemma length_fifo [simp]: "length (fifo buf head n) = n"
  by (simp add: fifo_def)

lemma fifo_push:
  assumes "length buf = FifoCapacity" and "n < FifoCapacity"
  shows "fifo (buf[(head + n) mod FifoCapacity := v]) head (Suc n) = fifo buf head n @ [v]"
proof -
  have "(head + n) mod FifoCapacity \<noteq> (head + i) mod FifoCapacity" if "i < n" for i
  proof
    assume "(head + n) mod FifoCapacity = (head + i) mod FifoCapacity"
    then have "(head + i) mod FifoCapacity = (head + n) mod FifoCapacity" by simp
    then have "(n - i) mod FifoCapacity = 0"
      using that by (metis add_diff_cancel_left le_add1 mod_eq_dvd_iff_nat mod_eq_0_iff_dvd nat_add_left_cancel_le less_imp_le)
    then show False using that assms(2) by simp
  qed
  moreover have "(head + n) mod FifoCapacity < length buf" using assms by (simp add: FifoCapacity_def)
  ultimately show ?thesis by (simp add: fifo_def)
qed

lemma fifo_pop:
  assumes "n \<noteq> 0"
  shows "fifo buf head n = buf ! (head mod FifoCapacity) # fifo buf ((head + 1) mod FifoCapacity) (n - 1)"
proof -
  have "fifo buf head (Suc k) = buf ! (head mod FifoCapacity) # fifo buf ((head + 1) mod FifoCapacity) k" for k
    unfolding fifo_def upt_conv_Cons [OF zero_less_Suc]
    using mod_add_left_eq [of "head + 1" FifoCapacity]
    by (simp add: map_Suc_upt [symmetric] del: upt_Suc)
  with assms show ?thesis by (cases n) simp_all
qed

section \<open>Programming the list\<close>

lemma word_small_cases:
  "(op :: u32) < 8 \<Longrightarrow> op = 0 \<or> op = 1 \<or> op = 2 \<or> op = 3 \<or> op = 4 \<or> op = 5 \<or> op = 6 \<or> op = 7"
proof -
  assume "op < 8"
  then have "unat op < 8" by (simp add: word_less_nat_alt)
  then have "unat op = 0 \<or> unat op = 1 \<or> unat op = 2 \<or> unat op = 3 \<or> unat op = 4 \<or> unat op = 5 \<or>
      unat op = 6 \<or> unat op = 7" by linarith
  then show ?thesis by (simp add: word_unat_eq_iff)
qed

lemma runCommands_stopped: "\<not> running c \<Longrightarrow> runCommands B c = i2c_updateIrq c"
  by (simp add: runCommands_def runList.simps Let_def)

definition commandWord :: "u32 \<Rightarrow> u32 \<Rightarrow> nat \<Rightarrow> u32" where
  "commandWord op flags n = (push_bit 11 op OR flags) OR of_nat n"

definition slots :: "'b i2c_master \<Rightarrow> u32 list" where
  "slots c = take 8 (drop 22 (i2c_regs c))"

text \<open>The list so far, the bytes queued and the bus, of a master that does not run.\<close>

definition loaded :: "u32 list \<Rightarrow> bytes \<Rightarrow> 'b \<Rightarrow> 'b i2c_master \<Rightarrow> bool" where
  "loaded cmds q b c \<longleftrightarrow> indices_ok c \<and> \<not> running c \<and> \<not> busy c \<and> rxCount c = 0 \<and> txQueue c = q \<and>
     bus c = b \<and> take (length cmds) (slots c) = cmds \<and> i2cReg FifoConf c AND NonFifo = 0"

lemma updateIrq_regs: "i \<noteq> 8 \<Longrightarrow> i2c_regs (i2c_updateIrq c) ! i = i2c_regs c ! i"
  by (simp add: i2c_updateIrq_def Let_def IntRaw_def)

lemma updateIrq_slots: "slots (i2c_updateIrq c) = slots c"
  by (rule nth_equalityI) (auto simp: slots_def updateIrq_regs)

lemma loaded_updateIrq: "loaded cmds q b (i2c_updateIrq c) = loaded cmds q b c"
  by (simp add: loaded_def indices_ok_def txQueue_def updateIrq_slots i2cReg_def updateIrq_regs FifoConf_def)

lemma load_command:
  assumes "loaded cmds q b c" and "length cmds < 8" and "v AND 0x3FFF = v"
  shows "loaded (cmds @ [v]) q b (i2cWrite B (0x58 + 4 * length cmds) v c)"
proof -
  let ?o = "0x58 + 4 * length cmds"
  have range: "Command0Reg \<le> ?o" "?o \<le> Command0Reg + (CommandCount - 1) * 4" "?o > 0x50"
    using assms(2) by (simp_all add: Command0Reg_def CommandCount_def)
  then have w: "i2cWrite B ?o v c = i2c_updateIrq (setReg ?o v c)"
    using assms(3) by (simp add: i2cWrite_def i2c_offsets)
  have len: "length (i2c_regs c) = 64" using assms(1) by (simp add: loaded_def indices_ok_def)
  have "slots (setReg ?o v c) = (slots c)[length cmds := v]"
    using assms(2) by (simp add: slots_def drop_update_swap take_update_swap)
  moreover have "take (length cmds) (slots c) = cmds" using assms(1) by (simp add: loaded_def)
  moreover have "length (slots c) = 8" using len by (simp add: slots_def)
  ultimately have "take (length (cmds @ [v])) (slots (setReg ?o v c)) = cmds @ [v]"
    using assms(2) by (simp add: take_Suc_conv_app_nth)
  then show ?thesis
    using assms(1,2) unfolding w loaded_updateIrq
    by (auto simp: loaded_def indices_ok_def txQueue_def i2cReg_def FifoConf_def)
qed

lemma load_data:
  assumes "loaded cmds q b c" and "length q < FifoCapacity"
  shows "loaded cmds (q @ [ucast v]) b (i2cWrite B 0x1C v c)"
proof -
  have count: "txCount c = length q" using assms(1) by (auto simp: loaded_def txQueue_def)
  let ?d = "c\<lparr>tx := (tx c)[(txHead c + txCount c) mod FifoCapacity := ucast v], txCount := txCount c + 1\<rparr>"
  have "i2cWrite B 0x1C v c = i2c_updateIrq (i2c_updateIrq ?d)"
    using assms count by (simp add: i2cWrite_def writeData_def i2c_offsets runCommands_stopped loaded_def)
  moreover have "loaded cmds (q @ [ucast v]) b ?d"
    using assms count fifo_push [of "tx c" "txCount c" "txHead c" "ucast v"]
    by (auto simp: loaded_def indices_ok_def txQueue_def slots_def i2cReg_def)
  ultimately show ?thesis by (simp add: loaded_updateIrq)
qed

definition regWrites :: "'b i2c_bus \<Rightarrow> (nat \<times> u32) list \<Rightarrow> 'b i2c_master \<Rightarrow> 'b i2c_master" where
  "regWrites B ws c = fold (\<lambda>(offset, v). i2cWrite B offset v) ws c"

definition loadCommands :: "u32 list \<Rightarrow> (nat \<times> u32) list" where
  "loadCommands cmds = map (\<lambda>(i, v). (0x58 + 4 * i, v)) (enumerate 0 cmds)"

definition loadData :: "bytes \<Rightarrow> (nat \<times> u32) list" where
  "loadData vs = map (\<lambda>v. (0x1C, ucast v)) vs"

lemma loadData_loaded:
  assumes "loaded cmds q b c" and "length q + length vs \<le> FifoCapacity"
  shows "loaded cmds (q @ vs) b (regWrites B (loadData vs) c)"
  using assms
proof (induction vs arbitrary: q c)
  case Nil
  then show ?case by (simp add: regWrites_def loadData_def)
next
  case (Cons v vs)
  have "loaded cmds (q @ [ucast (ucast v :: u32)]) b (i2cWrite B 0x1C (ucast v) c)"
    using Cons.prems by (intro load_data) simp_all
  moreover have "ucast (ucast v :: u32) = v" by (rule bit_word_eqI) (simp add: bit_simps)
  ultimately show ?case
    using Cons.IH [of "q @ [v]" "i2cWrite B 0x1C (ucast v) c"] Cons.prems(2) by (simp add: regWrites_def loadData_def)
qed

lemma loadCommands_loaded:
  assumes "loaded [] q b c" and "length cmds \<le> 8" and "\<forall>v \<in> set cmds. v AND 0x3FFF = v"
  shows "loaded cmds q b (regWrites B (loadCommands cmds) c)"
  using assms(2,3)
proof (induction cmds rule: rev_induct)
  case Nil
  then show ?case using assms(1) by (simp add: regWrites_def loadCommands_def)
next
  case (snoc v cmds)
  then have "loaded (cmds @ [v]) q b (i2cWrite B (0x58 + 4 * length cmds) v (regWrites B (loadCommands cmds) c))"
    by (intro load_command) simp_all
  then show ?case by (simp add: regWrites_def loadCommands_def enumerate_append_eq)
qed

lemma commandWord_fields:
  fixes op flags :: u32
  assumes "n < 256" and "op < 8" and "flags = 0 \<or> flags = 0x100 \<or> flags = 0x400"
  shows "opcode (commandWord op flags n) = op" and "commandLength (commandWord op flags n) = n"
    and "commandWord op flags n AND 0x3FFF = commandWord op flags n"
    and "commandWord op flags n AND CommandAckExpected = 0"
    and "commandWord op flags n AND CommandAckValue = flags AND 0x400"
proof -
  define x :: u32 where "x = of_nat n"
  have unat_x: "unat x = n" using assms(1) by (simp add: x_def unsigned_of_nat take_bit_nat_eq_self)
  have x: "x AND 255 = x"
  proof -
    have "x AND mask 8 = x"
      using unat_x assms(1) by (simp add: take_bit_eq_mask [symmetric] word_unat_eq_iff unsigned_take_bit_eq take_bit_nat_eq_self)
    then show ?thesis by (simp add: mask_eq_exp_minus_1)
  qed
  have masked: "x AND m = x AND (255 AND m)" for m using x by (metis and.assoc)
  have high: "drop_bit 11 x = 0"
    using arg_cong [OF x, of "drop_bit 11"] by simp
  have op: "op = 0 \<or> op = 1 \<or> op = 2 \<or> op = 3 \<or> op = 4 \<or> op = 5 \<or> op = 6 \<or> op = 7"
    using assms(2) by (metis (no_types) word_small_cases)
  show "opcode (commandWord op flags n) = op"
    using op assms(3) by (auto simp: opcode_def commandWord_def x_def [symmetric] high)
  show "commandLength (commandWord op flags n) = n"
    using op assms(3) x unat_x
    by (auto simp: commandLength_def commandWord_def x_def [symmetric] bit.conj_disj_distrib2)
  show "commandWord op flags n AND 0x3FFF = commandWord op flags n"
    using op assms(3) masked [of 16383] x
    by (auto simp: commandWord_def x_def [symmetric] bit.conj_disj_distrib2)
  show "commandWord op flags n AND CommandAckExpected = 0"
    using op assms(3) masked [of 512]
    by (auto simp: commandWord_def x_def [symmetric] bit.conj_disj_distrib2 CommandAckExpected_def)
  show "commandWord op flags n AND CommandAckValue = flags AND 0x400"
    using op assms(3) masked [of 1024]
    by (auto simp: commandWord_def x_def [symmetric] bit.conj_disj_distrib2 CommandAckValue_def)
qed

section \<open>A device on the bus\<close>

text \<open>
  What the calls on QEMU's bus do when one device, seen through \<open>dev\<close>, answers at the address \<open>a\<close>
  and acknowledges everything: \<open>sel\<close> says whether it is selected. A start delivers the event of its
  direction, a byte goes to \<open>send\<close>, a byte comes from \<open>recv\<close>, the end of a transfer delivers
  \<open>I2C_FINISH\<close> to a selected device.
\<close>

definition attached :: "'b i2c_bus \<Rightarrow> byte \<Rightarrow> (i2c_event \<Rightarrow> 'd \<Rightarrow> 'd) \<Rightarrow> (byte \<Rightarrow> 'd \<Rightarrow> 'd) \<Rightarrow>
    ('d \<Rightarrow> byte \<times> 'd) \<Rightarrow> ('b \<Rightarrow> 'd) \<Rightarrow> ('b \<Rightarrow> bool) \<Rightarrow> bool" where
  "attached B a ev snd' rcv dev sel \<longleftrightarrow>
     (\<forall>r b. fst (bus_start B a r b) \<and> sel (snd (bus_start B a r b)) \<and>
        dev (snd (bus_start B a r b)) = ev (if r then I2C_START_RECV else I2C_START_SEND) (dev b)) \<and>
     (\<forall>v b. sel b \<longrightarrow> fst (bus_send B v b) \<and> sel (snd (bus_send B v b)) \<and>
        dev (snd (bus_send B v b)) = snd' v (dev b)) \<and>
     (\<forall>b. sel b \<longrightarrow> fst (bus_recv B b) = fst (rcv (dev b)) \<and> sel (snd (bus_recv B b)) \<and>
        dev (snd (bus_recv B b)) = snd (rcv (dev b))) \<and>
     (\<forall>b. sel b \<longrightarrow> sel (bus_nack B b) \<and> dev (bus_nack B b) = ev I2C_NACK (dev b)) \<and>
     (\<forall>b. \<not> sel (bus_end B b) \<and> dev (bus_end B b) = (if sel b then ev I2C_FINISH (dev b) else dev b))"

lemma attachedD:
  assumes "attached B a ev snd' rcv dev sel"
  shows "fst (bus_start B a r b)" and "sel (snd (bus_start B a r b))"
    and "dev (snd (bus_start B a r b)) = ev (if r then I2C_START_RECV else I2C_START_SEND) (dev b)"
    and "sel b \<Longrightarrow> fst (bus_send B v b)" and "sel b \<Longrightarrow> sel (snd (bus_send B v b))"
    and "sel b \<Longrightarrow> dev (snd (bus_send B v b)) = snd' v (dev b)"
    and "sel b \<Longrightarrow> fst (bus_recv B b) = fst (rcv (dev b))" and "sel b \<Longrightarrow> sel (snd (bus_recv B b))"
    and "sel b \<Longrightarrow> dev (snd (bus_recv B b)) = snd (rcv (dev b))"
    and "sel b \<Longrightarrow> sel (bus_nack B b)" and "sel b \<Longrightarrow> dev (bus_nack B b) = ev I2C_NACK (dev b)"
    and "\<not> sel (bus_end B b)" and "dev (bus_end B b) = (if sel b then ev I2C_FINISH (dev b) else dev b)"
  using assms unfolding attached_def by blast+

section \<open>Running the list\<close>

text \<open>What moving bytes leaves alone.\<close>

definition moved :: "'b i2c_master \<Rightarrow> 'b i2c_master \<Rightarrow> bool" where
  "moved c d \<longleftrightarrow> sameRegs c d \<and> indices_ok d \<and> running d = running c \<and> busy d = busy c"

lemma moved_trans: "moved c d \<Longrightarrow> moved d e \<Longrightarrow> moved c e"
  by (auto simp: moved_def intro: sameRegs_trans)

lemma moved_refl: "indices_ok c \<Longrightarrow> moved c c"
  by (simp add: moved_def)

lemma any_inv: "any_bus.master_inv c = indices_ok c"
  by (simp add: any_bus.master_inv_def)

lemma takeTx_queue:
  assumes "indices_ok c" and "txQueue c = v # q"
  shows "fst (takeTx c) = v" and "txQueue (snd (takeTx c)) = q" and "txCount c \<noteq> 0"
proof -
  show n: "txCount c \<noteq> 0" using arg_cong [OF assms(2), of length] by (simp add: txQueue_def)
  have "txHead c mod FifoCapacity = txHead c" using assms(1) by (simp add: indices_ok_def)
  then show "fst (takeTx c) = v" "txQueue (snd (takeTx c)) = q"
    using fifo_pop [OF n, of "tx c" "txHead c"] assms(2) by (auto simp: takeTx_def txQueue_def)
qed

lemma writeByte_eq:
  "writeByte B c = (let r = putByte B (fst (takeTx c)) (snd (takeTx c)) in
     raiseRaw ByteDone ((snd r)\<lparr>lastNack := \<not> fst r, byteIndex := byteIndex (snd r) + 1\<rparr>))"
  by (simp add: writeByte_def case_prod_beta Let_def)

lemma queues_raise [simp]: "txQueue (raiseRaw bits c) = txQueue c" "rxQueue (raiseRaw bits c) = rxQueue c"
  by (simp_all add: txQueue_def rxQueue_def)

lemma queues_address [simp]:
  "txQueue (c\<lparr>bus := b, slaveAddress := a, reading := r, addressPhase := p, addressed := d\<rparr>) = txQueue c"
  "rxQueue (c\<lparr>bus := b, slaveAddress := a, reading := r, addressPhase := p, addressed := d\<rparr>) = rxQueue c"
  "txQueue (c\<lparr>bus := b, slaveAddress := a, reading := r, addressPhase := p, addressed := d, lastNack := x, byteIndex := n\<rparr>) = txQueue c"
  "rxQueue (c\<lparr>bus := b, slaveAddress := a, reading := r, addressPhase := p, addressed := d, lastNack := x, byteIndex := n\<rparr>) = rxQueue c"
  "txQueue (c\<lparr>bus := b, lastNack := x, byteIndex := n\<rparr>) = txQueue c"
  "rxQueue (c\<lparr>bus := b, lastNack := x, byteIndex := n\<rparr>) = rxQueue c"
  by (simp_all add: txQueue_def rxQueue_def)

lemma queues_cong [simp]:
  "txQueue (c\<lparr>lastNack := x, byteIndex := n\<rparr>) = txQueue c" "rxQueue (c\<lparr>lastNack := x, byteIndex := n\<rparr>) = rxQueue c"
  "txQueue (c\<lparr>bus := b\<rparr>) = txQueue c" "rxQueue (c\<lparr>bus := b\<rparr>) = rxQueue c"
  "rxQueue (snd (takeTx c)) = rxQueue c"
  by (simp_all add: txQueue_def rxQueue_def takeTx_def)

lemma writeByte_moved:
  assumes "indices_ok c" and "txCount c \<noteq> 0" and "byteIndex c < 255"
  shows "moved c (writeByte B c)"
proof -
  have "indices_ok (writeByte B c)"
    using any_bus.writeByte_inv [of c B] assms by (simp add: any_inv)
  moreover have "busy (writeByte B c) = busy c"
    by (simp add: writeByte_def case_prod_beta putByte_def takeTx_def addressDevice_def Let_def)
  ultimately show ?thesis by (simp add: moved_def writeByte_frame)
qed

text \<open>A byte to the addressed device.\<close>

lemma writeByte_send:
  assumes "attached B a ev snd' rcv dev sel" and "indices_ok c" and "addressed c" and "\<not> reading c"
    and "sel (bus c)" and "txQueue c = v # q" and "byteIndex c < 255"
  shows "moved c (writeByte B c)" and "dev (bus (writeByte B c)) = snd' v (dev (bus c))"
    and "sel (bus (writeByte B c))" and "txQueue (writeByte B c) = q" and "rxQueue (writeByte B c) = rxQueue c"
    and "addressed (writeByte B c)" and "\<not> reading (writeByte B c)" and "\<not> lastNack (writeByte B c)"
    and "slaveAddress (writeByte B c) = slaveAddress c"
proof -
  note tx = takeTx_queue [OF assms(2,6)]
  let ?c = "snd (takeTx c)"
  have c: "\<not> addressPhase ?c" "addressed ?c" "\<not> reading ?c" "bus ?c = bus c" "slaveAddress ?c = slaveAddress c"
    using assms(2-4) by (auto simp: takeTx_def indices_ok_def)
  have "putByte B v ?c = (fst (bus_send B v (bus c)), ?c\<lparr>bus := snd (bus_send B v (bus c))\<rparr>)"
    using c by (simp add: putByte_def case_prod_beta)
  then have w: "writeByte B c = raiseRaw ByteDone (?c\<lparr>bus := snd (bus_send B v (bus c)),
      lastNack := \<not> fst (bus_send B v (bus c)), byteIndex := byteIndex ?c + 1\<rparr>)"
    by (simp add: writeByte_eq tx Let_def)
  show "moved c (writeByte B c)" by (rule writeByte_moved) (use assms tx in simp_all)
  show "dev (bus (writeByte B c)) = snd' v (dev (bus c))" "sel (bus (writeByte B c))"
      "txQueue (writeByte B c) = q" "rxQueue (writeByte B c) = rxQueue c"
      "addressed (writeByte B c)" "\<not> reading (writeByte B c)" "\<not> lastNack (writeByte B c)"
      "slaveAddress (writeByte B c) = slaveAddress c"
    unfolding w using attachedD(4-6) [OF assms(1,5)] c tx(2)
    by simp_all
qed

lemma addressDevice_eq:
  "addressDevice B v c =
     (let b = (if drop_bit 1 v \<noteq> slaveAddress c then bus_end B (bus c) else bus c);
          r = bus_start B (drop_bit 1 v) (v AND 1 \<noteq> 0) b in
      (fst r, c\<lparr>bus := (if fst r then snd r else bus_end B (snd r)), slaveAddress := drop_bit 1 v,
         reading := v AND 1 \<noteq> 0, addressPhase := False, addressed := fst r\<rparr>))"
  unfolding addressDevice_def Let_def case_prod_beta by simp

text \<open>The address byte after a start.\<close>

lemma writeByte_address:
  assumes "attached B a ev snd' rcv dev sel" and "indices_ok c" and "addressPhase c"
    and "slaveAddress c = a \<or> \<not> sel (bus c)" and "txQueue c = v # q" and "drop_bit 1 v = a" and "byteIndex c < 255"
  shows "moved c (writeByte B c)"
    and "dev (bus (writeByte B c)) = ev (if v AND 1 \<noteq> 0 then I2C_START_RECV else I2C_START_SEND) (dev (bus c))"
    and "sel (bus (writeByte B c))" and "txQueue (writeByte B c) = q" and "rxQueue (writeByte B c) = rxQueue c"
    and "addressed (writeByte B c)" and "reading (writeByte B c) \<longleftrightarrow> v AND 1 \<noteq> 0"
    and "\<not> lastNack (writeByte B c)" and "slaveAddress (writeByte B c) = a"
proof -
  note tx = takeTx_queue [OF assms(2,5)]
  let ?c = "snd (takeTx c)"
  define b where "b = (if a \<noteq> slaveAddress c then bus_end B (bus c) else bus c)"
  define r where "r = bus_start B a (v AND 1 \<noteq> 0) b"
  have c: "addressPhase ?c" "bus ?c = bus c" "slaveAddress ?c = slaveAddress c" "byteIndex ?c = byteIndex c"
    using assms(3) by (simp_all add: takeTx_def)
  have r: "fst r" "sel (snd r)" "dev (snd r) = ev (if v AND 1 \<noteq> 0 then I2C_START_RECV else I2C_START_SEND) (dev (bus c))"
    using attachedD(1-3,13) [OF assms(1)] assms(4) by (auto simp: r_def b_def)
  have "putByte B v ?c = (True, ?c\<lparr>bus := snd r, slaveAddress := a, reading := v AND 1 \<noteq> 0,
      addressPhase := False, addressed := True\<rparr>)"
    using c(1) r(1)
    unfolding putByte_def addressDevice_eq Let_def assms(6) c(2,3) b_def [symmetric] r_def [symmetric] by simp
  then have w: "writeByte B c = raiseRaw ByteDone (?c\<lparr>bus := snd r, slaveAddress := a, reading := v AND 1 \<noteq> 0,
      addressPhase := False, addressed := True, lastNack := False, byteIndex := byteIndex c + 1\<rparr>)"
    by (simp add: writeByte_eq tx Let_def c)
  show "moved c (writeByte B c)" by (rule writeByte_moved) (use assms tx in simp_all)
  show "dev (bus (writeByte B c)) = ev (if v AND 1 \<noteq> 0 then I2C_START_RECV else I2C_START_SEND) (dev (bus c))"
      "sel (bus (writeByte B c))" "txQueue (writeByte B c) = q" "rxQueue (writeByte B c) = rxQueue c"
      "addressed (writeByte B c)" "reading (writeByte B c) \<longleftrightarrow> v AND 1 \<noteq> 0"
      "\<not> lastNack (writeByte B c)" "slaveAddress (writeByte B c) = a"
    unfolding w using r tx(2) by simp_all
qed

text \<open>The state between two commands of a transfer to the device.\<close>

definition transferring :: "byte \<Rightarrow> ('b \<Rightarrow> bool) \<Rightarrow> bool \<Rightarrow> 'b i2c_master \<Rightarrow> bool" where
  "transferring a sel r c \<longleftrightarrow> addressed c \<and> (reading c \<longleftrightarrow> r) \<and> sel (bus c) \<and> slaveAddress c = a"

lemma writeBytes_send:
  assumes at: "attached B a ev snd' rcv dev sel" and "indices_ok c" and "transferring a sel False c"
    and "txQueue c = vs @ q" and "byteIndex c + length vs = commandLength command"
    and "command AND CommandAckExpected = 0"
  shows "\<exists>d. writeBytes B command c = (False, d) \<and> moved c d \<and> transferring a sel False d \<and>
    dev (bus d) = fold snd' vs (dev (bus c)) \<and> txQueue d = q \<and> rxQueue d = rxQueue c"
  using assms(2-5)
proof (induction vs arbitrary: c)
  case Nil
  then show ?case
    by (subst writeBytes.simps) (auto intro!: moved_refl)
next
  case (Cons v vs)
  have bound: "byteIndex c < 255" using Cons.prems(4) commandLength_bound [of command] by simp
  note w = writeByte_send [OF at Cons.prems(1) _ _ _ _ bound, of v "vs @ q"]
  let ?d = "writeByte B c"
  have d: "moved c ?d" "transferring a sel False ?d" "dev (bus ?d) = snd' v (dev (bus c))"
      "txQueue ?d = vs @ q" "rxQueue ?d = rxQueue c" "\<not> lastNack ?d"
    using w Cons.prems(2,3) by (simp_all add: transferring_def)
  have "byteIndex ?d + length vs = commandLength command" using Cons.prems(4) by simp
  from Cons.IH [OF _ d(2,4) this] d(1) obtain e where e: "writeBytes B command ?d = (False, e)" "moved ?d e"
      "transferring a sel False e" "dev (bus e) = fold snd' vs (dev (bus ?d))" "txQueue e = q" "rxQueue e = rxQueue ?d"
    by (auto simp: moved_def)
  have "txCount c \<noteq> 0" "\<not> commandLength command \<le> byteIndex c"
    using takeTx_queue(3) [OF Cons.prems(1)] Cons.prems(3,4) by auto
  moreover have "\<not> ackMismatch command ?d" using d(6) assms(6) by (simp add: ackMismatch_def)
  ultimately have "writeBytes B command c = (False, e)"
    using e(1) by (subst writeBytes.simps) (simp add: Let_def)
  then show ?case using e d moved_trans by (intro exI [of _ e]) auto
qed

text \<open>A write command after a start: the address byte, then bytes to the device.\<close>

lemma writeBytes_address:
  assumes at: "attached B a ev snd' rcv dev sel" and "indices_ok c" and "addressPhase c"
    and "slaveAddress c = a \<or> \<not> sel (bus c)" and "txQueue c = v # vs @ q" and "drop_bit 1 v = a"
    and "byteIndex c = 0" and "commandLength command = Suc (length vs)" and "v AND 1 \<noteq> 0 \<Longrightarrow> vs = []"
    and "command AND CommandAckExpected = 0"
  shows "\<exists>d. writeBytes B command c = (False, d) \<and> moved c d \<and> transferring a sel (v AND 1 \<noteq> 0) d \<and>
    dev (bus d) = fold snd' vs (ev (if v AND 1 \<noteq> 0 then I2C_START_RECV else I2C_START_SEND) (dev (bus c))) \<and>
    txQueue d = q \<and> rxQueue d = rxQueue c"
proof -
  let ?d = "writeByte B c"
  have "byteIndex c < 255" by (simp add: assms(7))
  note w = writeByte_address [OF at assms(2-6) this]
  have d: "moved c ?d" "transferring a sel (v AND 1 \<noteq> 0) ?d" "txQueue ?d = vs @ q" "rxQueue ?d = rxQueue c"
    using w by (simp_all add: transferring_def)
  have more: "txCount c \<noteq> 0" "\<not> commandLength command \<le> byteIndex c" "\<not> ackMismatch command ?d"
    using takeTx_queue(3) [OF assms(2,5)] assms(7,8,10) w(8) by (auto simp: ackMismatch_def)
  have step: "writeBytes B command c = writeBytes B command ?d"
    using more by (subst writeBytes.simps) (simp add: Let_def)
  show ?thesis
  proof (cases "v AND 1 \<noteq> 0")
    case True
    then have "vs = []" by (rule assms(9))
    then have "writeBytes B command ?d = (False, ?d)"
      using assms(7,8) by (subst writeBytes.simps) simp
    then show ?thesis using d w(2) True \<open>vs = []\<close> step by (intro exI [of _ ?d]) simp
  next
    case False
    have ready: "indices_ok ?d" "transferring a sel False ?d" "byteIndex ?d + length vs = commandLength command"
      using d(1,2) False assms(7,8) by (simp_all add: moved_def)
    from writeBytes_send [OF at ready(1,2) d(3) ready(3) assms(10)] obtain e where
      e: "writeBytes B command ?d = (False, e)" "moved ?d e" "transferring a sel False e"
        "dev (bus e) = fold snd' vs (dev (bus ?d))" "txQueue e = q" "rxQueue e = rxQueue ?d" by blast
    show ?thesis
      using e moved_trans [OF d(1) e(2)] d(4) w(2) False step by (intro exI [of _ e]) simp
  qed
qed

lemma readByte_recv:
  assumes "attached B a ev snd' rcv dev sel" and "indices_ok c" and "transferring a sel True c"
    and "rxCount c < FifoCapacity" and "byteIndex c < 255"
  shows "moved c (readByte B c)" and "transferring a sel True (readByte B c)"
    and "dev (bus (readByte B c)) = snd (rcv (dev (bus c)))"
    and "rxQueue (readByte B c) = rxQueue c @ [fst (rcv (dev (bus c)))]"
    and "rxCount (readByte B c) = Suc (rxCount c)" and "txQueue (readByte B c) = txQueue c"
proof -
  have s: "sel (bus c)" "addressed c" "reading c" using assms(3) by (simp_all add: transferring_def)
  have w: "readByte B c = raiseRaw ByteDone (c\<lparr>bus := snd (bus_recv B (bus c)),
      rx := (rx c)[(rxHead c + rxCount c) mod FifoCapacity := fst (rcv (dev (bus c)))],
      rxCount := rxCount c + 1, byteIndex := byteIndex c + 1\<rparr>)"
    using s attachedD(7) [OF assms(1) s(1)] by (simp add: readByte_def case_prod_beta)
  have "indices_ok (readByte B c)"
    using any_bus.readByte_inv [of c B] assms by (simp add: any_inv)
  then show "moved c (readByte B c)"
    by (simp add: moved_def readByte_frame) (simp add: w)
  show "transferring a sel True (readByte B c)" "dev (bus (readByte B c)) = snd (rcv (dev (bus c)))"
      "rxCount (readByte B c) = Suc (rxCount c)" "txQueue (readByte B c) = txQueue c"
    using assms(3) attachedD(8,9) [OF assms(1) s(1)] unfolding w by (simp_all add: transferring_def txQueue_def)
  show "rxQueue (readByte B c) = rxQueue c @ [fst (rcv (dev (bus c)))]"
    unfolding w using fifo_push [of "rx c" "rxCount c" "rxHead c" "fst (rcv (dev (bus c)))"] assms(2,4)
    by (simp add: rxQueue_def indices_ok_def)
qed

lemma readBytes_recv:
  assumes at: "attached B a ev snd' rcv dev sel" and "indices_ok c" and "transferring a sel True c"
    and "byteIndex c + n = commandLength command" and "rxCount c + n \<le> FifoCapacity"
  shows "\<exists>d. readBytes B command c = (False, d) \<and> moved c d \<and> transferring a sel True d \<and>
    dev (bus d) = snd (read_burst rcv n (dev (bus c))) \<and>
    rxQueue d = rxQueue c @ fst (read_burst rcv n (dev (bus c))) \<and> txQueue d = txQueue c"
  using assms(2-5)
proof (induction n arbitrary: c)
  case 0
  then show ?case by (subst readBytes.simps) (auto intro!: moved_refl)
next
  case (Suc n)
  let ?d = "readByte B c"
  have bound: "byteIndex c < 255" "rxCount c < FifoCapacity"
    using Suc.prems(3,4) commandLength_bound [of command] by simp_all
  note r = readByte_recv [OF at Suc.prems(1,2) bound(2,1)]
  have ready: "indices_ok ?d" "byteIndex ?d + n = commandLength command" "rxCount ?d + n \<le> FifoCapacity"
    using r(1,5) Suc.prems(3,4) by (simp_all add: moved_def)
  from Suc.IH [OF ready(1) r(2) ready(2,3)] obtain e where
    e: "readBytes B command ?d = (False, e)" "moved ?d e" "transferring a sel True e"
      "dev (bus e) = snd (read_burst rcv n (dev (bus ?d)))"
      "rxQueue e = rxQueue ?d @ fst (read_burst rcv n (dev (bus ?d)))" "txQueue e = txQueue ?d" by blast
  have "readBytes B command c = (False, e)"
    using e(1) bound Suc.prems(3) by (subst readBytes.simps) simp
  then show ?case
    using e moved_trans [OF r(1) e(2)] r(3,4,6) by (intro exI [of _ e]) (simp add: case_prod_beta)
qed

section \<open>Command by command\<close>

definition todo :: "'b i2c_master \<Rightarrow> u32 list" where
  "todo c = drop (commandIndex c) (slots c)"

definition ready :: "u32 list \<Rightarrow> 'b i2c_master \<Rightarrow> bool" where
  "ready cmds c \<longleftrightarrow> indices_ok c \<and> running c \<and> byteIndex c = 0 \<and> todo c = cmds \<and>
     i2cReg FifoConf c AND NonFifo = 0"

lemma finishCommand_sel [simp]:
  "tx (finishCommand c) = tx c" "txHead (finishCommand c) = txHead c" "txCount (finishCommand c) = txCount c"
  "rx (finishCommand c) = rx c" "rxHead (finishCommand c) = rxHead c" "rxCount (finishCommand c) = rxCount c"
  "running (finishCommand c) = running c" "bus (finishCommand c) = bus c" "busy (finishCommand c) = busy c"
  "slaveAddress (finishCommand c) = slaveAddress c" "addressed (finishCommand c) = addressed c"
  "addressPhase (finishCommand c) = addressPhase c" "reading (finishCommand c) = reading c"
  "byteIndex (finishCommand c) = 0"
  by (simp_all add: finishCommand_def Let_def)

lemma finishCommand_queues [simp]:
  "txQueue (finishCommand c) = txQueue c" "rxQueue (finishCommand c) = rxQueue c"
  by (simp_all add: txQueue_def rxQueue_def)

lemma slots_same:
  assumes "sameRegs c d"
  shows "slots d = slots c"
  by (rule nth_equalityI) (use assms in \<open>auto simp: slots_def sameRegs_def\<close>)

lemma run_step:
  assumes "ready (command # rest) c" and "runCommand B command c = (False, d)" and "sameRegs c d"
  shows "runList B c = runList B (finishCommand d)" and "todo (finishCommand d) = rest"
    and "indices_ok d \<Longrightarrow> indices_ok (finishCommand d)"
    and "i2cReg FifoConf (finishCommand d) AND NonFifo = 0"
proof -
  let ?i = "commandIndex c"
  have len: "length (i2c_regs c) = 64" and list: "drop ?i (slots c) = command # rest" and run: "running c"
    using assms(1) by (simp_all add: ready_def indices_ok_def todo_def)
  have i: "?i < 8"
  proof (rule ccontr)
    assume "\<not> ?i < 8"
    then have "drop ?i (slots c) = []" by (simp add: slots_def)
    with list show False by simp
  qed
  have len8: "length (slots c) = 8" using len by (simp add: slots_def)
  have command: "slots c ! ?i = command" and rest: "drop (Suc ?i) (slots c) = rest"
    using list i len8 by (simp_all add: Cons_nth_drop_Suc [symmetric])
  have "i2cReg (Command0Reg + ?i * 4) c = command"
    using command i len by (simp add: i2cReg_def Command0Reg_def slots_def)
  then show "runList B c = runList B (finishCommand d)"
    using assms(2) i run by (subst runList.simps) (simp add: CommandCount_def)
  have same: "commandIndex d = ?i" "slots d = slots c"
    using assms(3) slots_same by (auto simp: sameRegs_def)
  have "slots (finishCommand d) = (slots d)[?i := slots d ! ?i OR 0x80000000]"
    using same(1) i len assms(3)
    by (simp add: slots_def finishCommand_def Let_def i2cReg_def Command0Reg_def drop_update_swap
        take_update_swap sameRegs_def)
  then show "todo (finishCommand d) = rest"
    using same rest by (simp add: todo_def)
  show "indices_ok d \<Longrightarrow> indices_ok (finishCommand d)"
    using any_bus.finishCommand_inv [of d] same(1) i by (simp add: any_inv CommandCount_def)
  have "i2cReg FifoConf (finishCommand d) = i2cReg FifoConf c"
    using assms(3) by (simp add: finishCommand_def i2cReg_def FifoConf_def Let_def Command0Reg_def sameRegs_def)
  then show "i2cReg FifoConf (finishCommand d) AND NonFifo = 0" using assms(1) by (simp add: ready_def)
qed

lemma step_ready:
  assumes "ready (command # rest) c" and "runCommand B command c = (False, d)" and "sameRegs c d"
    and "indices_ok d" and "running d"
  shows "runList B c = runList B (finishCommand d) \<and> ready rest (finishCommand d)"
  using run_step [OF assms(1-3)] assms(4,5) by (simp add: ready_def)

lemma restart_step:
  assumes "ready (command # rest) c" and "opcode command = OpRestart"
  shows "\<exists>d. runList B c = runList B d \<and> ready rest d \<and> busy d \<and> addressPhase d \<and> bus d = bus c \<and>
    slaveAddress d = slaveAddress c \<and> txQueue d = txQueue c \<and> rxQueue d = rxQueue c"
proof -
  let ?d = "c\<lparr>busy := True, addressPhase := True, addressed := False\<rparr>"
  have "runCommand B command c = (False, ?d)" using assms(2) by (simp add: runCommand_def)
  moreover have "sameRegs c ?d" by (simp add: sameRegs_def)
  moreover have "indices_ok ?d" "running ?d" using assms(1) by (simp_all add: ready_def indices_ok_def)
  ultimately have "runList B c = runList B (finishCommand ?d) \<and> ready rest (finishCommand ?d)"
    by (rule step_ready [OF assms(1)])
  moreover have "txQueue ?d = txQueue c" "rxQueue ?d = rxQueue c" by (simp_all add: txQueue_def rxQueue_def)
  ultimately show ?thesis by (intro exI [of _ "finishCommand ?d"]) simp
qed

lemma write_step:
  assumes "attached B a ev snd' rcv dev sel" and "ready (command # rest) c" and "opcode command = OpWrite"
    and "addressPhase c" and "busy c" and "slaveAddress c = a \<or> \<not> sel (bus c)" and "txQueue c = v # vs @ q"
    and "drop_bit 1 v = a" and "commandLength command = Suc (length vs)" and "v AND 1 \<noteq> 0 \<Longrightarrow> vs = []"
    and "command AND CommandAckExpected = 0"
  shows "\<exists>d. runList B c = runList B d \<and> ready rest d \<and> busy d \<and> transferring a sel (v AND 1 \<noteq> 0) d \<and>
    dev (bus d) = fold snd' vs (ev (if v AND 1 \<noteq> 0 then I2C_START_RECV else I2C_START_SEND) (dev (bus c))) \<and>
    txQueue d = q \<and> rxQueue d = rxQueue c"
proof -
  have c: "indices_ok c" "byteIndex c = 0" "running c" using assms(2) by (simp_all add: ready_def)
  from writeBytes_address [OF assms(1) c(1) assms(4,6,7,8) c(2) assms(9-11)] obtain d where
    d: "writeBytes B command c = (False, d)" "moved c d" "transferring a sel (v AND 1 \<noteq> 0) d"
      "dev (bus d) = fold snd' vs (ev (if v AND 1 \<noteq> 0 then I2C_START_RECV else I2C_START_SEND) (dev (bus c)))"
      "txQueue d = q" "rxQueue d = rxQueue c" by blast
  have "runCommand B command c = (False, d)"
    using d(1) assms(3) by (simp add: runCommand_def i2c_opcodes)
  then have "runList B c = runList B (finishCommand d) \<and> ready rest (finishCommand d)"
    using d(2) c by (intro step_ready [OF assms(2)]) (simp_all add: moved_def)
  then show ?thesis
    using d assms(5) by (intro exI [of _ "finishCommand d"]) (simp add: transferring_def moved_def)
qed

lemma read_step:
  assumes "attached B a ev snd' rcv dev sel" and "ready (command # rest) c" and "opcode command = OpRead"
    and "transferring a sel True c" and "busy c" and "rxCount c + commandLength command \<le> FifoCapacity"
    and "commandLength command \<noteq> 0" and "command AND CommandAckValue \<noteq> 0"
  shows "\<exists>d. runList B c = runList B d \<and> ready rest d \<and> busy d \<and> transferring a sel True d \<and>
    dev (bus d) = ev I2C_NACK (snd (read_burst rcv (commandLength command) (dev (bus c)))) \<and>
    txQueue d = txQueue c \<and> rxQueue d = rxQueue c @ fst (read_burst rcv (commandLength command) (dev (bus c)))"
proof -
  let ?n = "commandLength command"
  have c: "indices_ok c" "byteIndex c = 0" "running c" using assms(2) by (simp_all add: ready_def)
  have "byteIndex c + ?n = ?n" by (simp add: c(2))
  from readBytes_recv [OF assms(1) c(1) assms(4) this assms(6)] obtain d where
    d: "readBytes B command c = (False, d)" "moved c d" "transferring a sel True d"
      "dev (bus d) = snd (read_burst rcv ?n (dev (bus c)))"
      "rxQueue d = rxQueue c @ fst (read_burst rcv ?n (dev (bus c)))" "txQueue d = txQueue c" by blast
  let ?d = "d\<lparr>bus := bus_nack B (bus d)\<rparr>"
  have sel: "sel (bus d)" "addressed d" using d(3) by (simp_all add: transferring_def)
  have "runCommand B command c = (False, ?d)"
    using d(1) assms(3,7,8) sel(2) by (simp add: runCommand_def i2c_opcodes)
  moreover have "indices_ok ?d" "running ?d" "sameRegs c ?d"
    using d(2) c by (auto simp: moved_def indices_ok_def)
  ultimately have "runList B c = runList B (finishCommand ?d) \<and> ready rest (finishCommand ?d)"
    by (intro step_ready [OF assms(2)])
  then show ?thesis
    using d assms(5) attachedD(10,11) [OF assms(1) sel(1)]
    by (intro exI [of _ "finishCommand ?d"]) (simp add: transferring_def moved_def)
qed

lemma indices_raise: "indices_ok (raiseRaw bits c) = indices_ok c"
  by (simp add: indices_ok_def)

text \<open>An idle master whose list has completed.\<close>

definition completed :: "'b i2c_master \<Rightarrow> bool" where
  "completed c \<longleftrightarrow> indices_ok c \<and> \<not> running c \<and> \<not> busy c \<and> i2cReg IntRaw c AND I2cComplete \<noteq> 0 \<and>
     i2cReg FifoConf c AND NonFifo = 0"

lemma stop_step:
  assumes "ready (command # rest) c" and "opcode command = OpStop" and "busy c"
  shows "\<exists>d. runCommands B c = d \<and> completed d \<and> bus d = bus_end B (bus c) \<and>
    txQueue d = txQueue c \<and> rxQueue d = rxQueue c"
proof -
  let ?d = "raiseRaw I2cComplete ((endBus B c)\<lparr>running := False\<rparr>)"
  have inv: "indices_ok c" using assms(1) by (simp add: ready_def)
  have run: "runCommand B command c = (False, ?d)"
    using assms(2) by (simp add: runCommand_def i2c_opcodes)
  have same: "sameRegs c ?d" by simp
  have "any_bus.master_inv ?d"
    using any_bus.stop_inv [OF any_bus.endBus_inv [of c B], of False] inv by (simp add: any_inv indices_raise)
  then have ok: "indices_ok ?d" by (simp add: any_inv)
  note step = run_step [OF assms(1) run same]
  have "runList B (finishCommand ?d) = (False, finishCommand ?d)"
    by (subst runList.simps) simp
  then have r: "runCommands B c = i2c_updateIrq (finishCommand ?d)"
    by (simp add: runCommands_def step(1))
  have "i2cReg IntRaw (finishCommand ?d) AND I2cComplete \<noteq> 0"
    using inv by (simp add: finishCommand_def Let_def i2cReg_def raiseRaw_def IntRaw_def Command0Reg_def
        indices_ok_def bit.conj_disj_distrib2 I2cComplete_def or_eq_0_iff)
  moreover have "length (i2c_regs (finishCommand ?d)) = 64" using step(3) [OF ok] by (simp add: indices_ok_def)
  ultimately have "i2cReg IntRaw (i2c_updateIrq (finishCommand ?d)) AND I2cComplete \<noteq> 0"
    by (subst updateIrq_raw) (simp_all add: i2c_raw_bits)
  moreover have "indices_ok (i2c_updateIrq (finishCommand ?d))"
    using step(3) [OF ok] any_bus.master_inv_updateIrq [of "finishCommand ?d"] by (simp add: any_inv)
  moreover have "i2cReg FifoConf (i2c_updateIrq (finishCommand ?d)) AND NonFifo = 0"
    using step(4) by (simp add: i2cReg_def updateIrq_regs FifoConf_def)
  moreover have "txQueue (endBus B c) = txQueue c" "rxQueue (endBus B c) = rxQueue c"
    by (simp_all add: txQueue_def rxQueue_def endBus_def)
  ultimately show ?thesis
    using assms(3) unfolding r
    by (simp add: completed_def endBus_def) (simp add: txQueue_def rxQueue_def)
qed

lemma clearDone_regs:
  assumes "length (i2c_regs c) = 64"
  shows "i2c_regs (clearDone c) ! i = (if 22 \<le> i \<and> i < 30 then i2c_regs c ! i AND NOT 0x80000000 else i2c_regs c ! i)"
proof -
  define f where "f = (\<lambda>i (c :: 'a i2c_master). let offset = Command0Reg + i * 4 in
     setReg offset (i2cReg offset c AND NOT 0x80000000) c)"
  have f: "i2c_regs (f k c) = (i2c_regs c)[22 + k := i2c_regs c ! (22 + k) AND NOT 0x80000000]" for k c
    by (simp add: f_def Let_def i2cReg_def Command0Reg_def)
  have "length (i2c_regs (fold f [0..<n] c)) = 64 \<and> i2c_regs (fold f [0..<n] c) ! i =
      (if 22 \<le> i \<and> i < 22 + n then i2c_regs c ! i AND NOT 0x80000000 else i2c_regs c ! i)" if "n \<le> 8" for n i
    using that
  proof (induction n arbitrary: i)
    case 0
    then show ?case using assms by auto
  next
    case (Suc n)
    have IH: "length (i2c_regs (fold f [0..<n] c)) = 64" "\<And>i. i2c_regs (fold f [0..<n] c) ! i =
      (if 22 \<le> i \<and> i < 22 + n then i2c_regs c ! i AND NOT 0x80000000 else i2c_regs c ! i)"
      using Suc.IH Suc.prems by simp_all
    show ?case using IH(1) Suc.prems by (auto simp: f IH(2) nth_list_update)
  qed
  from this [of 8 i] show ?thesis by (simp add: clearDone_def f_def CommandCount_def)
qed

lemma start_list:
  assumes "loaded cmds q b c" and "length cmds \<le> 8" and "\<forall>v \<in> set cmds. v AND 0x3FFF = v"
  shows "\<exists>d more. i2cWrite B 0x04 0x30 c = i2c_updateIrq (runCommands B d) \<and> ready (cmds @ more) d \<and>
    bus d = b \<and> txQueue d = q \<and> rxCount d = 0 \<and> rxQueue d = [] \<and> slaveAddress d = slaveAddress c"
proof -
  define e where "e = setReg I2cControlReg (0x30 AND 0x7FFF AND NOT (I2cStart OR FsmReset OR ConfUpdate)) c"
  define f where "f = clearDone (e\<lparr>commandIndex := 0, byteIndex := 0\<rparr>)"
  define d where "d = raiseRaw TransStart (f\<lparr>running := True\<rparr>)"
  have bits: "(0x30 :: u32) AND FsmReset = 0" "(0x30 :: u32) AND I2cStart \<noteq> 0" "(0x30 :: u32) AND Master \<noteq> 0"
    by (simp_all add: FsmReset_def I2cStart_def Master_def)
  have len: "length (i2c_regs c) = 64" using assms(1) by (simp add: loaded_def indices_ok_def)
  obtain regs where f: "length regs = 64" "f = e\<lparr>commandIndex := 0, byteIndex := 0, i2c_regs := regs\<rparr>"
    using clearDone_frame [of "e\<lparr>commandIndex := 0, byteIndex := 0\<rparr>"] len by (auto simp: f_def e_def)
  have regs: "i2c_regs f ! i = (if 22 \<le> i \<and> i < 30 then i2c_regs c ! i AND NOT 0x80000000 else i2c_regs c ! i)"
    if "i \<noteq> 1" for i
    using clearDone_regs [of "e\<lparr>commandIndex := 0, byteIndex := 0\<rparr>" i] len that
    by (simp add: f_def e_def I2cControlReg_def)
  have conf: "i2cReg FifoConf f AND NonFifo = 0" "i2cReg FifoConf d AND NonFifo = 0"
    using regs [of 6] assms(1) by (simp_all add: d_def i2cReg_def FifoConf_def loaded_def raiseRaw_def IntRaw_def)
  have run: "i2cWrite B 0x04 0x30 c = i2c_updateIrq (runCommands B d)"
  proof -
    have "i2c_writeControl B 0x30 c = startList B 0x30 e"
      unfolding i2c_writeControl_def Let_def e_def [symmetric] using bits by simp
    also have "\<dots> = runCommands B d"
      unfolding startList_def Let_def f_def [symmetric] d_def [symmetric] using conf(1) bits by simp
    finally show ?thesis by (simp add: i2cWrite_def I2cControlReg_def)
  qed
  have "indices_ok d"
    using assms(1) f by (auto simp: d_def indices_raise loaded_def indices_ok_def e_def)
  moreover have "take (length cmds) (slots d) = cmds"
  proof (rule nth_equalityI)
    show "length (take (length cmds) (slots d)) = length cmds"
      using \<open>indices_ok d\<close> assms(2) by (simp add: slots_def indices_ok_def)
    fix i assume "i < length (take (length cmds) (slots d))"
    then have i: "i < length cmds" "i < 8" using assms(2) by auto
    have "take (length cmds) (slots c) ! i = cmds ! i" using assms(1) by (simp add: loaded_def)
    then have c: "i2c_regs c ! (22 + i) = cmds ! i" using i len by (simp add: slots_def)
    have "cmds ! i AND 0x3FFF = cmds ! i" using assms(3) i by auto
    then have "cmds ! i AND NOT 0x80000000 = (cmds ! i AND 0x3FFF) AND NOT 0x80000000" by simp
    also have "\<dots> = cmds ! i AND 0x3FFF" by (simp add: and.assoc)
    finally have "i2c_regs f ! (22 + i) = cmds ! i"
      using regs [of "22 + i"] c i \<open>cmds ! i AND 0x3FFF = cmds ! i\<close> by simp
    then show "take (length cmds) (slots d) ! i = cmds ! i"
      using i f \<open>indices_ok d\<close> by (simp add: slots_def d_def raiseRaw_def IntRaw_def indices_ok_def)
  qed
  then have "\<exists>more. slots d = cmds @ more" by (metis append_take_drop_id)
  moreover have "commandIndex d = 0" "byteIndex d = 0" "running d" "bus d = b" "txQueue d = q" "rxCount d = 0"
      "rxQueue d = []" "slaveAddress d = slaveAddress c"
    using assms(1) unfolding d_def f(2) e_def by (simp_all add: loaded_def txQueue_def rxQueue_def fifo_def)
  ultimately show ?thesis using run conf(2) by (intro exI [of _ d]) (auto simp: ready_def todo_def)
qed

section \<open>The firmware's transactions\<close>

definition writeList :: "nat \<Rightarrow> u32 list" where
  "writeList n = [commandWord OpRestart 0 0, commandWord OpWrite CommandAckCheck (Suc n), commandWord OpStop 0 0]"

definition readList :: "nat \<Rightarrow> u32 list" where
  "readList n = [commandWord OpRestart 0 0, commandWord OpWrite CommandAckCheck 2,
     commandWord OpRestart 0 0, commandWord OpWrite CommandAckCheck 1,
     commandWord OpRead CommandAckValue n, commandWord OpStop 0 0]"

definition firmwareWrite :: "'b i2c_bus \<Rightarrow> byte \<Rightarrow> bytes \<Rightarrow> 'b i2c_master \<Rightarrow> 'b i2c_master" where
  "firmwareWrite B a vs c = i2cWrite B 0x04 0x30 (regWrites B (loadData (push_bit 1 a # vs))
     (regWrites B (loadCommands (writeList (length vs))) c))"

definition readData :: "'b i2c_bus \<Rightarrow> 'b i2c_master \<Rightarrow> byte \<times> 'b i2c_master" where
  "readData B c = (let (v, c) = i2cRead B 0x1C c in (ucast v, c))"

definition firmwareRead :: "'b i2c_bus \<Rightarrow> byte \<Rightarrow> byte \<Rightarrow> nat \<Rightarrow> 'b i2c_master \<Rightarrow> bytes \<times> 'b i2c_master" where
  "firmwareRead B a reg n c = read_burst (readData B) n (i2cWrite B 0x04 0x30
     (regWrites B (loadData [push_bit 1 a, reg, push_bit 1 a OR 1]) (regWrites B (loadCommands (readList n)) c)))"

lemma completed_updateIrq: "completed (i2c_updateIrq c) = completed c"
proof -
  have "i2cReg IntRaw (i2c_updateIrq c) AND I2cComplete = i2cReg IntRaw c AND I2cComplete" if "indices_ok c"
    using that by (intro updateIrq_raw) (simp_all add: i2c_raw_bits indices_ok_def)
  moreover have "indices_ok (i2c_updateIrq c) = indices_ok c"
    using any_bus.master_inv_updateIrq [of c] by (simp add: any_inv)
  ultimately show ?thesis by (auto simp: completed_def i2cReg_def updateIrq_regs FifoConf_def)
qed

lemma queues_updateIrq [simp]: "txQueue (i2c_updateIrq c) = txQueue c" "rxQueue (i2c_updateIrq c) = rxQueue c"
  by (simp_all add: txQueue_def rxQueue_def)

lemma addressByte:
  assumes "a < 128"
  shows "drop_bit 1 (push_bit 1 a) = (a :: byte)" and "push_bit 1 a AND 1 = (0 :: byte)"
    and "drop_bit 1 (push_bit 1 a OR 1) = a" and "(push_bit 1 a OR 1) AND 1 \<noteq> (0 :: byte)"
proof -
  have a: "bit a n \<Longrightarrow> n < 7" for n
  proof -
    have "take_bit 7 a = a" using assms by (simp add: word_unat_eq_iff unsigned_take_bit_eq take_bit_nat_eq_self word_less_nat_alt)
    then show "bit a n \<Longrightarrow> n < 7" by (metis bit_take_bit_iff)
  qed
  define k :: nat where "k = 1"
  have k: "k \<noteq> 0" "k \<le> 1" by (simp_all add: k_def)
  have a': "bit a n \<Longrightarrow> k + n < 8" for n using a [of n] k by simp
  have "drop_bit k (push_bit k a) = a"
    by (rule bit_word_eqI) (use a' k in \<open>auto simp: bit_simps\<close>)
  moreover have "drop_bit k (push_bit k a OR 1) = a"
    by (rule bit_word_eqI) (use a' k in \<open>auto simp: bit_simps\<close>)
  ultimately show "drop_bit 1 (push_bit 1 a) = a" "drop_bit 1 (push_bit 1 a OR 1) = a"
    by (simp_all only: k_def)
  have "push_bit k a AND 1 = (0 :: byte)"
    by (rule bit_word_eqI) (use k in \<open>auto simp: bit_simps\<close>)
  then show "push_bit 1 a AND 1 = (0 :: byte)" by (simp only: k_def)
  have "bit ((push_bit 1 a OR 1) AND (1 :: byte)) 0" by (simp add: bit_simps)
  then show "(push_bit 1 a OR 1) AND 1 \<noteq> (0 :: byte)" by (metis bit_0_eq bot_apply bot_bool_def)
qed

lemma list_words:
  "\<forall>v \<in> set (writeList n). v AND 0x3FFF = v" if "n < 255"
  using that by (simp add: writeList_def commandWord_fields(3) OpRestart_def OpWrite_def OpStop_def CommandAckCheck_def)

lemma read_words:
  "\<forall>v \<in> set (readList n). v AND 0x3FFF = v" if "n < 256"
  using that by (simp add: readList_def commandWord_fields(3) OpRestart_def OpWrite_def OpStop_def OpRead_def
      CommandAckCheck_def CommandAckValue_def)

lemma completed_loaded:
  "completed c \<Longrightarrow> txQueue c = [] \<Longrightarrow> rxCount c = 0 \<Longrightarrow> loaded [] [] (bus c) c"
  by (simp add: completed_def loaded_def)

text \<open>A register write: the device sees one write transfer with exactly the bytes of the firmware.\<close>

lemma firmwareWrite_effect:
  assumes at: "attached B a ev snd' rcv dev sel" and "a < 128" and idle: "loaded [] [] b c" and "\<not> sel b"
    and "length vs < FifoCapacity"
  shows "\<exists>d. firmwareWrite B a vs c = d \<and> completed d \<and> loaded [] [] (bus d) d \<and> \<not> sel (bus d) \<and>
    dev (bus d) = ev I2C_FINISH (fold snd' vs (ev I2C_START_SEND (dev b)))"
proof -
  let ?cmds = "writeList (length vs)"
  have n: "length vs < 255" using assms(5) by (simp add: FifoCapacity_def)
  have "loaded ?cmds [] b (regWrites B (loadCommands ?cmds) c)"
    by (rule loadCommands_loaded [OF idle]) (use list_words [OF n] in \<open>simp_all add: writeList_def\<close>)
  then have "loaded ?cmds ([] @ (push_bit 1 a # vs)) b (regWrites B (loadData (push_bit 1 a # vs))
      (regWrites B (loadCommands ?cmds) c))"
    by (rule loadData_loaded) (use assms(5) in \<open>simp add: FifoCapacity_def\<close>)
  from start_list [OF this _ list_words [OF n], of B] obtain c1 more where
    start: "firmwareWrite B a vs c = i2c_updateIrq (runCommands B c1)"
    and c1: "ready (?cmds @ more) c1" "bus c1 = b" "txQueue c1 = push_bit 1 a # vs" "rxQueue c1 = []"
    unfolding firmwareWrite_def by (auto simp: writeList_def)
  note fields = commandWord_fields [of _ OpRestart 0] commandWord_fields [of _ OpWrite CommandAckCheck]
    commandWord_fields [of _ OpStop 0]
  note fields = fields [unfolded OpRestart_def OpWrite_def OpStop_def CommandAckCheck_def, simplified]
  have list: "?cmds @ more = commandWord OpRestart 0 0 # commandWord OpWrite CommandAckCheck (Suc (length vs)) #
      commandWord OpStop 0 0 # more" by (simp add: writeList_def)
  from restart_step [OF c1(1) [unfolded list]] obtain c2 where c2: "runList B c1 = runList B c2"
      "ready (commandWord OpWrite CommandAckCheck (Suc (length vs)) # commandWord OpStop 0 0 # more) c2"
      "busy c2" "addressPhase c2" "bus c2 = b" "txQueue c2 = push_bit 1 a # vs @ []" "rxQueue c2 = []"
    using c1 by (auto simp: fields OpRestart_def)
  have "\<exists>c3. runList B c2 = runList B c3 \<and> ready (commandWord OpStop 0 0 # more) c3 \<and> busy c3 \<and>
      transferring a sel (push_bit 1 a AND 1 \<noteq> 0) c3 \<and>
      dev (bus c3) = fold snd' vs (ev (if push_bit 1 a AND 1 \<noteq> 0 then I2C_START_RECV else I2C_START_SEND) (dev (bus c2))) \<and>
      txQueue c3 = [] \<and> rxQueue c3 = rxQueue c2"
    by (rule write_step [OF at c2(2) _ c2(4,3) _ c2(6)])
      (use assms(2,4) addressByte [OF assms(2)] n c2(5) in \<open>simp_all add: fields OpWrite_def CommandAckCheck_def\<close>)
  then obtain c3 where c3: "runList B c2 = runList B c3" "ready (commandWord OpStop 0 0 # more) c3" "busy c3"
      "sel (bus c3)" "dev (bus c3) = fold snd' vs (ev I2C_START_SEND (dev b))" "txQueue c3 = []" "rxQueue c3 = []"
    using addressByte(2) [OF assms(2)] c2(5,7) by (auto simp: transferring_def)
  from stop_step [OF c3(2) _ c3(3), of B] obtain c4 where c4: "runCommands B c3 = c4" "completed c4"
      "bus c4 = bus_end B (bus c3)" "txQueue c4 = []" "rxQueue c4 = []"
    using c3(6,7) by (auto simp: fields OpStop_def)
  have "runCommands B c1 = c4"
    using c4(1) c2(1) c3(1) by (simp add: runCommands_def)
  then have d: "firmwareWrite B a vs c = i2c_updateIrq c4" by (simp add: start)
  have "rxCount c4 = 0" using arg_cong [OF c4(5), of length] by (simp add: rxQueue_def)
  then have "loaded [] [] (bus (i2c_updateIrq c4)) (i2c_updateIrq c4)"
    using c4 by (intro completed_loaded) (simp_all add: completed_updateIrq)
  then show ?thesis
    using c4 c3 attachedD(12,13) [OF at] d by (simp add: completed_updateIrq)
qed

text \<open>Draining the receive FIFO.\<close>

lemma readData_pop:
  assumes "completed c" and "rxQueue c = v # q"
  shows "\<exists>d. readData B c = (v, d) \<and> completed d \<and> rxQueue d = q \<and> txQueue d = txQueue c \<and> bus d = bus c"
proof -
  let ?c = "c\<lparr>rxHead := (rxHead c + 1) mod FifoCapacity, rxCount := rxCount c - 1\<rparr>"
  have n: "rxCount c \<noteq> 0" using arg_cong [OF assms(2), of length] by (simp add: rxQueue_def)
  have head: "rxHead c mod FifoCapacity = rxHead c" using assms(1) by (simp add: completed_def indices_ok_def)
  have q: "rx c ! rxHead c = v" "rxQueue ?c = q"
    using fifo_pop [OF n, of "rx c" "rxHead c"] assms(2) head by (simp_all add: rxQueue_def)
  have "\<not> running ?c" using assms(1) by (simp add: completed_def)
  moreover have "ucast (ucast v :: u32) = v" by (rule bit_word_eqI) (simp add: bit_simps)
  ultimately have "readData B c = (v, i2c_updateIrq ?c)"
    using n q(1) by (simp add: readData_def i2cRead_def i2c_offsets runCommands_stopped)
  moreover have "completed ?c"
    using assms(1) by (auto simp: completed_def indices_ok_def i2cReg_def i2c_sizes)
  moreover have "txQueue ?c = txQueue c" by (simp add: txQueue_def)
  ultimately show ?thesis
    using q(2) by (intro exI [of _ "i2c_updateIrq ?c"]) (simp add: completed_updateIrq)
qed

lemma drain:
  assumes "completed c" and "rxQueue c = vs" and "length vs = n"
  shows "\<exists>d. read_burst (readData B) n c = (vs, d) \<and> completed d \<and> rxQueue d = [] \<and> txQueue d = txQueue c \<and> bus d = bus c"
  using assms
proof (induction n arbitrary: c vs)
  case 0
  then show ?case by simp
next
  case (Suc n)
  then obtain v q where vs: "vs = v # q" by (cases vs) auto
  from readData_pop [OF Suc.prems(1), of v q B] Suc.prems(2) vs obtain d where
    d: "readData B c = (v, d)" "completed d" "rxQueue d = q" "txQueue d = txQueue c" "bus d = bus c" by auto
  from Suc.IH [OF d(2,3)] Suc.prems(3) vs obtain e where
    e: "read_burst (readData B) n d = (q, e)" "completed e" "rxQueue e = []" "txQueue e = txQueue d" "bus e = bus d" by auto
  then show ?case using d vs by (intro exI [of _ e]) simp
qed

lemma read_burst_length: "length (fst (read_burst rcv n d)) = n"
  by (induction n arbitrary: d) (simp_all add: case_prod_beta)

text \<open>A register read: the device sees the register selected, a repeated start and a burst, and the
  firmware gets the bytes of the burst.\<close>

lemma firmwareRead_effect:
  assumes at: "attached B a ev snd' rcv dev sel" and "a < 128" and idle: "loaded [] [] b c" and "\<not> sel b"
    and "0 < n" and "n \<le> FifoCapacity"
  shows "\<exists>d. firmwareRead B a reg n c = (fst (read_transaction ev snd' rcv reg n (dev b)), d) \<and>
    loaded [] [] (bus d) d \<and> \<not> sel (bus d)"
proof -
  let ?cmds = "readList n" and ?q = "[push_bit 1 a, reg, push_bit 1 a OR 1]"
  have n: "n < 256" using assms(6) by (simp add: FifoCapacity_def)
  have "loaded ?cmds [] b (regWrites B (loadCommands ?cmds) c)"
    by (rule loadCommands_loaded [OF idle]) (use read_words [OF n] in \<open>simp_all add: readList_def\<close>)
  then have "loaded ?cmds ([] @ ?q) b (regWrites B (loadData ?q) (regWrites B (loadCommands ?cmds) c))"
    by (rule loadData_loaded) (simp add: FifoCapacity_def)
  from start_list [OF this _ read_words [OF n], of B] obtain c1 more where
    start: "firmwareRead B a reg n c = read_burst (readData B) n (i2c_updateIrq (runCommands B c1))"
    and c1: "ready (?cmds @ more) c1" "bus c1 = b" "txQueue c1 = ?q" "rxQueue c1 = []"
    unfolding firmwareRead_def by (auto simp: readList_def)
  note fields = commandWord_fields [of _ OpRestart 0] commandWord_fields [of _ OpWrite CommandAckCheck]
    commandWord_fields [of _ OpStop 0] commandWord_fields [of _ OpRead CommandAckValue]
  note fields = fields [unfolded OpRestart_def OpWrite_def OpStop_def OpRead_def CommandAckCheck_def CommandAckValue_def, simplified]
  note ops = OpRestart_def OpWrite_def OpStop_def OpRead_def CommandAckCheck_def CommandAckValue_def
  let ?stop = "commandWord OpStop 0 0 # more"
  let ?read = "commandWord OpRead CommandAckValue n # ?stop"
  let ?write1 = "commandWord OpWrite CommandAckCheck 1 # ?read"
  let ?restart2 = "commandWord OpRestart 0 0 # ?write1"
  let ?write2 = "commandWord OpWrite CommandAckCheck 2 # ?restart2"
  have list: "?cmds @ more = commandWord OpRestart 0 0 # ?write2" by (simp add: readList_def)
  from restart_step [OF c1(1) [unfolded list]] obtain c2 where c2: "runList B c1 = runList B c2" "ready ?write2 c2"
      "busy c2" "addressPhase c2" "bus c2 = b" "txQueue c2 = push_bit 1 a # [reg] @ [push_bit 1 a OR 1]" "rxQueue c2 = []"
    using c1 by (auto simp: fields ops)
  have "\<exists>c3. runList B c2 = runList B c3 \<and> ready ?restart2 c3 \<and> busy c3 \<and>
      transferring a sel (push_bit 1 a AND 1 \<noteq> 0) c3 \<and>
      dev (bus c3) = fold snd' [reg] (ev (if push_bit 1 a AND 1 \<noteq> 0 then I2C_START_RECV else I2C_START_SEND) (dev (bus c2))) \<and>
      txQueue c3 = [push_bit 1 a OR 1] \<and> rxQueue c3 = rxQueue c2"
    by (rule write_step [OF at c2(2) _ c2(4,3) _ c2(6)])
      (use assms(2,4) addressByte [OF assms(2)] c2(5) in \<open>simp_all add: fields ops\<close>)
  then obtain c3 where c3: "runList B c2 = runList B c3" "ready ?restart2 c3" "slaveAddress c3 = a"
      "dev (bus c3) = snd' reg (ev I2C_START_SEND (dev b))" "txQueue c3 = [push_bit 1 a OR 1]" "rxQueue c3 = []"
    using addressByte(2) [OF assms(2)] c2(5,7) by (auto simp: transferring_def)
  from restart_step [OF c3(2)] obtain c4 where c4: "runList B c3 = runList B c4" "ready ?write1 c4"
      "busy c4" "addressPhase c4" "bus c4 = bus c3" "slaveAddress c4 = a"
      "txQueue c4 = (push_bit 1 a OR 1) # [] @ []" "rxQueue c4 = []"
    using c3 by (auto simp: fields ops)
  have "\<exists>c5. runList B c4 = runList B c5 \<and> ready ?read c5 \<and> busy c5 \<and>
      transferring a sel ((push_bit 1 a OR 1) AND 1 \<noteq> 0) c5 \<and>
      dev (bus c5) = fold snd' [] (ev (if (push_bit 1 a OR 1) AND 1 \<noteq> 0 then I2C_START_RECV else I2C_START_SEND) (dev (bus c4))) \<and>
      txQueue c5 = [] \<and> rxQueue c5 = rxQueue c4"
    by (rule write_step [OF at c4(2) _ c4(4,3) _ c4(7)])
      (use c4(6) addressByte [OF assms(2)] in \<open>simp_all add: fields ops\<close>)
  then obtain c5 where c5: "runList B c4 = runList B c5" "ready ?read c5" "busy c5" "transferring a sel True c5"
      "dev (bus c5) = ev I2C_START_RECV (snd' reg (ev I2C_START_SEND (dev b)))" "txQueue c5 = []" "rxQueue c5 = []"
    using addressByte(4) [OF assms(2)] c3(4) c4(5,8) by auto
  have len: "commandLength (commandWord OpRead CommandAckValue n) = n" using n by (simp add: fields ops)
  have "rxCount c5 = 0" using arg_cong [OF c5(7), of length] by (simp add: rxQueue_def)
  then have "\<exists>c6. runList B c5 = runList B c6 \<and> ready ?stop c6 \<and> busy c6 \<and> transferring a sel True c6 \<and>
      dev (bus c6) = ev I2C_NACK (snd (read_burst rcv n (dev (bus c5)))) \<and>
      txQueue c6 = txQueue c5 \<and> rxQueue c6 = rxQueue c5 @ fst (read_burst rcv n (dev (bus c5)))"
    using read_step [OF at c5(2) _ c5(4,3)] assms(5,6) n by (simp add: len fields ops)
  then obtain c6 where c6: "runList B c5 = runList B c6" "ready ?stop c6" "busy c6" "txQueue c6 = []"
      "rxQueue c6 = fst (read_transaction ev snd' rcv reg n (dev b))"
    using c5(5-7) by (auto simp: read_transaction_def)
  from stop_step [OF c6(2) _ c6(3), of B] obtain c7 where c7: "runCommands B c6 = c7" "completed c7"
      "bus c7 = bus_end B (bus c6)" "txQueue c7 = []" "rxQueue c7 = rxQueue c6"
    using c6(4) by (auto simp: fields ops)
  have "runCommands B c1 = c7"
    using c7(1) c2(1) c3(1) c4(1) c5(1) c6(1) by (simp add: runCommands_def)
  then have start7: "firmwareRead B a reg n c = read_burst (readData B) n (i2c_updateIrq c7)" by (simp add: start)
  have "completed (i2c_updateIrq c7)" "rxQueue (i2c_updateIrq c7) = rxQueue c6"
    using c7 by (simp_all add: completed_updateIrq)
  moreover have "length (rxQueue c6) = n" by (simp add: c6(5) read_transaction_def read_burst_length)
  ultimately obtain d where d: "read_burst (readData B) n (i2c_updateIrq c7) = (rxQueue c6, d)" "completed d"
      "rxQueue d = []" "txQueue d = []" "bus d = bus c7"
    using drain [of "i2c_updateIrq c7" "rxQueue c6" n B] c7(4) by auto
  have "rxCount d = 0" using arg_cong [OF d(3), of length] by (simp add: rxQueue_def)
  then have "loaded [] [] (bus d) d" using d by (intro completed_loaded) simp_all
  then show ?thesis
    using start7 d c6(5) c7(3) attachedD(12) [OF at] by (intro exI [of _ d]) simp
qed

section \<open>Firmware and power chip\<close>

text \<open>C30: firmware, I2C master and power-management chip together. With the chip at its address on
  the bus, a burst the firmware writes to registers the chip stores, through the command list and
  the FIFO of the master, is what the firmware reads back through the master; both transfers end
  with the master idle again, ready for the next.\<close>

theorem firmware_reads_back_what_it_wrote:
  assumes "attached B a pm1_event pm1_send pm1_receive dev sel" and "a < 128"
    and "indices_ok c" and "\<not> running c" and "\<not> busy c" and "txCount c = 0" and "rxCount c = 0"
    and "i2cReg FifoConf c AND NonFifo = 0" and "\<not> sel (bus c)"
    and "vs \<noteq> []" and "length vs \<le> 30" and "\<And>i. i < length vs \<Longrightarrow> pm1_plain (reg + of_nat i)"
  shows "\<exists>d. firmwareRead B a reg (length vs) (firmwareWrite B a (reg # vs) c) = (vs, d) \<and>
    \<not> running d \<and> \<not> busy d \<and> txCount d = 0 \<and> rxCount d = 0 \<and>
    dev (bus (firmwareWrite B a (reg # vs) c)) = write_transaction pm1_event pm1_send reg vs (dev (bus c))"
proof -
  have idle: "loaded [] [] (bus c) c"
    using assms(3-8) by (simp add: loaded_def txQueue_def fifo_def)
  have "length (reg # vs) < FifoCapacity" using assms(11) by (simp add: FifoCapacity_def)
  from firmwareWrite_effect [OF assms(1,2) idle assms(9) this] obtain w where
    w: "firmwareWrite B a (reg # vs) c = w" "loaded [] [] (bus w) w" "\<not> sel (bus w)"
      "dev (bus w) = write_transaction pm1_event pm1_send reg vs (dev (bus c))"
    by (auto simp: write_transaction_def)
  have n: "0 < length vs" "length vs \<le> FifoCapacity" using assms(10,11) by (simp_all add: FifoCapacity_def)
  from firmwareRead_effect [OF assms(1,2) w(2,3) n] obtain d where
    d: "firmwareRead B a reg (length vs) w =
        (fst (read_transaction pm1_event pm1_send pm1_receive reg (length vs) (dev (bus w))), d)"
      "loaded [] [] (bus d) d" by blast
  have "fst (read_transaction pm1_event pm1_send pm1_receive reg (length vs) (dev (bus w))) = vs"
    unfolding w(4) by (rule pm1_bus.burst_roundtrip [OF TrueI]) (use assms(11,12) in auto)
  then show ?thesis
    using d w(1,4) by (auto simp: loaded_def txQueue_def fifo_def)
qed

text \<open>A bus with just the chip at address 0x6E, with the selection as QEMU keeps it.\<close>

definition pm1_wire :: "(m5pm1 \<times> bool) i2c_bus" where
  "pm1_wire = \<lparr>
     bus_start = (\<lambda>a r (d, s). if a = 0x6E then (True, pm1_event (if r then I2C_START_RECV else I2C_START_SEND) d, True)
       else (False, d, s)),
     bus_send = (\<lambda>v (d, s). if s then (True, pm1_send v d, s) else (False, d, s)),
     bus_recv = (\<lambda>(d, s). if s then (fst (pm1_receive d), snd (pm1_receive d), s) else (0xFF, d, s)),
     bus_nack = (\<lambda>(d, s). (if s then pm1_event I2C_NACK d else d, s)),
     bus_end = (\<lambda>(d, s). (if s then pm1_event I2C_FINISH d else d, False))\<rparr>"

lemma pm1_wire_attached: "attached pm1_wire 0x6E pm1_event pm1_send pm1_receive fst snd"
  by (simp add: attached_def pm1_wire_def case_prod_beta)

theorem firmware_reads_back_what_it_wrote_witness:
  "\<exists>d. firmwareRead pm1_wire 0x6E 0x60 (length ([1, 2, 3] :: bytes)) (firmwareWrite pm1_wire 0x6E [0x60, 1, 2, 3]
      (i2cReset pm1_wire (i2c_new (pm1_init, False)))) = ([1, 2, 3], d) \<and> \<not> running d"
proof -
  let ?c = "i2cReset pm1_wire (i2c_new (pm1_init, False))"
  have plain: "pm1_plain (0x60 + of_nat i)" if "i < length ([1, 2, 3] :: bytes)" for i
  proof -
    have "i = 0 \<or> i = 1 \<or> i = 2" using that by auto
    then show ?thesis by (elim disjE; hypsubst; code_simp)
  qed
  have ok: "indices_ok ?c"
    using any_bus.i2cReset_inv [where c = "i2c_new (pm1_init, False)" and B = pm1_wire] by (simp add: any_inv)
  have c: "\<not> running ?c" "\<not> busy ?c" "txCount ?c = 0" "rxCount ?c = 0" "bus ?c = (pm1_init, False)"
    by (simp_all add: i2cReset_def i2c_new_def endBus_def)
  have conf: "i2cReg FifoConf ?c AND NonFifo = 0"
    by (simp add: i2cReset_def i2cReg_def updateIrq_regs FifoConf_def i2cDefaults_def NonFifo_def FifoProtect_def endBus_def)
  have "(0x6E :: byte) < 128" "([1, 2, 3] :: bytes) \<noteq> []" "length ([1, 2, 3] :: bytes) \<le> 30" by simp_all
  from firmware_reads_back_what_it_wrote [OF pm1_wire_attached this(1) ok c(1-4) conf _ this(2,3) plain]
  show ?thesis using c(5) by auto
qed

end
