(* ===== verification/Gpio.thy ===== *)
theory Gpio
  imports BleBytes
begin

text \<open>
  The GPIO controller of the chip, \<open>qemu/esp32s3/esp32s3_gpio.c\<close>: 49 pads with drive, pulls, the
  output half of the GPIO matrix and interrupts. \<open>gpio_log\<close> lists the calls of \<open>qemu_set_irq\<close> on the
  outgoing lines; \<open>gpio_irq\<close> is the level last given to the interrupt line. A register access is at an
  aligned address below 0x1000; what an outgoing line triggers elsewhere is a later step.
\<close>

unbundle bit_operations_syntax

section \<open>Registers and state\<close>

definition GpioOutputReg :: nat where "GpioOutputReg = 0x04"
definition OutputEnableReg :: nat where "OutputEnableReg = 0x20"
definition PinConfigReg :: nat where "PinConfigReg = 0x74"
definition MatrixOutputReg :: nat where "MatrixOutputReg = 0x554"
definition PinOpenDrain :: u32 where "PinOpenDrain = 4"
definition PinIrqEnableMask :: u32 where "PinIrqEnableMask = 0x3E000"
definition IrqRising :: u32 where "IrqRising = 1"
definition IrqFalling :: u32 where "IrqFalling = 2"
definition IrqAnyEdge :: u32 where "IrqAnyEdge = 3"
definition IrqLowLevel :: u32 where "IrqLowLevel = 4"
definition IrqHighLevel :: u32 where "IrqHighLevel = 5"
definition MatrixSignalMask :: u32 where "MatrixSignalMask = 0x1FF"
definition MatrixSoftwareOutput :: u32 where "MatrixSoftwareOutput = 256"
definition MatrixInvertOutput :: u32 where "MatrixInvertOutput = 0x200"
definition MatrixSoftwareEnable :: u32 where "MatrixSoftwareEnable = 0x400"
definition MatrixInvertEnable :: u32 where "MatrixInvertEnable = 0x800"

definition GpioPinCount :: nat where "GpioPinCount = 49"
definition MatrixSignalCount :: nat where "MatrixSignalCount = 256"

lemmas gpio_registers = GpioOutputReg_def OutputEnableReg_def PinConfigReg_def MatrixOutputReg_def GpioPinCount_def

datatype gpio_line = DriveLine nat int | PadLine nat bool | OutputLine nat bool

record esp_gpio =
  gpio_regs :: "u32 list"
  strapMode :: u32
  levels :: u64
  status :: u64
  externalLevels :: u64
  externalDriven :: u64
  externalPullups :: u64
  pullups :: u64
  pulldowns :: u64
  driveLevel :: "int list"
  peripheralDrive :: "int list"
  gpio_irq :: bool
  gpio_log :: "gpio_line list"

definition gpioReg :: "nat \<Rightarrow> esp_gpio \<Rightarrow> u32" where
  "gpioReg address g = gpio_regs g ! (address div 4)"

definition setGpioReg :: "nat \<Rightarrow> u32 \<Rightarrow> esp_gpio \<Rightarrow> esp_gpio" where
  "setGpioReg address v g = g\<lparr>gpio_regs := (gpio_regs g)[address div 4 := v]\<rparr>"

section \<open>Interrupts\<close>

definition gpioPending :: "esp_gpio \<Rightarrow> u64" where
  "gpioPending g = fold (\<lambda>pin pending.
     if gpioReg (PinConfigReg + pin * 4) g AND PinIrqEnableMask \<noteq> 0
     then pending OR (status g AND push_bit pin 1) else pending) [0..<GpioPinCount] 0"

definition gpioIrqUpdate :: "esp_gpio \<Rightarrow> esp_gpio" where
  "gpioIrqUpdate g = g\<lparr>gpio_irq := gpioPending g \<noteq> 0\<rparr>"

definition interruptType :: "nat \<Rightarrow> esp_gpio \<Rightarrow> u32" where
  "interruptType pin g = drop_bit 7 (gpioReg (PinConfigReg + pin * 4) g) AND 7"

definition triggers :: "u32 \<Rightarrow> bool \<Rightarrow> bool \<Rightarrow> bool" where
  "triggers type previous v \<longleftrightarrow>
     (type = IrqRising \<and> \<not> previous \<and> v) \<or> (type = IrqFalling \<and> previous \<and> \<not> v) \<or>
     (type = IrqAnyEdge \<and> previous \<noteq> v) \<or> (type = IrqLowLevel \<and> \<not> v) \<or> (type = IrqHighLevel \<and> v)"

definition setLevel :: "nat \<Rightarrow> bool \<Rightarrow> esp_gpio \<Rightarrow> esp_gpio" where
  "setLevel pin v g =
     (let previous = (drop_bit pin (levels g) AND 1 \<noteq> 0); type = interruptType pin g in
      if previous = v \<and> type \<noteq> IrqLowLevel \<and> type \<noteq> IrqHighLevel then g
      else
        let g = g\<lparr>levels := (levels g AND NOT (push_bit pin 1)) OR push_bit pin (of_bool v)\<rparr>;
            g = (if triggers type previous v then g\<lparr>status := status g OR push_bit pin 1\<rparr> else g);
            g = gpioIrqUpdate g in
        g\<lparr>gpio_log := gpio_log g @ [PadLine pin v, OutputLine pin v]\<rparr>)"

section \<open>Pads\<close>

text \<open>What the pad is driven to, \<open>-1\<close> when it is released.\<close>

definition pinSignal :: "nat \<Rightarrow> esp_gpio \<Rightarrow> u32" where
  "pinSignal pin g = gpioReg (MatrixOutputReg + pin * 4) g AND MatrixSignalMask"

definition pinDriveOf :: "nat \<Rightarrow> esp_gpio \<Rightarrow> int" where
  "pinDriveOf pin g =
     (let bank = pin div 32; bit' = push_bit (pin mod 32) 1 :: u32;
          matrix = gpioReg (MatrixOutputReg + pin * 4) g; signal = pinSignal pin g;
          software = (signal = MatrixSoftwareOutput);
          peripheral = (if unat signal < MatrixSignalCount then peripheralDrive g ! unat signal else -1);
          gpioEnabled = (gpioReg (OutputEnableReg + bank * 12) g AND bit' \<noteq> 0);
          enabled = ((if software \<or> matrix AND MatrixSoftwareEnable \<noteq> 0 then gpioEnabled else 0 \<le> peripheral)
            \<noteq> (matrix AND MatrixInvertEnable \<noteq> 0));
          output = ((if software then gpioReg (GpioOutputReg + bank * 12) g AND bit' \<noteq> 0 else 0 < peripheral)
            \<noteq> (matrix AND MatrixInvertOutput \<noteq> 0));
          openDrain = (gpioReg (PinConfigReg + pin * 4) g AND PinOpenDrain \<noteq> 0) in
      if enabled \<and> (software \<or> 0 \<le> peripheral) \<and> \<not> (openDrain \<and> output) then of_bool output else -1)"

text \<open>The level of a pad that resolves drive, external drive and pulls.\<close>

definition padLevel :: "nat \<Rightarrow> int \<Rightarrow> esp_gpio \<Rightarrow> bool" where
  "padLevel pin drive g =
     (let mask = push_bit pin 1 in
      if 0 \<le> drive then drive \<noteq> 0
      else if externalDriven g AND mask \<noteq> 0 then externalLevels g AND mask \<noteq> 0
      else if (externalPullups g OR pullups g) AND mask \<noteq> 0 then True
      else pulldowns g AND mask = 0)"

definition updatePin :: "nat \<Rightarrow> esp_gpio \<Rightarrow> esp_gpio" where
  "updatePin pin g =
     (let drive = pinDriveOf pin g;
          g = (if driveLevel g ! pin \<noteq> drive
               then g\<lparr>driveLevel := (driveLevel g)[pin := drive], gpio_log := gpio_log g @ [DriveLine pin drive]\<rparr>
               else g) in
      setLevel pin (padLevel pin drive g) g)"

definition updateOutputs :: "esp_gpio \<Rightarrow> esp_gpio" where
  "updateOutputs g = fold updatePin [0..<GpioPinCount] g"

section \<open>Inputs\<close>

definition gpioInput :: "nat \<Rightarrow> int \<Rightarrow> esp_gpio \<Rightarrow> esp_gpio" where
  "gpioInput pin level g =
     (let mask = push_bit pin 1 in
      updatePin pin (g\<lparr>
        externalDriven := (if level < 0 then externalDriven g AND NOT mask else externalDriven g OR mask),
        externalLevels := (externalLevels g AND NOT mask) OR (if 0 < level then mask else 0)\<rparr>))"

definition peripheralInput :: "nat \<Rightarrow> int \<Rightarrow> esp_gpio \<Rightarrow> esp_gpio" where
  "peripheralInput signal level g = fold (\<lambda>pin g.
       if unat (pinSignal pin g) = signal then updatePin pin g else g) [0..<GpioPinCount]
     (g\<lparr>peripheralDrive := (peripheralDrive g)[signal := signed_take_bit 7 level]\<rparr>)"

definition pullInput :: "nat \<Rightarrow> int \<Rightarrow> esp_gpio \<Rightarrow> esp_gpio" where
  "pullInput pin v g =
     (let mask = push_bit pin 1 in
      updatePin pin (g\<lparr>
        pulldowns := (pulldowns g AND NOT mask) OR (if v AND 1 \<noteq> 0 then mask else 0),
        pullups := (pullups g AND NOT mask) OR (if v AND 2 \<noteq> 0 then mask else 0)\<rparr>))"

section \<open>Register accesses\<close>

definition gpioRead :: "nat \<Rightarrow> esp_gpio \<Rightarrow> u32" where
  "gpioRead address g =
     (if address = 0x38 then strapMode g
      else if address = 0x3C then ucast (levels g)
      else if address = 0x40 then ucast (drop_bit 32 (levels g))
      else if address = 0x44 \<or> address = 0x5C \<or> address = 0x60 \<or> address = 0x64 then ucast (status g)
      else if address = 0x50 \<or> address = 0x68 \<or> address = 0x6C \<or> address = 0x70 then ucast (drop_bit 32 (status g))
      else gpioReg address g)"

definition storeGpio :: "nat \<Rightarrow> u32 \<Rightarrow> esp_gpio \<Rightarrow> esp_gpio" where
  "storeGpio address v g =
     (let v' = ucast v :: u64 in
      if address = 0x08 then setGpioReg GpioOutputReg (gpioReg GpioOutputReg g OR v) g
      else if address = 0x0C then setGpioReg GpioOutputReg (gpioReg GpioOutputReg g AND NOT v) g
      else if address = 0x14 then setGpioReg 0x10 (gpioReg 0x10 g OR v) g
      else if address = 0x18 then setGpioReg 0x10 (gpioReg 0x10 g AND NOT v) g
      else if address = 0x24 \<or> address = 0x30 then setGpioReg (address - 4) (gpioReg (address - 4) g OR v) g
      else if address = 0x28 \<or> address = 0x34 then setGpioReg (address - 8) (gpioReg (address - 8) g AND NOT v) g
      else if address = 0x44 then g\<lparr>status := (status g AND 0xFFFFFFFF00000000) OR v'\<rparr>
      else if address = 0x48 then g\<lparr>status := status g OR v'\<rparr>
      else if address = 0x4C then g\<lparr>status := status g AND NOT v'\<rparr>
      else if address = 0x50 then g\<lparr>status := ucast (ucast (status g) :: u32) OR push_bit 32 v'\<rparr>
      else if address = 0x54 then g\<lparr>status := status g OR push_bit 32 v'\<rparr>
      else if address = 0x58 then g\<lparr>status := status g AND NOT (push_bit 32 v')\<rparr>
      else setGpioReg address v g)"

definition gpioWrite :: "nat \<Rightarrow> u32 \<Rightarrow> esp_gpio \<Rightarrow> esp_gpio" where
  "gpioWrite address v g =
     (let g = storeGpio address v g in
      gpioIrqUpdate
        (if GpioOutputReg \<le> address \<and> address \<le> 0x34 then updateOutputs g
         else if PinConfigReg \<le> address \<and> address < PinConfigReg + GpioPinCount * 4 then
           updatePin ((address - PinConfigReg) div 4) g
         else if MatrixOutputReg \<le> address \<and> address < MatrixOutputReg + GpioPinCount * 4 then
           updatePin ((address - MatrixOutputReg) div 4) g
         else g))"

definition gpioReset :: "esp_gpio \<Rightarrow> esp_gpio" where
  "gpioReset g = gpioIrqUpdate (updateOutputs (fold (\<lambda>pin.
       setGpioReg (MatrixOutputReg + pin * 4) MatrixSoftwareOutput) [0..<GpioPinCount]
     (g\<lparr>gpio_regs := replicate 1024 0, status := 0\<rparr>)))"

definition gpio_init :: esp_gpio where
  "gpio_init = gpioReset \<lparr>gpio_regs = replicate 1024 0, strapMode = 0,
     levels = push_bit GpioPinCount 1 - 1, status = 0, externalLevels = 0, externalDriven = 0,
     externalPullups = 0, pullups = 0, pulldowns = 0, driveLevel = replicate GpioPinCount (-1),
     peripheralDrive = replicate MatrixSignalCount (-1), gpio_irq = False, gpio_log = []\<rparr>"

text \<open>The two properties are set on the new object, then the machine is reset.\<close>

definition gpio_realized :: "u32 \<Rightarrow> u64 \<Rightarrow> esp_gpio" where
  "gpio_realized strap pull = gpioReset (gpio_init\<lparr>strapMode := strap, externalPullups := pull\<rparr>)"

section \<open>What a pin depends on\<close>

lemma mask_bit: "n < 64 \<Longrightarrow> ((x :: u64) AND push_bit n 1 \<noteq> 0) = bit x n"
  by (simp add: bit_iff_and_push_bit_not_eq_0)

lemma drop_bit_one: "((drop_bit n (x :: u64)) AND 1 \<noteq> 0) = bit x n"
  by (simp add: and_one_eq bit_iff_odd_drop_bit odd_iff_mod_2_eq_one)

definition gpio_ok :: "esp_gpio \<Rightarrow> bool" where
  "gpio_ok g \<longleftrightarrow> length (gpio_regs g) = 1024 \<and> length (driveLevel g) = GpioPinCount \<and>
     length (peripheralDrive g) = MatrixSignalCount"

definition pinRegs :: "nat \<Rightarrow> nat set" where
  "pinRegs pin = {1, 4, 8, 11, 29 + pin, 341 + pin}"

lemma pinReg_index:
  "pin < GpioPinCount \<Longrightarrow> (PinConfigReg + pin * 4) div 4 = 29 + pin"
  "pin < GpioPinCount \<Longrightarrow> (MatrixOutputReg + pin * 4) div 4 = 341 + pin"
  "pin < GpioPinCount \<Longrightarrow> (OutputEnableReg + pin div 32 * 12) div 4 \<in> {8, 11}"
  "pin < GpioPinCount \<Longrightarrow> (GpioOutputReg + pin div 32 * 12) div 4 \<in> {1, 4}"
proof -
  have "pin div 32 = 0 \<or> pin div 32 = 1" if "pin < GpioPinCount"
    using that by (simp add: GpioPinCount_def div_nat_eqI) linarith
  then show "pin < GpioPinCount \<Longrightarrow> (OutputEnableReg + pin div 32 * 12) div 4 \<in> {8, 11}"
    "pin < GpioPinCount \<Longrightarrow> (GpioOutputReg + pin div 32 * 12) div 4 \<in> {1, 4}"
    by (auto simp: gpio_registers)
qed (simp_all add: PinConfigReg_def MatrixOutputReg_def)

lemma pinDriveOf_cong:
  assumes "pin < GpioPinCount" and "\<And>i. i \<in> pinRegs pin \<Longrightarrow> gpio_regs h ! i = gpio_regs g ! i"
    and "\<And>s. s < MatrixSignalCount \<Longrightarrow> s = unat (pinSignal pin g) \<Longrightarrow> peripheralDrive h ! s = peripheralDrive g ! s"
  shows "pinDriveOf pin h = pinDriveOf pin g" and "pinSignal pin h = pinSignal pin g"
    and "interruptType pin h = interruptType pin g"
proof -
  have "gpioReg (PinConfigReg + pin * 4) h = gpioReg (PinConfigReg + pin * 4) g"
      "gpioReg (MatrixOutputReg + pin * 4) h = gpioReg (MatrixOutputReg + pin * 4) g"
      "gpioReg (OutputEnableReg + pin div 32 * 12) h = gpioReg (OutputEnableReg + pin div 32 * 12) g"
      "gpioReg (GpioOutputReg + pin div 32 * 12) h = gpioReg (GpioOutputReg + pin div 32 * 12) g"
    using assms(2) pinReg_index [OF assms(1)] by (auto simp: gpioReg_def pinRegs_def)
  moreover from this show "pinSignal pin h = pinSignal pin g" "interruptType pin h = interruptType pin g"
    by (simp_all add: pinSignal_def interruptType_def)
  moreover have "(if unat (pinSignal pin g) < MatrixSignalCount then peripheralDrive h ! unat (pinSignal pin g) else -1) =
      (if unat (pinSignal pin g) < MatrixSignalCount then peripheralDrive g ! unat (pinSignal pin g) else -1)"
    using assms(3) by simp
  ultimately show "pinDriveOf pin h = pinDriveOf pin g"
    unfolding pinDriveOf_def Let_def by (simp only:)
qed

definition pin_ok :: "nat \<Rightarrow> esp_gpio \<Rightarrow> bool" where
  "pin_ok pin g \<longleftrightarrow> driveLevel g ! pin = pinDriveOf pin g \<and>
     bit (levels g) pin = padLevel pin (pinDriveOf pin g) g"

section \<open>Updating a pin\<close>

lemma setLevel_frame [simp]:
  "gpio_regs (setLevel pin v g) = gpio_regs g" "strapMode (setLevel pin v g) = strapMode g"
  "externalLevels (setLevel pin v g) = externalLevels g" "externalDriven (setLevel pin v g) = externalDriven g"
  "externalPullups (setLevel pin v g) = externalPullups g" "pullups (setLevel pin v g) = pullups g"
  "pulldowns (setLevel pin v g) = pulldowns g" "driveLevel (setLevel pin v g) = driveLevel g"
  "peripheralDrive (setLevel pin v g) = peripheralDrive g"
  by (simp_all add: setLevel_def Let_def gpioIrqUpdate_def)

lemma bit_setTo:
  "pin < 64 \<Longrightarrow> bit (((x :: u64) AND NOT (push_bit pin 1)) OR push_bit pin (of_bool v)) q = (if q = pin then v else bit x q)"
  by (cases "q < 64") (auto simp: bit_simps dest: bit_imp_le_length)

lemma setLevel_bits:
  assumes "pin < 64"
  shows "bit (levels (setLevel pin v g)) pin = v"
    and "q \<noteq> pin \<Longrightarrow> bit (levels (setLevel pin v g)) q = bit (levels g) q"
    and "status (setLevel pin v g) =
      (if triggers (interruptType pin g) (bit (levels g) pin) v then status g OR push_bit pin 1 else status g)"
proof -
  define n where "n = (levels g AND NOT (push_bit pin 1)) OR push_bit pin (of_bool v)"
  define one where "one = (push_bit pin 1 :: u64)"
  have n: "bit n q = (if q = pin then v else bit (levels g) q)" for q
    unfolding n_def by (rule bit_setTo [OF assms])
  have eq: "setLevel pin v g = (if bit (levels g) pin = v \<and> interruptType pin g \<noteq> IrqLowLevel \<and> interruptType pin g \<noteq> IrqHighLevel
      then g else (gpioIrqUpdate (if triggers (interruptType pin g) (bit (levels g) pin) v
        then g\<lparr>levels := n, status := status g OR one\<rparr> else g\<lparr>levels := n\<rparr>))
          \<lparr>gpio_log := gpio_log g @ [PadLine pin v, OutputLine pin v]\<rparr>)"
    unfolding setLevel_def Let_def drop_bit_one n_def one_def gpioIrqUpdate_def by simp
  show "bit (levels (setLevel pin v g)) pin = v" by (simp add: eq n gpioIrqUpdate_def)
  show "q \<noteq> pin \<Longrightarrow> bit (levels (setLevel pin v g)) q = bit (levels g) q" by (simp add: eq n gpioIrqUpdate_def)
  show "status (setLevel pin v g) =
      (if triggers (interruptType pin g) (bit (levels g) pin) v then status g OR push_bit pin 1 else status g)"
    unfolding one_def [symmetric]
    by (auto simp: eq gpioIrqUpdate_def triggers_def
        IrqRising_def IrqFalling_def IrqAnyEdge_def IrqLowLevel_def IrqHighLevel_def)
qed

definition releasedOrDriven :: "nat \<Rightarrow> esp_gpio \<Rightarrow> esp_gpio" where
  "releasedOrDriven pin g = (let drive = pinDriveOf pin g in
     if driveLevel g ! pin \<noteq> drive
     then g\<lparr>driveLevel := (driveLevel g)[pin := drive], gpio_log := gpio_log g @ [DriveLine pin drive]\<rparr> else g)"

lemma updatePin_eq: "updatePin pin g = setLevel pin (padLevel pin (pinDriveOf pin g) g) (releasedOrDriven pin g)"
  by (simp add: updatePin_def releasedOrDriven_def Let_def padLevel_def)

lemma releasedOrDriven_frame [simp]:
  "gpio_regs (releasedOrDriven pin g) = gpio_regs g" "strapMode (releasedOrDriven pin g) = strapMode g"
  "externalLevels (releasedOrDriven pin g) = externalLevels g" "externalDriven (releasedOrDriven pin g) = externalDriven g"
  "externalPullups (releasedOrDriven pin g) = externalPullups g" "pullups (releasedOrDriven pin g) = pullups g"
  "pulldowns (releasedOrDriven pin g) = pulldowns g" "levels (releasedOrDriven pin g) = levels g"
  "status (releasedOrDriven pin g) = status g" "gpio_irq (releasedOrDriven pin g) = gpio_irq g"
  "peripheralDrive (releasedOrDriven pin g) = peripheralDrive g"
  "driveLevel (releasedOrDriven pin g) = (driveLevel g)[pin := pinDriveOf pin g]"
  by (simp_all add: releasedOrDriven_def Let_def) (metis list_update_id)

lemma updatePin_frame [simp]:
  "gpio_regs (updatePin pin g) = gpio_regs g" "externalLevels (updatePin pin g) = externalLevels g"
  "externalDriven (updatePin pin g) = externalDriven g" "externalPullups (updatePin pin g) = externalPullups g"
  "pullups (updatePin pin g) = pullups g" "pulldowns (updatePin pin g) = pulldowns g"
  "peripheralDrive (updatePin pin g) = peripheralDrive g"
  "driveLevel (updatePin pin g) = (driveLevel g)[pin := pinDriveOf pin g]"
  by (simp_all add: updatePin_eq)

lemma pinDriveOf_updatePin [simp]:
  "pinDriveOf q (updatePin pin g) = pinDriveOf q g" "padLevel q d (updatePin pin g) = padLevel q d g"
  "pinSignal q (updatePin pin g) = pinSignal q g"
  unfolding pinDriveOf_def padLevel_def gpioReg_def pinSignal_def Let_def by (simp_all only: updatePin_frame)

lemma gpio_ok_updatePin [simp]: "gpio_ok (updatePin pin g) = gpio_ok g"
  by (simp add: gpio_ok_def)

lemma updatePin_ok:
  assumes "pin < GpioPinCount" and "gpio_ok g"
  shows "pin_ok pin (updatePin pin g)" and "q \<noteq> pin \<Longrightarrow> pin_ok q (updatePin pin g) = pin_ok q g"
proof -
  have "pin < 64" using assms(1) by (simp add: GpioPinCount_def)
  note bits = setLevel_bits [OF this]
  show "pin_ok pin (updatePin pin g)"
    using assms bits(1) by (simp add: pin_ok_def gpio_ok_def) (simp add: updatePin_eq)
  show "q \<noteq> pin \<Longrightarrow> pin_ok q (updatePin pin g) = pin_ok q g"
    using bits(2) by (simp add: pin_ok_def) (simp add: updatePin_eq)
qed

lemma updatePins_ok:
  assumes "set pins \<subseteq> {..<GpioPinCount}" and "gpio_ok g"
  shows "gpio_ok (fold updatePin pins g) \<and>
    (\<forall>q. (q \<in> set pins \<or> pin_ok q g) \<longrightarrow> pin_ok q (fold updatePin pins g))"
  using assms
proof (induction pins arbitrary: g)
  case Nil
  then show ?case by simp
next
  case (Cons pin pins)
  have pin: "pin < GpioPinCount" using Cons.prems(1) by simp
  have "q = pin \<or> pin_ok q g \<Longrightarrow> pin_ok q (updatePin pin g)" for q
    using updatePin_ok(1) [OF pin Cons.prems(2)] updatePin_ok(2) [OF pin Cons.prems(2), of q] by (cases "q = pin") auto
  then show ?case using Cons.IH [of "updatePin pin g"] Cons.prems by auto
qed

section \<open>The interrupt line\<close>

definition irqRaised :: "esp_gpio \<Rightarrow> bool" where
  "irqRaised g \<longleftrightarrow> (\<exists>pin < GpioPinCount. gpioReg (PinConfigReg + pin * 4) g AND PinIrqEnableMask \<noteq> 0 \<and> bit (status g) pin)"

lemma gpioPending_raised: "gpioPending g \<noteq> 0 \<longleftrightarrow> irqRaised g"
proof -
  define e where "e = (\<lambda>pin. gpioReg (PinConfigReg + pin * 4) g AND PinIrqEnableMask \<noteq> 0)"
  have "fold (\<lambda>pin pending. if e pin then pending OR (status g AND push_bit pin 1) else pending) pins p \<noteq> 0 \<longleftrightarrow>
      p \<noteq> 0 \<or> (\<exists>pin \<in> set pins. e pin \<and> bit (status g) pin)" if "set pins \<subseteq> {..<64}" for pins p
    using that
  proof (induction pins arbitrary: p)
    case Nil
    then show ?case by simp
  next
    case (Cons pin pins)
    have "(p OR (status g AND push_bit pin 1)) \<noteq> 0 \<longleftrightarrow> p \<noteq> 0 \<or> bit (status g) pin"
      using mask_bit [of pin "status g"] Cons.prems by (auto simp: or_eq_0_iff)
    then show ?case using Cons by auto
  qed
  moreover have "set [0..<GpioPinCount] \<subseteq> {..<64}" by (auto simp: GpioPinCount_def)
  ultimately have "gpioPending g \<noteq> 0 \<longleftrightarrow> (\<exists>pin \<in> set [0..<GpioPinCount]. e pin \<and> bit (status g) pin)"
    unfolding gpioPending_def e_def by blast
  then show ?thesis by (auto simp: e_def irqRaised_def)
qed

definition gpio_irq_ok :: "esp_gpio \<Rightarrow> bool" where
  "gpio_irq_ok g \<longleftrightarrow> gpio_irq g = irqRaised g"

lemma gpioIrqUpdate_ok: "gpio_irq_ok (gpioIrqUpdate g)"
  by (simp add: gpio_irq_ok_def gpioIrqUpdate_def gpioPending_raised) (simp add: irqRaised_def gpioReg_def)

lemma irqRaised_cong: "gpio_regs h = gpio_regs g \<Longrightarrow> status h = status g \<Longrightarrow> irqRaised h = irqRaised g"
  by (simp add: irqRaised_def gpioReg_def)

lemma setLevel_irq: "gpio_irq_ok g \<Longrightarrow> gpio_irq_ok (setLevel pin v g)"
proof -
  assume ok: "gpio_irq_ok g"
  have log: "gpio_irq_ok (h\<lparr>gpio_log := l\<rparr>) = gpio_irq_ok h" for h l
    by (simp add: gpio_irq_ok_def irqRaised_def gpioReg_def)
  show ?thesis using ok gpioIrqUpdate_ok by (simp add: setLevel_def Let_def log)
qed

lemma updatePin_irq: "gpio_irq_ok g \<Longrightarrow> gpio_irq_ok (updatePin pin g)"
  unfolding updatePin_eq by (rule setLevel_irq) (simp add: gpio_irq_ok_def irqRaised_def gpioReg_def)

section \<open>What the lines were told\<close>

definition lastDrive :: "nat \<Rightarrow> gpio_line list \<Rightarrow> int" where
  "lastDrive pin log = fold (\<lambda>e d. case e of DriveLine p x \<Rightarrow> if p = pin then x else d | _ \<Rightarrow> d) log (-1)"

definition drives_ok :: "esp_gpio \<Rightarrow> bool" where
  "drives_ok g \<longleftrightarrow> (\<forall>pin < GpioPinCount. lastDrive pin (gpio_log g) = driveLevel g ! pin)"

lemma lastDrive_snoc:
  "lastDrive pin (log @ [DriveLine p x]) = (if p = pin then x else lastDrive pin log)"
  "lastDrive pin (log @ [PadLine p v, OutputLine q w]) = lastDrive pin log"
  by (simp_all add: lastDrive_def)

lemma setLevel_drives: "drives_ok (setLevel pin v g) = drives_ok g"
  by (simp add: drives_ok_def) (simp add: setLevel_def Let_def lastDrive_snoc gpioIrqUpdate_def)

lemma updatePin_drives: "gpio_ok g \<Longrightarrow> pin < GpioPinCount \<Longrightarrow> drives_ok g \<Longrightarrow> drives_ok (updatePin pin g)"
  unfolding updatePin_eq setLevel_drives
  by (auto simp: drives_ok_def releasedOrDriven_def Let_def lastDrive_snoc gpio_ok_def nth_list_update)

section \<open>Steps\<close>

definition pads_inv :: "esp_gpio \<Rightarrow> bool" where
  "pads_inv g \<longleftrightarrow> gpio_ok g \<and> drives_ok g \<and> (\<forall>pin < GpioPinCount. pin_ok pin g)"

definition gpio_inv :: "esp_gpio \<Rightarrow> bool" where
  "gpio_inv g \<longleftrightarrow> pads_inv g \<and> gpio_irq_ok g"

lemma updatePins_pads:
  assumes "gpio_ok g" and "drives_ok g" and "set pins \<subseteq> {..<GpioPinCount}"
    and "\<And>q. q < GpioPinCount \<Longrightarrow> q \<notin> set pins \<Longrightarrow> pin_ok q g"
  shows "pads_inv (fold updatePin pins g)"
proof -
  have "drives_ok (fold updatePin pins g)"
    using assms(1-3) by (induction pins arbitrary: g) (simp_all add: updatePin_drives)
  then show ?thesis
    using updatePins_ok [OF assms(3,1)] assms(4) unfolding pads_inv_def by blast
qed

lemma updatePins_irq: "gpio_irq_ok g \<Longrightarrow> gpio_irq_ok (fold updatePin pins g)"
  by (induction pins arbitrary: g) (simp_all add: updatePin_irq)

lemma updateOutputs_pads: "gpio_ok g \<Longrightarrow> drives_ok g \<Longrightarrow> pads_inv (updateOutputs g)"
  unfolding updateOutputs_def by (rule updatePins_pads) auto

lemma updatePin_pads:
  assumes "gpio_ok g" and "drives_ok g" and "pin < GpioPinCount"
    and "\<And>q. q < GpioPinCount \<Longrightarrow> q \<noteq> pin \<Longrightarrow> pin_ok q g"
  shows "pads_inv (updatePin pin g)"
  using updatePins_pads [of g "[pin]"] assms by simp

text \<open>A pin no operation touched keeps its resolved state.\<close>

lemma pin_ok_cong:
  assumes "pin_ok q g" and "q < GpioPinCount" and "driveLevel h = driveLevel g" and "levels h = levels g"
    and "\<And>i. i \<in> pinRegs q \<Longrightarrow> gpio_regs h ! i = gpio_regs g ! i"
    and "\<And>s. s < MatrixSignalCount \<Longrightarrow> s = unat (pinSignal q g) \<Longrightarrow> peripheralDrive h ! s = peripheralDrive g ! s"
    and "\<And>d. padLevel q d h = padLevel q d g"
  shows "pin_ok q h"
  using assms(1,3,4,7) pinDriveOf_cong(1) [OF assms(2,5,6)] by (simp add: pin_ok_def)

lemma gpio_irq_cong:
  "gpio_irq_ok g \<Longrightarrow> gpio_regs h = gpio_regs g \<Longrightarrow> status h = status g \<Longrightarrow> gpio_irq h = gpio_irq g \<Longrightarrow> gpio_irq_ok h"
  using irqRaised_cong [of h g] by (simp add: gpio_irq_ok_def)

lemma pads_irqUpdate: "pads_inv g \<Longrightarrow> gpio_inv (gpioIrqUpdate g)"
proof -
  have "pinDriveOf q (gpioIrqUpdate g) = pinDriveOf q g" if "q < GpioPinCount" for q
    using that by (intro pinDriveOf_cong(1)) (simp_all add: gpioIrqUpdate_def)
  moreover have "padLevel q d (gpioIrqUpdate g) = padLevel q d g" for q d
    by (simp add: padLevel_def gpioIrqUpdate_def)
  ultimately show "pads_inv g \<Longrightarrow> gpio_inv (gpioIrqUpdate g)"
    using gpioIrqUpdate_ok by (simp add: gpio_inv_def pads_inv_def pin_ok_def) (simp add: gpioIrqUpdate_def gpio_ok_def drives_ok_def)
qed

subsection \<open>Input lines\<close>

lemma input_inv:
  assumes "gpio_inv g" and "pin < GpioPinCount"
    and "gpio_regs h = gpio_regs g" "status h = status g" "gpio_irq h = gpio_irq g" "gpio_log h = gpio_log g"
      "driveLevel h = driveLevel g" "levels h = levels g" "peripheralDrive h = peripheralDrive g"
    and "\<And>q d. q < GpioPinCount \<Longrightarrow> q \<noteq> pin \<Longrightarrow> padLevel q d h = padLevel q d g"
  shows "gpio_inv (updatePin pin h)"
proof -
  have "pads_inv (updatePin pin h)"
  proof (rule updatePin_pads [OF _ _ assms(2)])
    show "gpio_ok h" "drives_ok h"
      using assms by (simp_all add: gpio_inv_def pads_inv_def gpio_ok_def drives_ok_def)
    fix q assume "q < GpioPinCount" "q \<noteq> pin"
    then show "pin_ok q h"
      using assms pin_ok_cong [of q g h] by (simp add: gpio_inv_def pads_inv_def)
  qed
  moreover have "gpio_irq_ok h" using assms(1) gpio_irq_cong [OF _ assms(3-5)] by (simp add: gpio_inv_def)
  ultimately show ?thesis by (simp add: gpio_inv_def updatePin_irq)
qed

lemma gpioInput_inv:
  assumes "gpio_inv g" and "pin < GpioPinCount"
  shows "gpio_inv (gpioInput pin level g)"
  unfolding gpioInput_def Let_def
proof (rule input_inv [OF assms])
  fix q d assume q: "q < GpioPinCount" "q \<noteq> pin"
  have q64: "q < 64" using q(1) by (simp add: GpioPinCount_def)
  show "padLevel q d (g\<lparr>externalDriven := if level < 0 then externalDriven g AND NOT (push_bit pin 1) else externalDriven g OR push_bit pin 1,
        externalLevels := (externalLevels g AND NOT (push_bit pin 1)) OR (if 0 < level then push_bit pin 1 else 0)\<rparr>) = padLevel q d g"
    using q(2) q64 unfolding padLevel_def Let_def mask_bit [OF q64] by (auto simp: bit_simps)
qed simp_all

lemma pullInput_inv:
  assumes "gpio_inv g" and "pin < GpioPinCount"
  shows "gpio_inv (pullInput pin v g)"
  unfolding pullInput_def Let_def
proof (rule input_inv [OF assms])
  fix q d assume q: "q < GpioPinCount" "q \<noteq> pin"
  have q64: "q < 64" using q(1) by (simp add: GpioPinCount_def)
  have down: "(pulldowns g AND push_bit q 1 = 0) = (\<not> bit (pulldowns g) q)" for g
    using mask_bit [OF q64, of "pulldowns g"] by blast
  show "padLevel q d (g\<lparr>pulldowns := (pulldowns g AND NOT (push_bit pin 1)) OR (if v AND 1 \<noteq> 0 then push_bit pin 1 else 0),
        pullups := (pullups g AND NOT (push_bit pin 1)) OR (if v AND 2 \<noteq> 0 then push_bit pin 1 else 0)\<rparr>) = padLevel q d g"
    using q(2) q64 unfolding padLevel_def Let_def mask_bit [OF q64] down by (auto simp: bit_simps)
qed simp_all

lemma fold_updatePin_filter:
  "fold (\<lambda>pin g. if unat (pinSignal pin g) = signal then updatePin pin g else g) pins g =
    fold updatePin (filter (\<lambda>pin. unat (pinSignal pin g) = signal) pins) g"
  by (induction pins arbitrary: g) simp_all

lemma peripheralInput_inv:
  assumes "gpio_inv g" and "signal < MatrixSignalCount"
  shows "gpio_inv (peripheralInput signal level g)"
proof -
  define h where "h = g\<lparr>peripheralDrive := (peripheralDrive g)[signal := signed_take_bit 7 level]\<rparr>"
  define pins where "pins = filter (\<lambda>pin. unat (pinSignal pin h) = signal) [0..<GpioPinCount]"
  have sig: "pinSignal q h = pinSignal q g" for q by (simp add: h_def pinSignal_def gpioReg_def)
  have "pads_inv (fold updatePin pins h)"
  proof (rule updatePins_pads)
    show "gpio_ok h" "drives_ok h"
      using assms(1) by (simp_all add: h_def gpio_inv_def pads_inv_def gpio_ok_def drives_ok_def)
    show "set pins \<subseteq> {..<GpioPinCount}" by (auto simp: pins_def)
    fix q assume q: "q < GpioPinCount" "q \<notin> set pins"
    then have "unat (pinSignal q g) \<noteq> signal" by (auto simp: pins_def sig)
    moreover have "padLevel q d h = padLevel q d g" for d by (simp add: h_def padLevel_def)
    ultimately show "pin_ok q h"
      using assms(1) q(1) by (intro pin_ok_cong [of q g h]) (auto simp: gpio_inv_def pads_inv_def h_def nth_list_update)
  qed
  moreover have "gpio_irq_ok h"
    using assms(1) by (intro gpio_irq_cong [of g h]) (simp_all add: gpio_inv_def h_def)
  ultimately show ?thesis
    unfolding peripheralInput_def h_def [symmetric] fold_updatePin_filter pins_def [symmetric]
    by (simp add: gpio_inv_def updatePins_irq)
qed

subsection \<open>Register writes and reset\<close>

lemma setGpioReg_frame [simp]:
  "driveLevel (setGpioReg a v g) = driveLevel g" "levels (setGpioReg a v g) = levels g"
  "gpio_log (setGpioReg a v g) = gpio_log g" "peripheralDrive (setGpioReg a v g) = peripheralDrive g"
  "padLevel q d (setGpioReg a v g) = padLevel q d g" "gpio_ok (setGpioReg a v g) = gpio_ok g"
  "drives_ok (setGpioReg a v g) = drives_ok g"
  by (simp_all add: setGpioReg_def padLevel_def gpio_ok_def drives_ok_def)

lemma storeGpio_frame [simp]:
  "gpio_ok (storeGpio a v g) = gpio_ok g" "drives_ok (storeGpio a v g) = drives_ok g"
  by (simp_all add: storeGpio_def Let_def) (simp_all add: gpio_ok_def drives_ok_def)

lemma storeGpio_high: "0x74 \<le> a \<Longrightarrow> storeGpio a v g = setGpioReg a v g"
  by (simp add: storeGpio_def)

lemma setGpioReg_pin_ok:
  assumes "pin_ok q g" and "q < GpioPinCount" and "a div 4 \<notin> pinRegs q"
  shows "pin_ok q (setGpioReg a v g)"
proof (rule pin_ok_cong [OF assms(1,2)])
  show "gpio_regs (setGpioReg a v g) ! i = gpio_regs g ! i" if "i \<in> pinRegs q" for i
    using assms(3) that nth_list_update_neq [of "a div 4" i] by (metis setGpioReg_def esp_gpio.select_convs(1) esp_gpio.surjective esp_gpio.update_convs(1))
qed simp_all

lemma status_pin_ok: "pin_ok q g \<Longrightarrow> q < GpioPinCount \<Longrightarrow> pin_ok q (g\<lparr>status := st\<rparr>)"
  by (erule pin_ok_cong) (simp_all add: padLevel_def)

definition gpioOffset :: "nat \<Rightarrow> bool" where
  "gpioOffset address \<longleftrightarrow> address < 0x1000 \<and> address mod 4 = 0"

lemma storeGpio_other:
  assumes "pin_ok q g" and "q < GpioPinCount" and "gpioOffset a"
    and "\<not> (GpioOutputReg \<le> a \<and> a \<le> 0x34)" and "a div 4 \<noteq> 29 + q" and "a div 4 \<noteq> 341 + q"
  shows "pin_ok q (storeGpio a v g)"
proof -
  have "a div 4 \<notin> pinRegs q"
  proof -
    obtain k where k: "a = 4 * k" using assms(3) by (auto simp: gpioOffset_def)
    have "k \<notin> {1, 4, 8, 11}" using assms(4) k by (auto simp: GpioOutputReg_def)
    then show ?thesis using assms(5,6) k by (simp add: pinRegs_def)
  qed
  moreover have "a \<notin> {0x08, 0x0C, 0x14, 0x18, 0x24, 0x30, 0x28, 0x34}"
    using assms(4) by (auto simp: GpioOutputReg_def)
  ultimately show ?thesis
    using setGpioReg_pin_ok [OF assms(1,2)] status_pin_ok [OF assms(1,2)] by (simp add: storeGpio_def Let_def)
qed

lemma gpioWrite_inv:
  assumes "gpio_inv g" and "gpioOffset a"
  shows "gpio_inv (gpioWrite a v g)"
proof -
  define h where "h = storeGpio a v g"
  have ok: "gpio_ok h" "drives_ok h" using assms(1) by (simp_all add: h_def gpio_inv_def pads_inv_def)
  obtain k where k: "a = 4 * k" using assms(2) by (auto simp: gpioOffset_def)
  have pin: "pin_ok q h" if "q < GpioPinCount" "\<not> (GpioOutputReg \<le> a \<and> a \<le> 0x34)" "k \<noteq> 29 + q" "k \<noteq> 341 + q" for q
    unfolding h_def using assms that k by (intro storeGpio_other) (auto simp: gpio_inv_def pads_inv_def)
  consider (out) "GpioOutputReg \<le> a \<and> a \<le> 0x34"
    | (config) p where "\<not> (GpioOutputReg \<le> a \<and> a \<le> 0x34)" "p < GpioPinCount" "k = 29 + p"
    | (matrix) p where "\<not> (GpioOutputReg \<le> a \<and> a \<le> 0x34)" "p < GpioPinCount" "k = 341 + p"
    | (other) "\<not> (GpioOutputReg \<le> a \<and> a \<le> 0x34)" "\<And>p. p < GpioPinCount \<Longrightarrow> k \<noteq> 29 + p \<and> k \<noteq> 341 + p"
    by blast
  then have "pads_inv (if GpioOutputReg \<le> a \<and> a \<le> 0x34 then updateOutputs h
         else if PinConfigReg \<le> a \<and> a < PinConfigReg + GpioPinCount * 4 then updatePin ((a - PinConfigReg) div 4) h
         else if MatrixOutputReg \<le> a \<and> a < MatrixOutputReg + GpioPinCount * 4 then updatePin ((a - MatrixOutputReg) div 4) h
         else h)"
  proof cases
    case out
    then show ?thesis using updateOutputs_pads [OF ok] by simp
  next
    case config
    then have "PinConfigReg \<le> a \<and> a < PinConfigReg + GpioPinCount * 4" "(a - PinConfigReg) div 4 = p"
      using k by (simp_all add: PinConfigReg_def)
    moreover have "pads_inv (updatePin p h)"
      using config pin by (intro updatePin_pads [OF ok]) (auto simp: GpioPinCount_def)
    ultimately show ?thesis using config(1) by (simp only: if_True if_False simp_thms)
  next
    case matrix
    then have "\<not> (PinConfigReg \<le> a \<and> a < PinConfigReg + GpioPinCount * 4)"
        "MatrixOutputReg \<le> a \<and> a < MatrixOutputReg + GpioPinCount * 4" "(a - MatrixOutputReg) div 4 = p"
      using k by (simp_all add: PinConfigReg_def MatrixOutputReg_def GpioPinCount_def)
    moreover have "pads_inv (updatePin p h)"
      using matrix pin by (intro updatePin_pads [OF ok]) (auto simp: GpioPinCount_def)
    ultimately show ?thesis using matrix(1) by (simp only: if_True if_False simp_thms)
  next
    case other
    have "\<not> (PinConfigReg \<le> a \<and> a < PinConfigReg + GpioPinCount * 4)"
    proof
      assume "PinConfigReg \<le> a \<and> a < PinConfigReg + GpioPinCount * 4"
      then have "k - 29 < GpioPinCount" "k = 29 + (k - 29)" using k by (auto simp: PinConfigReg_def GpioPinCount_def)
      with other(2) show False by blast
    qed
    moreover have "\<not> (MatrixOutputReg \<le> a \<and> a < MatrixOutputReg + GpioPinCount * 4)"
    proof
      assume "MatrixOutputReg \<le> a \<and> a < MatrixOutputReg + GpioPinCount * 4"
      then have "k - 341 < GpioPinCount" "k = 341 + (k - 341)" using k by (auto simp: MatrixOutputReg_def GpioPinCount_def)
      with other(2) show False by blast
    qed
    moreover have "pads_inv h" using ok other pin by (auto simp: pads_inv_def)
    ultimately show ?thesis using other(1) by (simp only: if_False)
  qed
  then show ?thesis
    unfolding gpioWrite_def Let_def h_def by (rule pads_irqUpdate)
qed

lemma setGpioRegs_frame:
  "gpio_ok (fold (\<lambda>pin. setGpioReg (f pin) v) pins g) = gpio_ok g"
  "drives_ok (fold (\<lambda>pin. setGpioReg (f pin) v) pins g) = drives_ok g"
  by (induction pins arbitrary: g) simp_all

lemma gpioReset_inv: "gpio_ok g \<Longrightarrow> drives_ok g \<Longrightarrow> gpio_inv (gpioReset g)"
  unfolding gpioReset_def
  by (intro pads_irqUpdate updateOutputs_pads) (simp_all add: setGpioRegs_frame, simp_all add: gpio_ok_def drives_ok_def)

lemma gpio_realized_inv: "gpio_inv (gpio_realized strap pull)"
proof -
  have "gpio_inv gpio_init"
    unfolding gpio_init_def by (rule gpioReset_inv) (simp_all add: gpio_ok_def drives_ok_def lastDrive_def)
  then show ?thesis
    unfolding gpio_realized_def by (intro gpioReset_inv) (simp_all add: gpio_inv_def pads_inv_def gpio_ok_def drives_ok_def)
qed

inductive gpio_step :: "esp_gpio \<Rightarrow> esp_gpio \<Rightarrow> bool" where
  gpio_step_input: "pin < GpioPinCount \<Longrightarrow> gpio_step g (gpioInput pin level g)"
| gpio_step_pull: "pin < GpioPinCount \<Longrightarrow> gpio_step g (pullInput pin v g)"
| gpio_step_matrix: "signal < MatrixSignalCount \<Longrightarrow> gpio_step g (peripheralInput signal level g)"
| gpio_step_write: "gpioOffset a \<Longrightarrow> gpio_step g (gpioWrite a w g)"
| gpio_step_reset: "gpio_step g (gpioReset g)"

interpretation gpio_machine: state_machine "\<lambda>g. \<exists>strap pull. g = gpio_realized strap pull" gpio_step gpio_inv
proof
  show "gpio_inv s" if "\<exists>strap pull. s = gpio_realized strap pull" for s using that gpio_realized_inv by blast
  fix s t assume inv: "gpio_inv s" and step: "gpio_step s t"
  then have "gpio_ok s" "drives_ok s" by (simp_all add: gpio_inv_def pads_inv_def)
  with inv step show "gpio_inv t"
    by (auto elim!: gpio_step.cases intro: gpioInput_inv pullInput_inv peripheralInput_inv gpioWrite_inv gpioReset_inv)
qed

section \<open>Properties\<close>

definition gpio_starts :: "esp_gpio \<Rightarrow> bool" where
  "gpio_starts g \<longleftrightarrow> (\<exists>strap pull. g = gpio_realized strap pull)"

lemma gpio_reachable_inv: "reachable gpio_starts gpio_step g \<Longrightarrow> gpio_inv g"
  using gpio_machine.reachable_inv unfolding gpio_starts_def by blast

text \<open>C31: after any sequence of input, pull, peripheral, register-write and reset events, every pad
  of the chip is resolved: the drive last announced on its drive line is the one its registers and its
  peripheral ask for (released when neither drives it), its level is that drive, else the external
  driver, else the pulls, and the interrupt line is up exactly when a pin with an interrupt enabled is
  pending.\<close>

theorem gpio_pads_resolve:
  assumes "reachable gpio_starts gpio_step g" and "pin < GpioPinCount"
  shows "lastDrive pin (gpio_log g) = pinDriveOf pin g \<and> driveLevel g ! pin = pinDriveOf pin g \<and>
    bit (levels g) pin = padLevel pin (pinDriveOf pin g) g \<and> gpio_irq g = irqRaised g"
  using gpio_reachable_inv [OF assms(1)] assms(2)
  by (simp add: gpio_inv_def pads_inv_def drives_ok_def pin_ok_def gpio_irq_ok_def)

lemma fold_updatePin_frame [simp]:
  "gpio_regs (fold updatePin pins g) = gpio_regs g" "externalDriven (fold updatePin pins g) = externalDriven g"
  "externalPullups (fold updatePin pins g) = externalPullups g" "pullups (fold updatePin pins g) = pullups g"
  "pulldowns (fold updatePin pins g) = pulldowns g" "peripheralDrive (fold updatePin pins g) = peripheralDrive g"
  by (induction pins arbitrary: g) (simp_all add: updatePin_eq)

lemma gpioWrite_frame:
  "gpio_regs (gpioWrite a v g) = gpio_regs (storeGpio a v g)"
  "externalDriven (gpioWrite a v g) = externalDriven g" "externalPullups (gpioWrite a v g) = externalPullups g"
  "pullups (gpioWrite a v g) = pullups g" "pulldowns (gpioWrite a v g) = pulldowns g"
proof -
  have "externalPullups (updatePin pin h) = externalPullups h" for pin h by (simp add: updatePin_eq)
  then show "gpio_regs (gpioWrite a v g) = gpio_regs (storeGpio a v g)"
    "externalDriven (gpioWrite a v g) = externalDriven g" "externalPullups (gpioWrite a v g) = externalPullups g"
    "pullups (gpioWrite a v g) = pullups g" "pulldowns (gpioWrite a v g) = pulldowns g"
    by (simp_all add: gpioWrite_def Let_def gpioIrqUpdate_def updateOutputs_def)
      (simp_all add: storeGpio_def Let_def setGpioReg_def)
qed

lemma setGpioRegs_nth:
  "i < length (gpio_regs g) \<Longrightarrow> gpio_regs (fold (\<lambda>pin. setGpioReg (MatrixOutputReg + pin * 4) v) pins g) ! i =
     (if \<exists>pin \<in> set pins. i = 341 + pin then v else gpio_regs g ! i)"
  by (induction pins arbitrary: g)
    (auto simp: setGpioReg_def MatrixOutputReg_def nth_list_update)

lemma setGpioRegs_state [simp]:
  "externalDriven (fold (\<lambda>pin. setGpioReg (f pin) v) pins g) = externalDriven g"
  "externalPullups (fold (\<lambda>pin. setGpioReg (f pin) v) pins g) = externalPullups g"
  "pullups (fold (\<lambda>pin. setGpioReg (f pin) v) pins g) = pullups g"
  "pulldowns (fold (\<lambda>pin. setGpioReg (f pin) v) pins g) = pulldowns g"
  by (induction pins arbitrary: g) (simp_all add: setGpioReg_def)

lemma gpio_realized_state:
  "i < 1024 \<Longrightarrow> gpio_regs (gpio_realized strap pull) ! i = (if 341 \<le> i \<and> i < 390 then MatrixSoftwareOutput else 0)"
  "externalDriven (gpio_realized strap pull) = 0" "externalPullups (gpio_realized strap pull) = pull"
  "pullups (gpio_realized strap pull) = 0" "pulldowns (gpio_realized strap pull) = 0"
proof -
  have range: "(\<exists>pin \<in> set [0..<GpioPinCount]. i = 341 + pin) = (341 \<le> i \<and> i < 390)"
    by (auto simp: GpioPinCount_def intro: bexI [of _ "i - 341"])
  show "i < 1024 \<Longrightarrow> gpio_regs (gpio_realized strap pull) ! i = (if 341 \<le> i \<and> i < 390 then MatrixSoftwareOutput else 0)"
    unfolding gpio_realized_def gpioReset_def gpioIrqUpdate_def updateOutputs_def
    using setGpioRegs_nth [of i "gpio_init\<lparr>strapMode := strap, externalPullups := pull, gpio_regs := replicate 1024 0, status := 0\<rparr>"
        MatrixSoftwareOutput "[0..<GpioPinCount]"]
    unfolding range by simp
  show "externalDriven (gpio_realized strap pull) = 0" "externalPullups (gpio_realized strap pull) = pull"
    "pullups (gpio_realized strap pull) = 0" "pulldowns (gpio_realized strap pull) = 0"
    unfolding gpio_realized_def gpio_init_def gpioReset_def gpioIrqUpdate_def updateOutputs_def by simp_all
qed

lemma gpio_start: "reachable gpio_starts gpio_step (gpio_realized strap pull)"
  by (rule reach_init) (auto simp: gpio_starts_def)

theorem gpio_pads_resolve_witness:
  "gpio_irq (gpioInput 0 0 (gpio_realized 8 0)) = irqRaised (gpioInput 0 0 (gpio_realized 8 0))"
proof -
  have "reachable gpio_starts gpio_step (gpioInput 0 0 (gpio_realized 8 0))"
    by (rule reach_step [OF gpio_start gpio_step_input]) (simp add: GpioPinCount_def)
  moreover have "(0 :: nat) < GpioPinCount" by (simp add: GpioPinCount_def)
  ultimately show ?thesis using gpio_pads_resolve by blast
qed

lemma gpioInput_parts:
  assumes "pin < GpioPinCount"
  obtains h where "gpioInput pin level g = updatePin pin h" "gpio_regs h = gpio_regs g" "levels h = levels g"
    "status h = status g" "peripheralDrive h = peripheralDrive g" "driveLevel h = driveLevel g"
    "bit (externalDriven h) pin = (0 \<le> level)" "bit (externalLevels h) pin = (0 < level)"
proof
  let ?m = "push_bit pin 1 :: u64"
  let ?h = "g\<lparr>externalDriven := (if level < 0 then externalDriven g AND NOT ?m else externalDriven g OR ?m),
        externalLevels := (externalLevels g AND NOT ?m) OR (if 0 < level then ?m else 0)\<rparr>"
  have "pin < 64" using assms by (simp add: GpioPinCount_def)
  then show "bit (externalDriven ?h) pin = (0 \<le> level)" "bit (externalLevels ?h) pin = (0 < level)"
    by (auto simp: bit_simps)
  show "gpioInput pin level g = updatePin pin ?h" by (simp only: gpioInput_def Let_def)
qed simp_all

text \<open>C32: an external level on a released pad is what the pad reads, no other pad changes, and the pin
  becomes pending exactly when its configured edge or level condition holds for that change; no
  status bit is ever cleared by an input, and the interrupt line follows.\<close>

theorem gpio_input_triggers:
  assumes "reachable gpio_starts gpio_step g" and "pin < GpioPinCount" and "pinDriveOf pin g = -1" and "0 \<le> level"
  shows "(bit (levels (gpioInput pin level g)) q = (if q = pin then 0 < level else bit (levels g) q)) \<and>
    status (gpioInput pin level g) =
      (if triggers (interruptType pin g) (bit (levels g) pin) (0 < level) then status g OR push_bit pin 1 else status g) \<and>
    gpio_irq (gpioInput pin level g) = irqRaised (gpioInput pin level g)"
proof -
  obtain h where h: "gpioInput pin level g = updatePin pin h" "gpio_regs h = gpio_regs g" "levels h = levels g"
    "status h = status g" "peripheralDrive h = peripheralDrive g" "driveLevel h = driveLevel g"
    "bit (externalDriven h) pin = (0 \<le> level)" "bit (externalLevels h) pin = (0 < level)"
    using gpioInput_parts [OF assms(2)] by blast
  have pin64: "pin < 64" using assms(2) by (simp add: GpioPinCount_def)
  have same: "pinDriveOf pin h = -1" "interruptType pin h = interruptType pin g"
    using pinDriveOf_cong [OF assms(2), of h g] h assms(3) by simp_all
  have "padLevel pin (-1) h = (0 < level)"
    using h(7,8) assms(4) unfolding padLevel_def Let_def mask_bit [OF pin64] by simp
  then have eq: "gpioInput pin level g = setLevel pin (0 < level) (releasedOrDriven pin h)"
    unfolding h(1) updatePin_eq same by simp
  have "interruptType pin (releasedOrDriven pin h) = interruptType pin g"
    using same(2) by (simp add: interruptType_def gpioReg_def)
  then have "status (gpioInput pin level g) =
      (if triggers (interruptType pin g) (bit (levels g) pin) (0 < level) then status g OR push_bit pin 1 else status g)"
    unfolding eq using setLevel_bits(3) [OF pin64, where v = "0 < level" and g = "releasedOrDriven pin h"] h(3,4) by simp
  moreover have "bit (levels (gpioInput pin level g)) q = (if q = pin then 0 < level else bit (levels g) q)"
    unfolding eq using setLevel_bits(1,2) [OF pin64, where v = "0 < level" and g = "releasedOrDriven pin h"] h(3) by simp
  moreover have "gpio_irq (gpioInput pin level g) = irqRaised (gpioInput pin level g)"
    using gpioInput_inv [OF gpio_reachable_inv [OF assms(1)] assms(2)] by (simp add: gpio_inv_def gpio_irq_ok_def)
  ultimately show ?thesis by blast
qed

definition fallingPin :: esp_gpio where
  "fallingPin = gpioWrite 0x74 0x2100 (gpio_realized 8 0)"

lemma fallingPin_reachable: "reachable gpio_starts gpio_step fallingPin"
  unfolding fallingPin_def by (rule reach_step [OF gpio_start gpio_step_write]) (simp add: gpioOffset_def)

lemma fallingPin_regs: "i < 1024 \<Longrightarrow> gpio_regs fallingPin ! i =
    (if i = 29 then 0x2100 else if 341 \<le> i \<and> i < 390 then MatrixSoftwareOutput else 0)"
proof -
  have "length (gpio_regs (gpio_realized 8 0)) = 1024"
    using gpio_realized_inv [of 8 0] by (simp add: gpio_inv_def pads_inv_def gpio_ok_def)
  then show "i < 1024 \<Longrightarrow> gpio_regs fallingPin ! i =
    (if i = 29 then 0x2100 else if 341 \<le> i \<and> i < 390 then MatrixSoftwareOutput else 0)"
    by (auto simp: fallingPin_def gpioWrite_frame storeGpio_high setGpioReg_def gpio_realized_state nth_list_update)
qed

lemma fallingPin_state: "pinDriveOf 0 fallingPin = -1" "interruptType 0 fallingPin = IrqFalling" "bit (levels fallingPin) 0"
proof -
  show drive: "pinDriveOf 0 fallingPin = -1"
    by (simp add: pinDriveOf_def pinSignal_def gpioReg_def gpio_registers fallingPin_regs MatrixSoftwareOutput_def
        MatrixSignalMask_def MatrixInvertEnable_def Let_def)
  show "interruptType 0 fallingPin = IrqFalling"
    by (simp add: interruptType_def gpioReg_def PinConfigReg_def fallingPin_regs IrqFalling_def)
  have "pin_ok 0 fallingPin"
    using gpio_reachable_inv [OF fallingPin_reachable] by (simp add: gpio_inv_def pads_inv_def GpioPinCount_def)
  moreover have "padLevel 0 (-1) fallingPin"
    by (simp add: fallingPin_def padLevel_def gpioWrite_frame gpio_realized_state)
  ultimately show "bit (levels fallingPin) 0" by (simp add: pin_ok_def drive)
qed

theorem gpio_input_triggers_witness:
  "bit (status (gpioInput 0 0 fallingPin)) 0 \<and> gpio_irq (gpioInput 0 0 fallingPin)"
proof -
  have pin: "(0 :: nat) < GpioPinCount" by (simp add: GpioPinCount_def)
  note t = gpio_input_triggers [OF fallingPin_reachable pin fallingPin_state(1), of 0 0]
  have st: "bit (status (gpioInput 0 0 fallingPin)) 0"
    using t fallingPin_state by (simp add: triggers_def bit_simps)
  obtain h where "gpio_regs (gpioInput 0 0 fallingPin) = gpio_regs fallingPin"
    using gpioInput_parts [OF pin, where g = fallingPin and level = 0] by (metis updatePin_frame(1))
  then have "irqRaised (gpioInput 0 0 fallingPin)"
    using st pin unfolding irqRaised_def
    by (intro exI [of _ 0]) (simp add: gpioReg_def PinConfigReg_def fallingPin_regs PinIrqEnableMask_def)
  with t st show ?thesis by simp
qed

definition softwareOutput :: "nat \<Rightarrow> esp_gpio \<Rightarrow> bool" where
  "softwareOutput pin g \<longleftrightarrow> gpioReg (MatrixOutputReg + pin * 4) g = MatrixSoftwareOutput \<and>
     bit (gpioReg OutputEnableReg g) pin \<and> gpioReg (PinConfigReg + pin * 4) g AND PinOpenDrain = 0"

lemma pinDriveOf_software:
  assumes "softwareOutput pin g" and "pin < 32"
  shows "pinDriveOf pin g = of_bool (bit (gpioReg GpioOutputReg g) pin)"
proof -
  have "(x AND push_bit pin 1 \<noteq> 0) = bit x pin" for x :: u32
    using assms(2) by (simp add: bit_iff_and_push_bit_not_eq_0)
  then show ?thesis
    using assms unfolding pinDriveOf_def pinSignal_def Let_def softwareOutput_def
    by (simp del: push_bit_of_1 add: MatrixSignalMask_def MatrixSoftwareOutput_def MatrixInvertEnable_def
        MatrixInvertOutput_def MatrixSoftwareEnable_def)
qed

text \<open>Setting or clearing bits of the output register through the set and clear registers leaves the other
  bits alone, and each pad that software drives (matrix at its default, output enabled, push-pull)
  then has the level of its bit, which is also what the input register shows.\<close>

lemma gpio_output_reaches_pad:
  assumes "reachable gpio_starts gpio_step g" and "pin < 32" and "softwareOutput pin g"
  shows "gpioRead 4 (gpioWrite 8 v g) = gpioRead 4 g OR v \<and> gpioRead 4 (gpioWrite 12 v g) = gpioRead 4 g AND NOT v \<and>
    bit (gpioRead 0x3C (gpioWrite 8 v g)) pin = (bit (gpioRead 4 g) pin \<or> bit v pin) \<and>
    bit (gpioRead 0x3C (gpioWrite 12 v g)) pin = (bit (gpioRead 4 g) pin \<and> \<not> bit v pin)"
proof -
  have len: "length (gpio_regs g) = 1024"
    using gpio_reachable_inv [OF assms(1)] by (simp add: gpio_inv_def pads_inv_def gpio_ok_def)
  have out: "gpioRead 4 k = gpioReg GpioOutputReg k" for k by (simp add: gpioRead_def GpioOutputReg_def)
  have pad: "bit (gpioRead 0x3C k) pin = bit (gpioReg GpioOutputReg k) pin"
    if "reachable gpio_starts gpio_step k" "softwareOutput pin k" for k
  proof -
    have "bit (levels k) pin = padLevel pin (pinDriveOf pin k) k"
      using gpio_reachable_inv [OF that(1)] assms(2) by (simp add: gpio_inv_def pads_inv_def pin_ok_def GpioPinCount_def)
    then show ?thesis
      using assms(2) that(2) by (simp add: gpioRead_def bit_simps pinDriveOf_software padLevel_def)
  qed
  have regs: "gpio_regs (gpioWrite 8 v g) = (gpio_regs g)[1 := gpio_regs g ! 1 OR v]"
      "gpio_regs (gpioWrite 12 v g) = (gpio_regs g)[1 := gpio_regs g ! 1 AND NOT v]"
    by (simp_all add: gpioWrite_frame GpioOutputReg_def storeGpio_def setGpioReg_def gpioReg_def)
  then have soft: "softwareOutput pin (gpioWrite 8 v g)" "softwareOutput pin (gpioWrite 12 v g)"
    using assms(3) by (simp_all add: softwareOutput_def gpioReg_def MatrixOutputReg_def OutputEnableReg_def PinConfigReg_def)
  have step: "reachable gpio_starts gpio_step (gpioWrite a v g)" if "gpioOffset a" for a
    using reach_step [OF assms(1) gpio_step_write [OF that]] .
  show ?thesis
    using len regs assms(2) pad [OF step soft(1)] pad [OF step soft(2)]
    unfolding out by (simp add: gpioOffset_def gpioReg_def GpioOutputReg_def bit_simps)
qed

end
