(* ===== verification/Co5300.thy ===== *)
theory Co5300
  imports BleBytes
begin

text \<open>
  The display panel, \<open>qemu/devices/co5300.c\<close>: power and reset inputs, the write-only command
  interface, its 480 x 480 memory of RGB565 pixels, the 60 Hz tearing signal and what the host reads.
  An operation that reads the virtual clock takes its time \<open>now\<close> in nanoseconds as an argument; times
  are unbounded integers. The pixel memory is a function on its indices. \<open>refreshTimer\<close> is the time the
  refresh timer is armed for; \<open>te_log\<close> lists the levels given to the \<open>te\<close> line.
\<close>

unbundle bit_operations_syntax

section \<open>Commands and state\<close>

definition GramWidth :: nat where "GramWidth = 480"
definition GramHeight :: nat where "GramHeight = 480"
definition TeIntervalNs :: int where "TeIntervalNs = 16666667"
definition PowerOnDelayNs :: int where "PowerOnDelayNs = 10000000"
definition ResetRecoveryNs :: int where "ResetRecoveryNs = 5000000"
definition SleepOutRecoveryNs :: int where "SleepOutRecoveryNs = 120000000"

definition SoftwareReset :: byte where "SoftwareReset = 0x01"
definition SleepIn :: byte where "SleepIn = 0x10"
definition SleepOut :: byte where "SleepOut = 0x11"
definition DisplayOff :: byte where "DisplayOff = 0x28"
definition DisplayOn :: byte where "DisplayOn = 0x29"
definition ColumnAddressSet :: byte where "ColumnAddressSet = 0x2A"
definition RowAddressSet :: byte where "RowAddressSet = 0x2B"
definition MemoryWrite :: byte where "MemoryWrite = 0x2C"
definition TearingOff :: byte where "TearingOff = 0x34"
definition TearingOn :: byte where "TearingOn = 0x35"
definition MemoryWriteContinue :: byte where "MemoryWriteContinue = 0x3C"
definition WriteBrightness :: byte where "WriteBrightness = 0x51"

lemmas panel_commands = SoftwareReset_def SleepIn_def SleepOut_def DisplayOff_def DisplayOn_def
  ColumnAddressSet_def RowAddressSet_def MemoryWrite_def TearingOff_def TearingOn_def
  MemoryWriteContinue_def WriteBrightness_def

record co5300 =
  gram :: "nat \<Rightarrow> u16"
  x0 :: u16
  x1 :: u16
  y0 :: u16
  y1 :: u16
  cursorX :: u16
  cursorY :: u16
  pixelHi :: byte
  halfPixel :: bool
  panel_command :: byte
  params :: bytes
  panel_header :: bytes
  brightness :: byte
  displayOn :: bool
  sleeping :: bool
  teEnabled :: bool
  panel_powered :: bool
  resetAsserted :: bool
  resetWhileAwake :: bool
  readyAtNs :: int
  sleepOutAtNs :: int
  simulateBrightness :: bool
  width :: u16
  height :: u16
  xOffset :: u16
  yOffset :: u16
  updates :: u64
  activeRefreshes :: u64
  completedWindows :: u32
  previousWindows :: u32
  refreshTimer :: "int option"
  nextTeNs :: int
  te_log :: "bool list"

text \<open>\<open>params\<close> and \<open>panel_header\<close> hold the bytes received so far: their lengths are the counters
  \<open>paramCount\<close> and \<open>headerCount\<close>. For \<open>WriteBrightness\<close> the code counts its one parameter without
  storing it, so there the list only has the right length.\<close>

section \<open>Power, reset and refresh\<close>

definition panelActive :: "co5300 \<Rightarrow> bool" where
  "panelActive d \<longleftrightarrow> panel_powered d \<and> \<not> resetAsserted d \<and> \<not> sleeping d"

definition scheduleRefresh :: "int \<Rightarrow> co5300 \<Rightarrow> co5300" where
  "scheduleRefresh now d =
     (if panelActive d then
        if refreshTimer d = None then
          let t = max now (readyAtNs d) + TeIntervalNs in d\<lparr>nextTeNs := t, refreshTimer := Some t\<rparr>
        else d
      else d\<lparr>refreshTimer := None, te_log := te_log d @ [False], previousWindows := completedWindows d\<rparr>)"

definition panel_resetRegisters :: "int \<Rightarrow> co5300 \<Rightarrow> co5300" where
  "panel_resetRegisters now d = scheduleRefresh now (d\<lparr>
     x0 := 0, y0 := 0, cursorX := 0, cursorY := 0, x1 := of_nat (GramWidth - 1), y1 := of_nat (GramHeight - 1),
     panel_command := 0, params := [], panel_header := [], halfPixel := False,
     displayOn := False, teEnabled := False, sleeping := True, brightness := 0, updates := updates d + 1\<rparr>)"

definition panel_powerInput :: "int \<Rightarrow> int \<Rightarrow> co5300 \<Rightarrow> co5300" where
  "panel_powerInput now level d =
     (let on = (level \<noteq> 0) in
      if panel_powered d = on then d
      else
        let d = d\<lparr>panel_powered := on\<rparr>;
            d = (if on then d\<lparr>gram := (\<lambda>_. 0)\<rparr> else d);
            d = panel_resetRegisters now d in
        d\<lparr>resetWhileAwake := False, readyAtNs := now + PowerOnDelayNs, sleepOutAtNs := now + PowerOnDelayNs\<rparr>)"

definition panel_resetInput :: "int \<Rightarrow> int \<Rightarrow> co5300 \<Rightarrow> co5300" where
  "panel_resetInput now level d =
     (let asserted = (level = 0) in
      if resetAsserted d = asserted then d
      else
        let d = d\<lparr>resetAsserted := asserted\<rparr> in
        if asserted then panel_resetRegisters now (d\<lparr>resetWhileAwake := \<not> sleeping d\<rparr>)
        else
          let ready = max (readyAtNs d) (now + ResetRecoveryNs) in
          d\<lparr>readyAtNs := ready, sleepOutAtNs :=
             max ready (now + (if resetWhileAwake d then SleepOutRecoveryNs else ResetRecoveryNs))\<rparr>)"

text \<open>The timer callback; the timer is no longer pending when it runs.\<close>

definition panel_refresh :: "int \<Rightarrow> co5300 \<Rightarrow> co5300" where
  "panel_refresh now d =
     (let d = d\<lparr>refreshTimer := None\<rparr>;
          d = (if completedWindows d \<noteq> previousWindows d
               then d\<lparr>activeRefreshes := activeRefreshes d + 1, previousWindows := completedWindows d\<rparr> else d);
          d = d\<lparr>nextTeNs := nextTeNs d + ((now - nextTeNs d) div TeIntervalNs + 1) * TeIntervalNs\<rparr>;
          d = (if teEnabled d then d\<lparr>te_log := te_log d @ [True, False]\<rparr> else d) in
      d\<lparr>refreshTimer := Some (nextTeNs d)\<rparr>)"

section \<open>Commands and pixels\<close>

definition panelCommand :: "int \<Rightarrow> byte \<Rightarrow> co5300 \<Rightarrow> co5300" where
  "panelCommand now c d =
     (if c = SoftwareReset then
        panel_resetRegisters now (d\<lparr>readyAtNs := now + ResetRecoveryNs,
          sleepOutAtNs := now + (if sleeping d then ResetRecoveryNs else SleepOutRecoveryNs)\<rparr>)
      else
        let d = d\<lparr>panel_command := c, params := [], halfPixel := False\<rparr>;
            d = (if c = MemoryWrite then d\<lparr>cursorX := x0 d, cursorY := y0 d\<rparr> else d);
            d = (if c = DisplayOff \<or> c = DisplayOn then d\<lparr>displayOn := (c = DisplayOn), updates := updates d + 1\<rparr> else d) in
        if c = SleepOut \<and> now < sleepOutAtNs d then d
        else
          let d = (if c = SleepIn \<or> c = SleepOut
                   then scheduleRefresh now (d\<lparr>sleeping := (c = SleepIn), updates := updates d + 1\<rparr>) else d) in
          if c = TearingOff \<or> c = TearingOn then d\<lparr>teEnabled := (c = TearingOn)\<rparr> else d)"

definition word16 :: "byte \<Rightarrow> byte \<Rightarrow> u16" where
  "word16 hi lo = push_bit 8 (ucast hi) OR ucast lo"

definition addressParameter :: "byte \<Rightarrow> co5300 \<Rightarrow> co5300" where
  "addressParameter v d =
     (if 4 \<le> length (params d) then d
      else
        let d = d\<lparr>params := params d @ [v]\<rparr> in
        if length (params d) = 4 then
          let first = word16 (params d ! 0) (params d ! 1); last' = word16 (params d ! 2) (params d ! 3) in
          if panel_command d = ColumnAddressSet then d\<lparr>x0 := first, x1 := last'\<rparr> else d\<lparr>y0 := first, y1 := last'\<rparr>
        else d)"

definition windowVisible :: "co5300 \<Rightarrow> bool" where
  "windowVisible d \<longleftrightarrow> x0 d \<le> x1 d \<and> unat (x1 d) < GramWidth \<and> y0 d \<le> y1 d \<and> unat (y1 d) < GramHeight \<and>
     unat (x0 d) < unat (xOffset d) + unat (width d) \<and> xOffset d \<le> x1 d \<and>
     unat (y0 d) < unat (yOffset d) + unat (height d) \<and> yOffset d \<le> y1 d"

definition advanceCursor :: "co5300 \<Rightarrow> co5300" where
  "advanceCursor d =
     (let d = d\<lparr>cursorX := cursorX d + 1\<rparr> in
      if cursorX d \<le> x1 d then d
      else
        let d = d\<lparr>cursorX := x0 d, cursorY := cursorY d + 1\<rparr> in
        if cursorY d \<le> y1 d then d
        else
          let d = d\<lparr>cursorY := y0 d\<rparr> in
          if windowVisible d then d\<lparr>completedWindows := completedWindows d + 1\<rparr> else d)"

definition pixelByte :: "byte \<Rightarrow> co5300 \<Rightarrow> co5300" where
  "pixelByte v d =
     (if \<not> halfPixel d then d\<lparr>pixelHi := v, halfPixel := True\<rparr>
      else
        let d = (if unat (cursorX d) < GramWidth \<and> unat (cursorY d) < GramHeight
                 then d\<lparr>gram := (gram d)(unat (cursorY d) * GramWidth + unat (cursorX d) := word16 (pixelHi d) v),
                        updates := updates d + 1\<rparr> else d) in
        advanceCursor (d\<lparr>halfPixel := False\<rparr>))"

definition panelData :: "byte \<Rightarrow> co5300 \<Rightarrow> co5300" where
  "panelData v d =
     (if panel_command d = ColumnAddressSet \<or> panel_command d = RowAddressSet then addressParameter v d
      else if panel_command d = WriteBrightness \<and> params d = [] then
        d\<lparr>brightness := v, params := [v], updates := updates d + 1\<rparr>
      else if panel_command d = MemoryWrite \<or> panel_command d = MemoryWriteContinue then pixelByte v d
      else d)"

definition panel_selectChanged :: "bool \<Rightarrow> co5300 \<Rightarrow> co5300" where
  "panel_selectChanged level d = (if level then d\<lparr>panel_header := []\<rparr> else d)"

definition panel_transfer :: "int \<Rightarrow> u32 \<Rightarrow> co5300 \<Rightarrow> co5300" where
  "panel_transfer now v d =
     (if \<not> panel_powered d \<or> resetAsserted d then d
      else if readyAtNs d \<noteq> 0 \<and> now < readyAtNs d then d
      else
        let d = d\<lparr>readyAtNs := 0\<rparr>; b = ucast v :: byte in
        if length (panel_header d) < 4 then
          let d = d\<lparr>panel_header := panel_header d @ [b]\<rparr> in
          if length (panel_header d) = 4 then panelCommand now (panel_header d ! 2) d else d
        else panelData b d)"

section \<open>The host's view\<close>

definition co5300SetBrightnessSimulation :: "bool \<Rightarrow> co5300 \<Rightarrow> co5300" where
  "co5300SetBrightnessSimulation enabled d =
     (if simulateBrightness d = enabled then d
      else d\<lparr>simulateBrightness := enabled, updates := updates d + 1\<rparr>)"

definition dimmed :: "nat \<Rightarrow> u16 \<Rightarrow> u16" where
  "dimmed level pixel =
     (if level = 255 then pixel
      else if level = 0 then 0
      else
        let red = unat (drop_bit 11 pixel) * level div 255;
            green = unat (drop_bit 5 pixel AND 63) * level div 255;
            blue = unat (pixel AND 31) * level div 255 in
        push_bit 11 (of_nat red) OR push_bit 5 (of_nat green) OR of_nat blue)"

definition panelVisible :: "co5300 \<Rightarrow> bool" where
  "panelVisible d \<longleftrightarrow> panel_powered d \<and> \<not> resetAsserted d \<and> displayOn d \<and> \<not> sleeping d"

definition panelLevel :: "co5300 \<Rightarrow> nat" where
  "panelLevel d = (if panelVisible d then if simulateBrightness d then unat (brightness d) else 255 else 0)"

definition co5300ReadPixels :: "co5300 \<Rightarrow> u16 list" where
  "co5300ReadPixels d =
     (let level = panelLevel d in
      concat (map (\<lambda>y. map (\<lambda>x. dimmed level
          (gram d ((y + unat (yOffset d)) * GramWidth + unat (xOffset d) + x)))
        [0..<unat (width d)]) [0..<unat (height d)]))"

section \<open>Creation\<close>

definition co5300_init :: "int \<Rightarrow> co5300" where
  "co5300_init now = panel_resetRegisters now \<lparr>gram = (\<lambda>_. 0), x0 = 0, x1 = 0, y0 = 0, y1 = 0,
     cursorX = 0, cursorY = 0, pixelHi = 0, halfPixel = False, panel_command = 0, params = [], panel_header = [],
     brightness = 0, displayOn = False, sleeping = False, teEnabled = False, panel_powered = False,
     resetAsserted = True, resetWhileAwake = False, readyAtNs = 0, sleepOutAtNs = 0, simulateBrightness = False,
     width = of_nat GramWidth, height = of_nat GramHeight, xOffset = 0, yOffset = 0, updates = 0,
     activeRefreshes = 0, completedWindows = 0, previousWindows = 0, refreshTimer = None, nextTeNs = 0, te_log = []\<rparr>"

definition viewportFits :: "u16 \<Rightarrow> u16 \<Rightarrow> u16 \<Rightarrow> u16 \<Rightarrow> bool" where
  "viewportFits w h xo yo \<longleftrightarrow> w \<noteq> 0 \<and> h \<noteq> 0 \<and> unat xo + unat w \<le> GramWidth \<and> unat yo + unat h \<le> GramHeight"

text \<open>The properties set the viewport before the device is realized, which fails for one that does not fit.\<close>

definition co5300_realize :: "int \<Rightarrow> u16 \<Rightarrow> u16 \<Rightarrow> u16 \<Rightarrow> u16 \<Rightarrow> co5300 option" where
  "co5300_realize now w h xo yo =
     (if viewportFits w h xo yo then Some ((co5300_init now)\<lparr>width := w, height := h, xOffset := xo, yOffset := yo\<rparr>)
      else None)"

end
