(* ===== verification/PanelWindow.thy ===== *)
theory PanelWindow
  imports Co5300
begin

text \<open>
  Writing a window of the panel: the pixels of one memory write are stored row by row in the
  addressed rectangle, nothing else of the memory changes, and the host reads them back.
\<close>

unbundle bit_operations_syntax

section \<open>Messages\<close>

definition panelReady :: "int \<Rightarrow> co5300 \<Rightarrow> bool" where
  "panelReady now d \<longleftrightarrow> panel_powered d \<and> \<not> resetAsserted d \<and> (readyAtNs d = 0 \<or> readyAtNs d \<le> now)"

text \<open>The bytes of one selection of the panel, which ends with its select line going high.\<close>

definition panelMessage :: "int \<Rightarrow> bytes \<Rightarrow> co5300 \<Rightarrow> co5300" where
  "panelMessage now bs d = panel_selectChanged True (fold (\<lambda>b. panel_transfer now (ucast b)) bs d)"

lemma panelData_frame:
  "panel_powered (panelData v d) = panel_powered d" "resetAsserted (panelData v d) = resetAsserted d"
  "readyAtNs (panelData v d) = readyAtNs d" "panel_header (panelData v d) = panel_header d"
  by (simp_all add: panelData_def addressParameter_def pixelByte_def advanceCursor_def Let_def)

lemma fold_panel_transfer:
  assumes "panel_powered d" and "\<not> resetAsserted d" and "readyAtNs d = 0" and "length (panel_header d) = 4"
  shows "fold (\<lambda>b. panel_transfer now (ucast b)) bs d = fold panelData bs d"
  using assms
proof (induction bs arbitrary: d)
  case Nil
  then show ?case by simp
next
  case (Cons b bs)
  have "ucast (ucast b :: u32) = b" for b :: byte by (rule bit_word_eqI) (simp add: bit_simps)
  then have "panel_transfer now (ucast b) d = panelData b (d\<lparr>readyAtNs := 0\<rparr>)"
    using Cons.prems by (simp add: panel_transfer_def)
  moreover have "d\<lparr>readyAtNs := 0\<rparr> = d" using Cons.prems(3) by (intro co5300.equality) simp_all
  ultimately have "panel_transfer now (ucast b) d = panelData b d" by (simp only:)
  then show ?case using Cons by (simp add: panelData_frame)
qed

definition commandStarted :: "byte \<Rightarrow> byte \<Rightarrow> byte \<Rightarrow> byte \<Rightarrow> co5300 \<Rightarrow> co5300" where
  "commandStarted h0 h1 c h3 d = d\<lparr>readyAtNs := 0, panel_header := [h0, h1, c, h3]\<rparr>"

lemma header_byte:
  assumes "panelReady now d" and "length (panel_header d) < 4"
  shows "panel_transfer now (ucast b) d =
    (if length (panel_header d) = 3
     then panelCommand now ((panel_header d @ [b]) ! 2) (d\<lparr>readyAtNs := 0, panel_header := panel_header d @ [b]\<rparr>)
     else d\<lparr>readyAtNs := 0, panel_header := panel_header d @ [b]\<rparr>)"
proof -
  have u: "ucast (ucast b :: u32) = b" by (rule bit_word_eqI) (simp add: bit_simps)
  have c: "(\<not> panel_powered d \<or> resetAsserted d) = False" "(readyAtNs d \<noteq> 0 \<and> now < readyAtNs d) = False"
      "(length (panel_header d) < 4) = True"
    using assms by (auto simp: panelReady_def)
  have "length (panel_header d @ [b]) = 4 \<longleftrightarrow> length (panel_header d) = 3" by simp
  then show ?thesis
    unfolding panel_transfer_def Let_def c if_False if_True u by (simp add: assms(2))
qed

lemma header_sent:
  assumes "panelReady now d" and "panel_header d = []"
  shows "fold (\<lambda>b. panel_transfer now (ucast b)) [h0, h1, c, h3] d = panelCommand now c (commandStarted h0 h1 c h3 d)"
proof -
  have ready: "panelReady now (d\<lparr>readyAtNs := 0, panel_header := h\<rparr>)" for h using assms(1) by (simp add: panelReady_def)
  have "panel_transfer now (ucast h0) d = d\<lparr>readyAtNs := 0, panel_header := [h0]\<rparr>"
    using assms header_byte [OF assms(1)] by simp
  moreover have "panel_transfer now (ucast h1) (d\<lparr>readyAtNs := 0, panel_header := [h0]\<rparr>) =
      d\<lparr>readyAtNs := 0, panel_header := [h0, h1]\<rparr>" using header_byte [OF ready] by simp
  moreover have "panel_transfer now (ucast c) (d\<lparr>readyAtNs := 0, panel_header := [h0, h1]\<rparr>) =
      d\<lparr>readyAtNs := 0, panel_header := [h0, h1, c]\<rparr>" using header_byte [OF ready] by simp
  moreover have "panel_transfer now (ucast h3) (d\<lparr>readyAtNs := 0, panel_header := [h0, h1, c]\<rparr>) =
      panelCommand now c (commandStarted h0 h1 c h3 d)" using header_byte [OF ready] by (simp add: commandStarted_def)
  ultimately show ?thesis by simp
qed

lemma panelMessage_command:
  assumes "panelReady now d" and "panel_header d = []" and "c \<noteq> SoftwareReset"
    and "c \<noteq> SleepIn" and "c \<noteq> SleepOut"
  shows "panelMessage now (h0 # h1 # c # h3 # bs) d =
    (fold panelData bs (panelCommand now c (commandStarted h0 h1 c h3 d)))\<lparr>panel_header := []\<rparr>"
proof -
  note header_sent [OF assms(1,2)]
  moreover have "panel_powered (panelCommand now c (commandStarted h0 h1 c h3 d))"
      "\<not> resetAsserted (panelCommand now c (commandStarted h0 h1 c h3 d))"
      "readyAtNs (panelCommand now c (commandStarted h0 h1 c h3 d)) = 0"
      "length (panel_header (panelCommand now c (commandStarted h0 h1 c h3 d))) = 4"
    using assms by (simp_all add: panelCommand_def commandStarted_def panelReady_def Let_def)
  ultimately have "fold (\<lambda>b. panel_transfer now (ucast b)) (h0 # h1 # c # h3 # bs) d =
      fold panelData bs (panelCommand now c (commandStarted h0 h1 c h3 d))"
    using fold_panel_transfer [of "panelCommand now c (commandStarted h0 h1 c h3 d)" now bs] by simp
  then show ?thesis by (simp add: panelMessage_def panel_selectChanged_def)
qed

section \<open>Addressing a window\<close>

definition high :: "u16 \<Rightarrow> byte" where "high v = ucast (drop_bit 8 v)"
definition low :: "u16 \<Rightarrow> byte" where "low v = ucast v"

lemma word16_high_low [simp]: "word16 (high v) (low v) = v"
  unfolding word16_def high_def low_def by (rule bit_word_eqI) (auto simp: bit_simps)

definition addressMessage :: "byte \<Rightarrow> u16 \<Rightarrow> u16 \<Rightarrow> bytes" where
  "addressMessage c first last' = [2, 0, c, 0, high first, low first, high last', low last']"

lemma address_bytes:
  assumes "panel_command e = c" and "c = ColumnAddressSet \<or> c = RowAddressSet" and "params e = []"
  shows "fold panelData [high a, low a, high b, low b] e =
    (if c = ColumnAddressSet then e\<lparr>x0 := a, x1 := b\<rparr> else e\<lparr>y0 := a, y1 := b\<rparr>)\<lparr>params := [high a, low a, high b, low b]\<rparr>"
proof -
  have data: "panelData v f = addressParameter v f" if "panel_command f = c" for v f
    using assms(2) that by (simp add: panelData_def)
  have more: "addressParameter v f = f\<lparr>params := params f @ [v]\<rparr>" if "length (params f) < 3" for v f
    using that by (simp add: addressParameter_def)
  have "addressParameter (low b) (e\<lparr>params := [high a, low a, high b]\<rparr>) =
      (if c = ColumnAddressSet then e\<lparr>x0 := a, x1 := b\<rparr> else e\<lparr>y0 := a, y1 := b\<rparr>)\<lparr>params := [high a, low a, high b, low b]\<rparr>"
    using assms(1) by (simp add: addressParameter_def Let_def)
  then show ?thesis using assms(1,3) by (simp add: data more)
qed

lemma address_sent:
  assumes "panelReady now d" and "panel_header d = []" and "c = ColumnAddressSet \<or> c = RowAddressSet"
  shows "panelMessage now (addressMessage c a b) d =
    (if c = ColumnAddressSet then d\<lparr>x0 := a, x1 := b\<rparr> else d\<lparr>y0 := a, y1 := b\<rparr>)
      \<lparr>readyAtNs := 0, panel_command := c, params := [high a, low a, high b, low b], halfPixel := False\<rparr>"
proof -
  have "panelMessage now (addressMessage c a b) d =
    (fold panelData [high a, low a, high b, low b] (panelCommand now c (commandStarted 2 0 c 0 d)))\<lparr>panel_header := []\<rparr>"
    unfolding addressMessage_def
    using assms by (intro panelMessage_command) (auto simp: panel_commands)
  moreover have "panelCommand now c (commandStarted 2 0 c 0 d) =
      d\<lparr>readyAtNs := 0, panel_header := [2, 0, c, 0], panel_command := c, params := [], halfPixel := False\<rparr>"
    using assms(3) by (auto simp: panelCommand_def commandStarted_def panel_commands)
  moreover have "fold panelData [high a, low a, high b, low b] e =
      (if c = ColumnAddressSet then e\<lparr>x0 := a, x1 := b\<rparr> else e\<lparr>y0 := a, y1 := b\<rparr>)\<lparr>params := [high a, low a, high b, low b]\<rparr>"
    if "panel_command e = c" "params e = []" for e
    using address_bytes [OF that(1) assms(3) that(2)] by simp
  ultimately show ?thesis
    using assms(2) by (intro co5300.equality) simp_all
qed

section \<open>The pixels of a window\<close>

definition pixelBytes :: "u16 list \<Rightarrow> bytes" where
  "pixelBytes pixels = concat (map (\<lambda>p. [high p, low p]) pixels)"

definition windowWidth :: "co5300 \<Rightarrow> nat" where
  "windowWidth d = unat (x1 d) - unat (x0 d) + 1"

definition windowHeight :: "co5300 \<Rightarrow> nat" where
  "windowHeight d = unat (y1 d) - unat (y0 d) + 1"

definition windowOk :: "co5300 \<Rightarrow> bool" where
  "windowOk d \<longleftrightarrow> x0 d \<le> x1 d \<and> unat (x1 d) < GramWidth \<and> y0 d \<le> y1 d \<and> unat (y1 d) < GramHeight"

definition cell :: "co5300 \<Rightarrow> nat \<Rightarrow> nat" where
  "cell d k = (unat (y0 d) + k div windowWidth d) * GramWidth + (unat (x0 d) + k mod windowWidth d)"

definition pixelsWritten :: "co5300 \<Rightarrow> u16 list \<Rightarrow> nat \<Rightarrow> nat \<Rightarrow> u16" where
  "pixelsWritten d pixels k = fold (\<lambda>j g. g(cell d j := pixels ! j)) [0..<k] (gram d)"

text \<open>The panel when \<open>k\<close> pixels of the window have arrived.\<close>

definition afterPixels :: "co5300 \<Rightarrow> u16 list \<Rightarrow> nat \<Rightarrow> byte \<Rightarrow> co5300" where
  "afterPixels d pixels k hi = d\<lparr>gram := pixelsWritten d pixels k, pixelHi := hi, halfPixel := False,
     cursorX := of_nat (unat (x0 d) + k mod windowWidth d),
     cursorY := of_nat (unat (y0 d) + k div windowWidth d mod windowHeight d),
     updates := updates d + of_nat k,
     completedWindows := completedWindows d + (if k = windowWidth d * windowHeight d \<and> windowVisible d then 1 else 0)\<rparr>"

lemma of_nat_le_word: "n < 65536 \<Longrightarrow> (of_nat n :: u16) \<le> w \<longleftrightarrow> n \<le> unat w"
  by (simp add: word_le_nat_alt unat_of_nat take_bit_nat_eq_self)

lemma unat_of_nat16: "n < 65536 \<Longrightarrow> unat (of_nat n :: u16) = n"
  by (simp add: unat_of_nat take_bit_nat_eq_self)

lemma window_bounds:
  assumes "windowOk d"
  shows "unat (x0 d) + windowWidth d = unat (x1 d) + 1" and "unat (y0 d) + windowHeight d = unat (y1 d) + 1"
    and "0 < windowWidth d" and "0 < windowHeight d"
    and "unat (x0 d) + windowWidth d \<le> GramWidth" and "unat (y0 d) + windowHeight d \<le> GramHeight"
  using assms by (auto simp: windowOk_def windowWidth_def windowHeight_def word_le_nat_alt)

lemma windowVisible_frame [simp]:
  "windowVisible (d\<lparr>gram := g\<rparr>) = windowVisible d" "windowVisible (d\<lparr>pixelHi := v\<rparr>) = windowVisible d"
  "windowVisible (d\<lparr>halfPixel := h\<rparr>) = windowVisible d" "windowVisible (d\<lparr>cursorX := x\<rparr>) = windowVisible d"
  "windowVisible (d\<lparr>cursorY := x\<rparr>) = windowVisible d" "windowVisible (d\<lparr>updates := u\<rparr>) = windowVisible d"
  "windowVisible (d\<lparr>completedWindows := c\<rparr>) = windowVisible d"
  by (simp_all add: windowVisible_def)

lemma cursor_advances:
  assumes ok: "windowOk d" and k: "k < windowWidth d * windowHeight d"
  shows "advanceCursor (d\<lparr>gram := g, pixelHi := hi, halfPixel := False,
      cursorX := of_nat (unat (x0 d) + k mod windowWidth d), cursorY := of_nat (unat (y0 d) + k div windowWidth d),
      updates := u, completedWindows := completedWindows d\<rparr>) =
    d\<lparr>gram := g, pixelHi := hi, halfPixel := False,
      cursorX := of_nat (unat (x0 d) + Suc k mod windowWidth d),
      cursorY := of_nat (unat (y0 d) + Suc k div windowWidth d mod windowHeight d), updates := u,
      completedWindows := completedWindows d + (if Suc k = windowWidth d * windowHeight d \<and> windowVisible d then 1 else 0)\<rparr>"
proof -
  define W where "W = windowWidth d"
  define H where "H = windowHeight d"
  define X where "X = unat (x0 d) + k mod W"
  define Y where "Y = unat (y0 d) + k div W"
  note b = window_bounds [OF ok, folded W_def H_def]
  have row: "k div W < H" using k b(3) by (simp add: less_mult_imp_div_less mult.commute flip: W_def H_def)
  have col: "k mod W < W" using b(3) by simp
  have bounds: "Suc X < 65536" "Suc Y < 65536" "X < Suc (unat (x1 d))" "Y < Suc (unat (y1 d))"
    using b row col by (simp_all add: X_def Y_def GramWidth_def GramHeight_def)
  have x: "(of_nat X + 1 \<le> x1 d) = (Suc (k mod W) \<noteq> W)"
    using of_nat_le_word [OF bounds(1), of "x1 d"] b(1) col by (auto simp: X_def add.commute)
  have y: "(of_nat Y + 1 \<le> y1 d) = (Suc (k div W) \<noteq> H)"
    using of_nat_le_word [OF bounds(2), of "y1 d"] b(2) row by (auto simp: Y_def add.commute)
  show ?thesis
  proof (cases "Suc (k mod W) = W")
    case False
    then have "Suc k mod W = Suc (k mod W)" "Suc k div W = k div W" by (auto simp: mod_Suc div_Suc)
    moreover have "Suc k \<noteq> W * H"
    proof
      assume "Suc k = W * H"
      then have "Suc k mod W = 0" by simp
      then show False using \<open>Suc k mod W = Suc (k mod W)\<close> by simp
    qed
    ultimately show ?thesis
      using x row False unfolding W_def [symmetric] H_def [symmetric] X_def [symmetric] Y_def [symmetric]
      by (intro co5300.equality) (simp_all add: advanceCursor_def Let_def X_def Y_def algebra_simps)
  next
    case True
    then have s: "Suc k mod W = 0" "Suc k div W = Suc (k div W)" by (simp_all add: mod_Suc div_Suc)
    have last_pixel: "Suc k = W * H \<longleftrightarrow> Suc (k div W) = H"
      using s b(3) by (metis mult_cancel1 neq0_conv mult_div_mod_eq add.right_neutral)
    have home: "of_nat (unat (y0 d) + Suc (k div W) mod H) = (if Suc (k div W) = H then y0 d else of_nat Y + 1 :: u16)"
      using row by (auto simp: Y_def mod_Suc algebra_simps)
    show ?thesis
      using x y True unfolding W_def [symmetric] H_def [symmetric] X_def [symmetric] Y_def [symmetric] s last_pixel home
      by (intro co5300.equality) (simp_all add: advanceCursor_def Let_def)
  qed
qed

lemma pixel_written:
  assumes ok: "windowOk d" and k: "k < windowWidth d * windowHeight d"
  shows "pixelByte (low (pixels ! k)) (pixelByte (high (pixels ! k)) (afterPixels d pixels k hi)) =
    afterPixels d pixels (Suc k) (high (pixels ! k))"
proof -
  note b = window_bounds [OF ok]
  have row: "k div windowWidth d < windowHeight d" using k b(3) by (simp add: less_mult_imp_div_less mult.commute)
  have col: "k mod windowWidth d < windowWidth d" using b(3) by simp
  have un: "unat (of_nat (unat (x0 d) + k mod windowWidth d) :: u16) = unat (x0 d) + k mod windowWidth d"
      "unat (of_nat (unat (y0 d) + k div windowWidth d) :: u16) = unat (y0 d) + k div windowWidth d"
    using b(5,6) row col by (intro unat_of_nat16, simp add: GramWidth_def GramHeight_def)+
  have inside: "unat (x0 d) + k mod windowWidth d < GramWidth" "unat (y0 d) + k div windowWidth d < GramHeight"
    using b(5,6) row col by simp_all
  have "pixelByte (low (pixels ! k)) (pixelByte (high (pixels ! k)) (afterPixels d pixels k hi)) =
    advanceCursor (d\<lparr>gram := pixelsWritten d pixels (Suc k), pixelHi := high (pixels ! k), halfPixel := False,
      cursorX := of_nat (unat (x0 d) + k mod windowWidth d), cursorY := of_nat (unat (y0 d) + k div windowWidth d),
      updates := updates d + of_nat (Suc k), completedWindows := completedWindows d\<rparr>)"
    using k row inside unfolding afterPixels_def pixelByte_def Let_def
    by (simp del: of_nat_add of_nat_Suc add: un)
      (rule arg_cong [of _ _ advanceCursor], rule co5300.equality; simp add: pixelsWritten_def cell_def)
  then show ?thesis by (simp only: cursor_advances [OF assms] afterPixels_def)
qed

lemma pixels_written:
  assumes "windowOk d" and "panel_command d = MemoryWrite"
  shows "k + length ps \<le> windowWidth d * windowHeight d \<Longrightarrow> ps = take (length ps) (drop k pixels) \<Longrightarrow>
    \<exists>hi'. fold panelData (pixelBytes ps) (afterPixels d pixels k hi) = afterPixels d pixels (k + length ps) hi'"
proof (induction ps arbitrary: k hi)
  case Nil
  then show ?case by (auto simp: pixelBytes_def)
next
  case (Cons p ps)
  have k: "k < windowWidth d * windowHeight d" using Cons.prems(1) by simp
  have "k < length pixels" using Cons.prems(2) by (cases "k < length pixels") auto
  then have p: "p = pixels ! k" "ps = take (length ps) (drop (Suc k) pixels)"
    using Cons.prems(2) by (simp_all add: Cons_nth_drop_Suc [symmetric])
  have data: "panelData v e = pixelByte v e" if "panel_command e = MemoryWrite" for v e
    using that by (simp add: panelData_def panel_commands)
  have "panel_command (pixelByte v e) = panel_command e" for v e
    by (simp add: pixelByte_def advanceCursor_def Let_def)
  then have "fold panelData [high p, low p] (afterPixels d pixels k hi) = afterPixels d pixels (Suc k) (high p)"
    using assms(2) pixel_written [OF assms(1) k] p(1) by (simp add: data afterPixels_def)
  then show ?case
    using Cons.IH [of "Suc k" "high p"] Cons.prems(1) p(2) by (simp add: pixelBytes_def)
qed

lemma window_started:
  assumes "windowOk d"
  shows "panelCommand now MemoryWrite d = afterPixels (d\<lparr>panel_command := MemoryWrite, params := []\<rparr>) pixels 0 (pixelHi d)"
proof -
  have "windowWidth d * windowHeight d \<noteq> 0" using window_bounds(3,4) [OF assms] by simp
  then show ?thesis
    by (intro co5300.equality)
      (simp_all add: panelCommand_def panel_commands Let_def afterPixels_def pixelsWritten_def windowWidth_def windowHeight_def)
qed

section \<open>The memory afterwards\<close>

lemma cell_position:
  assumes "windowOk d" and "j < windowWidth d * windowHeight d"
  shows "cell d j div GramWidth = unat (y0 d) + j div windowWidth d" and "cell d j mod GramWidth = unat (x0 d) + j mod windowWidth d"
    and "unat (x0 d) + j mod windowWidth d \<le> unat (x1 d)" and "unat (y0 d) + j div windowWidth d \<le> unat (y1 d)"
proof -
  note b = window_bounds [OF assms(1)]
  have "j mod windowWidth d < windowWidth d" using b(3) by simp
  then have "unat (x0 d) + j mod windowWidth d < GramWidth" using b(5) by simp
  then show "cell d j div GramWidth = unat (y0 d) + j div windowWidth d" "cell d j mod GramWidth = unat (x0 d) + j mod windowWidth d"
    by (simp_all add: cell_def)
  show "unat (x0 d) + j mod windowWidth d \<le> unat (x1 d)" using b(1) \<open>j mod windowWidth d < windowWidth d\<close> by simp
  have "j div windowWidth d < windowHeight d" using assms(2) b(3) by (simp add: less_mult_imp_div_less mult.commute)
  then show "unat (y0 d) + j div windowWidth d \<le> unat (y1 d)" using b(2) by simp
qed

lemma cell_inj:
  assumes "windowOk d" and "i < windowWidth d * windowHeight d" and "j < windowWidth d * windowHeight d"
    and "cell d i = cell d j"
  shows "i = j"
proof -
  have "i div windowWidth d = j div windowWidth d" "i mod windowWidth d = j mod windowWidth d"
    using cell_position(1,2) [OF assms(1,2)] cell_position(1,2) [OF assms(1,3)] assms(4) by simp_all
  then show ?thesis by (metis div_mult_mod_eq)
qed

lemma written_cells:
  assumes "windowOk d" and "k \<le> windowWidth d * windowHeight d"
  shows "(\<forall>j < k. pixelsWritten d pixels k (cell d j) = pixels ! j) \<and>
    (\<forall>i. (\<forall>j < k. cell d j \<noteq> i) \<longrightarrow> pixelsWritten d pixels k i = gram d i)"
  using assms(2)
proof (induction k)
  case 0
  then show ?case by (simp add: pixelsWritten_def)
next
  case (Suc k)
  have step: "pixelsWritten d pixels (Suc k) = (pixelsWritten d pixels k)(cell d k := pixels ! k)" by (simp add: pixelsWritten_def)
  have "cell d j \<noteq> cell d k" if "j < k" for j
    using cell_inj [OF assms(1), of j k] that Suc.prems by auto
  then show ?case using Suc by (auto simp: step less_Suc_eq)
qed

definition inWindow :: "u16 \<Rightarrow> u16 \<Rightarrow> u16 \<Rightarrow> u16 \<Rightarrow> nat \<Rightarrow> nat \<Rightarrow> bool" where
  "inWindow a b c e x y \<longleftrightarrow> unat a \<le> x \<and> x \<le> unat b \<and> unat c \<le> y \<and> y \<le> unat e"

lemma window_memory:
  assumes ok: "windowOk d" and "x < GramWidth"
  shows "pixelsWritten d pixels (windowWidth d * windowHeight d) (y * GramWidth + x) =
    (if inWindow (x0 d) (x1 d) (y0 d) (y1 d) x y
     then pixels ! ((y - unat (y0 d)) * windowWidth d + (x - unat (x0 d))) else gram d (y * GramWidth + x))"
proof -
  note b = window_bounds [OF ok]
  note cells = written_cells [OF ok order_refl, of pixels]
  have pos: "(y * GramWidth + x) div GramWidth = y" "(y * GramWidth + x) mod GramWidth = x"
    using assms(2) by (simp_all add: GramWidth_def)
  show ?thesis
  proof (cases "inWindow (x0 d) (x1 d) (y0 d) (y1 d) x y")
    case True
    define j where "j = (y - unat (y0 d)) * windowWidth d + (x - unat (x0 d))"
    have col: "x - unat (x0 d) < windowWidth d" using True b(1) by (auto simp: inWindow_def)
    then have dm: "j div windowWidth d = y - unat (y0 d)" "j mod windowWidth d = x - unat (x0 d)" by (simp_all add: j_def)
    have "y - unat (y0 d) < windowHeight d" using True b(2) by (auto simp: inWindow_def)
    then have "Suc (y - unat (y0 d)) * windowWidth d \<le> windowHeight d * windowWidth d" by (intro mult_le_mono1) simp
    then have "j < windowWidth d * windowHeight d" using col by (simp add: j_def algebra_simps)
    moreover have "cell d j = y * GramWidth + x" using True dm by (simp add: cell_def inWindow_def)
    ultimately show ?thesis using cells True unfolding j_def by auto
  next
    case False
    have "cell d j \<noteq> y * GramWidth + x" if "j < windowWidth d * windowHeight d" for j
      using cell_position [OF ok that] pos False by (auto simp: inWindow_def)
    then show ?thesis using cells False by simp
  qed
qed

lemma nth_concat_rows:
  "r < h \<Longrightarrow> s < w \<Longrightarrow> concat (map (\<lambda>y. map (f y) [0..<w]) [0..<h]) ! (r * w + s) = f r s"
proof (induction h)
  case (Suc h)
  have len: "length (concat (map (\<lambda>y. map (f y) [0..<w]) [0..<h])) = h * w"
    by (simp add: length_concat comp_def sum_list_triv)
  show ?case
  proof (cases "r < h")
    case True
    then have "Suc r * w \<le> h * w" by (intro mult_le_mono1) simp
    then have "r * w + s < h * w" using Suc.prems(2) by simp
    then show ?thesis using Suc True len by (simp add: nth_append)
  next
    case False
    then have "r = h" using Suc.prems(1) by simp
    then show ?thesis using Suc.prems(2) len by (simp add: nth_append)
  qed
qed simp

lemma host_reads:
  assumes "r < unat (height d)" and "s < unat (width d)"
  shows "co5300ReadPixels d ! (r * unat (width d) + s) =
    dimmed (panelLevel d) (gram d ((r + unat (yOffset d)) * GramWidth + (s + unat (xOffset d))))"
  using nth_concat_rows [OF assms, of "\<lambda>y x. dimmed (panelLevel d) (gram d ((y + unat (yOffset d)) * GramWidth + unat (xOffset d) + x))"]
  by (simp add: co5300ReadPixels_def Let_def add.assoc add.commute [of s])

section \<open>Drawing\<close>

definition drawWindow :: "int \<Rightarrow> int \<Rightarrow> int \<Rightarrow> u16 \<Rightarrow> u16 \<Rightarrow> u16 \<Rightarrow> u16 \<Rightarrow> u16 list \<Rightarrow> co5300 \<Rightarrow> co5300" where
  "drawWindow t1 t2 t3 a b c e pixels d =
     panelMessage t3 (2 # 0 # MemoryWrite # 0 # pixelBytes pixels)
       (panelMessage t2 (addressMessage RowAddressSet c e) (panelMessage t1 (addressMessage ColumnAddressSet a b) d))"

lemma drawWindow_state:
  assumes ready: "panelReady t1 d" "panel_header d = []" and window: "a \<le> b" "unat b < GramWidth" "c \<le> e" "unat e < GramHeight"
    and len: "length pixels = (unat b - unat a + 1) * (unat e - unat c + 1)"
  obtains w hi where "drawWindow t1 t2 t3 a b c e pixels d = (afterPixels w pixels (length pixels) hi)\<lparr>panel_header := []\<rparr>"
    "windowOk w" "length pixels = windowWidth w * windowHeight w"
    "w = d\<lparr>x0 := a, x1 := b, y0 := c, y1 := e, readyAtNs := 0, panel_header := [2, 0, MemoryWrite, 0],
       panel_command := MemoryWrite, params := [], halfPixel := False\<rparr>"
proof -
  define d1 where "d1 = panelMessage t1 (addressMessage ColumnAddressSet a b) d"
  define d2 where "d2 = panelMessage t2 (addressMessage RowAddressSet c e) d1"
  have e1: "d1 = d\<lparr>x0 := a, x1 := b, readyAtNs := 0, panel_command := ColumnAddressSet,
      params := [high a, low a, high b, low b], halfPixel := False\<rparr>"
    unfolding d1_def using address_sent [OF ready, of ColumnAddressSet a b] by simp
  then have r1: "panelReady t2 d1" "panel_header d1 = []" using ready by (simp_all add: panelReady_def)
  have e2: "d2 = d1\<lparr>y0 := c, y1 := e, readyAtNs := 0, panel_command := RowAddressSet,
      params := [high c, low c, high e, low e], halfPixel := False\<rparr>"
    unfolding d2_def using address_sent [OF r1, of RowAddressSet c e] by (simp add: RowAddressSet_def ColumnAddressSet_def)
  then have r2: "panelReady t3 d2" "panel_header d2 = []" using r1 by (simp_all add: panelReady_def)
  define w where "w = d\<lparr>x0 := a, x1 := b, y0 := c, y1 := e, readyAtNs := 0, panel_header := [2, 0, MemoryWrite, 0],
       panel_command := MemoryWrite, params := [], halfPixel := False\<rparr>"
  have w: "windowOk w" "length pixels = windowWidth w * windowHeight w"
    using window len by (simp_all add: windowOk_def windowWidth_def windowHeight_def w_def)
  define s where "s = commandStarted 2 0 MemoryWrite 0 d2"
  have "windowOk s" using w(1) by (simp add: s_def commandStarted_def e2 e1 w_def windowOk_def)
  moreover have "s\<lparr>panel_command := MemoryWrite, params := []\<rparr> = w"
    by (intro co5300.equality) (simp_all add: s_def commandStarted_def e2 e1 w_def)
  ultimately have start: "panelCommand t3 MemoryWrite s = afterPixels w pixels 0 (pixelHi s)"
    using window_started [of s t3 pixels] by simp
  have cmd: "panel_command w = MemoryWrite" by (simp add: w_def)
  obtain hi where hi: "fold panelData (pixelBytes pixels) (afterPixels w pixels 0 (pixelHi s)) = afterPixels w pixels (length pixels) hi"
    using pixels_written [OF w(1) cmd, of 0 pixels pixels "pixelHi s"] w(2) by auto
  have "drawWindow t1 t2 t3 a b c e pixels d = (fold panelData (pixelBytes pixels) (panelCommand t3 MemoryWrite s))\<lparr>panel_header := []\<rparr>"
    unfolding drawWindow_def d1_def [symmetric] d2_def [symmetric] s_def
    by (rule panelMessage_command [OF r2]) (simp_all add: panel_commands)
  then have "drawWindow t1 t2 t3 a b c e pixels d = (afterPixels w pixels (length pixels) hi)\<lparr>panel_header := []\<rparr>"
    unfolding start hi .
  then show thesis using w w_def by (rule that)
qed

text \<open>A window drawn by its three messages (columns, rows, pixels) is what the host sees: a point of
  the viewport inside the window shows its pixel at the current brightness, every other point is as
  before, a window that meets the viewport is counted once, and the update counter has moved by the
  number of pixels.\<close>

lemma drawn_window_is_shown:
  assumes "panelReady t1 d" and "panel_header d = []" and "a \<le> b" and "unat b < GramWidth" and "c \<le> e" and "unat e < GramHeight"
    and "length pixels = (unat b - unat a + 1) * (unat e - unat c + 1)"
    and "viewportFits (width d) (height d) (xOffset d) (yOffset d)" and "r < unat (height d)" and "s < unat (width d)"
  shows "co5300ReadPixels (drawWindow t1 t2 t3 a b c e pixels d) ! (r * unat (width d) + s) =
      (if inWindow a b c e (s + unat (xOffset d)) (r + unat (yOffset d))
       then dimmed (panelLevel d)
         (pixels ! ((r + unat (yOffset d) - unat c) * (unat b - unat a + 1) + (s + unat (xOffset d) - unat a)))
       else co5300ReadPixels d ! (r * unat (width d) + s)) \<and>
    updates (drawWindow t1 t2 t3 a b c e pixels d) = updates d + of_nat (length pixels) \<and>
    completedWindows (drawWindow t1 t2 t3 a b c e pixels d) =
      completedWindows d + (if \<exists>x < unat (width d). \<exists>y < unat (height d).
        inWindow a b c e (x + unat (xOffset d)) (y + unat (yOffset d)) then 1 else 0)"
proof -
  obtain w hi where draw: "drawWindow t1 t2 t3 a b c e pixels d = (afterPixels w pixels (length pixels) hi)\<lparr>panel_header := []\<rparr>"
    and w: "windowOk w" "length pixels = windowWidth w * windowHeight w"
    and weq: "w = d\<lparr>x0 := a, x1 := b, y0 := c, y1 := e, readyAtNs := 0, panel_header := [2, 0, MemoryWrite, 0],
       panel_command := MemoryWrite, params := [], halfPixel := False\<rparr>"
    using drawWindow_state [OF assms(1-7)] by blast
  let ?e = "drawWindow t1 t2 t3 a b c e pixels d"
  have fields: "width ?e = width d" "height ?e = height d" "xOffset ?e = xOffset d" "yOffset ?e = yOffset d"
      "panelLevel ?e = panelLevel d" "gram ?e = pixelsWritten w pixels (windowWidth w * windowHeight w)"
    using w(2) unfolding draw by (simp_all add: afterPixels_def weq panelLevel_def panelVisible_def)
  have wf: "x0 w = a" "x1 w = b" "y0 w = c" "y1 w = e" "gram w = gram d" "windowWidth w = unat b - unat a + 1"
    by (simp_all add: weq windowWidth_def)
  have "s + unat (xOffset d) < GramWidth" using assms(8,10) by (simp add: viewportFits_def)
  note mem = window_memory [OF w(1) this, of pixels "r + unat (yOffset d)"]
  have "co5300ReadPixels ?e ! (r * unat (width d) + s) =
      dimmed (panelLevel d) (gram ?e ((r + unat (yOffset d)) * GramWidth + (s + unat (xOffset d))))"
    using host_reads [of r ?e s] assms(9,10) fields(1-5) by simp
  then have "co5300ReadPixels ?e ! (r * unat (width d) + s) =
      (if inWindow a b c e (s + unat (xOffset d)) (r + unat (yOffset d))
       then dimmed (panelLevel d)
         (pixels ! ((r + unat (yOffset d) - unat c) * (unat b - unat a + 1) + (s + unat (xOffset d) - unat a)))
       else co5300ReadPixels d ! (r * unat (width d) + s))"
    using mem wf host_reads [OF assms(9,10)] unfolding fields(6) by simp
  moreover have "updates ?e = updates d + of_nat (length pixels)"
    unfolding draw by (simp add: afterPixels_def weq)
  moreover have "windowVisible w = (\<exists>x < unat (width d). \<exists>y < unat (height d).
        inWindow a b c e (x + unat (xOffset d)) (y + unat (yOffset d)))"
  proof
    assume "windowVisible w"
    then have v: "unat a < unat (xOffset d) + unat (width d)" "unat (xOffset d) \<le> unat b"
        "unat c < unat (yOffset d) + unat (height d)" "unat (yOffset d) \<le> unat e"
      by (simp_all add: windowVisible_def weq word_le_nat_alt)
    let ?x = "max (unat a) (unat (xOffset d)) - unat (xOffset d)" and ?y = "max (unat c) (unat (yOffset d)) - unat (yOffset d)"
    have "?x < unat (width d)" "?y < unat (height d)" "inWindow a b c e (?x + unat (xOffset d)) (?y + unat (yOffset d))"
      using v assms(3,5,9,10) by (auto simp: inWindow_def word_le_nat_alt max_def)
    then show "\<exists>x < unat (width d). \<exists>y < unat (height d). inWindow a b c e (x + unat (xOffset d)) (y + unat (yOffset d))"
      by blast
  next
    assume "\<exists>x < unat (width d). \<exists>y < unat (height d). inWindow a b c e (x + unat (xOffset d)) (y + unat (yOffset d))"
    then show "windowVisible w"
      using assms(3-6) by (auto simp: windowVisible_def weq inWindow_def word_le_nat_alt)
  qed
  then have "completedWindows ?e = completedWindows d + (if \<exists>x < unat (width d). \<exists>y < unat (height d).
        inWindow a b c e (x + unat (xOffset d)) (y + unat (yOffset d)) then 1 else 0)"
    using w(2) unfolding draw by (simp add: afterPixels_def weq)
  ultimately show ?thesis by blast
qed

lemma power_on:
  assumes "\<not> panel_powered d"
  shows "panel_powered (panel_powerInput now 1 d)" "resetAsserted (panel_powerInput now 1 d) = resetAsserted d"
    "readyAtNs (panel_powerInput now 1 d) = now + PowerOnDelayNs" "panel_header (panel_powerInput now 1 d) = []"
    "width (panel_powerInput now 1 d) = width d" "height (panel_powerInput now 1 d) = height d"
    "xOffset (panel_powerInput now 1 d) = xOffset d" "yOffset (panel_powerInput now 1 d) = yOffset d"
    "completedWindows (panel_powerInput now 1 d) = completedWindows d"
  using assms by (simp_all add: panel_powerInput_def panel_resetRegisters_def scheduleRefresh_def panelActive_def Let_def)

lemma reset_released:
  "panel_resetInput now 1 d = d \<or> (\<exists>u v. panel_resetInput now 1 d = d\<lparr>resetAsserted := False, readyAtNs := u, sleepOutAtNs := v\<rparr>
     \<and> u = max (readyAtNs d) (now + ResetRecoveryNs))"
  by (auto simp: panel_resetInput_def Let_def)

lemma fresh_panel_ready:
  assumes "co5300_realize 0 w h xo yo = Some p"
  shows "panelReady 10000000 (panel_resetInput 0 1 (panel_powerInput 0 1 p))"
    and "panel_header (panel_resetInput 0 1 (panel_powerInput 0 1 p)) = []"
    and "width (panel_resetInput 0 1 (panel_powerInput 0 1 p)) = w" "height (panel_resetInput 0 1 (panel_powerInput 0 1 p)) = h"
    and "xOffset (panel_resetInput 0 1 (panel_powerInput 0 1 p)) = xo" "yOffset (panel_resetInput 0 1 (panel_powerInput 0 1 p)) = yo"
    and "completedWindows (panel_resetInput 0 1 (panel_powerInput 0 1 p)) = 0"
proof -
  have p: "\<not> panel_powered p" "resetAsserted p" "width p = w" "height p = h" "xOffset p = xo" "yOffset p = yo" "completedWindows p = 0"
    using assms by (auto simp: co5300_realize_def co5300_init_def panel_resetRegisters_def scheduleRefresh_def
        panelActive_def split: if_splits)
  define q where "q = panel_powerInput 0 1 p"
  note q = power_on [OF p(1), of 0, folded q_def]
  have "panel_resetInput 0 1 q \<noteq> q"
  proof
    assume "panel_resetInput 0 1 q = q"
    moreover have "\<not> resetAsserted (panel_resetInput 0 1 q)" by (simp add: panel_resetInput_def Let_def)
    ultimately show False using q(2) p(2) by simp
  qed
  then obtain u v where r: "panel_resetInput 0 1 q = q\<lparr>resetAsserted := False, readyAtNs := u, sleepOutAtNs := v\<rparr>"
      "u = max (readyAtNs q) (0 + ResetRecoveryNs)"
    using reset_released [of 0 q] by blast
  have "u = 10000000" using r(2) q(3) by (simp add: PowerOnDelayNs_def ResetRecoveryNs_def)
  then show "panelReady 10000000 (panel_resetInput 0 1 (panel_powerInput 0 1 p))"
    "panel_header (panel_resetInput 0 1 (panel_powerInput 0 1 p)) = []"
    "width (panel_resetInput 0 1 (panel_powerInput 0 1 p)) = w" "height (panel_resetInput 0 1 (panel_powerInput 0 1 p)) = h"
    "xOffset (panel_resetInput 0 1 (panel_powerInput 0 1 p)) = xo" "yOffset (panel_resetInput 0 1 (panel_powerInput 0 1 p)) = yo"
    "completedWindows (panel_resetInput 0 1 (panel_powerInput 0 1 p)) = 0"
    unfolding q_def [symmetric] r(1) using q p by (simp_all add: panelReady_def)
qed

end
