(* ===== verification/PanelRefresh.thy ===== *)
theory PanelRefresh
  imports PanelWindow
begin

text \<open>
  The panel as a state machine: the refresh timer runs exactly while the panel is powered, out of reset
  and awake, and each expiry keeps the 60 Hz grid and counts a refresh when a window was completed.
\<close>

definition panel_inv :: "co5300 \<Rightarrow> bool" where
  "panel_inv d \<longleftrightarrow> refreshTimer d = (if panelActive d then Some (nextTeNs d) else None) \<and>
     (\<not> panel_powered d \<or> resetAsserted d \<longrightarrow> sleeping d) \<and>
     viewportFits (width d) (height d) (xOffset d) (yOffset d) \<and> length (panel_header d) \<le> 4 \<and> length (params d) \<le> 4"

inductive panel_step :: "co5300 \<Rightarrow> co5300 \<Rightarrow> bool" where
  panel_step_power: "panel_step d (panel_powerInput now level d)"
| panel_step_reset: "panel_step d (panel_resetInput now level d)"
| panel_step_select: "panel_step d (panel_selectChanged level d)"
| panel_step_transfer: "panel_step d (panel_transfer now v d)"
| panel_step_timer: "refreshTimer d = Some t \<Longrightarrow> t \<le> now \<Longrightarrow> panel_step d (panel_refresh now d)"
| panel_step_host: "panel_step d (co5300SetBrightnessSimulation enabled d)"

lemma scheduleRefresh_frame [simp]:
  "panelActive (scheduleRefresh now d) = panelActive d" "panel_powered (scheduleRefresh now d) = panel_powered d"
  "resetAsserted (scheduleRefresh now d) = resetAsserted d" "sleeping (scheduleRefresh now d) = sleeping d"
  "width (scheduleRefresh now d) = width d" "height (scheduleRefresh now d) = height d"
  "xOffset (scheduleRefresh now d) = xOffset d" "yOffset (scheduleRefresh now d) = yOffset d"
  "panel_header (scheduleRefresh now d) = panel_header d" "params (scheduleRefresh now d) = params d"
  by (simp_all add: scheduleRefresh_def panelActive_def Let_def)

text \<open>What scheduling restores, whatever the timer did before.\<close>

lemma scheduleRefresh_inv:
  assumes "refreshTimer d = None \<or> refreshTimer d = Some (nextTeNs d)"
    and "\<not> panel_powered d \<or> resetAsserted d \<longrightarrow> sleeping d"
    and "viewportFits (width d) (height d) (xOffset d) (yOffset d)" and "length (panel_header d) \<le> 4" and "length (params d) \<le> 4"
  shows "panel_inv (scheduleRefresh now d)"
  using assms by (simp add: panel_inv_def) (auto simp: scheduleRefresh_def Let_def)

lemma panel_invD:
  assumes "panel_inv d"
  shows "refreshTimer d = None \<or> refreshTimer d = Some (nextTeNs d)" "\<not> panel_powered d \<or> resetAsserted d \<longrightarrow> sleeping d"
    "viewportFits (width d) (height d) (xOffset d) (yOffset d)" "length (panel_header d) \<le> 4" "length (params d) \<le> 4"
  using assms by (auto simp: panel_inv_def)

lemma panel_resetRegisters_inv:
  assumes "refreshTimer d = None \<or> refreshTimer d = Some (nextTeNs d)" "viewportFits (width d) (height d) (xOffset d) (yOffset d)"
  shows "panel_inv (panel_resetRegisters now d)"
  unfolding panel_resetRegisters_def by (rule scheduleRefresh_inv) (use assms in simp_all)

lemma panel_inv_cong:
  assumes "panel_inv d" and "refreshTimer e = refreshTimer d" "nextTeNs e = nextTeNs d" "panel_powered e = panel_powered d"
    "resetAsserted e = resetAsserted d" "sleeping e = sleeping d" "width e = width d" "height e = height d"
    "xOffset e = xOffset d" "yOffset e = yOffset d" and "length (panel_header e) \<le> 4" "length (params e) \<le> 4"
  shows "panel_inv e"
  using assms by (simp add: panel_inv_def panelActive_def)

lemma panel_powerInput_inv: "panel_inv d \<Longrightarrow> panel_inv (panel_powerInput now level d)"
proof -
  assume inv: "panel_inv d"
  have "panel_inv (e\<lparr>resetWhileAwake := b, readyAtNs := u, sleepOutAtNs := v\<rparr>)" if "panel_inv e" for e b u v
    using that panel_invD [OF that] by (intro panel_inv_cong [OF that]) simp_all
  then show ?thesis
    unfolding panel_powerInput_def Let_def using inv panel_invD [OF inv]
    by (simp add: panel_resetRegisters_inv)
qed

lemma panel_resetInput_inv: "panel_inv d \<Longrightarrow> panel_inv (panel_resetInput now level d)"
proof -
  assume inv: "panel_inv d"
  show ?thesis
  proof (cases "resetAsserted d = (level = 0) \<or> level = 0")
    case True
    then show ?thesis
      using inv panel_invD [OF inv] by (auto simp: panel_resetInput_def Let_def panel_resetRegisters_inv)
  next
    case False
    then have "sleeping d" using inv by (simp add: panel_inv_def)
    then show ?thesis using inv False by (simp add: panel_resetInput_def Let_def panel_inv_def panelActive_def)
  qed
qed

lemma panelCommand_inv:
  assumes "panel_inv d" and "panel_powered d" "\<not> resetAsserted d"
  shows "panel_inv (panelCommand now c d)"
proof -
  note i = panel_invD [OF assms(1)]
  define e where "e = (let d = d\<lparr>panel_command := c, params := [], halfPixel := False\<rparr>;
            d = (if c = MemoryWrite then d\<lparr>cursorX := x0 d, cursorY := y0 d\<rparr> else d) in
            if c = DisplayOff \<or> c = DisplayOn then d\<lparr>displayOn := (c = DisplayOn), updates := updates d + 1\<rparr> else d)"
  have e: "panel_inv e" "panel_powered e" "\<not> resetAsserted e"
    using assms i by (auto intro!: panel_inv_cong [OF assms(1)] simp: e_def Let_def)
  have te: "panel_inv (f\<lparr>teEnabled := v\<rparr>)" if "panel_inv f" for f v
    using that panel_invD [OF that] by (intro panel_inv_cong [OF that]) simp_all
  define f where "f = (if c = SleepIn \<or> c = SleepOut
     then scheduleRefresh now (e\<lparr>sleeping := (c = SleepIn), updates := updates e + 1\<rparr>) else e)"
  have f: "panel_inv f"
    unfolding f_def using e panel_invD [OF e(1)] by (auto intro!: scheduleRefresh_inv)
  have "panelCommand now c d = (if c = SoftwareReset then
        panel_resetRegisters now (d\<lparr>readyAtNs := now + ResetRecoveryNs,
          sleepOutAtNs := now + (if sleeping d then ResetRecoveryNs else SleepOutRecoveryNs)\<rparr>)
      else if c = SleepOut \<and> now < sleepOutAtNs e then e
      else if c = TearingOff \<or> c = TearingOn then f\<lparr>teEnabled := (c = TearingOn)\<rparr> else f)"
    unfolding panelCommand_def f_def e_def Let_def by simp
  then show ?thesis using e f te i by (simp add: panel_resetRegisters_inv)
qed

lemma panelData_inv: "panel_inv d \<Longrightarrow> panel_inv (panelData v d)"
  by (frule panel_invD(4), frule panel_invD(5), erule panel_inv_cong)
    (simp_all add: panelData_def addressParameter_def pixelByte_def advanceCursor_def Let_def)

lemma panel_transfer_inv:
  assumes "panel_inv d"
  shows "panel_inv (panel_transfer now v d)"
proof -
  note i = panel_invD [OF assms]
  have r: "panel_inv (d\<lparr>readyAtNs := 0\<rparr>)" using i by (intro panel_inv_cong [OF assms]) simp_all
  have h: "panel_inv (d\<lparr>readyAtNs := 0, panel_header := panel_header d @ [b]\<rparr>)" if "length (panel_header d) < 4" for b
    using i that by (intro panel_inv_cong [OF assms]) simp_all
  then show ?thesis
    using assms panelData_inv [OF r] by (auto simp: panel_transfer_def Let_def intro!: panelCommand_inv)
qed

lemma panel_refresh_inv:
  assumes "panel_inv d" and "refreshTimer d = Some t"
  shows "panel_inv (panel_refresh now d)"
  using assms by (simp add: panel_refresh_def Let_def panel_inv_def panelActive_def split: if_splits)

lemma co5300_realize_inv: "co5300_realize now w h xo yo = Some d \<Longrightarrow> panel_inv d"
  by (auto simp: co5300_realize_def co5300_init_def panel_resetRegisters_def scheduleRefresh_def panelActive_def
      panel_inv_def split: if_splits)

definition panel_starts :: "co5300 \<Rightarrow> bool" where
  "panel_starts d \<longleftrightarrow> (\<exists>now w h xo yo. co5300_realize now w h xo yo = Some d)"

interpretation panel_machine: state_machine panel_starts panel_step panel_inv
proof
  show "panel_inv d" if "panel_starts d" for d using that co5300_realize_inv by (auto simp: panel_starts_def)
  fix d e assume inv: "panel_inv d" and step: "panel_step d e"
  from step show "panel_inv e"
  proof cases
    case (panel_step_select level)
    then show ?thesis using inv panel_invD [OF inv] by (auto intro: panel_inv_cong [OF inv] simp: panel_selectChanged_def)
  next
    case (panel_step_host enabled)
    then show ?thesis using inv panel_invD [OF inv]
      by (auto intro: panel_inv_cong [OF inv] simp: co5300SetBrightnessSimulation_def)
  qed (use inv panel_powerInput_inv panel_resetInput_inv panel_transfer_inv panel_refresh_inv in auto)
qed

text \<open>C35: the refresh timer is armed exactly while the panel is powered, out of reset and awake. When it
  expires, however late, the next expiry is on the same grid of periods and at most one period ahead,
  the tearing line is pulsed exactly if the guest enabled it, and the refresh is counted as active
  exactly if a window was completed since the last one.\<close>

theorem panel_refreshes_on_grid:
  assumes "reachable panel_starts panel_step d"
  shows "(panelActive d \<longleftrightarrow> refreshTimer d \<noteq> None) \<and>
    (refreshTimer d = Some t \<and> t \<le> now \<longrightarrow>
      (\<exists>t'. refreshTimer (panel_refresh now d) = Some t' \<and> now < t' \<and> t' \<le> now + TeIntervalNs \<and> TeIntervalNs dvd (t' - t)) \<and>
      te_log (panel_refresh now d) = te_log d @ (if teEnabled d then [True, False] else []) \<and>
      activeRefreshes (panel_refresh now d) =
        activeRefreshes d + (if completedWindows d \<noteq> previousWindows d then 1 else 0) \<and>
      previousWindows (panel_refresh now d) = completedWindows d)"
proof -
  have inv: "panel_inv d" using panel_machine.reachable_inv [OF assms] .
  have timer: "nextTeNs d = t" if "refreshTimer d = Some t"
    using that inv by (simp add: panel_inv_def split: if_splits)
  have "refreshTimer (panel_refresh now d) = Some (t + ((now - t) div TeIntervalNs + 1) * TeIntervalNs)"
    if "refreshTimer d = Some t"
    using timer [OF that] by (simp add: panel_refresh_def Let_def)
  moreover have "now < t + ((now - t) div TeIntervalNs + 1) * TeIntervalNs"
      "t + ((now - t) div TeIntervalNs + 1) * TeIntervalNs \<le> now + TeIntervalNs"
    using minus_mod_eq_div_mult [of "now - t" TeIntervalNs] pos_mod_bound [of TeIntervalNs "now - t"]
      pos_mod_sign [of TeIntervalNs "now - t"]
    by (simp_all add: TeIntervalNs_def algebra_simps)
  moreover have "panelActive d \<longleftrightarrow> refreshTimer d \<noteq> None" using inv by (simp add: panel_inv_def)
  ultimately show ?thesis by (auto simp: panel_refresh_def Let_def)
qed

definition awakePanel :: co5300 where
  "awakePanel = fold (\<lambda>b. panel_transfer 10000000 (ucast b)) [2, 0, SleepOut, 0]
     (panel_resetInput 0 1 (panel_powerInput 0 1 (the (co5300_realize 0 480 480 0 0))))"

lemma awakePanel_reachable: "reachable panel_starts panel_step awakePanel"
proof -
  have "co5300_realize 0 480 480 0 0 = Some (the (co5300_realize 0 480 480 0 0))"
    by (simp add: co5300_realize_def viewportFits_def GramWidth_def GramHeight_def)
  then have "reachable panel_starts panel_step (the (co5300_realize 0 480 480 0 0))"
    unfolding panel_starts_def by (intro reach_init exI)
  then have "reachable panel_starts panel_step (panel_resetInput 0 1 (panel_powerInput 0 1 (the (co5300_realize 0 480 480 0 0))))"
    by (blast intro: reach_step panel_step_power panel_step_reset)
  moreover have "reachable panel_starts panel_step d \<Longrightarrow>
      reachable panel_starts panel_step (fold (\<lambda>b. panel_transfer now (ucast b)) bs d)" for now bs d
    by (induction bs arbitrary: d) (auto intro: reach_step panel_step_transfer)
  ultimately show ?thesis unfolding awakePanel_def by blast
qed

lemma awakePanel_active: "panelActive awakePanel"
proof -
  define q where "q = panel_resetInput 0 1 (panel_powerInput 0 1 (the (co5300_realize 0 480 480 0 0)))"
  have "co5300_realize 0 480 480 0 0 = Some (the (co5300_realize 0 480 480 0 0))"
    by (simp add: co5300_realize_def viewportFits_def GramWidth_def GramHeight_def)
  note q = fresh_panel_ready(1,2) [OF this, folded q_def]
  have out: "sleepOutAtNs q \<le> 10000000"
    unfolding q_def panel_resetInput_def panel_powerInput_def Let_def
    by (simp add: panel_resetRegisters_def scheduleRefresh_def panelActive_def co5300_realize_def co5300_init_def
        viewportFits_def GramWidth_def GramHeight_def ResetRecoveryNs_def PowerOnDelayNs_def)
  have eq: "awakePanel = panelCommand 10000000 SleepOut (commandStarted 2 0 SleepOut 0 q)"
    unfolding awakePanel_def q_def [symmetric] by (rule header_sent [OF q])
  show ?thesis
    unfolding eq using q(1) out
    by (simp add: panelCommand_def commandStarted_def panelReady_def panel_commands Let_def panelActive_def)
qed

theorem panel_refreshes_on_grid_witness:
  "\<exists>t. refreshTimer awakePanel = Some t \<and> (\<exists>t'. refreshTimer (panel_refresh (t + 30000000) awakePanel) = Some t' \<and> t + 30000000 < t')"
proof -
  obtain t where "refreshTimer awakePanel = Some t"
    using panel_refreshes_on_grid [OF awakePanel_reachable] awakePanel_active by blast
  moreover have "t \<le> t + 30000000" by simp
  ultimately show ?thesis using panel_refreshes_on_grid [OF awakePanel_reachable, of t "t + 30000000"] by blast
qed

end
