(* ===== verification/SpiMaster.thy ===== *)
theory SpiMaster
  imports BleBytes
begin

text \<open>
  The SPI master of the chip, \<open>qemu/esp32s3/esp32s3_spi.c\<close>: register accesses, transactions of command,
  address and data phases, chip-select outputs, and data fetched through the GDMA unit of QEMU. The
  QEMU side is a parameter: \<open>spi_bus\<close> holds the effects of \<open>ssi_transfer\<close> (whose result the code drops)
  and of \<open>qemu_set_irq\<close> on a select line, \<open>dma_unit\<close> the reads and writes of the DMA address space and
  the mask of the write-back bit. The fields of the GDMA channels are those the code uses.
\<close>

unbundle bit_operations_syntax

section \<open>Registers\<close>

definition SpiCmd :: nat where "SpiCmd = 0x00"
definition SpiAddr :: nat where "SpiAddr = 0x04"
definition SpiUser :: nat where "SpiUser = 0x10"
definition SpiUser1 :: nat where "SpiUser1 = 0x14"
definition SpiUser2 :: nat where "SpiUser2 = 0x18"
definition SpiDlen :: nat where "SpiDlen = 0x1C"
definition SpiMisc :: nat where "SpiMisc = 0x20"
definition SpiDma :: nat where "SpiDma = 0x30"
definition SpiEna :: nat where "SpiEna = 0x34"
definition SpiClr :: nat where "SpiClr = 0x38"
definition SpiRaw :: nat where "SpiRaw = 0x3C"
definition SpiSt :: nat where "SpiSt = 0x40"
definition SpiSet :: nat where "SpiSet = 0x44"
definition SpiW0 :: nat where "SpiW0 = 0x98"
definition SpiFifoCapacity :: nat where "SpiFifoCapacity = 64"
definition SpiCsCount :: nat where "SpiCsCount = 6"

definition CmdUpdate :: u32 where "CmdUpdate = 0x800000"
definition CmdUsr :: u32 where "CmdUsr = 0x1000000"
definition UserMosiHighPart :: u32 where "UserMosiHighPart = 0x2000000"
definition UserMosi :: u32 where "UserMosi = 0x8000000"
definition UserAddress :: u32 where "UserAddress = 0x40000000"
definition UserCommand :: u32 where "UserCommand = 0x80000000"
definition DmaTxEnable :: u32 where "DmaTxEnable = 0x10000000"
definition CsKeepActive :: u32 where "CsKeepActive = 0x40000000"
definition TransDone :: u32 where "TransDone = 0x1000"

lemmas spi_registers = SpiCmd_def SpiAddr_def SpiUser_def SpiUser1_def SpiUser2_def SpiDlen_def SpiMisc_def
  SpiDma_def SpiEna_def SpiClr_def SpiRaw_def SpiSt_def SpiSet_def SpiW0_def

section \<open>The outside\<close>

record 'b spi_bus =
  ssi_transfer :: "u32 \<Rightarrow> 'b \<Rightarrow> 'b"
  cs_line :: "nat \<Rightarrow> bool \<Rightarrow> 'b \<Rightarrow> 'b"

record 'm dma_unit =
  mem_read :: "u32 \<Rightarrow> nat \<Rightarrow> 'm \<Rightarrow> bytes option"
  mem_write :: "u32 \<Rightarrow> bytes \<Rightarrow> 'm \<Rightarrow> 'm option"
  auto_wrback_mask :: u32

record dma_channel =
  dma_peripheral :: u32
  dma_link :: u32
  dma_conf0 :: u32
  dma_conf1 :: u32
  bfr_bfr_desc_addr :: u32
  bfr_desc_addr :: u32
  desc_addr :: u32
  dma_state :: u32
  suc_eof_desc_addr :: u32
  int_raw :: u32
  int_ena :: u32
  int_st :: u32
  int_irq :: bool

section \<open>State\<close>

record ('b, 'm) spi_master =
  spi_regs :: "u32 list"
  spi_irq :: bool
  gdma :: "dma_channel list option"
  dmaPeripheral :: u32
  dmaChannel :: u32
  dmaDescriptor :: u32
  dmaOffset :: u32
  ssi :: 'b
  memory :: 'm

definition spiReg :: "nat \<Rightarrow> ('b, 'm) spi_master \<Rightarrow> u32" where
  "spiReg address s = spi_regs s ! (address div 4)"

definition setSpiReg :: "nat \<Rightarrow> u32 \<Rightarrow> ('b, 'm) spi_master \<Rightarrow> ('b, 'm) spi_master" where
  "setSpiReg address v s = s\<lparr>spi_regs := (spi_regs s)[address div 4 := v]\<rparr>"

definition spiInterrupt :: "('b, 'm) spi_master \<Rightarrow> ('b, 'm) spi_master" where
  "spiInterrupt s = s\<lparr>spi_irq := (spiReg SpiRaw s AND spiReg SpiEna s \<noteq> 0)\<rparr>"

section \<open>DMA\<close>

definition dmaChannels :: "('b, 'm) spi_master \<Rightarrow> dma_channel list" where
  "dmaChannels s = (case gdma s of Some chs \<Rightarrow> chs | None \<Rightarrow> [])"

definition setChannel :: "nat \<Rightarrow> dma_channel \<Rightarrow> ('b, 'm) spi_master \<Rightarrow> ('b, 'm) spi_master" where
  "setChannel i ch s = s\<lparr>gdma := Some ((dmaChannels s)[i := ch])\<rparr>"

text \<open>A channel whose start bit is set becomes the current one; the first current channel is used.\<close>

definition takeStart :: "nat \<Rightarrow> ('b, 'm) spi_master \<Rightarrow> ('b, 'm) spi_master" where
  "takeStart i s =
     (let ch = dmaChannels s ! i in
      if dma_link ch AND 0x200000 \<noteq> 0 then
        setChannel i (ch\<lparr>dma_link := dma_link ch AND NOT 0x200000\<rparr>)
          (s\<lparr>dmaChannel := of_nat i, dmaDescriptor := 0x3FC00000 OR (dma_link ch AND 0xFFFFF), dmaOffset := 0\<rparr>)
      else s)"

fun findChannel :: "nat list \<Rightarrow> ('b, 'm) spi_master \<Rightarrow> nat option \<times> ('b, 'm) spi_master" where
  "findChannel [] s = (None, s)"
| "findChannel (i # is) s =
     (if dma_peripheral (dmaChannels s ! i) \<noteq> dmaPeripheral s then findChannel is s
      else
        let s = takeStart i s in
        if dmaChannel s = of_nat i \<and> dmaDescriptor s \<noteq> 0 then (Some i, s) else findChannel is s)"

text \<open>What the code records when the current descriptor has been sent.\<close>

definition channelDone :: "u32 \<Rightarrow> u32 \<Rightarrow> u32 \<Rightarrow> dma_channel \<Rightarrow> dma_channel" where
  "channelDone flags next_descriptor descriptor ch =
     (let ch = ch\<lparr>bfr_bfr_desc_addr := bfr_desc_addr ch, bfr_desc_addr := descriptor, desc_addr := next_descriptor,
                   dma_state := descriptor AND 0x3FFFF, int_raw := int_raw ch OR 1\<rparr>;
          ch = (if flags AND 0x40000000 \<noteq> 0
                then ch\<lparr>suc_eof_desc_addr := descriptor, int_raw := int_raw ch OR 2\<rparr> else ch) in
      if next_descriptor = 0 then ch\<lparr>int_raw := int_raw ch OR 8, dma_link := dma_link ch OR 0x800000\<rparr> else ch)"

definition descriptorDone :: "nat \<Rightarrow> u32 \<Rightarrow> u32 \<Rightarrow> ('b, 'm) spi_master \<Rightarrow> ('b, 'm) spi_master" where
  "descriptorDone i flags next_descriptor s =
     setChannel i (channelDone flags next_descriptor (dmaDescriptor s) (dmaChannels s ! i))
       (s\<lparr>dmaDescriptor := next_descriptor, dmaOffset := 0\<rparr>)"

definition le32Bytes :: "u32 \<Rightarrow> bytes" where
  "le32Bytes v = map (\<lambda>k. ucast (drop_bit (8 * k) v)) [0..<4]"

text \<open>What follows a chunk: nothing inside a descriptor, else its optional write-back, which may fail,
  and the change to the next descriptor.\<close>

definition chunkSent :: "'m dma_unit \<Rightarrow> nat \<Rightarrow> u32 \<Rightarrow> u32 \<Rightarrow> nat \<Rightarrow> ('b, 'm) spi_master \<Rightarrow> bool \<times> ('b, 'm) spi_master" where
  "chunkSent D i flags next_descriptor len s =
     (if unat (dmaOffset s) \<noteq> len then (True, s)
      else if dma_conf0 (dmaChannels s ! i) AND auto_wrback_mask D \<noteq> 0 then
        (case mem_write D (dmaDescriptor s) (le32Bytes (flags AND NOT 0x80000000)) (memory s) of
           None \<Rightarrow> (False, s)
         | Some m \<Rightarrow> (True, descriptorDone i flags next_descriptor (s\<lparr>memory := m\<rparr>)))
      else (True, descriptorDone i flags next_descriptor s))"

text \<open>One round of the loop: a chunk of the current descriptor, \<open>None\<close> when the transfer fails.\<close>

definition dmaRound :: "'m dma_unit \<Rightarrow> nat \<Rightarrow> nat \<Rightarrow> ('b, 'm) spi_master \<Rightarrow> bytes option \<times> ('b, 'm) spi_master" where
  "dmaRound D i n s =
     (case mem_read D (dmaDescriptor s) 12 (memory s) of
        None \<Rightarrow> (None, s)
      | Some descriptor \<Rightarrow>
          let flags = readLe32 descriptor; len = unat (drop_bit 12 flags AND 0xFFF);
              address = readLe32 (drop 4 descriptor); next_descriptor = readLe32 (drop 8 descriptor);
              ch = dmaChannels s ! i in
          if len \<le> unat (dmaOffset s) \<or> (dma_conf1 ch AND 0x1000 \<noteq> 0 \<and> flags AND 0x80000000 = 0) then (None, s)
          else
            let chunkSize = min n (len - unat (dmaOffset s)) in
            case mem_read D (address + dmaOffset s) chunkSize (memory s) of
              None \<Rightarrow> (None, s)
            | Some chunk \<Rightarrow>
                let (ok, s) = chunkSent D i flags next_descriptor len (s\<lparr>dmaOffset := dmaOffset s + of_nat chunkSize\<rparr>) in
                (if ok then Some chunk else None, s))"

text \<open>The number of bytes a round reads.\<close>

definition chunkOf :: "'m dma_unit \<Rightarrow> nat \<Rightarrow> ('b, 'm) spi_master \<Rightarrow> nat" where
  "chunkOf D n s =
     (case mem_read D (dmaDescriptor s) 12 (memory s) of
        None \<Rightarrow> 0
      | Some descriptor \<Rightarrow> min n (unat (drop_bit 12 (readLe32 descriptor) AND 0xFFF) - unat (dmaOffset s)))"

lemma dmaRound_chunk: "dmaRound D i n s = (Some chunk, t) \<Longrightarrow> 0 < n \<Longrightarrow> 0 < chunkOf D n s"
  by (auto simp: dmaRound_def chunkOf_def Let_def split: option.splits if_splits)

function dmaLoop :: "'m dma_unit \<Rightarrow> nat \<Rightarrow> nat \<Rightarrow> ('b, 'm) spi_master \<Rightarrow> bytes option \<times> ('b, 'm) spi_master" where
  "dmaLoop D i n s =
     (if n = 0 then (Some [], s)
      else case dmaRound D i n s of
        (None, s') \<Rightarrow> (None, s')
      | (Some chunk, s') \<Rightarrow>
          (case dmaLoop D i (n - chunkOf D n s) s' of
             (None, s'') \<Rightarrow> (None, s'')
           | (Some rest, s'') \<Rightarrow> (Some (chunk @ rest), s'')))"
  by pat_completeness auto
termination
  by (relation "measure (\<lambda>(D, i, n, s). n)") (auto dest!: dmaRound_chunk [OF sym])

declare dmaLoop.simps [simp del]

definition spiDmaRead :: "'m dma_unit \<Rightarrow> nat \<Rightarrow> ('b, 'm) spi_master \<Rightarrow> bytes option \<times> ('b, 'm) spi_master" where
  "spiDmaRead D n s =
     (case gdma s of
        None \<Rightarrow> (None, s)
      | Some chs \<Rightarrow>
          (case findChannel [0..<length chs] s of
             (None, s) \<Rightarrow> (None, s)
           | (Some i, s) \<Rightarrow>
               (case dmaLoop D i n s of
                  (None, s) \<Rightarrow> (None, s)
                | (Some buffer, s) \<Rightarrow>
                    let ch = dmaChannels s ! i; st = int_raw ch AND int_ena ch in
                    (Some buffer, setChannel i (ch\<lparr>int_st := st, int_irq := (st \<noteq> 0)\<rparr>) s))))"

section \<open>Transactions\<close>

definition phaseByte :: "u32 \<Rightarrow> nat \<Rightarrow> u32" where
  "phaseByte v sent = drop_bit (24 - sent) v AND 0xFF"

definition sendPhase :: "'b spi_bus \<Rightarrow> u32 \<Rightarrow> nat \<Rightarrow> 'b \<Rightarrow> 'b" where
  "sendPhase B v bits = fold (\<lambda>k. ssi_transfer B (phaseByte v (8 * k))) [0..<(bits + 7) div 8]"

definition spiChipSelect :: "'b spi_bus \<Rightarrow> bool \<Rightarrow> ('b, 'm) spi_master \<Rightarrow> ('b, 'm) spi_master" where
  "spiChipSelect B active s =
     (let misc = spiReg SpiMisc s in
      s\<lparr>ssi := fold (\<lambda>cs.
          let selected = active \<and> misc AND push_bit cs 1 = 0; inverted = (misc AND push_bit (cs + 7) 1 \<noteq> 0) in
          cs_line B cs ((\<not> selected) \<noteq> inverted)) [0..<SpiCsCount] (ssi s)\<rparr>)"

definition commandBits :: "('b, 'm) spi_master \<Rightarrow> nat" where
  "commandBits s = (if spiReg SpiUser s AND UserCommand \<noteq> 0
     then unat (drop_bit 28 (spiReg SpiUser2 s) AND 15) + 1 else 0)"

definition addressBits :: "('b, 'm) spi_master \<Rightarrow> nat" where
  "addressBits s = (if spiReg SpiUser s AND UserAddress \<noteq> 0
     then unat (drop_bit 27 (spiReg SpiUser1 s) AND 31) + 1 else 0)"

definition dataBytes :: "('b, 'm) spi_master \<Rightarrow> nat" where
  "dataBytes s = (if spiReg SpiUser s AND UserMosi \<noteq> 0
     then (unat (spiReg SpiDlen s AND 0x3FFFF) + 8) div 8 else 0)"

definition fifoData :: "('b, 'm) spi_master \<Rightarrow> bytes" where
  "fifoData s =
     (let start = (if spiReg SpiUser s AND UserMosiHighPart \<noteq> 0 then 8 else 0);
          n = min (dataBytes s) (SpiFifoCapacity - start * 4) in
      map (\<lambda>i. ucast (drop_bit (i mod 4 * 8) (spi_regs s ! (SpiW0 div 4 + start + i div 4)))) [0..<n])"

text \<open>The bytes of the data phase: a failed DMA transfer sends none.\<close>

definition mosiData :: "'m dma_unit \<Rightarrow> ('b, 'm) spi_master \<Rightarrow> bytes \<times> ('b, 'm) spi_master" where
  "mosiData D s =
     (if dataBytes s \<noteq> 0 \<and> spiReg SpiDma s AND DmaTxEnable \<noteq> 0 then
        (case spiDmaRead D (dataBytes s) s of
           (Some buffer, s) \<Rightarrow> (buffer, s)
         | (None, s) \<Rightarrow> ([], s))
      else (fifoData s, s))"

definition spiPhases :: "'b spi_bus \<Rightarrow> 'm dma_unit \<Rightarrow> ('b, 'm) spi_master \<Rightarrow> ('b, 'm) spi_master" where
  "spiPhases B D s =
     (if commandBits s mod 8 \<noteq> 0 \<or> addressBits s mod 8 \<noteq> 0 then s
      else
        let cb = commandBits s; ab = addressBits s;
            s = (if cb \<noteq> 0 then s\<lparr>ssi := sendPhase B (push_bit (32 - cb) (spiReg SpiUser2 s)) cb (ssi s)\<rparr> else s);
            s = (if ab \<noteq> 0 then s\<lparr>ssi := sendPhase B (spiReg SpiAddr s) ab (ssi s)\<rparr> else s);
            (buffer, s) = mosiData D s in
        s\<lparr>ssi := fold (\<lambda>b. ssi_transfer B (ucast b)) buffer (ssi s)\<rparr>)"

definition spiTransfer :: "'b spi_bus \<Rightarrow> 'm dma_unit \<Rightarrow> ('b, 'm) spi_master \<Rightarrow> ('b, 'm) spi_master" where
  "spiTransfer B D s =
     (let s = spiPhases B D (spiChipSelect B True s);
          s = spiChipSelect B (spiReg SpiMisc s AND CsKeepActive \<noteq> 0) s;
          s = setSpiReg SpiCmd 0 s;
          s = setSpiReg SpiRaw (spiReg SpiRaw s OR TransDone) s in
      spiInterrupt s)"

section \<open>Register accesses\<close>

definition spiRead :: "nat \<Rightarrow> ('b, 'm) spi_master \<Rightarrow> u32" where
  "spiRead address s = (if address = SpiSt then spiReg SpiRaw s AND spiReg SpiEna s else spiReg address s)"

definition spiWrite :: "'b spi_bus \<Rightarrow> 'm dma_unit \<Rightarrow> nat \<Rightarrow> u32 \<Rightarrow> ('b, 'm) spi_master \<Rightarrow> ('b, 'm) spi_master" where
  "spiWrite B D address v s =
     (let s = (if address = SpiClr then setSpiReg SpiRaw (spiReg SpiRaw s AND NOT v) s
               else if address = SpiSet then setSpiReg SpiRaw (spiReg SpiRaw s OR v) s
               else setSpiReg address v s);
          s = (if address = SpiCmd then
                 let s = setSpiReg SpiCmd (spiReg SpiCmd s AND NOT CmdUpdate) s in
                 if v AND CmdUsr \<noteq> 0 then spiTransfer B D s else s
               else s) in
      spiInterrupt s)"

definition spiReset :: "'b spi_bus \<Rightarrow> ('b, 'm) spi_master \<Rightarrow> ('b, 'm) spi_master" where
  "spiReset B s =
     (let s = setSpiReg SpiMisc 0x3F (s\<lparr>spi_regs := replicate 64 0\<rparr>);
          s = spiChipSelect B False s in
      spiInterrupt (s\<lparr>dmaChannel := -1, dmaDescriptor := 0, dmaOffset := 0\<rparr>))"

text \<open>The object is created with no DMA unit; the two properties are set before the machine starts.\<close>

definition spi_new :: "'b spi_bus \<Rightarrow> dma_channel list option \<Rightarrow> u32 \<Rightarrow> 'b \<Rightarrow> 'm \<Rightarrow> ('b, 'm) spi_master" where
  "spi_new B chs p b m = spiReset B \<lparr>spi_regs = replicate 64 0, spi_irq = False, gdma = chs,
     dmaPeripheral = p, dmaChannel = 0, dmaDescriptor = 0, dmaOffset = 0, ssi = b, memory = m\<rparr>"

end
