(* ===== verification/SpiDma.thy ===== *)
theory SpiDma
  imports SpiMaster
begin

text \<open>
  The data the SPI master fetches through a DMA channel: what the loop over descriptors leaves alone,
  and that the position it keeps between transactions makes consecutive transactions read what one
  longer transaction would have read.
\<close>

unbundle bit_operations_syntax

section \<open>What the loop leaves alone\<close>

lemma dmaChannels_simps [simp]:
  "dmaChannels (s\<lparr>dmaOffset := v\<rparr>) = dmaChannels s" "dmaChannels (s\<lparr>dmaDescriptor := v\<rparr>) = dmaChannels s"
  "dmaChannels (s\<lparr>dmaChannel := v\<rparr>) = dmaChannels s" "dmaChannels (s\<lparr>memory := m\<rparr>) = dmaChannels s"
  "dmaChannels (s\<lparr>ssi := b\<rparr>) = dmaChannels s" "dmaChannels (s\<lparr>spi_regs := r\<rparr>) = dmaChannels s"
  "dmaChannels (s\<lparr>spi_irq := q\<rparr>) = dmaChannels s" "dmaChannels (s\<lparr>gdma := Some chs\<rparr>) = chs"
  "dmaChannels (setChannel i ch s) = (dmaChannels s)[i := ch]"
  by (simp_all add: dmaChannels_def setChannel_def)

text \<open>Channel \<open>i\<close> is being read, with no start request left.\<close>

definition channelKept :: "nat \<Rightarrow> ('b, 'm) spi_master \<Rightarrow> ('b, 'm) spi_master \<Rightarrow> bool" where
  "channelKept i s t \<longleftrightarrow> dmaChannel t = dmaChannel s \<and> dmaPeripheral t = dmaPeripheral s \<and>
     (gdma t = None \<longleftrightarrow> gdma s = None) \<and> length (dmaChannels t) = length (dmaChannels s) \<and>
     (\<forall>j. j \<noteq> i \<longrightarrow> dmaChannels t ! j = dmaChannels s ! j) \<and>
     dma_peripheral (dmaChannels t ! i) = dma_peripheral (dmaChannels s ! i) \<and>
     (dma_link (dmaChannels s ! i) AND 0x200000 = 0 \<longrightarrow> dma_link (dmaChannels t ! i) AND 0x200000 = 0)"

lemma channelKept_refl: "channelKept i s s"
  by (simp add: channelKept_def)

lemma channelKept_trans: "channelKept i s t \<Longrightarrow> channelKept i t u \<Longrightarrow> channelKept i s u"
  by (simp add: channelKept_def)

lemma link_flags: "((x OR 0x800000) AND 0x200000 = 0) = (x AND 0x200000 = (0 :: u32))"
  by (simp add: bit.conj_disj_distrib2)

lemma descriptorDone_kept:
  assumes "gdma s \<noteq> None" and "i < length (dmaChannels s)"
  shows "channelKept i s (descriptorDone i flags nx s)"
  using assms by (simp add: channelKept_def descriptorDone_def channelDone_def Let_def link_flags) (simp add: setChannel_def)

lemma dmaRound_kept:
  assumes "gdma s \<noteq> None" and "i < length (dmaChannels s)" and "dmaRound D i n s = (r, t)"
  shows "channelKept i s t"
proof -
  have d: "channelKept i s (descriptorDone i flags nx (s\<lparr>dmaOffset := u\<rparr>))"
      "channelKept i s (descriptorDone i flags nx (s\<lparr>dmaOffset := u, memory := m\<rparr>))" for flags nx u m
    using descriptorDone_kept [of "s\<lparr>dmaOffset := u\<rparr>" i flags nx] descriptorDone_kept [of "s\<lparr>dmaOffset := u, memory := m\<rparr>" i flags nx]
      assms(1,2) by (auto simp: channelKept_def)
  have o: "channelKept i s (s\<lparr>dmaOffset := u\<rparr>)" for u by (simp add: channelKept_def)
  have "channelKept i s (snd (chunkSent D i flags nx len (s\<lparr>dmaOffset := u\<rparr>)))" for flags nx len u
    using d o by (simp add: chunkSent_def split: option.split)
  then show ?thesis
    using assms(3) channelKept_refl [of i s]
    by (auto simp: dmaRound_def Let_def case_prod_beta split: option.splits if_splits)
qed

lemma dmaLoop_kept:
  assumes "gdma s \<noteq> None" and "i < length (dmaChannels s)" and "dmaLoop D i n s = (r, t)"
  shows "channelKept i s t"
  using assms
proof (induction n arbitrary: s r t rule: less_induct)
  case (less n)
  show ?case
  proof (cases "n = 0")
    case True
    then show ?thesis using less.prems(3) channelKept_refl by (simp add: dmaLoop.simps)
  next
    case False
    obtain q u where round: "dmaRound D i n s = (q, u)" by fastforce
    note kept = dmaRound_kept [OF less.prems(1,2) round]
    have ok: "gdma u \<noteq> None" "i < length (dmaChannels u)" using kept less.prems(1,2) by (simp_all add: channelKept_def)
    show ?thesis
    proof (cases q)
      case None
      then show ?thesis using less.prems(3) False round kept by (simp add: dmaLoop.simps [of D i n])
    next
      case (Some chunk)
      then have small: "n - chunkOf D n s < n" using dmaRound_chunk [of D i n s chunk u] round False by simp
      obtain q' v where rest: "dmaLoop D i (n - chunkOf D n s) u = (q', v)" by fastforce
      have "t = v" using less.prems(3) False round Some rest by (simp add: dmaLoop.simps [of D i n] split: option.splits)
      then show ?thesis using less.IH [OF small ok rest] kept channelKept_trans by blast
    qed
  qed
qed

section \<open>Splitting a transfer\<close>

text \<open>What the code relies on of \<open>address_space_read\<close>: a read of adjacent ranges is their reads in a row.\<close>

definition contiguous :: "'m dma_unit \<Rightarrow> bool" where
  "contiguous D \<longleftrightarrow> (\<forall>p a b m. mem_read D p (a + b) m =
     (case mem_read D p a m of None \<Rightarrow> None
      | Some x \<Rightarrow> map_option (\<lambda>y. x @ y) (mem_read D (p + of_nat a) b m)))"

text \<open>A round in terms of its descriptor.\<close>

definition lengthLeft :: "'m dma_unit \<Rightarrow> ('b, 'm) spi_master \<Rightarrow> nat" where
  "lengthLeft D s = (case mem_read D (dmaDescriptor s) 12 (memory s) of
     None \<Rightarrow> 0 | Some descriptor \<Rightarrow> unat (drop_bit 12 (readLe32 descriptor) AND 0xFFF) - unat (dmaOffset s))"

lemma chunkOf_min: "chunkOf D n s = min n (lengthLeft D s)"
  by (simp add: chunkOf_def lengthLeft_def split: option.splits)

lemma dmaRound_same:
  assumes "lengthLeft D s \<le> a"
  shows "dmaRound D i (a + b) s = dmaRound D i a s"
proof -
  have "min (a + b) (unat (drop_bit 12 (readLe32 d) AND 0xFFF) - unat (dmaOffset s)) =
      min a (unat (drop_bit 12 (readLe32 d) AND 0xFFF) - unat (dmaOffset s))"
    if "mem_read D (dmaDescriptor s) 12 (memory s) = Some d" for d
    using assms that by (simp add: lengthLeft_def)
  then show ?thesis by (simp add: dmaRound_def Let_def split: option.split)
qed

lemma offset_sum:
  assumes "unat (v :: u32) + k \<le> 4095"
  shows "unat (v + of_nat k) = unat v + k"
proof -
  have "unat (of_nat k :: u32) = k" using assms by (simp add: unat_of_nat take_bit_nat_eq_self)
  then show ?thesis using assms by (simp add: unat_add_lem [THEN iffD1])
qed

lemma field12: "unat (drop_bit 12 v AND (0xFFF :: u32)) \<le> 4095"
proof -
  have "drop_bit 12 v AND 0xFFF \<le> (0xFFF :: u32)" by (rule word_and_le1)
  then show ?thesis by (simp add: word_le_nat_alt)
qed

text \<open>A transfer that stops inside a descriptor and goes on reads the same bytes.\<close>

lemma dmaRound_some:
  assumes "mem_read D (dmaDescriptor s) 12 (memory s) = Some d"
  shows "dmaRound D i n s = (Some zs, t) \<longleftrightarrow>
    0 < lengthLeft D s \<and> \<not> (dma_conf1 (dmaChannels s ! i) AND 0x1000 \<noteq> 0 \<and> readLe32 d AND 0x80000000 = 0) \<and>
    mem_read D (readLe32 (drop 4 d) + dmaOffset s) (min n (lengthLeft D s)) (memory s) = Some zs \<and>
    chunkSent D i (readLe32 d) (readLe32 (drop 8 d)) (unat (drop_bit 12 (readLe32 d) AND 0xFFF))
      (s\<lparr>dmaOffset := dmaOffset s + of_nat (min n (lengthLeft D s))\<rparr>) = (True, t)"
proof -
  define len where "len = unat (drop_bit 12 (readLe32 d) AND 0xFFF)"
  have left: "lengthLeft D s = len - unat (dmaOffset s)" by (simp add: lengthLeft_def assms len_def)
  have "(len \<le> unat (dmaOffset s) \<or> c) \<longleftrightarrow> \<not> (0 < len - unat (dmaOffset s) \<and> \<not> c)" for c by auto
  then show ?thesis
    unfolding dmaRound_def assms option.case Let_def left len_def [symmetric]
    by (auto simp: case_prod_beta prod_eq_iff split: option.splits if_splits)
qed

lemma dmaRound_split:
  assumes law: "contiguous D" and a: "0 < a" "a < lengthLeft D s" and b: "0 < b"
    and round: "dmaRound D i (a + b) s = (Some zs, t)"
  obtains xs ys where "dmaRound D i a s = (Some xs, s\<lparr>dmaOffset := dmaOffset s + of_nat a\<rparr>)"
    "dmaRound D i b (s\<lparr>dmaOffset := dmaOffset s + of_nat a\<rparr>) = (Some ys, t)" "zs = xs @ ys"
    "lengthLeft D (s\<lparr>dmaOffset := dmaOffset s + of_nat a\<rparr>) = lengthLeft D s - a"
proof -
  let ?u = "s\<lparr>dmaOffset := dmaOffset s + of_nat a\<rparr>"
  obtain d where d: "mem_read D (dmaDescriptor s) 12 (memory s) = Some d"
    using a(2) by (auto simp: lengthLeft_def split: option.splits)
  then have du: "mem_read D (dmaDescriptor ?u) 12 (memory ?u) = Some d" by simp
  define len where "len = unat (drop_bit 12 (readLe32 d) AND 0xFFF)"
  have left: "lengthLeft D s = len - unat (dmaOffset s)" by (simp add: lengthLeft_def d len_def)
  have "len \<le> 4095" unfolding len_def by (rule field12)
  then have sum: "unat (dmaOffset s + of_nat a) = unat (dmaOffset s) + a"
    using a left by (intro offset_sum) simp
  have left': "lengthLeft D ?u = lengthLeft D s - a"
    using sum left by (simp add: lengthLeft_def d len_def [symmetric])
  have split: "min (a + b) (lengthLeft D s) = a + min b (lengthLeft D ?u)" using a left' by simp
  note r = round [unfolded dmaRound_some [OF d] len_def [symmetric]]
  obtain xs ys where x: "mem_read D (readLe32 (drop 4 d) + dmaOffset s) a (memory s) = Some xs"
      "mem_read D (readLe32 (drop 4 d) + (dmaOffset s + of_nat a)) (min b (lengthLeft D ?u)) (memory s) = Some ys" "zs = xs @ ys"
    using r law unfolding contiguous_def split by (auto simp: add.assoc split: option.splits)
  have "chunkSent D i (readLe32 d) (readLe32 (drop 8 d)) len ?u = (True, ?u)"
  proof -
    have "unat (dmaOffset ?u) \<noteq> len" using sum a left by simp
    then show ?thesis by (simp add: chunkSent_def)
  qed
  then have "dmaRound D i a s = (Some xs, ?u)"
    unfolding dmaRound_some [OF d] len_def [symmetric] using r x(1) a by simp
  moreover have "dmaRound D i b ?u = (Some ys, t)"
    unfolding dmaRound_some [OF du] len_def [symmetric] using r x(2) a left' unfolding split by (simp add: add.assoc)
  ultimately show thesis using x(3) left' that by blast
qed

lemma dmaLoop_split:
  assumes law: "contiguous D"
  shows "dmaLoop D i (a + b) s = (Some zs, t) \<Longrightarrow>
    \<exists>xs ys u. dmaLoop D i a s = (Some xs, u) \<and> dmaLoop D i b u = (Some ys, t) \<and> zs = xs @ ys"
proof (induction a arbitrary: s zs rule: less_induct)
  case (less a)
  show ?case
  proof (cases "a = 0 \<or> b = 0")
    case True
    then show ?thesis using less.prems by (auto simp: dmaLoop.simps [of D i 0])
  next
    case False
    obtain chunk u rest where one: "dmaRound D i (a + b) s = (Some chunk, u)"
        "dmaLoop D i (a + b - chunkOf D (a + b) s) u = (Some rest, t)" "zs = chunk @ rest"
      using less.prems False by (auto simp: dmaLoop.simps [of D i "a + b"] split: prod.splits option.splits)
    show ?thesis
    proof (cases "lengthLeft D s \<le> a")
      case True
      then have n: "chunkOf D (a + b) s = lengthLeft D s" "chunkOf D a s = lengthLeft D s" by (simp_all add: chunkOf_min)
      have round: "dmaRound D i a s = (Some chunk, u)" using one(1) dmaRound_same [OF True] by simp
      have "0 < lengthLeft D s" using dmaRound_chunk [OF one(1)] False n by simp
      then have "a - lengthLeft D s < a" using False by simp
      moreover have "dmaLoop D i ((a - lengthLeft D s) + b) u = (Some rest, t)" using one(2) n True by simp
      ultimately obtain xs ys v where "dmaLoop D i (a - lengthLeft D s) u = (Some xs, v)" "dmaLoop D i b v = (Some ys, t)" "rest = xs @ ys"
        using less.IH by blast
      then show ?thesis using False round n one(3) by (simp add: dmaLoop.simps [of D i a])
    next
      case more: False
      then have a: "0 < a" "a < lengthLeft D s" "0 < b" using False by auto
      let ?v = "s\<lparr>dmaOffset := dmaOffset s + of_nat a\<rparr>"
      obtain xs ys where sp: "dmaRound D i a s = (Some xs, ?v)" "dmaRound D i b ?v = (Some ys, u)"
          "chunk = xs @ ys" "lengthLeft D ?v = lengthLeft D s - a"
        by (rule dmaRound_split [OF law a one(1)])
      have "dmaLoop D i a s = (Some xs, ?v)"
        using a sp(1) by (simp add: dmaLoop.simps [of D i a] dmaLoop.simps [of D i 0] chunkOf_min)
      moreover have "a + b - chunkOf D (a + b) s = b - chunkOf D b ?v" using a sp(4) by (simp add: chunkOf_min)
      then have "dmaLoop D i b ?v = (Some (ys @ rest), t)"
        using a sp(2) one(2) by (simp add: dmaLoop.simps [of D i b])
      ultimately show ?thesis using sp(3) one(3) by auto
    qed
  qed
qed

section \<open>The interrupt of the channel\<close>

definition irqSet :: "nat \<Rightarrow> u32 \<Rightarrow> bool \<Rightarrow> ('b, 'm) spi_master \<Rightarrow> ('b, 'm) spi_master" where
  "irqSet i a q s = setChannel i ((dmaChannels s ! i)\<lparr>int_st := a, int_irq := q\<rparr>) s"

definition irqDone :: "nat \<Rightarrow> ('b, 'm) spi_master \<Rightarrow> ('b, 'm) spi_master" where
  "irqDone i s = (let ch = dmaChannels s ! i; st = int_raw ch AND int_ena ch in
     setChannel i (ch\<lparr>int_st := st, int_irq := (st \<noteq> 0)\<rparr>) s)"

lemma spiDmaRead_eq: "spiDmaRead D n s =
  (if gdma s = None then (None, s)
   else case findChannel [0..<length (dmaChannels s)] s of
     (None, s) \<Rightarrow> (None, s)
   | (Some i, s) \<Rightarrow> (case dmaLoop D i n s of (None, s) \<Rightarrow> (None, s) | (Some buffer, s) \<Rightarrow> (Some buffer, irqDone i s)))"
  by (cases "gdma s") (simp_all add: spiDmaRead_def irqDone_def dmaChannels_def Let_def split: prod.split option.split)

lemma irqSet_simps [simp]:
  "dmaOffset (irqSet i a q s) = dmaOffset s" "dmaDescriptor (irqSet i a q s) = dmaDescriptor s"
  "dmaChannel (irqSet i a q s) = dmaChannel s" "dmaPeripheral (irqSet i a q s) = dmaPeripheral s"
  "memory (irqSet i a q s) = memory s" "gdma (irqSet i a q s) \<noteq> None"
  "irqSet i a q s\<lparr>dmaOffset := v\<rparr> = irqSet i a q (s\<lparr>dmaOffset := v\<rparr>)"
  "irqSet i a q s\<lparr>memory := m\<rparr> = irqSet i a q (s\<lparr>memory := m\<rparr>)"
  "dmaChannels (irqSet i a q s) = (dmaChannels s)[i := (dmaChannels s ! i)\<lparr>int_st := a, int_irq := q\<rparr>]"
  by (simp_all add: irqSet_def setChannel_def)

lemma irqDone_irqSet: "i < length (dmaChannels s) \<Longrightarrow> irqDone i (irqSet i a q s) = irqDone i s"
  by (simp add: irqDone_def irqSet_def Let_def setChannel_def)

lemma irqDone_is_irqSet: "\<exists>a q. irqDone i s = irqSet i a q s"
  by (auto simp: irqDone_def irqSet_def Let_def)

lemma channelDone_irqSet:
  "channelDone flags nx d (ch\<lparr>int_st := a, int_irq := q\<rparr>) = (channelDone flags nx d ch)\<lparr>int_st := a, int_irq := q\<rparr>"
  by (intro dma_channel.equality) (simp_all add: channelDone_def Let_def)

lemma descriptorDone_irqSet:
  "i < length (dmaChannels s) \<Longrightarrow> descriptorDone i flags nx (irqSet i a q s) = irqSet i a q (descriptorDone i flags nx s)"
  by (simp add: descriptorDone_def irqSet_def setChannel_def channelDone_irqSet)

lemma chunkSent_irqSet:
  "i < length (dmaChannels s) \<Longrightarrow>
    chunkSent D i flags nx len (irqSet i a q s) = apsnd (irqSet i a q) (chunkSent D i flags nx len s)"
  by (simp add: chunkSent_def descriptorDone_irqSet split: option.split)

lemma lengthLeft_irqSet: "lengthLeft D (irqSet i a q s) = lengthLeft D s"
  by (simp add: lengthLeft_def split: option.split)

lemma dmaRound_irqSet:
  assumes "i < length (dmaChannels s)" and "dmaRound D i n s = (Some zs, t)"
  shows "dmaRound D i n (irqSet i a q s) = (Some zs, irqSet i a q t)"
proof -
  obtain d where d: "mem_read D (dmaDescriptor s) 12 (memory s) = Some d"
    using assms(2) by (auto simp: dmaRound_def split: option.splits)
  then have d': "mem_read D (dmaDescriptor (irqSet i a q s)) 12 (memory (irqSet i a q s)) = Some d" by simp
  show ?thesis
    using assms(2) unfolding dmaRound_some [OF d] dmaRound_some [OF d']
    using assms(1) by (simp add: chunkSent_irqSet lengthLeft_irqSet)
qed

lemma dmaLoop_irqSet:
  "gdma s \<noteq> None \<Longrightarrow> i < length (dmaChannels s) \<Longrightarrow> dmaLoop D i n s = (Some zs, t) \<Longrightarrow>
    dmaLoop D i n (irqSet i a q s) = (Some zs, irqSet i a q t)"
proof (induction n arbitrary: s zs rule: less_induct)
  case (less n)
  show ?case
  proof (cases "n = 0")
    case True
    then show ?thesis using less.prems by (simp add: dmaLoop.simps [of D i 0])
  next
    case False
    obtain chunk u rest where one: "dmaRound D i n s = (Some chunk, u)"
        "dmaLoop D i (n - chunkOf D n s) u = (Some rest, t)" "zs = chunk @ rest"
      using less.prems(3) False by (auto simp: dmaLoop.simps [of D i n] split: prod.splits option.splits)
    have kept: "channelKept i s u" by (rule dmaRound_kept [OF less.prems(1,2) one(1)])
    then have ok: "gdma u \<noteq> None" "i < length (dmaChannels u)" using less.prems(1,2) by (simp_all add: channelKept_def)
    have "0 < chunkOf D n s" using dmaRound_chunk [OF one(1)] False by simp
    then have "n - chunkOf D n s < n" using False by simp
    from less.IH [OF this ok one(2)] show ?thesis
      using dmaRound_irqSet [OF less.prems(2) one(1)] one(3) False
      by (simp add: dmaLoop.simps [of D i n] chunkOf_min lengthLeft_irqSet)
  qed
qed

section \<open>The channel of the next transfer\<close>

lemma findChannel_some:
  "findChannel is s = (Some i, t) \<Longrightarrow> \<exists>pre post. is = pre @ i # post \<and>
    (\<forall>j \<in> set pre. dma_peripheral (dmaChannels s ! j) \<noteq> dmaPeripheral s \<or> dma_link (dmaChannels s ! j) AND 0x200000 = 0) \<and>
    dma_peripheral (dmaChannels s ! i) = dmaPeripheral s \<and> t = takeStart i s \<and> dmaChannel t = of_nat i \<and> dmaDescriptor t \<noteq> 0"
proof (induction "is" arbitrary: s)
  case Nil
  then show ?case by simp
next
  case (Cons j js)
  show ?case
  proof (cases "dma_peripheral (dmaChannels s ! j) = dmaPeripheral s \<and> dmaChannel (takeStart j s) = of_nat j \<and> dmaDescriptor (takeStart j s) \<noteq> 0")
    case True
    then have "i = j" "t = takeStart j s" using Cons.prems by (auto simp: Let_def)
    then show ?thesis using True by (intro exI [of _ "[]"] exI [of _ js]) simp
  next
    case False
    have started: "dmaChannel (takeStart j s) = of_nat j" "dmaDescriptor (takeStart j s) \<noteq> 0"
      if "dma_link (dmaChannels s ! j) AND 0x200000 \<noteq> 0"
    proof -
      have "0x3FC00000 OR x \<noteq> (0 :: u32)" for x by (simp add: or_eq_0_iff)
      then show "dmaChannel (takeStart j s) = of_nat j" "dmaDescriptor (takeStart j s) \<noteq> 0"
        using that by (simp_all add: takeStart_def Let_def setChannel_def)
    qed
    have idle: "dma_peripheral (dmaChannels s ! j) \<noteq> dmaPeripheral s \<or> dma_link (dmaChannels s ! j) AND 0x200000 = 0"
      using False started by blast
    then have "dma_peripheral (dmaChannels s ! j) = dmaPeripheral s \<Longrightarrow> takeStart j s = s" by (simp add: takeStart_def Let_def)
    then have "findChannel js s = (Some i, t)" using Cons.prems False by (auto simp: Let_def split: if_splits)
    from Cons.IH [OF this] obtain pre post where "js = pre @ i # post"
        "\<forall>j \<in> set pre. dma_peripheral (dmaChannels s ! j) \<noteq> dmaPeripheral s \<or> dma_link (dmaChannels s ! j) AND 0x200000 = 0"
        "dma_peripheral (dmaChannels s ! i) = dmaPeripheral s \<and> t = takeStart i s \<and> dmaChannel t = of_nat i \<and> dmaDescriptor t \<noteq> 0"
      by blast
    then show ?thesis using idle by (intro exI [of _ "j # pre"] exI [of _ post]) auto
  qed
qed

lemma findChannel_again:
  "\<forall>j \<in> set pre. dma_peripheral (dmaChannels u ! j) \<noteq> dmaPeripheral u \<or>
      (dma_link (dmaChannels u ! j) AND 0x200000 = 0 \<and> dmaChannel u \<noteq> of_nat j) \<Longrightarrow>
    dma_peripheral (dmaChannels u ! i) = dmaPeripheral u \<Longrightarrow> dma_link (dmaChannels u ! i) AND 0x200000 = 0 \<Longrightarrow>
    dmaChannel u = of_nat i \<Longrightarrow> dmaDescriptor u \<noteq> 0 \<Longrightarrow> findChannel (pre @ i # post) u = (Some i, u)"
  by (induction pre) (auto simp: takeStart_def Let_def)

lemma takeStart_state:
  assumes "gdma s \<noteq> None" and "i < length (dmaChannels s)"
  shows "gdma (takeStart i s) \<noteq> None" "length (dmaChannels (takeStart i s)) = length (dmaChannels s)"
    "j \<noteq> i \<Longrightarrow> dmaChannels (takeStart i s) ! j = dmaChannels s ! j"
    "dmaPeripheral (takeStart i s) = dmaPeripheral s"
    "dma_peripheral (dmaChannels (takeStart i s) ! i) = dma_peripheral (dmaChannels s ! i)"
    "dma_link (dmaChannels (takeStart i s) ! i) AND 0x200000 = 0"
proof -
  have "(x AND NOT m) AND m = (0 :: u32)" for x m by (simp add: and.assoc)
  from this [of _ 2097152] show "dma_link (dmaChannels (takeStart i s) ! i) AND 0x200000 = 0"
    using assms by (simp add: takeStart_def Let_def)
qed (use assms in \<open>simp_all add: takeStart_def Let_def setChannel_def\<close>)

text \<open>C34: when a transfer of \<open>a + b\<close> bytes through the DMA channel succeeds, a transfer of \<open>a\<close> bytes
  followed by one of \<open>b\<close> bytes reads the same bytes and leaves the same state of master, channels and
  memory, as long as the chain has not ended in between: the position in the descriptor chain is
  kept from one transaction to the next.\<close>

theorem spi_dma_resumes:
  assumes law: "contiguous D" and few: "length (dmaChannels s) < 2 ^ 32"
    and all: "spiDmaRead D (a + b) s = (Some zs, t)"
  shows "\<exists>xs u. spiDmaRead D a s = (Some xs, u) \<and>
    (dmaDescriptor u = 0 \<or> (\<exists>ys. spiDmaRead D b u = (Some ys, t) \<and> zs = xs @ ys))"
proof -
  obtain i s0 v where find: "gdma s \<noteq> None" "findChannel [0..<length (dmaChannels s)] s = (Some i, s0)"
      and loop: "dmaLoop D i (a + b) s0 = (Some zs, v)" and t: "t = irqDone i v"
    using all by (auto simp: spiDmaRead_eq split: if_splits prod.splits option.splits)
  obtain pre post where ch: "[0..<length (dmaChannels s)] = pre @ i # post"
      "\<forall>j \<in> set pre. dma_peripheral (dmaChannels s ! j) \<noteq> dmaPeripheral s \<or> dma_link (dmaChannels s ! j) AND 0x200000 = 0"
      "dma_peripheral (dmaChannels s ! i) = dmaPeripheral s" "s0 = takeStart i s" "dmaChannel s0 = of_nat i"
    using findChannel_some [OF find(2)] by blast
  have "i \<in> set [0..<length (dmaChannels s)]" unfolding ch(1) by simp
  then have i: "i < length (dmaChannels s)" by simp
  note start = takeStart_state [OF find(1) i, folded ch(4)]
  have i0: "i < length (dmaChannels s0)" using i start(2) by simp
  obtain xs w ys where sp: "dmaLoop D i a s0 = (Some xs, w)" "dmaLoop D i b w = (Some ys, v)" "zs = xs @ ys"
    using dmaLoop_split [OF law loop] by blast
  define u where "u = irqDone i w"
  have first: "spiDmaRead D a s = (Some xs, u)" using find sp(1) by (simp add: spiDmaRead_eq u_def)
  have kept: "channelKept i s0 w" by (rule dmaLoop_kept [OF start(1) i0 sp(1)])
  then have w: "gdma w \<noteq> None" "i < length (dmaChannels w)" using start(1) i0 by (simp_all add: channelKept_def)
  obtain p q where u: "u = irqSet i p q w" unfolding u_def using irqDone_is_irqSet by blast
  have "\<exists>ys. spiDmaRead D b u = (Some ys, t) \<and> zs = xs @ ys" if more: "dmaDescriptor u \<noteq> 0"
  proof -
    have other: "dmaChannels u ! j = dmaChannels s ! j" if "j \<noteq> i" for j
      using kept start(3) that by (simp add: u channelKept_def)
    have own: "dma_peripheral (dmaChannels u ! i) = dmaPeripheral s" "dma_link (dmaChannels u ! i) AND 0x200000 = 0"
        "dmaPeripheral u = dmaPeripheral s" "dmaChannel u = of_nat i" "length (dmaChannels u) = length (dmaChannels s)"
      using kept start ch(3,5) w by (simp_all add: u channelKept_def)
    have "findChannel (pre @ i # post) u = (Some i, u)"
    proof (rule findChannel_again)
      show "\<forall>j \<in> set pre. dma_peripheral (dmaChannels u ! j) \<noteq> dmaPeripheral u \<or>
          (dma_link (dmaChannels u ! j) AND 0x200000 = 0 \<and> dmaChannel u \<noteq> of_nat j)"
      proof
        fix j assume j: "j \<in> set pre"
        have "distinct (pre @ i # post)" unfolding ch(1) [symmetric] by simp
        then have "j \<noteq> i" using j by auto
        moreover have "j < length (dmaChannels s)"
        proof -
          have "j \<in> set [0..<length (dmaChannels s)]" unfolding ch(1) using j by simp
          then show ?thesis by simp
        qed
        ultimately have "(of_nat j :: u32) \<noteq> of_nat i" using few i by (simp add: word_of_nat_eq_iff take_bit_nat_eq_self)
        then show "dma_peripheral (dmaChannels u ! j) \<noteq> dmaPeripheral u \<or>
          (dma_link (dmaChannels u ! j) AND 0x200000 = 0 \<and> dmaChannel u \<noteq> of_nat j)"
          using ch(2) j other [OF \<open>j \<noteq> i\<close>] own(3,4) by auto
      qed
    qed (use own more in auto)
    moreover have "dmaLoop D i b u = (Some ys, irqSet i p q v)" unfolding u by (rule dmaLoop_irqSet [OF w sp(2)])
    moreover have "i < length (dmaChannels v)" using dmaLoop_kept [OF w sp(2)] w(2) by (simp add: channelKept_def)
    then have "irqDone i (irqSet i p q v) = t" unfolding t by (rule irqDone_irqSet)
    moreover have "gdma u \<noteq> None" unfolding u by simp
    ultimately show ?thesis using sp(3) own(5) ch(1) by (simp add: spiDmaRead_eq)
  qed
  then show ?thesis using first by blast
qed

section \<open>An example chain\<close>

text \<open>A memory with one descriptor of four bytes, the last of its chain.\<close>

definition flatMemory :: "(u32 \<Rightarrow> byte) \<Rightarrow> unit dma_unit" where
  "flatMemory content = \<lparr>mem_read = (\<lambda>p n m. Some (map (\<lambda>k. content (p + of_nat k)) [0..<n])),
     mem_write = (\<lambda>p bs m. Some m), auto_wrback_mask = 0\<rparr>"

lemma flatMemory_contiguous: "contiguous (flatMemory content)"
proof -
  have "map (\<lambda>k. content (p + of_nat k)) [a..<a + b] = map (\<lambda>k. content (p + of_nat a + of_nat k)) [0..<b]" for p a b
    by (rule nth_equalityI) (simp_all add: add.assoc)
  then show ?thesis by (simp add: contiguous_def flatMemory_def upt_add_eq_append [of 0])
qed

definition sampleContent :: "u32 \<Rightarrow> byte" where
  "sampleContent a = (case map_of [(0x3FC00101, 0x40), (0x3FC00103, 0x40), (0x3FC00105, 0x02), (0x3FC00106, 0xC0), (0x3FC00107, 0x3F),
     (0x3FC00200, 0x12), (0x3FC00201, 0x34), (0x3FC00202, 0xF8)] a of Some v \<Rightarrow> v | None \<Rightarrow> 0)"

definition sampleChannel :: dma_channel where
  "sampleChannel = \<lparr>dma_peripheral = 0, dma_link = 0x200100, dma_conf0 = 0, dma_conf1 = 0, bfr_bfr_desc_addr = 0,
     bfr_desc_addr = 0, desc_addr = 0, dma_state = 0, suc_eof_desc_addr = 0, int_raw = 0, int_ena = 0, int_st = 0, int_irq = False\<rparr>"

definition sampleMaster :: "'b \<Rightarrow> ('b, unit) spi_master" where
  "sampleMaster b = \<lparr>spi_regs = replicate 64 0, spi_irq = False, gdma = Some [sampleChannel], dmaPeripheral = 0,
     dmaChannel = -1, dmaDescriptor = 0, dmaOffset = 0, ssi = b, memory = ()\<rparr>"

lemma sampleRead: "fst (spiDmaRead (flatMemory sampleContent) 4 (sampleMaster b)) = Some [0x12, 0x34, 0xF8, 0]"
proof -
  let ?D = "flatMemory sampleContent"
  define s where "s = takeStart 0 (sampleMaster b)"
  have s: "dmaDescriptor s = 0x3FC00100" "dmaOffset s = 0" "dmaChannel s = 0" "memory s = ()" "dma_conf1 (dmaChannels s ! 0) = 0"
      "dma_conf0 (dmaChannels s ! 0) = 0"
    by (simp_all add: s_def takeStart_def sampleMaster_def dmaChannels_def sampleChannel_def setChannel_def Let_def)
  have "findChannel [0..<length (dmaChannels (sampleMaster b))] (sampleMaster b) = (Some 0, s)"
    using s unfolding s_def by (simp add: sampleMaster_def dmaChannels_def sampleChannel_def Let_def)
  moreover have d: "mem_read ?D (dmaDescriptor s) 12 (memory s) = Some [0, 0x40, 0, 0x40, 0, 2, 0xC0, 0x3F, 0, 0, 0, 0]"
    unfolding s by (simp add: flatMemory_def upt_rec sampleContent_def)
  have f: "readLe32 [0, 0x40, 0, 0x40, 0, 2, 0xC0, 0x3F, 0, 0, 0, 0] = 0x40004000" "readLe32 [0, 2, 0xC0, 0x3F, 0, 0, 0, 0] = 0x3FC00200"
    by (simp_all add: readLe32_def le16_def)
  have left: "lengthLeft ?D s = 4" unfolding lengthLeft_def d option.case f s(2) by simp
  have "mem_read ?D (0x3FC00200 + dmaOffset s) 4 (memory s) = Some [0x12, 0x34, 0xF8, 0]"
    unfolding s by (simp add: flatMemory_def upt_rec sampleContent_def)
  then obtain t where "dmaRound ?D 0 4 s = (Some [0x12, 0x34, 0xF8, 0], t)"
    unfolding dmaRound_some [OF d] left using s f by (simp add: chunkSent_def)
  then have "dmaLoop ?D 0 4 s = (Some [0x12, 0x34, 0xF8, 0], t)"
    using left by (simp add: dmaLoop.simps [of ?D 0 4] dmaLoop.simps [of ?D 0 0] chunkOf_min)
  ultimately show ?thesis by (simp add: spiDmaRead_eq) (simp add: sampleMaster_def)
qed

theorem spi_dma_resumes_witness:
  "\<exists>xs u. spiDmaRead (flatMemory sampleContent) 3 (sampleMaster ()) = (Some xs, u) \<and>
    (dmaDescriptor u = 0 \<or> (\<exists>ys. spiDmaRead (flatMemory sampleContent) 1 u = (Some ys, snd (spiDmaRead (flatMemory sampleContent) 4 (sampleMaster ())))
       \<and> [0x12, 0x34, 0xF8, 0] = xs @ ys))"
proof -
  have "spiDmaRead (flatMemory sampleContent) (3 + 1) (sampleMaster ()) =
      (Some [0x12, 0x34, 0xF8, 0], snd (spiDmaRead (flatMemory sampleContent) 4 (sampleMaster ())))"
    using sampleRead [of "()"] by (simp add: prod_eq_iff)
  moreover have "length (dmaChannels (sampleMaster ())) < 2 ^ 32" by (simp add: sampleMaster_def dmaChannels_def)
  ultimately show ?thesis using spi_dma_resumes [OF flatMemory_contiguous] by blast
qed

end
