(* ===== verification/SpiPanel.thy ===== *)
theory SpiPanel
  imports SpiDma PanelWindow
begin

text \<open>
  The SPI master with the panel on its first select line: one transaction of the master is one message
  of the panel, and firmware that programs the registers for the three messages of a window, with
  the pixels fetched by DMA, puts the pixels on the screen.
\<close>

unbundle bit_operations_syntax

section \<open>DMA and the rest of the master\<close>

text \<open>The DMA unit and the registers, bus and interrupt line do not interfere.\<close>

definition outer :: "'b \<Rightarrow> u32 list \<Rightarrow> bool \<Rightarrow> ('b, 'm) spi_master \<Rightarrow> ('b, 'm) spi_master" where
  "outer b r q s = s\<lparr>ssi := b, spi_regs := r, spi_irq := q\<rparr>"

lemma outer_simps [simp]:
  "dmaOffset (outer b r q s) = dmaOffset s" "dmaDescriptor (outer b r q s) = dmaDescriptor s"
  "dmaChannel (outer b r q s) = dmaChannel s" "dmaPeripheral (outer b r q s) = dmaPeripheral s"
  "memory (outer b r q s) = memory s" "gdma (outer b r q s) = gdma s" "dmaChannels (outer b r q s) = dmaChannels s"
  "ssi (outer b r q s) = b" "spi_regs (outer b r q s) = r" "spi_irq (outer b r q s) = q"
  "outer b r q s\<lparr>dmaOffset := o'\<rparr> = outer b r q (s\<lparr>dmaOffset := o'\<rparr>)"
  "outer b r q s\<lparr>dmaDescriptor := d\<rparr> = outer b r q (s\<lparr>dmaDescriptor := d\<rparr>)"
  "outer b r q s\<lparr>dmaChannel := c\<rparr> = outer b r q (s\<lparr>dmaChannel := c\<rparr>)"
  "outer b r q s\<lparr>memory := m\<rparr> = outer b r q (s\<lparr>memory := m\<rparr>)"
  "setChannel i ch (outer b r q s) = outer b r q (setChannel i ch s)"
  "outer b r q (outer b' r' q' s) = outer b r q s"
  by (simp_all add: outer_def setChannel_def dmaChannels_def)

lemma outer_ssi [simp]: "outer b r q s\<lparr>ssi := b'\<rparr> = outer b' r q s"
  by (simp add: outer_def)

lemma outer_id: "outer (ssi s) (spi_regs s) (spi_irq s) s = s"
  by (simp add: outer_def)

lemma takeStart_outer: "takeStart i (outer b r q s) = outer b r q (takeStart i s)"
  by (simp add: takeStart_def Let_def)

lemma findChannel_outer: "findChannel is (outer b r q s) = apsnd (outer b r q) (findChannel is s)"
  by (induction "is" arbitrary: s) (simp_all add: takeStart_outer Let_def)

lemma chunkSent_outer: "chunkSent D i flags nx len (outer b r q s) = apsnd (outer b r q) (chunkSent D i flags nx len s)"
  by (simp add: chunkSent_def descriptorDone_def split: option.split)

lemma dmaRound_outer: "dmaRound D i n (outer b r q s) = apsnd (outer b r q) (dmaRound D i n s)"
  by (simp add: dmaRound_def Let_def chunkSent_outer case_prod_beta split: option.split)

lemma chunkOf_outer: "chunkOf D n (outer b r q s) = chunkOf D n s"
  by (simp add: chunkOf_def split: option.split)

lemma dmaLoop_outer: "dmaLoop D i n (outer b r q s) = apsnd (outer b r q) (dmaLoop D i n s)"
proof (induction n arbitrary: s rule: less_induct)
  case (less n)
  show ?case
  proof (cases "n = 0")
    case True
    then show ?thesis by (simp add: dmaLoop.simps)
  next
    case False
    obtain x u where r: "dmaRound D i n s = (x, u)" by fastforce
    show ?thesis
    proof (cases x)
      case None
      then show ?thesis using False r by (simp add: dmaLoop.simps [of D i n] dmaRound_outer)
    next
      case (Some chunk)
      then have "n - chunkOf D n s < n" using dmaRound_chunk [of D i n s chunk u] r False by simp
      from less.IH [OF this, of u] show ?thesis
        using False r Some
        by (simp add: dmaLoop.simps [of D i n] dmaRound_outer chunkOf_outer split: prod.split option.split)
    qed
  qed
qed

lemma irqDone_outer: "irqDone i (outer b r q s) = outer b r q (irqDone i s)"
  by (simp add: irqDone_def Let_def)

lemma spiDmaRead_outer: "spiDmaRead D n (outer b r q s) = apsnd (outer b r q) (spiDmaRead D n s)"
  by (simp add: spiDmaRead_eq findChannel_outer dmaLoop_outer irqDone_outer split: prod.split option.split)

lemma spiDmaRead_keeps:
  "ssi (snd (spiDmaRead D n s)) = ssi s" "spi_regs (snd (spiDmaRead D n s)) = spi_regs s"
proof -
  have "snd (spiDmaRead D n s) = outer (ssi s) (spi_regs s) (spi_irq s) (snd (spiDmaRead D n s))"
    using spiDmaRead_outer [of D n "ssi s" "spi_regs s" "spi_irq s" s] by (metis outer_id snd_apsnd)
  then show "ssi (snd (spiDmaRead D n s)) = ssi s" "spi_regs (snd (spiDmaRead D n s)) = spi_regs s"
    by (metis outer_simps(8), metis outer_simps(9))
qed

section \<open>The wiring\<close>

text \<open>What QEMU's bus does with a panel on select line 0, selected by a low level: a byte reaches the
  panel while it is selected, and the panel is told when its line changes. \<open>t\<close> is the virtual time.\<close>

definition attachedPanel :: "'b spi_bus \<Rightarrow> int \<Rightarrow> ('b \<Rightarrow> co5300) \<Rightarrow> ('b \<Rightarrow> bool) \<Rightarrow> bool" where
  "attachedPanel B t panel selected \<longleftrightarrow>
     (\<forall>v b. panel (ssi_transfer B v b) = (if selected b then panel_transfer t v (panel b) else panel b) \<and>
            selected (ssi_transfer B v b) = selected b) \<and>
     (\<forall>k v b. panel (cs_line B k v b) =
              (if k = 0 \<and> selected b = v then panel_selectChanged v (panel b) else panel b) \<and>
            selected (cs_line B k v b) = (if k = 0 then \<not> v else selected b))"

lemma attached_transfers:
  assumes "attachedPanel B t panel selected" and "selected b"
  shows "panel (fold (ssi_transfer B) vs b) = fold (panel_transfer t) vs (panel b)"
    and "selected (fold (ssi_transfer B) vs b)"
  using assms(2) by (induction vs arbitrary: b) (use assms(1) in \<open>simp_all add: attachedPanel_def\<close>)

text \<open>Line 0 is enabled, not inverted and released after each transaction.\<close>

definition panelSelected :: "u32 \<Rightarrow> bool" where
  "panelSelected misc \<longleftrightarrow> \<not> bit misc 0 \<and> \<not> bit misc 7 \<and> misc AND CsKeepActive = 0"

lemma chip_select:
  assumes at: "attachedPanel B t panel selected" and misc: "panelSelected (spiReg SpiMisc s)"
    and was: "selected (ssi s) \<noteq> active"
  shows "panel (ssi (spiChipSelect B active s)) = panel_selectChanged (\<not> active) (panel (ssi s))"
    and "selected (ssi (spiChipSelect B active s)) = active"
    and "spiChipSelect B active s = outer (ssi (spiChipSelect B active s)) (spi_regs s) (spi_irq s) s"
proof -
  define lev where "lev = (\<lambda>cs. let selected = active \<and> spiReg SpiMisc s AND push_bit cs 1 = 0;
      inverted = (spiReg SpiMisc s AND push_bit (cs + 7) 1 \<noteq> 0) in (\<not> selected) \<noteq> inverted)"
  have line: "bit (spiReg SpiMisc s) n = (spiReg SpiMisc s AND push_bit n 1 \<noteq> 0)" if "n < 32" for n
    using that by (simp add: bit_iff_and_push_bit_not_eq_0)
  have lev0: "lev 0 = (\<not> active)"
    using misc line [of 0] line [of 7] by (simp add: lev_def panelSelected_def Let_def)
  have eq: "ssi (spiChipSelect B active s) = fold (\<lambda>cs. cs_line B cs (lev cs)) [0..<SpiCsCount] (ssi s)"
    unfolding spiChipSelect_def lev_def Let_def by simp
  have others: "panel (fold (\<lambda>cs. cs_line B cs (lev cs)) ks b) = panel b"
      "selected (fold (\<lambda>cs. cs_line B cs (lev cs)) ks b) = selected b" if "0 \<notin> set ks" for ks b
    using that by (induction ks arbitrary: b) (use at in \<open>auto simp: attachedPanel_def\<close>)
  have "[0..<SpiCsCount] = 0 # [1..<SpiCsCount]" by (simp add: SpiCsCount_def upt_conv_Cons)
  then have first: "ssi (spiChipSelect B active s) = fold (\<lambda>cs. cs_line B cs (lev cs)) [1..<SpiCsCount] (cs_line B 0 (\<not> active) (ssi s))"
    unfolding eq by (simp add: lev0)
  show "panel (ssi (spiChipSelect B active s)) = panel_selectChanged (\<not> active) (panel (ssi s))"
    unfolding first using others(1) [of "[1..<SpiCsCount]"] at was by (auto simp: attachedPanel_def)
  show "selected (ssi (spiChipSelect B active s)) = active"
    unfolding first using others(2) [of "[1..<SpiCsCount]"] at by (auto simp: attachedPanel_def)
  show "spiChipSelect B active s = outer (ssi (spiChipSelect B active s)) (spi_regs s) (spi_irq s) s"
    by (simp add: spiChipSelect_def Let_def outer_def)
qed

section \<open>A transaction is a message\<close>

text \<open>The registers for one byte of command, three of address and the data.\<close>

definition panelHeader :: "byte \<Rightarrow> ('b, 'm) spi_master \<Rightarrow> bool" where
  "panelHeader c s \<longleftrightarrow> spiReg SpiUser s = 0xC8000000 \<and> spiReg SpiUser1 s = 0xB8000000 \<and>
     spiReg SpiUser2 s = 0x70000002 \<and> spiReg SpiAddr s = push_bit 16 (ucast c) \<and>
     panelSelected (spiReg SpiMisc s)"

lemma header_phases:
  assumes "panelHeader c s"
  shows "commandBits s = 8" and "addressBits s = 24"
    and "sendPhase B (push_bit 24 (spiReg SpiUser2 s)) 8 b = fold (ssi_transfer B) [2] b"
    and "sendPhase B (spiReg SpiAddr s) 24 b = fold (ssi_transfer B) [0, ucast c, 0] b"
proof -
  note h = assms [unfolded panelHeader_def]
  show "commandBits s = 8" "addressBits s = 24" using h by (simp_all add: commandBits_def addressBits_def UserCommand_def UserAddress_def)
  show "sendPhase B (push_bit 24 (spiReg SpiUser2 s)) 8 b = fold (ssi_transfer B) [2] b"
    using h by (simp add: sendPhase_def phaseByte_def)
  have "phaseByte (push_bit 16 (ucast c)) 0 = 0" "phaseByte (push_bit 16 (ucast c)) 8 = ucast c" "phaseByte (push_bit 16 (ucast c)) 16 = 0"
    unfolding phaseByte_def mask_eq_exp_minus_1 [of 8, where ?'a = "32 word", simplified, symmetric]
    by (rule bit_word_eqI; auto simp: bit_simps dest: bit_imp_le_length)+
  moreover have "[0..<(24 + 7) div 8] = [0, 1, 2 :: nat]" by (simp add: upt_rec)
  ultimately show "sendPhase B (spiReg SpiAddr s) 24 b = fold (ssi_transfer B) [0, ucast c, 0] b"
    using h by (simp add: sendPhase_def)
qed

lemma mosiData_outer:
  assumes "\<And>i. i \<noteq> 0 \<Longrightarrow> r ! i = spi_regs s ! i"
  shows "mosiData D (outer b r q s) = apsnd (outer b r q) (mosiData D s)"
proof -
  have reg: "spiReg a (outer b r q s) = spiReg a s" if "4 \<le> a" for a
    using assms [of "a div 4"] that by (simp add: spiReg_def)
  then have "dataBytes (outer b r q s) = dataBytes s" "spiReg SpiDma (outer b r q s) = spiReg SpiDma s"
    by (simp_all add: dataBytes_def spi_registers)
  moreover from this have "fifoData (outer b r q s) = fifoData s"
    using assms reg by (auto simp: fifoData_def Let_def spi_registers)
  ultimately show ?thesis
    by (simp add: mosiData_def spiDmaRead_outer split: prod.split option.split)
qed

lemma mosiData_keeps: "ssi (snd (mosiData D s)) = ssi s" "spi_regs (snd (mosiData D s)) = spi_regs s"
  using spiDmaRead_keeps [of D "dataBytes s" s] by (auto simp: mosiData_def split: prod.splits option.splits)

lemma mosiData_irq: "spi_irq (snd (mosiData D s)) = spi_irq s"
proof -
  have "snd (spiDmaRead D n s) = outer (ssi s) (spi_regs s) (spi_irq s) (snd (spiDmaRead D n s))" for n
    using spiDmaRead_outer [of D n "ssi s" "spi_regs s" "spi_irq s" s] by (metis outer_id snd_apsnd)
  then have "spi_irq (snd (spiDmaRead D n s)) = spi_irq s" for n by (metis outer_simps(10))
  then show ?thesis by (auto simp: mosiData_def split: prod.splits option.splits) (metis snd_conv)+
qed

lemma phases_message:
  assumes h: "panelHeader c s"
  shows "spiPhases B D s = (let (buffer, u) = mosiData D s in
    u\<lparr>ssi := fold (ssi_transfer B) (map ucast ([2, 0, c, 0 :: byte] @ buffer)) (ssi s)\<rparr>)"
proof -
  have keep: "commandBits (outer b (spi_regs s) q s) = commandBits s" "addressBits (outer b (spi_regs s) q s) = addressBits s"
      "spiReg a (outer b (spi_regs s) q s) = spiReg a s" for a b q
    by (simp_all add: commandBits_def addressBits_def spiReg_def)
  have upd: "s\<lparr>ssi := b\<rparr> = outer b (spi_regs s) (spi_irq s) s" for b by (simp add: outer_def)
  define b2 where "b2 = fold (ssi_transfer B) [0, ucast c, 0] (fold (ssi_transfer B) [2] (ssi s))"
  have m: "mosiData D (outer b2 (spi_regs s) (spi_irq s) s) = apsnd (outer b2 (spi_regs s) (spi_irq s)) (mosiData D s)"
    by (rule mosiData_outer) simp
  have "spiPhases B D s = (let (buffer, u) = mosiData D (outer b2 (spi_regs s) (spi_irq s) s) in
      u\<lparr>ssi := fold (\<lambda>b. ssi_transfer B (ucast b)) buffer (ssi u)\<rparr>)"
    unfolding spiPhases_def Let_def header_phases(1,2) [OF h] upd
    by (simp add: keep header_phases(3,4) [OF h] b2_def del: fold_simps)
  also have "\<dots> = (let (buffer, u) = mosiData D s in u\<lparr>ssi := fold (\<lambda>b. ssi_transfer B (ucast b)) buffer b2\<rparr>)"
  proof -
    have "outer b2 (spi_regs s) (spi_irq s) u\<lparr>ssi := b\<rparr> = u\<lparr>ssi := b\<rparr>" if "u = snd (mosiData D s)" for u b
      using mosiData_keeps(2) [of D s] that spiDmaRead_outer
      by (intro spi_master.equality) (simp_all add: outer_def mosiData_irq)
    then show ?thesis unfolding m by (simp add: case_prod_beta Let_def)
  qed
  also have "\<dots> = (let (buffer, u) = mosiData D s in
    u\<lparr>ssi := fold (ssi_transfer B) (map ucast ([2, 0, c, 0 :: byte] @ buffer)) (ssi s)\<rparr>)"
    by (simp add: b2_def fold_map comp_def)
  finally show ?thesis .
qed

lemma transaction_end:
  "\<exists>q'. spiInterrupt (spiInterrupt (setSpiReg SpiRaw (spiReg SpiRaw (setSpiReg SpiCmd 0 (outer b r q s)) OR TransDone)
     (setSpiReg SpiCmd 0 (outer b r q s)))) = outer b (r[0 := 0, 15 := r ! 15 OR TransDone]) q' s"
  by (auto simp: spiInterrupt_def setSpiReg_def spiReg_def spi_registers outer_def)

text \<open>One transaction with that header: the panel gets header and data as one message.\<close>

lemma transaction_message:
  assumes at: "attachedPanel B t panel selected" and was: "\<not> selected (ssi s)" and h: "panelHeader c s"
    and len: "length (spi_regs s) = 64"
  obtains b q where "panel b = panelMessage t (2 # 0 # c # 0 # fst (mosiData D s)) (panel (ssi s))" "\<not> selected b"
    "spiWrite B D SpiCmd CmdUsr s =
      outer b ((spi_regs s)[0 := 0, 15 := spi_regs s ! 15 OR TransDone]) q (snd (mosiData D s))"
proof -
  define s1 where "s1 = setSpiReg SpiCmd (CmdUsr AND NOT CmdUpdate) s"
  have regs1: "spi_regs s1 = (spi_regs s)[0 := CmdUsr AND NOT CmdUpdate]" "ssi s1 = ssi s"
    by (simp_all add: s1_def setSpiReg_def SpiCmd_def)
  have h1: "panelHeader c s1" using h by (simp add: panelHeader_def spiReg_def regs1 spi_registers)
  define s2 where "s2 = spiChipSelect B True s1"
  note cs1 = chip_select [OF at, of s1 True, folded s2_def]
  have sel1: "panelSelected (spiReg SpiMisc s1)" using h1 by (simp add: panelHeader_def)
  have s2: "s2 = outer (ssi s2) (spi_regs s1) (spi_irq s1) s1" "panel (ssi s2) = panel (ssi s)" "selected (ssi s2)"
    using cs1 sel1 was regs1(2) by (simp_all add: panel_selectChanged_def)
  have regs2: "spi_regs s2 = spi_regs s1" using s2(1) by (metis outer_simps(9))
  have h2: "panelHeader c s2" using h1 by (simp add: panelHeader_def spiReg_def regs2)
  have m2: "mosiData D s2 = apsnd (outer (ssi s2) (spi_regs s1) (spi_irq s1)) (mosiData D s)"
  proof -
    have "s2 = outer (ssi s2) (spi_regs s1) (spi_irq s1) s"
    proof -
      have "s1 = outer (ssi s) (spi_regs s1) (spi_irq s) s" by (simp add: s1_def setSpiReg_def outer_def)
      then have "outer b r q s1 = outer b r q s" for b r q by (metis outer_simps(16))
      then show ?thesis using s2(1) by simp
    qed
    moreover have "mosiData D (outer (ssi s2) (spi_regs s1) (spi_irq s1) s) = apsnd (outer (ssi s2) (spi_regs s1) (spi_irq s1)) (mosiData D s)"
      by (rule mosiData_outer) (simp add: regs1)
    ultimately show ?thesis by simp
  qed
  define vs :: "u32 list" where "vs = map ucast ([2, 0, c, 0 :: byte] @ fst (mosiData D s))"
  define b3 where "b3 = fold (ssi_transfer B) vs (ssi s2)"
  define s3 where "s3 = spiPhases B D s2"
  have s3: "s3 = outer b3 (spi_regs s1) (spi_irq s1) (snd (mosiData D s))"
    unfolding s3_def phases_message [OF h2] m2 b3_def vs_def by (simp add: case_prod_beta Let_def outer_def)
  have b3: "panel b3 = fold (panel_transfer t) vs (panel (ssi s))" "selected b3"
    unfolding b3_def using attached_transfers [OF at s2(3)] s2(2) by simp_all
  have misc3: "spiReg SpiMisc s3 = spiReg SpiMisc s" by (simp add: s3 spiReg_def regs1 spi_registers)
  have keep: "(spiReg SpiMisc s3 AND CsKeepActive \<noteq> 0) = False"
    using h misc3 by (simp add: panelHeader_def panelSelected_def)
  define s4 where "s4 = spiChipSelect B False s3"
  have "panelSelected (spiReg SpiMisc s3)" using h misc3 by (simp add: panelHeader_def)
  note cs2 = chip_select [OF at this, of False, folded s4_def]
  have s4: "panel (ssi s4) = panel_selectChanged True (panel b3)" "\<not> selected (ssi s4)"
      "s4 = outer (ssi s4) (spi_regs s3) (spi_irq s3) s3"
    using cs2 b3(2) s3 by simp_all
  have eq: "spiWrite B D SpiCmd CmdUsr s = spiInterrupt (spiInterrupt (setSpiReg SpiRaw (spiReg SpiRaw (setSpiReg SpiCmd 0 s4) OR TransDone) (setSpiReg SpiCmd 0 s4)))"
  proof -
    have "CmdUsr AND CmdUsr \<noteq> 0" by (simp add: CmdUsr_def)
    moreover have "setSpiReg SpiCmd (spiReg SpiCmd (setSpiReg SpiCmd CmdUsr s) AND NOT CmdUpdate) (setSpiReg SpiCmd CmdUsr s) = s1"
      using len by (simp add: s1_def setSpiReg_def spiReg_def SpiCmd_def)
    ultimately show ?thesis
      unfolding spiWrite_def spiTransfer_def Let_def s2_def [symmetric] s3_def [symmetric]
      by (simp add: SpiCmd_def SpiClr_def SpiSet_def s2_def [symmetric] s3_def [symmetric] keep flip: s4_def)
  qed
  have "s4 = outer (ssi s4) (spi_regs s1) (spi_irq s1) (snd (mosiData D s))"
    using s4(3) unfolding s3 by simp
  then have "\<exists>q. spiWrite B D SpiCmd CmdUsr s =
      outer (ssi s4) ((spi_regs s1)[0 := 0, 15 := spi_regs s1 ! 15 OR TransDone]) q (snd (mosiData D s))"
    unfolding eq using transaction_end [of "ssi s4" "spi_regs s1" "spi_irq s1" "snd (mosiData D s)"] by simp
  then have "\<exists>q. spiWrite B D SpiCmd CmdUsr s =
      outer (ssi s4) ((spi_regs s)[0 := 0, 15 := spi_regs s ! 15 OR TransDone]) q (snd (mosiData D s))"
    by (simp add: regs1(1))
  moreover have "panel (ssi s4) = panelMessage t (2 # 0 # c # 0 # fst (mosiData D s)) (panel (ssi s))"
    unfolding s4(1) b3(1) vs_def panelMessage_def by (simp add: fold_map comp_def)
  ultimately show thesis using s4(2) that by blast
qed

section \<open>Firmware\<close>

definition loadRegisters :: "'b spi_bus \<Rightarrow> 'm dma_unit \<Rightarrow> (nat \<times> u32) list \<Rightarrow> ('b, 'm) spi_master \<Rightarrow> ('b, 'm) spi_master" where
  "loadRegisters B D rs = fold (\<lambda>(address, v). spiWrite B D address v) rs"

definition headerRegisters :: "byte \<Rightarrow> nat \<Rightarrow> u32 \<Rightarrow> (nat \<times> u32) list" where
  "headerRegisters c n dma = [(SpiUser, 0xC8000000), (SpiUser1, 0xB8000000), (SpiUser2, 0x70000002),
     (SpiAddr, push_bit 16 (ucast c)), (SpiDlen, of_nat (8 * n - 1)), (SpiDma, dma)]"

definition fifoWord :: "u16 \<Rightarrow> u16 \<Rightarrow> u32" where
  "fifoWord a b = ucast (high a) OR push_bit 8 (ucast (low a)) OR push_bit 16 (ucast (high b)) OR push_bit 24 (ucast (low b))"

text \<open>Firmware sends an address command from the FIFO, and pixels that lie in memory by DMA.\<close>

definition sendAddress :: "'b spi_bus \<Rightarrow> 'm dma_unit \<Rightarrow> byte \<Rightarrow> u16 \<Rightarrow> u16 \<Rightarrow> ('b, 'm) spi_master \<Rightarrow> ('b, 'm) spi_master" where
  "sendAddress B D c a b s = spiWrite B D SpiCmd CmdUsr (loadRegisters B D (headerRegisters c 4 0 @ [(SpiW0, fifoWord a b)]) s)"

definition sendPixels :: "'b spi_bus \<Rightarrow> 'm dma_unit \<Rightarrow> nat \<Rightarrow> ('b, 'm) spi_master \<Rightarrow> ('b, 'm) spi_master" where
  "sendPixels B D n s = spiWrite B D SpiCmd CmdUsr (loadRegisters B D (headerRegisters MemoryWrite n DmaTxEnable) s)"

lemma spiWrite_plain:
  assumes "a \<notin> {SpiCmd, SpiClr, SpiSet}"
  shows "\<exists>q. spiWrite B D a v s = outer (ssi s) ((spi_regs s)[a div 4 := v]) q s"
  using assms by (auto simp: spiWrite_def Let_def spiInterrupt_def setSpiReg_def outer_def)

definition plainRegisters :: "(nat \<times> u32) list \<Rightarrow> bool" where
  "plainRegisters rs \<longleftrightarrow> fst ` set rs \<inter> {SpiCmd, SpiClr, SpiSet} = {}"

lemma loadRegisters_outer:
  "plainRegisters rs \<Longrightarrow> \<exists>q. loadRegisters B D rs s =
    outer (ssi s) (fold (\<lambda>(a, v) regs. regs[a div 4 := v]) rs (spi_regs s)) q s"
proof (induction rs arbitrary: s)
  case Nil
  then show ?case using outer_id by (auto simp: loadRegisters_def intro!: exI [of _ "spi_irq s"] sym [OF outer_id])
next
  case (Cons r rs)
  obtain a v where r: "r = (a, v)" by fastforce
  then obtain q where q: "spiWrite B D a v s = outer (ssi s) ((spi_regs s)[a div 4 := v]) q s"
    using spiWrite_plain [of a B D v s] Cons.prems by (auto simp: plainRegisters_def)
  have "plainRegisters rs" using Cons.prems by (auto simp: plainRegisters_def)
  from Cons.IH [OF this, of "spiWrite B D a v s"] show ?case by (simp add: loadRegisters_def r q)
qed

lemma plain_header: "plainRegisters (headerRegisters c n dma)" "plainRegisters (headerRegisters c n dma @ [(SpiW0, w)])"
  by (simp_all add: plainRegisters_def headerRegisters_def spi_registers)

text \<open>A master whose select line for the panel is as reset and firmware leave it.\<close>

definition panelMaster :: "('b \<Rightarrow> bool) \<Rightarrow> ('b, 'm) spi_master \<Rightarrow> bool" where
  "panelMaster selected s \<longleftrightarrow> \<not> selected (ssi s) \<and> panelSelected (spiReg SpiMisc s) \<and> length (spi_regs s) = 64"

lemma address_sent_by_spi:
  assumes at: "attachedPanel B t panel selected" and m: "panelMaster selected s"
  obtains b r q where "sendAddress B D c x y s = outer b r q s" "panelMaster selected (sendAddress B D c x y s)"
    "panel b = panelMessage t (addressMessage c x y) (panel (ssi s))"
proof -
  obtain q where load: "loadRegisters B D (headerRegisters c 4 0 @ [(SpiW0, fifoWord x y)]) s =
      outer (ssi s) (fold (\<lambda>(a, v) regs. regs[a div 4 := v]) (headerRegisters c 4 0 @ [(SpiW0, fifoWord x y)]) (spi_regs s)) q s"
    using loadRegisters_outer [OF plain_header(2)] by blast
  define r where "r = fold (\<lambda>(a, v) regs. regs[a div 4 := v]) (headerRegisters c 4 0 @ [(SpiW0, fifoWord x y)]) (spi_regs s)"
  define s1 where "s1 = outer (ssi s) r q s"
  have len: "length r = 64" using m by (simp add: r_def panelMaster_def headerRegisters_def)
  have regs: "r ! 4 = 0xC8000000" "r ! 5 = 0xB8000000" "r ! 6 = 0x70000002" "r ! 1 = push_bit 16 (ucast c)" "r ! 7 = 31"
      "r ! 12 = 0" "r ! 38 = fifoWord x y" "r ! 8 = spi_regs s ! 8"
    using m by (simp_all add: r_def panelMaster_def headerRegisters_def spi_registers nth_list_update)
  have h: "panelHeader c s1"
    using m regs by (simp add: panelHeader_def panelMaster_def s1_def spiReg_def spi_registers)
  have n: "dataBytes s1 = 4" using regs by (simp add: dataBytes_def s1_def spiReg_def spi_registers UserMosi_def)
  have "fifoData s1 = map (\<lambda>i. ucast (drop_bit (i * 8) (fifoWord x y))) [0, 1, 2, 3]"
    using regs n by (simp add: fifoData_def s1_def spiReg_def spi_registers UserMosiHighPart_def SpiFifoCapacity_def upt_rec)
  also have "\<dots> = [high x, low x, high y, low y]"
    by (simp add: fifoWord_def) (intro conjI bit_word_eqI; auto simp: bit_simps dest: bit_imp_le_length)
  finally have data: "mosiData D s1 = ([high x, low x, high y, low y], s1)"
    using regs by (simp add: mosiData_def s1_def spiReg_def spi_registers)
  have was: "\<not> selected (ssi s1)" using m by (simp add: s1_def panelMaster_def)
  have len1: "length (spi_regs s1) = 64" using len by (simp add: s1_def)
  obtain b q' where sent: "panel b = panelMessage t (2 # 0 # c # 0 # fst (mosiData D s1)) (panel (ssi s1))" "\<not> selected b"
      "spiWrite B D SpiCmd CmdUsr s1 = outer b ((spi_regs s1)[0 := 0, 15 := spi_regs s1 ! 15 OR TransDone]) q' (snd (mosiData D s1))"
    by (rule transaction_message [OF at was h len1])
  have eq: "sendAddress B D c x y s = outer b (r[0 := 0, 15 := r ! 15 OR TransDone]) q' s"
    unfolding sendAddress_def load r_def [symmetric] s1_def [symmetric] sent(3) data
    by (simp add: s1_def)
  moreover have "panelMaster selected (sendAddress B D c x y s)"
    unfolding eq using sent(2) len regs(8) m by (simp add: panelMaster_def spiReg_def spi_registers)
  moreover have "panel b = panelMessage t (addressMessage c x y) (panel (ssi s))"
    using sent(1) data by (simp add: addressMessage_def s1_def)
  ultimately show thesis using that by blast
qed

lemma length_field: "k < 262144 \<Longrightarrow> unat ((of_nat k :: u32) AND 0x3FFFF) = k"
proof -
  assume k: "k < 262144"
  have "(of_nat k :: u32) AND 0x3FFFF = take_bit 18 (of_nat k)"
    by (simp add: take_bit_eq_mask mask_eq_exp_minus_1)
  then show ?thesis using k by (simp add: unsigned_take_bit_eq unat_of_nat take_bit_nat_eq_self)
qed

lemma pixels_sent_by_spi:
  assumes at: "attachedPanel B t panel selected" and m: "panelMaster selected s"
    and n: "0 < n" "n \<le> 32768" and dma: "spiDmaRead D n s = (Some buffer, u)"
  obtains b r q where "sendPixels B D n s = outer b r q u" "r ! 15 AND TransDone \<noteq> 0" "r ! 0 = 0"
    "panel b = panelMessage t (2 # 0 # MemoryWrite # 0 # buffer) (panel (ssi s))"
proof -
  obtain q where load: "loadRegisters B D (headerRegisters MemoryWrite n DmaTxEnable) s =
      outer (ssi s) (fold (\<lambda>(a, v) regs. regs[a div 4 := v]) (headerRegisters MemoryWrite n DmaTxEnable) (spi_regs s)) q s"
    using loadRegisters_outer [OF plain_header(1)] by blast
  define r where "r = fold (\<lambda>(a, v) regs. regs[a div 4 := v]) (headerRegisters MemoryWrite n DmaTxEnable) (spi_regs s)"
  define s1 where "s1 = outer (ssi s) r q s"
  have len: "length r = 64" using m by (simp add: r_def panelMaster_def headerRegisters_def)
  have regs: "r ! 4 = 0xC8000000" "r ! 5 = 0xB8000000" "r ! 6 = 0x70000002" "r ! 1 = push_bit 16 (ucast MemoryWrite)"
      "r ! 7 = of_nat (8 * n - 1)" "r ! 12 = DmaTxEnable" "r ! 8 = spi_regs s ! 8"
    using m by (simp_all add: r_def panelMaster_def headerRegisters_def spi_registers nth_list_update del: of_nat_diff)
  have h: "panelHeader MemoryWrite s1"
    using m regs by (simp add: panelHeader_def panelMaster_def s1_def spiReg_def spi_registers)
  have "unat ((of_nat (8 * n - 1) :: u32) AND 0x3FFFF) = 8 * n - 1"
    using n by (intro length_field) simp
  then have n1: "dataBytes s1 = n" using regs n by (simp add: dataBytes_def s1_def spiReg_def spi_registers UserMosi_def del: of_nat_diff)
  have data: "mosiData D s1 = (buffer, outer (ssi s) r q u)"
    using regs n dma unfolding mosiData_def n1
    by (simp add: s1_def spiReg_def spi_registers DmaTxEnable_def spiDmaRead_outer)
  have was: "\<not> selected (ssi s1)" using m by (simp add: s1_def panelMaster_def)
  have len1: "length (spi_regs s1) = 64" using len by (simp add: s1_def)
  obtain b q' where sent: "panel b = panelMessage t (2 # 0 # MemoryWrite # 0 # fst (mosiData D s1)) (panel (ssi s1))" "\<not> selected b"
      "spiWrite B D SpiCmd CmdUsr s1 = outer b ((spi_regs s1)[0 := 0, 15 := spi_regs s1 ! 15 OR TransDone]) q' (snd (mosiData D s1))"
    by (rule transaction_message [OF at was h len1])
  have "sendPixels B D n s = outer b (r[0 := 0, 15 := r ! 15 OR TransDone]) q' u"
    unfolding sendPixels_def load r_def [symmetric] s1_def [symmetric] sent(3) data
    by (simp add: s1_def)
  moreover have "(x OR TransDone) AND TransDone \<noteq> 0" for x by (simp add: bit.conj_disj_distrib2 TransDone_def or_eq_0_iff)
  moreover have "panel b = panelMessage t (2 # 0 # MemoryWrite # 0 # buffer) (panel (ssi s))"
    using sent(1) data by (simp add: s1_def)
  ultimately show thesis using that len by simp
qed

definition drawBySpi :: "(int \<Rightarrow> 'b spi_bus) \<Rightarrow> 'm dma_unit \<Rightarrow> int \<Rightarrow> int \<Rightarrow> int \<Rightarrow> u16 \<Rightarrow> u16 \<Rightarrow> u16 \<Rightarrow> u16 \<Rightarrow> nat
    \<Rightarrow> ('b, 'm) spi_master \<Rightarrow> ('b, 'm) spi_master" where
  "drawBySpi B D t1 t2 t3 a b c e n s =
     sendPixels (B t3) D n (sendAddress (B t2) D RowAddressSet c e (sendAddress (B t1) D ColumnAddressSet a b s))"

text \<open>C33: firmware that addresses a window through the FIFO and sends its pixels, fetched by DMA, has them
  shown: every point of the viewport in the window has the colour of its pixel at the current
  brightness, every other one is as before, and the master reports the end of the transaction.
  \<open>t1\<close>, \<open>t2\<close> and \<open>t3\<close> are the times of the three transactions.\<close>

theorem firmware_draws_window:
  fixes s :: "('b, 'm) spi_master"
  assumes wiring: "\<And>t. attachedPanel (B t) t panel selected" and m: "panelMaster selected s"
    and ready: "panelReady t1 (panel (ssi s))" "panel_header (panel (ssi s)) = []"
    and window: "a \<le> b" "unat b < GramWidth" "c \<le> e" "unat e < GramHeight" "length pixels = (unat b - unat a + 1) * (unat e - unat c + 1)"
    and small: "length pixels \<le> 16384"
    and dma: "spiDmaRead D (2 * length pixels) s = (Some (pixelBytes pixels), u)"
    and fits: "viewportFits (width (panel (ssi s))) (height (panel (ssi s))) (xOffset (panel (ssi s))) (yOffset (panel (ssi s)))"
    and point: "row < unat (height (panel (ssi s)))" "col < unat (width (panel (ssi s)))"
  shows "co5300ReadPixels (panel (ssi (drawBySpi B D t1 t2 t3 a b c e (2 * length pixels) s))) ! (row * unat (width (panel (ssi s))) + col) =
      (if inWindow a b c e (col + unat (xOffset (panel (ssi s)))) (row + unat (yOffset (panel (ssi s))))
       then dimmed (panelLevel (panel (ssi s)))
         (pixels ! ((row + unat (yOffset (panel (ssi s))) - unat c) * (unat b - unat a + 1) + (col + unat (xOffset (panel (ssi s))) - unat a)))
       else co5300ReadPixels (panel (ssi s)) ! (row * unat (width (panel (ssi s))) + col)) \<and>
    spiRead SpiRaw (drawBySpi B D t1 t2 t3 a b c e (2 * length pixels) s) AND TransDone \<noteq> 0 \<and>
    spiRead SpiCmd (drawBySpi B D t1 t2 t3 a b c e (2 * length pixels) s) = 0"
proof -
  obtain b1 r1 q1 where s1: "sendAddress (B t1) D ColumnAddressSet a b s = outer b1 r1 q1 s"
      "panelMaster selected (sendAddress (B t1) D ColumnAddressSet a b s)"
      "panel b1 = panelMessage t1 (addressMessage ColumnAddressSet a b) (panel (ssi s))"
    by (rule address_sent_by_spi [OF wiring m])
  obtain b2 r2 q2 where s2: "sendAddress (B t2) D RowAddressSet c e (outer b1 r1 q1 s) = outer b2 r2 q2 (outer b1 r1 q1 s)"
      "panelMaster selected (sendAddress (B t2) D RowAddressSet c e (outer b1 r1 q1 s))"
      "panel b2 = panelMessage t2 (addressMessage RowAddressSet c e) (panel (ssi (outer b1 r1 q1 s)))"
    by (rule address_sent_by_spi [OF wiring s1(2) [unfolded s1(1)]])
  have n: "0 < 2 * length pixels" "2 * length pixels \<le> 32768" using window(5) small by simp_all
  have d: "spiDmaRead D (2 * length pixels) (outer b2 r2 q2 s) = (Some (pixelBytes pixels), outer b2 r2 q2 u)"
    using dma by (simp add: spiDmaRead_outer)
  have m2: "panelMaster selected (outer b2 r2 q2 s)" using s2(1,2) by simp
  obtain b3 r3 q3 where s3: "sendPixels (B t3) D (2 * length pixels) (outer b2 r2 q2 s) = outer b3 r3 q3 (outer b2 r2 q2 u)"
      "r3 ! 15 AND TransDone \<noteq> 0" "r3 ! 0 = 0"
      "panel b3 = panelMessage t3 (2 # 0 # MemoryWrite # 0 # pixelBytes pixels) (panel (ssi (outer b2 r2 q2 s)))"
    by (rule pixels_sent_by_spi [OF wiring m2 n d])
  have drawn: "drawBySpi B D t1 t2 t3 a b c e (2 * length pixels) s = outer b3 r3 q3 u"
    using s1(1) s2(1) s3(1) by (simp add: drawBySpi_def)
  have "panel b3 = drawWindow t1 t2 t3 a b c e pixels (panel (ssi s))"
    using s1(3) s2(3) s3(4) by (simp add: drawWindow_def)
  then show ?thesis
    using drawn_window_is_shown [OF ready window fits point, of t2 t3] s3(2,3)
    by (simp add: drawn spiRead_def spiReg_def spi_registers)
qed

section \<open>An example\<close>

text \<open>A panel on 466 x 466 points that has been woken and switched on.\<close>

definition freshPanel :: co5300 where
  "freshPanel = panel_resetInput 0 1 (panel_powerInput 0 1 (the (co5300_realize 0 466 466 6 0)))"

definition litPanel :: co5300 where
  "litPanel = panelMessage 10000000 [2, 0, DisplayOn, 0] (panelMessage 10000000 [2, 0, SleepOut, 0] freshPanel)"

lemma freshPanel_state:
  "panelReady 10000000 freshPanel" "panel_header freshPanel = []" "width freshPanel = 466" "height freshPanel = 466"
  "xOffset freshPanel = 6" "yOffset freshPanel = 0" "sleepOutAtNs freshPanel \<le> 10000000" "\<not> simulateBrightness freshPanel"
proof -
  have "co5300_realize 0 466 466 6 0 = Some (the (co5300_realize 0 466 466 6 0))"
    by (simp add: co5300_realize_def viewportFits_def GramWidth_def GramHeight_def)
  from fresh_panel_ready [OF this] show "panelReady 10000000 freshPanel" "panel_header freshPanel = []" "width freshPanel = 466"
    "height freshPanel = 466" "xOffset freshPanel = 6" "yOffset freshPanel = 0"
    unfolding freshPanel_def by simp_all
  show "sleepOutAtNs freshPanel \<le> 10000000" "\<not> simulateBrightness freshPanel"
    unfolding freshPanel_def panel_resetInput_def panel_powerInput_def Let_def
    by (simp_all add: panel_resetRegisters_def scheduleRefresh_def panelActive_def co5300_realize_def co5300_init_def
        viewportFits_def GramWidth_def GramHeight_def ResetRecoveryNs_def PowerOnDelayNs_def)
qed

lemma litPanel_state:
  "panelReady 10000000 litPanel" "panel_header litPanel = []" "width litPanel = 466" "height litPanel = 466"
  "xOffset litPanel = 6" "yOffset litPanel = 0" "panelLevel litPanel = 255"
proof -
  define p where "p = panelMessage 10000000 [2, 0, SleepOut, 0] freshPanel"
  have "p = (panelCommand 10000000 SleepOut (commandStarted 2 0 SleepOut 0 freshPanel))\<lparr>panel_header := []\<rparr>"
    unfolding p_def panelMessage_def header_sent [OF freshPanel_state(1,2)] by (simp add: panel_selectChanged_def)
  then have p: "panelReady 10000000 p" "panel_header p = []" "width p = 466" "height p = 466" "xOffset p = 6" "yOffset p = 0"
      "\<not> sleeping p" "\<not> simulateBrightness p"
    using freshPanel_state
    by (simp_all add: panelCommand_def commandStarted_def panelReady_def panel_commands Let_def scheduleRefresh_def)
  have "litPanel = panelMessage 10000000 [2, 0, DisplayOn, 0] p" by (simp only: litPanel_def p_def)
  then have lit: "litPanel = (panelCommand 10000000 DisplayOn (commandStarted 2 0 DisplayOn 0 p))\<lparr>panel_header := []\<rparr>"
    unfolding panelMessage_def header_sent [OF p(1,2)] by (simp add: panel_selectChanged_def)
  show "panelReady 10000000 litPanel" "panel_header litPanel = []" "width litPanel = 466" "height litPanel = 466"
    "xOffset litPanel = 6" "yOffset litPanel = 0" "panelLevel litPanel = 255"
    unfolding lit using p by (simp_all add: panelCommand_def commandStarted_def panelReady_def panel_commands Let_def panelLevel_def panelVisible_def)
qed

definition panelBus :: "int \<Rightarrow> (co5300 \<times> bool) spi_bus" where
  "panelBus t = \<lparr>ssi_transfer = (\<lambda>v (p, sel). (if sel then panel_transfer t v p else p, sel)),
     cs_line = (\<lambda>k v (p, sel). if k = 0 then (if sel = v then panel_selectChanged v p else p, \<not> v) else (p, sel))\<rparr>"

lemma panelBus_attached: "attachedPanel (panelBus t) t fst snd"
  by (auto simp: attachedPanel_def panelBus_def split: prod.split)

theorem firmware_draws_window_witness:
  "co5300ReadPixels (fst (ssi (drawBySpi panelBus (flatMemory sampleContent) 10000000 10000000 10000000 6 7 5 5 4
     (sampleMaster (litPanel, False))))) ! 2330 = 0x1234"
proof -
  let ?s = "sampleMaster (litPanel, False) :: (co5300 \<times> bool, unit) spi_master"
  have px: "pixelBytes [0x1234, 0xF800] = [0x12, 0x34, 0xF8, 0]" by (simp add: pixelBytes_def high_def low_def)
  have "panelMaster snd ?s"
    by (simp add: panelMaster_def sampleMaster_def panelSelected_def spiReg_def spi_registers)
  moreover have "ssi ?s = (litPanel, False)" by (simp add: sampleMaster_def)
  moreover have "spiDmaRead (flatMemory sampleContent) 4 ?s =
      (Some (pixelBytes [0x1234, 0xF800]), snd (spiDmaRead (flatMemory sampleContent) 4 ?s))"
    using sampleRead px by (simp add: prod_eq_iff)
  moreover have "inWindow 6 7 5 5 6 5" by (simp add: inWindow_def)
  ultimately show ?thesis
    using firmware_draws_window [where B = panelBus and panel = fst and selected = snd and s = ?s and ?t1.0 = 10000000
        and ?t2.0 = 10000000 and ?t3.0 = 10000000 and a = 6 and b = 7 and c = 5 and e = 5 and pixels = "[4660, 63488]"
        and D = "flatMemory sampleContent" and row = 5 and col = 0, OF panelBus_attached] litPanel_state
    by (simp add: GramWidth_def GramHeight_def viewportFits_def dimmed_def)
qed

end
