(* ===== verification/Float32.thy ===== *)
theory Float32
  imports Prelude Complex_Main "HOL-Library.Log_Nat"
begin

text \<open>
  The part of C's \<open>float\<close> and \<open>double\<close> (IEEE binary32 and binary64, round to nearest even) that the
  code uses: finite values are rationals, a result is rounded to 24 or 53 significant bits. A
  \<open>float\<close> may overflow to an infinity; the \<open>double\<close> values of the code stay far from it. The sign
  of zero makes no difference to the operations used and is not kept.
\<close>

datatype f32 = Fin rat | PosInf | NegInf | NaN

definition exponentOf :: "rat \<Rightarrow> int" where
  "exponentOf x =
     (let (n, d) = quotient_of \<bar>x\<bar>; e = int (floorlog 2 (nat n)) - int (floorlog 2 (nat d)) in
      if 2 powi e \<le> \<bar>x\<bar> then e else e - 1)"

definition roundEven :: "rat \<Rightarrow> int" where
  "roundEven x =
     (let f = \<lfloor>x\<rfloor>; r = x - of_int f in
      if r < 1 / 2 \<or> (r = 1 / 2 \<and> even f) then f else f + 1)"

text \<open>Rounding to \<open>p\<close> significant bits, below \<open>2 powi emin\<close> to fewer.\<close>

definition roundTo :: "int \<Rightarrow> int \<Rightarrow> rat \<Rightarrow> rat" where
  "roundTo p emin x = (let unit = 2 powi (max (exponentOf x) emin - (p - 1)) in of_int (roundEven (x / unit)) * unit)"

definition round32 :: "rat \<Rightarrow> f32" where
  "round32 x =
     (if x = 0 then Fin 0
      else
        let r = roundTo 24 (-126) x in
        if 2 ^ 128 \<le> \<bar>r\<bar> then (if 0 < x then PosInf else NegInf) else Fin r)"

definition round64 :: "rat \<Rightarrow> rat" where
  "round64 x = (if x = 0 then 0 else roundTo 53 (-1022) x)"

text \<open>The number of a finite value, 0 for the others.\<close>

definition finitePart :: "f32 \<Rightarrow> rat" where
  "finitePart v = (case v of Fin x \<Rightarrow> x | _ \<Rightarrow> 0)"

text \<open>\<open>CLAMP\<close> of a number that is not \<open>NaN\<close> between finite bounds.\<close>

definition clampTo :: "rat \<Rightarrow> rat \<Rightarrow> f32 \<Rightarrow> rat" where
  "clampTo lo hi v = (case v of
     Fin x \<Rightarrow> if hi < x then hi else if x < lo then lo else x
   | PosInf \<Rightarrow> hi | NegInf \<Rightarrow> lo | NaN \<Rightarrow> lo)"

definition magnitudeAbove :: "rat \<Rightarrow> f32 \<Rightarrow> bool" where
  "magnitudeAbove t v \<longleftrightarrow> (case v of Fin x \<Rightarrow> t < \<bar>x\<bar> | NaN \<Rightarrow> False | _ \<Rightarrow> True)"

text \<open>\<open>lroundf\<close> rounds halves away from zero.\<close>

definition lroundf :: "rat \<Rightarrow> int" where
  "lroundf x = (if 0 \<le> x then \<lfloor>x + 1 / 2\<rfloor> else - \<lfloor>1 / 2 - x\<rfloor>)"

lemma roundEven_of_int [simp]: "roundEven (of_int k) = k"
  by (simp add: roundEven_def)

lemma lroundf_of_int [simp]: "lroundf (of_int k) = k"
proof -
  have "\<lfloor>of_int k + 1 / 2 :: rat\<rfloor> = k" "\<lfloor>1 / 2 - of_int k :: rat\<rfloor> = - k" by (rule floor_unique; simp)+
  then show ?thesis by (simp add: lroundf_def)
qed

text \<open>Integers that have enough bits are kept.\<close>

lemma roundTo_of_int:
  assumes "\<bar>k\<bar> < 2 ^ p" and "k \<noteq> 0" and "emin \<le> 0" and "0 < p"
  shows "roundTo (int p) emin (of_int k) = of_int k"
proof -
  have "quotient_of (of_int j) = (j, 1)" for j
    unfolding Fract_of_int_eq [symmetric] quotient_of_Fract by (simp add: normalize_def)
  then have q: "quotient_of \<bar>of_int k\<bar> = (\<bar>k\<bar>, 1)" unfolding of_int_abs [symmetric] .
  have "floorlog 2 (nat \<bar>k\<bar>) \<le> p" using assms by (intro floorlog_leI) (auto simp: nat_less_iff)
  moreover have "floorlog 2 (nat 1) = 1" by (simp add: floorlog_def)
  moreover define m where "m = exponentOf (of_int k)"
  ultimately have "m \<le> int p - 1" by (simp add: exponentOf_def q Let_def)
  moreover define u where "u = max m emin"
  ultimately have "u - (int p - 1) \<le> 0" using assms(3,4) by (simp add: max_def split: if_splits)
  then obtain n where n: "u - (int p - 1) = - int n" by (metis nonpos_int_cases)
  then have e: "max (exponentOf (of_int k)) emin - (int p - 1) = - int n" by (simp only: u_def m_def)
  have "(of_int k :: rat) / 2 powi (- int n) = of_int (k * 2 ^ n)" by (simp add: power_int_minus field_simps)
  moreover have "of_int (k * 2 ^ n) * (2 powi (- int n) :: rat) = of_int k" by (simp add: power_int_minus field_simps)
  ultimately show ?thesis by (simp add: roundTo_def Let_def e del: of_int_mult)
qed

lemma round32_of_int:
  assumes "\<bar>k\<bar> < 2 ^ 24"
  shows "round32 (of_int k) = Fin (of_int k)"
proof -
  have "\<bar>of_int k :: rat\<bar> < 2 ^ 24" using assms by (metis of_int_abs of_int_less_iff of_int_numeral of_int_power)
  also have "(2 :: rat) ^ 24 < 2 ^ 128" by simp
  finally have "\<not> (2 ^ 128 \<le> \<bar>of_int k :: rat\<bar>)" by simp
  then show ?thesis using roundTo_of_int [OF assms] by (cases "k = 0") (simp_all add: round32_def)
qed

lemma round64_of_int: "\<bar>k\<bar> < 2 ^ 53 \<Longrightarrow> round64 (of_int k) = of_int k"
  using roundTo_of_int [of k 53 "-1022"] by (cases "k = 0") (simp_all add: round64_def)

lemma round64_of_nat: "n < 2 ^ 53 \<Longrightarrow> round64 (of_nat n) = of_nat n"
  using round64_of_int [of "int n"] by simp

lemma round64_numeral [simp]: "(numeral n :: nat) < 2 ^ 53 \<Longrightarrow> round64 (numeral n) = numeral n"
  using round64_of_nat [of "numeral n"] by simp

end
