(* ===== verification/Bmi270.thy ===== *)
theory Bmi270
  imports I2cDevice Float32
begin

text \<open>
  The motion sensor of the board, \<open>qemu/devices/bmi270.c\<close>: upload of the configuration file, sampling
  of the accelerometer and the gyroscope, any-motion detection and the two interrupt lines. The clock
  is an argument; \<open>sampleTimer\<close> and \<open>motionTimer\<close> are the pending expiries, \<open>irqs\<close> the levels last given
  to the two lines. The arrays \<open>config\<close>, \<open>features\<close> and the bit set \<open>written\<close> are functions on their
  indices; sensor 0 is the accelerometer, sensor 1 the gyroscope. Times are unbounded integers.
\<close>

unbundle bit_operations_syntax

section \<open>Registers and state\<close>

definition ConfigSize :: nat where "ConfigSize = 8192"
definition AnyMotionPeriodNs :: int where "AnyMotionPeriodNs = 20000000"
definition DataReadyPulseNs :: int where "DataReadyPulseNs = 156250"

definition StatusReg :: byte where "StatusReg = 0x03"
definition AccelDataReg :: byte where "AccelDataReg = 0x0C"
definition GyroDataReg :: byte where "GyroDataReg = 0x12"
definition FeatureStatusReg :: byte where "FeatureStatusReg = 0x1C"
definition DataStatusReg :: byte where "DataStatusReg = 0x1D"
definition InternalStatusReg :: byte where "InternalStatusReg = 0x21"
definition FeaturePageReg :: byte where "FeaturePageReg = 0x2F"
definition FeatureDataReg :: byte where "FeatureDataReg = 0x30"
definition AccelConfReg :: byte where "AccelConfReg = 0x40"
definition AccelRangeReg :: byte where "AccelRangeReg = 0x41"
definition GyroConfReg :: byte where "GyroConfReg = 0x42"
definition GyroRangeReg :: byte where "GyroRangeReg = 0x43"
definition Int1ControlReg :: byte where "Int1ControlReg = 0x53"
definition IntLatchReg :: byte where "IntLatchReg = 0x55"
definition Int1MapReg :: byte where "Int1MapReg = 0x56"
definition IntDataMapReg :: byte where "IntDataMapReg = 0x58"
definition InitControlReg :: byte where "InitControlReg = 0x59"
definition InitAddressLowReg :: byte where "InitAddressLowReg = 0x5B"
definition InitAddressHighReg :: byte where "InitAddressHighReg = 0x5C"
definition InitDataReg :: byte where "InitDataReg = 0x5E"
definition PowerConfReg :: byte where "PowerConfReg = 0x7C"
definition ImuPowerReg :: byte where "ImuPowerReg = 0x7D"
definition CommandReg :: byte where "CommandReg = 0x7E"

lemmas bmi270_registers = StatusReg_def AccelDataReg_def GyroDataReg_def FeatureStatusReg_def DataStatusReg_def
  InternalStatusReg_def FeaturePageReg_def FeatureDataReg_def AccelConfReg_def AccelRangeReg_def GyroConfReg_def
  GyroRangeReg_def Int1ControlReg_def IntLatchReg_def Int1MapReg_def IntDataMapReg_def InitControlReg_def
  InitAddressLowReg_def InitAddressHighReg_def InitDataReg_def PowerConfReg_def ImuPowerReg_def CommandReg_def

record bmi270 = i2c_device +
  config :: "nat \<Rightarrow> byte"
  writtenBits :: "nat \<Rightarrow> bool"
  configOffset :: nat
  loadedBytes :: nat
  features :: "nat \<Rightarrow> nat \<Rightarrow> byte"
  sampleTimer :: "int option"
  nextSampleNs :: "nat \<Rightarrow> int"
  dataReadyUntilNs :: "nat \<Rightarrow> int"
  accelerationG :: "nat \<Rightarrow> rat"
  angularVelocityDps :: "nat \<Rightarrow> rat"
  motionTimer :: "int option"
  motionReferenceG :: "nat \<Rightarrow> rat"
  motionSamples :: nat
  motionActive :: byte
  irqs :: "nat \<Rightarrow> bool"

definition setBmi :: "byte \<Rightarrow> byte \<Rightarrow> bmi270 \<Rightarrow> bmi270" where
  "setBmi a v d = d\<lparr>registers := (registers d)(a := v)\<rparr>"

section \<open>Interrupt lines\<close>

definition dataReady :: "int \<Rightarrow> bmi270 \<Rightarrow> bool" where
  "dataReady now d \<longleftrightarrow> (if registers d IntLatchReg AND 1 \<noteq> 0 then registers d DataStatusReg AND 0xC0 \<noteq> 0
     else now < dataReadyUntilNs d 0 \<or> now < dataReadyUntilNs d 1)"

definition irqLevelOf :: "int \<Rightarrow> nat \<Rightarrow> bmi270 \<Rightarrow> bool" where
  "irqLevelOf now pin d =
     (let latched = (registers d IntLatchReg AND 1 \<noteq> 0);
          feature = (if latched then registers d FeatureStatusReg else motionActive d);
          control = registers d (Int1ControlReg + of_nat pin);
          active = (feature AND registers d (Int1MapReg + of_nat pin) \<noteq> 0 \<or>
            (dataReady now d \<and> registers d IntDataMapReg AND push_bit (pin * 4) 4 \<noteq> 0)) in
      control AND 8 \<noteq> 0 \<and> active = (control AND 2 \<noteq> 0))"

definition updateIrqs :: "int \<Rightarrow> bmi270 \<Rightarrow> bmi270" where
  "updateIrqs now d = d\<lparr>irqs := (\<lambda>pin. if pin < 2 then irqLevelOf now pin d else irqs d pin)\<rparr>"

section \<open>Sampling\<close>

definition sensorPeriodNs :: "bmi270 \<Rightarrow> nat \<Rightarrow> int" where
  "sensorPeriodNs d sensor =
     (let odr = registers d (AccelConfReg + of_nat (sensor * 2)) AND 15; accelerometer = (sensor = 0);
          valid = (if accelerometer then 1 \<le> odr \<and> odr \<le> 12
                   else 6 \<le> odr \<and> odr \<le> 13 \<and> registers d GyroRangeReg AND 7 \<le> 4) in
      if \<not> valid \<or> registers d InternalStatusReg \<noteq> 1 \<or>
         registers d ImuPowerReg AND (if accelerometer then 4 else 2) = 0 then 0
      else drop_bit (unat odr - 1) 1280000000)"

definition sensorScale :: "nat \<Rightarrow> byte \<Rightarrow> rat" where
  "sensorScale sensor rangeBits =
     (if sensor = 0 then of_nat (drop_bit (unat rangeBits) 16384)
      else finitePart (round32 (32768 / of_nat (drop_bit (unat rangeBits) 2000))))"

text \<open>One axis as the register value it becomes.\<close>

definition sampledValue :: "nat \<Rightarrow> byte \<Rightarrow> rat \<Rightarrow> u16" where
  "sampledValue sensor rangeBits input =
     of_int (lroundf (clampTo (-32768) 32767 (round32 (input * sensorScale sensor rangeBits))))"

definition readyBit :: "nat \<Rightarrow> byte" where
  "readyBit sensor = (if sensor = 0 then 0x80 else 0x40)"

definition storeSample :: "nat \<Rightarrow> bmi270 \<Rightarrow> bmi270" where
  "storeSample sensor d =
     (let rangeBits = registers d (AccelRangeReg + of_nat (sensor * 2)) AND (if sensor = 0 then 3 else 7);
          input = (if sensor = 0 then accelerationG d else angularVelocityDps d);
          base = (if sensor = 0 then AccelDataReg else GyroDataReg) in
      d\<lparr>registers := fold (\<lambda>axis. stw (base + of_nat (axis * 2)) (sampledValue sensor rangeBits (input axis)))
         [0..<3] (registers d)\<rparr>)"

definition earliest :: "int option \<Rightarrow> int \<Rightarrow> int option" where
  "earliest t u = Some (case t of None \<Rightarrow> u | Some v \<Rightarrow> min v u)"

text \<open>One sensor of \<open>sampleSensors\<close>; \<open>t\<close> is \<open>nextEventNs\<close>, \<open>None\<close> standing for \<open>INT64_MAX\<close>.\<close>

definition sampleSensor :: "int \<Rightarrow> nat \<Rightarrow> int option \<times> bmi270 \<Rightarrow> int option \<times> bmi270" where
  "sampleSensor now sensor = (\<lambda>(t, d).
     let periodNs = sensorPeriodNs d sensor; ready = readyBit sensor in
     if periodNs = 0 then
       (t, setBmi StatusReg (registers d StatusReg AND NOT ready)
            (setBmi DataStatusReg (registers d DataStatusReg AND NOT ready)
              (d\<lparr>nextSampleNs := (nextSampleNs d)(sensor := 0), dataReadyUntilNs := (dataReadyUntilNs d)(sensor := 0)\<rparr>)))
     else
       let d = (if nextSampleNs d sensor = 0 then d\<lparr>nextSampleNs := (nextSampleNs d)(sensor := now + periodNs)\<rparr> else d);
           d = (if nextSampleNs d sensor \<le> now then
                  storeSample sensor
                    (setBmi StatusReg (registers d StatusReg OR ready)
                      (setBmi DataStatusReg (registers d DataStatusReg OR ready)
                        (d\<lparr>nextSampleNs := (nextSampleNs d)(sensor := now + periodNs),
                           dataReadyUntilNs := (dataReadyUntilNs d)(sensor := now + DataReadyPulseNs)\<rparr>)))
                else d);
           t = earliest t (nextSampleNs d sensor) in
       (if now < dataReadyUntilNs d sensor then earliest t (dataReadyUntilNs d sensor) else t, d))"

definition sampleSensors :: "int \<Rightarrow> bmi270 \<Rightarrow> bmi270" where
  "sampleSensors now d =
     (let (t, d) = sampleSensor now 1 (sampleSensor now 0 (None, d)) in updateIrqs now (d\<lparr>sampleTimer := t\<rparr>))"

section \<open>Any-motion detection\<close>

definition axesDuration :: "bmi270 \<Rightarrow> u16" where
  "axesDuration d = le16 (features d 1 0x0C) (features d 1 0x0D)"

definition thresholdOutput :: "bmi270 \<Rightarrow> u16" where
  "thresholdOutput d = le16 (features d 1 0x0E) (features d 1 0x0F)"

definition motionPeriodNs :: "bmi270 \<Rightarrow> int" where
  "motionPeriodNs d =
     (let periodNs = sensorPeriodNs d 0 in
      if periodNs = 0 \<or> axesDuration d AND 0xE000 = 0 \<or> features d 1 0x0F AND 0x80 = 0 then 0
      else if registers d AccelConfReg AND 0x80 \<noteq> 0 then AnyMotionPeriodNs else max AnyMotionPeriodNs periodNs)"

definition rangeG :: "bmi270 \<Rightarrow> rat" where
  "rangeG d = of_nat (push_bit (unat (registers d AccelRangeReg AND 3)) 2)"

definition clampedG :: "bmi270 \<Rightarrow> nat \<Rightarrow> rat" where
  "clampedG d axis = clampTo (- rangeG d) (rangeG d) (Fin (accelerationG d axis))"

definition exceedsThreshold :: "bmi270 \<Rightarrow> bool" where
  "exceedsThreshold d \<longleftrightarrow> (\<exists>axis \<in> {0, 1, 2}. axesDuration d AND push_bit axis 0x2000 \<noteq> 0 \<and>
     magnitudeAbove (of_nat (unat (thresholdOutput d AND 0x07FF)) / 2048) (round32 (clampedG d axis - motionReferenceG d axis)))"

definition requiredSamples :: "bmi270 \<Rightarrow> nat" where
  "requiredSamples d = max 1 (unat (axesDuration d AND 0x1FFF))"

definition motionOutput :: "bmi270 \<Rightarrow> byte" where
  "motionOutput d =
     (let output = unat (drop_bit 11 (thresholdOutput d) AND 15) in
      if 1 \<le> output \<and> output \<le> 8 then push_bit (output - 1) 1 else 0)"

definition sampleMotion :: "int \<Rightarrow> bmi270 \<Rightarrow> bmi270" where
  "sampleMotion now d =
     (let exceeds = exceedsThreshold d; acceleration = clampedG d;
          d = d\<lparr>motionTimer := None, motionActive := 0\<rparr>;
          d = (if \<not> exceeds then d\<lparr>motionSamples := 0\<rparr>
               else
                 let d = d\<lparr>motionSamples := motionSamples d + 1\<rparr> in
                 if requiredSamples d \<le> motionSamples d then
                   let d = d\<lparr>motionSamples := requiredSamples d, motionActive := motionOutput d\<rparr> in
                   (setBmi FeatureStatusReg (registers d FeatureStatusReg OR motionActive d) d)
                     \<lparr>motionReferenceG := (\<lambda>axis. if axis < 3 then acceleration axis else motionReferenceG d axis)\<rparr>
                 else d) in
      updateIrqs now (d\<lparr>motionTimer := Some (now + motionPeriodNs d)\<rparr>))"

definition configureMotion :: "int \<Rightarrow> bmi270 \<Rightarrow> bmi270" where
  "configureMotion now d =
     (let d = d\<lparr>motionTimer := None, motionSamples := 0, motionActive := 0,
            motionReferenceG := (\<lambda>axis. if axis < 3 then clampedG d axis else motionReferenceG d axis)\<rparr>;
          periodNs = motionPeriodNs d in
      updateIrqs now (if periodNs \<noteq> 0 then d\<lparr>motionTimer := Some (now + periodNs)\<rparr> else d))"

section \<open>Reset\<close>

definition bmi270_resetRegisters :: "int \<Rightarrow> bmi270 \<Rightarrow> bmi270" where
  "bmi270_resetRegisters now d = configureMotion now (d\<lparr>
     registers := (\<lambda>_. 0)(0x00 := 0x24, StatusReg := 0x10, AccelConfReg := 0xA8, AccelRangeReg := 2,
       GyroConfReg := 0xA9, PowerConfReg := 3),
     config := (\<lambda>_. 0), writtenBits := (\<lambda>_. False), features := (\<lambda>_ _. 0), configOffset := 0, loadedBytes := 0,
     nextSampleNs := (\<lambda>_. 0), dataReadyUntilNs := (\<lambda>_. 0), sampleTimer := None,
     registerAddress := 0, registerPhase := False\<rparr>)"

section \<open>I2C\<close>

definition sensorTicks :: "int \<Rightarrow> u32" where
  "sensorTicks now = of_int (now div 390625 * 10 + now mod 390625 * 10 div 390625)"

definition snapshotTime :: "int \<Rightarrow> bmi270 \<Rightarrow> bmi270" where
  "snapshotTime now d =
     (let ticks = sensorTicks now in
      d\<lparr>registers := stw 0x22 (if registers d ImuPowerReg AND 8 \<noteq> 0 then 1024 else 0x8000)
         ((registers d)(0x18 := ucast ticks, 0x19 := ucast (drop_bit 8 ticks), 0x1A := ucast (drop_bit 16 ticks)))\<rparr>)"

definition bmi270_event :: "int \<Rightarrow> i2c_event \<Rightarrow> bmi270 \<Rightarrow> bmi270" where
  "bmi270_event now e d =
     (let d = (if e = I2C_START_RECV then snapshotTime now d else d) in
      if e = I2C_START_SEND then d\<lparr>registerPhase := True\<rparr> else d)"

definition bmi270_receive :: "int \<Rightarrow> bmi270 \<Rightarrow> byte \<times> bmi270" where
  "bmi270_receive now d =
     (let address = registerAddress d; d = d\<lparr>registerAddress := address + 1\<rparr>; v = registers d address in
      if FeatureDataReg \<le> address \<and> address < AccelConfReg then
        (features d (unat (registers d FeaturePageReg AND 7)) (unat (address - FeatureDataReg)), d)
      else if address = InitDataReg then
        (config d (configOffset d), d\<lparr>configOffset := (configOffset d + 1) mod ConfigSize, registerAddress := address\<rparr>)
      else if address = 0x26 then (0x80, d\<lparr>registerAddress := address\<rparr>)
      else if address = FeatureStatusReg \<or> address = DataStatusReg then (v, updateIrqs now (setBmi address 0 d))
      else if AccelDataReg \<le> address \<and> address \<le> 0x11 then
        (v, setBmi StatusReg (registers d StatusReg AND NOT 0x80) d)
      else if GyroDataReg \<le> address \<and> address \<le> 0x17 then
        (v, setBmi StatusReg (registers d StatusReg AND NOT 0x40) d)
      else (v, d))"

definition writeInitControl :: "int \<Rightarrow> byte \<Rightarrow> bmi270 \<Rightarrow> bmi270" where
  "writeInitControl now v d =
     (let d = setBmi InitControlReg (v AND 1) d;
          d = (if v AND 1 = 0 then
                 setBmi InternalStatusReg 0 (d\<lparr>writtenBits := (\<lambda>_. False), loadedBytes := 0\<rparr>)
               else
                 let d = setBmi InternalStatusReg (if loadedBytes d = ConfigSize then 1 else 2) d in
                 if registers d InternalStatusReg = 1 then
                   d\<lparr>features := (\<lambda>_ _. 0)(1 := (\<lambda>_. 0)(0x0C := 0x05, 0x0D := 0xE0, 0x0E := 0xAA, 0x0F := 0x38))\<rparr>
                 else d);
          d = setBmi FeatureStatusReg 0 (setBmi DataStatusReg 0 d) in
      configureMotion now (sampleSensors now d))"

definition writeInitData :: "byte \<Rightarrow> bmi270 \<Rightarrow> bmi270" where
  "writeInitData v d =
     (let offset = configOffset d;
          d = (if registers d InitControlReg AND 1 = 0 then
                 let d = d\<lparr>config := (config d)(offset := v)\<rparr> in
                 if \<not> writtenBits d offset
                 then d\<lparr>writtenBits := (writtenBits d)(offset := True), loadedBytes := loadedBytes d + 1\<rparr> else d
               else d) in
      d\<lparr>configOffset := (offset + 1) mod ConfigSize, registerAddress := InitDataReg\<rparr>)"

definition writeFeature :: "int \<Rightarrow> byte \<Rightarrow> byte \<Rightarrow> bmi270 \<Rightarrow> bmi270" where
  "writeFeature now address v d =
     (let page = unat (registers d FeaturePageReg); i = unat (address - FeatureDataReg) in
      if features d page i \<noteq> v then
        let d = d\<lparr>features := (features d)(page := (features d page)(i := v))\<rparr> in
        if registers d FeaturePageReg = 1 \<and> 0x3C \<le> address then configureMotion now d else d
      else d)"

definition storedRegister :: "byte \<Rightarrow> bool" where
  "storedRegister address \<longleftrightarrow> address = FeaturePageReg \<or> (AccelConfReg \<le> address \<and> address \<le> IntDataMapReg) \<or>
     address = InitAddressLowReg \<or> address = InitAddressHighReg \<or> (0x68 \<le> address \<and> address \<le> ImuPowerReg)"

definition writeStored :: "int \<Rightarrow> byte \<Rightarrow> byte \<Rightarrow> bmi270 \<Rightarrow> bmi270" where
  "writeStored now address v d =
     (let changed = registers d address XOR v;
          d = setBmi address (if address = FeaturePageReg then v AND 7 else v) d in
      if address = InitAddressLowReg \<or> address = InitAddressHighReg then
        d\<lparr>configOffset := (unat (registers d InitAddressLowReg AND 15) + unat (registers d InitAddressHighReg) * 16) * 2\<rparr>
      else if changed \<noteq> 0 \<and> ((AccelConfReg \<le> address \<and> address \<le> GyroRangeReg) \<or> address = ImuPowerReg) then
        let d = (if (address = AccelConfReg \<or> address = GyroConfReg) \<and> changed AND 15 \<noteq> 0
                 then d\<lparr>nextSampleNs := (nextSampleNs d)(unat (address - AccelConfReg) div 2 := 0)\<rparr> else d);
            d = sampleSensors now d in
        if address = AccelConfReg \<or> address = AccelRangeReg \<or> (address = ImuPowerReg \<and> changed AND 4 \<noteq> 0)
        then configureMotion now d else d
      else if Int1ControlReg \<le> address \<and> address \<le> IntDataMapReg then updateIrqs now d
      else d)"

definition bmi270_send :: "int \<Rightarrow> byte \<Rightarrow> bmi270 \<Rightarrow> bmi270" where
  "bmi270_send now v d =
     (if registerPhase d then d\<lparr>registerAddress := v, registerPhase := False\<rparr>
      else
        let address = registerAddress d; d = d\<lparr>registerAddress := address + 1\<rparr> in
        if address = CommandReg then (if v = 0xB6 then bmi270_resetRegisters now d else d)
        else if address = InitControlReg then writeInitControl now v d
        else if address = InitDataReg then writeInitData v d
        else if FeatureDataReg \<le> address \<and> address < AccelConfReg then writeFeature now address v d
        else if storedRegister address then writeStored now address v d
        else d)"

section \<open>The host and creation\<close>

definition bmi270SetMotion :: "(nat \<Rightarrow> f32) \<Rightarrow> (nat \<Rightarrow> f32) \<Rightarrow> bmi270 \<Rightarrow> bmi270" where
  "bmi270SetMotion a w d = d\<lparr>
     accelerationG := (\<lambda>axis. if axis < 3 then finitePart (a axis) else accelerationG d axis),
     angularVelocityDps := (\<lambda>axis. if axis < 3 then finitePart (w axis) else angularVelocityDps d axis)\<rparr>"

text \<open>QEMU takes a timer off before its callback runs.\<close>

definition bmi270_sampleTimer :: "int \<Rightarrow> bmi270 \<Rightarrow> bmi270" where
  "bmi270_sampleTimer now d = sampleSensors now (d\<lparr>sampleTimer := None\<rparr>)"

definition bmi270_init :: "int \<Rightarrow> bmi270" where
  "bmi270_init now = bmi270_resetRegisters now \<lparr>registers = (\<lambda>_. 0), registerAddress = 0, registerPhase = False,
     config = (\<lambda>_. 0), writtenBits = (\<lambda>_. False), configOffset = 0, loadedBytes = 0, features = (\<lambda>_ _. 0),
     sampleTimer = None, nextSampleNs = (\<lambda>_. 0), dataReadyUntilNs = (\<lambda>_. 0), accelerationG = (\<lambda>_. 0)(2 := 1),
     angularVelocityDps = (\<lambda>_. 0), motionTimer = None, motionReferenceG = (\<lambda>_. 0), motionSamples = 0,
     motionActive = 0, irqs = (\<lambda>_. False)\<rparr>"

end
