(* ===== verification/ImuProperties.thy ===== *)
theory ImuProperties
  imports Bmi270
begin

text \<open>
  The motion sensor as a state machine over bus callbacks, timer expiries and the host's input: its
  timers run exactly while there is something to do, no sensor delivers before the configuration file
  is complete, and a sample is what the guest reads.
\<close>

unbundle bit_operations_syntax

section \<open>What a sample changes\<close>

definition sampleRegister :: "byte \<Rightarrow> bool" where
  "sampleRegister a \<longleftrightarrow> a = StatusReg \<or> a = DataStatusReg \<or> (0x0C \<le> a \<and> a \<le> 0x17)"

lemma storeSample_other:
  assumes "\<not> (0x0C \<le> a \<and> a \<le> 0x17)"
  shows "registers (storeSample sensor d) a = registers d a"
proof -
  have "a \<notin> {0x0C, 0x0D, 0x0E, 0x0F, 0x10, 0x11, 0x12, 0x13, 0x14, 0x15, 0x16, 0x17}" using assms by auto
  then show ?thesis
    by (simp add: storeSample_def Let_def stw_def upt_rec AccelDataReg_def GyroDataReg_def)
qed

lemma storeSample_frame [simp]:
  "config (storeSample sensor d) = config d" "writtenBits (storeSample sensor d) = writtenBits d"
  "configOffset (storeSample sensor d) = configOffset d" "loadedBytes (storeSample sensor d) = loadedBytes d"
  "features (storeSample sensor d) = features d" "motionTimer (storeSample sensor d) = motionTimer d"
  "nextSampleNs (storeSample sensor d) = nextSampleNs d" "dataReadyUntilNs (storeSample sensor d) = dataReadyUntilNs d"
  "accelerationG (storeSample sensor d) = accelerationG d" "angularVelocityDps (storeSample sensor d) = angularVelocityDps d"
  "registerAddress (storeSample sensor d) = registerAddress d" "registerPhase (storeSample sensor d) = registerPhase d"
  by (simp_all add: storeSample_def Let_def)

lemma setBmi_simps [simp]:
  "registers (setBmi a v d) = (registers d)(a := v)"
  "config (setBmi a v d) = config d" "writtenBits (setBmi a v d) = writtenBits d"
  "configOffset (setBmi a v d) = configOffset d" "loadedBytes (setBmi a v d) = loadedBytes d"
  "features (setBmi a v d) = features d" "motionTimer (setBmi a v d) = motionTimer d" "sampleTimer (setBmi a v d) = sampleTimer d"
  "nextSampleNs (setBmi a v d) = nextSampleNs d" "dataReadyUntilNs (setBmi a v d) = dataReadyUntilNs d"
  "accelerationG (setBmi a v d) = accelerationG d" "angularVelocityDps (setBmi a v d) = angularVelocityDps d"
  "registerAddress (setBmi a v d) = registerAddress d" "registerPhase (setBmi a v d) = registerPhase d"
  by (simp_all add: setBmi_def)

lemma updateIrqs_frame [simp]:
  "registers (updateIrqs now d) = registers d"
  "config (updateIrqs now d) = config d" "writtenBits (updateIrqs now d) = writtenBits d"
  "configOffset (updateIrqs now d) = configOffset d" "loadedBytes (updateIrqs now d) = loadedBytes d"
  "features (updateIrqs now d) = features d" "motionTimer (updateIrqs now d) = motionTimer d" "sampleTimer (updateIrqs now d) = sampleTimer d"
  "nextSampleNs (updateIrqs now d) = nextSampleNs d" "accelerationG (updateIrqs now d) = accelerationG d"
  "registerAddress (updateIrqs now d) = registerAddress d" "registerPhase (updateIrqs now d) = registerPhase d"
  by (simp_all add: updateIrqs_def)

lemma sampleSensor_frame [simp]:
  "config (snd (sampleSensor now sensor (t, d))) = config d" "writtenBits (snd (sampleSensor now sensor (t, d))) = writtenBits d"
  "configOffset (snd (sampleSensor now sensor (t, d))) = configOffset d" "loadedBytes (snd (sampleSensor now sensor (t, d))) = loadedBytes d"
  "features (snd (sampleSensor now sensor (t, d))) = features d" "motionTimer (snd (sampleSensor now sensor (t, d))) = motionTimer d"
  "accelerationG (snd (sampleSensor now sensor (t, d))) = accelerationG d"
  "registerAddress (snd (sampleSensor now sensor (t, d))) = registerAddress d" "registerPhase (snd (sampleSensor now sensor (t, d))) = registerPhase d"
  by (simp_all add: sampleSensor_def Let_def)

lemma sampleSensor_other:
  "\<not> sampleRegister a \<Longrightarrow> registers (snd (sampleSensor now sensor (t, d))) a = registers d a"
  by (simp add: sampleSensor_def Let_def storeSample_other sampleRegister_def)

text \<open>Whether a sensor runs depends on few registers, none of which a sample changes.\<close>

definition rateRegister :: "byte \<Rightarrow> bool" where
  "rateRegister a \<longleftrightarrow> a \<in> {AccelConfReg, GyroConfReg, GyroRangeReg, InternalStatusReg, ImuPowerReg}"

lemma rate_not_sample: "rateRegister a \<Longrightarrow> \<not> sampleRegister a"
  by (auto simp: rateRegister_def sampleRegister_def bmi270_registers)

lemma sensorPeriod_cong:
  assumes "\<And>a. rateRegister a \<Longrightarrow> registers e a = registers d a" and "sensor < 2"
  shows "sensorPeriodNs e sensor = sensorPeriodNs d sensor"
proof -
  have "rateRegister (AccelConfReg + of_nat (sensor * 2))"
    using assms(2) by (auto simp: rateRegister_def bmi270_registers less_2_cases_iff)
  then have "registers e (AccelConfReg + of_nat (sensor * 2)) = registers d (AccelConfReg + of_nat (sensor * 2))" by (rule assms(1))
  moreover have "registers e GyroRangeReg = registers d GyroRangeReg"
      "registers e InternalStatusReg = registers d InternalStatusReg" "registers e ImuPowerReg = registers d ImuPowerReg"
    by (rule assms(1), simp add: rateRegister_def)+
  ultimately show ?thesis unfolding sensorPeriodNs_def by (simp only:)
qed

lemma sampleSensor_period:
  "s < 2 \<Longrightarrow> sensorPeriodNs (snd (sampleSensor now sensor (t, d))) s = sensorPeriodNs d s"
  by (rule sensorPeriod_cong) (simp_all add: sampleSensor_other rate_not_sample)

lemma sampleSensor_timer:
  "fst (sampleSensor now sensor (t, d)) \<noteq> None \<longleftrightarrow> t \<noteq> None \<or> sensorPeriodNs d sensor \<noteq> 0"
  by (simp add: sampleSensor_def Let_def earliest_def)

definition silent :: "bmi270 \<Rightarrow> nat \<Rightarrow> bool" where
  "silent d sensor \<longleftrightarrow> registers d DataStatusReg AND readyBit sensor = 0"

lemma sampleSensor_silent:
  "sensorPeriodNs d sensor = 0 \<Longrightarrow> silent (snd (sampleSensor now sensor (t, d))) sensor"
proof -
  have "(x AND NOT m) AND m = (0 :: byte)" for x m by (simp add: and.assoc)
  then show "sensorPeriodNs d sensor = 0 \<Longrightarrow> ?thesis"
    by (simp add: sampleSensor_def Let_def silent_def StatusReg_def DataStatusReg_def)
qed

lemma ready_bits:
  "(x AND NOT 0x80) AND 0x40 = x AND (0x40 :: byte)" "(x AND NOT 0x40) AND 0x80 = x AND (0x80 :: byte)"
  "(x OR 0x80) AND 0x40 = x AND (0x40 :: byte)" "(x OR 0x40) AND 0x80 = x AND (0x80 :: byte)"
  by (simp_all add: and.assoc bit.conj_disj_distrib2)

lemma sampleSensor_keeps_silent:
  "sensor < 2 \<Longrightarrow> other < 2 \<Longrightarrow> other \<noteq> sensor \<Longrightarrow> silent d other \<Longrightarrow> silent (snd (sampleSensor now sensor (t, d))) other"
  using ready_bits [of "registers d DataStatusReg"]
  by (auto simp: sampleSensor_def Let_def silent_def readyBit_def StatusReg_def DataStatusReg_def storeSample_other less_2_cases_iff)

lemma sampleSensors_frame [simp]:
  "config (sampleSensors now d) = config d" "writtenBits (sampleSensors now d) = writtenBits d"
  "configOffset (sampleSensors now d) = configOffset d" "loadedBytes (sampleSensors now d) = loadedBytes d"
  "features (sampleSensors now d) = features d" "motionTimer (sampleSensors now d) = motionTimer d"
  "registerAddress (sampleSensors now d) = registerAddress d" "registerPhase (sampleSensors now d) = registerPhase d"
  by (simp_all add: sampleSensors_def case_prod_beta)
    (metis prod.collapse sampleSensor_frame)+

lemma sampleSensors_other: "\<not> sampleRegister a \<Longrightarrow> registers (sampleSensors now d) a = registers d a"
  by (simp add: sampleSensors_def case_prod_beta) (metis prod.collapse sampleSensor_other)

lemma sampleSensors_effect:
  "sampleTimer (sampleSensors now d) \<noteq> None \<longleftrightarrow> sensorPeriodNs d 0 \<noteq> 0 \<or> sensorPeriodNs d 1 \<noteq> 0"
  "k < 2 \<Longrightarrow> sensorPeriodNs d k = 0 \<Longrightarrow> silent (sampleSensors now d) k"
proof -
  obtain t u where one: "sampleSensor now 0 (None, d) = (t, u)" by fastforce
  obtain t' v where two: "sampleSensor now 1 (t, u) = (t', v)" by fastforce
  have eq: "sampleSensors now d = updateIrqs now (v\<lparr>sampleTimer := t'\<rparr>)" by (simp only: sampleSensors_def one two prod.case Let_def)
  have period: "sensorPeriodNs u s = sensorPeriodNs d s" if "s < 2" for s
    using sampleSensor_period [OF that, of now 0 None d] by (simp add: one)
  have "t \<noteq> None \<longleftrightarrow> sensorPeriodNs d 0 \<noteq> 0" using sampleSensor_timer [of now 0 None d] by (simp add: one)
  moreover have "t' \<noteq> None \<longleftrightarrow> t \<noteq> None \<or> sensorPeriodNs u 1 \<noteq> 0" using sampleSensor_timer [of now 1 t u] by (simp only: two fst_conv)
  ultimately show "sampleTimer (sampleSensors now d) \<noteq> None \<longleftrightarrow> sensorPeriodNs d 0 \<noteq> 0 \<or> sensorPeriodNs d 1 \<noteq> 0"
    by (simp add: eq period)
  assume s: "k < 2" "sensorPeriodNs d k = 0"
  have "silent v k"
  proof (cases "k = 0")
    case True
    then have "silent u 0" using sampleSensor_silent [of d 0 now None] s by (simp add: one)
    then show ?thesis using sampleSensor_keeps_silent [of 1 0 u now t] True unfolding two by simp
  next
    case False
    then have "k = 1" using s by simp
    then show ?thesis using sampleSensor_silent [of u 1 now t] s period [of 1] unfolding two by simp
  qed
  then show "silent (sampleSensors now d) k" by (simp add: eq silent_def)
qed

section \<open>Any-motion\<close>

lemma motionPeriod_zero:
  "motionPeriodNs d \<noteq> 0 \<longleftrightarrow> sensorPeriodNs d 0 \<noteq> 0 \<and> axesDuration d AND 0xE000 \<noteq> 0 \<and> features d 1 0x0F AND 0x80 \<noteq> 0"
proof -
  have "max 20000000 p \<noteq> (0 :: int)" for p by (simp add: max_def)
  then show ?thesis by (simp add: motionPeriodNs_def Let_def AnyMotionPeriodNs_def)
qed

lemma motionPeriod_cong:
  assumes "\<And>a. rateRegister a \<Longrightarrow> registers e a = registers d a" and "features e = features d"
  shows "motionPeriodNs e = motionPeriodNs d"
proof -
  have "registers e AccelConfReg = registers d AccelConfReg" by (rule assms(1)) (simp add: rateRegister_def)
  moreover have "sensorPeriodNs e 0 = sensorPeriodNs d 0" by (rule sensorPeriod_cong) (simp_all add: assms(1))
  ultimately show ?thesis unfolding motionPeriodNs_def axesDuration_def assms(2) by (simp only:)
qed

lemma configureMotion_frame [simp]:
  "registers (configureMotion now d) = registers d"
  "config (configureMotion now d) = config d" "writtenBits (configureMotion now d) = writtenBits d"
  "configOffset (configureMotion now d) = configOffset d" "loadedBytes (configureMotion now d) = loadedBytes d"
  "features (configureMotion now d) = features d" "sampleTimer (configureMotion now d) = sampleTimer d"
  "registerAddress (configureMotion now d) = registerAddress d" "registerPhase (configureMotion now d) = registerPhase d"
  by (simp_all add: configureMotion_def Let_def)

lemma configureMotion_timer: "motionTimer (configureMotion now d) \<noteq> None \<longleftrightarrow> motionPeriodNs d \<noteq> 0"
proof -
  have "motionPeriodNs (d\<lparr>motionTimer := a, motionSamples := b, motionActive := c, motionReferenceG := r\<rparr>) = motionPeriodNs d" for a b c r
    by (rule motionPeriod_cong) simp_all
  then show ?thesis by (simp add: configureMotion_def Let_def)
qed

lemma sampleMotion_frame [simp]:
  "a \<noteq> FeatureStatusReg \<Longrightarrow> registers (sampleMotion now d) a = registers d a"
  "config (sampleMotion now d) = config d" "writtenBits (sampleMotion now d) = writtenBits d"
  "configOffset (sampleMotion now d) = configOffset d" "loadedBytes (sampleMotion now d) = loadedBytes d"
  "features (sampleMotion now d) = features d" "sampleTimer (sampleMotion now d) = sampleTimer d"
  "motionTimer (sampleMotion now d) \<noteq> None"
  by (simp_all add: sampleMotion_def Let_def)

section \<open>The invariant\<close>

definition uploaded :: "bmi270 \<Rightarrow> nat set" where
  "uploaded d = {i. i < ConfigSize \<and> writtenBits d i}"

definition upload_ok :: "bmi270 \<Rightarrow> bool" where
  "upload_ok d \<longleftrightarrow> configOffset d < ConfigSize \<and> loadedBytes d = card (uploaded d) \<and>
     (registers d InternalStatusReg = 1 \<longrightarrow> registers d InitControlReg AND 1 \<noteq> 0 \<and> loadedBytes d = ConfigSize)"

definition timers_ok :: "bmi270 \<Rightarrow> bool" where
  "timers_ok d \<longleftrightarrow> (sampleTimer d \<noteq> None \<longleftrightarrow> sensorPeriodNs d 0 \<noteq> 0 \<or> sensorPeriodNs d 1 \<noteq> 0) \<and>
     (motionTimer d \<noteq> None \<longleftrightarrow> motionPeriodNs d \<noteq> 0) \<and>
     (\<forall>s < 2. sensorPeriodNs d s = 0 \<longrightarrow> silent d s)"

definition imu_inv :: "bmi270 \<Rightarrow> bool" where
  "imu_inv d \<longleftrightarrow> upload_ok d \<and> timers_ok d"

lemma upload_ok_cong:
  "upload_ok d \<Longrightarrow> configOffset e = configOffset d \<Longrightarrow> loadedBytes e = loadedBytes d \<Longrightarrow> writtenBits e = writtenBits d \<Longrightarrow>
    registers e InternalStatusReg = registers d InternalStatusReg \<Longrightarrow> registers e InitControlReg = registers d InitControlReg \<Longrightarrow> upload_ok e"
  unfolding upload_ok_def uploaded_def by metis

lemma upload_ok_offset:
  "upload_ok d \<Longrightarrow> configOffset e < ConfigSize \<Longrightarrow> loadedBytes e = loadedBytes d \<Longrightarrow> writtenBits e = writtenBits d \<Longrightarrow>
    registers e InternalStatusReg = registers d InternalStatusReg \<Longrightarrow> registers e InitControlReg = registers d InitControlReg \<Longrightarrow> upload_ok e"
  unfolding upload_ok_def uploaded_def by metis

lemma timers_ok_cong:
  assumes "timers_ok d" and regs: "\<And>a. rateRegister a \<Longrightarrow> registers e a = registers d a" and "features e = features d"
    and "sampleTimer e \<noteq> None \<longleftrightarrow> sampleTimer d \<noteq> None" "motionTimer e \<noteq> None \<longleftrightarrow> motionTimer d \<noteq> None"
    and "\<And>s. s < 2 \<Longrightarrow> silent d s \<Longrightarrow> silent e s"
  shows "timers_ok e"
  using assms(1,4-6) sensorPeriod_cong [OF regs] motionPeriod_cong [OF regs assms(3)]
  unfolding timers_ok_def by (simp del: One_nat_def)

text \<open>After \<open>sampleSensors\<close> and \<open>configureMotion\<close> the timers are right whatever they were before.\<close>

lemma sampleSensors_upload: "upload_ok d \<Longrightarrow> upload_ok (sampleSensors now d)"
  by (rule upload_ok_cong, assumption)
    (simp_all add: sampleSensors_other sampleRegister_def bmi270_registers)

lemma sampleSensors_rate: "rateRegister a \<Longrightarrow> registers (sampleSensors now d) a = registers d a"
  by (simp add: sampleSensors_other rate_not_sample)

lemma sampleSensors_timers:
  assumes "motionTimer d \<noteq> None \<longleftrightarrow> motionPeriodNs d \<noteq> 0"
  shows "timers_ok (sampleSensors now d)"
proof -
  have "sensorPeriodNs (sampleSensors now d) s = sensorPeriodNs d s" if "s < 2" for s
    using that sampleSensors_rate by (intro sensorPeriod_cong) simp_all
  moreover have "motionPeriodNs (sampleSensors now d) = motionPeriodNs d"
    using sampleSensors_rate by (intro motionPeriod_cong) simp_all
  ultimately show ?thesis using assms sampleSensors_effect [where now = now and d = d] unfolding timers_ok_def by simp
qed

lemma reconfigured_timers: "timers_ok (configureMotion now (sampleSensors now d))"
proof -
  let ?e = "sampleSensors now d" and ?f = "configureMotion now (sampleSensors now d)"
  have p: "sensorPeriodNs ?f s = sensorPeriodNs d s" if "s < 2" for s
    using that sampleSensors_rate by (intro sensorPeriod_cong) simp_all
  have "motionPeriodNs ?f = motionPeriodNs ?e" by (rule motionPeriod_cong) simp_all
  then show ?thesis
    using p sampleSensors_effect [where now = now and d = d] configureMotion_timer [of now ?e] unfolding timers_ok_def silent_def by simp
qed

lemma imu_invD:
  assumes "imu_inv d"
  shows "upload_ok d" "timers_ok d" "motionTimer d \<noteq> None \<longleftrightarrow> motionPeriodNs d \<noteq> 0"
  using assms by (auto simp: imu_inv_def timers_ok_def)

lemma imu_inv_cong:
  assumes "imu_inv d" and "configOffset e = configOffset d" "loadedBytes e = loadedBytes d" "writtenBits e = writtenBits d"
    and "\<And>a. rateRegister a \<or> a = InitControlReg \<Longrightarrow> registers e a = registers d a" and "features e = features d"
    and "sampleTimer e \<noteq> None \<longleftrightarrow> sampleTimer d \<noteq> None" "motionTimer e \<noteq> None \<longleftrightarrow> motionTimer d \<noteq> None"
    and "\<And>s. s < 2 \<Longrightarrow> silent d s \<Longrightarrow> silent e s"
  shows "imu_inv e"
proof -
  have "upload_ok e"
    using imu_invD(1) [OF assms(1)] assms(2-4) by (rule upload_ok_cong) (simp_all add: assms(5) rateRegister_def)
  moreover have "timers_ok e"
    by (rule timers_ok_cong [OF imu_invD(2) [OF assms(1)]]) (rule assms(5), simp, fact assms(6), fact assms(7), fact assms(8), rule assms(9))
  ultimately show ?thesis by (simp add: imu_inv_def)
qed

section \<open>Steps\<close>

lemma imu_reset_inv: "imu_inv (bmi270_resetRegisters now d)"
proof -
  define e where "e = d\<lparr>registers := (\<lambda>_. 0)(0x00 := 0x24, StatusReg := 0x10, AccelConfReg := 0xA8, AccelRangeReg := 2,
       GyroConfReg := 0xA9, PowerConfReg := 3),
     config := (\<lambda>_. 0), writtenBits := (\<lambda>_. False), features := (\<lambda>_ _. 0), configOffset := 0, loadedBytes := 0,
     nextSampleNs := (\<lambda>_. 0), dataReadyUntilNs := (\<lambda>_. 0), sampleTimer := None,
     registerAddress := 0, registerPhase := False\<rparr>"
  have regs: "registers e InternalStatusReg = 0" "registers e DataStatusReg = 0" by (simp_all add: e_def bmi270_registers)
  have period: "sensorPeriodNs e s = 0" for s using regs by (simp add: sensorPeriodNs_def Let_def)
  have f: "registers (configureMotion now e) = registers e" "sampleTimer (configureMotion now e) = None" by (simp_all, simp add: e_def)
  have "sensorPeriodNs (configureMotion now e) s = 0" for s using regs f by (simp add: sensorPeriodNs_def Let_def)
  moreover have "motionPeriodNs e = 0" "motionPeriodNs (configureMotion now e) = 0"
    using period calculation by (simp_all add: motionPeriodNs_def Let_def)
  ultimately have "timers_ok (configureMotion now e)"
    using f configureMotion_timer [of now e] regs by (simp add: timers_ok_def silent_def)
  moreover have "upload_ok (configureMotion now e)"
    using regs by (simp add: upload_ok_def uploaded_def ConfigSize_def) (simp add: e_def)
  ultimately show ?thesis unfolding bmi270_resetRegisters_def e_def [symmetric] imu_inv_def by blast
qed

lemma event_inv: "imu_inv d \<Longrightarrow> imu_inv (bmi270_event now e d)"
proof -
  assume inv: "imu_inv d"
  have "imu_inv (snapshotTime now d)"
    by (rule imu_inv_cong [OF inv])
      (auto simp: snapshotTime_def Let_def stw_def rateRegister_def bmi270_registers silent_def)
  moreover have "imu_inv (f\<lparr>registerPhase := True\<rparr>)" if "imu_inv f" for f
    by (rule imu_inv_cong [OF that]) (simp_all add: silent_def)
  ultimately show ?thesis using inv by (simp add: bmi270_event_def Let_def)
qed

lemma receive_inv: "imu_inv d \<Longrightarrow> imu_inv (snd (bmi270_receive now d))"
proof -
  assume inv: "imu_inv d"
  have addr: "imu_inv (d\<lparr>registerAddress := a\<rparr>)" for a
    by (rule imu_inv_cong [OF inv]) (simp_all add: silent_def)
  have stream: "imu_inv (d\<lparr>registerAddress := a, configOffset := (configOffset d + 1) mod ConfigSize, registerAddress := b\<rparr>)" for a b
  proof -
    have "upload_ok (d\<lparr>registerAddress := a, configOffset := (configOffset d + 1) mod ConfigSize, registerAddress := b\<rparr>)"
      using imu_invD(1) [OF inv] by (rule upload_ok_offset) (simp_all add: ConfigSize_def)
    moreover have "timers_ok (d\<lparr>registerAddress := a, configOffset := (configOffset d + 1) mod ConfigSize, registerAddress := b\<rparr>)"
      using imu_invD(2) [OF inv] by (rule timers_ok_cong) (simp_all add: silent_def)
    ultimately show ?thesis by (simp add: imu_inv_def)
  qed
  have cleared: "imu_inv (updateIrqs now (setBmi b 0 (d\<lparr>registerAddress := a\<rparr>)))" if "b = FeatureStatusReg \<or> b = DataStatusReg" for a b
    using that by (intro imu_inv_cong [OF inv]) (auto simp: rateRegister_def bmi270_registers silent_def)
  have status: "imu_inv (setBmi StatusReg v (d\<lparr>registerAddress := a\<rparr>))" for a v
    by (rule imu_inv_cong [OF inv]) (auto simp: rateRegister_def bmi270_registers silent_def)
  show ?thesis
    unfolding bmi270_receive_def Let_def using addr stream cleared status by simp
qed

definition initialised :: "byte \<Rightarrow> bmi270 \<Rightarrow> bmi270" where
  "initialised v d = (let d = setBmi InitControlReg (v AND 1) d;
          d = (if v AND 1 = 0 then
                 setBmi InternalStatusReg 0 (d\<lparr>writtenBits := (\<lambda>_. False), loadedBytes := 0\<rparr>)
               else
                 let d = setBmi InternalStatusReg (if loadedBytes d = ConfigSize then 1 else 2) d in
                 if registers d InternalStatusReg = 1 then
                   d\<lparr>features := (\<lambda>_ _. 0)(1 := (\<lambda>_. 0)(0x0C := 0x05, 0x0D := 0xE0, 0x0E := 0xAA, 0x0F := 0x38))\<rparr>
                 else d) in
          setBmi FeatureStatusReg 0 (setBmi DataStatusReg 0 d))"

lemma initialised_upload:
  assumes "upload_ok d"
  shows "upload_ok (initialised v d)"
proof -
  have start: "configOffset d < ConfigSize" "loadedBytes d = card (uploaded d)" using assms by (simp_all add: upload_ok_def)
  consider "v AND 1 = 0" | "v AND 1 \<noteq> 0" "loadedBytes d = ConfigSize" | "v AND 1 \<noteq> 0" "loadedBytes d \<noteq> ConfigSize" by blast
  then show ?thesis
  proof cases
    case 1
    have "writtenBits (initialised v d) = (\<lambda>_. False)" "loadedBytes (initialised v d) = 0" "configOffset (initialised v d) = configOffset d"
      "registers (initialised v d) InternalStatusReg = 0"
      by (simp_all only: initialised_def Let_def 1 if_True setBmi_simps) (simp_all add: bmi270_registers)
    then show ?thesis using start by (simp add: upload_ok_def uploaded_def)
  next
    case 2
    have "writtenBits (initialised v d) = writtenBits d" "loadedBytes (initialised v d) = loadedBytes d" "configOffset (initialised v d) = configOffset d"
      "registers (initialised v d) InitControlReg = v AND 1"
      using 2 by (simp_all add: initialised_def Let_def) (simp_all add: bmi270_registers)
    then show ?thesis using start 2 unfolding upload_ok_def uploaded_def by (simp only: and.assoc and.idem simp_thms)
  next
    case 3
    have "writtenBits (initialised v d) = writtenBits d" "loadedBytes (initialised v d) = loadedBytes d" "configOffset (initialised v d) = configOffset d"
      "registers (initialised v d) InternalStatusReg = 2"
      using 3 by (simp_all add: initialised_def Let_def) (simp_all add: bmi270_registers)
    then show ?thesis using start unfolding upload_ok_def uploaded_def by simp
  qed
qed

lemma initControl_inv: "imu_inv d \<Longrightarrow> imu_inv (writeInitControl now v d)"
proof -
  assume "imu_inv d"
  then have "upload_ok (configureMotion now (sampleSensors now (initialised v d)))"
    by (intro upload_ok_cong [OF sampleSensors_upload [OF initialised_upload [OF imu_invD(1)]]]) simp_all
  moreover have "writeInitControl now v d = configureMotion now (sampleSensors now (initialised v d))"
    unfolding writeInitControl_def initialised_def Let_def ..
  ultimately show ?thesis using reconfigured_timers by (simp only: imu_inv_def simp_thms)
qed

lemma initData_inv: "imu_inv d \<Longrightarrow> imu_inv (writeInitData v d)"
proof -
  assume inv: "imu_inv d"
  have t: "timers_ok (writeInitData v d)"
    using imu_invD(2) [OF inv] by (rule timers_ok_cong) (simp_all add: writeInitData_def Let_def silent_def)
  let ?o = "configOffset d"
  have start: "?o < ConfigSize" "loadedBytes d = card (uploaded d)" using imu_invD(1) [OF inv] by (simp_all add: upload_ok_def)
  have finite: "finite (uploaded d)" by (simp add: uploaded_def)
  have offset: "configOffset (writeInitData v d) < ConfigSize" "registers (writeInitData v d) = registers d"
    by (simp_all add: writeInitData_def Let_def ConfigSize_def)
  have "upload_ok (writeInitData v d)"
  proof (cases "registers d InitControlReg AND 1 = 0 \<and> \<not> writtenBits d ?o")
    case True
    then have "uploaded (writeInitData v d) = insert ?o (uploaded d)" "?o \<notin> uploaded d"
      "loadedBytes (writeInitData v d) = Suc (loadedBytes d)"
      using start(1) by (auto simp: uploaded_def writeInitData_def Let_def)
    moreover have "registers d InternalStatusReg \<noteq> 1" using True imu_invD(1) [OF inv] by (auto simp: upload_ok_def)
    ultimately show ?thesis using start finite offset by (simp add: upload_ok_def)
  next
    case False
    then have "writtenBits (writeInitData v d) = writtenBits d" "loadedBytes (writeInitData v d) = loadedBytes d"
      by (auto simp: writeInitData_def Let_def)
    then show ?thesis by (intro upload_ok_offset [OF imu_invD(1) [OF inv]]) (simp_all only: offset)
  qed
  then show ?thesis using t by (simp add: imu_inv_def)
qed

lemma feature_inv:
  assumes inv: "imu_inv d" and address: "FeatureDataReg \<le> address" "address < AccelConfReg"
  shows "imu_inv (writeFeature now address v d)"
proof -
  define page where "page = unat (registers d FeaturePageReg)"
  define i where "i = unat (address - FeatureDataReg)"
  define e where "e = d\<lparr>features := (features d)(page := (features d page)(i := v))\<rparr>"
  have e: "upload_ok e" using imu_invD(1) [OF inv] by (rule upload_ok_cong) (simp_all add: e_def)
  have period: "sensorPeriodNs e s = sensorPeriodNs d s" if "s < 2" for s
    using that by (intro sensorPeriod_cong) (simp_all add: e_def)
  have c: "imu_inv (configureMotion now e)"
  proof -
    have "upload_ok (configureMotion now e)" using e by (rule upload_ok_cong) simp_all
    moreover have "sensorPeriodNs (configureMotion now e) s = sensorPeriodNs d s" if "s < 2" for s
      using that by (intro sensorPeriod_cong) (simp_all add: e_def)
    moreover have "motionPeriodNs (configureMotion now e) = motionPeriodNs e" by (rule motionPeriod_cong) simp_all
    moreover have "sampleTimer (configureMotion now e) = sampleTimer d" "silent (configureMotion now e) s = silent d s" for s
      by (simp_all add: silent_def, simp_all add: e_def)
    ultimately show ?thesis
      using configureMotion_timer [of now e] imu_invD(2) [OF inv] by (simp add: imu_inv_def timers_ok_def)
  qed
  have other: "imu_inv e" if "\<not> (registers d FeaturePageReg = 1 \<and> 0x3C \<le> address)"
  proof -
    have "page \<noteq> 1 \<or> i < 0x0C"
    proof (cases "registers d FeaturePageReg = 1")
      case True
      then have "address < 0x3C" using that by simp
      then show ?thesis using address by (intro disjI2) (simp add: i_def FeatureDataReg_def word_less_nat_alt word_le_nat_alt unat_sub_if')
    next
      case False
      then show ?thesis by (simp add: page_def word_unat_eq_iff)
    qed
    then have "features e 1 k = features d 1 k" if "0x0C \<le> k" for k using that by (auto simp: e_def)
    from this [of 12] this [of 13] this [of 15]
    have same: "features e 1 0x0C = features d 1 0x0C" "features e 1 0x0D = features d 1 0x0D" "features e 1 0x0F = features d 1 0x0F"
      by simp_all
    have "sensorPeriodNs e 0 = sensorPeriodNs d 0" "registers e = registers d" by (rule period, simp, simp add: e_def)
    then have "motionPeriodNs e = motionPeriodNs d" unfolding motionPeriodNs_def axesDuration_def same by (simp only:)
    then have "timers_ok e"
      using imu_invD(2) [OF inv] period by (simp add: timers_ok_def silent_def) (simp add: e_def)
    then show ?thesis using e by (simp add: imu_inv_def)
  qed
  show ?thesis
  proof -
    have "registers e = registers d" by (simp add: e_def)
    then show ?thesis
      using inv c other unfolding writeFeature_def Let_def page_def [symmetric] i_def [symmetric] e_def [symmetric] by simp
  qed
qed

lemma writeStored_inv:
  assumes inv: "imu_inv d" and address: "storedRegister address"
  shows "imu_inv (writeStored now address v d)"
proof -
  define w where "w = (if address = FeaturePageReg then v AND 7 else v)"
  define e where "e = setBmi address w d"
  have fixed: "address \<noteq> InternalStatusReg" "address \<noteq> InitControlReg" "address \<noteq> DataStatusReg"
    using address by (auto simp: storedRegister_def bmi270_registers)
  have up: "upload_ok f" if "configOffset f < ConfigSize" "loadedBytes f = loadedBytes d" "writtenBits f = writtenBits d"
      "registers f = registers e" for f
    by (rule upload_ok_offset [OF imu_invD(1) [OF inv] that(1-3)]) (use fixed that(4) in \<open>simp_all add: e_def\<close>)
  have offset: "configOffset d < ConfigSize" using imu_invD(1) [OF inv] by (simp add: upload_ok_def)
  have kept: "imu_inv e" if "\<not> rateRegister address \<or> w = registers d address"
    using that fixed by (intro imu_inv_cong [OF inv]) (auto simp: e_def silent_def)
  have bound: "(unat (x AND 15) + unat y * 16) * 2 < ConfigSize" for x y :: byte
  proof -
    have "unat (x AND 15) \<le> 15" using word_and_le1 [of x 15] unfolding word_le_nat_alt by simp
    moreover have "unat y < 256" using unsigned_less [of y, where 'a = nat] by simp
    ultimately show ?thesis unfolding ConfigSize_def by simp
  qed
  consider "address = InitAddressLowReg \<or> address = InitAddressHighReg"
    | "\<not> (address = InitAddressLowReg \<or> address = InitAddressHighReg)" "registers d address XOR v \<noteq> 0"
      "(AccelConfReg \<le> address \<and> address \<le> GyroRangeReg) \<or> address = ImuPowerReg"
    | "\<not> (address = InitAddressLowReg \<or> address = InitAddressHighReg)"
      "\<not> (registers d address XOR v \<noteq> 0 \<and> ((AccelConfReg \<le> address \<and> address \<le> GyroRangeReg) \<or> address = ImuPowerReg))"
    by blast
  then show ?thesis
  proof cases
    case 1
    define n where "n = (unat (registers e InitAddressLowReg AND 15) + unat (registers e InitAddressHighReg) * 16) * 2"
    have "writeStored now address v d = e\<lparr>configOffset := n\<rparr>"
      using 1 by (simp only: writeStored_def Let_def w_def [symmetric] e_def [symmetric] n_def if_True)
    moreover have "n < ConfigSize" unfolding n_def by (rule bound)
    then have "upload_ok (e\<lparr>configOffset := n\<rparr>)" by (intro up) (simp_all, simp_all add: e_def)
    moreover have "timers_ok (e\<lparr>configOffset := n\<rparr>)"
      using 1 by (intro timers_ok_cong [OF imu_invD(2) [OF inv]]) (auto simp: e_def silent_def rateRegister_def bmi270_registers)
    ultimately show ?thesis by (simp add: imu_inv_def)
  next
    case 2
    have page: "address \<noteq> FeaturePageReg" using 2(3) by (auto simp: bmi270_registers)
    then have w: "w = v" by (simp add: w_def)
    define f where "f = (if (address = AccelConfReg \<or> address = GyroConfReg) \<and> (registers d address XOR v) AND 15 \<noteq> 0
                 then e\<lparr>nextSampleNs := (nextSampleNs e)(unat (address - AccelConfReg) div 2 := 0)\<rparr> else e)"
    have f: "registers f = registers e" "configOffset f = configOffset d" "loadedBytes f = loadedBytes d" "writtenBits f = writtenBits d"
        "features f = features d" "motionTimer f = motionTimer d" by (simp_all add: f_def e_def)
    let ?motion = "address = AccelConfReg \<or> address = AccelRangeReg \<or> (address = ImuPowerReg \<and> (registers d address XOR v) AND 4 \<noteq> 0)"
    have eq: "writeStored now address v d = (if ?motion then configureMotion now (sampleSensors now f) else sampleSensors now f)"
      using 2 by (simp only: writeStored_def Let_def w_def [symmetric] e_def [symmetric] f_def [symmetric] if_False if_True simp_thms)
    have "upload_ok f" using offset f by (intro up) simp_all
    then have u: "upload_ok (sampleSensors now f)" "upload_ok (configureMotion now (sampleSensors now f))"
      by (simp_all add: sampleSensors_upload) (rule upload_ok_cong [OF sampleSensors_upload], assumption, simp_all)
    have "timers_ok (sampleSensors now f)" if "\<not> ?motion"
    proof (rule sampleSensors_timers)
      have a: "registers f AccelConfReg = registers d AccelConfReg" "registers f InternalStatusReg = registers d InternalStatusReg"
        using that fixed by (auto simp: f e_def)
      have "registers f ImuPowerReg AND 4 = registers d ImuPowerReg AND 4"
      proof (cases "address = ImuPowerReg")
        case True
        then have "(registers d ImuPowerReg XOR v) AND 4 = 0" using that by blast
        then have "v AND 4 = registers d ImuPowerReg AND 4"
          by (auto simp: bit_eq_iff bit_simps)
        then show ?thesis using True by (simp add: f e_def w)
      qed (simp add: f e_def)
      then have "sensorPeriodNs f 0 = sensorPeriodNs d 0" using a by (simp add: sensorPeriodNs_def)
      then have "motionPeriodNs f = motionPeriodNs d" unfolding motionPeriodNs_def axesDuration_def f(5) using a by (simp only:)
      then show "motionTimer f \<noteq> None \<longleftrightarrow> motionPeriodNs f \<noteq> 0" using imu_invD(3) [OF inv] f by simp
    qed
    then show ?thesis using u reconfigured_timers unfolding eq imu_inv_def by (cases ?motion) (simp_all only: if_True if_False simp_thms)
  next
    case 3
    have same: "x XOR v = 0 \<Longrightarrow> v = x" for x by (auto simp: bit_eq_iff bit_simps)
    have "\<not> rateRegister address \<or> w = registers d address"
      using 3(2) fixed by (auto simp: rateRegister_def w_def bmi270_registers dest!: same)
    from kept [OF this] have e: "imu_inv e" .
    have "imu_inv (updateIrqs now e)" by (rule imu_inv_cong [OF e]) (simp_all add: silent_def)
    then show ?thesis
      using 3 e by (simp only: writeStored_def Let_def w_def [symmetric] e_def [symmetric] if_False if_True simp_thms split: if_split)
  qed
qed

lemma imu_send_inv: "imu_inv d \<Longrightarrow> imu_inv (bmi270_send now v d)"
proof -
  assume inv: "imu_inv d"
  have addr: "imu_inv (d\<lparr>registerAddress := a\<rparr>)" "imu_inv (d\<lparr>registerAddress := a, registerPhase := False\<rparr>)" for a
    by (rule imu_inv_cong [OF inv], simp_all add: silent_def)+
  then show ?thesis
    unfolding bmi270_send_def Let_def
    by (auto intro: imu_reset_inv initControl_inv initData_inv feature_inv writeStored_inv)
qed

lemma sampleTimer_inv: "imu_inv d \<Longrightarrow> imu_inv (bmi270_sampleTimer now d)"
proof -
  assume inv: "imu_inv d"
  let ?d = "d\<lparr>sampleTimer := None\<rparr>"
  have "upload_ok ?d" by (rule upload_ok_cong [OF imu_invD(1) [OF inv]]) simp_all
  moreover have "motionPeriodNs ?d = motionPeriodNs d" by (rule motionPeriod_cong) simp_all
  then have "timers_ok (sampleSensors now ?d)" using imu_invD(3) [OF inv] by (intro sampleSensors_timers) simp
  ultimately show ?thesis by (simp add: bmi270_sampleTimer_def imu_inv_def sampleSensors_upload)
qed

lemma motionTimer_inv: "imu_inv d \<Longrightarrow> motionTimer d = Some t \<Longrightarrow> imu_inv (sampleMotion now d)"
proof -
  assume inv: "imu_inv d" "motionTimer d = Some t"
  have regs: "registers (sampleMotion now d) a = registers d a" if "rateRegister a \<or> a = InitControlReg \<or> a = DataStatusReg" for a
    using that by (intro sampleMotion_frame) (auto simp: rateRegister_def bmi270_registers)
  show ?thesis by (rule imu_inv_cong [OF inv(1)]) (use inv(2) in \<open>auto simp: regs silent_def\<close>)
qed

lemma setMotion_inv: "imu_inv d \<Longrightarrow> imu_inv (bmi270SetMotion a w d)"
  by (rule imu_inv_cong, assumption) (simp_all add: bmi270SetMotion_def silent_def)

section \<open>Runs\<close>

text \<open>A run of the board: each callback reads the clock, a timer fires at its expiry or later.\<close>

inductive imu_step :: "bmi270 \<Rightarrow> bmi270 \<Rightarrow> bool" where
  imu_event: "imu_step d (bmi270_event now e d)"
| imu_receive: "imu_step d (snd (bmi270_receive now d))"
| imu_send: "imu_step d (bmi270_send now v d)"
| imu_sample: "sampleTimer d = Some t \<Longrightarrow> t \<le> now \<Longrightarrow> imu_step d (bmi270_sampleTimer now d)"
| imu_motion: "motionTimer d = Some t \<Longrightarrow> t \<le> now \<Longrightarrow> imu_step d (sampleMotion now d)"
| imu_host: "imu_step d (bmi270SetMotion a w d)"

definition imu_starts :: "bmi270 \<Rightarrow> bool" where
  "imu_starts d \<longleftrightarrow> (\<exists>now. d = bmi270_init now)"

interpretation imu_machine: state_machine imu_starts imu_step imu_inv
proof
  show "imu_starts d \<Longrightarrow> imu_inv d" for d
    by (auto simp: imu_starts_def bmi270_init_def imu_reset_inv)
  show "imu_step d e \<Longrightarrow> imu_inv e" if "imu_inv d" for d e
    using that by (auto elim!: imu_step.cases intro: event_inv receive_inv imu_send_inv sampleTimer_inv motionTimer_inv setMotion_inv)
qed

end
