(* ===== verification/ImuUpload.thy ===== *)
theory ImuUpload
  imports ImuProperties
begin

text \<open>
  How the guest's driver brings the motion sensor up: upload of the configuration file in one burst,
  the initialisation that accepts it, power to the accelerometer, and the sample it then reads.
\<close>

unbundle bit_operations_syntax

section \<open>Upload\<close>

definition uploading :: "bytes \<Rightarrow> bmi270 \<Rightarrow> bmi270" where
  "uploading vs d = d\<lparr>config := (\<lambda>i. if i < length vs then vs ! i else config d i),
     writtenBits := (\<lambda>i. i < length vs \<or> writtenBits d i), loadedBytes := length vs,
     configOffset := length vs mod ConfigSize\<rparr>"

lemma upload_burst:
  assumes "registers d InitControlReg AND 1 = 0" "\<And>i. \<not> writtenBits d i" "loadedBytes d = 0" "configOffset d = 0"
    "registerAddress d = InitDataReg" "\<not> registerPhase d" "length vs \<le> ConfigSize"
  shows "fold (bmi270_send now) vs d = uploading vs d"
  using assms(7)
proof (induction vs rule: rev_induct)
  case Nil
  show ?case using assms(3,4) by (intro bmi270.equality) (simp_all add: uploading_def)
next
  case (snoc v vs)
  let ?u = "uploading vs d"
  have n: "length vs < ConfigSize" using snoc.prems by simp
  have u: "configOffset ?u = length vs" "registers ?u = registers d" "writtenBits ?u (length vs) = False"
      "registerAddress ?u = InitDataReg" "registerPhase ?u = False"
    using n assms(2,5,6) by (simp_all add: uploading_def)
  have "bmi270_send now v ?u = writeInitData v (?u\<lparr>registerAddress := InitDataReg + 1\<rparr>)"
    unfolding bmi270_send_def u Let_def by (simp add: InitDataReg_def CommandReg_def InitControlReg_def)
  also have "\<dots> = uploading (vs @ [v]) d"
    using u assms(1,5)
    by (intro bmi270.equality) (auto simp: writeInitData_def Let_def uploading_def fun_eq_iff nth_append less_Suc_eq)
  finally show ?case using snoc n by simp
qed

text \<open>Write transactions to one register and the upload, each at its own time.\<close>

definition imu_write :: "int \<Rightarrow> byte \<Rightarrow> bytes \<Rightarrow> bmi270 \<Rightarrow> bmi270" where
  "imu_write now = write_transaction (bmi270_event now) (bmi270_send now)"

definition selected :: "byte \<Rightarrow> bmi270 \<Rightarrow> bmi270" where
  "selected a d = d\<lparr>registerAddress := a, registerPhase := False\<rparr>"

lemma imu_write_fold: "imu_write now a vs d = fold (bmi270_send now) vs (selected a d)"
  by (simp add: imu_write_def write_transaction_def bmi270_event_def bmi270_send_def selected_def Let_def)

lemma imu_upload:
  assumes "registers d InitControlReg AND 1 = 0" "\<And>i. \<not> writtenBits d i" "loadedBytes d = 0" "configOffset d = 0"
    "length vs \<le> ConfigSize"
  shows "imu_write now InitDataReg vs d = uploading vs (selected InitDataReg d)"
  unfolding imu_write_fold using assms by (intro upload_burst) (simp_all add: selected_def)

lemma imu_write_reachable:
  assumes "reachable imu_starts imu_step d"
  shows "reachable imu_starts imu_step (imu_write now a vs d)"
proof -
  have "reachable imu_starts imu_step (fold (bmi270_send now) bs e)" if "reachable imu_starts imu_step e" for bs e
    using that by (induction bs arbitrary: e) (auto intro: reach_step imu_send)
  then show ?thesis
    unfolding imu_write_def write_transaction_def by (blast intro: assms reach_step imu_event)
qed

section \<open>Initialisation and power\<close>

text \<open>The registers a freshly created chip has.\<close>

definition resetValues :: "byte \<Rightarrow> byte" where
  "resetValues = (\<lambda>_. 0)(0x00 := 0x24, StatusReg := 0x10, AccelConfReg := 0xA8, AccelRangeReg := 2,
       GyroConfReg := 0xA9, PowerConfReg := 3)"

lemma bmi270_init_state:
  "registers (bmi270_init now) = resetValues" "loadedBytes (bmi270_init now) = 0" "configOffset (bmi270_init now) = 0"
  "writtenBits (bmi270_init now) = (\<lambda>_. False)"
  by (simp_all add: bmi270_init_def bmi270_resetRegisters_def resetValues_def)

definition imu_uploaded :: "int \<Rightarrow> int \<Rightarrow> bytes \<Rightarrow> bmi270" where
  "imu_uploaded t u vs = imu_write u InitDataReg vs (bmi270_init t)"

lemma imu_uploaded_state:
  assumes "length vs = ConfigSize"
  shows "registers (imu_uploaded t u vs) = resetValues" "loadedBytes (imu_uploaded t u vs) = ConfigSize"
    "i < ConfigSize \<Longrightarrow> config (imu_uploaded t u vs) i = vs ! i"
proof -
  have "imu_uploaded t u vs = uploading vs (selected InitDataReg (bmi270_init t))"
    unfolding imu_uploaded_def using assms
    by (intro imu_upload) (simp_all add: bmi270_init_state, simp_all add: resetValues_def bmi270_registers)
  then show "registers (imu_uploaded t u vs) = resetValues" "loadedBytes (imu_uploaded t u vs) = ConfigSize"
      "i < ConfigSize \<Longrightarrow> config (imu_uploaded t u vs) i = vs ! i"
    using assms by (simp_all add: uploading_def selected_def bmi270_init_state)
qed

definition imu_ready :: "int \<Rightarrow> int \<Rightarrow> int \<Rightarrow> bytes \<Rightarrow> bmi270" where
  "imu_ready t u i vs = imu_write i InitControlReg [1] (imu_uploaded t u vs)"

section \<open>Sampling the accelerometer\<close>

lemma configureMotion_sample [simp]: "nextSampleNs (configureMotion now d) = nextSampleNs d"
  by (simp add: configureMotion_def Let_def)

lemma gyroscope_keeps:
  "nextSampleNs (snd (sampleSensor now 1 (t, d))) 0 = nextSampleNs d 0"
  "AccelDataReg \<le> a \<Longrightarrow> a < GyroDataReg \<Longrightarrow> registers (snd (sampleSensor now 1 (t, d))) a = registers d a"
proof -
  show "nextSampleNs (snd (sampleSensor now 1 (t, d))) 0 = nextSampleNs d 0"
    by (simp add: sampleSensor_def Let_def)
  assume a: "AccelDataReg \<le> a" "a < GyroDataReg"
  then have "a \<noteq> StatusReg" "a \<noteq> DataStatusReg" by (auto simp: bmi270_registers)
  moreover have "a \<notin> {0x12, 0x13, 0x14, 0x15, 0x16, 0x17}" using a by (auto simp: bmi270_registers)
  ultimately show "registers (snd (sampleSensor now 1 (t, d))) a = registers d a"
    by (simp add: sampleSensor_def Let_def storeSample_def stw_def upt_rec GyroDataReg_def)
qed

definition accelerometerStep :: "int \<Rightarrow> bmi270 \<Rightarrow> bmi270" where
  "accelerometerStep now d = snd (sampleSensor now 0 (None, d))"

lemma sampleSensors_accelerometer:
  "nextSampleNs (sampleSensors now d) 0 = nextSampleNs (accelerometerStep now d) 0"
  "AccelDataReg \<le> a \<Longrightarrow> a < GyroDataReg \<Longrightarrow> registers (sampleSensors now d) a = registers (accelerometerStep now d) a"
proof -
  obtain t u where one: "sampleSensor now 0 (None, d) = (t, u)" by fastforce
  obtain t' v where two: "sampleSensor now 1 (t, u) = (t', v)" by fastforce
  have eq: "sampleSensors now d = updateIrqs now (v\<lparr>sampleTimer := t'\<rparr>)" by (simp only: sampleSensors_def one two prod.case Let_def)
  show "nextSampleNs (sampleSensors now d) 0 = nextSampleNs (accelerometerStep now d) 0"
    using gyroscope_keeps(1) [of now t u] unfolding two by (simp add: eq accelerometerStep_def one)
  show "AccelDataReg \<le> a \<Longrightarrow> a < GyroDataReg \<Longrightarrow> registers (sampleSensors now d) a = registers (accelerometerStep now d) a"
    using gyroscope_keeps(2) [of a now t u] unfolding two by (simp add: eq accelerometerStep_def one)
qed

lemma accelerometer_idle: "sensorPeriodNs d 0 = 0 \<Longrightarrow> nextSampleNs (sampleSensors now d) 0 = 0"
  by (simp add: sampleSensors_accelerometer accelerometerStep_def sampleSensor_def Let_def)

lemma accelerometer_starts:
  "sensorPeriodNs d 0 = q \<Longrightarrow> 0 < q \<Longrightarrow> nextSampleNs d 0 = 0 \<Longrightarrow> 0 \<le> now \<Longrightarrow> nextSampleNs (sampleSensors now d) 0 = now + q"
  by (simp add: sampleSensors_accelerometer accelerometerStep_def sampleSensor_def Let_def)

lemma accelerometer_samples:
  assumes "sensorPeriodNs d 0 \<noteq> 0" "nextSampleNs d 0 \<noteq> 0" "nextSampleNs d 0 \<le> now" "AccelDataReg \<le> a" "a < GyroDataReg"
  shows "registers (sampleSensors now d) a = registers (storeSample 0 d) a"
proof -
  have "a \<noteq> StatusReg" "a \<noteq> DataStatusReg" using assms(4,5) by (auto simp: bmi270_registers)
  then show ?thesis
    using assms
    by (simp add: sampleSensors_accelerometer accelerometerStep_def sampleSensor_def Let_def storeSample_def stw_def upt_rec
        AccelRangeReg_def StatusReg_def DataStatusReg_def)
qed

text \<open>A host value that is a whole number of register units arrives as that number.\<close>

lemma sampledValue_exact:
  assumes "\<bar>k\<bar> < 32768"
  shows "sampledValue 0 2 (of_int k / 4096) = of_int k"
proof -
  have "of_int k / 4096 * sensorScale 0 2 = (of_int k :: rat)" by (simp add: sensorScale_def drop_bit_eq_div)
  moreover have "round32 (of_int k) = Fin (of_int k)" using assms by (intro round32_of_int) simp
  moreover have "clampTo (-32768) 32767 (Fin (of_int k)) = of_int k"
    using assms by (auto simp: clampTo_def)
  ultimately show ?thesis by (simp only: sampledValue_def lroundf_of_int)
qed

lemma accelerometer_timer:
  assumes "sensorPeriodNs d 0 = q" "0 < q" "nextSampleNs d 0 = 0" "dataReadyUntilNs d 0 = 0" "0 \<le> now" "sensorPeriodNs d 1 = 0"
  shows "sampleTimer (sampleSensors now d) = Some (now + q)"
proof -
  obtain t u where one: "sampleSensor now 0 (None, d) = (t, u)" by fastforce
  obtain t' v where two: "sampleSensor now 1 (t, u) = (t', v)" by fastforce
  have "t = Some (now + q)" using one assms by (auto simp: sampleSensor_def Let_def earliest_def)
  moreover have "sensorPeriodNs u 1 = 0" using sampleSensor_period [of 1 now 0 None d] assms(6) by (simp add: one)
  then have "t' = t" using two by (simp add: sampleSensor_def Let_def)
  moreover have "sampleSensors now d = updateIrqs now (v\<lparr>sampleTimer := t'\<rparr>)" by (simp only: sampleSensors_def one two prod.case Let_def)
  ultimately show ?thesis by simp
qed

lemma idle_pulse: "sensorPeriodNs d 0 = 0 \<Longrightarrow> dataReadyUntilNs (sampleSensors now d) 0 = 0"
proof -
  assume idle: "sensorPeriodNs d 0 = 0"
  obtain t u where one: "sampleSensor now 0 (None, d) = (t, u)" by fastforce
  obtain t' v where two: "sampleSensor now 1 (t, u) = (t', v)" by fastforce
  have eq: "sampleSensors now d = updateIrqs now (v\<lparr>sampleTimer := t'\<rparr>)" by (simp only: sampleSensors_def one two prod.case Let_def)
  have "dataReadyUntilNs u 0 = 0" using one idle by (auto simp: sampleSensor_def Let_def)
  moreover have "dataReadyUntilNs v 0 = dataReadyUntilNs u 0"
    using two by (auto simp: sampleSensor_def Let_def storeSample_def split: if_splits)
  ultimately show ?thesis by (simp add: eq updateIrqs_def)
qed

lemma configureMotion_pulse [simp]: "dataReadyUntilNs (configureMotion now d) = dataReadyUntilNs d"
  by (simp add: configureMotion_def updateIrqs_def Let_def)

section \<open>The driver's sequence\<close>

lemma imu_ready_state:
  assumes "length vs = ConfigSize"
  shows "registers (imu_ready t u i vs) AccelConfReg = 0xA8" "registers (imu_ready t u i vs) AccelRangeReg = 2"
    "registers (imu_ready t u i vs) InternalStatusReg = 1" "registers (imu_ready t u i vs) ImuPowerReg = 0"
    "nextSampleNs (imu_ready t u i vs) 0 = 0" "dataReadyUntilNs (imu_ready t u i vs) 0 = 0"
proof -
  define d where "d = (selected InitControlReg (imu_uploaded t u vs))\<lparr>registerAddress := InitControlReg + 1\<rparr>"
  have d: "registers d = resetValues" "loadedBytes d = ConfigSize" by (simp_all add: d_def selected_def imu_uploaded_state [OF assms])
  define e where "e = initialised 1 d"
  have "imu_ready t u i vs = writeInitControl i 1 d"
    by (simp add: imu_ready_def imu_write_fold bmi270_send_def Let_def d_def, simp add: selected_def InitControlReg_def CommandReg_def InitDataReg_def)
  then have eq: "imu_ready t u i vs = configureMotion i (sampleSensors i e)"
    unfolding writeInitControl_def e_def initialised_def Let_def by (simp only:)
  have regs: "registers e = resetValues(InitControlReg := 1, InternalStatusReg := 1, DataStatusReg := 0, FeatureStatusReg := 0)"
    by (simp add: e_def initialised_def Let_def d)
  then have e: "registers e AccelConfReg = 0xA8" "registers e AccelRangeReg = 2" "registers e InternalStatusReg = 1"
      "registers e ImuPowerReg = 0" by (simp_all add: resetValues_def bmi270_registers)
  have idle: "sensorPeriodNs e 0 = 0" by (simp add: sensorPeriodNs_def e)
  show "registers (imu_ready t u i vs) AccelConfReg = 0xA8" "registers (imu_ready t u i vs) AccelRangeReg = 2"
    "registers (imu_ready t u i vs) InternalStatusReg = 1" "registers (imu_ready t u i vs) ImuPowerReg = 0"
    "nextSampleNs (imu_ready t u i vs) 0 = 0" "dataReadyUntilNs (imu_ready t u i vs) 0 = 0"
    unfolding eq using accelerometer_idle [OF idle] idle_pulse [OF idle] e sampleSensors_rate [of _ i e]
      sampleSensors_other [of AccelRangeReg i e]
    by (simp_all add: rateRegister_def sampleRegister_def, simp add: bmi270_registers)
qed

definition imu_powered :: "int \<Rightarrow> int \<Rightarrow> int \<Rightarrow> int \<Rightarrow> bytes \<Rightarrow> bmi270" where
  "imu_powered t u i p vs = imu_write p ImuPowerReg [4] (imu_ready t u i vs)"

lemma imu_powered_state:
  assumes "length vs = ConfigSize" "0 \<le> p"
  shows "sensorPeriodNs (imu_powered t u i p vs) 0 = 10000000" "registers (imu_powered t u i p vs) AccelRangeReg = 2"
    "nextSampleNs (imu_powered t u i p vs) 0 = p + 10000000" "sampleTimer (imu_powered t u i p vs) = Some (p + 10000000)"
proof -
  note r = imu_ready_state [OF assms(1), of t u i]
  define e where "e = setBmi ImuPowerReg 4
    ((selected ImuPowerReg (imu_ready t u i vs))\<lparr>registerAddress := ImuPowerReg + 1\<rparr>)"
  have eq: "imu_powered t u i p vs = configureMotion p (sampleSensors p e)"
    unfolding imu_powered_def imu_write_fold
    by (simp add: bmi270_send_def writeStored_def storedRegister_def Let_def r e_def selected_def bmi270_registers,
        simp add: bmi270_registers r [unfolded bmi270_registers])
  have e: "registers e AccelConfReg = 0xA8" "registers e AccelRangeReg = 2" "registers e InternalStatusReg = 1"
      "registers e ImuPowerReg = 4" "nextSampleNs e 0 = 0" "dataReadyUntilNs e 0 = 0"
    using r by (simp_all add: e_def selected_def, simp_all add: bmi270_registers)
  have period: "sensorPeriodNs e 0 = 10000000" "sensorPeriodNs e 1 = 0"
    using e by (simp_all add: sensorPeriodNs_def drop_bit_eq_div)
  have "sensorPeriodNs (imu_powered t u i p vs) 0 = sensorPeriodNs e 0"
    unfolding eq using sampleSensors_rate by (intro sensorPeriod_cong) simp_all
  then show "sensorPeriodNs (imu_powered t u i p vs) 0 = 10000000" using period by simp
  show "registers (imu_powered t u i p vs) AccelRangeReg = 2"
    unfolding eq using e sampleSensors_other [of AccelRangeReg p e] by (simp add: sampleRegister_def bmi270_registers)
  show "nextSampleNs (imu_powered t u i p vs) 0 = p + 10000000"
    unfolding eq using accelerometer_starts [OF period(1)] e assms(2) by simp
  show "sampleTimer (imu_powered t u i p vs) = Some (p + 10000000)"
    unfolding eq using accelerometer_timer [OF period(1) _ e(5,6) assms(2) period(2)] by simp
qed

text \<open>A read within the acceleration registers returns what they hold.\<close>

lemma accelerometer_burst:
  assumes "registerAddress d = a" "AccelDataReg \<le> a" "unat a + n \<le> 0x12"
  shows "fst (read_burst (bmi270_receive now) n d) = map (\<lambda>i. registers d (a + of_nat i)) [0..<n]"
  using assms
proof (induction n arbitrary: d a)
  case (Suc n)
  have a: "0x0C \<le> a" "a \<le> 0x11" using Suc.prems by (simp_all add: AccelDataReg_def word_le_nat_alt)
  define e where "e = setBmi StatusReg (registers d StatusReg AND NOT 0x80) (d\<lparr>registerAddress := a + 1\<rparr>)"
  have other: "a \<noteq> InitDataReg" "a \<noteq> 0x26" "a \<noteq> FeatureStatusReg" "a \<noteq> DataStatusReg" "\<not> FeatureDataReg \<le> a"
    using a by (auto simp: bmi270_registers word_le_nat_alt)
  have step: "bmi270_receive now d = (registers d a, e)"
    using Suc.prems(1) a other by (simp add: bmi270_receive_def Let_def e_def AccelDataReg_def)
  have unat: "unat (a + 1) = Suc (unat a)" using a by (simp add: unat_word_ariths word_le_nat_alt)
  have e: "registerAddress e = a + 1" "AccelDataReg \<le> a + 1" "unat (a + 1) + n \<le> 0x12"
    using Suc.prems a unat by (simp_all add: e_def AccelDataReg_def word_le_nat_alt)
  have "registers e (a + 1 + of_nat i) = registers d (a + of_nat (Suc i))" if "i < n" for i
  proof -
    have "unat (a + 1 + of_nat i) = unat (a + 1) + i"
      using that e(3) by (simp add: unat_word_ariths unat_of_nat_byte)
    then have large: "12 \<le> unat (a + 1 + of_nat i)" using e(2) by (simp only: AccelDataReg_def word_le_nat_alt) simp
    have "a + 1 + of_nat i \<noteq> StatusReg"
    proof
      assume "a + 1 + of_nat i = StatusReg"
      with large show False by (simp only: StatusReg_def) simp
    qed
    then show ?thesis by (simp add: e_def ac_simps)
  qed
  then have "fst (read_burst (bmi270_receive now) n e) = map (\<lambda>i. registers d (a + of_nat (Suc i))) [0..<n]"
    unfolding Suc.IH [OF e] by simp
  moreover have "[0..<Suc n] = 0 # map Suc [0..<n]" by (simp add: map_Suc_upt upt_conv_Cons)
  ultimately show ?case by (simp add: step case_prod_beta comp_def del: upt_Suc)
qed simp

definition imu_read :: "int \<Rightarrow> byte \<Rightarrow> nat \<Rightarrow> bmi270 \<Rightarrow> bytes" where
  "imu_read now a n d = fst (read_transaction (bmi270_event now) (bmi270_send now) (bmi270_receive now) a n d)"

lemma imu_read_acceleration: "imu_read now AccelDataReg 6 d = map (\<lambda>i. registers d (AccelDataReg + of_nat i)) [0..<6]"
proof -
  let ?s = "snapshotTime now (selected AccelDataReg d)"
  have "imu_read now AccelDataReg 6 d = fst (read_burst (bmi270_receive now) 6 ?s)"
    by (simp add: imu_read_def read_transaction_def bmi270_event_def bmi270_send_def selected_def Let_def)
  also have "\<dots> = map (\<lambda>i. registers ?s (AccelDataReg + of_nat i)) [0..<6]"
    by (rule accelerometer_burst) (simp_all add: snapshotTime_def selected_def Let_def AccelDataReg_def)
  also have "\<dots> = map (\<lambda>i. registers d (AccelDataReg + of_nat i)) [0..<6]"
    by (simp add: upt_rec snapshotTime_def selected_def Let_def AccelDataReg_def stw_def)
  finally show ?thesis .
qed

text \<open>C36: once the guest has uploaded a configuration file of 8192 bytes in one burst, started it and
  powered the accelerometer up (at time \<open>p\<close>, at its reset setting of 100 samples a second and
  \<open>\<plusminus>\<close>8 g), the chip holds the file and wakes itself at the first sample's time; the sample
  taken then or later shows the guest the acceleration the host set, as little-endian register units of
  1/4096 g.\<close>

theorem imu_bringup_delivers:
  assumes "length vs = ConfigSize" "0 \<le> p" "p + 10000000 \<le> now" and k: "\<And>axis. \<bar>k axis\<bar> < 32768"
  shows "sampleTimer (imu_powered t u i p vs) = Some (p + 10000000) \<and>
    imu_read r AccelDataReg 6 (bmi270_sampleTimer now
        (bmi270SetMotion (\<lambda>axis. Fin (of_int (k axis) / 4096)) w (imu_powered t u i p vs))) =
      concat (map (\<lambda>axis. let v = of_int (k axis) :: u16 in [ucast v, ucast (drop_bit 8 v)]) [0, 1, 2])"
proof -
  note powered = imu_powered_state [OF assms(1,2), of t u i]
  let ?h = "bmi270SetMotion (\<lambda>axis. Fin (of_int (k axis) / 4096)) w (imu_powered t u i p vs)"
  define h where "h = ?h\<lparr>sampleTimer := None\<rparr>"
  have period: "sensorPeriodNs h 0 = 10000000"
    unfolding powered(1) [symmetric] by (rule sensorPeriod_cong) (simp_all add: h_def bmi270SetMotion_def)
  have h: "registers h AccelRangeReg = 2" "nextSampleNs h 0 = p + 10000000"
      "\<And>axis. axis < 3 \<Longrightarrow> accelerationG h axis = of_int (k axis) / 4096"
    using powered by (simp_all add: h_def bmi270SetMotion_def finitePart_def)
  have sample: "registers (bmi270_sampleTimer now ?h) (AccelDataReg + of_nat j) = registers (storeSample 0 h) (AccelDataReg + of_nat j)"
    if "j < 6" for j
  proof -
    have "j \<in> {0, 1, 2, 3, 4, 5}" using that by auto
    then have "AccelDataReg \<le> AccelDataReg + of_nat j" "AccelDataReg + of_nat j < GyroDataReg"
      by (auto simp: bmi270_registers)
    then show ?thesis
      unfolding bmi270_sampleTimer_def h_def [symmetric]
      using period h(2) assms(2,3) by (intro accelerometer_samples) simp_all
  qed
  have axes: "sampledValue 0 2 (accelerationG h axis) = of_int (k axis)" if "axis < 3" for axis
    unfolding h(3) [OF that] by (rule sampledValue_exact [OF k])
  have "imu_read r AccelDataReg 6 (bmi270_sampleTimer now ?h) = map (\<lambda>j. registers (storeSample 0 h) (AccelDataReg + of_nat j)) [0..<6]"
    unfolding imu_read_acceleration using sample by simp
  also have "\<dots> = concat (map (\<lambda>axis. let v = of_int (k axis) :: u16 in [ucast v, ucast (drop_bit 8 v)]) [0, 1, 2])"
    using axes [of 0] axes [of 1] axes [of 2] h(1)
    by (simp add: storeSample_def Let_def stw_def upt_rec AccelDataReg_def AccelRangeReg_def flip: numeral_2_eq_2)
  finally show ?thesis using powered(4) by simp
qed

theorem imu_bringup_delivers_witness:
  "imu_read 30000000 AccelDataReg 6 (bmi270_sampleTimer 20000000
      (bmi270SetMotion (\<lambda>axis. Fin (of_int (if axis = 2 then 4096 else -1) / 4096)) (\<lambda>_. NaN)
        (imu_powered 0 1 2 10000000 (replicate 8192 7)))) = [0xFF, 0xFF, 0xFF, 0xFF, 0x00, 0x10]"
proof -
  let ?k = "\<lambda>axis :: nat. if axis = 2 then 4096 else -1 :: int"
  have "length (replicate 8192 7 :: bytes) = ConfigSize" by (simp add: ConfigSize_def)
  then have "imu_read 30000000 AccelDataReg 6 (bmi270_sampleTimer 20000000 (bmi270SetMotion (\<lambda>axis. Fin (of_int (?k axis) / 4096)) (\<lambda>_. NaN)
        (imu_powered 0 1 2 10000000 (replicate 8192 7)))) =
      concat (map (\<lambda>axis. let v = of_int (?k axis) :: u16 in [ucast v, ucast (drop_bit 8 v)]) [0, 1, 2])"
    by (rule imu_bringup_delivers [where k = ?k, THEN conjunct2]) simp_all
  moreover have "(ucast (-1 :: u16) :: byte) = 0xFF" "(ucast (drop_bit 8 (-1 :: u16)) :: byte) = 0xFF" by code_simp+
  ultimately show ?thesis by (simp add: Let_def)
qed

text \<open>C37: in every state the device can reach, the sample timer is pending exactly when the accelerometer
  or the gyroscope runs, the motion timer exactly when any-motion detection is on, a sensor that
  runs has been initialised after all 8192 bytes of the configuration file were written, and a sensor
  that does not run shows no data ready.\<close>

theorem imu_state_consistent:
  assumes "reachable imu_starts imu_step d"
  shows "(sampleTimer d \<noteq> None \<longleftrightarrow> sensorPeriodNs d 0 \<noteq> 0 \<or> sensorPeriodNs d 1 \<noteq> 0) \<and>
    (motionTimer d \<noteq> None \<longleftrightarrow> motionPeriodNs d \<noteq> 0) \<and>
    (\<forall>s < 2. if sensorPeriodNs d s \<noteq> 0 then (\<forall>i < ConfigSize. writtenBits d i) \<and> registers d InitControlReg AND 1 \<noteq> 0
       else registers d DataStatusReg AND readyBit s = 0)"
proof -
  have inv: "upload_ok d" "timers_ok d" using imu_machine.reachable_inv [OF assms] by (auto simp: imu_inv_def)
  have "(\<forall>i < ConfigSize. writtenBits d i) \<and> registers d InitControlReg AND 1 \<noteq> 0" if "sensorPeriodNs d s \<noteq> 0" for s
  proof -
    have on: "registers d InternalStatusReg = 1" using that by (auto simp: sensorPeriodNs_def Let_def split: if_splits)
    then have "card (uploaded d) = card {..< ConfigSize}" using inv(1) by (simp add: upload_ok_def)
    moreover have "uploaded d \<subseteq> {..< ConfigSize}" by (auto simp: uploaded_def)
    ultimately have "uploaded d = {..< ConfigSize}" by (intro card_subset_eq) simp_all
    then show ?thesis using on inv(1) by (auto simp: uploaded_def upload_ok_def)
  qed
  then show ?thesis using inv(2) unfolding timers_ok_def silent_def by (simp del: One_nat_def)
qed

theorem imu_state_consistent_witness:
  "writtenBits (imu_powered 0 1 2 3 (replicate 8192 7)) 8191"
proof -
  let ?d = "imu_powered 0 1 2 3 (replicate 8192 7)"
  have "reachable imu_starts imu_step (bmi270_init 0)" by (rule reach_init) (auto simp: imu_starts_def)
  then have "reachable imu_starts imu_step ?d"
    unfolding imu_powered_def imu_ready_def imu_uploaded_def by (intro imu_write_reachable)
  moreover have "sensorPeriodNs ?d 0 \<noteq> 0"
    using imu_powered_state(1) [of "replicate 8192 7" 3 0 1 2] by (simp add: ConfigSize_def)
  ultimately have "\<forall>i < ConfigSize. writtenBits ?d i" using imu_state_consistent [of ?d] by (metis zero_less_numeral)
  then show ?thesis by (simp add: ConfigSize_def)
qed

end
