(* ===== verification/I2s.thy ===== *)
theory I2s
  imports SpiMaster Float32
begin

text \<open>
  The I2S controller of the chip, \<open>qemu/esp32s3/esp32s3_i2s.c\<close> and \<open>esp32s3_i2s_audio.c\<close>: two timed streams
  that move descriptors of a GDMA channel to and from a codec, the byte period computed from the clock
  registers, and the packing of PCM frames. The outside is the parameter \<open>i2s_env\<close>: the two calls of
  the codec interface, the DMA address space (as for the SPI master), the peripheral number of
  I2S0 and the masks and base address that QEMU's GDMA header defines. The clock is an argument. C's
  \<open>double\<close> is rationals rounded to 53 bits after each operation; all values stay within its range.
\<close>

unbundle bit_operations_syntax

section \<open>Registers\<close>

definition DmaBufferSize :: nat where "DmaBufferSize = 4096"
definition DmaPollIntervalNs :: int where "DmaPollIntervalNs = 1000000"
definition I2sBlockFrames :: nat where "I2sBlockFrames = 256"

definition I2sIntRaw :: nat where "I2sIntRaw = 0x0C"
definition I2sIntSt :: nat where "I2sIntSt = 0x10"
definition I2sIntEna :: nat where "I2sIntEna = 0x14"
definition I2sIntClr :: nat where "I2sIntClr = 0x18"
definition I2sRxConf :: nat where "I2sRxConf = 0x20"
definition I2sTxConf :: nat where "I2sTxConf = 0x24"
definition I2sRxConf1 :: nat where "I2sRxConf1 = 0x28"
definition I2sRxClk :: nat where "I2sRxClk = 0x30"
definition I2sTxClk :: nat where "I2sTxClk = 0x34"
definition I2sRxDiv :: nat where "I2sRxDiv = 0x38"
definition I2sRxTdm :: nat where "I2sRxTdm = 0x50"
definition I2sRxEof :: nat where "I2sRxEof = 0x64"
definition I2sState :: nat where "I2sState = 0x6C"
definition I2sDate :: nat where "I2sDate = 0x80"

lemmas i2s_registers = I2sIntRaw_def I2sIntSt_def I2sIntEna_def I2sIntClr_def I2sRxConf_def I2sTxConf_def
  I2sRxConf1_def I2sRxClk_def I2sTxClk_def I2sRxDiv_def I2sRxTdm_def I2sRxEof_def I2sState_def I2sDate_def

definition I2sReset :: u32 where "I2sReset = 0x1"
definition FifoReset :: u32 where "FifoReset = 0x2"
definition I2sStart :: u32 where "I2sStart = 0x4"
definition I2sSlave :: u32 where "I2sSlave = 0x8"
definition Mono :: u32 where "Mono = 0x20"
definition TxRepeatMono :: u32 where "TxRepeatMono = 0x40"
definition I2sBigEndian :: u32 where "I2sBigEndian = 0x80"
definition I2sUpdate :: u32 where "I2sUpdate = 0x100"
definition RxMonoFirst :: u32 where "RxMonoFirst = 0x200"
definition PcmBypass :: u32 where "PcmBypass = 0x1000"
definition Fill24 :: u32 where "Fill24 = 0x10000"
definition LsbFirst :: u32 where "LsbFirst = 0x40000"
definition Tdm :: u32 where "Tdm = 0x80000"
definition Pdm :: u32 where "Pdm = 0x100000"
definition ShareClock :: u32 where "ShareClock = 0x8000000"
definition ClockActive :: u32 where "ClockActive = 0x4000000"
definition ClockEnable :: u32 where "ClockEnable = 0x20000000"

section \<open>The outside and the state\<close>

datatype direction = RX | TX

primrec dirIndex :: "direction \<Rightarrow> nat" where
  "dirIndex RX = 0"
| "dirIndex TX = 1"

primrec opposite :: "direction \<Rightarrow> direction" where
  "opposite RX = TX"
| "opposite TX = RX"

type_synonym audio_frame = "u32 \<times> u32"

record ('c, 'm) i2s_env =
  codec_rate :: "bool \<Rightarrow> nat \<Rightarrow> 'c \<Rightarrow> 'c"
  codec_transfer :: "bool \<Rightarrow> audio_frame list \<Rightarrow> 'c \<Rightarrow> audio_frame list \<times> 'c"
  dma_space :: "'m dma_unit"
  i2s_peripheral :: u32
  dma_ram :: u32
  in_dscr_err :: u32
  out_dscr_err :: u32
  in_dscr_empty :: u32
  out_total_eof :: u32

record i2s_stream =
  stream_timer :: "int option"
  deadlineNs :: int
  stream_channel :: u32
  stream_descriptor :: u32
  stream_pending :: "u32 list"
  stream_bytes :: nat
  pendingValid :: bool
  rxEofBytes :: u32

record ('c, 'm) i2s =
  i2s_regs :: "u32 list"
  i2s_gdma :: "(direction \<Rightarrow> dma_channel list) option"
  i2s_codec :: "'c option"
  streams :: "direction \<Rightarrow> i2s_stream"
  i2s_memory :: 'm

definition i2sReg :: "nat \<Rightarrow> ('c, 'm) i2s \<Rightarrow> u32" where
  "i2sReg address s = i2s_regs s ! (address div 4)"

text \<open>The register of a pair that belongs to a direction.\<close>

definition dirReg :: "nat \<Rightarrow> direction \<Rightarrow> ('c, 'm) i2s \<Rightarrow> u32" where
  "dirReg address direction s = i2sReg (address + dirIndex direction * 4) s"

definition setI2sReg :: "nat \<Rightarrow> u32 \<Rightarrow> ('c, 'm) i2s \<Rightarrow> ('c, 'm) i2s" where
  "setI2sReg address v s = s\<lparr>i2s_regs := (i2s_regs s)[address div 4 := v]\<rparr>"

definition updStream :: "direction \<Rightarrow> (i2s_stream \<Rightarrow> i2s_stream) \<Rightarrow> ('c, 'm) i2s \<Rightarrow> ('c, 'm) i2s" where
  "updStream direction f s = s\<lparr>streams := (streams s)(direction := f (streams s direction))\<rparr>"

definition streamChannels :: "direction \<Rightarrow> ('c, 'm) i2s \<Rightarrow> dma_channel list" where
  "streamChannels direction s = (case i2s_gdma s of Some g \<Rightarrow> g direction | None \<Rightarrow> [])"

definition updChannel :: "direction \<Rightarrow> nat \<Rightarrow> (dma_channel \<Rightarrow> dma_channel) \<Rightarrow> ('c, 'm) i2s \<Rightarrow> ('c, 'm) i2s" where
  "updChannel direction i f s =
     s\<lparr>i2s_gdma := map_option (\<lambda>g. g(direction := (g direction)[i := f (g direction ! i)])) (i2s_gdma s)\<rparr>"

section \<open>Frame timing\<close>

definition i2s_dmaChannels :: "direction \<Rightarrow> ('c, 'm) i2s \<Rightarrow> nat" where
  "i2s_dmaChannels direction s =
     (if direction = RX then (if i2sReg I2sRxConf s AND Mono \<noteq> 0 then 1 else 2)
      else
        let slots = i2sReg (I2sRxTdm + 4) s in
        if slots AND 0x100000 \<noteq> 0 then 2 else of_bool (bit slots 0) + of_bool (bit slots 1))"

definition sampleBits :: "direction \<Rightarrow> ('c, 'm) i2s \<Rightarrow> nat" where
  "sampleBits direction s = unat (drop_bit 13 (dirReg I2sRxConf1 direction s) AND 31) + 1"

definition sampleBytes :: "direction \<Rightarrow> ('c, 'm) i2s \<Rightarrow> nat" where
  "sampleBytes direction s =
     (if sampleBits direction s = 24 \<and> dirReg I2sRxConf direction s AND Fill24 \<noteq> 0 then 4
      else sampleBits direction s div 8)"

text \<open>Whether the stream's own configuration lets it run.\<close>

definition streamEnabled :: "direction \<Rightarrow> ('c, 'm) i2s \<Rightarrow> bool" where
  "streamEnabled direction s \<longleftrightarrow>
     (let conf = dirReg I2sRxConf direction s; slots = dirReg I2sRxTdm direction s in
      \<not> (conf AND I2sStart = 0 \<or> conf AND (I2sReset OR FifoReset OR Pdm) \<noteq> 0 \<or>
         conf AND Tdm = 0 \<or> conf AND PcmBypass = 0 \<or>
         drop_bit 16 slots AND 15 \<noteq> 1 \<or> i2s_dmaChannels direction s = 0 \<or> sampleBits direction s mod 8 \<noteq> 0 \<or>
         i2sReg I2sTxClk s AND ClockEnable = 0 \<or>
         dirReg I2sRxClk direction s AND ClockActive = 0))"

text \<open>The direction whose clock a slave takes, \<open>None\<close> when there is none.\<close>

definition clockDirection :: "direction \<Rightarrow> ('c, 'm) i2s \<Rightarrow> direction option" where
  "clockDirection direction s =
     (if dirReg I2sRxConf direction s AND I2sSlave \<noteq> 0 then
        let other = dirReg I2sRxConf (opposite direction) s in
        if i2sReg I2sTxConf s AND ShareClock = 0 \<or> other AND I2sStart = 0 \<or>
           other AND (I2sSlave OR I2sReset OR FifoReset) \<noteq> 0 then None
        else Some (opposite direction)
      else Some direction)"

definition SourceHz :: "nat list" where
  "SourceHz = [40000000, 240000000, 160000000, 0]"

definition clockFraction :: "u32 \<Rightarrow> rat" where
  "clockFraction div_reg =
     (let z = unat (div_reg AND 511); y = unat (drop_bit 9 div_reg AND 511); x = unat (drop_bit 18 div_reg AND 511);
          a = z * (x + 1) + y;
          fraction = (if a \<noteq> 0 \<and> z \<noteq> 0 then round64 (of_nat z / of_nat a) else 0) in
      if div_reg AND 0x8000000 \<noteq> 0 \<and> z \<noteq> 0 then round64 (1 - fraction) else fraction)"

definition bitClockHz :: "direction \<Rightarrow> ('c, 'm) i2s \<Rightarrow> rat" where
  "bitClockHz c s =
     (let clock = dirReg I2sRxClk c s; source = unat (drop_bit 27 clock AND 3);
          n = (if clock AND 255 \<noteq> 0 then unat (clock AND 255) else 256) in
      round64 (round64 (of_nat (SourceHz ! source) / round64 (of_nat n + clockFraction (dirReg I2sRxDiv c s))) /
        of_nat (unat (drop_bit 7 (dirReg I2sRxConf1 c s) AND 63) + 1)))"

definition bytePeriodNs :: "direction \<Rightarrow> ('c, 'm) i2s \<Rightarrow> rat" where
  "bytePeriodNs direction s =
     (if \<not> streamEnabled direction s then 0
      else case clockDirection direction s of
        None \<Rightarrow> 0
      | Some c \<Rightarrow>
          let clock = dirReg I2sRxClk c s in
          if SourceHz ! unat (drop_bit 27 clock AND 3) = 0 \<or> clock AND ClockActive = 0 then 0
          else
            let frameHz = round64 (bitClockHz c s / of_nat (2 * (unat (drop_bit 18 (dirReg I2sRxConf1 c s) AND 63) + 1))) in
            round64 (1000000000 /
              round64 (round64 (frameHz * of_nat (sampleBytes direction s)) * of_nat (i2s_dmaChannels direction s))))"

definition i2s_updateAudio :: "('c, 'm) i2s_env \<Rightarrow> direction \<Rightarrow> ('c, 'm) i2s \<Rightarrow> ('c, 'm) i2s" where
  "i2s_updateAudio E direction s =
     (let periodNs = bytePeriodNs direction s; frameBytes = sampleBytes direction s * i2s_dmaChannels direction s;
          rate = (if periodNs \<noteq> 0 then nat (lroundf (round64 (1000000000 / round64 (periodNs * of_nat frameBytes)))) else 0) in
      s\<lparr>i2s_codec := map_option (codec_rate E (direction = RX) rate) (i2s_codec s)\<rparr>)"

section \<open>Packing\<close>

definition loadSample :: "nat \<Rightarrow> bool \<Rightarrow> bytes \<Rightarrow> u32" where
  "loadSample width big data =
     push_bit (32 - width * 8)
       (fold (\<lambda>i v. v OR push_bit (i * 8) (ucast (data ! (if big then width - 1 - i else i)))) [0..<width] 0)"

definition i2s_storeSample :: "nat \<Rightarrow> bool \<Rightarrow> u32 \<Rightarrow> bytes" where
  "i2s_storeSample width big sample =
     (let v = drop_bit (32 - width * 8) sample; data = map (\<lambda>i. ucast (drop_bit (i * 8) v)) [0..<width] in
      if big then rev data else data)"

definition slotOf :: "nat \<Rightarrow> audio_frame \<Rightarrow> u32" where
  "slotOf k f = (if k = 0 then fst f else snd f)"

definition setSlot :: "nat \<Rightarrow> u32 \<Rightarrow> audio_frame \<Rightarrow> audio_frame" where
  "setSlot k v f = (if k = 0 then (v, snd f) else (fst f, v))"

record pcm_format =
  pcm_width :: nat
  pcm_channels :: nat
  pcm_mask :: u32
  pcm_big :: bool
  pcm_polarity :: nat
  pcm_repeat :: bool
  pcm_monoFirst :: bool

definition pcmFormat :: "direction \<Rightarrow> ('c, 'm) i2s \<Rightarrow> pcm_format" where
  "pcmFormat direction s =
     (let conf = dirReg I2sRxConf direction s in
      \<lparr>pcm_width = sampleBytes direction s, pcm_channels = i2s_dmaChannels direction s,
       pcm_mask = dirReg I2sRxTdm direction s AND 3, pcm_big = (conf AND I2sBigEndian \<noteq> 0),
       pcm_polarity = unat (drop_bit 17 conf AND 1), pcm_repeat = (conf AND TxRepeatMono \<noteq> 0),
       pcm_monoFirst = (conf AND RxMonoFirst \<noteq> 0)\<rparr>)"

definition frameBytes :: "pcm_format \<Rightarrow> nat" where
  "frameBytes f = pcm_width f * pcm_channels f"

text \<open>A slot reaches the other channel of the codec when the polarity bit is set.\<close>

definition crossed :: "pcm_format \<Rightarrow> nat \<Rightarrow> nat" where
  "crossed f slot = (if pcm_polarity f = 0 then slot else 1 - slot)"

definition monoChannel :: "pcm_format \<Rightarrow> nat" where
  "monoChannel f = (if pcm_mask f = 2 then 1 else if pcm_mask f = 1 then 0 else of_bool (\<not> pcm_monoFirst f))"

definition packFrame :: "pcm_format \<Rightarrow> audio_frame \<Rightarrow> bytes" where
  "packFrame f fr = concat (map (\<lambda>channel.
     let slot = (if pcm_channels f = 1 then monoChannel f else channel) in
     i2s_storeSample (pcm_width f) (pcm_big f) (if bit (pcm_mask f) slot then slotOf (crossed f slot) fr else 0))
     [0..<pcm_channels f])"

definition unpackSlot :: "pcm_format \<Rightarrow> nat \<Rightarrow> bytes \<times> audio_frame \<Rightarrow> bytes \<times> audio_frame" where
  "unpackSlot f slot = (\<lambda>(data, fr).
     if pcm_channels f = 1 \<and> \<not> bit (pcm_mask f) slot then (data, fr)
     else (drop (pcm_width f) data,
           if bit (pcm_mask f) slot then setSlot (crossed f slot) (loadSample (pcm_width f) (pcm_big f) data) fr else fr))"

definition unpackFrame :: "pcm_format \<Rightarrow> bytes \<Rightarrow> audio_frame" where
  "unpackFrame f data =
     (let fr = snd (unpackSlot f 1 (unpackSlot f 0 (data, (0, 0)))) in
      if pcm_channels f = 1 \<and> pcm_repeat f then
        let source = (if pcm_mask f = 2 then 1 else 0); target = 1 - source in
        setSlot (crossed f target) (slotOf (crossed f source) fr) fr
      else fr)"

definition blockFrames :: "pcm_format \<Rightarrow> nat \<Rightarrow> nat" where
  "blockFrames f n = min (n div frameBytes f) I2sBlockFrames"

lemma block_progress: "frameBytes f \<noteq> 0 \<Longrightarrow> \<not> n < frameBytes f \<Longrightarrow> n - blockFrames f n * frameBytes f < n"
  by (simp add: blockFrames_def I2sBlockFrames_def div_greater_zero_iff)

text \<open>The loop over blocks of at most 256 frames; bytes that fill no frame stay as they are.\<close>

function receiveBlocks :: "('c, 'm) i2s_env \<Rightarrow> pcm_format \<Rightarrow> bytes \<Rightarrow> 'c \<Rightarrow> bytes \<times> 'c" where
  "receiveBlocks E f samples c =
     (if frameBytes f = 0 \<or> length samples < frameBytes f then (samples, c)
      else
        let k = blockFrames f (length samples);
            (frames, c') = codec_transfer E True (replicate k (0, 0)) c;
            (rest, c'') = receiveBlocks E f (drop (k * frameBytes f) samples) c' in
        (concat (map (\<lambda>i. packFrame f (frames ! i)) [0..<k]) @ rest, c''))"
  by pat_completeness auto
termination
  by (relation "measure (\<lambda>(E, f, samples, c). length samples)")
    (auto simp: block_progress)

function sendBlocks :: "('c, 'm) i2s_env \<Rightarrow> pcm_format \<Rightarrow> bytes \<Rightarrow> 'c \<Rightarrow> 'c" where
  "sendBlocks E f samples c =
     (if frameBytes f = 0 \<or> length samples < frameBytes f then c
      else
        let k = blockFrames f (length samples) in
        sendBlocks E f (drop (k * frameBytes f) samples)
          (snd (codec_transfer E False
            (map (\<lambda>i. unpackFrame f (drop (i * frameBytes f) samples)) [0..<k]) c)))"
  by pat_completeness auto
termination
  by (relation "measure (\<lambda>(E, f, samples, c). length samples)")
    (auto simp: block_progress)

declare receiveBlocks.simps [simp del] sendBlocks.simps [simp del]

definition transferAudio :: "('c, 'm) i2s_env \<Rightarrow> direction \<Rightarrow> bytes \<Rightarrow> ('c, 'm) i2s \<Rightarrow> bytes \<times> ('c, 'm) i2s" where
  "transferAudio E direction samples s =
     (let f = pcmFormat direction s in
      case i2s_codec s of
        None \<Rightarrow> (samples, s)
      | Some c \<Rightarrow>
          if frameBytes f = 0 \<or> dirReg I2sRxConf direction s AND LsbFirst \<noteq> 0 then (samples, s)
          else if direction = RX then
            let (samples, c) = receiveBlocks E f samples c in (samples, s\<lparr>i2s_codec := Some c\<rparr>)
          else (samples, s\<lparr>i2s_codec := Some (sendBlocks E f samples c)\<rparr>))"

section \<open>Streams\<close>

definition channelIrq :: "dma_channel \<Rightarrow> dma_channel" where
  "channelIrq ch = (let st = int_raw ch AND int_ena ch in ch\<lparr>int_st := st, int_irq := (st \<noteq> 0)\<rparr>)"

definition startBit :: "direction \<Rightarrow> u32" where
  "startBit direction = (if direction = RX then 0x400000 else 0x200000)"

text \<open>A start or restart of the channel takes the stream to the first or to the next descriptor.\<close>

definition takeLink :: "('c, 'm) i2s_env \<Rightarrow> int \<Rightarrow> direction \<Rightarrow> nat \<Rightarrow> ('c, 'm) i2s \<Rightarrow> ('c, 'm) i2s" where
  "takeLink E now direction i s =
     (let start = startBit direction; restart = push_bit 1 start; stop = drop_bit 1 start; park = push_bit 2 start;
          ch = streamChannels direction s ! i in
      if dma_link ch AND (start OR restart) = 0 then s
      else
        updChannel direction i (\<lambda>ch. ch\<lparr>dma_link := dma_link ch AND NOT (start OR restart OR stop OR park)\<rparr>)
          (updStream direction (\<lambda>st. st\<lparr>deadlineNs := now, stream_channel := of_nat i,
             stream_descriptor := (if dma_link ch AND start \<noteq> 0 \<or> desc_addr ch = 0
               then (dma_ram E AND 0xFFF00000) OR (dma_link ch AND 0xFFFFF) else desc_addr ch),
             pendingValid := False, rxEofBytes := 0\<rparr>) s))"

fun streamChannelFrom :: "('c, 'm) i2s_env \<Rightarrow> int \<Rightarrow> direction \<Rightarrow> nat list \<Rightarrow> ('c, 'm) i2s \<Rightarrow> nat option \<times> ('c, 'm) i2s" where
  "streamChannelFrom E now direction [] s = (None, s)"
| "streamChannelFrom E now direction (i # is) s =
     (if dma_peripheral (streamChannels direction s ! i) AND 63 \<noteq> i2s_peripheral E then streamChannelFrom E now direction is s
      else
        let s = takeLink E now direction i s in
        if stream_channel (streams s direction) \<noteq> of_nat i then streamChannelFrom E now direction is s
        else
          let stop = drop_bit 1 (startBit direction); park = push_bit 2 (startBit direction);
              ch = streamChannels direction s ! i in
          if dma_conf0 ch AND 1 \<noteq> 0 \<or> dma_link ch AND (stop OR park) \<noteq> 0 then
            (None, updChannel direction i (\<lambda>ch. ch\<lparr>dma_link := (dma_link ch AND NOT stop) OR park\<rparr>)
               (updStream direction (\<lambda>st. st\<lparr>stream_descriptor := 0, pendingValid := False\<rparr>) s))
          else (if stream_descriptor (streams s direction) \<noteq> 0 then Some i else None, s))"

definition streamChannel :: "('c, 'm) i2s_env \<Rightarrow> int \<Rightarrow> direction \<Rightarrow> ('c, 'm) i2s \<Rightarrow> nat option \<times> ('c, 'm) i2s" where
  "streamChannel E now direction s = streamChannelFrom E now direction [0..<length (streamChannels direction s)] s"

definition i2s_dmaError :: "('c, 'm) i2s_env \<Rightarrow> direction \<Rightarrow> nat \<Rightarrow> ('c, 'm) i2s \<Rightarrow> ('c, 'm) i2s" where
  "i2s_dmaError E direction i s =
     updChannel direction i (\<lambda>ch. channelIrq (ch\<lparr>
         int_raw := int_raw ch OR (if direction = RX then in_dscr_err E else out_dscr_err E),
         dma_link := dma_link ch OR (if direction = RX then 0x1000000 else 0x800000)\<rparr>))
       (updStream direction (\<lambda>st. st\<lparr>stream_descriptor := 0, pendingValid := False\<rparr>) s)"

text \<open>The bytes a descriptor asks for; a receiving stream ends at the byte count of the EOF register.\<close>

definition wantedBytes :: "direction \<Rightarrow> u32 \<Rightarrow> ('c, 'm) i2s \<Rightarrow> nat" where
  "wantedBytes direction flags s =
     (if direction = RX then
        let eofBytes = unat (i2sReg I2sRxEof s) in
        min (unat (flags AND 0xFFF)) (eofBytes - min (unat (rxEofBytes (streams s direction))) eofBytes)
      else unat (drop_bit 12 flags AND 0xFFF))"

text \<open>Fetching the current descriptor and setting the timer for its end.\<close>

definition fetchDescriptor :: "('c, 'm) i2s_env \<Rightarrow> direction \<Rightarrow> nat \<Rightarrow> ('c, 'm) i2s \<Rightarrow> ('c, 'm) i2s" where
  "fetchDescriptor E direction i s =
     (let descriptor = stream_descriptor (streams s direction) in
      case (if descriptor AND 3 \<noteq> 0 then None else mem_read (dma_space E) descriptor 12 (i2s_memory s)) of
        None \<Rightarrow> i2s_dmaError E direction i s
      | Some data \<Rightarrow>
          let flags = readLe32 data; n = wantedBytes direction flags s;
              s = updStream direction (\<lambda>st. st\<lparr>stream_pending := [flags, readLe32 (drop 4 data), readLe32 (drop 8 data)],
                stream_bytes := n\<rparr>) s in
          if n = 0 \<or> unat (flags AND 0xFFF) < n \<or>
             (dma_conf1 (streamChannels direction s ! i) AND 0x1000 \<noteq> 0 \<and> flags AND 0x80000000 = 0) then
            i2s_dmaError E direction i s
          else
            let deadline = deadlineNs (streams s direction) + max \<lceil>round64 (of_nat n * bytePeriodNs direction s)\<rceil> 1 in
            updChannel direction i (\<lambda>ch. ch\<lparr>dma_state := descriptor AND 0x3FFFF\<rparr>)
              (updStream direction (\<lambda>st. st\<lparr>pendingValid := True, deadlineNs := deadline, stream_timer := Some deadline\<rparr>) s))"

definition streamSchedule :: "('c, 'm) i2s_env \<Rightarrow> int \<Rightarrow> direction \<Rightarrow> ('c, 'm) i2s \<Rightarrow> ('c, 'm) i2s" where
  "streamSchedule E now direction s =
     (let s = i2s_updateAudio E direction s in
      if bytePeriodNs direction s = 0 then
        updStream direction (\<lambda>st. st\<lparr>stream_timer := None, pendingValid := False, deadlineNs := now\<rparr>) s
      else
        case streamChannel E now direction s of
          (None, s) \<Rightarrow> updStream direction (\<lambda>st. st\<lparr>deadlineNs := now, stream_timer := Some (now + DmaPollIntervalNs)\<rparr>) s
        | (Some i, s) \<Rightarrow> if pendingValid (streams s direction) then s else fetchDescriptor E direction i s)"

text \<open>Moving the samples of the finished descriptor; \<open>None\<close> when memory cannot be accessed.\<close>

definition moveSamples :: "('c, 'm) i2s_env \<Rightarrow> direction \<Rightarrow> u32 \<Rightarrow> nat \<Rightarrow> ('c, 'm) i2s \<Rightarrow> bool \<times> ('c, 'm) i2s" where
  "moveSamples E direction buffer n s =
     (if direction = RX then
        let (samples, s) = transferAudio E direction (replicate n 0) s in
        case mem_write (dma_space E) buffer samples (i2s_memory s) of
          None \<Rightarrow> (False, s)
        | Some m \<Rightarrow> (True, s\<lparr>i2s_memory := m\<rparr>)
      else
        case mem_read (dma_space E) buffer n (i2s_memory s) of
          None \<Rightarrow> (False, s)
        | Some samples \<Rightarrow> (True, snd (transferAudio E direction samples s)))"

definition receivedEof :: "('c, 'm) i2s \<Rightarrow> bool" where
  "receivedEof s \<longleftrightarrow> rxEofBytes (streams s RX) + of_nat (stream_bytes (streams s RX)) = i2sReg I2sRxEof s"

text \<open>The flags word after the descriptor and whether it is written back.\<close>

definition doneFlags :: "direction \<Rightarrow> u32 \<Rightarrow> nat \<Rightarrow> bool \<Rightarrow> bool \<Rightarrow> u32" where
  "doneFlags direction flags n eof writeBack =
     (if direction = RX then (flags AND NOT 0xD0FFF000) OR push_bit 12 (of_nat n) OR (if eof then 0x40000000 else 0)
      else if writeBack then flags AND NOT 0x80000000 else flags)"

definition i2s_channelDone :: "('c, 'm) i2s_env \<Rightarrow> direction \<Rightarrow> bool \<Rightarrow> u32 \<Rightarrow> u32 \<Rightarrow> dma_channel \<Rightarrow> dma_channel" where
  "i2s_channelDone E direction eof descriptor next_descriptor ch =
     (let ch = ch\<lparr>bfr_bfr_desc_addr := bfr_desc_addr ch, bfr_desc_addr := descriptor, desc_addr := next_descriptor,
                   int_raw := int_raw ch OR 1\<rparr>;
          ch = (if eof then ch\<lparr>suc_eof_desc_addr := descriptor, int_raw := int_raw ch OR 2\<rparr> else ch) in
      channelIrq (if next_descriptor = 0 then
          ch\<lparr>dma_link := dma_link ch OR (if direction = RX then 0x1000000 else 0x800000),
             int_raw := int_raw ch OR (if direction = RX then in_dscr_empty E else out_total_eof E)\<rparr>
        else ch))"

definition finishDescriptor :: "('c, 'm) i2s_env \<Rightarrow> int \<Rightarrow> direction \<Rightarrow> nat \<Rightarrow> ('c, 'm) i2s \<Rightarrow> ('c, 'm) i2s" where
  "finishDescriptor E now direction i s =
     (let st = streams s direction; flags = stream_pending st ! 0; next_descriptor = stream_pending st ! 2;
          writeBack = (dma_conf0 (streamChannels direction s ! i) AND auto_wrback_mask (dma_space E) \<noteq> 0);
          eof = (if direction = RX then receivedEof s else flags AND 0x40000000 \<noteq> 0);
          s = (if direction = RX
               then updStream RX (\<lambda>st. st\<lparr>rxEofBytes := (if eof then 0 else rxEofBytes st + of_nat (stream_bytes st))\<rparr>) s else s) in
      case (if direction = RX \<or> writeBack
            then mem_write (dma_space E) (stream_descriptor st)
              (le32Bytes (doneFlags direction flags (stream_bytes st) eof writeBack)) (i2s_memory s)
            else Some (i2s_memory s)) of
        None \<Rightarrow> i2s_dmaError E direction i s
      | Some m \<Rightarrow>
          streamSchedule E now direction
            (updStream direction (\<lambda>st. st\<lparr>stream_descriptor := next_descriptor, pendingValid := False\<rparr>)
              (updChannel direction i (i2s_channelDone E direction eof (stream_descriptor st) next_descriptor)
                (s\<lparr>i2s_memory := m\<rparr>))))"

text \<open>The timer callback; QEMU has taken the timer off.\<close>

definition streamComplete :: "('c, 'm) i2s_env \<Rightarrow> int \<Rightarrow> direction \<Rightarrow> ('c, 'm) i2s \<Rightarrow> ('c, 'm) i2s" where
  "streamComplete E now direction s =
     (case streamChannel E now direction (updStream direction (\<lambda>st. st\<lparr>stream_timer := None\<rparr>) s) of
        (None, s) \<Rightarrow> streamSchedule E now direction s
      | (Some i, s) \<Rightarrow>
          if \<not> pendingValid (streams s direction) \<or> bytePeriodNs direction s = 0 then streamSchedule E now direction s
          else
            let st = streams s direction in
            case moveSamples E direction (stream_pending st ! 1) (stream_bytes st) s of
              (False, s) \<Rightarrow> i2s_dmaError E direction i s
            | (True, s) \<Rightarrow> finishDescriptor E now direction i s)"

section \<open>Register accesses\<close>

definition i2s_read :: "nat \<Rightarrow> ('c, 'm) i2s \<Rightarrow> u32" where
  "i2s_read offset s =
     (if offset = I2sIntSt then i2sReg I2sIntRaw s AND i2sReg I2sIntEna s
      else if offset = I2sIntClr then 0
      else if offset = I2sState then of_bool (\<not> pendingValid (streams s TX))
      else if offset < 0x84 then i2sReg offset s else 0)"

definition stopStream :: "direction \<Rightarrow> ('c, 'm) i2s \<Rightarrow> ('c, 'm) i2s" where
  "stopStream direction = updStream direction (\<lambda>st. st\<lparr>stream_timer := None, stream_descriptor := 0, pendingValid := False, rxEofBytes := 0\<rparr>)"

definition storeI2s :: "nat \<Rightarrow> u32 \<Rightarrow> ('c, 'm) i2s \<Rightarrow> ('c, 'm) i2s" where
  "storeI2s offset v s =
     (if offset = I2sRxConf \<or> offset = I2sTxConf then
        let s = setI2sReg offset (v AND NOT I2sUpdate) s in
        if v AND (I2sReset OR FifoReset) \<noteq> 0 then stopStream (if offset = I2sRxConf then RX else TX) s else s
      else if offset = I2sIntClr then setI2sReg I2sIntRaw (i2sReg I2sIntRaw s AND NOT (v AND 15)) s
      else if offset = I2sIntEna then setI2sReg offset (v AND 15) s
      else if offset = I2sIntRaw \<or> offset = I2sIntSt \<or> offset = I2sState then s
      else if offset = I2sDate then setI2sReg offset (v AND 0x0FFFFFFF) s
      else if (0x28 \<le> offset \<and> offset \<le> 0x44) \<or> (0x50 \<le> offset \<and> offset \<le> 0x68) then setI2sReg offset v s
      else s)"

definition restartStream :: "('c, 'm) i2s_env \<Rightarrow> int \<Rightarrow> direction \<Rightarrow> ('c, 'm) i2s \<Rightarrow> ('c, 'm) i2s" where
  "restartStream E now direction s =
     streamSchedule E now direction (updStream direction (\<lambda>st. st\<lparr>pendingValid := False, deadlineNs := now\<rparr>) s)"

definition i2s_write :: "('c, 'm) i2s_env \<Rightarrow> int \<Rightarrow> nat \<Rightarrow> u32 \<Rightarrow> ('c, 'm) i2s \<Rightarrow> ('c, 'm) i2s" where
  "i2s_write E now offset v s =
     (let s = storeI2s offset v s in
      if I2sRxConf \<le> offset \<and> offset \<le> I2sRxEof then restartStream E now TX (restartStream E now RX s) else s)"

section \<open>Reset and creation\<close>

definition i2sDefaults :: "u32 list" where
  "i2sDefaults = map (\<lambda>i.
     if i = I2sRxConf div 4 then 0x00009600 else if i = I2sTxConf div 4 then 0x0000B200
     else if i = I2sRxConf1 div 4 then 0x2F3DE300 else if i = 0x2C div 4 then 0x6F3DE300
     else if i = I2sRxClk div 4 \<or> i = I2sTxClk div 4 then 2
     else if i = I2sRxDiv div 4 \<or> i = 0x3C div 4 then 0x200
     else if i = 0x40 div 4 then 0x004AA004 else if i = 0x44 div 4 then 0x03F783C0
     else if i = I2sRxTdm div 4 \<or> i = 0x54 div 4 then 0xFFFF
     else if i = 0x60 div 4 then 0x810 else if i = I2sRxEof div 4 then 0x40
     else if i = I2sDate div 4 then 0x02009070 else 0) [0..<33]"

definition resetStream :: "('c, 'm) i2s_env \<Rightarrow> direction \<Rightarrow> ('c, 'm) i2s \<Rightarrow> ('c, 'm) i2s" where
  "resetStream E direction s =
     i2s_updateAudio E direction (updStream direction (\<lambda>st. st\<lparr>stream_timer := None, stream_channel := -1,
       stream_descriptor := 0, rxEofBytes := 0, pendingValid := False\<rparr>) s)"

definition i2s_reset :: "('c, 'm) i2s_env \<Rightarrow> ('c, 'm) i2s \<Rightarrow> ('c, 'm) i2s" where
  "i2s_reset E s = resetStream E TX (resetStream E RX (s\<lparr>i2s_regs := i2sDefaults\<rparr>))"

text \<open>The object is created without GDMA unit and codec; the two links are set before the machine starts.\<close>

definition i2s_new :: "('c, 'm) i2s_env \<Rightarrow> 'm \<Rightarrow> ('c, 'm) i2s" where
  "i2s_new E m = i2s_reset E \<lparr>i2s_regs = replicate 33 0, i2s_gdma = None, i2s_codec = None,
     streams = (\<lambda>_. \<lparr>stream_timer = None, deadlineNs = 0, stream_channel = 0, stream_descriptor = 0, stream_pending = [0, 0, 0],
       stream_bytes = 0, pendingValid = False, rxEofBytes = 0\<rparr>), i2s_memory = m\<rparr>"

end
