(* ===== verification/I2sProperties.thy ===== *)
theory I2sProperties
  imports I2s
begin

text \<open>
  The two streams of the I2S controller as a state machine over register writes, timer expiries and
  what GDMA unit, memory and codec do in between: when a timer runs, and what a descriptor in flight
  may look like.
\<close>

unbundle bit_operations_syntax

section \<open>What the operations leave alone\<close>

lemma updStream_simps [simp]:
  "i2s_regs (updStream d f s) = i2s_regs s" "i2s_gdma (updStream d f s) = i2s_gdma s"
  "i2s_codec (updStream d f s) = i2s_codec s" "i2s_memory (updStream d f s) = i2s_memory s"
  "streams (updStream d f s) = (streams s)(d := f (streams s d))"
  by (simp_all add: updStream_def)

lemma updChannel_simps [simp]:
  "i2s_regs (updChannel d i f s) = i2s_regs s" "streams (updChannel d i f s) = streams s"
  "i2s_codec (updChannel d i f s) = i2s_codec s" "i2s_memory (updChannel d i f s) = i2s_memory s"
  by (simp_all add: updChannel_def)

lemma setI2sReg_simps [simp]:
  "i2s_regs (setI2sReg a v s) = (i2s_regs s)[a div 4 := v]" "i2s_gdma (setI2sReg a v s) = i2s_gdma s"
  "streams (setI2sReg a v s) = streams s" "i2s_codec (setI2sReg a v s) = i2s_codec s" "i2s_memory (setI2sReg a v s) = i2s_memory s"
  by (simp_all add: setI2sReg_def)

lemma updateAudio_simps [simp]:
  "i2s_regs (i2s_updateAudio E d s) = i2s_regs s" "i2s_gdma (i2s_updateAudio E d s) = i2s_gdma s"
  "streams (i2s_updateAudio E d s) = streams s" "i2s_memory (i2s_updateAudio E d s) = i2s_memory s"
  by (simp_all add: i2s_updateAudio_def Let_def)

lemma bytePeriod_cong: "i2s_regs s = i2s_regs t \<Longrightarrow> bytePeriodNs d s = bytePeriodNs d t"
proof -
  assume regs: "i2s_regs s = i2s_regs t"
  then have reg: "i2sReg a s = i2sReg a t" for a by (simp add: i2sReg_def)
  then have dir: "dirReg a c s = dirReg a c t" for a c by (simp add: dirReg_def)
  show ?thesis
    unfolding bytePeriodNs_def streamEnabled_def clockDirection_def bitClockHz_def sampleBytes_def sampleBits_def i2s_dmaChannels_def reg dir ..
qed

lemma format_cong: "i2s_regs s = i2s_regs t \<Longrightarrow> pcmFormat d s = pcmFormat d t"
  unfolding pcmFormat_def sampleBytes_def sampleBits_def i2s_dmaChannels_def dirReg_def i2sReg_def by (simp only:)

text \<open>An operation on one stream keeps the registers and the other stream.\<close>

definition frame_of :: "direction \<Rightarrow> ('c, 'm) i2s \<Rightarrow> ('c, 'm) i2s \<Rightarrow> bool" where
  "frame_of d s t \<longleftrightarrow> i2s_regs t = i2s_regs s \<and> (\<forall>d'. d' \<noteq> d \<longrightarrow> streams t d' = streams s d')"

lemma frame_of_refl [simp]: "frame_of d s s"
  by (simp add: frame_of_def)

lemma frame_of_trans [trans]: "frame_of d s t \<Longrightarrow> frame_of d t u \<Longrightarrow> frame_of d s u"
  by (simp add: frame_of_def)

lemma frame_of_upd [simp]:
  "frame_of d s (updStream d f t) = frame_of d s t" "frame_of d s (updChannel d' i g t) = frame_of d s t"
  "frame_of d s (i2s_updateAudio E d' t) = frame_of d s t" "frame_of d s (t\<lparr>i2s_codec := c\<rparr>) = frame_of d s t"
  "frame_of d s (t\<lparr>i2s_memory := m\<rparr>) = frame_of d s t"
  by (simp_all add: frame_of_def)

lemma takeLink_frame: "frame_of d s (takeLink E now d i s)"
  by (simp add: takeLink_def Let_def)

lemma streamChannelFrom_frame: "frame_of d s (snd (streamChannelFrom E now d is s))"
proof (induction E now d "is" s rule: streamChannelFrom.induct)
  case (2 E now d i "is" s)
  then show ?case using takeLink_frame [of d s E now i] by (auto simp: Let_def intro: frame_of_trans)
qed simp

lemma streamChannel_frame: "frame_of d s (snd (streamChannel E now d s))"
  by (simp add: streamChannel_def streamChannelFrom_frame)

lemma dmaError_frame: "frame_of d s (i2s_dmaError E d i s)"
  by (simp add: i2s_dmaError_def)

lemma fetchDescriptor_frame: "frame_of d s (fetchDescriptor E d i s)"
proof -
  have "frame_of d s (i2s_dmaError E d i (updStream d f s))" for f
    by (rule frame_of_trans [OF _ dmaError_frame]) simp
  then show ?thesis by (auto simp: fetchDescriptor_def Let_def dmaError_frame split: option.splits)
qed

lemma streamSchedule_frame: "frame_of d s (streamSchedule E now d s)"
proof -
  let ?u = "i2s_updateAudio E d s"
  obtain c t where c: "streamChannel E now d ?u = (c, t)" by fastforce
  have "frame_of d s t" using streamChannel_frame [of d ?u E now] by (simp add: c) (simp add: frame_of_def)
  then show ?thesis
    by (auto simp: streamSchedule_def Let_def c intro: frame_of_trans [OF _ fetchDescriptor_frame] split: option.splits)
qed

lemma transferAudio_simps:
  "i2s_regs (snd (transferAudio E d samples s)) = i2s_regs s" "streams (snd (transferAudio E d samples s)) = streams s"
  "i2s_gdma (snd (transferAudio E d samples s)) = i2s_gdma s" "i2s_memory (snd (transferAudio E d samples s)) = i2s_memory s"
  by (auto simp: transferAudio_def Let_def case_prod_beta split: option.splits)

lemma moveSamples_frame:
  assumes "moveSamples E d buffer n s = (ok, t)"
  shows "i2s_regs t = i2s_regs s" "streams t = streams s" "i2s_gdma t = i2s_gdma s"
  using assms
  by (auto simp: moveSamples_def Let_def case_prod_beta transferAudio_simps split: if_splits option.splits)

section \<open>The invariant of a stream\<close>

definition flight_ok :: "direction \<Rightarrow> ('c, 'm) i2s \<Rightarrow> bool" where
  "flight_ok d s \<longleftrightarrow> (pendingValid (streams s d) \<longrightarrow>
     stream_descriptor (streams s d) \<noteq> 0 \<and> stream_descriptor (streams s d) AND 3 = 0 \<and>
     0 < stream_bytes (streams s d) \<and> stream_bytes (streams s d) < DmaBufferSize)"

definition stream_ok :: "direction \<Rightarrow> ('c, 'm) i2s \<Rightarrow> bool" where
  "stream_ok d s \<longleftrightarrow> flight_ok d s \<and>
     (pendingValid (streams s d) \<longrightarrow> stream_timer (streams s d) \<noteq> None) \<and>
     (stream_timer (streams s d) \<noteq> None \<longrightarrow> bytePeriodNs d s \<noteq> 0) \<and>
     (bytePeriodNs d s \<noteq> 0 \<and> stream_timer (streams s d) = None \<longrightarrow> stream_descriptor (streams s d) = 0)"

definition i2s_inv :: "('c, 'm) i2s \<Rightarrow> bool" where
  "i2s_inv s \<longleftrightarrow> (\<forall>d. stream_ok d s)"

lemma stream_ok_cong: "stream_ok d s \<Longrightarrow> streams t d = streams s d \<Longrightarrow> i2s_regs t = i2s_regs s \<Longrightarrow> stream_ok d t"
  using bytePeriod_cong [of t s d] by (simp add: stream_ok_def flight_ok_def)

lemma i2s_inv_frame: "i2s_inv s \<Longrightarrow> frame_of d s t \<Longrightarrow> stream_ok d t \<Longrightarrow> i2s_inv t"
  unfolding i2s_inv_def frame_of_def by (metis stream_ok_cong)

text \<open>Looking for the channel never validates a descriptor, and when it finds none it has either
  stopped the stream or changed nothing.\<close>

lemma takeLink_cases: "takeLink E now d i s = s \<or> \<not> pendingValid (streams (takeLink E now d i s) d) \<and>
    stream_channel (streams (takeLink E now d i s) d) = of_nat i"
  by (simp add: takeLink_def Let_def)

lemma streamChannelFrom_cases:
  "\<not> pendingValid (streams (snd (streamChannelFrom E now d is s)) d) \<or>
     snd (streamChannelFrom E now d is s) = s"
proof (induction E now d "is" s rule: streamChannelFrom.induct)
  case (2 E now d i "is" s)
  let ?u = "takeLink E now d i s"
  consider "dma_peripheral (streamChannels d s ! i) AND 63 \<noteq> i2s_peripheral E"
    | "dma_peripheral (streamChannels d s ! i) AND 63 = i2s_peripheral E" "stream_channel (streams ?u d) \<noteq> of_nat i"
    | "dma_peripheral (streamChannels d s ! i) AND 63 = i2s_peripheral E" "stream_channel (streams ?u d) = of_nat i" by blast
  then show ?case
  proof cases
    case 1
    then show ?thesis using 2 by simp
  next
    case 2
    then have "?u = s" using takeLink_cases [of E now d i s] by blast
    then show ?thesis using 2 "2.IH"(2) [OF _ refl] by (simp add: Let_def)
  next
    case 3
    then show ?thesis using takeLink_cases [of E now d i s] by (simp add: Let_def) blast
  qed
qed simp

lemma streamChannel_cases:
  assumes "streamChannel E now d s = (c, t)"
  shows "\<not> pendingValid (streams t d) \<or> t = s"
  using assms streamChannelFrom_cases [of E now d "[0..<length (streamChannels d s)]" s] by (simp add: streamChannel_def)

lemma streamChannelFrom_some: "fst (streamChannelFrom E now d is s) = Some i \<Longrightarrow>
    stream_descriptor (streams (snd (streamChannelFrom E now d is s)) d) \<noteq> 0"
  by (induction E now d "is" s rule: streamChannelFrom.induct) (auto simp: Let_def split: if_splits)

text \<open>The codec plays no part in it.\<close>

lemma codec_commutes:
  "updStream d f (s\<lparr>i2s_codec := c\<rparr>) = (updStream d f s)\<lparr>i2s_codec := c\<rparr>"
  "updChannel d i g (s\<lparr>i2s_codec := c\<rparr>) = (updChannel d i g s)\<lparr>i2s_codec := c\<rparr>"
  "streamChannels d (s\<lparr>i2s_codec := c\<rparr>) = streamChannels d s"
  "takeLink E now d i (s\<lparr>i2s_codec := c\<rparr>) = (takeLink E now d i s)\<lparr>i2s_codec := c\<rparr>"
  by (simp_all add: updStream_def updChannel_def streamChannels_def takeLink_def Let_def)

lemma streamChannelFrom_codec:
  "streamChannelFrom E now d is (s\<lparr>i2s_codec := c\<rparr>) = map_prod id (\<lambda>t. t\<lparr>i2s_codec := c\<rparr>) (streamChannelFrom E now d is s)"
  by (induction E now d "is" s rule: streamChannelFrom.induct) (simp_all add: Let_def codec_commutes)

lemma streamChannel_codec:
  "streamChannel E now d (s\<lparr>i2s_codec := c\<rparr>) = map_prod id (\<lambda>t. t\<lparr>i2s_codec := c\<rparr>) (streamChannel E now d s)"
  by (simp add: streamChannel_def streamChannelFrom_codec codec_commutes)

lemma updateAudio_codec: "\<exists>c. i2s_updateAudio E d s = s\<lparr>i2s_codec := c\<rparr>"
  by (simp add: i2s_updateAudio_def Let_def) metis

section \<open>Preservation\<close>

lemma dmaError_state:
  "streams (i2s_dmaError E d i s) d = (streams s d)\<lparr>stream_descriptor := 0, pendingValid := False\<rparr>"
  "i2s_regs (i2s_dmaError E d i s) = i2s_regs s"
  by (simp_all add: i2s_dmaError_def)

lemma fetchDescriptor_ok:
  assumes "bytePeriodNs d s \<noteq> 0" and "stream_descriptor (streams s d) \<noteq> 0"
  shows "stream_ok d (fetchDescriptor E d i s)"
proof -
  have failed: "stream_ok d (i2s_dmaError E d i t)" if "i2s_regs t = i2s_regs s" for t
    using bytePeriod_cong [OF that, of d] bytePeriod_cong [OF dmaError_state(2), of d E d i t] assms(1)
    by (simp add: stream_ok_def flight_ok_def dmaError_state)
  show ?thesis
  proof (cases "if stream_descriptor (streams s d) AND 3 \<noteq> 0 then None
      else mem_read (dma_space E) (stream_descriptor (streams s d)) 12 (i2s_memory s)")
    case None
    then show ?thesis unfolding fetchDescriptor_def Let_def using failed [of s] by (simp only: option.case)
  next
    case (Some data)
    then have aligned: "stream_descriptor (streams s d) AND 3 = 0" by (simp split: if_splits)
    define flags where "flags = readLe32 data"
    define n where "n = wantedBytes d flags s"
    define t where "t = updStream d (\<lambda>st. st\<lparr>stream_pending := [flags, readLe32 (drop 4 data), readLe32 (drop 8 data)],
                stream_bytes := n\<rparr>) s"
    have t: "i2s_regs t = i2s_regs s" "stream_descriptor (streams t d) = stream_descriptor (streams s d)" "stream_bytes (streams t d) = n"
      by (simp_all add: t_def)
    have "unat (flags AND 0xFFF) \<le> unat (0xFFF :: u32)" unfolding word_le_nat_alt [symmetric] by (rule word_and_le1)
    then have bound: "n < DmaBufferSize" if "n \<le> unat (flags AND 0xFFF)" using that by (simp add: DmaBufferSize_def)
    have period: "bytePeriodNs d u \<noteq> 0" if "i2s_regs u = i2s_regs s" for u using assms(1) bytePeriod_cong [OF that] by simp
    define deadline where "deadline = deadlineNs (streams t d) + max \<lceil>round64 (of_nat n * bytePeriodNs d t)\<rceil> 1"
    define u where "u = updChannel d i (\<lambda>ch. ch\<lparr>dma_state := stream_descriptor (streams s d) AND 0x3FFFF\<rparr>)
              (updStream d (\<lambda>st. st\<lparr>pendingValid := True, deadlineNs := deadline, stream_timer := Some deadline\<rparr>) t)"
    have u: "i2s_regs u = i2s_regs s" "stream_descriptor (streams u d) = stream_descriptor (streams s d)" "stream_bytes (streams u d) = n"
        "stream_timer (streams u d) \<noteq> None"
      using t by (simp_all add: u_def)
    have eq: "fetchDescriptor E d i s = (if n = 0 \<or> unat (flags AND 0xFFF) < n \<or>
             (dma_conf1 (streamChannels d t ! i) AND 0x1000 \<noteq> 0 \<and> flags AND 0x80000000 = 0) then i2s_dmaError E d i t else u)"
      by (simp only: fetchDescriptor_def Let_def Some option.case flags_def n_def t_def u_def deadline_def)
    have "stream_ok d u" if "n \<noteq> 0" "n \<le> unat (flags AND 0xFFF)"
      using u aligned assms(2) bound [OF that(2)] that(1) period [OF u(1)] by (simp add: stream_ok_def flight_ok_def)
    then show ?thesis unfolding eq using failed [OF t(1)] by simp
  qed
qed

lemma streamSchedule_ok:
  assumes "flight_ok d s" and "\<not> pendingValid (streams s d) \<or> fst (streamChannel E now d s) = None"
  shows "stream_ok d (streamSchedule E now d s)"
proof -
  obtain c where u: "i2s_updateAudio E d s = s\<lparr>i2s_codec := c\<rparr>" using updateAudio_codec by blast
  let ?u = "s\<lparr>i2s_codec := c\<rparr>"
  have pu: "bytePeriodNs d ?u = bytePeriodNs d s" "bytePeriodNs d (updStream d f ?u) = bytePeriodNs d s" for f
    by (rule bytePeriod_cong, simp)+
  obtain r t where ch: "streamChannel E now d ?u = (r, t)" by fastforce
  then have regs: "i2s_regs t = i2s_regs s" using streamChannel_frame [of d ?u E now] by (simp add: frame_of_def)
  have pt: "bytePeriodNs d t = bytePeriodNs d s" "bytePeriodNs d (updStream d f t) = bytePeriodNs d s" for f
    by (rule bytePeriod_cong, simp add: regs)+
  have t: "\<not> pendingValid (streams t d) \<or> t = ?u" by (rule streamChannel_cases [OF ch])
  then have flight: "flight_ok d t" using assms(1) by (auto simp: flight_ok_def)
  show ?thesis
  proof (cases "bytePeriodNs d s = 0")
    case True
    then show ?thesis by (simp add: streamSchedule_def u pu stream_ok_def flight_ok_def)
  next
    case run: False
    show ?thesis
    proof (cases r)
      case None
      then show ?thesis using run flight
        by (simp add: streamSchedule_def u ch pu pt stream_ok_def flight_ok_def)
    next
      case (Some i)
      then have "\<not> pendingValid (streams s d)"
        using assms(2) ch by (cases "streamChannel E now d s") (auto simp: streamChannel_codec)
      then have "\<not> pendingValid (streams t d)" using t by auto
      moreover have "stream_descriptor (streams t d) \<noteq> 0"
        using ch Some streamChannelFrom_some [of E now d _ ?u i] unfolding streamChannel_def by (metis fst_conv snd_conv)
      ultimately show ?thesis
        using run Some fetchDescriptor_ok [of d t E i] pt(1) by (simp add: streamSchedule_def u ch pu)
    qed
  qed
qed

lemma unpending_ok: "\<not> pendingValid (streams s d) \<Longrightarrow> flight_ok d s"
  by (simp add: flight_ok_def)

lemma finishDescriptor_ok:
  assumes "bytePeriodNs d s \<noteq> 0" and "stream_timer (streams s d) = None"
  shows "stream_ok d (finishDescriptor E now d i s) \<and> frame_of d s (finishDescriptor E now d i s)"
proof -
  define t where "t = (if d = RX
       then updStream RX (\<lambda>st. st\<lparr>rxEofBytes := (if receivedEof s then 0 else rxEofBytes st + of_nat (stream_bytes st))\<rparr>) s else s)"
  have t: "frame_of d s t" by (simp add: t_def)
  then have regs: "i2s_regs t = i2s_regs s" by (simp add: frame_of_def)
  have "bytePeriodNs d (i2s_dmaError E d i t) \<noteq> 0"
    using assms(1) bytePeriod_cong [of "i2s_dmaError E d i t" s d] regs by (simp add: dmaError_state)
  then have failed: "stream_ok d (i2s_dmaError E d i t)" by (simp add: stream_ok_def flight_ok_def dmaError_state)
  have again: "stream_ok d (streamSchedule E now d u) \<and> frame_of d s (streamSchedule E now d u)"
    if "\<not> pendingValid (streams u d)" "frame_of d s u" for u
    using that streamSchedule_ok [OF unpending_ok [OF that(1)]] frame_of_trans [OF that(2) streamSchedule_frame] by blast
  show ?thesis
    unfolding finishDescriptor_def Let_def
    using failed frame_of_trans [OF t dmaError_frame] again t
    by (cases d) (auto simp: t_def split: option.splits)
qed

lemma streamComplete_ok:
  assumes "stream_ok d s"
  shows "stream_ok d (streamComplete E now d s) \<and> frame_of d s (streamComplete E now d s)"
proof -
  let ?s = "updStream d (\<lambda>st. st\<lparr>stream_timer := None\<rparr>) s"
  have flight: "flight_ok d ?s" using assms by (simp add: stream_ok_def flight_ok_def)
  obtain r t where ch: "streamChannel E now d ?s = (r, t)" by fastforce
  have frame: "frame_of d s t" using streamChannel_frame [of d ?s E now] by (simp add: ch) (simp add: frame_of_def)
  have t: "\<not> pendingValid (streams t d) \<or> t = ?s" by (rule streamChannel_cases [OF ch])
  then have ok: "flight_ok d t" using flight by (auto simp: flight_ok_def)
  note again = frame_of_trans [OF frame streamSchedule_frame]
  show ?thesis
  proof (cases r)
    case None
    then have "fst (streamChannel E now d t) = None \<or> \<not> pendingValid (streams t d)" using t ch by auto
    then have "stream_ok d (streamSchedule E now d t)" using streamSchedule_ok [OF ok] by blast
    then show ?thesis using again by (simp add: streamComplete_def ch None)
  next
    case (Some i)
    show ?thesis
    proof (cases "pendingValid (streams t d) \<and> bytePeriodNs d t \<noteq> 0")
      case False
      have "stream_ok d (streamSchedule E now d t)"
      proof (cases "bytePeriodNs d t = 0")
        case True
        then show ?thesis by (simp add: streamSchedule_def stream_ok_def flight_ok_def bytePeriod_cong [OF updateAudio_simps(1)] bytePeriod_cong [OF updStream_simps(1)])
      qed (use False in \<open>auto intro!: streamSchedule_ok ok\<close>)
      then show ?thesis using again False by (simp add: streamComplete_def ch Some)
    next
      case True
      obtain good u where m: "moveSamples E d (stream_pending (streams t d) ! 1) (stream_bytes (streams t d)) t = (good, u)" by fastforce
      have u: "i2s_regs u = i2s_regs t" "streams u = streams t" using moveSamples_frame [OF m] by simp_all
      then have frame_u: "frame_of d s u" using frame by (simp add: frame_of_def)
      have p: "bytePeriodNs d u \<noteq> 0" using True bytePeriod_cong [OF u(1)] by simp
      have "bytePeriodNs d (i2s_dmaError E d i u) \<noteq> 0" using p bytePeriod_cong [OF dmaError_state(2)] by metis
      then have "stream_ok d (i2s_dmaError E d i u)" by (simp add: stream_ok_def flight_ok_def dmaError_state)
      moreover have "stream_timer (streams u d) = None" using True t u by auto
      ultimately show ?thesis
        using finishDescriptor_ok [OF p, of E now i] frame_of_trans [OF frame_u] frame_of_trans [OF frame_u dmaError_frame] True
        by (cases good) (auto simp: streamComplete_def ch Some m Let_def simp del: One_nat_def)
    qed
  qed
qed

section \<open>Register writes and reset\<close>

lemma restartStream_ok:
  "stream_ok d (restartStream E now d s)" "frame_of d s (restartStream E now d s)"
  unfolding restartStream_def
  by (intro streamSchedule_ok unpending_ok) (simp_all, rule frame_of_trans [OF _ streamSchedule_frame], simp)

text \<open>Registers outside the range that restarts the streams do not affect their timing.\<close>

lemma store_timing:
  assumes "\<not> (I2sRxConf \<le> offset \<and> offset \<le> I2sRxEof)"
  shows "streams (storeI2s offset v s) = streams s" "bytePeriodNs d (storeI2s offset v s) = bytePeriodNs d s"
proof -
  show "streams (storeI2s offset v s) = streams s" using assms by (auto simp: storeI2s_def i2s_registers)
  have reg: "i2sReg a (storeI2s offset v s) = i2sReg a s" if "0x20 \<le> a" "a \<le> 0x54" "4 dvd a" for a
  proof -
    have "offset div 4 \<noteq> a div 4" if "offset < 0x20 \<or> 0x64 < offset"
      using that \<open>0x20 \<le> a\<close> \<open>a \<le> 0x54\<close> \<open>4 dvd a\<close> by (elim disjE) (auto elim!: dvdE)
    then show ?thesis using assms that by (auto simp: storeI2s_def i2sReg_def i2s_registers)
  qed
  have dir: "dirReg a c (storeI2s offset v s) = dirReg a c s" if "0x20 \<le> a" "a \<le> 0x50" "4 dvd a" for a c
    unfolding dirReg_def using that by (intro reg; cases c) auto
  have same: "dirReg I2sRxConf c (storeI2s offset v s) = dirReg I2sRxConf c s" "dirReg I2sRxConf1 c (storeI2s offset v s) = dirReg I2sRxConf1 c s"
      "dirReg I2sRxClk c (storeI2s offset v s) = dirReg I2sRxClk c s" "dirReg I2sRxDiv c (storeI2s offset v s) = dirReg I2sRxDiv c s"
      "dirReg I2sRxTdm c (storeI2s offset v s) = dirReg I2sRxTdm c s"
      "i2sReg I2sRxConf (storeI2s offset v s) = i2sReg I2sRxConf s" "i2sReg I2sTxConf (storeI2s offset v s) = i2sReg I2sTxConf s"
      "i2sReg I2sTxClk (storeI2s offset v s) = i2sReg I2sTxClk s" "i2sReg (I2sRxTdm + 4) (storeI2s offset v s) = i2sReg (I2sRxTdm + 4) s" for c
    by (rule dir reg, simp_all add: i2s_registers)+
  show "bytePeriodNs d (storeI2s offset v s) = bytePeriodNs d s"
    unfolding bytePeriodNs_def streamEnabled_def clockDirection_def bitClockHz_def sampleBytes_def sampleBits_def i2s_dmaChannels_def same ..
qed

lemma i2s_write_inv: "i2s_inv s \<Longrightarrow> i2s_inv (i2s_write E now offset v s)"
proof (cases "I2sRxConf \<le> offset \<and> offset \<le> I2sRxEof")
  case True
  let ?r = "restartStream E now RX (storeI2s offset v s)"
  have "stream_ok RX (restartStream E now TX ?r)"
    using restartStream_ok [where d = RX and E = E and now = now and s = "storeI2s offset v s"]
      restartStream_ok(2) [where d = TX and E = E and now = now and s = ?r]
    by (auto simp: frame_of_def intro: stream_ok_cong)
  moreover have "stream_ok TX (restartStream E now TX ?r)" by (rule restartStream_ok)
  ultimately have "i2s_inv (restartStream E now TX ?r)" unfolding i2s_inv_def by (metis direction.exhaust)
  then show ?thesis using True by (simp add: i2s_write_def Let_def)
next
  case False
  assume "i2s_inv s"
  moreover have "streams (storeI2s offset v s) = streams s" "bytePeriodNs d (storeI2s offset v s) = bytePeriodNs d s" for d
    using store_timing [OF False] by blast+
  moreover have "i2s_write E now offset v s = storeI2s offset v s" using False by (simp only: i2s_write_def Let_def if_False)
  ultimately show ?thesis by (simp add: i2s_inv_def stream_ok_def flight_ok_def)
qed

lemma defaults_stopped: "bytePeriodNs d (s\<lparr>i2s_regs := i2sDefaults\<rparr>) = 0"
proof -
  have "dirReg I2sRxConf d (s\<lparr>i2s_regs := i2sDefaults\<rparr>) AND I2sStart = 0"
    by (cases d) (simp_all add: dirReg_def i2sReg_def i2sDefaults_def i2s_registers I2sStart_def)
  then show ?thesis by (simp add: bytePeriodNs_def streamEnabled_def Let_def)
qed

lemma i2s_reset_inv: "i2s_inv (i2s_reset E s)"
proof -
  have regs: "i2s_regs (i2s_reset E s) = i2sDefaults" by (simp add: i2s_reset_def resetStream_def)
  have "bytePeriodNs d (i2s_reset E s) = 0" for d
    using bytePeriod_cong [of "i2s_reset E s" "s\<lparr>i2s_regs := i2sDefaults\<rparr>" d] defaults_stopped [of d s] by (simp add: regs)
  moreover have "stream_timer (streams (i2s_reset E s) d) = None" "\<not> pendingValid (streams (i2s_reset E s) d)" for d
    by (cases d, simp_all add: i2s_reset_def resetStream_def)+
  ultimately show ?thesis by (simp add: i2s_inv_def stream_ok_def flight_ok_def)
qed

section \<open>Runs\<close>

text \<open>Between its callbacks the guest and QEMU may change the GDMA channels and memory, and a codec its
  own state.\<close>

inductive i2s_step :: "('c, 'm) i2s_env \<Rightarrow> ('c, 'm) i2s \<Rightarrow> ('c, 'm) i2s \<Rightarrow> bool" for E where
  i2s_step_write: "i2s_step E s (i2s_write E now offset v s)"
| i2s_step_timer: "stream_timer (streams s d) = Some t \<Longrightarrow> t \<le> now \<Longrightarrow> i2s_step E s (streamComplete E now d s)"
| i2s_step_reset: "i2s_step E s (i2s_reset E s)"
| i2s_step_outside: "i2s_step E s (s\<lparr>i2s_gdma := g, i2s_codec := c, i2s_memory := m\<rparr>)"

definition i2s_starts :: "('c, 'm) i2s_env \<Rightarrow> ('c, 'm) i2s \<Rightarrow> bool" where
  "i2s_starts E s \<longleftrightarrow> (\<exists>m. s = i2s_new E m)"

interpretation i2s_machine: state_machine "i2s_starts E" "i2s_step E" i2s_inv for E :: "('c, 'm) i2s_env"
proof
  show "i2s_starts E s \<Longrightarrow> i2s_inv s" for s
    by (auto simp: i2s_starts_def i2s_new_def i2s_reset_inv)
  have complete: "i2s_inv (streamComplete E now d s)" if "i2s_inv s" for now d s
    using streamComplete_ok [of d s E now] i2s_inv_frame [OF that] that by (auto simp: i2s_inv_def)
  have outside: "i2s_inv (s\<lparr>i2s_gdma := g, i2s_codec := c, i2s_memory := m\<rparr>)" if "i2s_inv s" for s :: "('c, 'm) i2s" and g c m
    using that unfolding i2s_inv_def by (intro allI) (rule stream_ok_cong [of _ s], simp_all)
  show "i2s_step E s t \<Longrightarrow> i2s_inv t" if "i2s_inv s" for s t
    using that complete outside by (auto elim!: i2s_step.cases intro: i2s_write_inv i2s_reset_inv)
qed

end
