(* ===== verification/I2sAudio.thy ===== *)
theory I2sAudio
  imports I2sProperties
begin

text \<open>
  What the codec hears: samples survive packing up to the sample width, and a chain of descriptors is
  played in order on a clock that late timers do not shift.
\<close>

unbundle bit_operations_syntax

section \<open>Packing undone\<close>

definition pcmTruncate :: "nat \<Rightarrow> u32 \<Rightarrow> u32" where
  "pcmTruncate width v = push_bit (32 - width * 8) (drop_bit (32 - width * 8) v)"

lemma length_storeSample [simp]: "length (i2s_storeSample width big v) = width"
  by (simp add: i2s_storeSample_def Let_def)

lemma storeSample_nth:
  assumes "i < width"
  shows "(i2s_storeSample width big v @ rest) ! (if big then width - 1 - i else i) =
    ucast (drop_bit (i * 8) (drop_bit (32 - width * 8) v))"
  using assms by (simp add: i2s_storeSample_def Let_def nth_append rev_nth)

lemma load_stored:
  assumes "width \<in> {1, 2, 3, 4}"
  shows "loadSample width big (i2s_storeSample width big v @ rest) = pcmTruncate width v"
proof -
  have top: "n - 16 < 8 \<or> 24 + (n - 24) = n" for n :: nat by arith
  have "fold (\<lambda>i w. w OR push_bit (i * 8) (ucast ((i2s_storeSample width big v @ rest) ! (if big then width - 1 - i else i)))) [0..<width] (0 :: u32) =
      fold (\<lambda>i w. w OR push_bit (i * 8) (ucast (ucast (drop_bit (i * 8) (drop_bit (32 - width * 8) v)) :: byte))) [0..<width] 0"
    by (rule fold_cong) (simp_all only: storeSample_nth set_upt atLeastLessThan_iff)
  moreover have "push_bit (32 - width * 8)
      (fold (\<lambda>i w. w OR push_bit (i * 8) (ucast (ucast (drop_bit (i * 8) (drop_bit (32 - width * 8) v)) :: byte))) [0..<width] (0 :: u32)) =
      pcmTruncate width v"
    using assms unfolding pcmTruncate_def
    by (elim insertE emptyE) (simp_all add: upt_rec, auto simp: bit_eq_iff bit_simps , (metis top)+)
  ultimately show ?thesis by (simp only: loadSample_def)
qed

text \<open>What of a received frame a sender with the same sample format gives back to the codec.\<close>

definition heardFrame :: "pcm_format \<Rightarrow> pcm_format \<Rightarrow> audio_frame \<Rightarrow> audio_frame" where
  "heardFrame f g fr =
     (let w = pcm_width f in
      if pcm_channels f = 1 then
        let v = pcmTruncate w (slotOf (crossed f (monoChannel f)) fr) in (v, v)
      else if (pcm_polarity f = 0) = (pcm_polarity g = 0) then (pcmTruncate w (fst fr), pcmTruncate w (snd fr))
      else (pcmTruncate w (snd fr), pcmTruncate w (fst fr)))"

definition compatible :: "pcm_format \<Rightarrow> pcm_format \<Rightarrow> bool" where
  "compatible f g \<longleftrightarrow> pcm_width f \<in> {1, 2, 3, 4} \<and> pcm_width g = pcm_width f \<and> pcm_big g = pcm_big f \<and> pcm_channels g = pcm_channels f \<and>
     ((pcm_channels f = 2 \<and> pcm_mask f = 3 \<and> pcm_mask g = 3) \<or>
      (pcm_channels f = 1 \<and> bit (pcm_mask f) (monoChannel f) \<and> (pcm_mask g = 1 \<or> pcm_mask g = 2) \<and> pcm_repeat g))"

lemma length_packFrame: "length (packFrame f fr) = frameBytes f"
  by (simp add: packFrame_def length_concat comp_def Let_def frameBytes_def sum_list_triv mult.commute)

lemma unpack_packed:
  assumes "compatible f g"
  shows "unpackFrame g (packFrame f fr @ rest) = heardFrame f g fr"
proof -
  have w: "pcm_width f \<in> {1, 2, 3, 4}" "pcm_width g = pcm_width f" "pcm_big g = pcm_big f" "pcm_channels g = pcm_channels f"
    using assms by (simp_all add: compatible_def)
  note load = load_stored [OF w(1)]
  consider "pcm_channels f = 2" "pcm_mask f = 3" "pcm_mask g = 3"
    | "pcm_channels f = 1" "bit (pcm_mask f) (monoChannel f)" "pcm_mask g = 1" "pcm_repeat g"
    | "pcm_channels f = 1" "bit (pcm_mask f) (monoChannel f)" "pcm_mask g = 2" "pcm_repeat g"
    using assms by (auto simp: compatible_def)
  then show ?thesis
  proof cases
    case 1
    then have "packFrame f fr @ rest = i2s_storeSample (pcm_width f) (pcm_big f) (slotOf (crossed f 0) fr) @
        i2s_storeSample (pcm_width f) (pcm_big f) (slotOf (crossed f 1) fr) @ rest"
      by (simp add: packFrame_def upt_rec Let_def bit_simps)
    then show ?thesis
      using 1 w(2-4)
      by (simp add: unpackFrame_def unpackSlot_def load bit_simps heardFrame_def setSlot_def slotOf_def crossed_def Let_def)
  next
    case 2
    then have "packFrame f fr @ rest = i2s_storeSample (pcm_width f) (pcm_big f) (slotOf (crossed f (monoChannel f)) fr) @ rest"
      by (simp add: packFrame_def Let_def)
    then show ?thesis
      using 2 w(2-4)
      by (simp add: unpackFrame_def unpackSlot_def load bit_simps heardFrame_def setSlot_def slotOf_def crossed_def Let_def)
  next
    case 3
    then have "packFrame f fr @ rest = i2s_storeSample (pcm_width f) (pcm_big f) (slotOf (crossed f (monoChannel f)) fr) @ rest"
      by (simp add: packFrame_def Let_def)
    then show ?thesis
      using 3 w(2-4)
      by (simp add: unpackFrame_def unpackSlot_def load bit_simps heardFrame_def setSlot_def slotOf_def crossed_def Let_def)
  qed
qed

section \<open>Record and play back\<close>

text \<open>A codec that plays from one tape and records on another.\<close>

definition tapeTransfer :: "bool \<Rightarrow> audio_frame list \<Rightarrow> audio_frame list \<times> audio_frame list \<Rightarrow> audio_frame list \<times> audio_frame list \<times> audio_frame list" where
  "tapeTransfer input fs = (\<lambda>(ins, outs).
     if input then (take (length fs) ins, drop (length fs) ins, outs) else (fs, ins, outs @ fs))"

lemma frameBytes_pos: "compatible f g \<Longrightarrow> 0 < frameBytes f \<and> frameBytes g = frameBytes f"
  by (auto simp: compatible_def frameBytes_def)

lemma receive_tape:
  assumes "codec_transfer E = tapeTransfer" and pos: "0 < frameBytes f" and "n \<le> length ins"
  shows "receiveBlocks E f (replicate (n * frameBytes f) 0) (ins, outs) =
    (concat (map (packFrame f) (take n ins)), (drop n ins, outs))"
  using assms(3)
proof (induction n arbitrary: ins rule: less_induct)
  case (less n)
  show ?case
  proof (cases "n = 0")
    case True
    then show ?thesis using pos by (simp add: receiveBlocks.simps)
  next
    case False
    define k where "k = min n I2sBlockFrames"
    have k: "k \<le> n" "0 < k" using False by (simp_all add: k_def I2sBlockFrames_def)
    have b: "blockFrames f (length (replicate (n * frameBytes f) (0 :: byte))) = k" using pos by (simp add: blockFrames_def k_def)
    have enough: "\<not> (frameBytes f = 0 \<or> length (replicate (n * frameBytes f) (0 :: byte)) < frameBytes f)"
      using pos False by simp
    have rest: "drop (k * frameBytes f) (replicate (n * frameBytes f) (0 :: byte)) = replicate ((n - k) * frameBytes f) 0"
      by (simp add: diff_mult_distrib)
    have IH: "receiveBlocks E f (replicate ((n - k) * frameBytes f) 0) (drop k ins, outs) =
        (concat (map (packFrame f) (take (n - k) (drop k ins))), (drop (n - k) (drop k ins), outs))"
      using k less.prems by (intro less.IH) simp_all
    have codec: "codec_transfer E True (replicate k (0, 0)) (ins, outs) = (take k ins, drop k ins, outs)"
      by (simp add: assms(1) tapeTransfer_def)
    have first: "map (\<lambda>i. packFrame f (take k ins ! i)) [0..<k] = map (packFrame f) (take k ins)"
      using k less.prems by (intro nth_equalityI) simp_all
    have "receiveBlocks E f (replicate (n * frameBytes f) 0) (ins, outs) =
        (concat (map (packFrame f) (take k ins)) @ concat (map (packFrame f) (take (n - k) (drop k ins))), (drop (n - k) (drop k ins), outs))"
      by (subst receiveBlocks.simps) (simp only: enough if_False b Let_def codec rest IH prod.case first)
    also have "take k ins @ take (n - k) (drop k ins) = take n ins" using k by (metis le_add_diff_inverse take_add)
    then have "concat (map (packFrame f) (take k ins)) @ concat (map (packFrame f) (take (n - k) (drop k ins))) =
        concat (map (packFrame f) (take n ins))" by (metis concat_append map_append)
    also have "drop (n - k) (drop k ins) = drop n ins" using k by simp
    finally show ?thesis .
  qed
qed

lemma drop_packed:
  "k \<le> length frs \<Longrightarrow> drop (k * frameBytes f) (concat (map (packFrame f) frs)) = concat (map (packFrame f) (drop k frs))"
proof (induction k arbitrary: frs)
  case (Suc k)
  then obtain x xs where "frs = x # xs" by (cases frs) auto
  then show ?case using Suc by (simp add: length_packFrame)
qed simp

lemma length_packed: "length (concat (map (packFrame f) frs)) = length frs * frameBytes f"
  by (induction frs) (simp_all add: length_packFrame)

lemma send_tape:
  assumes "codec_transfer E = tapeTransfer" and ok: "compatible f g"
  shows "sendBlocks E g (concat (map (packFrame f) frs)) (ins, outs) = (ins, outs @ map (heardFrame f g) frs)"
proof (induction "length frs" arbitrary: frs outs rule: less_induct)
  case less
  have fb: "0 < frameBytes f" "frameBytes g = frameBytes f" using frameBytes_pos [OF ok] by simp_all
  show ?case
  proof (cases "frs = []")
    case True
    then show ?thesis using fb by (simp add: sendBlocks.simps)
  next
    case False
    let ?b = "concat (map (packFrame f) frs)"
    define k where "k = min (length frs) I2sBlockFrames"
    have k: "k \<le> length frs" "0 < k" using False by (simp_all add: k_def I2sBlockFrames_def)
    have b: "blockFrames g (length ?b) = k" using fb by (simp add: blockFrames_def k_def length_packed)
    have "frameBytes f \<le> length frs * frameBytes f" using False by (cases frs) simp_all
    then have enough: "\<not> (frameBytes g = 0 \<or> length ?b < frameBytes g)"
      unfolding length_packed fb(2) using fb(1) by auto
    have unpack: "unpackFrame g (drop (i * frameBytes g) ?b) = heardFrame f g (frs ! i)" if "i < k" for i
    proof -
      have "drop i frs = frs ! i # drop (Suc i) frs" using that k by (intro Cons_nth_drop_Suc [symmetric]) simp
      then have "drop (i * frameBytes g) ?b = packFrame f (frs ! i) @ concat (map (packFrame f) (drop (Suc i) frs))"
        using that k fb drop_packed [of i frs f] by simp
      then show ?thesis using unpack_packed [OF ok] by simp
    qed
    have first: "map (\<lambda>i. unpackFrame g (drop (i * frameBytes g) ?b)) [0..<k] = map (heardFrame f g) (take k frs)"
      using k unpack by (intro nth_equalityI) simp_all
    have rest: "drop (k * frameBytes g) ?b = concat (map (packFrame f) (drop k frs))" using drop_packed [OF k(1), of f] fb by simp
    have codec: "snd (codec_transfer E False (map (heardFrame f g) (take k frs)) (ins, outs)) = (ins, outs @ map (heardFrame f g) (take k frs))"
      by (simp add: assms(1) tapeTransfer_def)
    have "sendBlocks E g ?b (ins, outs) = sendBlocks E g (concat (map (packFrame f) (drop k frs))) (ins, outs @ map (heardFrame f g) (take k frs))"
      by (subst sendBlocks.simps) (simp only: enough if_False b Let_def first codec rest)
    also have "\<dots> = (ins, (outs @ map (heardFrame f g) (take k frs)) @ map (heardFrame f g) (drop k frs))"
      using k by (intro less.hyps) simp
    also have "\<dots> = (ins, outs @ map (heardFrame f g) frs)" by (metis append.assoc append_take_drop_id map_append)
    finally show ?thesis .
  qed
qed

text \<open>C39: what the guest records through the receiving stream and plays back through the sending stream,
  both set to the same sample width and byte order, the codec hears again: \<open>n\<close> frames, in order,
  with every sample cut to the width (stereo), or the recorded channel on both sides (mono with
  repetition); a difference in channel polarity swaps left and right.\<close>

theorem i2s_audio_roundtrip:
  assumes "codec_transfer E = tapeTransfer" and "i2s_codec s = Some (ins, outs)" and "n \<le> length ins"
    and "compatible (pcmFormat RX s) (pcmFormat TX s)"
    and "dirReg I2sRxConf RX s AND LsbFirst = 0" and "dirReg I2sRxConf TX s AND LsbFirst = 0"
  shows "case transferAudio E RX (replicate (n * frameBytes (pcmFormat RX s)) 0) s of (samples, s') \<Rightarrow>
    i2s_codec (snd (transferAudio E TX samples s')) =
      Some (drop n ins, outs @ map (heardFrame (pcmFormat RX s) (pcmFormat TX s)) (take n ins))"
proof -
  let ?f = "pcmFormat RX s" and ?g = "pcmFormat TX s"
  have fb: "0 < frameBytes ?f" "frameBytes ?g = frameBytes ?f" using frameBytes_pos [OF assms(4)] by simp_all
  define s' where "s' = s\<lparr>i2s_codec := Some (drop n ins, outs)\<rparr>"
  have same: "pcmFormat TX s' = ?g" "dirReg I2sRxConf TX s' = dirReg I2sRxConf TX s"
    by (rule format_cong, simp add: s'_def, simp add: s'_def dirReg_def i2sReg_def)
  have "transferAudio E RX (replicate (n * frameBytes ?f) 0) s = (concat (map (packFrame ?f) (take n ins)), s')"
    using fb assms(2,5) receive_tape [OF assms(1) fb(1) assms(3), of outs] by (simp add: transferAudio_def s'_def)
  moreover have "i2s_codec (snd (transferAudio E TX (concat (map (packFrame ?f) (take n ins))) s')) =
      Some (drop n ins, outs @ map (heardFrame ?f ?g) (take n ins))"
    using fb assms(6) send_tape [OF assms(1,4), of "take n ins" "drop n ins" outs] same
    by (simp add: transferAudio_def s'_def Let_def)
  ultimately show ?thesis by simp
qed

text \<open>After reset both streams are set to 16-bit stereo.\<close>

definition tapeEnv :: "(audio_frame list \<times> audio_frame list, unit) i2s_env" where
  "tapeEnv = \<lparr>codec_rate = (\<lambda>_ _ c. c), codec_transfer = tapeTransfer,
     dma_space = \<lparr>mem_read = (\<lambda>_ n _. Some (replicate n 0)), mem_write = (\<lambda>_ _ m. Some m), auto_wrback_mask = 4\<rparr>,
     i2s_peripheral = 3, dma_ram = 0x3FC00000, in_dscr_err = 8, out_dscr_err = 4, in_dscr_empty = 16, out_total_eof = 8\<rparr>"

definition tapeState :: "(audio_frame list \<times> audio_frame list, unit) i2s" where
  "tapeState = (i2s_new tapeEnv ())\<lparr>i2s_codec := Some ([(0x12345678, 0x9ABCDEF0)], [])\<rparr>"

lemma tapeState_format:
  "pcmFormat d tapeState = \<lparr>pcm_width = 2, pcm_channels = 2, pcm_mask = 3, pcm_big = False, pcm_polarity = 0,
     pcm_repeat = False, pcm_monoFirst = True\<rparr>"
  "dirReg I2sRxConf d tapeState AND LsbFirst = 0"
proof -
  have regs: "i2s_regs tapeState = i2sDefaults" by (simp add: tapeState_def i2s_new_def i2s_reset_def resetStream_def)
  show "dirReg I2sRxConf d tapeState AND LsbFirst = 0"
    by (cases d) (simp_all add: regs dirReg_def i2sReg_def i2sDefaults_def i2s_registers LsbFirst_def)
  show "pcmFormat d tapeState = \<lparr>pcm_width = 2, pcm_channels = 2, pcm_mask = 3, pcm_big = False, pcm_polarity = 0,
     pcm_repeat = False, pcm_monoFirst = True\<rparr>"
    by (cases d) (simp_all add: regs pcmFormat_def sampleBytes_def sampleBits_def i2s_dmaChannels_def dirReg_def i2sReg_def
        i2sDefaults_def i2s_registers Mono_def Fill24_def I2sBigEndian_def TxRepeatMono_def RxMonoFirst_def bit_simps Let_def)
qed

theorem i2s_audio_roundtrip_witness:
  "case transferAudio tapeEnv RX (replicate 4 0) tapeState of (samples, s') \<Rightarrow>
    i2s_codec (snd (transferAudio tapeEnv TX samples s')) = Some ([], [(0x12340000, 0x9ABC0000)])"
proof -
  have "compatible (pcmFormat RX tapeState) (pcmFormat TX tapeState)" by (simp add: tapeState_format compatible_def)
  moreover have "i2s_codec tapeState = Some ([(0x12345678, 0x9ABCDEF0)], [])" by (simp add: tapeState_def)
  ultimately have "case transferAudio tapeEnv RX (replicate (1 * frameBytes (pcmFormat RX tapeState)) 0) tapeState of (samples, s') \<Rightarrow>
    i2s_codec (snd (transferAudio tapeEnv TX samples s')) =
      Some (drop 1 [(0x12345678, 0x9ABCDEF0)],
        [] @ map (heardFrame (pcmFormat RX tapeState) (pcmFormat TX tapeState)) (take 1 [(0x12345678, 0x9ABCDEF0)]))"
    by (intro i2s_audio_roundtrip) (simp_all add: tapeState_format tapeEnv_def)
  then show ?thesis by (simp add: tapeState_format frameBytes_def heardFrame_def pcmTruncate_def Let_def)
qed

end
