(* ===== verification/I2sPlayback.thy ===== *)
theory I2sPlayback
  imports I2sAudio
begin

text \<open>
  Playing a chain of descriptors: each buffer reaches the codec once and in order, every descriptor
  ends one duration after the one before it however late the host runs the timers, and the channel is
  parked with its interrupts at the end.
\<close>

unbundle bit_operations_syntax

section \<open>The channel of the sending stream\<close>

text \<open>The first channel bound to I2S0; no link command is waiting and descriptors are not written back.\<close>

definition linkBits :: u32 where "linkBits = 0xF00000"

definition boundChannel :: "('c, 'm) i2s_env \<Rightarrow> nat \<Rightarrow> ('c, 'm) i2s \<Rightarrow> bool" where
  "boundChannel E i s \<longleftrightarrow> i < length (streamChannels TX s) \<and>
     (\<forall>j < i. dma_peripheral (streamChannels TX s ! j) AND 63 \<noteq> i2s_peripheral E) \<and>
     dma_peripheral (streamChannels TX s ! i) AND 63 = i2s_peripheral E \<and>
     dma_conf0 (streamChannels TX s ! i) AND 1 = 0 \<and>
     dma_conf0 (streamChannels TX s ! i) AND auto_wrback_mask (dma_space E) = 0"

definition steady :: "('c, 'm) i2s_env \<Rightarrow> nat \<Rightarrow> ('c, 'm) i2s \<Rightarrow> bool" where
  "steady E i s \<longleftrightarrow> boundChannel E i s \<and> dma_link (streamChannels TX s ! i) AND linkBits = 0 \<and>
     stream_channel (streams s TX) = of_nat i"

lemma skip_channels:
  assumes "\<And>j. j \<in> set js \<Longrightarrow> dma_peripheral (streamChannels TX s ! j) AND 63 \<noteq> i2s_peripheral E"
  shows "streamChannelFrom E now TX (js @ is) s = streamChannelFrom E now TX is s"
  using assms by (induction js) simp_all

lemma channel_lookup:
  assumes "boundChannel E i s"
  shows "\<exists>is. streamChannel E now TX s = streamChannelFrom E now TX (i # is) s"
proof -
  have i: "i < length (streamChannels TX s)" using assms by (simp add: boundChannel_def)
  then have "[0..<length (streamChannels TX s)] = [0..<i] @ i # [Suc i..<length (streamChannels TX s)]"
    using upt_add_eq_append [of 0 i "length (streamChannels TX s) - i"] by (simp add: upt_conv_Cons)
  moreover have "streamChannelFrom E now TX ([0..<i] @ i # js) s = streamChannelFrom E now TX (i # js) s" for js
    by (rule skip_channels) (use assms in \<open>auto simp: boundChannel_def\<close>)
  ultimately show ?thesis unfolding streamChannel_def by metis
qed

lemma link_parts:
  assumes "x AND linkBits = (0 :: u32)"
  shows "x AND 0x200000 = 0" "x AND 0x400000 = 0" "x AND 0x600000 = 0" "x AND 0x900000 = 0"
proof -
  have part: "x AND m = 0" if "m = linkBits AND m" for m
  proof -
    have "x AND m = (x AND linkBits) AND m" using that by (metis and.assoc)
    then show ?thesis using assms by simp
  qed
  show "x AND 0x200000 = 0" "x AND 0x400000 = 0" "x AND 0x600000 = 0" "x AND 0x900000 = 0"
    by (rule part, simp add: linkBits_def)+
qed

lemma steady_channel:
  assumes "steady E i s"
  shows "streamChannel E now TX s = (if stream_descriptor (streams s TX) \<noteq> 0 then Some i else None, s)"
proof -
  have b: "boundChannel E i s" and link: "dma_link (streamChannels TX s ! i) AND linkBits = 0"
    and c: "stream_channel (streams s TX) = of_nat i" using assms by (simp_all add: steady_def)
  obtain js where look: "streamChannel E now TX s = streamChannelFrom E now TX (i # js) s" using channel_lookup [OF b] by blast
  have "takeLink E now TX i s = s" using link_parts [OF link] by (simp add: takeLink_def startBit_def Let_def)
  then show ?thesis
    unfolding look using b c link_parts [OF link] by (simp add: boundChannel_def startBit_def drop_bit_eq_div Let_def)
qed

lemma streamChannels_simps [simp]:
  "streamChannels d (updStream d' f s) = streamChannels d s" "streamChannels d (i2s_updateAudio E d' s) = streamChannels d s"
  "streamChannels d (s\<lparr>i2s_codec := c\<rparr>) = streamChannels d s" "streamChannels d (s\<lparr>i2s_memory := m\<rparr>) = streamChannels d s"
  by (simp_all add: streamChannels_def)

lemma bytePeriod_simps [simp]:
  "bytePeriodNs d (updStream d' f s) = bytePeriodNs d s" "bytePeriodNs d (updChannel d' i g s) = bytePeriodNs d s"
  "bytePeriodNs d (i2s_updateAudio E d' s) = bytePeriodNs d s" "bytePeriodNs d (s\<lparr>i2s_codec := c\<rparr>) = bytePeriodNs d s"
  "bytePeriodNs d (s\<lparr>i2s_memory := m\<rparr>) = bytePeriodNs d s"
  by (rule bytePeriod_cong, simp)+

lemma streamChannels_upd: "streamChannels d (updChannel d i f s) = (streamChannels d s)[i := f (streamChannels d s ! i)]"
  by (simp add: streamChannels_def updChannel_def split: option.split)

lemma bound_cong:
  assumes "boundChannel E i s" and "streamChannels TX t = (streamChannels TX s)[i := ch]"
    and "dma_peripheral ch = dma_peripheral (streamChannels TX s ! i)" "dma_conf0 ch = dma_conf0 (streamChannels TX s ! i)"
  shows "boundChannel E i t"
  using assms by (auto simp: boundChannel_def)

section \<open>A chain in memory\<close>

fun chained :: "'m dma_unit \<Rightarrow> 'm \<Rightarrow> u32 \<Rightarrow> (u32 \<times> bytes) list \<Rightarrow> bool" where
  "chained D m a [] \<longleftrightarrow> a = 0"
| "chained D m a ((flags, data) # ds) \<longleftrightarrow> a \<noteq> 0 \<and> a AND 3 = 0 \<and> flags AND 0x80000000 \<noteq> 0 \<and>
     unat (drop_bit 12 flags AND 0xFFF) = length data \<and> data \<noteq> [] \<and> length data \<le> unat (flags AND 0xFFF) \<and>
     (\<exists>raw. mem_read D a 12 m = Some raw \<and> readLe32 raw = flags \<and> mem_read D (readLe32 (drop 4 raw)) (length data) m = Some data \<and>
        chained D m (readLe32 (drop 8 raw)) ds)"

definition lasts :: "rat \<Rightarrow> bytes \<Rightarrow> int" where
  "lasts period data = max \<lceil>round64 (of_nat (length data) * period)\<rceil> 1"

text \<open>The first descriptor of the chain is in flight and ends at time \<open>t\<close>.\<close>

definition playing :: "('c, 'm) i2s_env \<Rightarrow> nat \<Rightarrow> (u32 \<times> bytes) list \<Rightarrow> int \<Rightarrow> ('c, 'm) i2s \<Rightarrow> bool" where
  "playing E i ds t s \<longleftrightarrow> ds \<noteq> [] \<and> steady E i s \<and> chained (dma_space E) (i2s_memory s) (stream_descriptor (streams s TX)) ds \<and>
     pendingValid (streams s TX) \<and> stream_timer (streams s TX) = Some t \<and> deadlineNs (streams s TX) = t \<and>
     (\<exists>raw. mem_read (dma_space E) (stream_descriptor (streams s TX)) 12 (i2s_memory s) = Some raw \<and>
        stream_pending (streams s TX) = [readLe32 raw, readLe32 (drop 4 raw), readLe32 (drop 8 raw)]) \<and>
     stream_bytes (streams s TX) = length (snd (hd ds))"

lemma fetch_plays:
  assumes s: "steady E i s" "chained (dma_space E) (i2s_memory s) (stream_descriptor (streams s TX)) ((flags, data) # ds)"
  defines "t \<equiv> deadlineNs (streams s TX) + lasts (bytePeriodNs TX s) data"
  shows "playing E i ((flags, data) # ds) t (fetchDescriptor E TX i s)"
    and "i2s_codec (fetchDescriptor E TX i s) = i2s_codec s" "i2s_regs (fetchDescriptor E TX i s) = i2s_regs s"
proof -
  let ?a = "stream_descriptor (streams s TX)"
  obtain raw where raw: "mem_read (dma_space E) ?a 12 (i2s_memory s) = Some raw" "readLe32 raw = flags" using s(2) by auto
  define st :: "i2s_stream \<Rightarrow> i2s_stream" where "st = (\<lambda>st. st\<lparr>stream_pending := [readLe32 raw, readLe32 (drop 4 raw), readLe32 (drop 8 raw)],
                stream_bytes := length data\<rparr>)"
  define u where "u = updChannel TX i (\<lambda>ch. ch\<lparr>dma_state := ?a AND 0x3FFFF\<rparr>)
              (updStream TX (\<lambda>st. st\<lparr>pendingValid := True, deadlineNs := t, stream_timer := Some t\<rparr>) (updStream TX st s))"
  have n: "wantedBytes TX flags s = length data" using s(2) by (simp add: wantedBytes_def)
  have "fetchDescriptor E TX i s = u"
    unfolding fetchDescriptor_def Let_def u_def
    using s(2) raw n by (simp add: st_def t_def lasts_def)
  moreover have "playing E i ((flags, data) # ds) t u"
  proof -
    have chs: "streamChannels TX u = (streamChannels TX s)[i := (streamChannels TX s ! i)\<lparr>dma_state := ?a AND 0x3FFFF\<rparr>]"
      by (simp add: u_def streamChannels_upd)
    have "boundChannel E i u" using s(1) by (intro bound_cong [OF _ chs]) (simp_all add: steady_def)
    moreover have "dma_link (streamChannels TX u ! i) = dma_link (streamChannels TX s ! i)"
      using s(1) by (simp add: u_def steady_def boundChannel_def streamChannels_upd)
    ultimately have "steady E i u" using s(1) by (simp add: steady_def) (simp add: u_def st_def)
    then show ?thesis using s(2) raw unfolding playing_def by (simp add: u_def st_def)
  qed
  ultimately show "playing E i ((flags, data) # ds) t (fetchDescriptor E TX i s)"
    "i2s_codec (fetchDescriptor E TX i s) = i2s_codec s" "i2s_regs (fetchDescriptor E TX i s) = i2s_regs s"
    by (simp_all add: u_def)
qed

section \<open>One descriptor\<close>

text \<open>The rate the codec is told on every schedule, and what it hears of one buffer.\<close>

definition soundRate :: "('c, 'm) i2s \<Rightarrow> nat" where
  "soundRate s = nat (lroundf (round64 (1000000000 / round64 (bytePeriodNs TX s * of_nat (frameBytes (pcmFormat TX s))))))"

lemma updateAudio_rate:
  "bytePeriodNs TX s \<noteq> 0 \<Longrightarrow> i2s_updateAudio E TX s = s\<lparr>i2s_codec := map_option (codec_rate E False (soundRate s)) (i2s_codec s)\<rparr>"
  by (simp add: i2s_updateAudio_def soundRate_def frameBytes_def pcmFormat_def Let_def)

definition heard :: "('c, 'm) i2s_env \<Rightarrow> ('c, 'm) i2s \<Rightarrow> bytes \<Rightarrow> 'c \<Rightarrow> 'c" where
  "heard E s data c = codec_rate E False (soundRate s) (sendBlocks E (pcmFormat TX s) data c)"

lemma heard_cong: "i2s_regs s = i2s_regs t \<Longrightarrow> heard E s = heard E t"
  using bytePeriod_cong [of s t TX] format_cong [of s t TX] by (simp add: heard_def soundRate_def fun_eq_iff)

definition audible :: "('c, 'm) i2s \<Rightarrow> bool" where
  "audible s \<longleftrightarrow> bytePeriodNs TX s \<noteq> 0 \<and> frameBytes (pcmFormat TX s) \<noteq> 0 \<and> dirReg I2sRxConf TX s AND LsbFirst = 0"

lemma audible_cong: "i2s_regs s = i2s_regs t \<Longrightarrow> audible s = audible t"
  using bytePeriod_cong [of s t TX] format_cong [of s t TX] by (simp add: audible_def dirReg_def i2sReg_def)

text \<open>The state in which the next descriptor is scheduled.\<close>

definition finished :: "('c, 'm) i2s_env \<Rightarrow> nat \<Rightarrow> bool \<Rightarrow> u32 \<Rightarrow> 'c \<Rightarrow> ('c, 'm) i2s \<Rightarrow> ('c, 'm) i2s" where
  "finished E i eof next_descriptor c s =
     updStream TX (\<lambda>st. st\<lparr>stream_descriptor := next_descriptor, pendingValid := False\<rparr>)
       (updChannel TX i (i2s_channelDone E TX eof (stream_descriptor (streams s TX)) next_descriptor)
         (updStream TX (\<lambda>st. st\<lparr>stream_timer := None\<rparr>) (s\<lparr>i2s_codec := Some c\<rparr>)))"

lemma complete_finished:
  assumes "playing E i ((flags, data) # ds) t s" and "audible s" and "i2s_codec s = Some c"
  obtains raw where "mem_read (dma_space E) (stream_descriptor (streams s TX)) 12 (i2s_memory s) = Some raw"
    "streamComplete E now TX s = streamSchedule E now TX
       (finished E i (flags AND 0x40000000 \<noteq> 0) (readLe32 (drop 8 raw)) (sendBlocks E (pcmFormat TX s) data c) s)"
proof -
  let ?a = "stream_descriptor (streams s TX)"
  let ?s = "updStream TX (\<lambda>st. st\<lparr>stream_timer := None\<rparr>) s"
  have steady: "steady E i s" and ch: "chained (dma_space E) (i2s_memory s) ?a ((flags, data) # ds)"
    using assms(1) by (simp_all add: playing_def)
  obtain raw where raw: "mem_read (dma_space E) ?a 12 (i2s_memory s) = Some raw"
    and pending: "stream_pending (streams s TX) = [readLe32 raw, readLe32 (drop 4 raw), readLe32 (drop 8 raw)]"
    using assms(1) by (auto simp: playing_def)
  have c: "readLe32 raw = flags" "mem_read (dma_space E) (readLe32 (drop 4 raw)) (length data) (i2s_memory s) = Some data" "?a \<noteq> 0"
    using ch raw by auto
  have "steady E i ?s" using steady by (simp add: steady_def boundChannel_def)
  then have look: "streamChannel E now TX ?s = (Some i, ?s)" using c(3) by (simp add: steady_channel)
  have format: "pcmFormat TX ?s = pcmFormat TX s" "dirReg I2sRxConf TX ?s = dirReg I2sRxConf TX s"
    by (rule format_cong, simp, simp add: dirReg_def i2sReg_def)
  define u where "u = ?s\<lparr>i2s_codec := Some (sendBlocks E (pcmFormat TX s) data c)\<rparr>"
  have move: "moveSamples E TX (readLe32 (drop 4 raw)) (length data) ?s = (True, u)"
    using c(2) assms(2,3) by (simp add: moveSamples_def transferAudio_def format audible_def u_def Let_def)
  have no: "dma_conf0 (streamChannels TX u ! i) AND auto_wrback_mask (dma_space E) = 0"
    using steady by (simp add: u_def steady_def boundChannel_def)
  have "streamComplete E now TX s = finishDescriptor E now TX i u"
    using assms(1,2) move
    by (simp add: streamComplete_def look pending playing_def audible_def Let_def)
  also have "\<dots> = streamSchedule E now TX (finished E i (flags AND 0x40000000 \<noteq> 0) (readLe32 (drop 8 raw)) (sendBlocks E (pcmFormat TX s) data c) s)"
  proof -
    have same: "u\<lparr>i2s_memory := i2s_memory u\<rparr> = u" by simp
    have st: "stream_pending (streams u TX) = [flags, readLe32 (drop 4 raw), readLe32 (drop 8 raw)]"
        "stream_descriptor (streams u TX) = ?a" by (simp_all add: u_def pending c(1))
    have swap: "updStream TX (\<lambda>st. st\<lparr>stream_timer := None\<rparr>) (s\<lparr>i2s_codec := Some d\<rparr>) = ?s\<lparr>i2s_codec := Some d\<rparr>" for d
      by (simp add: updStream_def)
    show ?thesis
      unfolding finishDescriptor_def Let_def finished_def swap using no same st by (simp add: u_def [symmetric])
  qed
  finally show ?thesis using that raw by blast
qed

text \<open>A descriptor that has a successor.\<close>

lemma descriptor_played:
  assumes p: "playing E i ((flags, data) # d # ds) t s" and a: "audible s" and c: "i2s_codec s = Some c"
  shows "playing E i (d # ds) (t + lasts (bytePeriodNs TX s) (snd d)) (streamComplete E now TX s)"
    and "i2s_codec (streamComplete E now TX s) = Some (heard E s data c)"
    and "i2s_regs (streamComplete E now TX s) = i2s_regs s"
proof -
  obtain raw where raw: "mem_read (dma_space E) (stream_descriptor (streams s TX)) 12 (i2s_memory s) = Some raw"
    and eq: "streamComplete E now TX s = streamSchedule E now TX
       (finished E i (flags AND 0x40000000 \<noteq> 0) (readLe32 (drop 8 raw)) (sendBlocks E (pcmFormat TX s) data c) s)"
    using complete_finished [OF p a c] by blast
  let ?n = "readLe32 (drop 8 raw)"
  let ?f = "finished E i (flags AND 0x40000000 \<noteq> 0) ?n (sendBlocks E (pcmFormat TX s) data c) s"
  define u where "u = ?f\<lparr>i2s_codec := Some (heard E s data c)\<rparr>"
  have steady: "steady E i s" and ch: "chained (dma_space E) (i2s_memory s) ?n (d # ds)" and dl: "deadlineNs (streams s TX) = t"
    using p raw by (auto simp: playing_def)
  have regs: "i2s_regs ?f = i2s_regs s" by (simp add: finished_def)
  have rate: "soundRate ?f = soundRate s"
    using bytePeriod_cong [OF regs] format_cong [OF regs] by (simp add: soundRate_def)
  have period: "bytePeriodNs TX ?f = bytePeriodNs TX s" by (rule bytePeriod_cong [OF regs])
  have u: "i2s_updateAudio E TX ?f = u"
    using a by (simp add: updateAudio_rate period audible_def u_def rate heard_def) (simp add: finished_def)
  obtain f d' where d: "d = (f, d')" by fastforce
  have n0: "?n \<noteq> 0" using ch by (simp add: d)
  have i: "i < length (streamChannels TX s)" using steady by (simp add: steady_def boundChannel_def)
  have chs: "streamChannels TX u = (streamChannels TX s)
      [i := i2s_channelDone E TX (flags AND 0x40000000 \<noteq> 0) (stream_descriptor (streams s TX)) ?n (streamChannels TX s ! i)]"
    by (simp add: u_def finished_def streamChannels_upd)
  have kept: "dma_peripheral (i2s_channelDone E TX e x ?n k) = dma_peripheral k" "dma_conf0 (i2s_channelDone E TX e x ?n k) = dma_conf0 k"
    "dma_link (i2s_channelDone E TX e x ?n k) = dma_link k" for e x k
    using n0 by (simp_all add: i2s_channelDone_def channelIrq_def Let_def)
  have "boundChannel E i u" using steady kept by (intro bound_cong [OF _ chs]) (simp_all add: steady_def)
  moreover have "stream_channel (streams u TX) = of_nat i" using steady by (simp add: u_def finished_def steady_def)
  ultimately have su: "steady E i u" using steady i by (simp add: steady_def chs kept)
  have st: "stream_descriptor (streams u TX) = ?n" "pendingValid (streams u TX) = False" "deadlineNs (streams u TX) = t" "i2s_memory u = i2s_memory s"
    using dl by (simp_all add: u_def finished_def)
  have pu: "bytePeriodNs TX u = bytePeriodNs TX s" using period by (simp add: u_def)
  have sched: "streamSchedule E now TX ?f = fetchDescriptor E TX i u"
    using a steady_channel [OF su, of now] st n0 by (simp add: streamSchedule_def u pu audible_def)
  note fetch = fetch_plays [where E = E and i = i and s = u and flags = f and data = d' and ds = ds]
  have chu: "chained (dma_space E) (i2s_memory u) (stream_descriptor (streams u TX)) ((f, d') # ds)" using ch by (simp only: st d)
  show "playing E i (d # ds) (t + lasts (bytePeriodNs TX s) (snd d)) (streamComplete E now TX s)"
    using fetch(1) [OF su chu] unfolding eq sched st pu d by simp
  show "i2s_codec (streamComplete E now TX s) = Some (heard E s data c)"
    unfolding eq sched fetch(2) [OF su chu] by (simp add: u_def)
  show "i2s_regs (streamComplete E now TX s) = i2s_regs s"
    unfolding eq sched fetch(3) [OF su chu] by (simp add: u_def regs)
qed

text \<open>The last descriptor: the channel is parked and the stream looks for a new start once a millisecond.\<close>

definition parked :: "('c, 'm) i2s_env \<Rightarrow> nat \<Rightarrow> ('c, 'm) i2s \<Rightarrow> bool" where
  "parked E i s \<longleftrightarrow> stream_descriptor (streams s TX) = 0 \<and> \<not> pendingValid (streams s TX) \<and>
     stream_timer (streams s TX) = Some (deadlineNs (streams s TX) + DmaPollIntervalNs) \<and>
     (let ch = streamChannels TX s ! i in dma_link ch AND 0x800000 \<noteq> 0 \<and> int_raw ch AND 1 \<noteq> 0 \<and>
        int_raw ch AND out_total_eof E = out_total_eof E \<and> (int_irq ch \<longleftrightarrow> int_raw ch AND int_ena ch \<noteq> 0))"

lemma last_played:
  assumes p: "playing E i [(flags, data)] t s" and a: "audible s" and c: "i2s_codec s = Some c"
  shows "parked E i (streamComplete E now TX s)"
    and "i2s_codec (streamComplete E now TX s) = Some (heard E s data c)"
proof -
  obtain raw where raw: "mem_read (dma_space E) (stream_descriptor (streams s TX)) 12 (i2s_memory s) = Some raw"
    and eq: "streamComplete E now TX s = streamSchedule E now TX
       (finished E i (flags AND 0x40000000 \<noteq> 0) (readLe32 (drop 8 raw)) (sendBlocks E (pcmFormat TX s) data c) s)"
    using complete_finished [OF p a c] by blast
  have n0: "readLe32 (drop 8 raw) = 0" and steady: "steady E i s" using p raw by (auto simp: playing_def)
  let ?f = "finished E i (flags AND 0x40000000 \<noteq> 0) 0 (sendBlocks E (pcmFormat TX s) data c) s"
  define u where "u = ?f\<lparr>i2s_codec := Some (heard E s data c)\<rparr>"
  let ?k = "streamChannels TX s ! i"
  define k where "k = i2s_channelDone E TX (flags AND 0x40000000 \<noteq> 0) (stream_descriptor (streams s TX)) 0 ?k"
  have regs: "i2s_regs ?f = i2s_regs s" by (simp add: finished_def)
  have rate: "soundRate ?f = soundRate s" using bytePeriod_cong [OF regs] format_cong [OF regs] by (simp add: soundRate_def)
  have period: "bytePeriodNs TX ?f = bytePeriodNs TX s" by (rule bytePeriod_cong [OF regs])
  have u: "i2s_updateAudio E TX ?f = u"
    using a by (simp add: updateAudio_rate period audible_def u_def rate heard_def) (simp add: finished_def)
  have i: "i < length (streamChannels TX s)" and link0: "dma_link ?k AND linkBits = 0" using steady by (simp_all add: steady_def boundChannel_def)
  have chs: "streamChannels TX u = (streamChannels TX s)[i := k]" by (simp add: u_def finished_def streamChannels_upd k_def)
  have k: "dma_peripheral k = dma_peripheral ?k" "dma_conf0 k = dma_conf0 ?k" "dma_link k = dma_link ?k OR 0x800000"
      "int_raw k AND 1 \<noteq> 0" "int_raw k AND out_total_eof E = out_total_eof E" "int_irq k \<longleftrightarrow> int_raw k AND int_ena k \<noteq> 0"
    by (auto simp: k_def i2s_channelDone_def channelIrq_def Let_def bit.conj_disj_distrib2 or_eq_0_word)
  have bound: "boundChannel E i u" using steady k by (intro bound_cong [OF _ chs]) (simp_all add: steady_def)
  have chan: "stream_channel (streams u TX) = of_nat i" using steady by (simp add: u_def finished_def steady_def)
  obtain js where look: "streamChannel E now TX u = streamChannelFrom E now TX (i # js) u" using channel_lookup [OF bound] by blast
  have link: "dma_link k AND 0x600000 = 0" "dma_link k AND 0x900000 \<noteq> 0"
    using link_parts [OF link0] by (simp_all add: k(3) bit.conj_disj_distrib2 or_eq_0_word)
  have "takeLink E now TX i u = u" using i link by (simp add: takeLink_def startBit_def chs Let_def)
  then have sc: "streamChannel E now TX u = (None, updChannel TX i (\<lambda>ch. ch\<lparr>dma_link := (dma_link ch AND NOT 0x100000) OR 0x800000\<rparr>)
               (updStream TX (\<lambda>st. st\<lparr>stream_descriptor := 0, pendingValid := False\<rparr>) u))"
    unfolding look using bound chan link i by (simp add: boundChannel_def chs startBit_def drop_bit_eq_div Let_def)
  have pu: "bytePeriodNs TX u \<noteq> 0" using a period by (simp add: u_def audible_def)
  define v where "v = updStream TX (\<lambda>st. st\<lparr>deadlineNs := now, stream_timer := Some (now + DmaPollIntervalNs)\<rparr>)
    (updChannel TX i (\<lambda>ch. ch\<lparr>dma_link := (dma_link ch AND NOT 0x100000) OR 0x800000\<rparr>)
               (updStream TX (\<lambda>st. st\<lparr>stream_descriptor := 0, pendingValid := False\<rparr>) u))"
  have v: "streamComplete E now TX s = v" unfolding eq n0 by (simp add: streamSchedule_def u pu sc v_def)
  have "streamChannels TX v ! i = k\<lparr>dma_link := (dma_link k AND NOT 0x100000) OR 0x800000\<rparr>"
    using i by (simp add: v_def streamChannels_upd chs)
  then show "parked E i (streamComplete E now TX s)"
    unfolding v parked_def using k by (simp add: bit.conj_disj_distrib2 or_eq_0_word Let_def) (simp add: v_def)
  show "i2s_codec (streamComplete E now TX s) = Some (heard E s data c)"
    unfolding v by (simp add: v_def u_def)
qed

section \<open>The whole chain\<close>

text \<open>The timer of the sending stream runs as many times as there are entries, each that much too late.\<close>

fun play :: "('c, 'm) i2s_env \<Rightarrow> nat list \<Rightarrow> ('c, 'm) i2s \<Rightarrow> ('c, 'm) i2s" where
  "play E [] s = s"
| "play E (late # ls) s = (case stream_timer (streams s TX) of
     None \<Rightarrow> s | Some t \<Rightarrow> play E ls (streamComplete E (t + int late) TX s))"

lemma play_inside:
  assumes "playing E i ds t s" "audible s" "i2s_codec s = Some c" "length ls < length ds"
  shows "playing E i (drop (length ls) ds) (t + (\<Sum>d \<leftarrow> take (length ls) (tl ds). lasts (bytePeriodNs TX s) (snd d))) (play E ls s) \<and>
    i2s_codec (play E ls s) = Some (fold (heard E s) (map snd (take (length ls) ds)) c) \<and> i2s_regs (play E ls s) = i2s_regs s"
  using assms
proof (induction ls arbitrary: ds t s c)
  case (Cons l ls)
  then obtain flags data d ds' where ds: "ds = (flags, data) # d # ds'"
    by (cases ds rule: remdups_adj.cases) (auto simp: Suc_less_eq)
  let ?s = "streamComplete E (t + int l) TX s"
  note p = Cons.prems(1) [unfolded ds]
  note step = descriptor_played [OF p Cons.prems(2,3), of "t + int l"]
  have a: "audible ?s" using Cons.prems(2) audible_cong [OF step(3)] by simp
  have h: "heard E ?s = heard E s" by (rule heard_cong [OF step(3)])
  have b: "bytePeriodNs TX ?s = bytePeriodNs TX s" by (rule bytePeriod_cong [OF step(3)])
  have timer: "stream_timer (streams s TX) = Some t" using p by (simp add: playing_def)
  have "length ls < length (d # ds')" using Cons.prems(4) by (simp add: ds)
  note IH = Cons.IH [OF step(1) a step(2) this]
  show ?case using IH by (simp add: ds timer h b step(3) add.assoc del: append_take_drop_id)
qed simp

lemma play_append: "play E (ls @ [l]) s = (case stream_timer (streams (play E ls s) TX) of
    None \<Rightarrow> play E ls s | Some t \<Rightarrow> streamComplete E (t + int l) TX (play E ls s))"
  by (induction ls arbitrary: s) (auto split: option.splits)

text \<open>The guest has set the start bit of the channel, with the low bits of the first descriptor's address.\<close>

definition firstDescriptor :: "('c, 'm) i2s_env \<Rightarrow> nat \<Rightarrow> ('c, 'm) i2s \<Rightarrow> u32" where
  "firstDescriptor E i s = (dma_ram E AND 0xFFF00000) OR (dma_link (streamChannels TX s ! i) AND 0xFFFFF)"

definition startable :: "('c, 'm) i2s_env \<Rightarrow> nat \<Rightarrow> (u32 \<times> bytes) list \<Rightarrow> ('c, 'm) i2s \<Rightarrow> bool" where
  "startable E i ds s \<longleftrightarrow> boundChannel E i s \<and> dma_link (streamChannels TX s ! i) AND 0x200000 \<noteq> 0 \<and>
     ds \<noteq> [] \<and> chained (dma_space E) (i2s_memory s) (firstDescriptor E i s) ds"

lemma chain_started:
  assumes st: "startable E i ds s" and a: "audible s" and c: "i2s_codec s = Some c"
  shows "playing E i ds (now + lasts (bytePeriodNs TX s) (snd (hd ds))) (restartStream E now TX s)"
    and "i2s_codec (restartStream E now TX s) = Some (codec_rate E False (soundRate s) c)"
    and "i2s_regs (restartStream E now TX s) = i2s_regs s"
proof -
  obtain flags data ds' where ds: "ds = (flags, data) # ds'" using st by (cases ds) (auto simp: startable_def)
  let ?r = "updStream TX (\<lambda>st. st\<lparr>pendingValid := False, deadlineNs := now\<rparr>) s"
  define u where "u = ?r\<lparr>i2s_codec := Some (codec_rate E False (soundRate s) c)\<rparr>"
  have "soundRate ?r = soundRate s" using format_cong [of ?r s TX] by (simp add: soundRate_def)
  then have u: "i2s_updateAudio E TX ?r = u" using a c by (simp add: updateAudio_rate audible_def u_def)
  have chs: "streamChannels TX u = streamChannels TX s" by (simp add: u_def)
  have bu: "boundChannel E i u" using st by (simp add: startable_def boundChannel_def chs)
  let ?k = "streamChannels TX s ! i"
  define l where "l = ?k\<lparr>dma_link := dma_link ?k AND NOT (linkBits)\<rparr>"
  define v where "v = takeLink E now TX i u"
  have i: "i < length (streamChannels TX s)" using st by (simp add: startable_def boundChannel_def)
  have "dma_link ?k AND 0x600000 \<noteq> 0"
  proof
    assume "dma_link ?k AND 0x600000 = 0"
    moreover have "dma_link ?k AND 0x200000 = (dma_link ?k AND 0x600000) AND 0x200000" by (simp add: and.assoc)
    ultimately show False using st by (simp add: startable_def)
  qed
  then have v: "v = updChannel TX i (\<lambda>ch. ch\<lparr>dma_link := dma_link ch AND NOT linkBits\<rparr>)
      (updStream TX (\<lambda>st. st\<lparr>deadlineNs := now, stream_channel := of_nat i, stream_descriptor := firstDescriptor E i s,
         pendingValid := False, rxEofBytes := 0\<rparr>) u)"
    using st by (simp add: v_def takeLink_def startBit_def chs Let_def drop_bit_eq_div startable_def linkBits_def firstDescriptor_def)
  have cv: "streamChannels TX v = (streamChannels TX s)[i := l]" by (simp add: v streamChannels_upd chs l_def)
  have bv: "boundChannel E i v" using st by (intro bound_cong [OF _ cv]) (simp_all add: startable_def l_def)
  have sv: "steady E i v" using bv i by (simp add: steady_def cv) (simp add: v l_def and.assoc)
  have f: "stream_descriptor (streams v TX) = firstDescriptor E i s" "pendingValid (streams v TX) = False"
      "deadlineNs (streams v TX) = now" "i2s_memory v = i2s_memory s" "bytePeriodNs TX v = bytePeriodNs TX s" "i2s_regs v = i2s_regs s"
    by (simp_all add: v, simp_all add: u_def)
  have n0: "firstDescriptor E i s \<noteq> 0" using st by (simp add: startable_def ds)
  have "streamChannel E now TX u = (Some i, v)"
  proof -
    obtain js where look: "streamChannel E now TX u = streamChannelFrom E now TX (i # js) u" using channel_lookup [OF bu] by blast
    have "dma_link l AND linkBits = 0" by (simp add: l_def and.assoc)
    note parts = link_parts [OF this]
    show ?thesis
      unfolding look using bu bv sv i n0 parts f(1)
      by (simp add: boundChannel_def v_def [symmetric] cv startBit_def drop_bit_eq_div steady_def Let_def)
  qed
  then have eq: "restartStream E now TX s = fetchDescriptor E TX i v"
    using a f(2) u by (simp add: restartStream_def streamSchedule_def audible_def) (simp add: u_def)
  have ch: "chained (dma_space E) (i2s_memory v) (stream_descriptor (streams v TX)) ((flags, data) # ds')"
    using st by (simp only: startable_def f ds)
  show "playing E i ds (now + lasts (bytePeriodNs TX s) (snd (hd ds))) (restartStream E now TX s)"
    using fetch_plays(1) [OF sv ch] unfolding eq f by (simp add: ds)
  show "i2s_codec (restartStream E now TX s) = Some (codec_rate E False (soundRate s) c)"
    unfolding eq fetch_plays(2) [OF sv ch] by (simp add: v u_def)
  show "i2s_regs (restartStream E now TX s) = i2s_regs s"
    unfolding eq fetch_plays(3) [OF sv ch] by (rule f(6))
qed

text \<open>C38: when the sending stream is restarted on a chain of descriptors, the codec hears the buffers one by
  one in the order of the chain. However late the host dispatches the timers, the end of each
  descriptor is due at the start time plus the durations of the descriptors up to it. After the last
  one the channel is parked, its completion and total-end interrupts are raised, and the stream
  polls for a new start.\<close>

theorem i2s_plays_chain:
  assumes "startable E i ds s" and "audible s" and "i2s_codec s = Some c" and "length late \<le> length ds"
  shows "let s' = play E late (restartStream E now TX s) in
    i2s_codec s' = Some (fold (heard E s) (map snd (take (length late) ds)) (codec_rate E False (soundRate s) c)) \<and>
    (if length late < length ds
     then stream_timer (streams s' TX) = Some (now + (\<Sum>d \<leftarrow> take (Suc (length late)) ds. lasts (bytePeriodNs TX s) (snd d)))
     else parked E i s')"
proof -
  let ?r = "restartStream E now TX s"
  note start = chain_started [OF assms(1-3), of now]
  have ds: "ds \<noteq> []" using assms(1) by (simp add: startable_def)
  have a: "audible ?r" using assms(2) audible_cong [OF start(3)] by simp
  have same: "heard E ?r = heard E s" "bytePeriodNs TX ?r = bytePeriodNs TX s"
    by (rule heard_cong [OF start(3)], rule bytePeriod_cong [OF start(3)])
  note inside = play_inside [OF start(1) a start(2), unfolded same]
  show ?thesis
  proof (cases "length late < length ds")
    case True
    have "take (Suc (length late)) ds = hd ds # take (length late) (tl ds)" using ds by (cases ds) simp_all
    then show ?thesis using inside [OF True] True by (simp add: Let_def playing_def add.assoc)
  next
    case False
    then have "length late = length ds" using assms(4) by simp
    then obtain ls l where ls: "late = ls @ [l]" using ds by (cases late rule: rev_cases) auto
    then have n: "length ls < length ds" "length ds = Suc (length ls)" using \<open>length late = length ds\<close> by simp_all
    have "drop (length ls) ds = [ds ! length ls]" using n Cons_nth_drop_Suc [OF n(1)] by simp
    then obtain flags data where last: "drop (length ls) ds = [(flags, data)]" by (metis surj_pair)
    let ?p = "play E ls ?r"
    obtain t where p: "playing E i [(flags, data)] t ?p" and regs: "i2s_regs ?p = i2s_regs ?r"
      and c: "i2s_codec ?p = Some (fold (heard E s) (map snd (take (length ls) ds)) (codec_rate E False (soundRate s) c))"
      using inside [OF n(1)] last by auto
    have timer: "stream_timer (streams ?p TX) = Some t" using p by (simp add: playing_def)
    have h: "heard E ?p = heard E s" using heard_cong [OF regs] same by simp
    have ap: "audible ?p" using a audible_cong [OF regs] by simp
    have "ds = take (length ls) ds @ [(flags, data)]" using last by (metis append_take_drop_id)
    from arg_cong [OF this, of "map snd"] have "map snd ds = map snd (take (length ls) ds) @ [data]" by (simp only: map_append list.map snd_conv)
    from arg_cong [OF this, of "\<lambda>xs. fold (heard E s) xs (codec_rate E False (soundRate s) c)"]
    have all: "heard E s data (fold (heard E s) (map snd (take (length ls) ds)) (codec_rate E False (soundRate s) c)) =
        fold (heard E s) (map snd ds) (codec_rate E False (soundRate s) c)" by (simp only: fold_append fold_simps comp_apply)
    then show ?thesis
      using last_played [OF p ap c, of "t + int l"] n by (simp add: ls play_append timer h all Let_def)
  qed
qed

section \<open>A sound\<close>

text \<open>Two descriptors of one stereo frame each at 25 kHz: 10 microseconds a byte.\<close>

definition soundTable :: "u32 \<Rightarrow> bytes option" where
  "soundTable = map_of [(0x3FC00000, [0x04, 0x40, 0x00, 0x80, 0x00, 0x01, 0xC0, 0x3F, 0x10, 0x00, 0xC0, 0x3F]),
     (0x3FC00010, [0x04, 0x40, 0x00, 0xC0, 0x04, 0x01, 0xC0, 0x3F, 0x00, 0x00, 0x00, 0x00]),
     (0x3FC00100, [1, 2, 3, 4]), (0x3FC00104, [5, 6, 7, 8])]"

definition soundEnv :: "(audio_frame list \<times> audio_frame list, unit) i2s_env" where
  "soundEnv = tapeEnv\<lparr>dma_space := \<lparr>mem_read = (\<lambda>a n _. map_option (take n) (soundTable a)), mem_write = (\<lambda>_ _ m. Some m), auto_wrback_mask = 4\<rparr>\<rparr>"

definition soundChannel :: dma_channel where
  "soundChannel = \<lparr>dma_peripheral = 3, dma_link = 0x200000, dma_conf0 = 0, dma_conf1 = 0, bfr_bfr_desc_addr = 0,
     bfr_desc_addr = 0, desc_addr = 0, dma_state = 0, suc_eof_desc_addr = 0, int_raw = 0, int_ena = 8, int_st = 0, int_irq = False\<rparr>"

definition soundChain :: "(u32 \<times> bytes) list" where
  "soundChain = [(0x80004004, [1, 2, 3, 4]), (0xC0004004, [5, 6, 7, 8])]"

definition configured :: "(audio_frame list \<times> audio_frame list, unit) i2s" where
  "configured = fold (\<lambda>(a, v). i2s_write soundEnv 0 a v) [(0x54, 0x1FFFF), (0x34, 0x340000C8), (0x3C, 0), (0x2C, 0x3DE000)]
     ((i2s_new soundEnv ())\<lparr>i2s_gdma := Some (\<lambda>_. [soundChannel]), i2s_codec := Some ([], []), i2s_memory := ()\<rparr>)"

text \<open>While neither stream runs a write to a register does nothing else.\<close>

definition sameOutside :: "('c, 'm) i2s \<Rightarrow> ('c, 'm) i2s \<Rightarrow> bool" where
  "sameOutside s t \<longleftrightarrow> i2s_regs t = i2s_regs s \<and> i2s_gdma t = i2s_gdma s \<and> i2s_codec t = i2s_codec s \<and> i2s_memory t = i2s_memory s"

lemma stopped_period: "dirReg I2sRxConf d s AND I2sStart = 0 \<Longrightarrow> bytePeriodNs d s = 0"
  by (simp add: bytePeriodNs_def streamEnabled_def Let_def)

lemma stopped_restart:
  assumes "dirReg I2sRxConf d s AND I2sStart = 0"
  shows "sameOutside s (restartStream soundEnv now d s)"
proof -
  have "i2s_updateAudio soundEnv d t = t" for t
    by (simp add: i2s_updateAudio_def soundEnv_def tapeEnv_def Let_def option.map_ident)
  then show ?thesis
    using stopped_period [OF assms] by (simp add: restartStream_def streamSchedule_def sameOutside_def)
qed

lemma stopped_write:
  assumes "sameOutside t s" "i2s_regs t = rs" "rs ! 8 AND I2sStart = 0" "rs ! 9 AND I2sStart = 0"
    and "a \<in> {0x54, 0x34, 0x3C, 0x2C}"
  shows "sameOutside (t\<lparr>i2s_regs := rs[a div 4 := v]\<rparr>) (i2s_write soundEnv now a v s)"
proof -
  define u where "u = storeI2s a v s"
  have u: "i2s_regs u = rs[a div 4 := v]" "i2s_gdma u = i2s_gdma t" "i2s_codec u = i2s_codec t" "i2s_memory u = i2s_memory t"
    using assms(1,2,5) by (auto simp: u_def storeI2s_def i2s_registers sameOutside_def)
  have stopped: "dirReg I2sRxConf d w AND I2sStart = 0" if "i2s_regs w = rs[a div 4 := v]" for d and w :: "(audio_frame list \<times> audio_frame list, unit) i2s"
    using assms(3-5) that by (cases d) (auto simp: dirReg_def i2sReg_def I2sRxConf_def)
  let ?r = "restartStream soundEnv now RX u"
  have r: "sameOutside u ?r" by (rule stopped_restart [OF stopped [OF u(1)]])
  then have "i2s_regs ?r = rs[a div 4 := v]" using u(1) by (simp add: sameOutside_def)
  from stopped_restart [OF stopped [OF this], of now TX]
  have "sameOutside ?r (restartStream soundEnv now TX ?r)" .
  moreover have "i2s_write soundEnv now a v s = restartStream soundEnv now TX ?r"
    using assms(5) by (auto simp: i2s_write_def i2s_registers u_def)
  ultimately show ?thesis using r u by (simp add: sameOutside_def)
qed

definition soundRegs :: "u32 list" where
  "soundRegs = i2sDefaults[21 := 0x1FFFF, 13 := 0x340000C8, 15 := 0, 11 := 0x3DE000]"

lemma configured_state: "i2s_regs configured = soundRegs" "i2s_gdma configured = Some (\<lambda>_. [soundChannel])"
  "i2s_codec configured = Some ([], [])" "i2s_memory configured = ()"
proof -
  define n where "n = (i2s_new soundEnv ())\<lparr>i2s_gdma := Some (\<lambda>_. [soundChannel]), i2s_codec := Some ([], []), i2s_memory := ()\<rparr>"
  have regs: "i2s_regs n = i2sDefaults" by (simp add: n_def i2s_new_def i2s_reset_def resetStream_def)
  have off: "rs ! 8 AND I2sStart = 0" "rs ! 9 AND I2sStart = 0"
    if "rs ! 8 = i2sDefaults ! 8" "rs ! 9 = i2sDefaults ! 9" for rs
    unfolding that by (simp_all add: i2sDefaults_def i2s_registers I2sStart_def)
  have "sameOutside n n" by (simp add: sameOutside_def)
  note a = stopped_write [OF this regs off, of 84 "0x1FFFF" 0, simplified]
  note b = stopped_write [OF a refl off, of 52 "0x340000C8" 0, simplified]
  note c = stopped_write [OF b refl off, of 60 0 0, simplified]
  note d = stopped_write [OF c refl off, of 44 "0x3DE000" 0, simplified]
  show "i2s_regs configured = soundRegs" "i2s_gdma configured = Some (\<lambda>_. [soundChannel])"
    "i2s_codec configured = Some ([], [])" "i2s_memory configured = ()"
    using d unfolding configured_def n_def [symmetric] by (simp_all add: sameOutside_def soundRegs_def, simp_all add: n_def)
qed

text \<open>The guest sets the start bit of the transmitter last.\<close>

definition beforeStart :: "(audio_frame list \<times> audio_frame list, unit) i2s" where
  "beforeStart = restartStream soundEnv 0 RX (storeI2s 0x24 0x81004 configured)"

definition sounding :: "(audio_frame list \<times> audio_frame list, unit) i2s" where
  "sounding = i2s_write soundEnv 0 0x24 0x81004 configured"

lemma sounding_restart: "sounding = restartStream soundEnv 0 TX beforeStart"
  by (simp add: sounding_def i2s_write_def beforeStart_def i2s_registers)

lemma beforeStart_state: "i2s_regs beforeStart = soundRegs[9 := 0x81004]" "i2s_gdma beforeStart = Some (\<lambda>_. [soundChannel])"
  "i2s_codec beforeStart = Some ([], [])" "i2s_memory beforeStart = ()"
proof -
  let ?u = "storeI2s 0x24 0x81004 configured"
  have u: "i2s_regs ?u = soundRegs[9 := 0x81004]" "i2s_gdma ?u = Some (\<lambda>_. [soundChannel])" "i2s_codec ?u = Some ([], [])" "i2s_memory ?u = ()"
    by (simp_all add: storeI2s_def i2s_registers I2sReset_def FifoReset_def I2sUpdate_def configured_state)
  have "dirReg I2sRxConf RX ?u AND I2sStart = 0"
    by (simp add: dirReg_def i2sReg_def u soundRegs_def i2sDefaults_def i2s_registers I2sStart_def)
  from stopped_restart [OF this, of 0]
  show "i2s_regs beforeStart = soundRegs[9 := 0x81004]" "i2s_gdma beforeStart = Some (\<lambda>_. [soundChannel])"
    "i2s_codec beforeStart = Some ([], [])" "i2s_memory beforeStart = ()"
    unfolding beforeStart_def sameOutside_def u by blast+
qed

lemma sound_registers:
  "dirReg I2sRxConf TX beforeStart = 0x81004" "dirReg I2sRxConf1 TX beforeStart = 0x3DE000" "dirReg I2sRxClk TX beforeStart = 0x340000C8"
  "dirReg I2sRxDiv TX beforeStart = 0" "dirReg I2sRxTdm TX beforeStart = 0x1FFFF" "i2sReg (I2sRxTdm + 4) beforeStart = 0x1FFFF"
  "i2sReg I2sTxClk beforeStart = 0x340000C8"
  by (simp_all add: dirReg_def i2sReg_def beforeStart_state soundRegs_def i2sDefaults_def i2s_registers)

lemma sound_format:
  "sampleBits TX beforeStart = 16" "sampleBytes TX beforeStart = 2" "i2s_dmaChannels TX beforeStart = 2"
  "pcmFormat TX beforeStart = \<lparr>pcm_width = 2, pcm_channels = 2, pcm_mask = 3, pcm_big = False, pcm_polarity = 0, pcm_repeat = False,
     pcm_monoFirst = False\<rparr>"
proof -
  show bits: "sampleBits TX beforeStart = 16" by (simp add: sampleBits_def sound_registers)
  then show bytes: "sampleBytes TX beforeStart = 2" by (simp add: sampleBytes_def)
  show chans: "i2s_dmaChannels TX beforeStart = 2" by (simp add: i2s_dmaChannels_def sound_registers bit_simps)
  show "pcmFormat TX beforeStart = \<lparr>pcm_width = 2, pcm_channels = 2, pcm_mask = 3, pcm_big = False, pcm_polarity = 0, pcm_repeat = False,
     pcm_monoFirst = False\<rparr>"
    by (simp add: pcmFormat_def bytes chans sound_registers I2sBigEndian_def TxRepeatMono_def RxMonoFirst_def)
qed

lemma sound_period: "bytePeriodNs TX beforeStart = 10000"
proof -
  have e: "streamEnabled TX beforeStart"
    by (simp add: streamEnabled_def sound_registers sound_format I2sStart_def I2sReset_def FifoReset_def Pdm_def Tdm_def PcmBypass_def
        ClockEnable_def ClockActive_def Let_def)
  have c: "clockDirection TX beforeStart = Some TX" by (simp add: clockDirection_def sound_registers I2sSlave_def)
  have "clockFraction 0 = 0" by (simp add: clockFraction_def Let_def)
  then have "bitClockHz TX beforeStart = 800000" by (simp add: bitClockHz_def sound_registers SourceHz_def Let_def)
  then show ?thesis
    by (simp add: bytePeriodNs_def e c sound_registers sound_format SourceHz_def ClockActive_def Let_def)
qed

lemma sound_ready: "startable soundEnv 0 soundChain beforeStart" "audible beforeStart"
proof -
  have ch: "streamChannels TX beforeStart = [soundChannel]" by (simp add: streamChannels_def beforeStart_state)
  have first: "firstDescriptor soundEnv 0 beforeStart = 0x3FC00000"
    by (simp add: firstDescriptor_def ch soundChannel_def soundEnv_def tapeEnv_def)
  have words: "readLe32 [0x04, 0x40, 0x00, 0x80, 0x00, 0x01, 0xC0, 0x3F, 0x10, 0x00, 0xC0, 0x3F] = 0x80004004"
      "readLe32 [0x00, 0x01, 0xC0, 0x3F, 0x10, 0x00, 0xC0, 0x3F] = 0x3FC00100" "readLe32 [0x10, 0x00, 0xC0, 0x3F] = 0x3FC00010"
      "readLe32 [0x04, 0x40, 0x00, 0xC0, 0x04, 0x01, 0xC0, 0x3F, 0x00, 0x00, 0x00, 0x00] = 0xC0004004"
      "readLe32 [0x04, 0x01, 0xC0, 0x3F, 0x00, 0x00, 0x00, 0x00] = 0x3FC00104" "readLe32 [0x00, 0x00, 0x00, 0x00] = 0"
    by (simp_all add: readLe32_def le16_def)
  have "chained (dma_space soundEnv) () 0x3FC00000 soundChain"
    by (simp add: soundChain_def soundEnv_def soundTable_def words)
  then show "startable soundEnv 0 soundChain beforeStart"
    by (simp add: startable_def boundChannel_def ch first beforeStart_state) (simp add: soundChannel_def soundEnv_def tapeEnv_def soundChain_def)
  show "audible beforeStart" by (simp add: audible_def sound_period sound_format frameBytes_def sound_registers LsbFirst_def)
qed

theorem i2s_plays_chain_witness:
  "i2s_codec (play soundEnv [5, 7] sounding) = Some ([], [(0x02010000, 0x04030000), (0x06050000, 0x08070000)]) \<and>
   parked soundEnv 0 (play soundEnv [5, 7] sounding) \<and>
   stream_timer (streams (play soundEnv [5] sounding) TX) = Some 80000"
proof -
  note plays = i2s_plays_chain [OF sound_ready beforeStart_state(3), where now = 0, folded sounding_restart]
  have heard: "heard soundEnv beforeStart [a, b, c, d] (ins, outs) =
      (ins, outs @ [(push_bit 16 (ucast a OR push_bit 8 (ucast b)), push_bit 16 (ucast c OR push_bit 8 (ucast d)))])" for a b c d ins outs
    by (simp add: heard_def sound_format sendBlocks.simps [of _ _ "[a, b, c, d]"] sendBlocks.simps [of _ _ "[]"] frameBytes_def blockFrames_def
        I2sBlockFrames_def soundEnv_def tapeEnv_def tapeTransfer_def unpackFrame_def unpackSlot_def loadSample_def setSlot_def crossed_def
        bit_simps upt_rec)
  have full: "length [5 :: nat, 7] \<le> length soundChain" "length [5 :: nat] \<le> length soundChain" by (simp_all add: soundChain_def)
  have "codec_rate soundEnv input rate c = c" for input rate c by (simp add: soundEnv_def tapeEnv_def)
  then have "i2s_codec (play soundEnv [5, 7] sounding) = Some ([], [(0x02010000, 0x04030000), (0x06050000, 0x08070000)]) \<and>
      parked soundEnv 0 (play soundEnv [5, 7] sounding)"
    using plays [OF full(1)] by (simp add: soundChain_def heard Let_def)
  moreover have "lasts 10000 data = 40000" if "length data = 4" for data
    using that by (simp add: lasts_def)
  then have "stream_timer (streams (play soundEnv [5] sounding) TX) = Some 80000"
    using plays [OF full(2)] by (simp add: soundChain_def sound_period Let_def)
  ultimately show ?thesis by blast
qed

text \<open>C40: in every state the controller can reach, whatever the guest does to the GDMA channels and to memory,
  a descriptor in flight is an aligned address with between 1 and 4095 bytes, so the transfer buffer is
  never overrun, and its timer is pending; a timer is pending only while the stream's clock runs; a
  stream whose clock runs without a timer has given its descriptor up (after an error).\<close>

theorem i2s_timers_follow_clock:
  assumes "reachable (i2s_starts E) (i2s_step E) s"
  shows "if pendingValid (streams s d)
    then stream_descriptor (streams s d) \<noteq> 0 \<and> stream_descriptor (streams s d) AND 3 = 0 \<and>
      0 < stream_bytes (streams s d) \<and> stream_bytes (streams s d) < DmaBufferSize \<and>
      stream_timer (streams s d) \<noteq> None \<and> bytePeriodNs d s \<noteq> 0
    else if stream_timer (streams s d) \<noteq> None then bytePeriodNs d s \<noteq> 0
    else bytePeriodNs d s = 0 \<or> stream_descriptor (streams s d) = 0"
  using i2s_machine.reachable_inv [OF assms] unfolding i2s_inv_def stream_ok_def flight_ok_def by (auto split: if_split)

lemma reach_write: "reachable (i2s_starts E) (i2s_step E) s \<Longrightarrow> reachable (i2s_starts E) (i2s_step E) (i2s_write E now a v s)"
  by (rule reach_step, assumption, rule i2s_step_write)

theorem i2s_timers_follow_clock_witness:
  "pendingValid (streams sounding TX) \<and> stream_bytes (streams sounding TX) < DmaBufferSize \<and> stream_timer (streams sounding TX) \<noteq> None"
proof -
  have "reachable (i2s_starts soundEnv) (i2s_step soundEnv) (i2s_new soundEnv ())"
    by (rule reach_init) (auto simp: i2s_starts_def)
  from reach_step [OF this i2s_step_outside]
  have "reachable (i2s_starts soundEnv) (i2s_step soundEnv)
      ((i2s_new soundEnv ())\<lparr>i2s_gdma := Some (\<lambda>_. [soundChannel]), i2s_codec := Some ([], []), i2s_memory := ()\<rparr>)" .
  then have "reachable (i2s_starts soundEnv) (i2s_step soundEnv) configured"
    unfolding configured_def fold_simps prod.case comp_apply id_apply by (intro reach_write)
  then have "reachable (i2s_starts soundEnv) (i2s_step soundEnv) sounding"
    unfolding sounding_def by (rule reach_write)
  note clock = i2s_timers_follow_clock [OF this, of TX]
  have "pendingValid (streams sounding TX)"
    using chain_started(1) [OF sound_ready beforeStart_state(3), of 0] by (simp add: playing_def sounding_restart)
  then show ?thesis using clock by simp
qed

end
