(* ===== verification/Spec2Isabelle.thy ===== *)
theory Spec2Isabelle
  imports PeerProperties SmpProperties LongWrite BleController M5pm1 M5ioe1 Cst820 Rx8130ce
    ControllerHooks AclTransfer GattPublication I2cTransfer Gpio PanelRefresh SpiPanel ImuUpload I2sPlayback
begin

text \<open>
  A verification library for M5Emulator, a desktop emulator that runs ESP32-S3 firmware of M5Stack
  devices on QEMU.

  \<^bold>\<open>The program.\<close> Two processes work together. The QEMU process executes the firmware; the files
  under \<open>qemu/\<close> add the peripherals of the chip and of the board and a high-level Bluetooth
  controller that takes the place of the closed controller libraries linked into the firmware. The
  host process (\<open>src/\<close>) shows the device and bridges its Bluetooth to the host computer: a virtual
  peer plays the central that a real phone would be. Controller and peer talk over a private Unix
  socket with small framed messages (\<open>Connect\<close>, \<open>Connected\<close>, \<open>Data\<close>, \<open>Encrypt\<close>, ...).

  \<^bold>\<open>The theories.\<close>
    \<^item> \<open>Prelude\<close>, \<open>BleBytes\<close>: machine integers, the outcome of a C++ block (returned, thrown,
      aborted), its weakest preconditions, the locale \<open>state_machine\<close> of reachable states, and the
      little-endian and UUID helpers of both processes (\<open>BleBytes.hpp\<close>, \<open>BleBytes.cpp\<close>).
    \<^item> \<open>PeerSocket\<close>: the framed transport (\<open>PeerSocket.cpp\<close>, \<open>PeerMessage.hpp\<close>). The kernel's
      answers to \<open>accept\<close>, \<open>recv\<close> and \<open>send\<close> are scripts in the state.
    \<^item> The virtual peer (\<open>src/bluetooth/VirtualPeer*.cpp\<close>, \<open>SmpSession.cpp\<close>, \<open>SmpCrypto.cpp\<close>):
      \<open>SmpCrypto\<close> (AES-CMAC and the key functions), \<open>PeerState\<close> (the data; a completion closure is
      a constructor of the datatype \<open>completion\<close>), \<open>SmpSession\<close>, \<open>AttQueue\<close>, \<open>Discovery\<close>,
      \<open>AttProtocol\<close>, \<open>Catalog\<close>, \<open>VirtualPeer\<close>. Its proofs: \<open>PeerInvariant\<close> (well-formedness, also
      at a throw), \<open>PeerEvents\<close> (what an operation may do to queue and log, a locale), \<open>PeerLive\<close>
      (progress), \<open>PeerLedger\<close> (accounting), \<open>PeerProperties\<close>, \<open>SmpProperties\<close>, \<open>LongWrite\<close>.
    \<^item> The controller (\<open>qemu/esp32s3/bluetooth\<close>): \<open>ControllerState\<close> (\<open>BleController.hpp\<close>,
      \<open>BleHle.h\<close>), \<open>ControllerLink\<close> (\<open>BleController.Link.cpp\<close>), \<open>ControllerHci\<close>
      (\<open>BleController.Hci.cpp\<close>, \<open>BleController.Connection.cpp\<close>), \<open>ControllerGatt\<close>
      (\<open>BleController.Gatt.cpp\<close>), \<open>BleController\<close> (\<open>BleController.cpp\<close>), \<open>ControllerHooks\<close>
      (\<open>ControllerHooks.cpp\<close>, \<open>CodeReference.hpp\<close>, \<open>CodeSignature.hpp\<close>). Its proofs:
      \<open>ControllerInvariant\<close>, \<open>ResolvingList\<close>, \<open>ControllerCommands\<close>, \<open>ControllerProperties\<close>,
      \<open>AclTransfer\<close>. \<open>GattPublication\<close> joins controller and peer.
    \<^item> The board (\<open>qemu/devices\<close>): \<open>I2cDevice\<close> states the contract of a register-based slave as the
      locale \<open>i2c_slave\<close>; \<open>M5pm1\<close>, \<open>M5ioe1\<close>, \<open>Cst820\<close> and \<open>Rx8130ce\<close> are one theory per chip. \<open>Bmi270\<close> is the
      motion sensor, with the part of C's \<open>float\<close> it uses in \<open>Float32\<close> (rationals, rounded to
      binary32 after each operation; the sign of zero is not kept) and the proofs \<open>ImuProperties\<close>
      (timers and upload) and \<open>ImuUpload\<close> (from the driver's first byte to the sample it reads).
    \<^item> The chip's own peripherals (\<open>qemu/esp32s3\<close>): \<open>Gpio\<close> (\<open>esp32s3_gpio.c\<close>: pads, matrix outputs,
      interrupts) and \<open>I2cMaster\<close> (\<open>esp32s3_i2c.c\<close>: command list, FIFOs, interrupts; the calls
      \<open>i2c_start_transfer\<close>, \<open>i2c_send\<close>, ... of the QEMU bus are the fields of the parameter
      \<open>i2c_bus\<close>). \<open>I2cProtocol\<close> states what a bus may rely on as the locale \<open>bus_contract\<close>,
      \<open>I2cProperties\<close> has the state machine of the master, and \<open>I2cTransfer\<close> composes firmware,
      master and power chip, with the bus given by its documented behaviour (\<open>attached\<close>).
    \<^item> The screen: \<open>Co5300\<close> (\<open>co5300.c\<close>: commands, pixel memory, tearing signal, the host's view),
      with the proofs \<open>PanelWindow\<close> and \<open>PanelRefresh\<close>; \<open>SpiMaster\<close> (\<open>esp32s3_spi.c\<close>: transactions,
      FIFO and DMA; the SSI bus and QEMU's GDMA unit are the parameters \<open>spi_bus\<close> and \<open>dma_unit\<close>),
      with the proof \<open>SpiDma\<close>; \<open>SpiPanel\<close> composes firmware, SPI master, DMA chain and panel.
    \<^item> The sound: \<open>I2s\<close> (\<open>esp32s3_i2s.c\<close>, \<open>esp32s3_i2s_audio.c\<close>: two timed DMA streams, frame timing,
      PCM packing; the codec interface and the GDMA masks are the parameter \<open>i2s_env\<close>), with the
      proofs \<open>I2sProperties\<close> (timers and descriptors), \<open>I2sAudio\<close> (packing undone) and \<open>I2sPlayback\<close> (a
      chain of descriptors heard by the codec).

  \<^bold>\<open>State and operations.\<close> A class or struct is a record with the fields of the source, a member
  function is a definition of the same name (with a prefix where two components share it) on that
  record. Peer and controller operations have type \<open>('s, 'a) prog\<close>: they return, throw or abort and
  leave a state either way. An object's calls to the outside are logged in its state: \<open>events\<close> of the
  peer (completions, callbacks), \<open>sock_log\<close> of a socket, \<open>guestWrites\<close> of the controller; such logs
  are observations and are never read by the code. What lies outside \<open>src/\<close> is a parameter: the
  clock, the kernel's answers, guest memory, AES, P-256 and random numbers, calendar functions.

  \<^bold>\<open>What is shown.\<close> For the peer: it never stalls, its calls return and let no exception escape,
  every completion is called at most once and no poll loses one, a timeout settles the queue,
  pairing releases a key only after verification and completes with a conforming responder, long
  writes arrive. For the transport: packets come out whole and in order. For the controller: its
  states are well-formed, encryption needs the key, its messages follow a session automaton, polling
  returns whatever the peer sends, each HCI command is completed once, the resolving list refines a
  map, ACL reassembly undoes fragmentation, and the GATT database it publishes is the one the peer
  takes over. For the chips: pins and interrupt lines are functions of the registers in every
  reachable state, and what the guest writes or the user enters is read back; the motion sensor runs
  only with its complete configuration file, and its timers exactly while something is measured. For the I2C master: it
  keeps the order of calls on the bus, a command list always ends or waits for the guest, and bytes
  the firmware writes to a chip come back. For the screen: pixels that firmware sends through the SPI
  master appear to the host where the window says, a DMA chain is resumed between transactions, and
  the refresh timer keeps its grid. For the sound: a chain of buffers reaches the codec in order on a
  clock that late timers do not shift, recording and playing back changes nothing but the sample
  width, and a descriptor in flight never overruns the transfer buffer.

  \<^bold>\<open>Fuel and bounds.\<close> Loops whose length is data are structural or have a \<open>termination\<close> proof.
  \<open>pollPeer_loop\<close> gets one more than the scripted answers of \<open>recv\<close> plus one, since each round that
  goes on consumes an answer (\<open>pollPeer_loop_fuel\<close>); the peer polls at most \<open>MaxPacketsPerPoll\<close>
  packets as the code does. A command list of the I2C master runs by a measure on its commands and
  on the bytes left in a command; the DMA loop by the bytes still wanted. Integers are words of the width the code uses; only the times of the
  clock, of the panel, of the motion sensor and of the sound streams are unbounded integers. The block loops
  of the sound transfer end by the bytes left.

  \<^bold>\<open>Assumed.\<close> The callbacks of the bridge do not call back into the peer while it runs, and AES
  encryption of the operating system succeeds. What an outgoing interrupt or pin line triggers in
  another device is a later step: no line calls back into the device that sets it. Log and trace output is not modelled.

  \<^bold>\<open>Not modelled.\<close> The user interface and the process management of the host (\<open>src/app\<close>,
  \<open>src/ui\<close>, \<open>src/models\<close>), which call SDL and the operating system; the Objective-C++ bridge to
  CoreBluetooth, whose calls and callbacks are the steps and events of the peer model; the generated
  signature tables, which are parameters of \<open>ControllerHooks\<close>; the CPU helper of the controller
  (\<open>ble_hle_helper.c\<close>: register windows and translated code), which manipulates QEMU's internals;
  QEMU type registration of every device.
\<close>

end
